(* ===== verification/Prelude.thy ===== *)
theory Prelude
  imports Main "HOL-Library.Word"
begin

text \<open>
  Shared ground of the development: the machine integers of the C code, the faults an
  execution can end in, sequencing of fallible steps, and the generic lemmas on lists and
  words that the components use.

  A C function that can fail an \<open>assert\<close>, run out of the bounds of an array or follow a
  null pointer returns a value of type \<open>'a result\<close>: \<open>Inl\<close> of the fault, or \<open>Inr\<close> of what
  the function leaves behind. \<open>Blocked\<close> is a call that waits for ever; \<open>Still_running\<close> is a loop
  that was still waiting when the description of the environment ended (theory \<open>World\<close>);
  \<open>Dangling_pointer\<close> is an access to or a release of memory that is not allocated, \<open>Exited\<close> the end
  of the program by \<open>exit\<close>.
  \<open>rbind\<close> sequences such steps and stops at the first fault.
\<close>

unbundle bit_operations_syntax

section \<open>Machine integers\<close>

type_synonym u8 = "8 word"
type_synonym u16 = "16 word"
type_synonym u32 = "32 word"
type_synonym u64 = "64 word"

text \<open>A node identifier is the C array \<open>uint64_t id[2]\<close>.\<close>

type_synonym node_id = "u64 \<times> u64"

section \<open>Faults\<close>

datatype fault =
    Assertion_failed
  | Out_of_bounds
  | Null_dereference
  | Uninitialised_read
  | Blocked
  | Still_running
  | Dangling_pointer
  | Exited

type_synonym 'a result = "fault + 'a"

definition rbind :: "'a result \<Rightarrow> ('a \<Rightarrow> 'b result) \<Rightarrow> 'b result" where
  "rbind r f = (case r of Inl e \<Rightarrow> Inl e | Inr x \<Rightarrow> f x)"

definition assert_that :: "bool \<Rightarrow> 'a result \<Rightarrow> 'a result" where
  "assert_that P r = (if P then r else Inl Assertion_failed)"

lemma rbind_simps [simp]:
  "rbind (Inl e) f = Inl e"
  "rbind (Inr x) f = f x"
  by (simp_all add: rbind_def)

lemma rbind_eq_Inr: "rbind r f = Inr y \<longleftrightarrow> (\<exists>x. r = Inr x \<and> f x = Inr y)"
  by (cases r) simp_all

lemma rbind_assoc: "rbind (rbind r f) g = rbind r (\<lambda>x. rbind (f x) g)"
  by (cases r) simp_all

lemma assert_that_simps [simp]:
  "assert_that True r = r"
  "assert_that False r = Inl Assertion_failed"
  by (simp_all add: assert_that_def)

lemma assert_that_eq_Inr: "assert_that P r = Inr y \<longleftrightarrow> P \<and> r = Inr y"
  by (simp add: assert_that_def)

section \<open>Sequences of array updates\<close>

text \<open>
  \<open>upds ws xs\<close> stores the value of every pair of \<open>ws\<close> at its index, in order: what a
  straight-line block of assignments \<open>a[i] = e\<close> leaves in \<open>a\<close>.
\<close>

definition upds :: "(nat \<times> 'a) list \<Rightarrow> 'a list \<Rightarrow> 'a list" where
  "upds ws xs = fold (\<lambda>(i, e) ys. ys[i := e]) ws xs"

lemma upds_simps [simp]:
  "upds [] xs = xs"
  "upds ((i, e) # ws) xs = upds ws (xs[i := e])"
  by (simp_all add: upds_def)

lemma upds_append: "upds (ws @ vs) xs = upds vs (upds ws xs)"
  by (simp add: upds_def)

lemma length_upds [simp]: "length (upds ws xs) = length xs"
  by (induction ws arbitrary: xs) auto

lemma nth_upds_notin: "i \<notin> fst ` set ws \<Longrightarrow> upds ws xs ! i = xs ! i"
  by (induction ws arbitrary: xs) auto

lemma nth_upds_distinct:
  assumes "distinct (map fst ws)" and "(i, e) \<in> set ws" and "i < length xs"
  shows "upds ws xs ! i = e"
  using assms
proof (induction ws arbitrary: xs)
  case Nil
  then show ?case by simp
next
  case (Cons w ws)
  show ?case
  proof (cases "w = (i, e)")
    case True
    with Cons.prems have "i \<notin> fst ` set ws" by auto
    with True Cons.prems(3) show ?thesis by (simp add: nth_upds_notin)
  next
    case False
    with Cons show ?thesis by (cases w) auto
  qed
qed

lemma upds_enumerate:
  "i + length es \<le> length xs \<Longrightarrow>
    upds (zip [i..<i + length es] es) xs = take i xs @ es @ drop (i + length es) xs"
proof (induction es arbitrary: i xs)
  case Nil
  then show ?case by simp
next
  case (Cons e es)
  have "[i..<i + length (e # es)] = i # [Suc i..<Suc i + length es]"
    using upt_conv_Cons [of i "i + length (e # es)"] by simp
  with Cons.IH [of "Suc i" "xs[i := e]"] Cons.prems show ?case
    by (simp add: take_Suc_conv_app_nth)
qed

section \<open>Counters\<close>

lemma unat_inc:
  fixes x :: "'a::len word"
  assumes "Suc (unat x) < 2 ^ LENGTH('a)"
  shows "unat (x + 1) = Suc (unat x)"
  using assms by (simp add: unat_word_ariths take_bit_nat_eq_self)

lemma unat_of_nat_small: "n < 2 ^ LENGTH('a) \<Longrightarrow> unat (of_nat n :: 'a::len word) = n"
  by (simp add: unat_of_nat take_bit_nat_eq_self)

lemma sint_u32: "sint (c :: u32) = (if uint c < 2 ^ 31 then uint c else uint c - 2 ^ 32)"
proof (cases "uint c < 2 ^ 31")
  case True
  then have "signed_take_bit 31 (uint c) = uint c"
    by (intro signed_take_bit_int_eq_self) (auto intro: order_trans [of _ 0])
  with True show ?thesis by (simp add: sint_uint)
next
  case False
  have "uint c < 2 ^ 32" using uint_bounded [of c] by simp
  with False have "signed_take_bit 31 (uint c - 2 ^ 32) = uint c - 2 ^ 32"
    by (intro signed_take_bit_int_eq_self) simp_all
  moreover have "signed_take_bit 31 (uint c) = signed_take_bit 31 (uint c - 2 ^ 32)"
    by (simp add: signed_take_bit_eq_iff_take_bit_eq take_bit_eq_mod)
  ultimately show ?thesis using False by (simp add: sint_uint)
qed

lemma uint_ucast_small: "uint (x :: u64) < 2 ^ 32 \<Longrightarrow> uint (ucast x :: u32) = uint x"
  by (simp add: unsigned_ucast_eq take_bit_int_eq_self)

section \<open>Bytes of a word\<close>

text \<open>
  \<open>masked_byte x m s\<close> is the C expression \<open>(uint8_t)((x & m) >> s)\<close>, the idiom by which the
  encoders of the repository pick one byte out of an integer; \<open>assemble\<close> is the decoders'
  block of assignments \<open>y = 0; y |= ((T) b) << s; ...\<close>.
\<close>

definition masked_byte :: "'a::len word \<Rightarrow> 'a word \<Rightarrow> nat \<Rightarrow> u8" where
  "masked_byte x m s = ucast (drop_bit s (x AND m))"

definition assemble :: "(u8 \<times> nat) list \<Rightarrow> 'a::len word" where
  "assemble bs = fold (\<lambda>(b, s) y. y OR push_bit s (ucast b)) bs 0"

named_theorems byte_simps

lemma masked_byte_eq:
  assumes "m = push_bit s 255"
  shows "masked_byte x m s = ucast (drop_bit s x)"
proof -
  have "m = push_bit s (mask 8)" by (simp add: assms mask_eq_exp_minus_1)
  then show ?thesis
    by (intro bit_word_eqI) (auto simp: masked_byte_def bit_simps dest: bit_imp_le_length)
qed

lemma masked_byte_u64 [byte_simps]:
  fixes x :: u64
  shows "masked_byte x 0xff00000000000000 56 = ucast (drop_bit 56 x)"
    and "masked_byte x 0x00ff000000000000 48 = ucast (drop_bit 48 x)"
    and "masked_byte x 0x0000ff0000000000 40 = ucast (drop_bit 40 x)"
    and "masked_byte x 0x000000ff00000000 32 = ucast (drop_bit 32 x)"
    and "masked_byte x 0x00000000ff000000 24 = ucast (drop_bit 24 x)"
    and "masked_byte x 0x0000000000ff0000 16 = ucast (drop_bit 16 x)"
    and "masked_byte x 0x000000000000ff00 8 = ucast (drop_bit 8 x)"
    and "masked_byte x 0x00000000000000ff 0 = ucast x"
  by (simp_all add: masked_byte_eq)

lemma masked_byte_u32 [byte_simps]:
  fixes x :: u32
  shows "masked_byte x 0xff000000 24 = ucast (drop_bit 24 x)"
    and "masked_byte x 0x00ff0000 16 = ucast (drop_bit 16 x)"
    and "masked_byte x 0x0000ff00 8 = ucast (drop_bit 8 x)"
    and "masked_byte x 0x000000ff 0 = ucast x"
  by (simp_all add: masked_byte_eq)

lemma masked_byte_u16 [byte_simps]:
  fixes x :: u16
  shows "masked_byte x 0xff00 8 = ucast (drop_bit 8 x)"
    and "masked_byte x 0x00ff 0 = ucast x"
  by (simp_all add: masked_byte_eq)

lemma assemble_Nil [simp]: "assemble [] = 0"
  by (simp add: assemble_def)

lemma bit_fold_or:
  "bit (fold (\<lambda>(b, s) y. y OR push_bit s (ucast b)) bs (z :: 'a::len word)) n \<longleftrightarrow>
    bit z n \<or> (\<exists>(b, s) \<in> set bs. s \<le> n \<and> n < LENGTH('a) \<and> bit b (n - s))"
  by (induction bs arbitrary: z) (auto simp: bit_simps)

lemma bit_assemble:
  "bit (assemble bs :: 'a::len word) n \<longleftrightarrow>
    (\<exists>(b, s) \<in> set bs. s \<le> n \<and> n < LENGTH('a) \<and> bit b (n - s))"
  by (simp add: assemble_def bit_fold_or)

text \<open>
  Splitting a word into bytes and assembling them again gives the word back, when the byte
  shifts tile the width.
\<close>

lemma assemble_bytes:
  fixes x :: "'a::len word"
  assumes tile: "\<And>n. n < LENGTH('a) \<Longrightarrow> \<exists>s \<in> set ss. s \<le> n \<and> n < s + 8"
  shows "assemble (map (\<lambda>s. (ucast (drop_bit s x), s)) ss) = x"
proof (rule bit_word_eqI)
  fix n assume n: "n < LENGTH('a)"
  from tile [OF n] obtain s where s: "s \<in> set ss" "s \<le> n" "n < s + 8" by blast
  have at: "bit (ucast (drop_bit t x) :: u8) (n - t) \<longleftrightarrow> n - t < 8 \<and> bit x n" if "t \<le> n" for t
    using that by (auto simp: bit_simps)
  show "bit (assemble (map (\<lambda>s. (ucast (drop_bit s x), s)) ss) :: 'a word) n = bit x n"
    using n s at by (auto simp: bit_assemble)
qed

lemma assemble_u64:
  "assemble [(ucast (drop_bit 56 x), 56), (ucast (drop_bit 48 x), 48),
     (ucast (drop_bit 40 x), 40), (ucast (drop_bit 32 x), 32), (ucast (drop_bit 24 x), 24),
     (ucast (drop_bit 16 x), 16), (ucast (drop_bit 8 x), 8), (ucast x, 0)] = (x :: u64)"
  using assemble_bytes [of "[56, 48, 40, 32, 24, 16, 8, 0]" x] by simp arith

lemma assemble_u32:
  "assemble [(ucast (drop_bit 24 x), 24), (ucast (drop_bit 16 x), 16),
     (ucast (drop_bit 8 x), 8), (ucast x, 0)] = (x :: u32)"
  using assemble_bytes [of "[24, 16, 8, 0]" x] by simp arith

lemma assemble_u16:
  "assemble [(ucast (drop_bit 8 x), 8), (ucast x, 0)] = (x :: u16)"
  using assemble_bytes [of "[8, 0]" x] by simp arith

end
