(* ===== verification/Config.thy ===== *)
theory Config
  imports Prelude
begin

text \<open>
  The compile-time configuration: \<open>MAC/include/config_mac.h\<close>,
  \<open>ipc-queues/include/config_ipc.h\<close>, the identifiers of \<open>include/config.h\<close> and the array
  macros' platform of \<open>utils/include/memory_macros.h\<close>, all at their default values.
  Durations are in microseconds, the unit of the RIOT build.
\<close>

datatype platform = LINUX | RIOT

definition UUID :: node_id where
  "UUID = (0x0c0b4663131a4c5f, 0xa1b73100144476c0)"

definition DETECTION_TIME :: u32 where "DETECTION_TIME = 1000000"
definition MAX_NUMBER_FREQS :: nat where "MAX_NUMBER_FREQS = 8"
definition MAX_NUMBER_SLOTS :: nat where "MAX_NUMBER_SLOTS = 16"
definition FRAME_DURATION :: u32 where "FRAME_DURATION = 1280000"

text \<open>\<open>FRAME_DURATION / MAX_NUMBER_SLOTS\<close>.\<close>

definition SLOT_DURATION :: u32 where
  "SLOT_DURATION = FRAME_DURATION div of_nat MAX_NUMBER_SLOTS"

text \<open>
  \<open>(CF_PHASE_PERCENTAGE * SLOT_DURATION) / MAX_NUMBER_FREQS\<close> with the percentage \<open>0.05\<close>,
  truncated to the \<open>uint32_t\<close> it is passed as: five hundredths of the slot, shared by the
  frequencies.
\<close>

definition CF_SLOT_DURATION :: u32 where
  "CF_SLOT_DURATION = (5 * SLOT_DURATION div 100) div of_nat MAX_NUMBER_FREQS"

definition CF_FREQUENCY :: u32 where "CF_FREQUENCY = 0"

definition FREQUENCIES :: "u32 list" where
  "FREQUENCIES = [903000000, 905000000, 907000000, 912000000,
                  917000000, 922000000, 927000000, 928000000]"

definition NO_COLLISION_FREQ :: u32 where "NO_COLLISION_FREQ = 2620000000"
definition NO_COLLISION_SLOT :: u8 where
  "NO_COLLISION_SLOT = of_nat MAX_NUMBER_SLOTS + 1"

definition MAX_NUMBER_CF_PACKETS :: nat where "MAX_NUMBER_CF_PACKETS = 2"
definition MAX_NUMBER_DATA_PACKETS :: nat where "MAX_NUMBER_DATA_PACKETS = 10"
definition PACKET_SIZE_MAC :: nat where "PACKET_SIZE_MAC = 256"
definition NETWORK_TIME_EPSILON :: nat where "NETWORK_TIME_EPSILON = 2000"
definition MAX_RETRIES :: nat where "MAX_RETRIES = 10"

definition MAX_QUEUES :: nat where "MAX_QUEUES = 10"
definition MAX_ELEMENTS_ON_QUEUE :: nat where "MAX_ELEMENTS_ON_QUEUE = 10"
definition MAX_MESSAGE_SIZE :: nat where "MAX_MESSAGE_SIZE = 256"
definition QUEUE_SIZE :: nat where "QUEUE_SIZE = 16"

definition MAX_NUMBER_BLOCKS :: nat where "MAX_NUMBER_BLOCKS = 10240"

text \<open>The bytes of one row of a slot bitmap: \<open>MAX_NUMBER_SLOTS / 8\<close>, rounded up.\<close>

definition SLOT_BYTES :: nat where
  "SLOT_BYTES = MAX_NUMBER_SLOTS div 8 + (if MAX_NUMBER_SLOTS mod 8 \<noteq> 0 then 1 else 0)"

lemmas config_sizes [simp] =
  MAX_NUMBER_FREQS_def MAX_NUMBER_SLOTS_def MAX_NUMBER_CF_PACKETS_def
  MAX_NUMBER_DATA_PACKETS_def PACKET_SIZE_MAC_def NETWORK_TIME_EPSILON_def MAX_RETRIES_def
  MAX_QUEUES_def MAX_ELEMENTS_ON_QUEUE_def MAX_MESSAGE_SIZE_def QUEUE_SIZE_def
  MAX_NUMBER_BLOCKS_def

lemma SLOT_BYTES_eq [simp]: "SLOT_BYTES = 2"
  by (simp add: SLOT_BYTES_def)

lemma SLOT_DURATION_eq [simp]: "SLOT_DURATION = 80000"
  by (simp add: SLOT_DURATION_def FRAME_DURATION_def)

lemma CF_SLOT_DURATION_eq [simp]: "CF_SLOT_DURATION = 500"
  by (simp add: CF_SLOT_DURATION_def)

lemma length_FREQUENCIES [simp]: "length FREQUENCIES = MAX_NUMBER_FREQS"
  by (simp add: FREQUENCIES_def)

lemma distinct_FREQUENCIES: "distinct FREQUENCIES"
  by (simp add: FREQUENCIES_def)

end
