(* ===== verification/Byte_Array.thy ===== *)
theory Byte_Array
  imports Config
begin

text \<open>
  The \<open>ARRAY\<close> interface of \<open>utils/include/memory_macros.h\<close>: a byte string written with
  \<open>WRITE_ARRAY\<close> and read with \<open>READ_ARRAY\<close>. On Linux an \<open>ARRAY\<close> is a \<open>uint8_t *\<close> and the
  macros are plain indexing; on RIOT it is a linked list of blocks and the macros call
  \<open>write_element\<close> and \<open>readE\<close> (\<open>read_element\<close> on an uninitialised local). Both behave as
  list update and list lookup within bounds. Out of bounds a Linux access is outside the
  allocation, a RIOT write does nothing and a RIOT read returns the uninitialised local.

  The locale \<open>byte_array\<close> is that interface; its lemmas describe the blocks of writes and
  reads the packet encoders and decoders are made of. It is interpreted below on the macros
  over a flat array, and in theory \<open>Memory\<close> on the linked blocks of \<open>utils/memory.c\<close>.
\<close>

definition WRITE_ARRAY :: "platform \<Rightarrow> u8 list \<Rightarrow> u8 \<Rightarrow> nat \<Rightarrow> u8 list result" where
  "WRITE_ARRAY p a e i =
     (if i < length a then Inr (a[i := e])
      else case p of LINUX \<Rightarrow> Inl Out_of_bounds | RIOT \<Rightarrow> Inr a)"

definition READ_ARRAY :: "platform \<Rightarrow> u8 list \<Rightarrow> nat \<Rightarrow> u8 result" where
  "READ_ARRAY p a i =
     (if i < length a then Inr (a ! i)
      else case p of LINUX \<Rightarrow> Inl Out_of_bounds | RIOT \<Rightarrow> Inl Uninitialised_read)"

text \<open>
  A fresh array of \<open>n\<close> bytes: on Linux \<open>malloc\<close>, whose contents are whatever \<open>junk\<close> was
  there; on RIOT \<open>create_array\<close>, which zeroes its blocks.
\<close>

definition new_array :: "platform \<Rightarrow> (nat \<Rightarrow> u8) \<Rightarrow> nat \<Rightarrow> u8 list" where
  "new_array p junk n = (case p of LINUX \<Rightarrow> map junk [0..<n] | RIOT \<Rightarrow> replicate n 0)"

lemma length_new_array [simp]: "length (new_array p junk n) = n"
  by (cases p) (simp_all add: new_array_def)

section \<open>Blocks of writes and reads\<close>

fun write_all :: "('b \<Rightarrow> u8 \<Rightarrow> nat \<Rightarrow> 'b result) \<Rightarrow> 'b \<Rightarrow> (nat \<times> u8) list \<Rightarrow> 'b result" where
  "write_all wr b [] = Inr b"
| "write_all wr b ((i, e) # ws) = rbind (wr b e i) (\<lambda>b'. write_all wr b' ws)"

fun read_list :: "('b \<Rightarrow> nat \<Rightarrow> u8 result) \<Rightarrow> 'b \<Rightarrow> nat list \<Rightarrow> u8 list result" where
  "read_list rd b [] = Inr []"
| "read_list rd b (i # is) =
     rbind (rd b i) (\<lambda>e. rbind (read_list rd b is) (\<lambda>es. Inr (e # es)))"

text \<open>
  \<open>read_word rd b [(i, s), ...]\<close> is the block \<open>y = 0; y |= ((T) READ_ARRAY(b, i)) << s; ...\<close>.
\<close>

definition read_word ::
    "('b \<Rightarrow> nat \<Rightarrow> u8 result) \<Rightarrow> 'b \<Rightarrow> (nat \<times> nat) list \<Rightarrow> 'a::len word result" where
  "read_word rd b ls =
     rbind (read_list rd b (map fst ls)) (\<lambda>es. Inr (assemble (zip es (map snd ls))))"

lemma write_all_append:
  "write_all wr b (ws @ vs) = rbind (write_all wr b ws) (\<lambda>b'. write_all wr b' vs)"
  by (induction wr b ws rule: write_all.induct) (auto simp: rbind_assoc)

lemma zip_fst_snd:
  "zip (map (\<lambda>p. f (fst p)) ls) (map snd ls) = map (\<lambda>(i, s). (f i, s)) ls"
  by (induction ls) auto

locale byte_array =
  fixes wr :: "'b \<Rightarrow> u8 \<Rightarrow> nat \<Rightarrow> 'b result"
    and rd :: "'b \<Rightarrow> nat \<Rightarrow> u8 result"
    and cells :: "'b \<Rightarrow> u8 list"
    and invar :: "'b \<Rightarrow> bool"
  assumes wr_in: "invar b \<Longrightarrow> i < length (cells b) \<Longrightarrow>
      \<exists>b'. wr b e i = Inr b' \<and> invar b' \<and> cells b' = (cells b)[i := e]"
    and rd_in: "invar b \<Longrightarrow> i < length (cells b) \<Longrightarrow> rd b i = Inr (cells b ! i)"
begin

lemma write_all_in:
  assumes "invar b" and "\<forall>(i, e) \<in> set ws. i < length (cells b)"
  shows "\<exists>b'. write_all wr b ws = Inr b' \<and> invar b' \<and> cells b' = upds ws (cells b)"
  using assms
proof (induction ws arbitrary: b)
  case Nil
  then show ?case by simp
next
  case (Cons w ws)
  obtain i e where w: "w = (i, e)" by (cases w)
  with Cons.prems obtain b1 where
    b1: "wr b e i = Inr b1" "invar b1" "cells b1 = (cells b)[i := e]"
    using wr_in [of b i e] by auto
  with Cons.prems have "\<forall>(i, e) \<in> set ws. i < length (cells b1)" by auto
  with Cons.IH [of b1] b1 w show ?case by auto
qed

lemma write_all_block:
  assumes "invar b" and fsts: "map fst ws = [0..<k]" and "k \<le> length (cells b)"
  shows "\<exists>b'. write_all wr b ws = Inr b' \<and> invar b' \<and>
           cells b' = map snd ws @ drop k (cells b)"
proof -
  have len: "length ws = k" using arg_cong [OF fsts, of length] by simp
  have "fst ` set ws = {0..<k}" using arg_cong [OF fsts, of set] by simp
  then have "i < k" if "(i, e) \<in> set ws" for i e
    using that by (metis atLeastLessThan_iff fst_conv imageI)
  with assms(3) have "\<forall>(i, e) \<in> set ws. i < length (cells b)" by fastforce
  from write_all_in [OF assms(1) this] obtain b' where
    b': "write_all wr b ws = Inr b'" "invar b'" "cells b' = upds ws (cells b)" by blast
  have "ws = zip [0..<0 + length (map snd ws)] (map snd ws)"
    using zip_map_fst_snd [of ws] fsts len by simp
  then have "upds ws (cells b) = map snd ws @ drop k (cells b)"
    using upds_enumerate [of 0 "map snd ws" "cells b"] assms(3) len by simp
  with b' show ?thesis by simp
qed

lemma read_list_in:
  "invar b \<Longrightarrow> \<forall>i \<in> set is. i < length (cells b) \<Longrightarrow>
    read_list rd b is = Inr (map (\<lambda>i. cells b ! i) is)"
  by (induction "is") (auto simp: rd_in)

lemma read_word_in:
  "invar b \<Longrightarrow> \<forall>i \<in> fst ` set ls. i < length (cells b) \<Longrightarrow>
    read_word rd b ls = Inr (assemble (map (\<lambda>(i, s). (cells b ! i, s)) ls))"
  by (simp add: read_word_def read_list_in o_def zip_fst_snd)

end

interpretation flat: byte_array "WRITE_ARRAY p" "READ_ARRAY p" "\<lambda>a. a" "\<lambda>a. True" for p
  by unfold_locales (simp_all add: WRITE_ARRAY_def READ_ARRAY_def)

text \<open>A block of writes that fills a prefix of the array leaves exactly the values written.\<close>

lemma flat_write_block:
  assumes "map fst ws = [0..<k]" and "k \<le> length a"
  shows "write_all (WRITE_ARRAY p) a ws = Inr (map snd ws @ drop k a)"
  using flat.write_all_block [OF TrueI assms, of p] by auto

lemma flat_read_word:
  "\<forall>(i, s) \<in> set ls. i < length a \<Longrightarrow>
    read_word (READ_ARRAY p) a ls = Inr (assemble (map (\<lambda>(i, s). (a ! i, s)) ls))"
  by (rule flat.read_word_in) auto

lemma flat_read_list:
  "\<forall>i \<in> set is. i < length a \<Longrightarrow> read_list (READ_ARRAY p) a is = Inr (map (\<lambda>i. a ! i) is)"
  by (rule flat.read_list_in) auto

lemma READ_ARRAY_in: "i < length a \<Longrightarrow> READ_ARRAY p a i = Inr (a ! i)"
  by (simp add: READ_ARRAY_def)

lemmas flat_reads = flat_read_word flat_read_list READ_ARRAY_in

section \<open>Copy loops\<close>

text \<open>
  \<open>for (i ...) { e = READ_ARRAY(src, i + so); WRITE_ARRAY(dst, e, i + wo); }\<close> over the indices
  of the list.
\<close>

fun copy_elements ::
    "platform \<Rightarrow> u8 list \<Rightarrow> nat \<Rightarrow> u8 list \<Rightarrow> nat \<Rightarrow> nat list \<Rightarrow> u8 list result" where
  "copy_elements p src so dst wo [] = Inr dst"
| "copy_elements p src so dst wo (i # is) =
     rbind (READ_ARRAY p src (i + so)) (\<lambda>e.
     rbind (WRITE_ARRAY p dst e (i + wo)) (\<lambda>dst'. copy_elements p src so dst' wo is))"

lemma copy_elements_in:
  "k + n + so \<le> length src \<Longrightarrow> k + n + wo \<le> length dst \<Longrightarrow>
    copy_elements p src so dst wo [k..<k + n] =
      Inr (take (k + wo) dst @ take n (drop (k + so) src) @ drop (k + n + wo) dst)"
proof (induction n arbitrary: k dst)
  case 0
  then show ?case by simp
next
  case (Suc n)
  have upt: "[k..<k + Suc n] = k # [Suc k..<Suc k + n]"
    using upt_conv_Cons [of k "k + Suc n"] by simp
  let ?e = "src ! (k + so)" and ?dst = "dst[k + wo := src ! (k + so)]"
  have "copy_elements p src so dst wo [k..<k + Suc n] =
      copy_elements p src so ?dst wo [Suc k..<Suc k + n]"
    by (subst upt) (use Suc.prems in \<open>simp add: READ_ARRAY_def WRITE_ARRAY_def del: upt_Suc\<close>)
  also have "\<dots> = Inr (take (Suc k + wo) ?dst @ take n (drop (Suc k + so) src) @
      drop (Suc k + n + wo) ?dst)"
    using Suc.prems by (intro Suc.IH) auto
  finally show ?case
    using Suc.prems by (simp add: take_Suc_conv_app_nth Cons_nth_drop_Suc [symmetric])
qed

lemma copy_elements_prefix:
  "n + so \<le> length src \<Longrightarrow> n + wo \<le> length dst \<Longrightarrow>
    copy_elements p src so dst wo [0..<n] =
      Inr (take wo dst @ take n (drop so src) @ drop (n + wo) dst)"
  using copy_elements_in [of 0 n so src wo dst p] by simp

lemma copy_elements_append:
  "copy_elements p src so dst wo (is @ js) =
     rbind (copy_elements p src so dst wo is) (\<lambda>d. copy_elements p src so d wo js)"
  by (induction "is" arbitrary: dst) (simp_all add: rbind_assoc)

text \<open>Past the end of the destination a RIOT copy goes on without effect.\<close>

lemma copy_elements_beyond:
  "\<forall>i \<in> set is. i + so < length src \<and> length dst \<le> i + wo \<Longrightarrow>
    copy_elements RIOT src so dst wo is = Inr dst"
  by (induction "is") (auto simp: READ_ARRAY_def WRITE_ARRAY_def)

lemma copy_elements_overflow:
  assumes "n + so \<le> length src" and "wo \<le> length dst" and "length dst < n + wo"
  shows "copy_elements LINUX src so dst wo [0..<n] = Inl Out_of_bounds"
    and "copy_elements RIOT src so dst wo [0..<n] =
           Inr (take wo dst @ take (length dst - wo) (drop so src))"
proof -
  let ?k = "length dst - wo"
  let ?d = "take wo dst @ take ?k (drop so src)"
  have split: "[0..<n] = [0..<?k] @ ?k # [Suc ?k..<n]"
    using upt_add_eq_append [of 0 ?k "n - ?k"] upt_conv_Cons [of ?k n] assms by simp
  have prefix: "copy_elements p src so dst wo [0..<?k] = Inr ?d" for p
    using copy_elements_prefix [of ?k so src wo dst p] assms by simp
  have len: "length ?d = length dst" using assms by simp
  have "copy_elements LINUX src so ?d wo (?k # [Suc ?k..<n]) = Inl Out_of_bounds"
    using len assms by (simp add: READ_ARRAY_def WRITE_ARRAY_def)
  with prefix show "copy_elements LINUX src so dst wo [0..<n] = Inl Out_of_bounds"
    unfolding split copy_elements_append by simp
  have "copy_elements RIOT src so ?d wo (?k # [Suc ?k..<n]) = Inr ?d"
    by (rule copy_elements_beyond) (use len assms in auto)
  with prefix show "copy_elements RIOT src so dst wo [0..<n] = Inr ?d"
    unfolding split copy_elements_append by simp
qed

lemma write_out_of_bounds:
  "length a \<le> i \<Longrightarrow> WRITE_ARRAY RIOT a e i = Inr a"
  "length a \<le> i \<Longrightarrow> WRITE_ARRAY LINUX a e i = Inl Out_of_bounds"
  by (simp_all add: WRITE_ARRAY_def)

end
