(* ===== verification/Control_Packet.thy ===== *)
theory Control_Packet
  imports Byte_Array
begin

text \<open>
  The control packet of \<open>MAC/ControlPacket.c\<close>: its record, the field operations, the encoder
  \<open>controlpacket_get_packet_bytestring\<close> and the decoder
  \<open>controlpacket_construct_packet_from_bytestring\<close>. The matrix \<open>occupied_slots\<close> has one row
  per frequency and one bit per slot. The two-element array \<open>node_id\<close> is a pair.
\<close>

section \<open>The packet\<close>

record ControlPacket_t =
  currentSlot :: u8
  collisionSlot :: u8
  hopCount :: u16
  currentFrame :: u32
  collisionFrequency :: u32
  initTime :: u32
  networkTime :: u64
  node_id :: node_id
  occupied_slots :: "u8 list list"

text \<open>Rows and columns of a slot bitmap, as the C array type fixes them.\<close>

definition wf_bitmap :: "u8 list list \<Rightarrow> bool" where
  "wf_bitmap m \<longleftrightarrow> length m = MAX_NUMBER_FREQS \<and> (\<forall>r \<in> set m. length r = SLOT_BYTES)"

definition zero_bitmap :: "u8 list list" where
  "zero_bitmap = replicate MAX_NUMBER_FREQS (replicate SLOT_BYTES 0)"

lemma wf_zero_bitmap [simp]: "wf_bitmap zero_bitmap"
  by (simp add: wf_bitmap_def zero_bitmap_def)

definition get_number_bytes :: "u8 \<Rightarrow> u8" where
  "get_number_bytes n =
     (let res = unat n mod 8;
          add = (if res = 0 then 0 else 8 - res)
      in of_nat ((unat n + add) div 8))"

text \<open>\<open>memset(pkt, 0, sizeof(ControlPacket_t))\<close>.\<close>

definition controlpacket_init :: ControlPacket_t where
  "controlpacket_init = \<lparr>currentSlot = 0, collisionSlot = 0, hopCount = 0, currentFrame = 0,
     collisionFrequency = 0, initTime = 0, networkTime = 0, node_id = (0, 0),
     occupied_slots = zero_bitmap\<rparr>"

definition controlpacket_destroy :: "ControlPacket_t \<Rightarrow> ControlPacket_t" where
  "controlpacket_destroy pkt = controlpacket_init"

definition controlpacket_clear :: "ControlPacket_t \<Rightarrow> ControlPacket_t" where
  "controlpacket_clear pkt = controlpacket_init"

definition controlpacket_create :: "ControlPacket_t \<Rightarrow> node_id \<Rightarrow> u32 \<Rightarrow> u8 \<Rightarrow> u8 \<Rightarrow> u32 \<Rightarrow> u16 \<Rightarrow>
    u64 \<Rightarrow> u32 \<Rightarrow> u8 list list \<Rightarrow> ControlPacket_t" where
  "controlpacket_create pkt nid frame slot collisionSlots collisionFreq hops netTime iTime occ =
     pkt\<lparr>node_id := nid, currentFrame := frame, currentSlot := slot,
         collisionSlot := collisionSlots, collisionFrequency := collisionFreq,
         hopCount := hops, networkTime := netTime, initTime := iTime, occupied_slots := occ\<rparr>"

definition controlpacket_set_current_frame :: "ControlPacket_t \<Rightarrow> u32 \<Rightarrow> ControlPacket_t" where
  "controlpacket_set_current_frame pkt frame = pkt\<lparr>currentFrame := frame\<rparr>"

definition controlpacket_get_current_frame :: "ControlPacket_t \<Rightarrow> u32" where
  "controlpacket_get_current_frame pkt = currentFrame pkt"

definition controlpacket_set_current_slot :: "ControlPacket_t \<Rightarrow> u8 \<Rightarrow> ControlPacket_t" where
  "controlpacket_set_current_slot pkt slot = pkt\<lparr>currentSlot := slot\<rparr>"

definition controlpacket_get_current_slot :: "ControlPacket_t \<Rightarrow> u8" where
  "controlpacket_get_current_slot pkt = currentSlot pkt"

definition controlpacket_get_collision_slot :: "ControlPacket_t \<Rightarrow> u8" where
  "controlpacket_get_collision_slot pkt = collisionSlot pkt"

definition controlpacket_get_collision_frequency :: "ControlPacket_t \<Rightarrow> u32" where
  "controlpacket_get_collision_frequency pkt = collisionFrequency pkt"

definition controlpacket_set_hop_count :: "ControlPacket_t \<Rightarrow> u16 \<Rightarrow> ControlPacket_t" where
  "controlpacket_set_hop_count pkt count = pkt\<lparr>hopCount := count\<rparr>"

definition controlpacket_get_hop_count :: "ControlPacket_t \<Rightarrow> u16" where
  "controlpacket_get_hop_count pkt = hopCount pkt"

definition controlpacket_set_network_time :: "ControlPacket_t \<Rightarrow> u64 \<Rightarrow> ControlPacket_t" where
  "controlpacket_set_network_time pkt time = pkt\<lparr>networkTime := time\<rparr>"

definition controlpacket_get_network_time :: "ControlPacket_t \<Rightarrow> u64" where
  "controlpacket_get_network_time pkt = networkTime pkt"

definition controlpacket_set_init_time :: "ControlPacket_t \<Rightarrow> u32 \<Rightarrow> ControlPacket_t" where
  "controlpacket_set_init_time pkt time = pkt\<lparr>initTime := time\<rparr>"

definition controlpacket_get_init_time :: "ControlPacket_t \<Rightarrow> u32" where
  "controlpacket_get_init_time pkt = initTime pkt"

definition controlpacket_get_occupied_slots :: "ControlPacket_t \<Rightarrow> u8 list list" where
  "controlpacket_get_occupied_slots pkt = occupied_slots pkt"

lemmas controlpacket_getters [simp] =
  controlpacket_get_current_frame_def controlpacket_get_current_slot_def
  controlpacket_get_collision_slot_def controlpacket_get_collision_frequency_def
  controlpacket_get_hop_count_def controlpacket_get_network_time_def
  controlpacket_get_init_time_def controlpacket_get_occupied_slots_def

section \<open>Encoding\<close>

text \<open>The writes of the fixed fields, line by line.\<close>

definition control_header_writes :: "ControlPacket_t \<Rightarrow> (nat \<times> u8) list" where
  "control_header_writes pkt =
     [(0, 1),
      (1, masked_byte (fst (node_id pkt)) 0xff00000000000000 56),
      (2, masked_byte (fst (node_id pkt)) 0x00ff000000000000 48),
      (3, masked_byte (fst (node_id pkt)) 0x0000ff0000000000 40),
      (4, masked_byte (fst (node_id pkt)) 0x000000ff00000000 32),
      (5, masked_byte (fst (node_id pkt)) 0x00000000ff000000 24),
      (6, masked_byte (fst (node_id pkt)) 0x0000000000ff0000 16),
      (7, masked_byte (fst (node_id pkt)) 0x000000000000ff00 8),
      (8, masked_byte (fst (node_id pkt)) 0x00000000000000ff 0),
      (9, masked_byte (snd (node_id pkt)) 0xff00000000000000 56),
      (10, masked_byte (snd (node_id pkt)) 0x00ff000000000000 48),
      (11, masked_byte (snd (node_id pkt)) 0x0000ff0000000000 40),
      (12, masked_byte (snd (node_id pkt)) 0x000000ff00000000 32),
      (13, masked_byte (snd (node_id pkt)) 0x00000000ff000000 24),
      (14, masked_byte (snd (node_id pkt)) 0x0000000000ff0000 16),
      (15, masked_byte (snd (node_id pkt)) 0x000000000000ff00 8),
      (16, masked_byte (snd (node_id pkt)) 0x00000000000000ff 0),
      (17, masked_byte (currentFrame pkt) 0xff000000 24),
      (18, masked_byte (currentFrame pkt) 0x00ff0000 16),
      (19, masked_byte (currentFrame pkt) 0x0000ff00 8),
      (20, masked_byte (currentFrame pkt) 0x000000ff 0),
      (21, currentSlot pkt),
      (22, collisionSlot pkt),
      (23, masked_byte (collisionFrequency pkt) 0xff000000 24),
      (24, masked_byte (collisionFrequency pkt) 0x00ff0000 16),
      (25, masked_byte (collisionFrequency pkt) 0x0000ff00 8),
      (26, masked_byte (collisionFrequency pkt) 0x000000ff 0),
      (27, masked_byte (hopCount pkt) 0xff00 8),
      (28, masked_byte (hopCount pkt) 0x00ff 0),
      (29, masked_byte (networkTime pkt) 0xff00000000000000 56),
      (30, masked_byte (networkTime pkt) 0x00ff000000000000 48),
      (31, masked_byte (networkTime pkt) 0x0000ff0000000000 40),
      (32, masked_byte (networkTime pkt) 0x000000ff00000000 32),
      (33, masked_byte (networkTime pkt) 0x00000000ff000000 24),
      (34, masked_byte (networkTime pkt) 0x0000000000ff0000 16),
      (35, masked_byte (networkTime pkt) 0x000000000000ff00 8),
      (36, masked_byte (networkTime pkt) 0x00000000000000ff 0),
      (37, masked_byte (initTime pkt) 0xff000000 24),
      (38, masked_byte (initTime pkt) 0x00ff0000 16),
      (39, masked_byte (initTime pkt) 0x0000ff00 8),
      (40, masked_byte (initTime pkt) 0x000000ff 0)]"

text \<open>The nested loop over frequencies and bitmap bytes.\<close>

definition control_slots_writes :: "ControlPacket_t \<Rightarrow> (nat \<times> u8) list" where
  "control_slots_writes pkt =
     concat (map (\<lambda>i. map (\<lambda>j. (i * SLOT_BYTES + j + 41, occupied_slots pkt ! i ! j)) [0..<SLOT_BYTES])
       [0..<MAX_NUMBER_FREQS])"

text \<open>
  The rest of the string is one random byte, repeated: \<open>rnd\<close> is what \<open>rand()\<close> returned.
\<close>

definition control_padding_writes :: "u32 \<Rightarrow> (nat \<times> u8) list" where
  "control_padding_writes rnd =
     map (\<lambda>i. (i, ucast rnd)) [41 + MAX_NUMBER_FREQS * SLOT_BYTES..<PACKET_SIZE_MAC]"

definition controlpacket_get_packet_bytestring ::
    "platform \<Rightarrow> (nat \<Rightarrow> u8) \<Rightarrow> u32 \<Rightarrow> ControlPacket_t \<Rightarrow> u8 list result" where
  "controlpacket_get_packet_bytestring p junk rnd pkt =
     (let byteStr = new_array p junk (case p of LINUX \<Rightarrow> PACKET_SIZE_MAC | RIOT \<Rightarrow> PACKET_SIZE_MAC + 1)
      in write_all (WRITE_ARRAY p) byteStr
           (control_header_writes pkt @ control_slots_writes pkt @ control_padding_writes rnd))"

section \<open>Decoding\<close>

fun read_rows :: "platform \<Rightarrow> u8 list \<Rightarrow> nat \<Rightarrow> nat \<Rightarrow> nat list \<Rightarrow> u8 list list result" where
  "read_rows p bs base m [] = Inr []"
| "read_rows p bs base m (i # is) =
     rbind (read_list (READ_ARRAY p) bs (map (\<lambda>j. i * m + j + base) [0..<m]))
       (\<lambda>r. rbind (read_rows p bs base m is) (\<lambda>rs. Inr (r # rs)))"

definition controlpacket_construct_packet_from_bytestring ::
    "platform \<Rightarrow> ControlPacket_t \<Rightarrow> u8 list \<Rightarrow> ControlPacket_t result" where
  "controlpacket_construct_packet_from_bytestring p pkt bs =
     rbind (READ_ARRAY p bs 0) (\<lambda>t.
     if t \<noteq> 1 then Inr pkt
     else
     rbind (read_word (READ_ARRAY p) bs [(1, 56), (2, 48), (3, 40), (4, 32), (5, 24), (6, 16), (7, 8), (8, 0)]) (\<lambda>id0.
     rbind (read_word (READ_ARRAY p) bs [(9, 56), (10, 48), (11, 40), (12, 32), (13, 24), (14, 16), (15, 8), (16, 0)]) (\<lambda>id1.
     rbind (read_word (READ_ARRAY p) bs [(17, 24), (18, 16), (19, 8), (20, 0)]) (\<lambda>frame.
     rbind (READ_ARRAY p bs 21) (\<lambda>slot.
     rbind (READ_ARRAY p bs 22) (\<lambda>cslot.
     rbind (read_word (READ_ARRAY p) bs [(23, 24), (24, 16), (25, 8), (26, 0)]) (\<lambda>cfreq.
     rbind (read_word (READ_ARRAY p) bs [(27, 8), (28, 0)]) (\<lambda>hops.
     rbind (read_word (READ_ARRAY p) bs [(29, 52), (30, 48), (31, 40), (32, 32), (33, 24), (34, 16), (35, 8), (36, 0)]) (\<lambda>ntime.
     rbind (read_word (READ_ARRAY p) bs [(37, 24), (38, 16), (39, 8), (40, 0)]) (\<lambda>itime.
     rbind (read_rows p bs 41 SLOT_BYTES [0..<MAX_NUMBER_FREQS]) (\<lambda>occ.
       Inr (pkt\<lparr>node_id := (id0, id1), currentFrame := frame, currentSlot := slot,
                collisionSlot := cslot, collisionFrequency := cfreq, hopCount := hops,
                networkTime := ntime, initTime := itime, occupied_slots := occ\<rparr>))))))))))))"

section \<open>What the encoder writes and the decoder reads\<close>

lemma bitmap_rows: "wf_bitmap m \<Longrightarrow> map (\<lambda>i. map (\<lambda>j. m ! i ! j) [0..<SLOT_BYTES]) [0..<MAX_NUMBER_FREQS] = m"
proof (rule nth_equalityI)
  fix i assume wf: "wf_bitmap m" and "i < length (map (\<lambda>i. map (\<lambda>j. m ! i ! j) [0..<SLOT_BYTES]) [0..<MAX_NUMBER_FREQS])"
  then have i: "i < length m" "length (m ! i) = SLOT_BYTES" by (auto simp: wf_bitmap_def)
  with wf show "map (\<lambda>i. map (\<lambda>j. m ! i ! j) [0..<SLOT_BYTES]) [0..<MAX_NUMBER_FREQS] ! i = m ! i"
    using map_nth [of "m ! i"] by (simp add: wf_bitmap_def)
qed (simp add: wf_bitmap_def)

lemma header_fst: "map fst (control_header_writes pkt @ control_slots_writes pkt) = [0..<57]"
  by (simp add: control_header_writes_def control_slots_writes_def upt_conv_Cons)

lemma padding_fst: "map fst (control_padding_writes rnd) = [57..<256]"
  by (simp add: control_padding_writes_def o_def)

lemma control_writes_fst: "map fst (control_header_writes pkt @ control_slots_writes pkt @ control_padding_writes rnd) = [0..<256]"
proof -
  have "[0..<256] = [0..<57] @ [57..<256::nat]" using upt_add_eq_append [of 0 57 199] by simp
  then show ?thesis
   using header_fst [of pkt] padding_fst [of rnd] by (metis append_assoc map_append)
qed

definition control_bytes :: "ControlPacket_t \<Rightarrow> u8 list" where
  "control_bytes pkt = map snd (control_header_writes pkt @ control_slots_writes pkt)"


lemma control_encode:
  "controlpacket_get_packet_bytestring p junk rnd pkt =
     Inr (control_bytes pkt @ replicate 199 (ucast rnd) @ (case p of LINUX \<Rightarrow> [] | RIOT \<Rightarrow> [0]))"
proof -
  have pad: "map snd (control_padding_writes rnd) = replicate 199 (ucast rnd)"
    by (simp add: control_padding_writes_def o_def map_replicate_const del: upt_rec_numeral)
  have "drop 256 (new_array p junk (case p of LINUX \<Rightarrow> 256 | RIOT \<Rightarrow> 257)) =
      (case p of LINUX \<Rightarrow> [] | RIOT \<Rightarrow> [0])"
    by (cases p) (simp_all add: new_array_def)
  with flat_write_block [OF control_writes_fst, of "new_array p junk (case p of LINUX \<Rightarrow> 256 | RIOT \<Rightarrow> 257)" p pkt rnd] pad
  show ?thesis
    by (cases p) (simp_all add: controlpacket_get_packet_bytestring_def control_bytes_def)
qed

definition received_time :: "u64 \<Rightarrow> u64" where
  "received_time t = assemble
     [(ucast (drop_bit 56 t), 52), (ucast (drop_bit 48 t), 48), (ucast (drop_bit 40 t), 40),
      (ucast (drop_bit 32 t), 32), (ucast (drop_bit 24 t), 24), (ucast (drop_bit 16 t), 16),
      (ucast (drop_bit 8 t), 8), (ucast t, 0)]"

lemma control_decode:
  assumes wf: "wf_bitmap (occupied_slots pkt)"
  shows "controlpacket_construct_packet_from_bytestring p pkt0 (control_bytes pkt @ rest) =
    Inr (pkt\<lparr>networkTime := received_time (networkTime pkt)\<rparr>)"
proof -
  have "length (control_bytes pkt) = 57"
    using arg_cong [OF header_fst [of pkt], of length] by (simp add: control_bytes_def)
  then have "controlpacket_construct_packet_from_bytestring p pkt0 (control_bytes pkt @ rest) =
    Inr (pkt0\<lparr>node_id := node_id pkt, currentFrame := currentFrame pkt,
        currentSlot := currentSlot pkt, collisionSlot := collisionSlot pkt,
        collisionFrequency := collisionFrequency pkt, hopCount := hopCount pkt,
        networkTime := received_time (networkTime pkt), initTime := initTime pkt,
        occupied_slots := map (\<lambda>i. map (\<lambda>j. occupied_slots pkt ! i ! j) [0..<SLOT_BYTES])
          [0..<MAX_NUMBER_FREQS]\<rparr>)"
    by (simp add: controlpacket_construct_packet_from_bytestring_def flat_reads upt_conv_Cons
        nth_append)
      (simp add: control_bytes_def control_header_writes_def control_slots_writes_def
        upt_conv_Cons byte_simps assemble_u64 assemble_u32 assemble_u16 received_time_def)
  then show ?thesis
    using bitmap_rows [OF wf] by (cases pkt; cases pkt0) simp
qed

lemma received_time_small:
  assumes "drop_bit 56 t = 0"
  shows "received_time t = t"
proof -
  have "received_time t = assemble [(ucast (drop_bit 56 t), 56), (ucast (drop_bit 48 t), 48),
     (ucast (drop_bit 40 t), 40), (ucast (drop_bit 32 t), 32), (ucast (drop_bit 24 t), 24),
     (ucast (drop_bit 16 t), 16), (ucast (drop_bit 8 t), 8), (ucast t, 0)]"
    using assms by (simp add: received_time_def assemble_def)
  then show ?thesis by (simp only: assemble_u64)
qed

lemma bit_received_time:
  "56 \<le> n \<Longrightarrow> n < 64 \<Longrightarrow> bit (received_time t) n \<longleftrightarrow> n < 60 \<and> bit t (n + 4)"
  by (auto simp: received_time_def bit_assemble bit_simps add.commute)

lemma received_time_iff: "received_time t = t \<longleftrightarrow> t < 2 ^ 56"
proof -
  have less: "t < 2 ^ 56 \<longleftrightarrow> drop_bit 56 t = 0"
  proof -
    have "drop_bit 56 t = 0 \<longleftrightarrow> unat t div 2 ^ 56 = 0"
      by (simp add: unat_div_distrib drop_bit_eq_div flip: unat_0_iff)
    then show ?thesis by (simp add: word_less_nat_alt div_eq_0_iff)
  qed
  have "drop_bit 56 t = 0" if eq: "received_time t = t"
  proof (rule bit_word_eqI)
    fix n assume "n < LENGTH(64)"
    have high: "\<not> bit t m" if "60 \<le> m" "m < 64" for m
      using bit_received_time [of m t] that eq by auto
    have "\<not> bit t m" if "56 \<le> m" "m < 64" for m
      using bit_received_time [of m t] that eq high [of m] high [of "m + 4"] by auto
    then show "bit (drop_bit 56 t) n = bit 0 n"
      using bit_imp_le_length [of t "56 + n"] by (auto simp: bit_simps)
  qed
  then show ?thesis using received_time_small less by blast
qed
text \<open>The rounded-up number of bytes: the comment of the C function speaks of the next multiple.\<close>

lemma round_up_to_bytes:
  fixes m :: nat
  shows "(m + (if m mod 8 = 0 then 0 else 8 - m mod 8)) div 8 = (m + 7) div 8"
proof -
  obtain q r where "m = 8 * q + r" and "r < 8"
    by (metis mod_less_divisor mult_div_mod_eq zero_less_numeral)
  moreover have "(8 * q + r + 7) div 8 = (if r = 0 then q else q + 1)"
    by (rule div_nat_eqI) (use \<open>r < 8\<close> in auto)
  moreover have "(8 * q + r + (8 - r)) div 8 = q + 1"
    by (rule div_nat_eqI) (use \<open>r < 8\<close> in auto)
  ultimately show ?thesis by simp
qed

lemma get_number_bytes_ceiling: "unat (get_number_bytes n) = (unat n + 7) div 8"
proof -
  have "unat n < 256" using unsigned_less [where ?'a = nat and w = n] by simp
  then have "(unat n + 7) div 8 < 256" by simp
  then show ?thesis
    by (simp add: get_number_bytes_def Let_def unat_of_nat round_up_to_bytes)
qed

section \<open>Properties\<close>

text \<open>
  C26: decoding the byte string of a control packet gives the packet back, on both platforms,
  whatever the receiving packet held before, as long as the network time is below \<open>2 ^ 56\<close>.
\<close>

theorem control_packet_roundtrip:
  assumes "wf_bitmap (occupied_slots pkt)" and "networkTime pkt < 2 ^ 56"
  shows "\<exists>bs. controlpacket_get_packet_bytestring p junk rnd pkt = Inr bs \<and>
           controlpacket_construct_packet_from_bytestring p pkt0 bs = Inr pkt"
proof -
  from assms(2) have "pkt\<lparr>networkTime := received_time (networkTime pkt)\<rparr> = pkt"
    by (simp add: received_time_iff [THEN iffD2])
  then show ?thesis by (simp add: control_encode control_decode [OF assms(1)])
qed

definition sample_control_packet :: ControlPacket_t where
  "sample_control_packet = controlpacket_create controlpacket_init UUID 7 3 17 2620000000 2
     1234567890123 99 (zero_bitmap[2 := [0x80, 1]])"

lemma wf_sample: "wf_bitmap (occupied_slots sample_control_packet)"
  by (simp add: sample_control_packet_def controlpacket_create_def wf_bitmap_def
      zero_bitmap_def numeral_eq_Suc)

theorem control_packet_roundtrip_witness:
  "\<exists>bs. controlpacket_get_packet_bytestring RIOT (\<lambda>_. 0) 5 sample_control_packet = Inr bs \<and>
     controlpacket_construct_packet_from_bytestring RIOT controlpacket_init bs =
       Inr sample_control_packet"
  by (rule control_packet_roundtrip [OF wf_sample])
    (simp add: sample_control_packet_def controlpacket_create_def)

text \<open>
  what is lost beyond that bound. The decoder shifts the most significant byte of the
  network time by 52 instead of 56 places, so every other field survives the wire and the
  packet comes back unchanged exactly when its network time is below \<open>2 ^ 56\<close>.
\<close>

theorem control_packet_network_time_loss:
  assumes "wf_bitmap (occupied_slots pkt)"
  shows "\<exists>bs t. controlpacket_get_packet_bytestring p junk rnd pkt = Inr bs \<and>
           controlpacket_construct_packet_from_bytestring p pkt0 bs = Inr (pkt\<lparr>networkTime := t\<rparr>) \<and>
           (t = networkTime pkt \<longleftrightarrow> networkTime pkt < 2 ^ 56)"
  using received_time_iff [of "networkTime pkt"]
  by (auto simp: control_encode control_decode [OF assms])

theorem control_packet_network_time_loss_witness:
  "\<exists>bs t. controlpacket_get_packet_bytestring LINUX (\<lambda>_. 0) 5
       (sample_control_packet\<lparr>networkTime := 0xff00000000000001\<rparr>) = Inr bs \<and>
     controlpacket_construct_packet_from_bytestring LINUX controlpacket_init bs =
       Inr (sample_control_packet\<lparr>networkTime := t\<rparr>) \<and> t \<noteq> 0xff00000000000001"
  using control_packet_network_time_loss
      [of "sample_control_packet\<lparr>networkTime := 0xff00000000000001\<rparr>" LINUX "\<lambda>_. 0" 5
        controlpacket_init] wf_sample
  by auto

text \<open>
  A byte string whose first byte is not the type of control packets leaves the receiving
  packet alone.
\<close>

theorem control_packet_wrong_type:
  assumes "b \<noteq> 1"
  shows "controlpacket_construct_packet_from_bytestring p pkt (b # bs) = Inr pkt"
  using assms by (simp add: controlpacket_construct_packet_from_bytestring_def READ_ARRAY_in)

theorem control_packet_wrong_type_witness:
  "controlpacket_construct_packet_from_bytestring RIOT sample_control_packet [0, 9, 9] =
     Inr sample_control_packet"
  by (rule control_packet_wrong_type) simp

end
