(* ===== verification/CF_Packet.thy ===== *)
theory CF_Packet
  imports Byte_Array
begin

text \<open>
  The packet of the common-frequency phase, \<open>MAC/CFPacket.c\<close>: who wants to transmit, and to
  whom. The destination \<open>(0, 0)\<close> is a broadcast.
\<close>

record CFPacket_t =
  cf_node_id :: node_id
  cf_destination_id :: node_id

text \<open>\<open>memset(pkt, 0, sizeof(CFPacket_t))\<close>.\<close>

definition cfpacket_init :: CFPacket_t where
  "cfpacket_init = \<lparr>cf_node_id = (0, 0), cf_destination_id = (0, 0)\<rparr>"

definition cfpacket_destroy :: "CFPacket_t \<Rightarrow> CFPacket_t" where
  "cfpacket_destroy pkt = cfpacket_init"

definition cfpacket_create :: "CFPacket_t \<Rightarrow> node_id \<Rightarrow> node_id \<Rightarrow> CFPacket_t" where
  "cfpacket_create pkt nid dest = pkt\<lparr>cf_node_id := nid, cf_destination_id := dest\<rparr>"

definition cfpacket_clear :: "CFPacket_t \<Rightarrow> CFPacket_t" where
  "cfpacket_clear pkt = cfpacket_init"

definition cfpacket_set_nodeid :: "CFPacket_t \<Rightarrow> node_id \<Rightarrow> CFPacket_t" where
  "cfpacket_set_nodeid pkt nid = pkt\<lparr>cf_node_id := nid\<rparr>"

definition cfpacket_get_nodeid :: "CFPacket_t \<Rightarrow> node_id" where
  "cfpacket_get_nodeid pkt = cf_node_id pkt"

definition cfpacket_set_destinationid :: "CFPacket_t \<Rightarrow> node_id \<Rightarrow> CFPacket_t" where
  "cfpacket_set_destinationid pkt dest = pkt\<lparr>cf_destination_id := dest\<rparr>"

definition cfpacket_get_destinationid :: "CFPacket_t \<Rightarrow> node_id" where
  "cfpacket_get_destinationid pkt = cf_destination_id pkt"

lemma cfpacket_fields [simp]:
  "cfpacket_get_nodeid pkt = cf_node_id pkt"
  "cfpacket_get_destinationid pkt = cf_destination_id pkt"
  "cfpacket_create pkt nid dest = \<lparr>cf_node_id = nid, cf_destination_id = dest\<rparr>"
  by (simp_all add: cfpacket_get_nodeid_def cfpacket_get_destinationid_def cfpacket_create_def)

definition cf_field_writes :: "CFPacket_t \<Rightarrow> (nat \<times> u8) list" where
  "cf_field_writes pkt =
     [(0, 0),
      (1, masked_byte (fst (cf_node_id pkt)) 0xff00000000000000 56),
      (2, masked_byte (fst (cf_node_id pkt)) 0x00ff000000000000 48),
      (3, masked_byte (fst (cf_node_id pkt)) 0x0000ff0000000000 40),
      (4, masked_byte (fst (cf_node_id pkt)) 0x000000ff00000000 32),
      (5, masked_byte (fst (cf_node_id pkt)) 0x00000000ff000000 24),
      (6, masked_byte (fst (cf_node_id pkt)) 0x0000000000ff0000 16),
      (7, masked_byte (fst (cf_node_id pkt)) 0x000000000000ff00 8),
      (8, masked_byte (fst (cf_node_id pkt)) 0x00000000000000ff 0),
      (9, masked_byte (snd (cf_node_id pkt)) 0xff00000000000000 56),
      (10, masked_byte (snd (cf_node_id pkt)) 0x00ff000000000000 48),
      (11, masked_byte (snd (cf_node_id pkt)) 0x0000ff0000000000 40),
      (12, masked_byte (snd (cf_node_id pkt)) 0x000000ff00000000 32),
      (13, masked_byte (snd (cf_node_id pkt)) 0x00000000ff000000 24),
      (14, masked_byte (snd (cf_node_id pkt)) 0x0000000000ff0000 16),
      (15, masked_byte (snd (cf_node_id pkt)) 0x000000000000ff00 8),
      (16, masked_byte (snd (cf_node_id pkt)) 0x00000000000000ff 0),
      (17, masked_byte (fst (cf_destination_id pkt)) 0xff00000000000000 56),
      (18, masked_byte (fst (cf_destination_id pkt)) 0x00ff000000000000 48),
      (19, masked_byte (fst (cf_destination_id pkt)) 0x0000ff0000000000 40),
      (20, masked_byte (fst (cf_destination_id pkt)) 0x000000ff00000000 32),
      (21, masked_byte (fst (cf_destination_id pkt)) 0x00000000ff000000 24),
      (22, masked_byte (fst (cf_destination_id pkt)) 0x0000000000ff0000 16),
      (23, masked_byte (fst (cf_destination_id pkt)) 0x000000000000ff00 8),
      (24, masked_byte (fst (cf_destination_id pkt)) 0x00000000000000ff 0),
      (25, masked_byte (snd (cf_destination_id pkt)) 0xff00000000000000 56),
      (26, masked_byte (snd (cf_destination_id pkt)) 0x00ff000000000000 48),
      (27, masked_byte (snd (cf_destination_id pkt)) 0x0000ff0000000000 40),
      (28, masked_byte (snd (cf_destination_id pkt)) 0x000000ff00000000 32),
      (29, masked_byte (snd (cf_destination_id pkt)) 0x00000000ff000000 24),
      (30, masked_byte (snd (cf_destination_id pkt)) 0x0000000000ff0000 16),
      (31, masked_byte (snd (cf_destination_id pkt)) 0x000000000000ff00 8),
      (32, masked_byte (snd (cf_destination_id pkt)) 0x00000000000000ff 0)]"

definition cf_padding_writes :: "u32 \<Rightarrow> (nat \<times> u8) list" where
  "cf_padding_writes rnd = map (\<lambda>i. (i, ucast rnd)) [33..<PACKET_SIZE_MAC]"

definition cfpacket_get_packet_bytestring ::
    "platform \<Rightarrow> (nat \<Rightarrow> u8) \<Rightarrow> u32 \<Rightarrow> CFPacket_t \<Rightarrow> u8 list result" where
  "cfpacket_get_packet_bytestring p junk rnd pkt =
     write_all (WRITE_ARRAY p) (new_array p junk PACKET_SIZE_MAC)
       (cf_field_writes pkt @ cf_padding_writes rnd)"

definition cfpacket_construct_packet_from_bytestring ::
    "platform \<Rightarrow> CFPacket_t \<Rightarrow> u8 list \<Rightarrow> CFPacket_t result" where
  "cfpacket_construct_packet_from_bytestring p pkt bs =
     assert_that (case p of LINUX \<Rightarrow> True | RIOT \<Rightarrow> 0 < length bs)
     (rbind (READ_ARRAY p bs 0) (\<lambda>t.
     if t \<noteq> 0 then Inr pkt
     else
     rbind (read_word (READ_ARRAY p) bs [(1, 56), (2, 48), (3, 40), (4, 32), (5, 24), (6, 16), (7, 8), (8, 0)]) (\<lambda>node_id1.
     rbind (read_word (READ_ARRAY p) bs [(9, 56), (10, 48), (11, 40), (12, 32), (13, 24), (14, 16), (15, 8), (16, 0)]) (\<lambda>node_id2.
     rbind (read_word (READ_ARRAY p) bs [(17, 56), (18, 48), (19, 40), (20, 32), (21, 24), (22, 16), (23, 8), (24, 0)]) (\<lambda>destination_id1.
     rbind (read_word (READ_ARRAY p) bs [(25, 56), (26, 48), (27, 40), (28, 32), (29, 24), (30, 16), (31, 8), (32, 0)]) (\<lambda>destination_id2.
       Inr (pkt\<lparr>cf_node_id := (node_id1, node_id2),
                cf_destination_id := (destination_id1, destination_id2)\<rparr>)))))))"

section \<open>What the encoder writes and the decoder reads\<close>

definition cf_bytes :: "CFPacket_t \<Rightarrow> u8 list" where
  "cf_bytes pkt = map snd (cf_field_writes pkt)"

lemma cf_field_fst: "map fst (cf_field_writes pkt) = [0..<33]"
  by (simp add: cf_field_writes_def upt_conv_Cons)

lemma cf_writes_fst: "map fst (cf_field_writes pkt @ cf_padding_writes rnd) = [0..<256]"
  using cf_field_fst [of pkt] upt_add_eq_append [of 0 33 223]
  by (simp add: cf_padding_writes_def o_def del: upt_rec_numeral)

lemma cf_encode:
  "cfpacket_get_packet_bytestring p junk rnd pkt =
     Inr (cf_bytes pkt @ replicate 223 (ucast rnd))"
proof -
  have "map snd (cf_padding_writes rnd) = replicate 223 (ucast rnd)"
    by (simp add: cf_padding_writes_def o_def map_replicate_const del: upt_rec_numeral)
  with flat_write_block [OF cf_writes_fst, of "new_array p junk 256" p pkt rnd] show ?thesis
    by (simp add: cfpacket_get_packet_bytestring_def cf_bytes_def)
qed

lemma cf_decode:
  "cfpacket_construct_packet_from_bytestring p pkt0 (cf_bytes pkt @ rest) = Inr pkt"
proof -
  have "length (cf_bytes pkt) = 33"
    using arg_cong [OF cf_field_fst [of pkt], of length] by (simp add: cf_bytes_def)
  then have "cfpacket_construct_packet_from_bytestring p pkt0 (cf_bytes pkt @ rest) =
      Inr (pkt0\<lparr>cf_node_id := cf_node_id pkt, cf_destination_id := cf_destination_id pkt\<rparr>)"
    by (simp add: cfpacket_construct_packet_from_bytestring_def flat_reads nth_append
        split: platform.splits)
      (simp add: cf_bytes_def cf_field_writes_def byte_simps assemble_u64)
  then show ?thesis by (cases pkt; cases pkt0) simp
qed

section \<open>Properties\<close>

text \<open>
  decoding the byte string of a CF packet gives the packet back, on both platforms and
  whatever the receiving packet held; the string is always one radio packet long.
\<close>

theorem cf_packet_roundtrip:
  "\<exists>bs. cfpacket_get_packet_bytestring p junk rnd pkt = Inr bs \<and>
     length bs = PACKET_SIZE_MAC \<and>
     cfpacket_construct_packet_from_bytestring p pkt0 bs = Inr pkt"
proof -
  have "length (cf_bytes pkt) = 33"
    using arg_cong [OF cf_field_fst [of pkt], of length] by (simp add: cf_bytes_def)
  then show ?thesis by (simp add: cf_encode cf_decode)
qed

text \<open>
  Only a byte string of type 0 is taken for a CF packet; any other leaves the receiving
  packet alone, and an empty RIOT array fails the assertion.
\<close>

lemma cf_packet_rejects:
  "cfpacket_construct_packet_from_bytestring RIOT pkt [] = Inl Assertion_failed"
  "cfpacket_construct_packet_from_bytestring p pkt (b # bs) = Inr pkt \<or> b = 0"
  by (auto simp: cfpacket_construct_packet_from_bytestring_def READ_ARRAY_in
      split: platform.splits)

end
