(* ===== verification/Data_Packet.thy ===== *)
theory Data_Packet
  imports Byte_Array
begin

text \<open>
  The data packet of \<open>MAC/DataPacket.c\<close>. The \<open>int8_t\<close> type is a byte read with \<open>sint\<close>; the
  value \<open>-1\<close> marks an empty packet. The field \<open>data\<close> is the packet's own array: the empty
  list stands for the null pointer of Linux and the array of size zero of RIOT. Allocation
  is taken to succeed here; theory \<open>Packet_Memory\<close> has the same functions over the
  block pool of RIOT, where it may fail.
\<close>

record DataPacket_t =
  ptype :: u8
  psize :: u8
  destination_id :: node_id
  data :: "u8 list"

definition zero_datapacket :: DataPacket_t where
  "zero_datapacket = \<lparr>ptype = 0, psize = 0, destination_id = (0, 0), data = []\<rparr>"

definition datapacket_init :: DataPacket_t where
  "datapacket_init = zero_datapacket\<lparr>ptype := - 1\<rparr>"

text \<open>The RIOT branch: release the array, set the type to \<open>-1\<close>.\<close>

definition datapacket_destroy :: "DataPacket_t \<Rightarrow> DataPacket_t" where
  "datapacket_destroy pkt =
     (let pkt' = (if 0 < length (data pkt) then pkt\<lparr>data := []\<rparr> else pkt)
      in pkt'\<lparr>ptype := - 1\<rparr>)"

definition datapacket_create :: "platform \<Rightarrow> (nat \<Rightarrow> u8) \<Rightarrow> DataPacket_t \<Rightarrow> u8 \<Rightarrow> node_id \<Rightarrow>
    u8 list \<Rightarrow> u8 \<Rightarrow> DataPacket_t result" where
  "datapacket_create p junk pkt ty dest src sz =
     assert_that (0 \<le> sint ty \<and> sint ty < 10)
     (assert_that (0 < sz)
     (let pkt' = pkt\<lparr>destination_id := dest, ptype := ty, psize := sz\<rparr>;
          arr = new_array p junk (unat sz)
      in rbind (copy_elements p src 0 arr 0 [0..<unat sz]) (\<lambda>arr'.
           Inr (pkt'\<lparr>data := arr'\<rparr>))))"

definition datapacket_clear :: "DataPacket_t \<Rightarrow> DataPacket_t" where
  "datapacket_clear pkt = pkt\<lparr>destination_id := (0, 0), psize := 0, ptype := - 1, data := []\<rparr>"

definition data_field_writes :: "DataPacket_t \<Rightarrow> (nat \<times> u8) list" where
  "data_field_writes pkt =
     [(0, ptype pkt),
      (1, masked_byte (fst (destination_id pkt)) 0xff00000000000000 56),
      (2, masked_byte (fst (destination_id pkt)) 0x00ff000000000000 48),
      (3, masked_byte (fst (destination_id pkt)) 0x0000ff0000000000 40),
      (4, masked_byte (fst (destination_id pkt)) 0x000000ff00000000 32),
      (5, masked_byte (fst (destination_id pkt)) 0x00000000ff000000 24),
      (6, masked_byte (fst (destination_id pkt)) 0x0000000000ff0000 16),
      (7, masked_byte (fst (destination_id pkt)) 0x000000000000ff00 8),
      (8, masked_byte (fst (destination_id pkt)) 0x00000000000000ff 0),
      (9, masked_byte (snd (destination_id pkt)) 0xff00000000000000 56),
      (10, masked_byte (snd (destination_id pkt)) 0x00ff000000000000 48),
      (11, masked_byte (snd (destination_id pkt)) 0x0000ff0000000000 40),
      (12, masked_byte (snd (destination_id pkt)) 0x000000ff00000000 32),
      (13, masked_byte (snd (destination_id pkt)) 0x00000000ff000000 24),
      (14, masked_byte (snd (destination_id pkt)) 0x0000000000ff0000 16),
      (15, masked_byte (snd (destination_id pkt)) 0x000000000000ff00 8),
      (16, masked_byte (snd (destination_id pkt)) 0x00000000000000ff 0),
      (17, psize pkt)]"

definition datapacket_get_packet_bytestring ::
    "platform \<Rightarrow> (nat \<Rightarrow> u8) \<Rightarrow> DataPacket_t \<Rightarrow> u8 list result" where
  "datapacket_get_packet_bytestring p junk pkt =
     rbind (write_all (WRITE_ARRAY p) (new_array p junk PACKET_SIZE_MAC) (data_field_writes pkt)) (\<lambda>bs.
     rbind (copy_elements p (data pkt) 0 bs 18 [0..<unat (psize pkt)]) (\<lambda>bs'.
       if unat (psize pkt) < PACKET_SIZE_MAC - 18
       then write_all (WRITE_ARRAY p) bs'
              (map (\<lambda>i. (i + 18, 0)) [unat (psize pkt)..<PACKET_SIZE_MAC - 18])
       else Inr bs'))"

definition datapacket_construct_from_bytestring ::
    "platform \<Rightarrow> (nat \<Rightarrow> u8) \<Rightarrow> DataPacket_t \<Rightarrow> u8 list \<Rightarrow> DataPacket_t result" where
  "datapacket_construct_from_bytestring p junk pkt bs =
     rbind (READ_ARRAY p bs 0) (\<lambda>ty.
     rbind (read_word (READ_ARRAY p) bs [(1, 56), (2, 48), (3, 40), (4, 32), (5, 24), (6, 16), (7, 8), (8, 0)]) (\<lambda>dest0.
     rbind (read_word (READ_ARRAY p) bs [(9, 56), (10, 48), (11, 40), (12, 32), (13, 24), (14, 16), (15, 8), (16, 0)]) (\<lambda>dest1.
     rbind (READ_ARRAY p bs 17) (\<lambda>sz.
     rbind (copy_elements p bs 18 (new_array p junk (unat sz)) 0 [0..<unat sz]) (\<lambda>arr.
       Inr (pkt\<lparr>ptype := ty, destination_id := (dest0, dest1), psize := sz, data := arr\<rparr>))))))"

section \<open>What the encoder writes and the decoder reads\<close>

text \<open>The size field and the array agree, as every constructor of packets leaves them.\<close>

definition wf_datapacket :: "DataPacket_t \<Rightarrow> bool" where
  "wf_datapacket pkt \<longleftrightarrow> length (data pkt) = unat (psize pkt)"

definition data_header :: "DataPacket_t \<Rightarrow> u8 list" where
  "data_header pkt = map snd (data_field_writes pkt)"

lemma data_field_fst: "map fst (data_field_writes pkt) = [0..<18]"
  by (simp add: data_field_writes_def upt_conv_Cons)

lemma length_data_header [simp]: "length (data_header pkt) = 18"
  using arg_cong [OF data_field_fst [of pkt], of length] by (simp add: data_header_def)

lemma data_header_written:
  "write_all (WRITE_ARRAY p) (new_array p junk 256) (data_field_writes pkt) =
     Inr (data_header pkt @ drop 18 (new_array p junk 256))"
  using flat_write_block [OF data_field_fst, of "new_array p junk 256" p pkt]
  by (simp add: data_header_def)

text \<open>Zero padding of the tail of a string, as the encoder's last loop does it.\<close>

lemma zero_tail_written:
  assumes "n \<le> 238" and "length bs = 256"
  shows "write_all (WRITE_ARRAY p) bs (map (\<lambda>i. (i + 18, 0)) [n..<238]) =
           Inr (take (n + 18) bs @ replicate (238 - n) 0)"
proof -
  let ?ws = "map (\<lambda>i. (i + 18, 0)) [n..<238] :: (nat \<times> u8) list"
  have ws: "?ws = zip [n + 18..<(n + 18) + length (replicate (238 - n) (0 :: u8))]
      (replicate (238 - n) 0)"
    by (rule nth_equalityI) (use assms(1) in auto)
  have "\<forall>(i, e) \<in> set ?ws. i < length bs" using assms by auto
  with flat.write_all_in [OF TrueI this, of p] have
    "write_all (WRITE_ARRAY p) bs ?ws = Inr (upds ?ws bs)" by auto
  moreover have "upds ?ws bs = take (n + 18) bs @ replicate (238 - n) 0"
    unfolding ws using assms by (subst upds_enumerate) auto
  ultimately show ?thesis by simp
qed

lemma data_encode:
  assumes "wf_datapacket pkt" and "unat (psize pkt) \<le> 238"
  shows "datapacket_get_packet_bytestring p junk pkt =
           Inr (data_header pkt @ data pkt @ replicate (238 - unat (psize pkt)) 0)"
proof -
  let ?n = "unat (psize pkt)" and ?tl = "drop 18 (new_array p junk 256)"
  have copy: "copy_elements p (data pkt) 0 (data_header pkt @ ?tl) 18 [0..<?n] =
      Inr (data_header pkt @ data pkt @ drop (?n + 18) (new_array p junk 256))"
    using copy_elements_prefix [of ?n 0 "data pkt" 18 "data_header pkt @ ?tl" p] assms
    by (simp add: wf_datapacket_def add.commute)
  show ?thesis
  proof (cases "?n = 238")
    case True
    with copy show ?thesis
      by (simp add: datapacket_get_packet_bytestring_def data_header_written)
  next
    case False
    with zero_tail_written [of ?n "data_header pkt @ data pkt @
        drop (?n + 18) (new_array p junk 256)" p] copy assms
    show ?thesis
      by (simp add: datapacket_get_packet_bytestring_def data_header_written wf_datapacket_def)
  qed
qed

lemma data_fields_read:
  "rbind (READ_ARRAY p (data_header pkt @ rest) 0) f = f (ptype pkt)"
  "rbind (READ_ARRAY p (data_header pkt @ rest) 17) f = f (psize pkt)"
  "rbind (read_word (READ_ARRAY p) (data_header pkt @ rest)
     [(Suc 0, 56), (2, 48), (3, 40), (4, 32), (5, 24), (6, 16), (7, 8), (8, 0)]) g =
       g (fst (destination_id pkt))"
  "rbind (read_word (READ_ARRAY p) (data_header pkt @ rest)
     [(9, 56), (10, 48), (11, 40), (12, 32), (13, 24), (14, 16), (15, 8), (16, 0)]) g =
       g (snd (destination_id pkt))"
  by (simp_all add: flat_reads nth_append)
    (simp_all add: data_header_def data_field_writes_def byte_simps assemble_u64)

lemma data_decode:
  assumes "wf_datapacket pkt"
  shows "datapacket_construct_from_bytestring p junk pkt0 (data_header pkt @ data pkt @ rest) =
           Inr pkt"
proof -
  let ?n = "unat (psize pkt)"
  have "copy_elements p (data_header pkt @ data pkt @ rest) 18 (new_array p junk ?n) 0 [0..<?n] =
      Inr (data pkt)"
    using copy_elements_prefix [of ?n 18 "data_header pkt @ data pkt @ rest" 0
        "new_array p junk ?n" p] assms
    by (simp add: wf_datapacket_def)
  then have "datapacket_construct_from_bytestring p junk pkt0 (data_header pkt @ data pkt @ rest) =
      Inr (pkt0\<lparr>ptype := ptype pkt, destination_id := destination_id pkt, psize := psize pkt,
                data := data pkt\<rparr>)"
    by (simp add: datapacket_construct_from_bytestring_def data_fields_read)
  then show ?thesis by (cases pkt; cases pkt0) simp
qed

text \<open>An encoded packet whose payload does not fit: Linux runs off the buffer, RIOT truncates.\<close>

lemma data_encode_too_long:
  assumes wf: "wf_datapacket pkt" and long: "238 < unat (psize pkt)"
  shows "datapacket_get_packet_bytestring LINUX junk pkt = Inl Out_of_bounds"
    and "datapacket_get_packet_bytestring RIOT junk pkt =
           Inr (data_header pkt @ take 238 (data pkt))"
proof -
  let ?n = "unat (psize pkt)"
  have copy: "copy_elements LINUX (data pkt) 0 (data_header pkt @ drop 18 (new_array LINUX junk 256))
        18 [0..<?n] = Inl Out_of_bounds"
    "copy_elements RIOT (data pkt) 0 (data_header pkt @ drop 18 (new_array RIOT junk 256))
        18 [0..<?n] = Inr (data_header pkt @ take 238 (data pkt))"
    using copy_elements_overflow
        [of ?n 0 "data pkt" 18 "data_header pkt @ drop 18 (new_array LINUX junk 256)"]
      copy_elements_overflow
        [of ?n 0 "data pkt" 18 "data_header pkt @ drop 18 (new_array RIOT junk 256)"] wf long
    by (simp_all add: wf_datapacket_def)
  then show "datapacket_get_packet_bytestring LINUX junk pkt = Inl Out_of_bounds"
    and "datapacket_get_packet_bytestring RIOT junk pkt =
           Inr (data_header pkt @ take 238 (data pkt))"
    using long by (simp_all add: datapacket_get_packet_bytestring_def data_header_written)
qed

lemma data_decode_too_long:
  assumes "length bs = 256" and "bs ! 17 = s" and "238 < unat s"
  shows "datapacket_construct_from_bytestring RIOT junk pkt0 bs = Inl Uninitialised_read"
proof -
  let ?n = "unat s"
  have split: "[0..<?n] = [0..<238] @ 238 # [239..<?n]"
    using upt_add_eq_append [of 0 238 "?n - 238"] upt_conv_Cons [of 238 ?n] assms(3)
    by (simp del: upt_rec_numeral)
  have "copy_elements RIOT bs 18 (new_array RIOT junk ?n) 0 [0..<238] =
      Inr (take 238 (drop 18 bs) @ drop 238 (new_array RIOT junk ?n))"
    using copy_elements_prefix [of 238 18 bs 0 "new_array RIOT junk ?n" RIOT] assms
    by (simp del: upt_rec_numeral)
  then have "copy_elements RIOT bs 18 (new_array RIOT junk ?n) 0 [0..<?n] = Inl Uninitialised_read"
    unfolding split copy_elements_append using assms(1)
    by (simp add: READ_ARRAY_def del: upt_rec_numeral)
  then show ?thesis
    using assms by (simp add: datapacket_construct_from_bytestring_def flat_reads)
qed

section \<open>Properties\<close>

text \<open>
  C35: a data packet whose payload fits the radio packet (at most 238 bytes) survives the wire
  on both platforms: its byte string is one radio packet long and decodes to the packet,
  whatever the receiving packet held.
\<close>

theorem data_packet_roundtrip:
  assumes "wf_datapacket pkt" and "unat (psize pkt) \<le> PACKET_SIZE_MAC - 18"
  shows "\<exists>bs. datapacket_get_packet_bytestring p junk pkt = Inr bs \<and>
           length bs = PACKET_SIZE_MAC \<and>
           datapacket_construct_from_bytestring p junk' pkt0 bs = Inr pkt"
  using assms by (simp add: data_encode data_decode) (simp add: wf_datapacket_def)

definition sample_data_packet :: DataPacket_t where
  "sample_data_packet = \<lparr>ptype = 7, psize = 3, destination_id = (1, 2), data = [10, 20, 30]\<rparr>"

theorem data_packet_roundtrip_witness:
  "\<exists>bs. datapacket_get_packet_bytestring LINUX (\<lambda>_. 77) sample_data_packet = Inr bs \<and>
     length bs = PACKET_SIZE_MAC \<and>
     datapacket_construct_from_bytestring LINUX (\<lambda>_. 0) datapacket_init bs = Inr sample_data_packet"
  by (rule data_packet_roundtrip) (simp_all add: wf_datapacket_def sample_data_packet_def)

text \<open>
  The bound is sharp. The size field is a byte, and a packet of 239 to 255 payload bytes
  makes the encoder write past its 256-byte buffer: a buffer overflow on Linux; on RIOT the
  payload is cut, and the receiver then reads an uninitialised byte.
\<close>

theorem data_packet_too_long:
  assumes "wf_datapacket pkt" and "PACKET_SIZE_MAC - 18 < unat (psize pkt)"
  shows "datapacket_get_packet_bytestring LINUX junk pkt = Inl Out_of_bounds \<and>
    (\<exists>bs. datapacket_get_packet_bytestring RIOT junk pkt = Inr bs \<and>
       datapacket_construct_from_bytestring RIOT junk' pkt0 bs = Inl Uninitialised_read)"
proof -
  let ?bs = "data_header pkt @ take 238 (data pkt)"
  have long: "238 < unat (psize pkt)" using assms(2) by simp
  then have "length ?bs = 256" using assms(1) by (simp add: wf_datapacket_def)
  moreover have "?bs ! 17 = psize pkt"
    by (simp add: nth_append) (simp add: data_header_def data_field_writes_def)
  ultimately have "datapacket_construct_from_bytestring RIOT junk' pkt0 ?bs =
      Inl Uninitialised_read"
    using long by (rule data_decode_too_long)
  with data_encode_too_long [OF assms(1) long] show ?thesis by simp
qed

theorem data_packet_too_long_witness:
  "datapacket_get_packet_bytestring LINUX (\<lambda>_. 0)
     \<lparr>ptype = 7, psize = 240, destination_id = (1, 2), data = replicate 240 1\<rparr> = Inl Out_of_bounds"
  using data_packet_too_long
      [of "\<lparr>ptype = 7, psize = 240, destination_id = (1, 2), data = replicate 240 1\<rparr>" "\<lambda>_. 0"
        "\<lambda>_. 0" datapacket_init]
  by (simp add: wf_datapacket_def)

text \<open>
  \<open>datapacket_create\<close> copies exactly the first \<open>size\<close> bytes of its argument into a
  well-formed packet when the type is one of 0 to 9 and the size is not zero, and fails its
  assertions otherwise.
\<close>

theorem datapacket_create_spec:
  assumes "unat sz \<le> length src"
  shows "datapacket_create p junk pkt ty dest src sz =
    (if 0 \<le> sint ty \<and> sint ty < 10 \<and> 0 < sz
     then Inr (pkt\<lparr>destination_id := dest, ptype := ty, psize := sz, data := take (unat sz) src\<rparr>)
     else Inl Assertion_failed)"
  using copy_elements_prefix [of "unat sz" 0 src 0 "new_array p junk (unat sz)" p] assms
  by (simp add: datapacket_create_def assert_that_def)

theorem datapacket_create_spec_witness:
  "datapacket_create RIOT (\<lambda>_. 0) datapacket_init 3 (5, 6) [1, 2, 3, 4] 2 =
     Inr \<lparr>ptype = 3, psize = 2, destination_id = (5, 6), data = [1, 2]\<rparr>"
  using datapacket_create_spec [of 2 "[1, 2, 3, 4]" RIOT "\<lambda>_. 0" datapacket_init 3 "(5, 6)"]
  by (simp add: datapacket_init_def zero_datapacket_def)

lemma wf_datapacket_init [simp]: "wf_datapacket datapacket_init"
  by (simp add: wf_datapacket_def datapacket_init_def zero_datapacket_def)

lemma wf_datapacket_clear [simp]: "wf_datapacket (datapacket_clear pkt)"
  by (simp add: wf_datapacket_def datapacket_clear_def)

end
