(* ===== verification/Timeouts.thy ===== *)
theory Timeouts
  imports Config
begin

text \<open>
  The one-shot timers of \<open>utils/timeouts.c\<close> in their RIOT build: twenty software timeouts over
  one \<open>ztimer\<close>. Time is the 32-bit microsecond counter, which wraps around, and differences
  are read as \<open>int32_t\<close>.

  The counter value \<open>ztimer_now(CLOCK)\<close> is the argument \<open>now\<close>. Of the \<open>ztimer\<close> itself the
  model keeps what the code asks of it: \<open>timeout_timer\<close> is the counter value at which the
  callback is due, \<open>None\<close> when nothing was asked. \<open>timeout_fire\<close> is the interrupt: the
  one-shot timer expires and calls \<open>timeout_signal_handler\<close>. The atomic operations on a state
  byte are the plain ones; the interrupt runs between operations of the API.
\<close>

section \<open>State and operations\<close>

definition TIMEOUTS :: nat where "TIMEOUTS = 20"
definition TIMEOUT_SET_ERROR :: u32 where "TIMEOUT_SET_ERROR = of_nat TIMEOUTS + 1"
definition TIMEOUT_USED :: u8 where "TIMEOUT_USED = 1"
definition TIMEOUT_ARMED :: u8 where "TIMEOUT_ARMED = 2"
definition TIMEOUT_PASSED :: u8 where "TIMEOUT_PASSED = 4"

lemmas timeout_consts [simp] =
  TIMEOUTS_def TIMEOUT_USED_def TIMEOUT_ARMED_def TIMEOUT_PASSED_def

record timeout_t =
  timeout_timer :: "u32 option"
  timeout_state :: "u8 list"
  timeout_time :: "u32 list"

definition timespec_diff :: "u32 \<Rightarrow> u32 \<Rightarrow> u32" where
  "timespec_diff after before = after - before"

definition timespec_add :: "u32 \<Rightarrow> u32 \<Rightarrow> u32" where
  "timespec_add to seconds = (if 0 < sint seconds then to + seconds else to)"

definition timespec_set :: "u32 \<Rightarrow> u32" where
  "timespec_set seconds = (if 0 < sint seconds then seconds else 0)"

definition timeout_passed :: "timeout_t \<Rightarrow> u32 \<Rightarrow> nat" where
  "timeout_passed t timeout =
     (if unat timeout < TIMEOUTS
      then
        (let state = timeout_state t ! unat timeout
         in if state AND TIMEOUT_USED = 0 then 2
            else if state AND TIMEOUT_ARMED = 0 then 2
            else if state AND TIMEOUT_PASSED \<noteq> 0 then 1 else 0)
      else 2)"

definition timeout_unset :: "timeout_t \<Rightarrow> u32 \<Rightarrow> nat \<times> timeout_t" where
  "timeout_unset t timeout =
     (if unat timeout < TIMEOUTS
      then
        (let state = timeout_state t ! unat timeout;
             t' = t\<lparr>timeout_state := (timeout_state t)[unat timeout := state AND TIMEOUT_PASSED]\<rparr>
         in (if state AND TIMEOUT_USED = 0 then 2
             else if state AND TIMEOUT_ARMED = 0 then 2
             else if state AND TIMEOUT_PASSED \<noteq> 0 then 1 else 0, t'))
      else (2, t))"

text \<open>The search for an unused timeout, which marks every slot it looks at as used.\<close>

fun claim_timeout :: "u8 list \<Rightarrow> nat list \<Rightarrow> nat option \<times> u8 list" where
  "claim_timeout st [] = (None, st)"
| "claim_timeout st (i # is) =
     (let old = st ! i; st' = st[i := old OR TIMEOUT_USED]
      in if old AND TIMEOUT_USED = 0 then (Some i, st') else claim_timeout st' is)"

text \<open>Used and armed, but not passed yet.\<close>

definition pending :: "u8 \<Rightarrow> bool" where
  "pending state \<longleftrightarrow>
     state AND (TIMEOUT_USED OR TIMEOUT_ARMED OR TIMEOUT_PASSED) = TIMEOUT_USED OR TIMEOUT_ARMED"

text \<open>How long till the next timeout, starting from the new timeout's own delay.\<close>

fun next_timeout :: "u8 list \<Rightarrow> u32 list \<Rightarrow> u32 \<Rightarrow> nat list \<Rightarrow> u32 \<Rightarrow> u32" where
  "next_timeout st tm now [] next = next"
| "next_timeout st tm now (i # is) next =
     next_timeout st tm now is
       (if pending (st ! i)
        then
          (let secs = timespec_diff (tm ! i) now
           in if 0 \<le> sint secs \<and> sint secs < sint next then secs else next)
        else next)"

definition timeout_set :: "timeout_t \<Rightarrow> u32 \<Rightarrow> u32 \<Rightarrow> u32 \<times> timeout_t" where
  "timeout_set t now seconds =
     (if seconds = 0 then (TIMEOUT_SET_ERROR, t)
      else
        (case claim_timeout (timeout_state t) [0..<TIMEOUTS] of
          (None, st) \<Rightarrow> (TIMEOUT_SET_ERROR, t\<lparr>timeout_state := st\<rparr>)
        | (Some i, st) \<Rightarrow>
            (let st1 = st[i := st ! i AND TIMEOUT_USED];
                 tm1 = (timeout_time t)[i := timespec_add now seconds];
                 st2 = st1[i := st1 ! i OR TIMEOUT_ARMED];
                 next = next_timeout st2 tm1 now [0..<TIMEOUTS] seconds;
                 due = timespec_set next
             in (of_nat i,
                 t\<lparr>timeout_state := st2, timeout_time := tm1, timeout_timer := Some (now + due)\<rparr>))))"

text \<open>The handler's loop: it marks what is due and looks for the soonest of the rest.\<close>

fun handle_timeouts :: "u8 list \<Rightarrow> u32 list \<Rightarrow> u32 \<Rightarrow> nat list \<Rightarrow> u32 \<Rightarrow> u8 list \<times> u32" where
  "handle_timeouts st tm now [] next = (st, next)"
| "handle_timeouts st tm now (i # is) next =
     (if pending (st ! i)
      then
        (let seconds = timespec_diff (tm ! i) now
         in if sint seconds \<le> 0
            then handle_timeouts (st[i := st ! i OR TIMEOUT_PASSED]) tm now is next
            else if sint next \<le> 0 \<or> sint seconds < sint next
            then handle_timeouts st tm now is seconds
            else handle_timeouts st tm now is next)
      else handle_timeouts st tm now is next)"

definition timeout_signal_handler :: "timeout_t \<Rightarrow> u32 \<Rightarrow> timeout_t" where
  "timeout_signal_handler t now =
     (case handle_timeouts (timeout_state t) (timeout_time t) now [0..<TIMEOUTS] 0 of
       (st, next) \<Rightarrow>
         (let due = timespec_set next; t' = t\<lparr>timeout_state := st\<rparr>
          in if sint due \<le> 0 then t' else t'\<lparr>timeout_timer := Some (now + due)\<rparr>))"

definition timeout_fire :: "timeout_t \<Rightarrow> u32 \<Rightarrow> timeout_t" where
  "timeout_fire t now = timeout_signal_handler (t\<lparr>timeout_timer := None\<rparr>) now"

definition timeout_init :: "timeout_t \<Rightarrow> nat \<times> timeout_t" where
  "timeout_init t =
     (0, \<lparr>timeout_timer = None, timeout_state = replicate TIMEOUTS 0,
          timeout_time = replicate TIMEOUTS 0\<rparr>)"

definition timeout_done :: "timeout_t \<Rightarrow> nat \<times> timeout_t" where
  "timeout_done t = (0, t\<lparr>timeout_timer := None\<rparr>)"

section \<open>Invariant\<close>

text \<open>
  A slot is free (possibly with the mark of an old expiry), armed, or armed and passed. While a
  timeout is pending the hardware timer is programmed, so that no timeout is forgotten.
\<close>

definition wf_timeouts :: "timeout_t \<Rightarrow> bool" where
  "wf_timeouts t \<longleftrightarrow>
     length (timeout_state t) = TIMEOUTS \<and> length (timeout_time t) = TIMEOUTS \<and>
     (\<forall>i < TIMEOUTS. timeout_state t ! i \<in> {0, 3, 4, 7}) \<and>
     ((\<exists>i < TIMEOUTS. pending (timeout_state t ! i)) \<longrightarrow> timeout_timer t \<noteq> None)"

definition free_slot :: "timeout_t \<Rightarrow> nat \<Rightarrow> bool" where
  "free_slot t i \<longleftrightarrow> timeout_state t ! i AND TIMEOUT_USED = 0"

lemma pending_simps [simp]:
  "pending 0 = False" "pending 3 = True" "pending 4 = False" "pending 7 = False"
  by (simp_all add: pending_def)

lemma claim_timeout_None:
  "\<forall>i \<in> set is. st ! i AND TIMEOUT_USED \<noteq> 0 \<Longrightarrow> \<forall>i \<in> set is. st ! i \<in> {0, 3, 4, 7} \<Longrightarrow>
    claim_timeout st is = (None, st)"
proof (induction "is" arbitrary: st)
  case Nil
  then show ?case by simp
next
  case (Cons i "is")
  from Cons.prems have "st ! i OR 1 = st ! i" by auto
  with Cons show ?case by (simp add: Let_def)
qed

lemma claim_timeout_Some:
  assumes "\<forall>i < k. st ! i \<in> {3, 7}" and "st ! k \<in> {0, 4}" and "k < n"
  shows "claim_timeout st [0..<n] = (Some k, st[k := st ! k OR TIMEOUT_USED])"
proof -
  have "claim_timeout st [j..<n] = (Some k, st[k := st ! k OR TIMEOUT_USED])" if "j \<le> k" for j
    using that
  proof (induction "k - j" arbitrary: j)
    case 0
    then have "j = k" by simp
    with assms(2,3) show ?case by (auto simp: upt_conv_Cons Let_def)
  next
    case (Suc d)
    then have "j < k" by simp
    then have "st ! j OR 1 = st ! j" "st ! j AND 1 \<noteq> 0" using assms(1) by auto
    moreover have "[j..<n] = j # [Suc j..<n]"
      using \<open>j < k\<close> assms(3) by (simp add: upt_conv_Cons)
    ultimately show ?case using Suc.hyps(1) [of "Suc j"] Suc.hyps(2) \<open>j < k\<close>
      by (simp add: Let_def)
  qed
  then show ?thesis by blast
qed

lemma next_timeout_min:
  "sint (next_timeout st tm now is d) \<le> sint d \<and>
   (\<forall>i \<in> set is. pending (st ! i) \<and> 0 \<le> sint (timespec_diff (tm ! i) now) \<longrightarrow>
      sint (next_timeout st tm now is d) \<le> sint (timespec_diff (tm ! i) now))"
proof (induction "is" arbitrary: d)
  case Nil
  then show ?case by simp
next
  case (Cons i "is")
  let ?d = "if pending (st ! i) then (let secs = timespec_diff (tm ! i) now
      in if 0 \<le> sint secs \<and> sint secs < sint d then secs else d) else d"
  have "sint ?d \<le> sint d" by (simp add: Let_def)
  moreover have "pending (st ! i) \<and> 0 \<le> sint (timespec_diff (tm ! i) now) \<longrightarrow>
      sint ?d \<le> sint (timespec_diff (tm ! i) now)" by (simp add: Let_def)
  ultimately show ?case using Cons.IH [of ?d] by (auto intro: order_trans)
qed

text \<open>What the handler does to each slot, and the delay it ends with.\<close>

lemma handle_timeouts_state:
  "distinct is \<Longrightarrow> \<forall>i \<in> set is. i < length st \<Longrightarrow>
    length (fst (handle_timeouts st tm now is d)) = length st \<and>
    (\<forall>j. fst (handle_timeouts st tm now is d) ! j =
      (if j \<in> set is \<and> pending (st ! j) \<and> sint (timespec_diff (tm ! j) now) \<le> 0
       then st ! j OR TIMEOUT_PASSED else st ! j))"
proof (induction "is" arbitrary: st d)
  case Nil
  then show ?case by simp
next
  case (Cons i "is")
  let ?st = "st[i := st ! i OR TIMEOUT_PASSED]"
  have "\<forall>j \<in> set is. j < length ?st" "\<forall>j \<in> set is. ?st ! j = st ! j"
    using Cons.prems by (auto simp: nth_list_update)
  then show ?case
    using Cons.prems Cons.IH [of ?st d] Cons.IH [of st d]
      Cons.IH [of st "timespec_diff (tm ! i) now"]
    by (auto simp: Let_def nth_list_update)
qed

lemma handle_timeouts_next:
  assumes "distinct is" and "\<forall>i \<in> set is. i < length st" and "0 \<le> sint d"
  shows "(let e = snd (handle_timeouts st tm now is d);
       live = {i \<in> set is. pending (st ! i) \<and> 0 < sint (timespec_diff (tm ! i) now)}
     in 0 \<le> sint e \<and> (0 < sint d \<longrightarrow> 0 < sint e \<and> sint e \<le> sint d) \<and>
        (\<forall>i \<in> live. 0 < sint e \<and> sint e \<le> sint (timespec_diff (tm ! i) now)) \<and>
        (e = d \<or> (\<exists>i \<in> live. e = timespec_diff (tm ! i) now)))"
  using assms
proof (induction "is" arbitrary: st d)
  case Nil
  then show ?case by simp
next
  case (Cons i "is")
  let ?s = "timespec_diff (tm ! i) now"
  let ?st = "st[i := st ! i OR TIMEOUT_PASSED]"
  have same: "\<forall>j \<in> set is. ?st ! j = st ! j" "\<forall>j \<in> set is. j < length ?st"
    "distinct is" "\<forall>j \<in> set is. j < length st"
    using Cons.prems by (auto simp: nth_list_update)
  have live: "{j \<in> set is. pending (?st ! j) \<and> 0 < sint (timespec_diff (tm ! j) now)} =
      {j \<in> set is. pending (st ! j) \<and> 0 < sint (timespec_diff (tm ! j) now)}"
    using same(1) by auto
  consider (skip) "\<not> pending (st ! i)" | (due) "pending (st ! i)" "sint ?s \<le> 0"
    | (sooner) "pending (st ! i)" "0 < sint ?s" "sint d \<le> 0 \<or> sint ?s < sint d"
    | (later) "pending (st ! i)" "0 < sint ?s" "\<not> (sint d \<le> 0 \<or> sint ?s < sint d)"
    by linarith
  then show ?case
  proof cases
    case skip
    with Cons.IH [of st d] same Cons.prems(3) show ?thesis by (auto simp: Let_def)
  next
    case due
    with Cons.IH [of ?st d] same live Cons.prems(3) show ?thesis by (auto simp: Let_def)
  next
    case sooner
    with Cons.IH [of st ?s] same Cons.prems(3) show ?thesis
      by (auto simp: Let_def intro: order_trans)
  next
    case later
    with Cons.IH [of st d] same Cons.prems(3) show ?thesis
      by (auto simp: Let_def intro: order_trans)
  qed
qed

section \<open>The operations on well-formed timeouts\<close>

text \<open>Setting takes the lowest free slot.\<close>

definition first_free :: "timeout_t \<Rightarrow> nat \<Rightarrow> bool" where
  "first_free t k \<longleftrightarrow> k < TIMEOUTS \<and> free_slot t k \<and> (\<forall>i < k. \<not> free_slot t i)"

lemma first_free_cases:
  obtains (full) "\<forall>i < TIMEOUTS. \<not> free_slot t i" | (free) k where "first_free t k"
proof (cases "\<exists>i < TIMEOUTS. free_slot t i")
  case True
  then obtain k where "k < TIMEOUTS \<and> free_slot t k" "\<forall>i < k. \<not> (i < TIMEOUTS \<and> free_slot t i)"
    using exists_least_iff [of "\<lambda>i. i < TIMEOUTS \<and> free_slot t i"] by blast
  then show ?thesis using free [of k] by (auto simp: first_free_def)
next
  case False
  then show ?thesis using full by blast
qed

lemma wf_slot: "wf_timeouts t \<Longrightarrow> i < TIMEOUTS \<Longrightarrow> timeout_state t ! i \<in> {0, 3, 4, 7}"
  by (simp add: wf_timeouts_def)

lemma timeout_set_full:
  assumes "wf_timeouts t" and "\<forall>i < TIMEOUTS. \<not> free_slot t i"
  shows "timeout_set t now seconds = (TIMEOUT_SET_ERROR, t)"
proof -
  have "claim_timeout (timeout_state t) [0..<TIMEOUTS] = (None, timeout_state t)"
    by (rule claim_timeout_None)
      (use assms wf_slot in \<open>auto simp: free_slot_def simp del: upt_rec_numeral\<close>)
  then show ?thesis by (simp add: timeout_set_def del: upt_rec_numeral)
qed

lemma timeout_set_free:
  fixes now :: u32
  assumes wf: "wf_timeouts t" and k: "first_free t k" and "seconds \<noteq> 0"
  defines "st \<equiv> (timeout_state t)[k := 3]"
    and "tm \<equiv> (timeout_time t)[k := timespec_add now seconds]"
  shows "timeout_set t now seconds =
    (of_nat k, t\<lparr>timeout_state := st, timeout_time := tm,
       timeout_timer := Some (now + timespec_set (next_timeout st tm now [0..<TIMEOUTS] seconds))\<rparr>)"
proof -
  have lt: "k < length (timeout_state t)" using wf k by (simp add: wf_timeouts_def first_free_def)
  have occ: "\<forall>i < k. timeout_state t ! i \<in> {3, 7}"
  proof (intro allI impI)
    fix i assume "i < k"
    with k have "i < TIMEOUTS" "\<not> free_slot t i" by (auto simp: first_free_def)
    with wf_slot [OF wf, of i] show "timeout_state t ! i \<in> {3, 7}" by (auto simp: free_slot_def)
  qed
  have fr: "timeout_state t ! k \<in> {0, 4}"
    using k wf_slot [OF wf, of k] by (auto simp: first_free_def free_slot_def)
  have "claim_timeout (timeout_state t) [0..<TIMEOUTS] =
      (Some k, (timeout_state t)[k := timeout_state t ! k OR TIMEOUT_USED])"
    using claim_timeout_Some [OF occ fr] k by (simp add: first_free_def del: upt_rec_numeral)
  with lt fr assms(3) show ?thesis
    by (auto simp: timeout_set_def Let_def st_def tm_def simp del: upt_rec_numeral)
qed

lemma timeout_passed_slot:
  assumes "wf_timeouts t" and "unat tid < TIMEOUTS"
  shows "timeout_passed t tid =
    (if timeout_state t ! unat tid = 3 then 0 else if timeout_state t ! unat tid = 7 then 1 else 2)"
  using wf_slot [OF assms] assms(2) by (auto simp: timeout_passed_def Let_def)

lemma timeout_passed_bad [simp]: "\<not> unat tid < TIMEOUTS \<Longrightarrow> timeout_passed t tid = 2"
  by (simp add: timeout_passed_def)

lemma timeout_passed_range: "timeout_passed t tid \<le> 2"
  by (simp add: timeout_passed_def Let_def)

lemma unat_slot: "k < TIMEOUTS \<Longrightarrow> unat (of_nat k :: u32) = k"
  by (simp add: unat_of_nat take_bit_nat_eq_self)

lemma TIMEOUT_SET_ERROR_bad: "\<not> unat TIMEOUT_SET_ERROR < TIMEOUTS"
  by (simp add: TIMEOUT_SET_ERROR_def)

text \<open>Firing marks exactly the pending timeouts that are due.\<close>

lemma timeout_fire_fields:
  assumes "wf_timeouts t"
  shows "length (timeout_state (timeout_fire t now)) = TIMEOUTS"
    and "timeout_time (timeout_fire t now) = timeout_time t"
    and "i < TIMEOUTS \<Longrightarrow> timeout_state (timeout_fire t now) ! i =
      (if timeout_state t ! i = 3 \<and> sint (timespec_diff (timeout_time t ! i) now) \<le> 0 then 7
       else timeout_state t ! i)"
proof -
  have len: "length (timeout_state t) = TIMEOUTS" using assms by (simp add: wf_timeouts_def)
  let ?h = "handle_timeouts (timeout_state t) (timeout_time t) now [0..<TIMEOUTS] 0"
  have st: "timeout_state (timeout_fire t now) = fst ?h"
    by (simp add: timeout_fire_def timeout_signal_handler_def Let_def split_def del: upt_rec_numeral)
  note h = handle_timeouts_state [of "[0..<TIMEOUTS]" "timeout_state t" "timeout_time t" now 0]
  show "length (timeout_state (timeout_fire t now)) = TIMEOUTS"
    unfolding st using h len by simp
  show "timeout_time (timeout_fire t now) = timeout_time t"
    by (simp add: timeout_fire_def timeout_signal_handler_def Let_def split_def)
  show "timeout_state (timeout_fire t now) ! i =
      (if timeout_state t ! i = 3 \<and> sint (timespec_diff (timeout_time t ! i) now) \<le> 0 then 7
       else timeout_state t ! i)" if i: "i < TIMEOUTS"
    unfolding st using h len i wf_slot [OF assms i] by (auto simp del: upt_rec_numeral)
qed

text \<open>After firing, the hardware timer is set to the soonest pending deadline, if there is one.\<close>

lemma timeout_fire_timer:
  fixes now :: u32
  assumes wf: "wf_timeouts t"
  defines "live \<equiv> {i. i < TIMEOUTS \<and> timeout_state (timeout_fire t now) ! i = 3}"
  shows "if live = {} then timeout_timer (timeout_fire t now) = None
    else \<exists>i \<in> live. timeout_timer (timeout_fire t now) =
             Some (now + timespec_diff (timeout_time t ! i) now) \<and>
           (\<forall>j \<in> live. 0 < sint (timespec_diff (timeout_time t ! i) now) \<and>
              sint (timespec_diff (timeout_time t ! i) now)
                \<le> sint (timespec_diff (timeout_time t ! j) now))"
proof -
  let ?diff = "\<lambda>i. timespec_diff (timeout_time t ! i) now"
  let ?h = "handle_timeouts (timeout_state t) (timeout_time t) now [0..<TIMEOUTS] 0"
  let ?e = "snd ?h"
  have "timeout_state (timeout_fire t now) ! i = 3 \<longleftrightarrow>
      pending (timeout_state t ! i) \<and> 0 < sint (?diff i)" if "i < TIMEOUTS" for i
    using timeout_fire_fields(3) [OF wf that, of now] wf_slot [OF wf that] by (auto simp: not_le)
  then have live: "live = {i \<in> set [0..<TIMEOUTS]. pending (timeout_state t ! i) \<and> 0 < sint (?diff i)}"
    unfolding live_def set_upt by (intro Collect_cong) auto
  have timer: "timeout_timer (timeout_fire t now) =
      (if 0 < sint ?e then Some (now + ?e) else None)"
    by (simp add: timeout_fire_def timeout_signal_handler_def timespec_set_def Let_def split_def
        del: upt_rec_numeral)
  have len: "length (timeout_state t) = TIMEOUTS" using wf by (simp add: wf_timeouts_def)
  have e: "\<forall>i \<in> live. 0 < sint ?e \<and> sint ?e \<le> sint (?diff i)"
    "?e = 0 \<or> (\<exists>i \<in> live. ?e = ?diff i)"
    using handle_timeouts_next [of "[0..<TIMEOUTS]" "timeout_state t" 0 "timeout_time t" now] len
    by (auto simp: Let_def live simp del: upt_rec_numeral)
  show ?thesis
  proof (cases "live = {}")
    case True
    with e(2) timer show ?thesis by auto
  next
    case False
    with e obtain i where i: "i \<in> live" "?e = ?diff i" by auto
    with e(1) timer False show ?thesis by auto
  qed
qed

lemma wf_timeout_fire:
  assumes "wf_timeouts t"
  shows "wf_timeouts (timeout_fire t now)"
proof -
  have slots: "timeout_state (timeout_fire t now) ! i \<in> {0, 3, 4, 7}" if "i < TIMEOUTS" for i
    using timeout_fire_fields(3) [OF assms that] wf_slot [OF assms that] by auto
  have "timeout_timer (timeout_fire t now) \<noteq> None"
    if "i < TIMEOUTS" "pending (timeout_state (timeout_fire t now) ! i)" for i
  proof -
    have "timeout_state (timeout_fire t now) ! i = 3" using slots [OF that(1)] that(2) by auto
    with that(1) timeout_fire_timer [OF assms, of now] show ?thesis by (auto split: if_splits)
  qed
  then show ?thesis
    using slots timeout_fire_fields(1,2) [OF assms] assms by (auto simp: wf_timeouts_def)
qed

lemma wf_timeout_set:
  assumes wf: "wf_timeouts t"
  shows "wf_timeouts (snd (timeout_set t now seconds))"
proof (cases "seconds = 0")
  case True
  with wf show ?thesis by (simp add: timeout_set_def)
next
  case False
  show ?thesis
  proof (cases t rule: first_free_cases)
    case full
    with wf show ?thesis by (simp add: timeout_set_full)
  next
    case (free k)
    have "(timeout_state t)[k := 3] ! i \<in> {0, 3, 4, 7}" if "i < TIMEOUTS" for i
      using wf_slot [OF wf that] free that wf
      by (auto simp: wf_timeouts_def first_free_def nth_list_update)
    with wf show ?thesis
      by (simp add: timeout_set_free [OF wf free False] wf_timeouts_def del: insert_iff)
  qed
qed

lemma wf_timeout_unset:
  assumes wf: "wf_timeouts t"
  shows "wf_timeouts (snd (timeout_unset t tid))"
proof (cases "unat tid < TIMEOUTS")
  case True
  with wf_slot [OF wf True] wf show ?thesis
    by (auto simp: timeout_unset_def Let_def wf_timeouts_def nth_list_update)
next
  case False
  with wf show ?thesis by (simp add: timeout_unset_def)
qed

lemma wf_timeout_init: "wf_timeouts (snd (timeout_init t))"
  by (simp add: timeout_init_def wf_timeouts_def)

section \<open>The interface of the state machines\<close>

text \<open>
  What the MAC layer relies on. A timer answers 0 (running), 1 (expired) or 2 (not a running
  timer). Setting returns the number of a timer that was not in use and disturbs no other;
  releasing makes it answer 2; an interrupt can only turn 0 into 1.
\<close>

locale timer_service =
  fixes tset :: "'t \<Rightarrow> u32 \<Rightarrow> u32 \<Rightarrow> u32 \<times> 't"
    and tpassed :: "'t \<Rightarrow> u32 \<Rightarrow> nat"
    and tunset :: "'t \<Rightarrow> u32 \<Rightarrow> nat \<times> 't"
    and tfire :: "'t \<Rightarrow> u32 \<Rightarrow> 't"
    and tinv :: "'t \<Rightarrow> bool"
    and terr :: u32
  assumes set_inv: "tinv t \<Longrightarrow> tinv (snd (tset t now s))"
    and unset_inv: "tinv t \<Longrightarrow> tinv (snd (tunset t i))"
    and fire_inv: "tinv t \<Longrightarrow> tinv (tfire t now)"
    and set_fresh: "tinv t \<Longrightarrow> fst (tset t now s) \<noteq> terr \<Longrightarrow> tpassed t (fst (tset t now s)) = 2"
    and set_live: "tinv t \<Longrightarrow> fst (tset t now s) \<noteq> terr \<Longrightarrow>
        tpassed (snd (tset t now s)) (fst (tset t now s)) = 0"
    and set_other: "tinv t \<Longrightarrow> i \<noteq> fst (tset t now s) \<Longrightarrow>
        tpassed (snd (tset t now s)) i = tpassed t i"
    and unset_self: "tinv t \<Longrightarrow> tpassed (snd (tunset t i)) i = 2"
    and unset_other: "tinv t \<Longrightarrow> j \<noteq> i \<Longrightarrow> tpassed (snd (tunset t i)) j = tpassed t j"
    and fire_step: "tinv t \<Longrightarrow> tpassed (tfire t now) i = tpassed t i \<or>
        tpassed t i = 0 \<and> tpassed (tfire t now) i = 1"
begin

text \<open>Any number of interrupts, at the given counter values.\<close>

lemma fires_inv: "tinv t \<Longrightarrow> tinv (foldl tfire t nows)"
  by (induction nows arbitrary: t) (auto intro: fire_inv)

lemma expired_forever: "tinv t \<Longrightarrow> tpassed t i = 1 \<Longrightarrow> tpassed (foldl tfire t nows) i = 1"
proof (induction nows arbitrary: t)
  case (Cons now nows)
  with fire_step [OF Cons.prems(1), of now i] show ?case by (auto intro: fire_inv)
qed simp

lemma dead_forever: "tinv t \<Longrightarrow> tpassed t i = 2 \<Longrightarrow> tpassed (foldl tfire t nows) i = 2"
proof (induction nows arbitrary: t)
  case (Cons now nows)
  with fire_step [OF Cons.prems(1), of now i] show ?case by (auto intro: fire_inv)
qed simp

text \<open>A released timer never expires again until it is set: waiting for it does not end.\<close>

lemma released_never_expires:
  "tinv t \<Longrightarrow> tpassed (foldl tfire (snd (tunset t i)) nows) i = 2"
  by (intro dead_forever unset_inv unset_self)

text \<open>A timer in use keeps its number to itself.\<close>

lemma set_distinct:
  assumes "tinv t" and "fst (tset t now s) \<noteq> terr" and "tpassed t i \<noteq> 2"
  shows "fst (tset t now s) \<noteq> i"
  using set_fresh [OF assms(1,2)] assms(3) by auto

end

lemma timeout_set_cases:
  assumes "wf_timeouts t"
  obtains (error) "timeout_set t now s = (TIMEOUT_SET_ERROR, t)"
  | (set) k where "first_free t k" "s \<noteq> 0" "fst (timeout_set t now s) = of_nat k"
      "timeout_state (snd (timeout_set t now s)) = (timeout_state t)[k := 3]"
proof (cases "s = 0")
  case True
  then show ?thesis using error by (simp add: timeout_set_def)
next
  case False
  show ?thesis
  proof (cases t rule: first_free_cases)
    case full
    then show ?thesis using error timeout_set_full [OF assms] by blast
  next
    case (free k)
    then show ?thesis using set timeout_set_free [OF assms free False, of now] False by simp
  qed
qed

lemma first_free_passed:
  assumes "wf_timeouts t" and "first_free t k"
  shows "timeout_passed t (of_nat k) = 2"
proof -
  have "k < TIMEOUTS" "free_slot t k" using assms(2) by (simp_all add: first_free_def)
  then show ?thesis
    using timeout_passed_slot [OF assms(1), of "of_nat k"] wf_slot [OF assms(1), of k]
    by (auto simp: unat_slot free_slot_def)
qed

lemma timeout_unset_state:
  assumes "wf_timeouts t" and "unat tid < TIMEOUTS"
  shows "timeout_state (snd (timeout_unset t tid)) ! i =
    (if i = unat tid then timeout_state t ! i AND 4 else timeout_state t ! i)"
  using assms by (simp add: timeout_unset_def Let_def wf_timeouts_def nth_list_update)

interpretation timers: timer_service timeout_set timeout_passed timeout_unset timeout_fire
  wf_timeouts TIMEOUT_SET_ERROR
proof unfold_locales
  fix t now s i j
  assume wf: "wf_timeouts t"
  show "wf_timeouts (snd (timeout_set t now s))" by (rule wf_timeout_set [OF wf])
  show "wf_timeouts (snd (timeout_unset t i))" by (rule wf_timeout_unset [OF wf])
  show "wf_timeouts (timeout_fire t now)" by (rule wf_timeout_fire [OF wf])
  show "timeout_passed t (fst (timeout_set t now s)) = 2"
    if "fst (timeout_set t now s) \<noteq> TIMEOUT_SET_ERROR"
    using that by (cases rule: timeout_set_cases [OF wf, of now s]) (auto simp: first_free_passed [OF wf])
  show "timeout_passed (snd (timeout_set t now s)) (fst (timeout_set t now s)) = 0"
    if "fst (timeout_set t now s) \<noteq> TIMEOUT_SET_ERROR"
  proof (cases rule: timeout_set_cases [OF wf, of now s])
    case 1
    with that show ?thesis by simp
  next
    case (2 k)
    then have k: "k < TIMEOUTS" by (simp add: first_free_def)
    with 2 wf timeout_passed_slot [OF wf_timeout_set [OF wf, of now s], of "of_nat k"]
    show ?thesis by (simp add: unat_slot wf_timeouts_def)
  qed
  show "timeout_passed (snd (timeout_set t now s)) i = timeout_passed t i"
    if "i \<noteq> fst (timeout_set t now s)"
  proof (cases rule: timeout_set_cases [OF wf, of now s])
    case 1
    then show ?thesis by simp
  next
    case (2 k)
    then have "unat i \<noteq> k" using that by auto
    with 2 timeout_passed_slot [OF wf_timeout_set [OF wf, of now s], of i]
      timeout_passed_slot [OF wf, of i]
    show ?thesis by (cases "unat i < TIMEOUTS") simp_all
  qed
  show "timeout_passed (snd (timeout_unset t i)) i = 2"
  proof (cases "unat i < TIMEOUTS")
    case True
    with timeout_passed_slot [OF wf_timeout_unset [OF wf], of i i] timeout_unset_state [OF wf True]
      wf_slot [OF wf True]
    show ?thesis by auto
  qed simp
  show "timeout_passed (snd (timeout_unset t i)) j = timeout_passed t j" if "j \<noteq> i"
  proof (cases "unat i < TIMEOUTS \<and> unat j < TIMEOUTS")
    case True
    have "unat j \<noteq> unat i" using that by (simp add: unsigned_word_eqI word_unat_eq_iff)
    with True timeout_passed_slot [OF wf_timeout_unset [OF wf], of j i]
      timeout_passed_slot [OF wf, of j] timeout_unset_state [OF wf]
    show ?thesis by simp
  next
    case False
    then show ?thesis by (auto simp: timeout_unset_def timeout_passed_def)
  qed
  show "timeout_passed (timeout_fire t now) i = timeout_passed t i \<or>
      timeout_passed t i = 0 \<and> timeout_passed (timeout_fire t now) i = 1"
  proof (cases "unat i < TIMEOUTS")
    case True
    with timeout_passed_slot [OF wf True] timeout_passed_slot [OF wf_timeout_fire [OF wf], of i now]
      timeout_fire_fields(3) [OF wf True, of now]
    show ?thesis by simp
  qed simp
qed


section \<open>What the timers promise\<close>

lemma timeout_set_zero [simp]: "timeout_set t now 0 = (TIMEOUT_SET_ERROR, t)"
  by (simp add: timeout_set_def)

lemma timespec_set_bound: "0 \<le> sint (timespec_set s) \<and> sint (timespec_set s) \<le> max 0 (sint s)"
  by (auto simp: timespec_set_def)

lemma timespec_set_mono: "sint s \<le> b \<Longrightarrow> 0 \<le> b \<Longrightarrow> sint (timespec_set s) \<le> b"
  by (auto simp: timespec_set_def)

text \<open>
  Setting a timeout. With a zero delay, or when all twenty are in use, it returns the error
  number and changes nothing. Otherwise it takes the lowest free slot, arms it with the deadline,
  leaves the other slots alone, and programs the hardware timer within the delay asked for and
  within the delay of every other running timeout that is not overdue.
\<close>

theorem timeout_set_spec:
  assumes "wf_timeouts t"
  shows "if seconds = 0 \<or> (\<forall>i < TIMEOUTS. \<not> free_slot t i)
    then timeout_set t now seconds = (TIMEOUT_SET_ERROR, t)
    else \<exists>k due. first_free t k \<and>
      timeout_set t now seconds =
        (of_nat k,
         t\<lparr>timeout_state := (timeout_state t)[k := 3],
           timeout_time := (timeout_time t)[k := timespec_add now seconds],
           timeout_timer := Some (now + due)\<rparr>) \<and>
      0 \<le> sint due \<and> sint due \<le> max 0 (sint seconds) \<and>
      (\<forall>i < TIMEOUTS. i \<noteq> k \<and> timeout_passed t (of_nat i) = 0 \<and>
           0 \<le> sint (timespec_diff (timeout_time t ! i) now) \<longrightarrow>
         sint due \<le> sint (timespec_diff (timeout_time t ! i) now))"
proof (cases "seconds = 0 \<or> (\<forall>i < TIMEOUTS. \<not> free_slot t i)")
  case True
  with timeout_set_full [OF assms] show ?thesis by (cases "seconds = 0") simp_all
next
  case False
  then obtain k where k: "first_free t k" by (cases t rule: first_free_cases) auto
  let ?st = "(timeout_state t)[k := 3]"
  let ?tm = "(timeout_time t)[k := timespec_add now seconds]"
  let ?n = "next_timeout ?st ?tm now [0..<TIMEOUTS] seconds"
  note min = next_timeout_min [of ?st ?tm now "[0..<TIMEOUTS]" seconds]
  have others: "sint (timespec_set ?n) \<le> sint (timespec_diff (timeout_time t ! i) now)"
    if "i < TIMEOUTS" "i \<noteq> k" "timeout_passed t (of_nat i) = 0"
      "0 \<le> sint (timespec_diff (timeout_time t ! i) now)" for i
  proof (rule timespec_set_mono)
    have "timeout_state t ! i = 3"
      using that(1,3) timeout_passed_slot [OF assms, of "of_nat i"] unat_slot [OF that(1)]
      by (simp split: if_splits)
    then show "sint ?n \<le> sint (timespec_diff (timeout_time t ! i) now)"
      using min [THEN conjunct2, rule_format, of i] that not_sym [OF that(2)]
      by (simp del: upt_rec_numeral)
  qed (rule that(4))
  show ?thesis
    using False k timeout_set_free [OF assms k, of seconds now] others timespec_set_bound [of ?n] min
    by (auto simp del: upt_rec_numeral intro!: exI [of _ k] exI [of _ "timespec_set ?n"])
qed

text \<open>The static variable before \<open>timeout_init\<close>.\<close>

definition static_timeouts :: timeout_t where
  "static_timeouts = \<lparr>timeout_timer = None, timeout_state = replicate TIMEOUTS 0,
     timeout_time = replicate TIMEOUTS 0\<rparr>"

lemma timeout_set_spec_witness:
  "fst (timeout_set (snd (timeout_init static_timeouts)) 100 500) = 0"
proof -
  let ?t = "snd (timeout_init static_timeouts)"
  have free: "free_slot ?t i" if "i < TIMEOUTS" for i
    using that by (simp add: free_slot_def timeout_init_def)
  then have nf: "\<not> (500 = (0 :: u32) \<or> (\<forall>i < TIMEOUTS. \<not> free_slot ?t i))"
    by (auto intro: exI [of _ 0])
  from timeout_set_spec [OF wf_timeout_init, of 500 static_timeouts 100, unfolded if_not_P [OF nf]] obtain k where
    "first_free ?t k" "fst (timeout_set ?t 100 500) = of_nat k" by (metis fst_conv)
  moreover from this free [of 0] have "k = 0" by (cases k) (auto simp: first_free_def)
  ultimately show ?thesis by simp
qed

text \<open>Differences of the 32-bit counter, for delays below half its range.\<close>

lemma unat_small: "unat (c :: u32) < 2 ^ 31 \<longleftrightarrow> uint c < 2 ^ 31"
  using of_nat_less_iff [where ?'a = int, of "unat c" "2 ^ 31"] by simp

lemma sint_small:
  fixes c :: u32
  assumes "uint c < 2 ^ 31"
  shows "sint c = uint c"
proof -
  have "signed_take_bit 31 (uint c) = uint c"
    using assms by (intro signed_take_bit_int_eq_self) (auto intro: order_trans [of _ 0])
  then show ?thesis by (simp add: sint_uint)
qed

lemma sint_diff_small:
  fixes a b :: u32
  assumes "unat a < 2 ^ 31" and "unat b < 2 ^ 31"
  shows "sint (a - b) = uint a - uint b"
proof -
  have ab: "uint a < 2 ^ 31" "uint b < 2 ^ 31" using assms by (simp_all only: unat_small)
  then have "signed_take_bit 31 (uint a - uint b) = uint a - uint b"
    by (intro signed_take_bit_int_eq_self)
      (use unsigned_greater_eq [of a, where ?'a = int] unsigned_greater_eq [of b, where ?'a = int]
        in linarith)+
  then show ?thesis using ab by (simp add: sint_word_ariths(2) sint_small)
qed

lemma sint_nonneg_small:
  assumes "0 \<le> sint (s :: u32)"
  shows "unat s < 2 ^ 31"
proof -
  have "sint s < 2 ^ 31" using sint_lt [of s] by simp
  then have "take_bit 32 (sint s) = sint s" using assms by (simp add: take_bit_int_eq_self)
  then have "uint s = sint s" by (simp add: uint_sint)
  with \<open>sint s < 2 ^ 31\<close> show ?thesis by (simp only: unat_small)
qed

lemma timeout_expires:
  assumes "wf_timeouts t" and "0 < sint seconds" and "unat d < 2 ^ 31"
    and "timeout_set t now seconds = (tid, t')" and "tid \<noteq> TIMEOUT_SET_ERROR"
  shows "timeout_passed (timeout_fire t' (now + d)) tid = (if unat seconds \<le> unat d then 1 else 0)"
proof -
  have nz: "seconds \<noteq> 0" using assms(2) by auto
  then obtain k where k: "first_free t k"
    using assms(4,5) timeout_set_full [OF assms(1)] by (cases t rule: first_free_cases) auto
  then have lt: "k < TIMEOUTS" by (simp add: first_free_def)
  have wf': "wf_timeouts t'" using wf_timeout_set [OF assms(1), of now seconds] assms(4) by simp
  have tid: "tid = of_nat k" and st: "timeout_state t' ! k = 3"
    and tm: "timeout_time t' ! k = now + seconds"
    using timeout_set_free [OF assms(1) k nz, of now] assms(1,2,4) lt
    by (auto simp: wf_timeouts_def timespec_add_def simp del: upt_rec_numeral)
  have "sint (timespec_diff (now + seconds) (now + d)) = uint seconds - uint d"
    using sint_diff_small [OF sint_nonneg_small assms(3)] assms(2)
    by (simp add: timespec_diff_def)
  moreover have "uint seconds \<le> uint d \<longleftrightarrow> unat seconds \<le> unat d"
    using of_nat_le_iff [where ?'a = int, of "unat seconds" "unat d"] by simp
  ultimately show ?thesis
    using timeout_fire_fields(3) [OF wf' lt, of "now + d"] st tm tid lt
      timeout_passed_slot [OF wf_timeout_fire [OF wf'], of tid "now + d"]
    by (simp add: unat_slot)
qed

text \<open>
  C22. Expiry. A timeout set for a positive delay answers, when the interrupt comes \<open>d\<close>
  microseconds after the setting, that it has passed exactly when its delay is over, whatever the
  counter value was at the setting: also across the wrap-around of the 32-bit counter. The
  distance must be below half the range of the counter.
\<close>

theorem timeout_expiry:
  assumes "wf_timeouts t" and "0 < sint seconds" and "unat d < 2 ^ 31"
    and "timeout_set t now seconds = (tid, t')" and "tid \<noteq> TIMEOUT_SET_ERROR"
  shows "timeout_passed (timeout_fire t' (now + d)) tid = (if unat seconds \<le> unat d then 1 else 0)"
  using assms by (rule timeout_expires)

lemma timeout_expiry_witness:
  "timeout_passed (timeout_fire (snd (timeout_set (snd (timeout_init static_timeouts)) 4294967295 500)) (4294967295 + 500)) 0 = 1"
proof -
  let ?t = "snd (timeout_init static_timeouts)"
  have free: "first_free ?t 0" by (simp add: first_free_def free_slot_def timeout_init_def)
  have "timeout_set ?t 4294967295 500 = (0, snd (timeout_set ?t 4294967295 500))"
    using timeout_set_free [OF wf_timeout_init free, of 500 4294967295]
    by (simp del: upt_rec_numeral)
  from timeout_expiry [OF wf_timeout_init _ _ this, of 500] show ?thesis
    by (simp add: TIMEOUT_SET_ERROR_def)
qed

text \<open>
  Releasing a timeout. It answers 2, no running timeout, from then on, whatever interrupts
  follow, until a later setting hands out its number again; the other timeouts are not disturbed.
\<close>

theorem timeout_unset_releases:
  assumes "wf_timeouts t"
  shows "timeout_passed (foldl timeout_fire (snd (timeout_unset t tid)) nows) tid = 2 \<and>
    (\<forall>other. other = tid \<or> timeout_passed (snd (timeout_unset t tid)) other = timeout_passed t other)"
  using timers.released_never_expires [OF assms] timers.unset_other [OF assms] by blast

lemma timeout_unset_releases_witness:
  "timeout_passed (foldl timeout_fire (snd (timeout_unset (snd (timeout_init static_timeouts)) 3)) [5, 9]) 3 = 2"
  using timeout_unset_releases [OF wf_timeout_init, of static_timeouts 3 "[5, 9]"] by blast

text \<open>The states that the API and the interrupt can produce, in any order.\<close>

inductive timeouts_reach :: "timeout_t \<Rightarrow> bool" where
  init: "timeouts_reach (snd (timeout_init t))"
| set: "timeouts_reach t \<Longrightarrow> timeouts_reach (snd (timeout_set t now seconds))"
| unset: "timeouts_reach t \<Longrightarrow> timeouts_reach (snd (timeout_unset t tid))"
| fire: "timeouts_reach t \<Longrightarrow> timeouts_reach (timeout_fire t now)"

inductive_cases timeouts_reach_cases: "timeouts_reach t"

lemma timeouts_reach_wf: "timeouts_reach t \<Longrightarrow> wf_timeouts t"
  by (induction rule: timeouts_reach.induct)
    (simp_all add: wf_timeout_init wf_timeout_set wf_timeout_unset wf_timeout_fire)

lemma running_slot:
  assumes "wf_timeouts t" and "timeout_passed t tid = 0"
  shows "unat tid < TIMEOUTS" and "timeout_state t ! unat tid = 3"
proof -
  show "unat tid < TIMEOUTS" using assms(2) timeout_passed_bad by fastforce
  then show "timeout_state t ! unat tid = 3"
    using timeout_passed_slot [OF assms(1)] assms(2) by (simp split: if_splits)
qed

lemma timeout_fire_passed:
  assumes "wf_timeouts t"
  shows "timeout_passed (timeout_fire t now) tid =
    (if timeout_passed t tid = 0 \<and> sint (timespec_diff (timeout_time t ! unat tid) now) \<le> 0
     then 1 else timeout_passed t tid)"
proof (cases "unat tid < TIMEOUTS")
  case True
  then show ?thesis
    using timeout_fire_fields(3) [OF assms True, of now] timeout_passed_slot [OF assms True]
      timeout_passed_slot [OF wf_timeout_fire [OF assms] True, of now] by simp
qed simp

text \<open>
  C23. No timeout is forgotten, and none is early. In every state that initialisation, setting and
  releasing timeouts and interrupts lead to, a running timeout keeps the hardware timer programmed. An interrupt at the counter value \<open>now\<close> marks exactly those running
  timeouts as passed whose deadline is reached, and changes the answer of no other. Afterwards the
  hardware timer is off if no timeout runs any more; otherwise it is programmed for the deadline of
  a running timeout, of which no other running timeout is ahead, and that deadline lies in the future.
\<close>

theorem no_timeout_forgotten:
  assumes "timeouts_reach t"
  shows "(\<forall>tid. timeout_passed t tid = 0 \<longrightarrow> timeout_timer t \<noteq> None) \<and>
    (\<forall>tid. timeout_passed (timeout_fire t now) tid =
       (if timeout_passed t tid = 0 \<and> sint (timespec_diff (timeout_time t ! unat tid) now) \<le> 0
        then 1 else timeout_passed t tid)) \<and>
    (case timeout_timer (timeout_fire t now) of
       None \<Rightarrow> \<forall>tid. timeout_passed (timeout_fire t now) tid \<noteq> 0
     | Some due \<Rightarrow>
         (\<exists>tid. timeout_passed (timeout_fire t now) tid = 0 \<and> due = timeout_time t ! unat tid) \<and>
         0 < sint (timespec_diff due now) \<and>
         (\<forall>tid. timeout_passed (timeout_fire t now) tid = 0 \<longrightarrow>
            sint (timespec_diff due now) \<le> sint (timespec_diff (timeout_time t ! unat tid) now)))"
proof -
  note wf = timeouts_reach_wf [OF assms]
  let ?t = "timeout_fire t now"
  define live where "live = {i. i < TIMEOUTS \<and> timeout_state ?t ! i = 3}"
  have in_live: "unat tid \<in> live" if "timeout_passed ?t tid = 0" for tid
    using running_slot [OF wf_timeout_fire [OF wf] that] by (simp add: live_def)
  have running: "timeout_passed ?t (of_nat i) = 0" if "i \<in> live" for i
    using that timeout_passed_slot [OF wf_timeout_fire [OF wf], of "of_nat i"]
    by (simp add: live_def unat_slot)
  have prog: "timeout_timer t \<noteq> None" if "timeout_passed t tid = 0" for tid
    using wf running_slot [OF wf that] unfolding wf_timeouts_def by (metis pending_simps(2))
  note timer = timeout_fire_timer [OF wf, of now, folded live_def]
  show ?thesis
  proof (intro conjI allI impI)
    show "timeout_passed ?t tid = (if timeout_passed t tid = 0 \<and>
        sint (timespec_diff (timeout_time t ! unat tid) now) \<le> 0 then 1 else timeout_passed t tid)" for tid
      by (rule timeout_fire_passed [OF wf])
    show "case timeout_timer ?t of
       None \<Rightarrow> \<forall>tid. timeout_passed ?t tid \<noteq> 0
     | Some due \<Rightarrow> (\<exists>tid. timeout_passed ?t tid = 0 \<and> due = timeout_time t ! unat tid) \<and>
         0 < sint (timespec_diff due now) \<and>
         (\<forall>tid. timeout_passed ?t tid = 0 \<longrightarrow>
            sint (timespec_diff due now) \<le> sint (timespec_diff (timeout_time t ! unat tid) now))"
    proof (cases "live = {}")
      case True
      with timer in_live show ?thesis by auto
    next
      case False
      then obtain i where i: "i \<in> live" "timeout_timer ?t = Some (timeout_time t ! i)"
        "\<forall>j \<in> live. 0 < sint (timespec_diff (timeout_time t ! i) now) \<and>
           sint (timespec_diff (timeout_time t ! i) now) \<le> sint (timespec_diff (timeout_time t ! j) now)"
        using timer by (auto simp: timespec_diff_def)
      then have "unat (of_nat i :: u32) = i" by (simp add: live_def unat_slot)
      with i running [OF i(1)] in_live show ?thesis by (auto intro: exI [of _ "of_nat i"])
    qed
  qed (rule prog)
qed

lemma no_timeout_forgotten_witness:
  "timeout_timer (snd (timeout_set (snd (timeout_init static_timeouts)) 7 500)) \<noteq> None"
proof -
  let ?t = "snd (timeout_init static_timeouts)"
  let ?s = "snd (timeout_set ?t 7 500)"
  have free: "first_free ?t 0" by (simp add: first_free_def free_slot_def timeout_init_def)
  have "fst (timeout_set ?t 7 500) = 0"
    using timeout_set_free [OF wf_timeout_init free, of 500 7] by (simp del: upt_rec_numeral)
  then have "timeout_passed ?s 0 = 0"
    using timers.set_live [OF wf_timeout_init, of static_timeouts 7 500] by (simp add: TIMEOUT_SET_ERROR_def)
  with no_timeout_forgotten [OF timeouts_reach.set [OF timeouts_reach.init, of static_timeouts 7 500]]
  show ?thesis by blast
qed

text \<open>The 32-bit number of a timer in use always denotes one of the twenty slots.\<close>

lemma timeout_running_bound: "timeout_passed t tid \<noteq> 2 \<Longrightarrow> unat tid < TIMEOUTS"
  using timeout_passed_bad by blast

end
