(* ===== verification/Channels.thy ===== *)
theory Channels
  imports Prelude
begin

text \<open>
  The first-in first-out interface of the message queues between the layers and of the packet
  queues inside the MAC layer. The locale \<open>metered\<close> states what one insertion and one removal do
  when an insertion takes \<open>cost\<close> entries of the room; its lemma follows any interleaving of
  insertions and removals. \<open>fifo\<close> is the case of one entry, \<open>exhaustible\<close> adds what happens when
  the room is used up. They are interpreted on the two builds of \<open>ipc-queues.c\<close> and on the packet
  queues of the MAC layer.
\<close>

section \<open>Searching an array for the first match\<close>

text \<open>The loop \<open>for (i = 0; i < n; i++) if (P(a[i])) { ...; break; }\<close>.\<close>

fun find_index :: "('a \<Rightarrow> bool) \<Rightarrow> 'a list \<Rightarrow> nat option" where
  "find_index P [] = None"
| "find_index P (x # xs) = (if P x then Some 0 else map_option Suc (find_index P xs))"

lemma find_index_None: "find_index P xs = None \<longleftrightarrow> (\<forall>i < length xs. \<not> P (xs ! i))"
  by (induction xs) (auto simp: All_less_Suc2)

lemma find_index_Some:
  "find_index P xs = Some i \<longleftrightarrow> i < length xs \<and> P (xs ! i) \<and> (\<forall>j < i. \<not> P (xs ! j))"
proof (induction xs arbitrary: i)
  case Nil
  then show ?case by simp
next
  case (Cons x xs)
  show ?case
  proof (cases i)
    case 0
    then show ?thesis by auto
  next
    case (Suc k)
    have "find_index P (x # xs) = Some (Suc k) \<longleftrightarrow> \<not> P x \<and> find_index P xs = Some k" by auto
    with Cons.IH [of k] Suc show ?thesis by (auto simp: All_less_Suc2)
  qed
qed

section \<open>Copying memory\<close>

text \<open>\<open>memcpy(dst, src, n)\<close> between two arrays that start at their first element.\<close>

definition memcpy :: "u8 list \<Rightarrow> u8 list \<Rightarrow> nat \<Rightarrow> u8 list result" where
  "memcpy dst src n =
     (if n \<le> length dst \<and> n \<le> length src then Inr (take n src @ drop n dst) else Inl Out_of_bounds)"

lemma memcpy_whole: "length dst = n \<Longrightarrow> length src = n \<Longrightarrow> memcpy dst src n = Inr src"
  by (simp add: memcpy_def)

section \<open>Queues\<close>

text \<open>A run of insertions (\<open>Some x\<close>) and removals (\<open>None\<close>), and what the removals return.\<close>

fun run_queue ::
    "('a \<Rightarrow> 's \<Rightarrow> 's result) \<Rightarrow> ('s \<Rightarrow> ('a \<times> 's) result) \<Rightarrow> 'a option list \<Rightarrow> 's \<Rightarrow>
     ('a list \<times> 's) result" where
  "run_queue put get [] s = Inr ([], s)"
| "run_queue put get (Some x # ops) s = rbind (put x s) (run_queue put get ops)"
| "run_queue put get (None # ops) s =
     rbind (get s) (\<lambda>(x, s').
     rbind (run_queue put get ops s') (\<lambda>(ys, s''). Inr (x # ys, s'')))"

text \<open>The elements a run inserts; a run is feasible when it never removes from an empty queue and
  never holds more than \<open>cap\<close> elements.\<close>

definition inserted :: "'a option list \<Rightarrow> 'a list" where
  "inserted ops = List.map_filter (\<lambda>x. x) ops"

lemma inserted_simps [simp]:
  "inserted [] = []"
  "inserted (Some x # ops) = x # inserted ops"
  "inserted (None # ops) = inserted ops"
  by (simp_all add: inserted_def List.map_filter_def)

fun feasible :: "nat \<Rightarrow> nat \<Rightarrow> 'a option list \<Rightarrow> bool" where
  "feasible cap n [] = True"
| "feasible cap n (Some x # ops) = (n < cap \<and> feasible cap (Suc n) ops)"
| "feasible cap n (None # ops) = (0 < n \<and> feasible cap (n - 1) ops)"

lemma feasible_fill:
  "n + length xs \<le> cap \<Longrightarrow> feasible cap n (map Some xs @ ops) = feasible cap (n + length xs) ops"
  by (induction xs arbitrary: n) auto

lemma feasible_drain: "m \<le> n \<Longrightarrow> feasible cap n (replicate m None)"
  by (induction m arbitrary: n) auto

lemma inserted_drain [simp]: "inserted (replicate n None) = []"
  by (induction n) auto

lemma inserted_fill: "inserted (map Some xs @ ops) = xs @ inserted ops"
  by (induction xs) auto

lemma removals_fill [simp]:
  "length (filter Option.is_none (map Some xs @ replicate n None)) = n"
proof -
  have "filter Option.is_none (map Some xs) = []" by (induction xs) simp_all
  then show ?thesis by simp
qed

lemma run_queue_length:
  "run_queue put get ops s = Inr (ys, s') \<Longrightarrow> length ys = length (filter Option.is_none ops)"
proof (induction ops arbitrary: s ys s')
  case (Cons step ops)
  then show ?case by (cases step) (auto simp: rbind_eq_Inr split: prod.splits)
qed simp

locale metered =
  fixes put :: "'a \<Rightarrow> 's \<Rightarrow> 's result"
    and get :: "'s \<Rightarrow> ('a \<times> 's) result"
    and items :: "'s \<Rightarrow> 'a list"
    and room :: "'s \<Rightarrow> nat"
    and cap :: nat
    and fine :: "'a \<Rightarrow> bool"
    and invar :: "'s \<Rightarrow> bool"
    and cost :: nat
  assumes put_pays: "invar s \<Longrightarrow> fine x \<Longrightarrow> cost \<le> room s \<Longrightarrow> length (items s) < cap \<Longrightarrow>
      \<exists>s'. put x s = Inr s' \<and> invar s' \<and> items s' = items s @ [x] \<and> room s = cost + room s'"
    and get_first: "invar s \<Longrightarrow> items s = x # xs \<Longrightarrow>
      \<exists>s'. get s = Inr (x, s') \<and> invar s' \<and> items s' = xs \<and> room s' = room s"
begin

text \<open>
  Along every feasible run that stays within the room, the removals
  return the elements in the order of their insertion, and what is left is still queued.
\<close>

lemma run_metered:
  assumes "invar s" and "\<forall>x \<in> set (inserted ops). fine x"
    and "cost * length (inserted ops) \<le> room s" and "feasible cap (length (items s)) ops"
    and "length (items s) \<le> cap"
  shows "\<exists>ys s'. run_queue put get ops s = Inr (ys, s') \<and> invar s' \<and>
    ys @ items s' = items s @ inserted ops \<and> length (items s') \<le> cap \<and>
    room s = room s' + cost * length (inserted ops)"
  using assms
proof (induction ops arbitrary: s)
  case Nil
  then show ?case by simp
next
  case (Cons step ops)
  show ?case
  proof (cases step)
    case (Some x)
    with Cons.prems put_pays [of s x] obtain s' where
      s': "put x s = Inr s'" "invar s'" "items s' = items s @ [x]" "room s = cost + room s'"
      by auto
    with Cons.prems Cons.IH [of s'] Some show ?thesis by auto
  next
    case None
    with Cons.prems obtain x xs where xs: "items s = x # xs" by (cases "items s") auto
    with get_first [OF Cons.prems(1)] obtain s' where
      s': "get s = Inr (x, s')" "invar s'" "items s' = xs" "room s' = room s" by auto
    with Cons.prems Cons.IH [of s'] None xs show ?thesis by fastforce
  qed
qed

end

text \<open>The queues of the RIOT build and of the MAC layer use up one entry per insertion.\<close>

locale fifo =
  fixes put :: "'a \<Rightarrow> 's \<Rightarrow> 's result"
    and get :: "'s \<Rightarrow> ('a \<times> 's) result"
    and items :: "'s \<Rightarrow> 'a list"
    and room :: "'s \<Rightarrow> nat"
    and cap :: nat
    and fine :: "'a \<Rightarrow> bool"
    and invar :: "'s \<Rightarrow> bool"
  assumes put_ok: "invar s \<Longrightarrow> fine x \<Longrightarrow> 0 < room s \<Longrightarrow> length (items s) < cap \<Longrightarrow>
      \<exists>s'. put x s = Inr s' \<and> invar s' \<and> items s' = items s @ [x] \<and> room s = Suc (room s')"
    and get_ok: "invar s \<Longrightarrow> items s = x # xs \<Longrightarrow>
      \<exists>s'. get s = Inr (x, s') \<and> invar s' \<and> items s' = xs \<and> room s' = room s"

sublocale fifo \<subseteq> entries: metered put get items room cap fine invar 1
  by unfold_locales (simp_all add: put_ok get_ok)

context fifo
begin

lemmas run_fifo = entries.run_metered [unfolded mult_1]

text \<open>Inserting a list and removing as many elements from an empty queue returns the list.\<close>

lemma fill_drain:
  assumes "invar s" and "items s = []" and "\<forall>x \<in> set xs. fine x"
    and "length xs \<le> room s" and "length xs \<le> cap"
  shows "\<exists>s'. run_queue put get (map Some xs @ replicate (length xs) None) s = Inr (xs, s') \<and>
    invar s' \<and> items s' = [] \<and> room s = room s' + length xs"
proof -
  let ?ops = "map Some xs @ replicate (length xs) None"
  have ins: "inserted ?ops = xs" by (simp add: inserted_fill)
  have "feasible cap (length (items s)) ?ops"
    using assms(2,5) by (simp add: feasible_fill feasible_drain)
  moreover have "length (items s) \<le> cap" using assms(2) by simp
  ultimately obtain ys s' where
    run: "run_queue put get ?ops s = Inr (ys, s')" "invar s'" "ys @ items s' = xs"
    "room s = room s' + length xs"
    using run_fifo [OF assms(1), of ?ops, unfolded ins, OF assms(3,4)]
    unfolding assms(2) append_Nil by blast
  have "length ys = length xs"
    using run_queue_length [OF run(1)] by (simp only: removals_fill)
  with arg_cong [OF run(3), of length] have "items s' = []" by simp
  moreover from this run(3) have "ys = xs" by simp
  ultimately show ?thesis using run(1,2,4) by blast
qed

end

text \<open>
  A queue over an array whose index never goes back: when the room is used up, the next insertion
  leaves the array. With this every feasible run has a known end.
\<close>

locale exhaustible = fifo +
  assumes put_exhausted: "invar s \<Longrightarrow> fine x \<Longrightarrow> room s = 0 \<Longrightarrow> length (items s) < cap \<Longrightarrow>
      put x s = Inl Out_of_bounds"
begin

lemma run_exhausts:
  assumes "invar s" and "\<forall>x \<in> set (inserted ops). fine x"
    and "room s < length (inserted ops)" and "feasible cap (length (items s)) ops"
  shows "run_queue put get ops s = Inl Out_of_bounds"
  using assms
proof (induction ops arbitrary: s)
  case (Cons step ops)
  show ?case
  proof (cases step)
    case (Some x)
    show ?thesis
    proof (cases "room s = 0")
      case True
      with Some Cons.prems put_exhausted [of s x] show ?thesis by simp
    next
      case False
      with Some Cons.prems put_ok [of s x] obtain s' where
        "put x s = Inr s'" "invar s'" "items s' = items s @ [x]" "room s = Suc (room s')" by auto
      with Cons.prems Cons.IH [of s'] Some show ?thesis by simp
    qed
  next
    case None
    with Cons.prems obtain x xs where xs: "items s = x # xs" by (cases "items s") auto
    with get_ok [OF Cons.prems(1)] obtain s' where
      "get s = Inr (x, s')" "invar s'" "items s' = xs" "room s' = room s" by auto
    with Cons.prems Cons.IH [of s'] None xs show ?thesis by simp
  qed
qed simp

lemma run_outcome:
  assumes "invar s" and "\<forall>x \<in> set (inserted ops). fine x"
    and "feasible cap (length (items s)) ops" and "length (items s) \<le> cap"
  shows "if length (inserted ops) \<le> room s
    then \<exists>ys s'. run_queue put get ops s = Inr (ys, s') \<and> invar s' \<and> ys @ items s' = items s @ inserted ops
    else run_queue put get ops s = Inl Out_of_bounds"
  using run_fifo [OF assms(1,2) _ assms(3,4)] run_exhausts [OF assms(1,2) _ assms(3)] by auto

end

section \<open>Arrays used as queues\<close>

text \<open>
  The packet queues of the MAC layer: an array, the index of the first packet, which wraps around
  at \<open>c\<close>, the index behind the last one, which does not, and their number. \<open>ring_ok\<close> holds as
  long as the second index has not passed \<open>c\<close>.
\<close>

definition ring_ok :: "nat \<Rightarrow> nat \<Rightarrow> nat \<Rightarrow> nat \<Rightarrow> 'a list \<Rightarrow> bool" where
  "ring_ok c first lst count xs \<longleftrightarrow>
     0 < c \<and> lst \<le> c \<and> count \<le> lst \<and> c \<le> length xs \<and> first = (lst - count) mod c"

definition ring_items :: "nat \<Rightarrow> nat \<Rightarrow> 'a list \<Rightarrow> 'a list" where
  "ring_items lst count xs = map (\<lambda>i. xs ! i) [lst - count..<lst]"

lemma length_ring_items [simp]: "count \<le> lst \<Longrightarrow> length (ring_items lst count xs) = count"
  by (simp add: ring_items_def)

lemma ring_put:
  assumes "ring_ok c first lst count xs" and "lst < c"
  shows "ring_ok c first (Suc lst) (Suc count) (xs[lst := x])"
    and "ring_items (Suc lst) (Suc count) (xs[lst := x]) = ring_items lst count xs @ [x]"
  using assms by (auto simp: ring_ok_def ring_items_def)

lemma ring_first:
  assumes "ring_ok c first lst count xs" and "0 < count"
  shows "first = lst - count" and "first < c" and "ring_items lst count xs = xs ! first # ring_items lst (count - 1) xs"
proof -
  show first: "first = lst - count" and "first < c" using assms by (auto simp: ring_ok_def)
  have "lst - count < lst" "Suc (lst - count) = lst - (count - 1)"
    using assms by (auto simp: ring_ok_def)
  then show "ring_items lst count xs = xs ! first # ring_items lst (count - 1) xs"
    by (simp add: ring_items_def first upt_conv_Cons)
qed

lemma ring_get:
  assumes "ring_ok c first lst count xs" and "0 < count"
  shows "ring_ok c ((first + 1) mod c) lst (count - 1) (xs[first := x])"
    and "ring_items lst (count - 1) (xs[first := x]) = ring_items lst (count - 1) xs"
proof -
  note f = ring_first [OF assms]
  have "Suc (lst - count) = lst - (count - 1)" using assms by (auto simp: ring_ok_def)
  with assms f show "ring_ok c ((first + 1) mod c) lst (count - 1) (xs[first := x])"
    by (simp add: ring_ok_def)
  show "ring_items lst (count - 1) (xs[first := x]) = ring_items lst (count - 1) xs"
    using assms f by (auto simp: ring_items_def ring_ok_def)
qed

end
