(* ===== verification/Ipc_Queues.thy ===== *)
theory Ipc_Queues
  imports Config Channels
begin

text \<open>
  The queues between the layers of the network stack, \<open>ipc-queues/ipc-queues.c\<close> in its RIOT
  build. A message is copied into the static array \<open>msg_storage\<close> and a pointer to it travels
  through the kernel's message passing; a pointer into \<open>msg_storage\<close> is its index.

  RIOT's \<open>msg_*\<close> and \<open>thread_getpid\<close> functions are not part of the repository: they are the
  parameter \<open>'k rtos\<close> over an abstract kernel state \<open>'k\<close>. \<open>messages_in_order\<close> states their
  documented behaviour. The field \<open>schedule\<close> is the scheduler giving the processor to a thread.
\<close>

section \<open>State\<close>

type_synonym pid = "16 word"

record msg_t =
  sender_pid :: pid
  msg_type :: u16
  content :: nat

record 'k rtos =
  thread_getpid :: "'k \<Rightarrow> pid"
  schedule :: "'k \<Rightarrow> pid \<Rightarrow> 'k"
  msg_init_queue :: "'k \<Rightarrow> nat \<Rightarrow> nat \<Rightarrow> 'k"
  msg_send :: "'k \<Rightarrow> msg_t \<Rightarrow> pid \<Rightarrow> 'k result"
  msg_receive :: "'k \<Rightarrow> (msg_t \<times> 'k) result"
  msg_avail :: "'k \<Rightarrow> nat"

text \<open>
  The pointers of a queue are offsets into the static arrays \<open>stack\<close> and \<open>queue\<close>, \<open>None\<close>
  for \<open>NULL\<close>.
\<close>

record Queue_t =
  queue_id :: u32
  queue_stack :: "nat option"
  queue_msgs :: "nat option"
  queue_size :: nat
  message_size :: nat
  msgs_allow :: u32

record queue_thread_t =
  qt_queue_id :: u32
  qt_pid :: pid

record IPC_Queues_t =
  queues :: "Queue_t list"
  queues_ids :: "queue_thread_t list"
  free_stack :: "nat option"
  free_queue :: "nat option"
  msg_storage :: "u8 list list"
  start_storage :: nat
  end_storage :: nat
  stored_elements :: nat

definition STORAGE_SLOTS :: nat where "STORAGE_SLOTS = MAX_QUEUES * MAX_ELEMENTS_ON_QUEUE"

lemma STORAGE_SLOTS_eq [simp]: "STORAGE_SLOTS = 100"
  by (simp add: STORAGE_SLOTS_def)

definition no_queue :: Queue_t where
  "no_queue = \<lparr>queue_id = 0, queue_stack = None, queue_msgs = None, queue_size = 0,
     message_size = 0, msgs_allow = 0\<rparr>"

definition no_thread :: queue_thread_t where
  "no_thread = \<lparr>qt_queue_id = 0, qt_pid = 0\<rparr>"

definition zero_storage :: "u8 list list" where
  "zero_storage = replicate STORAGE_SLOTS (replicate MAX_MESSAGE_SIZE 0)"

section \<open>Operations\<close>

definition init_queues :: IPC_Queues_t where
  "init_queues =
     \<lparr>queues = replicate MAX_QUEUES no_queue, queues_ids = replicate MAX_QUEUES no_thread,
      free_stack = Some 0, free_queue = Some 0, msg_storage = zero_storage,
      start_storage = 0, end_storage = 0, stored_elements = 0\<rparr>"

definition end_queues :: "IPC_Queues_t \<Rightarrow> IPC_Queues_t" where
  "end_queues Q =
     Q\<lparr>free_stack := None, free_queue := None,
       queues := map (\<lambda>q. q\<lparr>queue_id := 0, queue_size := 0, message_size := 0, msgs_allow := 0,
                          queue_stack := None, queue_msgs := None\<rparr>) (queues Q),
       msg_storage := zero_storage, start_storage := 0, end_storage := 0, stored_elements := 0,
       queues_ids := map (\<lambda>t. t\<lparr>qt_queue_id := 0, qt_pid := 0\<rparr>) (queues_ids Q)\<rparr>"

text \<open>
  \<open>create_queue\<close> returns the new identifier and what it stores in the caller's stack pointer.
  \<open>stack_bytes\<close> is RIOT's \<open>THREAD_STACKSIZE_DEFAULT\<close>.
\<close>

definition create_queue ::
    "nat \<Rightarrow> IPC_Queues_t \<Rightarrow> nat \<Rightarrow> nat \<Rightarrow> u32 \<Rightarrow> nat option \<Rightarrow> (u32 \<times> nat option \<times> IPC_Queues_t) result" where
  "create_queue stack_bytes Q max_queue_size msg_size allow stack =
     (case (free_stack Q, free_queue Q) of
       (Some stk, Some qu) \<Rightarrow>
         (if max_queue_size > QUEUE_SIZE then Inr (0, stack, Q)
          else if msg_size > MAX_MESSAGE_SIZE then Inr (0, stack, Q)
          else if unat allow > MAX_ELEMENTS_ON_QUEUE then Inr (0, stack, Q)
          else
            (case find_index (\<lambda>t. qt_queue_id t = 0) (queues_ids Q) of
              None \<Rightarrow> Inr (0, None, Q)
            | Some i \<Rightarrow>
                (let q_id = of_nat i + 1;
                     stk' = Some (stk + i * stack_bytes);
                     qu' = Some (qu + i * QUEUE_SIZE)
                 in Inr (q_id, stk',
                      Q\<lparr>queues_ids := (queues_ids Q)[i := \<lparr>qt_queue_id = 1, qt_pid = 0\<rparr>],
                        queues := (queues Q)[i :=
                          \<lparr>queue_id = q_id, queue_stack = stk', queue_msgs = qu',
                           queue_size = max_queue_size, message_size = msg_size,
                           msgs_allow = allow\<rparr>]\<rparr>))))
     | _ \<Rightarrow> Inl Assertion_failed)"

definition open_queue ::
    "'k rtos \<Rightarrow> IPC_Queues_t \<Rightarrow> 'k \<Rightarrow> u32 \<Rightarrow> pid \<Rightarrow> (u32 \<times> IPC_Queues_t \<times> 'k) result" where
  "open_queue os Q k qid pid =
     assert_that (qid \<noteq> 0)
       (if unat qid > MAX_QUEUES then Inr (0, Q, k)
        else
          (let i = unat qid - 1; q = queues Q ! i;
               Q' = Q\<lparr>queues_ids := (queues_ids Q)[i := (queues_ids Q ! i)\<lparr>qt_pid := pid\<rparr>]\<rparr>
           in (case (queue_stack q, queue_msgs q) of
                (Some stk, Some qu) \<Rightarrow> Inr (1, Q', msg_init_queue os k qu (queue_size q))
              | _ \<Rightarrow> Inl Assertion_failed)))"

definition close_queue :: "IPC_Queues_t \<Rightarrow> u32 \<Rightarrow> IPC_Queues_t result" where
  "close_queue Q qid =
     assert_that (qid > 0)
       (assert_that (unat qid \<le> MAX_QUEUES)
         (let i = unat qid - 1
          in Inr (Q\<lparr>queues := (queues Q)[i := no_queue],
                    queues_ids := (queues_ids Q)[i := no_thread]\<rparr>)))"

definition send_message ::
    "'k rtos \<Rightarrow> IPC_Queues_t \<Rightarrow> 'k \<Rightarrow> u32 \<Rightarrow> u8 list \<Rightarrow> nat \<Rightarrow> pid \<Rightarrow>
     (u32 \<times> IPC_Queues_t \<times> 'k) result" where
  "send_message os Q k qid msg sz pid =
     (if unat qid < 1 \<or> unat qid > MAX_QUEUES then Inr (0, Q, k)
      else if pid = 0 then Inr (0, Q, k)
      else if find_index (\<lambda>t. qt_pid t = pid \<and> qt_queue_id t = 1) (queues_ids Q) = None
      then Inr (0, Q, k)
      else
        (let q = queues Q ! (unat qid - 1)
         in assert_that (queue_stack q \<noteq> None \<and> queue_msgs q \<noteq> None)
           (assert_that (sz \<le> message_size q)
             (if stored_elements Q = STORAGE_SLOTS then Inr (0, Q, k)
              else
                (let last = end_storage Q
                 in if last < STORAGE_SLOTS
                    then
                      rbind (memcpy (msg_storage Q ! last) msg MAX_MESSAGE_SIZE) (\<lambda>bytes.
                        (let Q' = Q\<lparr>msg_storage := (msg_storage Q)[last := bytes],
                                    end_storage := (if last \<ge> STORAGE_SLOTS then 0 else last + 1),
                                    stored_elements := stored_elements Q + 1\<rparr>
                         in rbind (msg_send os k
                                    \<lparr>sender_pid = thread_getpid os k, msg_type = of_nat sz,
                                     content = last\<rparr> pid) (\<lambda>k'.
                              Inr (1, Q', k'))))
                    else Inl Out_of_bounds)))))"

text \<open>\<open>recv_message\<close> also returns the caller's buffer and process id after the call.\<close>

definition recv_message ::
    "'k rtos \<Rightarrow> IPC_Queues_t \<Rightarrow> 'k \<Rightarrow> u32 \<Rightarrow> u8 list \<Rightarrow> nat \<Rightarrow> pid \<Rightarrow>
     (u32 \<times> u8 list \<times> pid \<times> IPC_Queues_t \<times> 'k) result" where
  "recv_message os Q k qid msg sz pid =
     (if unat qid < 1 \<or> unat qid > MAX_QUEUES then Inr (0, msg, pid, Q, k)
      else if sz = 0 then Inr (0, msg, pid, Q, k)
      else
        (let q = queues Q ! (unat qid - 1)
         in assert_that (queue_stack q \<noteq> None \<and> queue_msgs q \<noteq> None)
           (if stored_elements Q = 0 then Inr (0, msg, pid, Q, k)
            else
              rbind (msg_receive os k) (\<lambda>(m, k').
                if unat (msg_type m) \<noteq> message_size q then Inr (0, msg, pid, Q, k')
                else
                  rbind (memcpy msg (msg_storage Q ! content m) sz) (\<lambda>msg'.
                    (let first = start_storage Q
                     in Inr (1, msg', sender_pid m,
                          Q\<lparr>msg_storage := (msg_storage Q)[first := replicate MAX_MESSAGE_SIZE 0],
                            start_storage := (first + 1) mod STORAGE_SLOTS,
                            stored_elements := stored_elements Q - 1\<rparr>, k')))))))"

definition elements_on_queue :: "'k rtos \<Rightarrow> 'k \<Rightarrow> u32 \<Rightarrow> nat result" where
  "elements_on_queue os k qid =
     assert_that (qid > 0) (assert_that (unat qid \<le> MAX_QUEUES) (Inr (msg_avail os k)))"

section \<open>The table of queues\<close>

text \<open>
  An identifier is in use in both tables or in neither; a queue in use owns its own slice of the
  static stack and of the static message array.
\<close>

definition queue_in_use :: "IPC_Queues_t \<Rightarrow> nat \<Rightarrow> bool" where
  "queue_in_use Q i \<longleftrightarrow> qt_queue_id (queues_ids Q ! i) \<noteq> 0"

definition wf_queue_entry :: "nat \<Rightarrow> IPC_Queues_t \<Rightarrow> nat \<Rightarrow> bool" where
  "wf_queue_entry stack_bytes Q i \<longleftrightarrow>
     (if queue_in_use Q i
      then qt_queue_id (queues_ids Q ! i) = 1 \<and> queue_id (queues Q ! i) = of_nat i + 1 \<and>
        queue_stack (queues Q ! i) = Some (i * stack_bytes) \<and>
        queue_msgs (queues Q ! i) = Some (i * QUEUE_SIZE) \<and>
        queue_size (queues Q ! i) \<le> QUEUE_SIZE \<and> message_size (queues Q ! i) \<le> MAX_MESSAGE_SIZE
      else queues Q ! i = no_queue)"

definition wf_queues :: "nat \<Rightarrow> IPC_Queues_t \<Rightarrow> bool" where
  "wf_queues stack_bytes Q \<longleftrightarrow>
     length (queues Q) = MAX_QUEUES \<and> length (queues_ids Q) = MAX_QUEUES \<and>
     free_stack Q = Some 0 \<and> free_queue Q = Some 0 \<and>
     (\<forall>i < MAX_QUEUES. wf_queue_entry stack_bytes Q i)"

lemma wf_init_queues: "wf_queues sb init_queues"
  by (simp add: wf_queues_def wf_queue_entry_def queue_in_use_def init_queues_def no_queue_def
      no_thread_def)

lemma unat_queue_number:
  assumes "i < MAX_QUEUES"
  shows "unat (of_nat i + 1 :: u32) = Suc i"
proof -
  have "Suc i mod 2 ^ 32 = Suc i" using assms by simp
  then have "unat (of_nat (Suc i) :: u32) = Suc i" by (simp only: unat_of_nat take_bit_eq_mod) simp
  then show ?thesis by (simp add: add.commute)
qed

lemma wf_queues_update:
  assumes "wf_queues sb Q" and "k < MAX_QUEUES"
    and "queues Q' = (queues Q)[k := q]" and "queues_ids Q' = (queues_ids Q)[k := t]"
    and "free_stack Q' = free_stack Q" and "free_queue Q' = free_queue Q"
    and "wf_queue_entry sb Q' k"
  shows "wf_queues sb Q'"
proof -
  have "wf_queue_entry sb Q' i" if "i < MAX_QUEUES" for i
  proof (cases "i = k")
    case False
    with assms that show ?thesis
      by (auto simp: wf_queues_def wf_queue_entry_def queue_in_use_def nth_list_update)
  qed (simp add: assms(7))
  with assms show ?thesis by (simp add: wf_queues_def)
qed

lemma create_queue_full:
  assumes "wf_queues sb Q" and "n \<le> QUEUE_SIZE" and "m \<le> MAX_MESSAGE_SIZE"
    and "unat allow \<le> MAX_ELEMENTS_ON_QUEUE" and "\<forall>i < MAX_QUEUES. queue_in_use Q i"
  shows "create_queue sb Q n m allow stack = Inr (0, None, Q)"
proof -
  have "find_index (\<lambda>t. qt_queue_id t = 0) (queues_ids Q) = None"
    using assms(1,5) by (simp add: find_index_None wf_queues_def queue_in_use_def)
  with assms show ?thesis by (simp add: create_queue_def wf_queues_def)
qed

lemma create_queue_free:
  assumes "wf_queues sb Q" and "n \<le> QUEUE_SIZE" and "m \<le> MAX_MESSAGE_SIZE"
    and "unat allow \<le> MAX_ELEMENTS_ON_QUEUE" and "\<not> (\<forall>i < MAX_QUEUES. queue_in_use Q i)"
  shows "\<exists>i Q'. i < MAX_QUEUES \<and> \<not> queue_in_use Q i \<and> (\<forall>j < i. queue_in_use Q j) \<and>
      create_queue sb Q n m allow stack = Inr (of_nat i + 1, Some (i * sb), Q') \<and>
      wf_queues sb Q' \<and> queue_in_use Q' i \<and> queue_id (queues Q' ! i) = of_nat i + 1 \<and>
      (\<forall>j. j \<noteq> i \<longrightarrow> queues Q' ! j = queues Q ! j \<and> queues_ids Q' ! j = queues_ids Q ! j)"
proof -
  obtain i where Some: "find_index (\<lambda>t. qt_queue_id t = 0) (queues_ids Q) = Some i"
    using assms(1,5) by (cases "find_index (\<lambda>t. qt_queue_id t = 0) (queues_ids Q)")
      (auto simp: find_index_None wf_queues_def queue_in_use_def)
  then have i: "i < length (queues_ids Q)" "\<not> queue_in_use Q i" "\<forall>j < i. queue_in_use Q j"
    by (auto simp: find_index_Some queue_in_use_def)
  then have lt: "i < MAX_QUEUES" using assms(1) by (simp add: wf_queues_def)
  let ?Q = "Q\<lparr>queues_ids := (queues_ids Q)[i := \<lparr>qt_queue_id = 1, qt_pid = 0\<rparr>],
      queues := (queues Q)[i := \<lparr>queue_id = of_nat i + 1, queue_stack = Some (i * sb),
        queue_msgs = Some (i * QUEUE_SIZE), queue_size = n, message_size = m, msgs_allow = allow\<rparr>]\<rparr>"
  have res: "create_queue sb Q n m allow stack = Inr (of_nat i + 1, Some (i * sb), ?Q)"
    using assms Some by (simp add: create_queue_def wf_queues_def Let_def)
  have entry: "wf_queue_entry sb ?Q i" "queue_in_use ?Q i"
    using assms lt by (simp_all add: wf_queue_entry_def queue_in_use_def wf_queues_def)
  have "wf_queues sb ?Q"
    by (rule wf_queues_update [OF assms(1) lt _ _ _ _ entry(1)]) simp_all
  moreover have "queue_id (queues ?Q ! i) = of_nat i + 1"
    using assms(1) lt by (simp add: wf_queues_def)
  moreover have "\<forall>j. j \<noteq> i \<longrightarrow> queues ?Q ! j = queues Q ! j \<and> queues_ids ?Q ! j = queues_ids Q ! j"
    by simp
  ultimately show ?thesis using i lt res entry(2) by auto
qed

text \<open>
  Creating a queue. When the sizes are within the limits it takes the lowest identifier not
  in use, gives the caller the slice of the static stack that belongs to it, keeps the tables
  well formed and leaves every other queue as it is; when all are in use it returns 0 and a null
  stack and changes nothing.
\<close>

theorem create_queue_spec:
  assumes "wf_queues sb Q" and "n \<le> QUEUE_SIZE" and "m \<le> MAX_MESSAGE_SIZE"
    and "unat allow \<le> MAX_ELEMENTS_ON_QUEUE"
  shows "if \<forall>i < MAX_QUEUES. queue_in_use Q i
    then create_queue sb Q n m allow stack = Inr (0, None, Q)
    else \<exists>i Q'. i < MAX_QUEUES \<and> \<not> queue_in_use Q i \<and> (\<forall>j < i. queue_in_use Q j) \<and>
      create_queue sb Q n m allow stack = Inr (of_nat i + 1, Some (i * sb), Q') \<and>
      wf_queues sb Q' \<and> queue_in_use Q' i \<and> queue_id (queues Q' ! i) = of_nat i + 1 \<and>
      (\<forall>j. j \<noteq> i \<longrightarrow> queues Q' ! j = queues Q ! j \<and> queues_ids Q' ! j = queues_ids Q ! j)"
proof (cases "\<forall>i < MAX_QUEUES. queue_in_use Q i")
  case True
  then show ?thesis using create_queue_full [OF assms True, of stack] by simp
next
  case False
  from create_queue_free [OF assms False, of stack] show ?thesis by (simp only: False if_False)
qed

lemma create_queue_spec_witness:
  "fst (projr (create_queue 64 init_queues 16 256 10 None)) = 1"
proof -
  have free: "\<not> queue_in_use init_queues 0"
    by (simp add: queue_in_use_def init_queues_def no_thread_def)
  then have "\<not> (\<forall>i < MAX_QUEUES. queue_in_use init_queues i)"
    by (simp add: All_less_Suc2 numeral_eq_Suc del: not_all)
  with create_queue_spec [OF wf_init_queues [of 64], of 16 256 10 None] obtain i Q' where
    "\<forall>j < i. queue_in_use init_queues j"
    "create_queue 64 init_queues 16 256 10 None = Inr (of_nat i + 1, Some (i * 64), Q')"
    by (auto split: if_splits)
  moreover from this free have "i = 0" by (cases i) auto
  ultimately show ?thesis by simp
qed

lemma close_queue_valid:
  assumes "wf_queues sb Q" and "unat qid \<noteq> 0" and "unat qid \<le> MAX_QUEUES"
  shows "\<exists>Q'. close_queue Q qid = Inr Q' \<and> wf_queues sb Q' \<and>
      \<not> queue_in_use Q' (unat qid - 1) \<and>
      (\<forall>j. j \<noteq> unat qid - 1 \<longrightarrow> queues Q' ! j = queues Q ! j \<and> queues_ids Q' ! j = queues_ids Q ! j)"
proof -
  have lt: "unat qid - 1 < MAX_QUEUES" "0 < qid" "unat qid \<le> MAX_QUEUES"
    using assms(2,3) by (auto simp: word_gt_0 unat_eq_0)
  let ?Q = "Q\<lparr>queues := (queues Q)[unat qid - 1 := no_queue],
      queues_ids := (queues_ids Q)[unat qid - 1 := no_thread]\<rparr>"
  have free: "\<not> queue_in_use ?Q (unat qid - 1)" and entry: "wf_queue_entry sb ?Q (unat qid - 1)"
    using assms lt(1)
    by (simp_all add: queue_in_use_def wf_queue_entry_def wf_queues_def no_thread_def)
  have "wf_queues sb ?Q"
    by (rule wf_queues_update [OF assms(1) lt(1) _ _ _ _ entry]) simp_all
  with lt free show ?thesis by (auto simp: close_queue_def Let_def)
qed

text \<open>
  Closing a queue frees its identifier: the entry is empty again in both tables, the tables
  stay well formed and the other queues are untouched. The identifiers 0 and above ten fail the
  assertions.
\<close>

theorem close_queue_spec:
  assumes "wf_queues sb Q"
  shows "if unat qid = 0 \<or> MAX_QUEUES < unat qid then close_queue Q qid = Inl Assertion_failed
    else \<exists>Q'. close_queue Q qid = Inr Q' \<and> wf_queues sb Q' \<and>
      \<not> queue_in_use Q' (unat qid - 1) \<and>
      (\<forall>j. j \<noteq> unat qid - 1 \<longrightarrow> queues Q' ! j = queues Q ! j \<and> queues_ids Q' ! j = queues_ids Q ! j)"
proof (cases "unat qid = 0 \<or> MAX_QUEUES < unat qid")
  case True
  then show ?thesis by (auto simp: close_queue_def assert_that_def word_gt_0 unat_eq_0)
next
  case False
  with close_queue_valid [OF assms, of qid] show ?thesis by simp
qed

lemma close_queue_spec_witness: "close_queue init_queues 11 = Inl Assertion_failed"
  using close_queue_spec [OF wf_init_queues, of 11] by simp

section \<open>Messages between two threads\<close>

text \<open>
  RIOT's documentation of message passing: every thread has an inbox, \<open>msg_send\<close> appends the
  message to the inbox of its destination while its queue has room, \<open>msg_receive\<close> takes the
  oldest message out of the inbox of the running thread, \<open>msg_avail\<close> counts its messages, and
  the scheduler leaves the inboxes alone. A call returns in the thread that made it.
\<close>

definition messages_in_order :: "'k rtos \<Rightarrow> ('k \<Rightarrow> pid \<Rightarrow> msg_t list) \<Rightarrow> bool" where
  "messages_in_order os inbox \<longleftrightarrow>
     (\<forall>k p. thread_getpid os (schedule os k p) = p \<and> inbox (schedule os k p) = inbox k) \<and>
     (\<forall>k m p. length (inbox k p) < QUEUE_SIZE \<longrightarrow>
        (\<exists>k'. msg_send os k m p = Inr k' \<and> inbox k' = (inbox k)(p := inbox k p @ [m]) \<and>
              thread_getpid os k' = thread_getpid os k)) \<and>
     (\<forall>k m ms. inbox k (thread_getpid os k) = m # ms \<longrightarrow>
        (\<exists>k'. msg_receive os k = Inr (m, k') \<and> inbox k' = (inbox k)(thread_getpid os k := ms) \<and>
              thread_getpid os k' = thread_getpid os k)) \<and>
     (\<forall>k. msg_avail os k = length (inbox k (thread_getpid os k)))"

text \<open>A kernel that is nothing but the running thread and the inboxes.\<close>

definition inbox_rtos :: "(pid \<times> (pid \<Rightarrow> msg_t list)) rtos" where
  "inbox_rtos =
     \<lparr>thread_getpid = fst, schedule = (\<lambda>(_, b) p. (p, b)), msg_init_queue = (\<lambda>k _ _. k),
      msg_send = (\<lambda>(self, b) m p.
        if length (b p) < QUEUE_SIZE then Inr (self, b(p := b p @ [m])) else Inl Blocked),
      msg_receive = (\<lambda>(self, b).
        case b self of [] \<Rightarrow> Inl Blocked | m # ms \<Rightarrow> Inr (m, (self, b(self := ms)))),
      msg_avail = (\<lambda>(self, b). length (b self))\<rparr>"

lemma inbox_rtos_in_order: "messages_in_order inbox_rtos snd"
  by (auto simp: messages_in_order_def inbox_rtos_def)

text \<open>
  A link: a sending thread with its queue and a receiving thread with its queue. The message
  buffers have the full message size, as those of the MAC layer do.
\<close>

record link =
  sender :: pid
  sender_queue :: u32
  receiver :: pid
  receiver_queue :: u32

definition link_send ::
    "'k rtos \<Rightarrow> link \<Rightarrow> u8 list \<Rightarrow> IPC_Queues_t \<times> 'k \<Rightarrow> (IPC_Queues_t \<times> 'k) result" where
  "link_send os l msg = (\<lambda>(Q, k).
     rbind (send_message os Q (schedule os k (sender l)) (sender_queue l) msg MAX_MESSAGE_SIZE (receiver l))
       (\<lambda>(ret, Q', k'). assert_that (ret = 1) (Inr (Q', k'))))"

definition link_recv ::
    "'k rtos \<Rightarrow> link \<Rightarrow> IPC_Queues_t \<times> 'k \<Rightarrow> (u8 list \<times> IPC_Queues_t \<times> 'k) result" where
  "link_recv os l = (\<lambda>(Q, k).
     rbind (recv_message os Q (schedule os k (receiver l)) (receiver_queue l)
              (replicate MAX_MESSAGE_SIZE 0) MAX_MESSAGE_SIZE 0)
       (\<lambda>(ret, msg, pid, Q', k'). assert_that (ret = 1 \<and> pid = sender l) (Inr (msg, Q', k'))))"

definition usable_queue :: "IPC_Queues_t \<Rightarrow> u32 \<Rightarrow> bool" where
  "usable_queue Q qid \<longleftrightarrow> 1 \<le> unat qid \<and> unat qid \<le> MAX_QUEUES \<and>
     (let q = queues Q ! (unat qid - 1)
      in queue_stack q \<noteq> None \<and> queue_msgs q \<noteq> None \<and> message_size q = MAX_MESSAGE_SIZE)"

definition link_inv ::
    "'k rtos \<Rightarrow> ('k \<Rightarrow> pid \<Rightarrow> msg_t list) \<Rightarrow> link \<Rightarrow> IPC_Queues_t \<times> 'k \<Rightarrow> bool" where
  "link_inv os inbox l = (\<lambda>(Q, k).
     messages_in_order os inbox \<and>
     usable_queue Q (sender_queue l) \<and> usable_queue Q (receiver_queue l) \<and> receiver l \<noteq> 0 \<and>
     find_index (\<lambda>t. qt_pid t = receiver l \<and> qt_queue_id t = 1) (queues_ids Q) \<noteq> None \<and>
     length (msg_storage Q) = STORAGE_SLOTS \<and>
     (\<forall>s \<in> set (msg_storage Q). length s = MAX_MESSAGE_SIZE) \<and>
     end_storage Q \<le> STORAGE_SLOTS \<and> stored_elements Q \<le> end_storage Q \<and>
     start_storage Q = (end_storage Q - stored_elements Q) mod STORAGE_SLOTS \<and>
     inbox k (receiver l) =
       map (\<lambda>i. \<lparr>sender_pid = sender l, msg_type = of_nat MAX_MESSAGE_SIZE, content = i\<rparr>)
         [end_storage Q - stored_elements Q..<end_storage Q])"

definition link_items ::
    "('k \<Rightarrow> pid \<Rightarrow> msg_t list) \<Rightarrow> link \<Rightarrow> IPC_Queues_t \<times> 'k \<Rightarrow> u8 list list" where
  "link_items inbox l = (\<lambda>(Q, k). map (\<lambda>m. msg_storage Q ! content m) (inbox k (receiver l)))"

text \<open>How many more messages fit: the array of messages is used once, from its start to its end.\<close>

definition link_room :: "IPC_Queues_t \<times> 'k \<Rightarrow> nat" where
  "link_room = (\<lambda>(Q, k). STORAGE_SLOTS - end_storage Q)"

lemma messages_in_orderD:
  assumes "messages_in_order os inbox"
  shows "thread_getpid os (schedule os k p) = p" "inbox (schedule os k p) = inbox k"
    and "length (inbox k p) < 16 \<Longrightarrow>
      \<exists>k'. msg_send os k m p = Inr k' \<and> inbox k' = (inbox k)(p := inbox k p @ [m]) \<and>
        thread_getpid os k' = thread_getpid os k"
    and "inbox k (thread_getpid os k) = m # ms \<Longrightarrow>
      \<exists>k'. msg_receive os k = Inr (m, k') \<and> inbox k' = (inbox k)(thread_getpid os k := ms) \<and>
        thread_getpid os k' = thread_getpid os k"
    and "msg_avail os k = length (inbox k (thread_getpid os k))"
  using assms by (simp_all add: messages_in_order_def)

lemma usable_queue_storage [simp]:
  "usable_queue (msg_storage_update f Q) qid = usable_queue Q qid"
  "usable_queue (start_storage_update g Q) qid = usable_queue Q qid"
  "usable_queue (end_storage_update g Q) qid = usable_queue Q qid"
  "usable_queue (stored_elements_update g Q) qid = usable_queue Q qid"
  by (simp_all add: usable_queue_def)

lemma usable_queueD:
  assumes "usable_queue Q qid"
  shows "\<not> (unat qid < 1 \<or> unat qid > MAX_QUEUES)"
    and "queue_stack (queues Q ! (unat qid - 1)) \<noteq> None"
    and "queue_msgs (queues Q ! (unat qid - 1)) \<noteq> None"
    and "message_size (queues Q ! (unat qid - 1)) = 256"
  using assms by (auto simp: usable_queue_def Let_def)

lemma link_inv_schedule:
  assumes "link_inv os inbox l (Q, k)"
  shows "link_inv os inbox l (Q, schedule os k p)"
proof -
  have "messages_in_order os inbox" using assms by (simp add: link_inv_def)
  from messages_in_orderD(2) [OF this] assms show ?thesis by (simp add: link_inv_def)
qed

text \<open>One send by the running thread.\<close>

lemma send_message_ok:
  assumes "link_inv os inbox l (Q, k)" and "length msg = 256" and "end_storage Q < 100"
    and "stored_elements Q < 16" and "thread_getpid os k = sender l"
  defines "Q' \<equiv> Q\<lparr>msg_storage := (msg_storage Q)[end_storage Q := msg],
      end_storage := end_storage Q + 1, stored_elements := stored_elements Q + 1\<rparr>"
  shows "\<exists>k'. send_message os Q k (sender_queue l) msg 256 (receiver l) = Inr (1, Q', k') \<and>
    inbox k' = (inbox k)(receiver l := inbox k (receiver l) @
      [\<lparr>sender_pid = sender l, msg_type = 256, content = end_storage Q\<rparr>]) \<and>
    thread_getpid os k' = thread_getpid os k"
proof -
  note inv = assms(1) [unfolded link_inv_def prod.case]
  have os: "messages_in_order os inbox" using inv by blast
  have q: "usable_queue Q (sender_queue l)" using inv by blast
  have "length (inbox k (receiver l)) < 16" using inv assms(4) by simp
  from messages_in_orderD(3) [OF os this, of "\<lparr>sender_pid = sender l, msg_type = 256, content = end_storage Q\<rparr>"]
  obtain k' where k': "msg_send os k
      \<lparr>sender_pid = sender l, msg_type = 256, content = end_storage Q\<rparr> (receiver l) = Inr k'"
    "inbox k' = (inbox k)(receiver l := inbox k (receiver l) @
      [\<lparr>sender_pid = sender l, msg_type = 256, content = end_storage Q\<rparr>])"
    "thread_getpid os k' = thread_getpid os k" by auto
  have slot: "length (msg_storage Q ! end_storage Q) = 256" using inv assms(3) by simp
  have "send_message os Q k (sender_queue l) msg 256 (receiver l) = Inr (1, Q', k')"
    unfolding send_message_def
    using usable_queueD [OF q] inv assms(3-5) k'(1)
    by (simp add: memcpy_whole [OF slot assms(2)] Q'_def Let_def)
  with k'(2,3) show ?thesis by auto
qed

text \<open>One receive by the running thread.\<close>

lemma recv_message_ok:
  assumes "link_inv os inbox l (Q, k)" and "0 < stored_elements Q"
    and "thread_getpid os k = receiver l"
  defines "first \<equiv> end_storage Q - stored_elements Q"
  defines "Q' \<equiv> Q\<lparr>msg_storage := (msg_storage Q)[first := replicate 256 0],
      start_storage := (first + 1) mod 100, stored_elements := stored_elements Q - 1\<rparr>"
  shows "\<exists>k'. recv_message os Q k (receiver_queue l) (replicate 256 0) 256 0 =
      Inr (1, msg_storage Q ! first, sender l, Q', k') \<and>
    inbox k' = (inbox k)(receiver l := tl (inbox k (receiver l))) \<and>
    thread_getpid os k' = thread_getpid os k"
proof -
  note inv = assms(1) [unfolded link_inv_def prod.case]
  have os: "messages_in_order os inbox" using inv by blast
  have q: "usable_queue Q (receiver_queue l)" using inv by blast
  have lt: "first < end_storage Q" "end_storage Q \<le> 100" "stored_elements Q \<le> end_storage Q"
    using inv assms(2) by (auto simp: first_def)
  let ?m = "\<lambda>i. \<lparr>sender_pid = sender l, msg_type = 256 :: u16, content = i\<rparr>"
  have box: "inbox k (thread_getpid os k) = ?m first # map ?m [Suc first..<end_storage Q]"
    using inv lt(1) assms(3) by (simp add: first_def upt_conv_Cons)
  from messages_in_orderD(4) [OF os this] obtain k' where k': "msg_receive os k =
      Inr (?m first, k')" "inbox k' = (inbox k)(receiver l := map ?m [Suc first..<end_storage Q])"
    "thread_getpid os k' = thread_getpid os k"
    by (auto simp: assms(3))
  have slot: "length (msg_storage Q ! first) = 256" using inv lt by simp
  have start: "start_storage Q = first" using inv lt by (simp add: first_def)
  have "recv_message os Q k (receiver_queue l) (replicate 256 0) 256 0 =
      Inr (1, msg_storage Q ! first, sender l, Q', k')"
    unfolding recv_message_def
    using usable_queueD [OF q] k'(1) assms(2)
    by (simp add: memcpy_whole [OF _ slot] start Q'_def Let_def)
  with k'(2,3) box assms(3) show ?thesis by auto
qed

lemma link_send_ok:
  assumes "link_inv os inbox l (Q, k)" and "length msg = 256" and "end_storage Q < 100"
    and "stored_elements Q < 16"
  shows "\<exists>k'. link_send os l msg (Q, k) = Inr (Q\<lparr>msg_storage := (msg_storage Q)[end_storage Q := msg],
      end_storage := end_storage Q + 1, stored_elements := stored_elements Q + 1\<rparr>, k') \<and>
    inbox k' = (inbox k)(receiver l := inbox k (receiver l) @
      [\<lparr>sender_pid = sender l, msg_type = 256, content = end_storage Q\<rparr>])"
proof -
  have "messages_in_order os inbox" using assms(1) by (simp add: link_inv_def)
  note kern = messages_in_orderD [OF this]
  from send_message_ok [OF link_inv_schedule [OF assms(1)] assms(2-4) kern(1)] show ?thesis
    by (auto simp: link_send_def kern(2))
qed

lemma link_recv_ok:
  assumes "link_inv os inbox l (Q, k)" and "0 < stored_elements Q"
  defines "first \<equiv> end_storage Q - stored_elements Q"
  shows "\<exists>k'. link_recv os l (Q, k) = Inr (msg_storage Q ! first,
      Q\<lparr>msg_storage := (msg_storage Q)[first := replicate 256 0],
        start_storage := (first + 1) mod 100, stored_elements := stored_elements Q - 1\<rparr>, k') \<and>
    inbox k' = (inbox k)(receiver l := tl (inbox k (receiver l)))"
proof -
  have "messages_in_order os inbox" using assms(1) by (simp add: link_inv_def)
  note kern = messages_in_orderD [OF this]
  from recv_message_ok [OF link_inv_schedule [OF assms(1)] assms(2) kern(1)] show ?thesis
    by (auto simp: link_recv_def kern(2) first_def)
qed

lemma upt_minus_Suc: "s \<le> e \<Longrightarrow> [Suc e - Suc s..<Suc e] = [e - s..<e] @ [e]"
  by simp

lemma link_storage_update:
  "length bs = 256 \<Longrightarrow> \<forall>s \<in> set ss. length s = 256 \<Longrightarrow> \<forall>s \<in> set (ss[i := bs]). length s = 256"
  by (auto dest: subsetD [OF set_update_subset_insert])

lemma link_send_exhausted:
  assumes "link_inv os inbox l s" and "link_room s = 0" and "length (link_items inbox l s) \<le> QUEUE_SIZE"
  shows "link_send os l msg s = Inl Out_of_bounds"
proof -
  obtain Q k where s: "s = (Q, k)" by (cases s)
  have "end_storage Q = 100" "stored_elements Q \<noteq> 100"
    using assms by (auto simp: s link_room_def link_inv_def link_items_def)
  moreover note usable_queueD [of Q "sender_queue l"]
  ultimately show ?thesis
    using assms(1) by (auto simp: s link_send_def send_message_def link_inv_def)
qed

interpretation ipc: exhaustible "link_send os l" "link_recv os l" "link_items inbox l" link_room QUEUE_SIZE
  "\<lambda>msg. length msg = MAX_MESSAGE_SIZE" "link_inv os inbox l" for os inbox l
proof unfold_locales
  fix s :: "IPC_Queues_t \<times> 'a" and x :: "u8 list"
  obtain Q k where s: "s = (Q, k)" by (cases s)
  assume inv: "link_inv os inbox l s" and len: "length x = MAX_MESSAGE_SIZE"
    and room: "0 < link_room s" and cap: "length (link_items inbox l s) < QUEUE_SIZE"
  note inv' = inv [unfolded s link_inv_def prod.case]
  have lt: "end_storage Q < 100" using room s by (simp add: link_room_def)
  have st: "stored_elements Q < 16" using cap inv' by (simp add: link_items_def s)
  from link_send_ok [OF inv [unfolded s] _ lt st, of x] len obtain k' where
    send: "link_send os l x (Q, k) = Inr (Q\<lparr>msg_storage := (msg_storage Q)[end_storage Q := x],
      end_storage := end_storage Q + 1, stored_elements := stored_elements Q + 1\<rparr>, k')" (is "_ = Inr (?Q, _)")
    and box: "inbox k' = (inbox k)(receiver l := inbox k (receiver l) @
      [\<lparr>sender_pid = sender l, msg_type = 256, content = end_storage Q\<rparr>])" by auto
  have "link_inv os inbox l (?Q, k')"
    using inv' lt len link_storage_update [of x "msg_storage Q" "end_storage Q"]
    by (simp add: link_inv_def box)
  moreover have "link_items inbox l (?Q, k') = link_items inbox l s @ [x]"
    using inv' lt by (simp add: link_items_def box s nth_list_update)
  moreover have "link_room s = Suc (link_room (?Q, k'))" using lt by (simp add: link_room_def s)
  ultimately show "\<exists>s'. link_send os l x s = Inr s' \<and> link_inv os inbox l s' \<and>
      link_items inbox l s' = link_items inbox l s @ [x] \<and> link_room s = Suc (link_room s')"
    using send s by blast
next
  fix s :: "IPC_Queues_t \<times> 'a" and x :: "u8 list" and xs
  obtain Q k where s: "s = (Q, k)" by (cases s)
  assume inv: "link_inv os inbox l s" and items: "link_items inbox l s = x # xs"
  note inv' = inv [unfolded s link_inv_def prod.case]
  let ?f = "end_storage Q - stored_elements Q"
  have st: "0 < stored_elements Q" using items inv' by (cases "stored_elements Q") (simp_all add: link_items_def s)
  have lt: "?f < end_storage Q" "end_storage Q \<le> 100" "stored_elements Q \<le> end_storage Q"
    using inv' st by auto
  from link_recv_ok [OF inv [unfolded s] st] obtain k' where
    recv: "link_recv os l (Q, k) = Inr (msg_storage Q ! ?f,
      Q\<lparr>msg_storage := (msg_storage Q)[?f := replicate 256 0],
        start_storage := (?f + 1) mod 100, stored_elements := stored_elements Q - 1\<rparr>, k')"
      (is "_ = Inr (_, ?Q, _)")
    and box: "inbox k' = (inbox k)(receiver l := tl (inbox k (receiver l)))" by blast
  have upt: "[?f..<end_storage Q] = ?f # [Suc ?f..<end_storage Q]" using lt by (simp add: upt_conv_Cons)
  have next_first: "end_storage Q - (stored_elements Q - 1) = Suc ?f" using st lt by simp
  have x: "x = msg_storage Q ! ?f" and xs: "xs = map (\<lambda>i. msg_storage Q ! i) [Suc ?f..<end_storage Q]"
    using items inv' upt by (simp_all add: link_items_def s comp_def)
  have tl: "inbox k' (receiver l) =
      map (\<lambda>i. \<lparr>sender_pid = sender l, msg_type = 256, content = i\<rparr>) [Suc ?f..<end_storage Q]"
    using inv' upt by (simp add: box)
  have "link_inv os inbox l (?Q, k')"
    using inv' lt link_storage_update [of "replicate 256 0" "msg_storage Q" ?f]
    by (simp add: link_inv_def tl next_first [simplified] del: diff_is_0_eq)
  moreover have "link_items inbox l (?Q, k') = xs"
    by (simp add: link_items_def tl xs comp_def)
  moreover have "link_room (?Q, k') = link_room s" by (simp add: link_room_def s)
  ultimately show "\<exists>s'. link_recv os l s = Inr (x, s') \<and> link_inv os inbox l s' \<and>
      link_items inbox l s' = xs \<and> link_room s' = link_room s"
    using recv s x by blast
qed (simp add: link_send_exhausted)

section \<open>What the queues promise\<close>

text \<open>
  C17. What becomes of the messages from one thread to another, when no other threads exchange
  messages. Take any interleaving of sends and receives that never receives from an empty inbox
  and never has more than sixteen messages under way. If it sends at most as many messages as the
  message array has entries that were never used, one hundred at the start, every send and every
  receive succeeds, the receiver gets the bytes of the messages in the order they were sent, and
  the messages not yet received are still queued. If it sends more, it ends with a write behind the
  end of the array.
\<close>

theorem messages_delivered_in_order:
  assumes "link_inv os inbox l s" and "\<forall>msg \<in> set (inserted ops). length msg = MAX_MESSAGE_SIZE"
    and "feasible QUEUE_SIZE (length (link_items inbox l s)) ops"
    and "length (link_items inbox l s) \<le> QUEUE_SIZE"
  shows "if length (inserted ops) \<le> link_room s
    then \<exists>received s'. run_queue (link_send os l) (link_recv os l) ops s = Inr (received, s') \<and>
      link_inv os inbox l s' \<and>
      received @ link_items inbox l s' = link_items inbox l s @ inserted ops
    else run_queue (link_send os l) (link_recv os l) ops s = Inl Out_of_bounds"
  by (rule ipc.run_outcome [OF assms])

text \<open>Two opened queues, as \<open>create_queue\<close> and \<open>open_queue\<close> leave them for threads 1 and 2.\<close>

definition two_queues :: IPC_Queues_t where
  "two_queues = init_queues\<lparr>
     queues := (queues init_queues)
       [0 := \<lparr>queue_id = 1, queue_stack = Some 0, queue_msgs = Some 0, queue_size = 16,
              message_size = 256, msgs_allow = 10\<rparr>,
        1 := \<lparr>queue_id = 2, queue_stack = Some 64, queue_msgs = Some 16, queue_size = 16,
              message_size = 256, msgs_allow = 10\<rparr>],
     queues_ids := (queues_ids init_queues)
       [0 := \<lparr>qt_queue_id = 1, qt_pid = 1\<rparr>, 1 := \<lparr>qt_queue_id = 1, qt_pid = 2\<rparr>]\<rparr>"

definition link_1_2 :: link where
  "link_1_2 = \<lparr>sender = 1, sender_queue = 1, receiver = 2, receiver_queue = 2\<rparr>"

lemma replicate_10: "replicate 10 x = [x, x, x, x, x, x, x, x, x, x]"
  by (simp add: numeral_eq_Suc)

lemma two_queues_made:
  "rbind (create_queue 64 init_queues 16 256 10 None) (\<lambda>(i, _, Q).
   rbind (create_queue 64 Q 16 256 10 None) (\<lambda>(j, _, Q).
   rbind (open_queue inbox_rtos Q (1, \<lambda>_. []) i 1) (\<lambda>(_, Q, k).
   rbind (open_queue inbox_rtos Q k j 2) (\<lambda>(_, Q, k). Inr Q)))) = Inr two_queues"
  by (simp add: create_queue_def open_queue_def init_queues_def two_queues_def no_queue_def
      no_thread_def Let_def replicate_10)

lemma link_1_2_inv: "link_inv inbox_rtos snd link_1_2 (two_queues, (1, \<lambda>_. []))"
  by (simp add: link_inv_def inbox_rtos_in_order usable_queue_def link_1_2_def two_queues_def
      init_queues_def no_queue_def no_thread_def zero_storage_def replicate_10)

lemma link_1_2_start:
  "link_items snd link_1_2 (two_queues, (1, \<lambda>_. [])) = []"
  "link_room (two_queues, k) = 100"
  by (simp_all add: link_items_def link_room_def two_queues_def init_queues_def)

lemma messages_delivered_in_order_witness:
  "\<exists>s'. run_queue (link_send inbox_rtos link_1_2) (link_recv inbox_rtos link_1_2)
     [Some (replicate 256 7), Some (replicate 256 8), None, None] (two_queues, (1, \<lambda>_. [])) =
     Inr ([replicate 256 7, replicate 256 8], s')"
proof -
  let ?ops = "[Some (replicate 256 (7 :: u8)), Some (replicate 256 8), None, None]"
  let ?run = "run_queue (link_send inbox_rtos link_1_2) (link_recv inbox_rtos link_1_2)
     ?ops (two_queues, (1, \<lambda>_. []))"
  obtain ys s' where run: "?run = Inr (ys, s')"
    "ys @ link_items snd link_1_2 s' = [replicate 256 7, replicate 256 8]"
    using messages_delivered_in_order [OF link_1_2_inv, of ?ops]
    by (auto simp: link_1_2_start)
  moreover have "length ys = 2" using run_queue_length [OF run(1)] by simp
  ultimately have "ys = [replicate 256 7, replicate 256 8]"
    by (metis append_eq_conv_conj length_Cons list.size(3) numeral_2_eq_2 take_all order_refl)
  with run(1) show ?thesis by blast
qed

text \<open>
  C39. The message array is used only once. After as many messages as it has entries have been
  sent, all received or not, the next send writes behind the end of the array: the index is reset
  one send too late.
\<close>

theorem message_storage_overrun:
  assumes "link_inv os inbox l s" and "\<forall>msg \<in> set (inserted ops). length msg = MAX_MESSAGE_SIZE"
    and "length (inserted ops) = link_room s"
    and "feasible QUEUE_SIZE (length (link_items inbox l s)) ops"
    and "length (link_items inbox l s) \<le> QUEUE_SIZE"
  shows "\<exists>received s'. run_queue (link_send os l) (link_recv os l) ops s = Inr (received, s') \<and>
    link_send os l msg s' = Inl Out_of_bounds"
proof -
  obtain ys s' where run: "run_queue (link_send os l) (link_recv os l) ops s = Inr (ys, s')"
    and inv: "link_inv os inbox l s'" and cap: "length (link_items inbox l s') \<le> QUEUE_SIZE"
    and room: "link_room s = link_room s' + length (inserted ops)"
    using ipc.run_fifo [OF assms(1,2) _ assms(4,5)] assms(3) by auto
  have "link_room s' = 0" using room assms(3) by simp
  from link_send_exhausted [OF inv this cap] run show ?thesis by blast
qed

lemma alternating:
  "inserted (concat (replicate n [Some x, None])) = replicate n x"
  "m < cap \<Longrightarrow> feasible cap m (concat (replicate n [Some x, None]))"
  by (induction n) simp_all

lemma message_storage_overrun_witness:
  "\<exists>received s'. run_queue (link_send inbox_rtos link_1_2) (link_recv inbox_rtos link_1_2)
     (concat (replicate 100 [Some (replicate 256 7), None])) (two_queues, (1, \<lambda>_. [])) =
       Inr (received, s') \<and>
     link_send inbox_rtos link_1_2 [1, 2] s' = Inl Out_of_bounds"
  using message_storage_overrun [OF link_1_2_inv, of "concat (replicate 100 [Some (replicate 256 7), None])" "[1, 2]"]
  by (simp add: link_1_2_start alternating)

definition three_queues :: IPC_Queues_t where
  "three_queues = two_queues\<lparr>
     queues := (queues two_queues)
       [2 := \<lparr>queue_id = 3, queue_stack = Some 128, queue_msgs = Some 32, queue_size = 16,
              message_size = 256, msgs_allow = 10\<rparr>],
     queues_ids := (queues_ids two_queues)[2 := \<lparr>qt_queue_id = 1, qt_pid = 3\<rparr>]\<rparr>"

definition link_1_3 :: link where
  "link_1_3 = \<lparr>sender = 1, sender_queue = 1, receiver = 3, receiver_queue = 3\<rparr>"

lemma replicate_100: "replicate (100 :: nat) x = x # x # replicate 98 x"
proof -
  have "(100 :: nat) = Suc (Suc 98)" by simp
  then show ?thesis by (simp only: replicate_Suc)
qed

text \<open>
  A receive releases the oldest entry of the message array, not the entry of the message it
  delivers. When thread 1 sends to thread 2 and then to thread 3, and thread 3 receives first,
  thread 3 gets its message and thread 2 then gets 256 zeros instead of its own.
\<close>

theorem receive_clears_other_message:
  "rbind (link_send inbox_rtos link_1_2 (replicate 256 a) (three_queues, (1, \<lambda>_. []))) (\<lambda>s.
   rbind (link_send inbox_rtos link_1_3 (replicate 256 b) s) (\<lambda>s.
   rbind (link_recv inbox_rtos link_1_3 s) (\<lambda>(by_thread_3, s).
   rbind (link_recv inbox_rtos link_1_2 s) (\<lambda>(by_thread_2, s).
     Inr (by_thread_3, by_thread_2))))) = Inr (replicate 256 b, replicate 256 0)"
  by (simp add: link_send_def link_recv_def send_message_def recv_message_def memcpy_def
      link_1_2_def link_1_3_def three_queues_def two_queues_def init_queues_def zero_storage_def
      no_queue_def no_thread_def inbox_rtos_def replicate_10 replicate_100 Let_def)

end
