(* ===== verification/Mac_State.thy ===== *)
theory Mac_State
  imports Config Control_Packet CF_Packet Data_Packet Timeouts Ipc_Queues
begin

text \<open>
  The state of the MAC layer (\<open>Frame.h\<close>, \<open>MAC_Internals.h\<close>, \<open>MCLMAC.h\<close>) with its life cycle
  (\<open>MAC_Internals.c\<close>, \<open>MCLMAC_init\<close>, \<open>MCLMAC_destroy\<close>, \<open>MCLMAC_clear\<close>) and the access
  functions of \<open>MCLMAC.c\<close>. In the RIOT build the nested structures are embedded, so the
  pointers to them are never null. The pointer to the network device is not part of the state:
  the native build never follows it.
\<close>

section \<open>Records\<close>

datatype state_t = START | INITIALIZATION | SYNCHRONIZATION | TIMESLOT_AND_CHANNEL_SELECTION
  | MEDIUM_ACCESS | FINISH | NONE

datatype PowerMode_t = STARTP | PASSIVE | ACTIVE | TRANSMIT | RECEIVE | NONEP | FINISHP | IDLEP

datatype MAC_STATEMACHINE_ERRORS =
  E_MAC_TRANSITION_SUCCESS | E_MAC_TRANSITION_ERROR | E_MAC_NO_TRANSITION | E_MAC_INVALID_STATE

datatype MAC_EXECUTION_ERRORS = E_MAC_EXECUTION_SUCCESS | E_MAC_EXECUTION_FAILED

datatype POWERMODE_ERRORS =
  E_PM_TRANSITION_SUCCESS | E_PM_TRANSITION_ERROR | E_PM_NO_TRANSITION | E_PM_INVALID_STATE

datatype PM_EXECUTION_ERRORS =
  E_PM_EXECUTION_SUCCESS | E_PM_EXECUTION_FAILED | E_PM_COLLISION_DETECTED
  | E_PM_COLLISION_ERROR | E_PM_SYNCHRONIZATION_ERROR

record Frame_t =
  current_frame :: u32
  current_slot :: u8
  slots_number :: u8
  current_cf_slot :: u8
  cf_slots_number :: u8
  frame_timer :: u32
  slot_timer :: u32
  cf_timer :: u32
  frame_duration :: u32
  slot_duration :: u32
  cf_duration :: u32

record MAC_Internals_t =
  ctrlpkt :: ControlPacket_t
  ctrlpkt_recv :: ControlPacket_t
  frame :: Frame_t
  selectedSlot :: u8
  transmitChannel :: u32
  receiveChannel :: u32
  cfChannel :: u32
  transmitter_id :: node_id
  collisionDetected :: bool
  is_internal_collision :: bool
  mac_collisionSlot :: u8
  mac_collisionFrequency :: u32
  cf_message_received :: bool
  cf_messages :: "CFPacket_t list"
  mac_destination_id :: node_id
  packets_to_send_message :: u8
  first_send_message :: u8
  last_send_message :: u8
  message_packets_to_send :: "DataPacket_t list"
  packets_to_send_control :: u8
  first_send_control :: u8
  last_send_control :: u8
  control_packets_to_send :: "DataPacket_t list"
  first_received :: u8
  last_received :: u8
  packets_received :: "DataPacket_t list"
  number_packets_received :: u16

record MCLMAC_t =
  mac :: MAC_Internals_t
  currentState :: state_t
  nextState :: state_t
  powerMode :: PowerMode_t
  nextPowerMode :: PowerMode_t
  is_first_node :: bool
  own_id :: node_id
  own_networkTime :: u64
  nSlots :: u8
  nChannels :: u8
  own_hopCount :: u16
  frequencies :: "u32 list"
  occupied_frequencies_slots :: "u8 list list"
  selected_slots_neighbors :: "u8 list"
  wakeup_frame :: u32
  own_initTime :: u32
  mac_queue_id :: u32
  mac_stack :: "nat option"
  routing_queue_id :: u32
  transport_queue_id :: u32
  app_queue_id :: u32
  self_pid :: pid
  init_state :: u8
  state_cf :: u8
  state_ctrl :: u8
  trues :: u8
  trues5 :: u8

section \<open>Life cycle\<close>

definition zero_frame :: Frame_t where
  "zero_frame =
     \<lparr>current_frame = 0, current_slot = 0, slots_number = 0, current_cf_slot = 0,
      cf_slots_number = 0, frame_timer = 0, slot_timer = 0, cf_timer = 0, frame_duration = 0,
      slot_duration = 0, cf_duration = 0\<rparr>"

text \<open>\<open>memset(mac, 0, sizeof(MAC_Internals_t))\<close>.\<close>

definition zero_mac_internals :: MAC_Internals_t where
  "zero_mac_internals =
     \<lparr>ctrlpkt = controlpacket_init, ctrlpkt_recv = controlpacket_init, frame = zero_frame,
      selectedSlot = 0, transmitChannel = 0, receiveChannel = 0, cfChannel = 0,
      transmitter_id = (0, 0), collisionDetected = False, is_internal_collision = False,
      mac_collisionSlot = 0, mac_collisionFrequency = 0, cf_message_received = False,
      cf_messages = replicate MAX_NUMBER_CF_PACKETS cfpacket_init, mac_destination_id = (0, 0),
      packets_to_send_message = 0, first_send_message = 0, last_send_message = 0,
      message_packets_to_send = replicate MAX_NUMBER_DATA_PACKETS zero_datapacket,
      packets_to_send_control = 0, first_send_control = 0, last_send_control = 0,
      control_packets_to_send = replicate MAX_NUMBER_DATA_PACKETS zero_datapacket,
      first_received = 0, last_received = 0,
      packets_received = replicate (2 * MAX_NUMBER_DATA_PACKETS) zero_datapacket,
      number_packets_received = 0\<rparr>"

definition MAC_internals_init :: MAC_Internals_t where
  "MAC_internals_init =
     zero_mac_internals\<lparr>frame := zero_frame, cfChannel := CF_FREQUENCY,
       ctrlpkt := controlpacket_init, ctrlpkt_recv := controlpacket_init,
       message_packets_to_send := replicate MAX_NUMBER_DATA_PACKETS zero_datapacket,
       control_packets_to_send := replicate MAX_NUMBER_DATA_PACKETS zero_datapacket,
       packets_received := replicate MAX_NUMBER_DATA_PACKETS zero_datapacket @
         drop MAX_NUMBER_DATA_PACKETS (packets_received zero_mac_internals),
       cf_messages := replicate MAX_NUMBER_CF_PACKETS cfpacket_init\<rparr>"

text \<open>The loops that clear the packets, over the first ten entries of each array.\<close>

definition clear_packets :: "MAC_Internals_t \<Rightarrow> MAC_Internals_t" where
  "clear_packets m =
     m\<lparr>message_packets_to_send := map datapacket_clear (message_packets_to_send m),
       control_packets_to_send := map datapacket_clear (control_packets_to_send m),
       packets_received :=
         map datapacket_clear (take MAX_NUMBER_DATA_PACKETS (packets_received m)) @
         drop MAX_NUMBER_DATA_PACKETS (packets_received m),
       cf_messages := map cfpacket_clear (cf_messages m)\<rparr>"

definition MAC_internals_destroy :: "MAC_Internals_t \<Rightarrow> MAC_Internals_t" where
  "MAC_internals_destroy m =
     (let m' = clear_packets m
      in m'\<lparr>ctrlpkt := controlpacket_destroy (ctrlpkt m'),
            ctrlpkt_recv := controlpacket_destroy (ctrlpkt_recv m')\<rparr>)"

definition MAC_internals_clear :: "MAC_Internals_t \<Rightarrow> MAC_Internals_t" where
  "MAC_internals_clear m =
     clear_packets
       (m\<lparr>frame := (frame m)\<lparr>current_slot := 0, current_frame := 0, current_cf_slot := 0,
            cf_slots_number := 0, slots_number := 0\<rparr>,
          selectedSlot := 0, transmitChannel := 0, receiveChannel := 0, cfChannel := 0,
          collisionDetected := False, mac_collisionSlot := 0, mac_collisionFrequency := 0,
          cf_message_received := False\<rparr>)"

definition mclmac_init_mac_state_machine :: "MCLMAC_t \<Rightarrow> MCLMAC_t" where
  "mclmac_init_mac_state_machine m = m\<lparr>currentState := START, nextState := NONE\<rparr>"

definition mclmac_init_powermode_state_machine :: "MCLMAC_t \<Rightarrow> MCLMAC_t" where
  "mclmac_init_powermode_state_machine m = m\<lparr>powerMode := STARTP, nextPowerMode := NONEP\<rparr>"

text \<open>\<open>memset(mclmac, 0, sizeof(MCLMAC_t))\<close>; the first constructor of an enum is 0.\<close>

definition zero_mclmac :: MCLMAC_t where
  "zero_mclmac =
     \<lparr>mac = zero_mac_internals, currentState = START, nextState = START, powerMode = STARTP,
      nextPowerMode = STARTP, is_first_node = False, own_id = (0, 0), own_networkTime = 0,
      nSlots = 0, nChannels = 0, own_hopCount = 0, frequencies = replicate MAX_NUMBER_FREQS 0,
      occupied_frequencies_slots = zero_bitmap, selected_slots_neighbors = replicate SLOT_BYTES 0,
      wakeup_frame = 0, own_initTime = 0, mac_queue_id = 0, mac_stack = None,
      routing_queue_id = 0, transport_queue_id = 0, app_queue_id = 0, self_pid = 0,
      init_state = 0, state_cf = 0, state_ctrl = 0, trues = 0, trues5 = 0\<rparr>"

definition MCLMAC_init :: "nat \<Rightarrow> IPC_Queues_t \<Rightarrow> (MCLMAC_t \<times> IPC_Queues_t) result" where
  "MCLMAC_init stack_bytes Q =
     (let m = zero_mclmac\<lparr>mac := MAC_internals_init, own_id := UUID,
            nChannels := of_nat MAX_NUMBER_FREQS, nSlots := of_nat MAX_NUMBER_SLOTS,
            own_hopCount := 0, own_networkTime := 0, mac_queue_id := 0, routing_queue_id := 0,
            transport_queue_id := 0, app_queue_id := 0\<rparr>;
          m = mclmac_init_powermode_state_machine (mclmac_init_mac_state_machine m);
          m = m\<lparr>occupied_frequencies_slots := zero_bitmap, frequencies := FREQUENCIES\<rparr>
      in rbind (create_queue stack_bytes Q QUEUE_SIZE MAX_MESSAGE_SIZE (of_nat MAX_ELEMENTS_ON_QUEUE)
                  (mac_stack m)) (\<lambda>(qid, stk, Q').
           Inr (m\<lparr>mac_stack := stk, mac_queue_id := qid\<rparr>, Q')))"

definition MCLMAC_destroy :: "MCLMAC_t \<Rightarrow> IPC_Queues_t \<Rightarrow> (MCLMAC_t \<times> IPC_Queues_t) result" where
  "MCLMAC_destroy m Q =
     (let m' = m\<lparr>mac := MAC_internals_destroy (mac m)\<rparr>
      in if mac_queue_id m' \<noteq> 0
         then rbind (close_queue Q (mac_queue_id m')) (\<lambda>Q'. Inr (zero_mclmac, Q'))
         else Inr (zero_mclmac, Q))"

definition MCLMAC_clear :: "MCLMAC_t \<Rightarrow> IPC_Queues_t \<Rightarrow> (MCLMAC_t \<times> IPC_Queues_t) result" where
  "MCLMAC_clear m Q =
     (let m' = m\<lparr>mac := MAC_internals_clear (mac m), currentState := START, powerMode := STARTP,
            own_networkTime := 0, own_hopCount := 0, mac_stack := None\<rparr>
      in if mac_queue_id m' \<noteq> 0
         then rbind (close_queue Q (mac_queue_id m')) (\<lambda>Q'. Inr (m'\<lparr>mac_queue_id := 0\<rparr>, Q'))
         else Inr (m'\<lparr>mac_queue_id := 0\<rparr>, Q))"

section \<open>Access functions\<close>

text \<open>The nested updates \<open>mclmac->mac.x = v\<close> and \<open>mclmac->mac.frame.x = v\<close>.\<close>

definition on_mac :: "(MAC_Internals_t \<Rightarrow> MAC_Internals_t) \<Rightarrow> MCLMAC_t \<Rightarrow> MCLMAC_t" where
  "on_mac f m = m\<lparr>mac := f (mac m)\<rparr>"

definition on_frame :: "(Frame_t \<Rightarrow> Frame_t) \<Rightarrow> MCLMAC_t \<Rightarrow> MCLMAC_t" where
  "on_frame f = on_mac (\<lambda>i. i\<lparr>frame := f (frame i)\<rparr>)"

definition mclmac_set_transmit_channel :: "MCLMAC_t \<Rightarrow> u32 \<Rightarrow> MCLMAC_t" where
  "mclmac_set_transmit_channel m channel = on_mac (transmitChannel_update (\<lambda>_. channel)) m"

definition mclmac_get_transmit_channel :: "MCLMAC_t \<Rightarrow> u32" where
  "mclmac_get_transmit_channel m = transmitChannel (mac m)"

definition mclmac_set_reception_channel :: "MCLMAC_t \<Rightarrow> u32 \<Rightarrow> MCLMAC_t" where
  "mclmac_set_reception_channel m channel = on_mac (receiveChannel_update (\<lambda>_. channel)) m"

definition mclmac_get_reception_channel :: "MCLMAC_t \<Rightarrow> u32" where
  "mclmac_get_reception_channel m = receiveChannel (mac m)"

definition mclmac_get_frequency :: "MCLMAC_t \<Rightarrow> u8 \<Rightarrow> u32 result" where
  "mclmac_get_frequency m index =
     assert_that (unat index < MAX_NUMBER_FREQS) (Inr (frequencies m ! unat index))"

definition mclmac_get_nodeid :: "MCLMAC_t \<Rightarrow> node_id" where
  "mclmac_get_nodeid m = own_id m"

definition mclmac_set_transmiterid :: "MCLMAC_t \<Rightarrow> node_id \<Rightarrow> MCLMAC_t" where
  "mclmac_set_transmiterid m tid = on_mac (transmitter_id_update (\<lambda>_. tid)) m"

definition mclmac_set_selected_slot :: "MCLMAC_t \<Rightarrow> u8 \<Rightarrow> MCLMAC_t" where
  "mclmac_set_selected_slot m slot = on_mac (selectedSlot_update (\<lambda>_. slot)) m"

definition mclmac_get_selected_slot :: "MCLMAC_t \<Rightarrow> u8" where
  "mclmac_get_selected_slot m = selectedSlot (mac m)"

definition mclmac_set_current_frame :: "MCLMAC_t \<Rightarrow> u32 \<Rightarrow> MCLMAC_t" where
  "mclmac_set_current_frame m n = on_frame (current_frame_update (\<lambda>_. n)) m"

definition mclmac_increase_frame :: "MCLMAC_t \<Rightarrow> MCLMAC_t" where
  "mclmac_increase_frame m = on_frame (current_frame_update (\<lambda>n. n + 1)) m"

definition mclmac_set_current_slot :: "MCLMAC_t \<Rightarrow> u8 \<Rightarrow> MCLMAC_t" where
  "mclmac_set_current_slot m slot = on_frame (current_slot_update (\<lambda>_. slot)) m"

definition mclmac_get_current_slot :: "MCLMAC_t \<Rightarrow> u8" where
  "mclmac_get_current_slot m = current_slot (frame (mac m))"

definition mclmac_increase_slot :: "MCLMAC_t \<Rightarrow> MCLMAC_t" where
  "mclmac_increase_slot m = on_frame (current_slot_update (\<lambda>s. s + 1)) m"

definition mclmac_set_slots_number :: "MCLMAC_t \<Rightarrow> u8 \<Rightarrow> MCLMAC_t result" where
  "mclmac_set_slots_number m n =
     assert_that (n > 0) (Inr (on_frame (slots_number_update (\<lambda>_. n)) m))"

definition mclmac_set_cf_slots_number :: "MCLMAC_t \<Rightarrow> u8 \<Rightarrow> MCLMAC_t result" where
  "mclmac_set_cf_slots_number m n =
     assert_that (n > 0) (Inr (on_frame (cf_slots_number_update (\<lambda>_. n)) m))"

definition mclmac_set_current_cf_slot :: "MCLMAC_t \<Rightarrow> u8 \<Rightarrow> MCLMAC_t" where
  "mclmac_set_current_cf_slot m slot = on_frame (current_cf_slot_update (\<lambda>_. slot)) m"

definition mclmac_get_current_cf_slot :: "MCLMAC_t \<Rightarrow> u8" where
  "mclmac_get_current_cf_slot m = current_cf_slot (frame (mac m))"

definition mclmac_increase_cf_slot :: "MCLMAC_t \<Rightarrow> MCLMAC_t" where
  "mclmac_increase_cf_slot m = on_frame (current_cf_slot_update (\<lambda>s. s + 1)) m"

definition mclmac_set_slot_duration :: "MCLMAC_t \<Rightarrow> u32 \<Rightarrow> MCLMAC_t result" where
  "mclmac_set_slot_duration m d =
     assert_that (d > 0) (Inr (on_frame (slot_duration_update (\<lambda>_. d)) m))"

definition mclmac_set_frame_duration :: "MCLMAC_t \<Rightarrow> u32 \<Rightarrow> MCLMAC_t result" where
  "mclmac_set_frame_duration m d =
     assert_that (d > 0) (Inr (on_frame (frame_duration_update (\<lambda>_. d)) m))"

definition mclmac_set_cf_duration :: "MCLMAC_t \<Rightarrow> u32 \<Rightarrow> MCLMAC_t result" where
  "mclmac_set_cf_duration m d =
     assert_that (d > 0) (Inr (on_frame (cf_duration_update (\<lambda>_. d)) m))"

text \<open>Both counters are promoted to \<open>int\<close>, so their sum does not wrap.\<close>

definition mclmac_available_data_packets :: "MCLMAC_t \<Rightarrow> u16" where
  "mclmac_available_data_packets m =
     ucast (packets_to_send_message (mac m)) + ucast (packets_to_send_control (mac m))"

text \<open>
  The radio functions of the native build: \<open>mclmac_start_split_phase\<close> only checks its argument,
  \<open>mclmac_start_cf_phase\<close> only resets the counter of the contention-free slots.
\<close>

definition mclmac_change_cf_channel :: "MCLMAC_t \<Rightarrow> MCLMAC_t" where
  "mclmac_change_cf_channel m = m"

definition mclmac_start_cf_phase :: "MCLMAC_t \<Rightarrow> MCLMAC_t" where
  "mclmac_start_cf_phase m = mclmac_set_current_cf_slot (mclmac_change_cf_channel m) 0"

definition mclmac_start_split_phase :: "MCLMAC_t \<Rightarrow> PowerMode_t \<Rightarrow> int \<times> MCLMAC_t" where
  "mclmac_start_split_phase m state =
     (if state \<noteq> TRANSMIT \<and> state \<noteq> RECEIVE then (- 1, m) else (1, m))"

definition mclmac_set_radio_sleep :: "MCLMAC_t \<Rightarrow> MCLMAC_t" where
  "mclmac_set_radio_sleep m = m"

definition mclmac_set_radio_standby :: "MCLMAC_t \<Rightarrow> MCLMAC_t" where
  "mclmac_set_radio_standby m = m"

definition mclmac_set_radio_rx :: "MCLMAC_t \<Rightarrow> MCLMAC_t" where
  "mclmac_set_radio_rx m = m"

lemmas radio_noops [simp] =
  mclmac_change_cf_channel_def mclmac_set_radio_sleep_def mclmac_set_radio_standby_def
  mclmac_set_radio_rx_def

lemmas mac_access =
  on_mac_def on_frame_def mclmac_set_transmit_channel_def mclmac_get_transmit_channel_def
  mclmac_set_reception_channel_def mclmac_get_reception_channel_def mclmac_get_nodeid_def
  mclmac_set_transmiterid_def mclmac_set_selected_slot_def mclmac_get_selected_slot_def
  mclmac_set_current_frame_def mclmac_increase_frame_def mclmac_set_current_slot_def
  mclmac_get_current_slot_def mclmac_increase_slot_def mclmac_set_current_cf_slot_def
  mclmac_get_current_cf_slot_def mclmac_increase_cf_slot_def

section \<open>Well-formedness\<close>

text \<open>
  The fixed sizes of the arrays, and the state machines never hold a value that names no state
  of theirs once they run.
\<close>

definition wf_mac :: "MAC_Internals_t \<Rightarrow> bool" where
  "wf_mac m \<longleftrightarrow>
     length (cf_messages m) = MAX_NUMBER_CF_PACKETS \<and>
     length (message_packets_to_send m) = MAX_NUMBER_DATA_PACKETS \<and>
     length (control_packets_to_send m) = MAX_NUMBER_DATA_PACKETS \<and>
     length (packets_received m) = 2 * MAX_NUMBER_DATA_PACKETS \<and>
     wf_bitmap (occupied_slots (ctrlpkt m)) \<and> wf_bitmap (occupied_slots (ctrlpkt_recv m))"

definition wf_mclmac :: "MCLMAC_t \<Rightarrow> bool" where
  "wf_mclmac m \<longleftrightarrow> wf_mac (mac m) \<and> length (frequencies m) = MAX_NUMBER_FREQS \<and>
     wf_bitmap (occupied_frequencies_slots m) \<and>
     length (selected_slots_neighbors m) = SLOT_BYTES \<and>
     nSlots m = of_nat MAX_NUMBER_SLOTS \<and> nChannels m = of_nat MAX_NUMBER_FREQS"

lemma wf_zero_mac_internals: "wf_mac zero_mac_internals"
  by (simp add: wf_mac_def zero_mac_internals_def controlpacket_init_def)

lemma wf_MAC_internals_init: "wf_mac MAC_internals_init"
  using wf_zero_mac_internals by (simp add: wf_mac_def MAC_internals_init_def controlpacket_init_def)

lemma wf_clear_packets: "wf_mac m \<Longrightarrow> wf_mac (clear_packets m)"
  by (simp add: wf_mac_def clear_packets_def)

lemma wf_MAC_internals_clear: "wf_mac m \<Longrightarrow> wf_mac (MAC_internals_clear m)"
  unfolding MAC_internals_clear_def by (rule wf_clear_packets) (simp add: wf_mac_def)

section \<open>Initialisation and destruction\<close>

text \<open>
  Initialisation. Over a well-formed queue table, \<open>MCLMAC_init\<close> never fails an assertion; it
  leaves a well-formed MAC layer in the states START and STARTP that holds the queue with the
  lowest free identifier, or no queue when all are in use, and a well-formed queue table.
\<close>

theorem mclmac_init_spec:
  assumes "wf_queues sb Q"
  shows "\<exists>m Q'. MCLMAC_init sb Q = Inr (m, Q') \<and> wf_mclmac m \<and> wf_queues sb Q' \<and>
    currentState m = START \<and> nextState m = NONE \<and> powerMode m = STARTP \<and> nextPowerMode m = NONEP \<and>
    (if \<forall>i < MAX_QUEUES. queue_in_use Q i then mac_queue_id m = 0 \<and> Q' = Q
     else \<exists>i < MAX_QUEUES. \<not> queue_in_use Q i \<and> (\<forall>j < i. queue_in_use Q j) \<and>
       mac_queue_id m = of_nat i + 1 \<and> mac_stack m = Some (i * sb) \<and> queue_in_use Q' i)"
proof -
  let ?m = "mclmac_init_powermode_state_machine (mclmac_init_mac_state_machine
    (zero_mclmac\<lparr>mac := MAC_internals_init, own_id := UUID, nChannels := 8, nSlots := 16,
       own_hopCount := 0, own_networkTime := 0, mac_queue_id := 0, routing_queue_id := 0,
       transport_queue_id := 0, app_queue_id := 0\<rparr>))
    \<lparr>occupied_frequencies_slots := zero_bitmap, frequencies := FREQUENCIES\<rparr>"
  have init: "MCLMAC_init sb Q = rbind (create_queue sb Q 16 256 10 None) (\<lambda>(qid, stk, Q').
      Inr (?m\<lparr>mac_stack := stk, mac_queue_id := qid\<rparr>, Q'))"
    by (simp add: MCLMAC_init_def Let_def mclmac_init_powermode_state_machine_def
        mclmac_init_mac_state_machine_def zero_mclmac_def)
  have wf: "wf_mclmac (?m\<lparr>mac_stack := stk, mac_queue_id := qid\<rparr>)" for stk qid
    by (simp add: wf_mclmac_def wf_MAC_internals_init mclmac_init_powermode_state_machine_def
        mclmac_init_mac_state_machine_def zero_mclmac_def FREQUENCIES_def)
  have st: "currentState (?m\<lparr>mac_stack := stk, mac_queue_id := qid\<rparr>) = START \<and>
      nextState (?m\<lparr>mac_stack := stk, mac_queue_id := qid\<rparr>) = NONE \<and>
      powerMode (?m\<lparr>mac_stack := stk, mac_queue_id := qid\<rparr>) = STARTP \<and>
      nextPowerMode (?m\<lparr>mac_stack := stk, mac_queue_id := qid\<rparr>) = NONEP" for stk qid
    by (simp add: mclmac_init_powermode_state_machine_def mclmac_init_mac_state_machine_def)
  show ?thesis
  proof (cases "find_index (\<lambda>t. qt_queue_id t = 0) (queues_ids Q)")
    case None
    then have full: "\<forall>i < MAX_QUEUES. queue_in_use Q i"
      using assms by (simp add: find_index_None wf_queues_def queue_in_use_def)
    moreover from create_queue_full [OF assms _ _ _ this, of 16 256 10]
    have "create_queue sb Q 16 256 10 None = Inr (0, None, Q)" by simp
    ultimately show ?thesis using init wf st assms by auto
  next
    case (Some i)
    then have "\<not> (\<forall>i < MAX_QUEUES. queue_in_use Q i)"
      using assms by (auto simp: find_index_Some wf_queues_def queue_in_use_def)
    with create_queue_free [OF assms, of 16 256 10 None] obtain i Q' where
      "i < MAX_QUEUES" "\<not> queue_in_use Q i" "\<forall>j < i. queue_in_use Q j" "queue_in_use Q' i"
      "create_queue sb Q 16 256 10 None = Inr (of_nat i + 1, Some (i * sb), Q')" "wf_queues sb Q'"
      by auto
    with init wf st \<open>\<not> (\<forall>i < MAX_QUEUES. queue_in_use Q i)\<close> show ?thesis by auto
  qed
qed

lemma mclmac_init_spec_witness:
  "\<exists>m Q'. MCLMAC_init 64 init_queues = Inr (m, Q') \<and> wf_mclmac m"
  using mclmac_init_spec [OF wf_init_queues, of 64] by blast

text \<open>
  Destruction. It empties the state and, when the layer holds a queue, gives exactly that
  queue back: after initialisation and destruction the queue table is well formed and the same
  queues are in use as before.
\<close>

theorem mclmac_life_cycle:
  assumes "wf_queues sb Q"
  shows "\<exists>m Q' Q''. MCLMAC_init sb Q = Inr (m, Q') \<and> MCLMAC_destroy m Q' = Inr (zero_mclmac, Q'') \<and>
    wf_queues sb Q'' \<and> (\<forall>i < MAX_QUEUES. queue_in_use Q'' i = queue_in_use Q i)"
proof (cases "\<forall>i < MAX_QUEUES. queue_in_use Q i")
  case True
  with create_queue_full [OF assms, of 16 256 10] assms show ?thesis
    by (simp add: MCLMAC_init_def MCLMAC_destroy_def Let_def)
next
  case False
  have sizes: "16 \<le> QUEUE_SIZE" "256 \<le> MAX_MESSAGE_SIZE" "unat (10 :: u32) \<le> MAX_ELEMENTS_ON_QUEUE"
    by simp_all
  obtain i Q' where i: "i < MAX_QUEUES" "\<not> queue_in_use Q i" "wf_queues sb Q'"
    "\<forall>j. j \<noteq> i \<longrightarrow> queues_ids Q' ! j = queues_ids Q ! j"
    and create: "create_queue sb Q 16 256 10 None = Inr (of_nat i + 1, Some (i * sb), Q')"
    using create_queue_free [OF assms sizes False, of None] by blast
  have num: "unat (of_nat i + 1 :: u32) = Suc i" by (rule unat_queue_number [OF i(1)])
  then obtain Q'' where close: "close_queue Q' (of_nat i + 1) = Inr Q''" "wf_queues sb Q''"
    "\<not> queue_in_use Q'' i" "\<forall>j. j \<noteq> i \<longrightarrow> queues_ids Q'' ! j = queues_ids Q' ! j"
    using close_queue_valid [OF i(3), of "of_nat i + 1"] i(1) by auto
  have "queue_in_use Q'' j = queue_in_use Q j" for j
    using close(3,4) i(2,4) by (cases "j = i") (simp_all add: queue_in_use_def)
  moreover have "(of_nat i + 1 :: u32) \<noteq> 0" using num by (metis Zero_not_Suc unat_0)
  ultimately show ?thesis using create close(1,2)
    by (simp add: MCLMAC_init_def MCLMAC_destroy_def Let_def zero_mclmac_def
        mclmac_init_powermode_state_machine_def mclmac_init_mac_state_machine_def)
qed


lemma mclmac_life_cycle_witness:
  "\<exists>m Q' Q''. MCLMAC_init 64 init_queues = Inr (m, Q') \<and> MCLMAC_destroy m Q' = Inr (zero_mclmac, Q'')"
  using mclmac_life_cycle [OF wf_init_queues, of 64] by blast

end
