(* ===== verification/Mac_Queues.thy ===== *)
theory Mac_Queues
  imports Mac_State
begin

text \<open>
  The MAC layer's data packets: the messages read from the upper layers
  (\<open>mclmac_read_queue_element\<close>), sent over the radio (\<open>mclmac_send_data_packet\<close>), received from
  it (\<open>mclmac_receive_data_packet\<close>) and written to the routing layer
  (\<open>mclmac_write_queue_element\<close>), in the native RIOT build.

  \<open>'k world\<close> is everything a function of the MAC layer can reach: its own state, the timers, the
  queue tables, the kernel, the counter of microseconds, the values \<open>rand()\<close> is going to return,
  and what the environment is going to do while the layer waits in a loop (see theory \<open>World\<close>).
  Byte strings (\<open>ARRAY\<close>) are lists of bytes; theory \<open>Memory\<close> relates them to the linked blocks.
\<close>

section \<open>The world of the MAC layer\<close>

datatype 'k event =
    Elapse u32
  | Ztimer_interrupt
  | Other_threads "'k \<Rightarrow> 'k"

record 'k world =
  mclmac :: MCLMAC_t
  timeouts :: timeout_t
  ipc_queues :: IPC_Queues_t
  kernel :: 'k
  clock :: u32
  rand_values :: "nat \<Rightarrow> nat"
  script :: "'k event list list"

text \<open>\<open>rand()\<close> returns a non-negative \<open>int\<close>.\<close>

definition c_rand :: "'k world \<Rightarrow> nat \<times> 'k world" where
  "c_rand w = (rand_values w 0, w\<lparr>rand_values := (\<lambda>n. rand_values w (Suc n))\<rparr>)"

definition on_mclmac :: "(MCLMAC_t \<Rightarrow> MCLMAC_t) \<Rightarrow> 'k world \<Rightarrow> 'k world" where
  "on_mclmac f w = w\<lparr>mclmac := f (mclmac w)\<rparr>"

abbreviation internals :: "'k world \<Rightarrow> MAC_Internals_t" where
  "internals w \<equiv> mac (mclmac w)"

section \<open>Messages from the upper layers\<close>

text \<open>
  The body of \<open>mclmac_read_queue_element\<close> after the message has been received: it goes by its
  type to the packets of the transport layers or to those of the routing layer. Writing behind
  the end of an array is a fault.
\<close>

definition store_message_packet :: "u8 list \<Rightarrow> MAC_Internals_t \<Rightarrow> MAC_Internals_t result" where
  "store_message_packet msg m =
     (let last = unat (last_send_message m)
      in if last < length (message_packets_to_send m)
         then rbind (datapacket_construct_from_bytestring RIOT (\<lambda>_. 0) (message_packets_to_send m ! last) msg)
           (\<lambda>pkt. Inr (m\<lparr>message_packets_to_send := (message_packets_to_send m)[last := pkt],
              last_send_message := last_send_message m + 1,
              packets_to_send_message := packets_to_send_message m + 1\<rparr>))
         else Inl Out_of_bounds)"

definition store_control_packet :: "u8 list \<Rightarrow> MAC_Internals_t \<Rightarrow> MAC_Internals_t result" where
  "store_control_packet msg m =
     (let last = unat (last_send_control m)
      in if last < length (control_packets_to_send m)
         then rbind (datapacket_construct_from_bytestring RIOT (\<lambda>_. 0) (control_packets_to_send m ! last) msg)
           (\<lambda>pkt. Inr (m\<lparr>control_packets_to_send := (control_packets_to_send m)[last := pkt],
              last_send_control := last_send_control m + 1,
              packets_to_send_control := packets_to_send_control m + 1\<rparr>))
         else Inl Out_of_bounds)"

text \<open>
  \<open>elements_on_queue\<close> is called twice in a row; nothing happens between the calls. When
  \<open>recv_message\<close> returns 0 the local buffer has no value, and the code goes on to read it.
\<close>

definition mclmac_read_queue_element :: "'k rtos \<Rightarrow> 'k world \<Rightarrow> (nat \<times> 'k world) result" where
  "mclmac_read_queue_element os w =
     (let m = internals w
      in assert_that (unat (packets_to_send_message m) \<le> MAX_NUMBER_DATA_PACKETS)
        (assert_that (unat (packets_to_send_control m) \<le> MAX_NUMBER_DATA_PACKETS)
        (if unat (packets_to_send_message m) + unat (packets_to_send_control m)
              = 2 * MAX_NUMBER_DATA_PACKETS
         then Inr (0, w)
         else
           rbind (elements_on_queue os (kernel w) (mac_queue_id (mclmac w))) (\<lambda>n.
             if n = 0 then Inr (0, w)
             else
               rbind (recv_message os (ipc_queues w) (kernel w) (mac_queue_id (mclmac w))
                        (replicate MAX_MESSAGE_SIZE 0) MAX_MESSAGE_SIZE 0) (\<lambda>(ret, msg, pid, Q, k).
                 if ret = 0 then Inl Uninitialised_read
                 else
                   (let w' = w\<lparr>ipc_queues := Q, kernel := k\<rparr>; ty = unat (msg ! 0)
                    in if ty \<ge> 7 \<and> ty < 10
                       then rbind (store_message_packet msg m) (\<lambda>m'.
                              Inr (1, on_mclmac (on_mac (\<lambda>_. m')) w'))
                       else if ty \<ge> 2 \<and> ty < 7
                       then rbind (store_control_packet msg m) (\<lambda>m'.
                              Inr (1, on_mclmac (on_mac (\<lambda>_. m')) w'))
                       else Inr (0, w')))))))"

section \<open>Messages to the routing layer\<close>

definition remove_received :: "MAC_Internals_t \<Rightarrow> MAC_Internals_t" where
  "remove_received m =
     (let first = unat (first_received m)
      in m\<lparr>packets_received := (packets_received m)
              [first := datapacket_clear (packets_received m ! first)],
           first_received := of_nat ((first + 1) mod MAX_NUMBER_DATA_PACKETS),
           number_packets_received := number_packets_received m - 1\<rparr>)"

definition mclmac_write_queue_element :: "'k rtos \<Rightarrow> 'k world \<Rightarrow> (nat \<times> 'k world) result" where
  "mclmac_write_queue_element os w =
     (let m = internals w; first = unat (first_received m); qid = routing_queue_id (mclmac w)
      in if number_packets_received m = 0 then Inr (0, w)
         else if first_received m = last_received m \<and> number_packets_received m = 0 then Inr (0, w)
         else
           rbind (elements_on_queue os (kernel w) qid) (\<lambda>n.
             if n = MAX_ELEMENTS_ON_QUEUE then Inr (0, w)
             else if qid = 0 then Inr (0, w)
             else if first < length (packets_received m)
             then
               rbind (datapacket_get_packet_bytestring RIOT (\<lambda>_. 0) (packets_received m ! first)) (\<lambda>bs.
               rbind (send_message os (ipc_queues w) (kernel w) qid bs PACKET_SIZE_MAC
                        (self_pid (mclmac w))) (\<lambda>(ret, Q, k).
                 (let w' = w\<lparr>ipc_queues := Q, kernel := k\<rparr>
                  in if ret = 0 then Inr (0, w')
                     else Inr (1, on_mclmac (on_mac remove_received) w'))))
             else Inl Out_of_bounds))"

section \<open>Packets over the radio\<close>

text \<open>
  Sending takes one packet, control packets first. In the native build the byte string is made
  and released without being transmitted.
\<close>

definition mclmac_send_data_packet :: "'k world \<Rightarrow> 'k world result" where
  "mclmac_send_data_packet w =
     (let m = internals w
      in if packets_to_send_message m = 0 \<and> packets_to_send_control m = 0 then Inr w
         else if unat (first_send_message m) > MAX_NUMBER_DATA_PACKETS then Inr w
         else if unat (first_send_control m) > MAX_NUMBER_DATA_PACKETS then Inr w
         else if packets_to_send_control m > 0
         then
           (let first = unat (first_send_control m)
            in if first < length (control_packets_to_send m)
               then
                 rbind (datapacket_get_packet_bytestring RIOT (\<lambda>_. 0) (control_packets_to_send m ! first)) (\<lambda>bs.
                   Inr (on_mclmac (on_mac (\<lambda>m. m
                     \<lparr>control_packets_to_send := (control_packets_to_send m)
                         [first := datapacket_clear (control_packets_to_send m ! first)],
                      first_send_control := of_nat ((first + 1) mod MAX_NUMBER_DATA_PACKETS),
                      packets_to_send_control := packets_to_send_control m - 1\<rparr>)) w))
               else Inl Out_of_bounds)
         else if packets_to_send_message m > 0
         then
           (let first = unat (first_send_message m)
            in if first < length (message_packets_to_send m)
               then
                 rbind (datapacket_get_packet_bytestring RIOT (\<lambda>_. 0) (message_packets_to_send m ! first)) (\<lambda>bs.
                   Inr (on_mclmac (on_mac (\<lambda>m. m
                     \<lparr>message_packets_to_send := (message_packets_to_send m)
                         [first := datapacket_clear (message_packets_to_send m ! first)],
                      first_send_message := of_nat ((first + 1) mod MAX_NUMBER_DATA_PACKETS),
                      packets_to_send_message := packets_to_send_message m - 1\<rparr>)) w))
               else Inl Out_of_bounds)
         else Inr w)"

text \<open>\<open>n\<close> values of \<open>rand()\<close>, each cut to a byte.\<close>

fun rand_bytes :: "nat \<Rightarrow> 'k world \<Rightarrow> u8 list \<times> 'k world" where
  "rand_bytes 0 w = ([], w)"
| "rand_bytes (Suc n) w =
     (case c_rand w of (r, w') \<Rightarrow> case rand_bytes n w' of (bs, w'') \<Rightarrow> (of_nat r # bs, w''))"

text \<open>The native stub of the radio: a packet of type 2 to this node with random contents.\<close>

definition receive_data_header :: "MCLMAC_t \<Rightarrow> (nat \<times> u8) list" where
  "receive_data_header m =
     [(0, 2),
      (1, masked_byte (fst (own_id m)) 0xff00000000000000 56),
      (2, masked_byte (fst (own_id m)) 0x00ff000000000000 48),
      (3, masked_byte (fst (own_id m)) 0x0000ff0000000000 40),
      (4, masked_byte (fst (own_id m)) 0x000000ff00000000 32),
      (5, masked_byte (fst (own_id m)) 0x00000000ff000000 24),
      (6, masked_byte (fst (own_id m)) 0x0000000000ff0000 16),
      (7, masked_byte (fst (own_id m)) 0x000000000000ff00 8),
      (8, masked_byte (fst (own_id m)) 0x00000000000000ff 0),
      (9, masked_byte (snd (own_id m)) 0xff00000000000000 56),
      (10, masked_byte (snd (own_id m)) 0x00ff000000000000 48),
      (11, masked_byte (snd (own_id m)) 0x0000ff0000000000 40),
      (12, masked_byte (snd (own_id m)) 0x000000ff00000000 32),
      (13, masked_byte (snd (own_id m)) 0x00000000ff000000 24),
      (14, masked_byte (snd (own_id m)) 0x0000000000ff0000 16),
      (15, masked_byte (snd (own_id m)) 0x000000000000ff00 8),
      (16, masked_byte (snd (own_id m)) 0x00000000000000ff 0),
      (17, of_nat (PACKET_SIZE_MAC - 18))]"

definition receive_data_packet_native :: "'k world \<Rightarrow> u8 list \<Rightarrow> (u8 list \<times> 'k world) result" where
  "receive_data_packet_native w bs =
     rbind (write_all (WRITE_ARRAY RIOT) bs (receive_data_header (mclmac w))) (\<lambda>bs'.
       (case rand_bytes (PACKET_SIZE_MAC - 18) w of (rs, w') \<Rightarrow>
         rbind (write_all (WRITE_ARRAY RIOT) bs' (zip [18..<PACKET_SIZE_MAC] rs)) (\<lambda>bs''.
           Inr (bs'', w'))))"

text \<open>The end of \<open>mclmac_receive_data_packet\<close>: the byte string becomes the last received packet.\<close>

definition store_received :: "u8 list \<Rightarrow> MAC_Internals_t \<Rightarrow> MAC_Internals_t result" where
  "store_received bs m =
     (let pos = unat (last_received m)
      in if pos < length (packets_received m)
         then rbind (datapacket_construct_from_bytestring RIOT (\<lambda>_. 0) (packets_received m ! pos) bs)
           (\<lambda>pkt. Inr (m\<lparr>packets_received := (packets_received m)[pos := pkt],
              last_received := of_nat ((pos + 1) mod (2 * MAX_NUMBER_DATA_PACKETS)),
              number_packets_received := number_packets_received m + 1\<rparr>))
         else Inl Out_of_bounds)"

definition mclmac_receive_data_packet :: "'k world \<Rightarrow> (bool \<times> 'k world) result" where
  "mclmac_receive_data_packet w =
     rbind (receive_data_packet_native w (new_array RIOT (\<lambda>_. 0) PACKET_SIZE_MAC)) (\<lambda>(bs, w').
     rbind (store_received bs (internals w')) (\<lambda>m'.
       Inr (True, on_mclmac (on_mac (\<lambda>_. m')) w')))"

section \<open>The packet queues are first-in first-out\<close>

text \<open>A packet fits the radio packet.\<close>

definition sendable :: "DataPacket_t \<Rightarrow> bool" where
  "sendable pkt \<longleftrightarrow> wf_datapacket pkt \<and> unat (psize pkt) \<le> PACKET_SIZE_MAC - 18"

definition data_bytes :: "DataPacket_t \<Rightarrow> u8 list" where
  "data_bytes pkt = data_header pkt @ data pkt @ replicate (PACKET_SIZE_MAC - 18 - unat (psize pkt)) 0"

lemma data_bytes_encode:
  "sendable pkt \<Longrightarrow> datapacket_get_packet_bytestring p junk pkt = Inr (data_bytes pkt)"
  by (simp add: sendable_def data_bytes_def data_encode)

lemma data_bytes_decode:
  "sendable pkt \<Longrightarrow> datapacket_construct_from_bytestring p junk pkt0 (data_bytes pkt) = Inr pkt"
  by (simp add: sendable_def data_bytes_def data_decode)

lemma length_data_bytes: "sendable pkt \<Longrightarrow> length (data_bytes pkt) = 256"
  by (simp add: sendable_def data_bytes_def wf_datapacket_def)

lemma data_bytes_type: "data_bytes pkt ! 0 = ptype pkt"
  by (simp add: data_bytes_def data_header_def data_field_writes_def)

text \<open>The packets received from the radio and not yet written to the routing layer.\<close>

definition received_inv :: "MAC_Internals_t \<Rightarrow> bool" where
  "received_inv m \<longleftrightarrow> length (packets_received m) = 2 * MAX_NUMBER_DATA_PACKETS \<and>
     ring_ok MAX_NUMBER_DATA_PACKETS (unat (first_received m)) (unat (last_received m))
       (unat (number_packets_received m)) (packets_received m)"

definition received_items :: "MAC_Internals_t \<Rightarrow> DataPacket_t list" where
  "received_items m =
     ring_items (unat (last_received m)) (unat (number_packets_received m)) (packets_received m)"

definition received_room :: "MAC_Internals_t \<Rightarrow> nat" where
  "received_room m = MAX_NUMBER_DATA_PACKETS - unat (last_received m)"

definition take_received :: "MAC_Internals_t \<Rightarrow> (DataPacket_t \<times> MAC_Internals_t) result" where
  "take_received m =
     (if number_packets_received m = 0 then Inl Blocked
      else Inr (packets_received m ! unat (first_received m), remove_received m))"

lemma store_received_packet:
  assumes "received_inv m" and "sendable pkt" and "unat (last_received m) < 10"
  shows "store_received (data_bytes pkt) m =
    Inr (m\<lparr>packets_received := (packets_received m)[unat (last_received m) := pkt],
           last_received := of_nat (Suc (unat (last_received m))),
           number_packets_received := number_packets_received m + 1\<rparr>)"
  using assms by (simp add: store_received_def received_inv_def data_bytes_decode Let_def)

lemma unat_mod_10: "unat (of_nat (n mod 10) :: u8) = n mod 10"
proof (rule unat_of_nat_small)
  have "n mod 10 < 10" by simp
  then show "n mod 10 < 2 ^ LENGTH(8)" by simp
qed

interpretation received: fifo "\<lambda>pkt. store_received (data_bytes pkt)" take_received received_items
  received_room MAX_NUMBER_DATA_PACKETS sendable received_inv
proof unfold_locales
  fix m x
  assume inv: "received_inv m" and x: "sendable x" and room: "0 < received_room m"
  have lt: "unat (last_received m) < 10" using room by (simp add: received_room_def)
  note ring = inv [unfolded received_inv_def, THEN conjunct2]
  have "unat (number_packets_received m) \<le> 10" using ring by (simp add: ring_ok_def)
  then have cnt: "unat (number_packets_received m + 1) = Suc (unat (number_packets_received m))"
    by (intro unat_inc) simp
  have lst: "unat (of_nat (Suc (unat (last_received m))) :: u8) = Suc (unat (last_received m))"
    using lt by (intro unat_of_nat_small) simp
  note put = ring_put [OF ring, of x]
  show "\<exists>m'. store_received (data_bytes x) m = Inr m' \<and> received_inv m' \<and>
      received_items m' = received_items m @ [x] \<and> received_room m = Suc (received_room m')"
    using store_received_packet [OF inv x lt] put lt inv
    by (simp add: received_inv_def received_items_def received_room_def cnt lst del: of_nat_Suc)
next
  fix m x xs
  assume inv: "received_inv m" and items: "received_items m = x # xs"
  note ring = inv [unfolded received_inv_def, THEN conjunct2]
  have pos: "0 < unat (number_packets_received m)"
    using items ring by (cases "unat (number_packets_received m)") (auto simp: received_items_def ring_items_def)
  then have nz: "number_packets_received m \<noteq> 0" by auto
  note get = ring_get [OF ring pos] and first = ring_first [OF ring pos]
  have cnt: "unat (number_packets_received m - 1) = unat (number_packets_received m) - 1"
    by (rule unat_minus_one [OF nz])
  show "\<exists>m'. take_received m = Inr (x, m') \<and> received_inv m' \<and> received_items m' = xs \<and>
      received_room m' = received_room m"
    using items get first inv nz
    by (simp add: take_received_def remove_received_def received_inv_def received_items_def
        received_room_def cnt unat_mod_10 Let_def)
qed

text \<open>The packets of the upper layers waiting to be sent, those of the routing layer first.\<close>

definition control_inv :: "'k world \<Rightarrow> bool" where
  "control_inv w \<longleftrightarrow> (let m = internals w in
     length (control_packets_to_send m) = MAX_NUMBER_DATA_PACKETS \<and>
     unat (first_send_message m) \<le> MAX_NUMBER_DATA_PACKETS \<and>
     ring_ok MAX_NUMBER_DATA_PACKETS (unat (first_send_control m)) (unat (last_send_control m))
       (unat (packets_to_send_control m)) (control_packets_to_send m) \<and>
     (\<forall>pkt \<in> set (ring_items (unat (last_send_control m)) (unat (packets_to_send_control m))
        (control_packets_to_send m)). sendable pkt))"

definition control_items :: "'k world \<Rightarrow> DataPacket_t list" where
  "control_items w = (let m = internals w in
     ring_items (unat (last_send_control m)) (unat (packets_to_send_control m)) (control_packets_to_send m))"

definition control_room :: "'k world \<Rightarrow> nat" where
  "control_room w = MAX_NUMBER_DATA_PACKETS - unat (last_send_control (internals w))"

definition put_control :: "DataPacket_t \<Rightarrow> 'k world \<Rightarrow> 'k world result" where
  "put_control pkt w = rbind (store_control_packet (data_bytes pkt) (internals w)) (\<lambda>m.
     Inr (on_mclmac (on_mac (\<lambda>_. m)) w))"

text \<open>The packet that the next \<open>mclmac_send_data_packet\<close> takes.\<close>

definition send_next :: "'k world \<Rightarrow> (DataPacket_t \<times> 'k world) result" where
  "send_next w = rbind (mclmac_send_data_packet w) (\<lambda>w'.
     Inr (if packets_to_send_control (internals w) > 0
          then control_packets_to_send (internals w) ! unat (first_send_control (internals w))
          else message_packets_to_send (internals w) ! unat (first_send_message (internals w)), w'))"

lemma store_control_sendable:
  assumes "sendable pkt" and "unat (last_send_control m) < length (control_packets_to_send m)"
  shows "store_control_packet (data_bytes pkt) m =
    Inr (m\<lparr>control_packets_to_send := (control_packets_to_send m)[unat (last_send_control m) := pkt],
           last_send_control := last_send_control m + 1,
           packets_to_send_control := packets_to_send_control m + 1\<rparr>)"
  using assms by (simp add: store_control_packet_def data_bytes_decode Let_def)

interpretation control_queue: exhaustible put_control send_next control_items control_room
  MAX_NUMBER_DATA_PACKETS sendable control_inv
proof unfold_locales
  fix w :: "'a world" and x
  let ?m = "internals w"
  assume inv: "control_inv w" and x: "sendable x" and room: "0 < control_room w"
  have lt: "unat (last_send_control ?m) < 10" using room by (simp add: control_room_def)
  have ring: "ring_ok 10 (unat (first_send_control ?m)) (unat (last_send_control ?m))
      (unat (packets_to_send_control ?m)) (control_packets_to_send ?m)"
    and len: "length (control_packets_to_send ?m) = 10"
    using inv by (simp_all add: control_inv_def Let_def)
  have cnt: "unat (packets_to_send_control ?m + 1) = Suc (unat (packets_to_send_control ?m))"
    and lst: "unat (last_send_control ?m + 1) = Suc (unat (last_send_control ?m))"
    using ring lt by (auto simp: ring_ok_def intro!: unat_inc)
  note put = ring_put [OF ring lt, of x]
  show "\<exists>w'. put_control x w = Inr w' \<and> control_inv w' \<and>
      control_items w' = control_items w @ [x] \<and> control_room w = Suc (control_room w')"
    using store_control_sendable [OF x, of ?m] put lt len inv x
    by (simp add: put_control_def control_inv_def control_items_def control_room_def
        on_mclmac_def on_mac_def cnt lst Let_def)
next
  fix w :: "'a world" and x xs
  let ?m = "internals w"
  assume inv: "control_inv w" and items: "control_items w = x # xs"
  have ring: "ring_ok 10 (unat (first_send_control ?m)) (unat (last_send_control ?m))
      (unat (packets_to_send_control ?m)) (control_packets_to_send ?m)"
    and len: "length (control_packets_to_send ?m) = 10"
    and fsm: "unat (first_send_message ?m) \<le> 10"
    and ok: "\<forall>pkt \<in> set (x # xs). sendable pkt"
    using inv items by (simp_all add: control_inv_def control_items_def Let_def)
  have pos: "0 < unat (packets_to_send_control ?m)"
    using items ring by (cases "unat (packets_to_send_control ?m)")
      (auto simp: control_items_def ring_items_def Let_def)
  then have nz: "packets_to_send_control ?m \<noteq> 0" "0 < packets_to_send_control ?m"
    by (auto simp: word_gt_0)
  note get = ring_get [OF ring pos] and first = ring_first [OF ring pos]
  have hd: "control_packets_to_send ?m ! unat (first_send_control ?m) = x"
    and tl: "ring_items (unat (last_send_control ?m)) (unat (packets_to_send_control ?m) - 1)
      (control_packets_to_send ?m) = xs"
    using items first(3) by (simp_all add: control_items_def Let_def)
  have send: "mclmac_send_data_packet w = Inr (on_mclmac (on_mac (\<lambda>m. m
      \<lparr>control_packets_to_send := (control_packets_to_send m)
         [unat (first_send_control ?m) := datapacket_clear x],
       first_send_control := of_nat ((unat (first_send_control ?m) + 1) mod 10),
       packets_to_send_control := packets_to_send_control m - 1\<rparr>)) w)"
    using nz fsm first(2) len ok
    by (simp add: mclmac_send_data_packet_def data_bytes_encode hd on_mclmac_def on_mac_def Let_def
        linorder_not_less)
  have cnt: "unat (packets_to_send_control ?m - 1) = unat (packets_to_send_control ?m) - 1"
    by (rule unat_minus_one [OF nz(1)])
  show "\<exists>w'. send_next w = Inr (x, w') \<and> control_inv w' \<and> control_items w' = xs \<and>
      control_room w' = control_room w"
    using get tl len fsm ok nz hd
    by (simp add: send_next_def send control_inv_def control_items_def control_room_def
        on_mclmac_def on_mac_def cnt unat_mod_10 Let_def)
next
  fix w :: "'a world" and x
  assume "control_inv w" and "control_room w = 0"
  then show "put_control x w = Inl Out_of_bounds"
    by (simp add: put_control_def store_control_packet_def control_inv_def control_room_def Let_def)
qed

section \<open>Between the layers\<close>

text \<open>
  The MAC thread as one end of a link: it runs, and the identifier of its queue is the link's.
\<close>

definition reads_from ::
    "'k rtos \<Rightarrow> ('k \<Rightarrow> pid \<Rightarrow> msg_t list) \<Rightarrow> link \<Rightarrow> 'k world \<Rightarrow> bool" where
  "reads_from os inbox l w \<longleftrightarrow> link_inv os inbox l (ipc_queues w, kernel w) \<and>
     thread_getpid os (kernel w) = receiver l \<and> mac_queue_id (mclmac w) = receiver_queue l"

definition waiting :: "('k \<Rightarrow> pid \<Rightarrow> msg_t list) \<Rightarrow> link \<Rightarrow> 'k world \<Rightarrow> u8 list list" where
  "waiting inbox l w = link_items inbox l (ipc_queues w, kernel w)"

lemma elements_waiting:
  assumes "link_inv os inbox l (Q, k)" and "thread_getpid os k = receiver l"
    and "usable_queue Q qid"
  shows "elements_on_queue os k qid = Inr (length (link_items inbox l (Q, k)))"
proof -
  have "messages_in_order os inbox" using assms(1) by (simp add: link_inv_def)
  from messages_in_orderD(5) [OF this] assms(2) have "msg_avail os k = length (inbox k (receiver l))"
    by simp
  moreover have "qid > 0" "unat qid \<le> MAX_QUEUES"
    using usable_queueD(1) [OF assms(3)] by (auto simp: word_gt_0 unat_eq_0)
  ultimately show ?thesis by (simp add: elements_on_queue_def link_items_def)
qed

lemma recv_waiting:
  assumes "reads_from os inbox l w" and "waiting inbox l w = msg # msgs"
  shows "\<exists>Q k. recv_message os (ipc_queues w) (kernel w) (mac_queue_id (mclmac w))
      (replicate 256 0) 256 0 = Inr (1, msg, sender l, Q, k) \<and>
    link_inv os inbox l (Q, k) \<and> link_items inbox l (Q, k) = msgs \<and>
    thread_getpid os k = receiver l"
proof -
  let ?Q = "ipc_queues w" and ?k = "kernel w"
  have inv: "link_inv os inbox l (?Q, ?k)" and self: "thread_getpid os ?k = receiver l"
    and qid: "mac_queue_id (mclmac w) = receiver_queue l"
    using assms(1) by (simp_all add: reads_from_def)
  have items: "link_items inbox l (?Q, ?k) = msg # msgs" using assms(2) by (simp add: waiting_def)
  have st: "0 < stored_elements ?Q"
    using items inv by (cases "stored_elements ?Q") (auto simp: link_items_def link_inv_def)
  from recv_message_ok [OF inv st self] obtain k where
    recv: "recv_message os ?Q ?k (receiver_queue l) (replicate 256 0) 256 0 =
      Inr (1, msg_storage ?Q ! (end_storage ?Q - stored_elements ?Q), sender l,
        ?Q\<lparr>msg_storage := (msg_storage ?Q)[end_storage ?Q - stored_elements ?Q := replicate 256 0],
           start_storage := (end_storage ?Q - stored_elements ?Q + 1) mod 100,
           stored_elements := stored_elements ?Q - 1\<rparr>, k)" (is "_ = Inr (_, ?msg, _, ?Q', _)")
    and k: "inbox k = (inbox ?k)(receiver l := tl (inbox ?k (receiver l)))"
    "thread_getpid os k = thread_getpid os ?k" by blast
  from link_recv_ok [OF inv st] obtain k2 where
    recv2: "link_recv os l (?Q, ?k) = Inr (?msg, ?Q', k2)"
    and k2: "inbox k2 = (inbox ?k)(receiver l := tl (inbox ?k (receiver l)))" by blast
  from ipc.get_ok [OF inv items] recv2 have
    "?msg = msg" "link_inv os inbox l (?Q', k2)" "link_items inbox l (?Q', k2) = msgs" by auto
  then have "?msg = msg" "link_inv os inbox l (?Q', k)" "link_items inbox l (?Q', k) = msgs"
    using k(1) k2 by (simp_all add: link_inv_def link_items_def)
  with recv k(2) self qid show ?thesis by auto
qed

lemma read_queue_control:
  assumes "reads_from os inbox l w" and "waiting inbox l w = data_bytes pkt # msgs"
    and "sendable pkt" and "2 \<le> unat (ptype pkt)" and "unat (ptype pkt) < 7"
    and "control_inv w" and "0 < control_room w" and "length (control_items w) < 10"
    and "unat (packets_to_send_message (internals w)) \<le> 10"
  shows "\<exists>w'. mclmac_read_queue_element os w = Inr (1, w') \<and> control_inv w' \<and>
    control_items w' = control_items w @ [pkt] \<and>
    reads_from os inbox l w' \<and> waiting inbox l w' = msgs"
proof -
  obtain Q k where recv: "recv_message os (ipc_queues w) (kernel w) (mac_queue_id (mclmac w))
      (replicate 256 0) 256 0 = Inr (1, data_bytes pkt, sender l, Q, k)"
    and link: "link_inv os inbox l (Q, k)" "link_items inbox l (Q, k) = msgs"
      "thread_getpid os k = receiver l"
    using recv_waiting [OF assms(1,2)] by blast
  obtain w1 where put: "put_control pkt w = Inr w1" "control_inv w1"
    "control_items w1 = control_items w @ [pkt]"
    using control_queue.put_ok [OF assms(6,3,7)] assms(8) by auto
  then obtain m1 where m1: "store_control_packet (data_bytes pkt) (internals w) = Inr m1"
    "w1 = on_mclmac (on_mac (\<lambda>_. m1)) w"
    by (auto simp: put_control_def rbind_eq_Inr)
  let ?w = "on_mclmac (on_mac (\<lambda>_. m1)) (w\<lparr>ipc_queues := Q, kernel := k\<rparr>)"
  have mq: "usable_queue (ipc_queues w) (mac_queue_id (mclmac w))"
    using assms(1) by (simp add: reads_from_def link_inv_def)
  have n: "elements_on_queue os (kernel w) (mac_queue_id (mclmac w)) = Inr (Suc (length msgs))"
    using elements_waiting [of os inbox l, OF _ _ mq] assms(1,2)
    by (simp add: reads_from_def waiting_def)
  have cnt: "unat (packets_to_send_control (internals w)) < 10"
    using assms(6,8) by (simp add: control_inv_def control_items_def ring_ok_def Let_def)
  have "mclmac_read_queue_element os w = Inr (1, ?w)"
    using cnt assms(4,5,9) n recv m1(1)
    by (simp add: mclmac_read_queue_element_def data_bytes_type Let_def)
  moreover have "control_inv ?w" "control_items ?w = control_items w @ [pkt]"
    using put(2,3) m1(2)
    by (simp_all add: control_inv_def control_items_def on_mclmac_def on_mac_def)
  moreover have "reads_from os inbox l ?w" "waiting inbox l ?w = msgs"
    using link assms(1)
    by (simp_all add: reads_from_def waiting_def on_mclmac_def on_mac_def)
  ultimately show ?thesis by blast
qed

text \<open>
  \<open>mclmac_write_queue_element\<close> passes the process id of the MAC thread itself as the destination,
  so the link it writes to leads from the MAC thread to the MAC thread.
\<close>

definition writes_to_itself :: "link \<Rightarrow> 'k world \<Rightarrow> bool" where
  "writes_to_itself l w \<longleftrightarrow> sender l = receiver l \<and> self_pid (mclmac w) = receiver l \<and>
     routing_queue_id (mclmac w) = sender_queue l"

lemma write_queue_self:
  assumes "reads_from os inbox l w" and "writes_to_itself l w" and "length (waiting inbox l w) < 10"
    and "0 < link_room (ipc_queues w, kernel w)"
    and "received_inv (internals w)" and "received_items (internals w) = pkt # pkts" and "sendable pkt"
  shows "\<exists>Q k. mclmac_write_queue_element os w =
      Inr (1, on_mclmac (on_mac remove_received) (w\<lparr>ipc_queues := Q, kernel := k\<rparr>)) \<and>
    link_inv os inbox l (Q, k) \<and> thread_getpid os k = receiver l \<and>
    link_items inbox l (Q, k) = waiting inbox l w @ [data_bytes pkt]"
proof -
  let ?Q = "ipc_queues w" and ?k = "kernel w" and ?m = "internals w"
  have inv: "link_inv os inbox l (?Q, ?k)" and self: "thread_getpid os ?k = receiver l"
    using assms(1) by (simp_all add: reads_from_def)
  have sq: "usable_queue ?Q (sender_queue l)" using inv by (simp add: link_inv_def)
  have few: "length (link_items inbox l (?Q, ?k)) < 10" using assms(3) by (simp add: waiting_def)
  have lt: "end_storage ?Q < 100" "stored_elements ?Q < 16"
    using assms(4) few inv by (simp_all add: link_room_def link_items_def link_inv_def)
  have len: "length (data_bytes pkt) = 256" by (rule length_data_bytes [OF assms(7)])
  have "thread_getpid os ?k = sender l" using self assms(2) by (simp add: writes_to_itself_def)
  from send_message_ok [OF inv len lt this] obtain k where
    send: "send_message os ?Q ?k (sender_queue l) (data_bytes pkt) 256 (receiver l) =
      Inr (1, ?Q\<lparr>msg_storage := (msg_storage ?Q)[end_storage ?Q := data_bytes pkt],
         end_storage := end_storage ?Q + 1, stored_elements := stored_elements ?Q + 1\<rparr>, k)"
      (is "_ = Inr (_, ?Q', _)")
    and k: "inbox k = (inbox ?k)(receiver l := inbox ?k (receiver l) @
      [\<lparr>sender_pid = sender l, msg_type = 256, content = end_storage ?Q\<rparr>])"
    "thread_getpid os k = thread_getpid os ?k" by blast
  from link_send_ok [OF inv len lt] obtain k2 where
    send2: "link_send os l (data_bytes pkt) (?Q, ?k) = Inr (?Q', k2)"
    and k2: "inbox k2 = (inbox ?k)(receiver l := inbox ?k (receiver l) @
      [\<lparr>sender_pid = sender l, msg_type = 256, content = end_storage ?Q\<rparr>])" by blast
  from ipc.put_ok [OF inv _ assms(4), of "data_bytes pkt"] send2 len few have
    "link_inv os inbox l (?Q', k2)" "link_items inbox l (?Q', k2) = link_items inbox l (?Q, ?k) @ [data_bytes pkt]"
    by auto
  then have link: "link_inv os inbox l (?Q', k)"
    "link_items inbox l (?Q', k) = waiting inbox l w @ [data_bytes pkt]"
    using k(1) k2 by (simp_all add: link_inv_def link_items_def waiting_def)
  obtain m' where take: "take_received ?m = Inr (pkt, m')"
    using received.get_ok [OF assms(5,6)] by blast
  then have nz: "number_packets_received ?m \<noteq> 0"
    and hd: "packets_received ?m ! unat (first_received ?m) = pkt"
    by (auto simp: take_received_def split: if_splits)
  have first: "unat (first_received ?m) < length (packets_received ?m)"
    using assms(5) by (auto simp: received_inv_def ring_ok_def)
  have n: "elements_on_queue os ?k (sender_queue l) = Inr (length (link_items inbox l (?Q, ?k)))"
    by (rule elements_waiting [OF inv self sq])
  have qid: "sender_queue l \<noteq> 0" using usable_queueD(1) [OF sq] by auto
  have "mclmac_write_queue_element os w =
      Inr (1, on_mclmac (on_mac remove_received) (w\<lparr>ipc_queues := ?Q', kernel := k\<rparr>))"
    using assms(2) nz first n few qid send
    by (simp add: mclmac_write_queue_element_def writes_to_itself_def hd Let_def
        data_bytes_encode [OF assms(7)])
  with link k(2) self show ?thesis by auto
qed

section \<open>Properties\<close>

text \<open>A world to evaluate the properties on: the MAC thread 1 with queue 1, the routing queue 2.\<close>

definition sample_packet :: DataPacket_t where
  "sample_packet = \<lparr>ptype = 3, psize = 2, destination_id = (5, 6), data = [1, 2]\<rparr>"

definition sample_world :: "(pid \<times> (pid \<Rightarrow> msg_t list)) world" where
  "sample_world =
     \<lparr>mclmac = zero_mclmac\<lparr>mac := MAC_internals_init, own_id := UUID, nSlots := 16, nChannels := 8,
        frequencies := FREQUENCIES, mac_queue_id := 1, routing_queue_id := 2, self_pid := 1\<rparr>,
      timeouts = static_timeouts, ipc_queues = two_queues, kernel = (1, \<lambda>_. []), clock = 0,
      rand_values = (\<lambda>n. n), script = []\<rparr>"

definition link_1_1 :: link where
  "link_1_1 = \<lparr>sender = 1, sender_queue = 2, receiver = 1, receiver_queue = 1\<rparr>"

lemma link_1_1_inv: "link_inv inbox_rtos snd link_1_1 (two_queues, (1, \<lambda>_. []))"
  by (simp add: link_inv_def inbox_rtos_in_order usable_queue_def link_1_1_def two_queues_def
      init_queues_def no_queue_def no_thread_def zero_storage_def replicate_10)

lemma sample_sendable: "sendable sample_packet"
  by (simp add: sendable_def sample_packet_def wf_datapacket_def)

lemma sample_world_reads: "reads_from inbox_rtos snd link_1_1 sample_world"
  using link_1_1_inv
  by (simp add: reads_from_def sample_world_def) (simp add: inbox_rtos_def link_1_1_def)

lemma sample_world_start:
  "waiting snd link_1_1 sample_world = []" "link_room (ipc_queues sample_world, k) = 100"
  "control_inv sample_world" "control_items sample_world = []" "control_room sample_world = 10"
  "received_inv (internals sample_world)" "received_items (internals sample_world) = []"
  "unat (packets_to_send_message (internals sample_world)) = 0"
  by (simp_all add: waiting_def link_items_def link_room_def sample_world_def two_queues_def
      init_queues_def control_inv_def control_items_def control_room_def received_inv_def
      received_items_def ring_ok_def ring_items_def MAC_internals_init_def zero_mac_internals_def)

text \<open>The same world with one message, or with one received packet.\<close>

lemma two_queues_empty:
  "start_storage two_queues = 0" "end_storage two_queues = 0" "stored_elements two_queues = 0"
  by (simp_all add: two_queues_def init_queues_def)

definition with_message :: "(pid \<times> (pid \<Rightarrow> msg_t list)) world" where
  "with_message = sample_world
     \<lparr>ipc_queues := two_queues\<lparr>msg_storage := zero_storage[0 := data_bytes sample_packet],
        end_storage := 1, stored_elements := 1\<rparr>,
      kernel := (1, \<lambda>p. if p = 1 then [\<lparr>sender_pid = 1, msg_type = 256, content = 0\<rparr>] else [])\<rparr>"

lemma with_message_reads:
  "reads_from inbox_rtos snd link_1_1 with_message"
  "waiting snd link_1_1 with_message = [data_bytes sample_packet]"
proof -
  have "\<forall>s \<in> set (zero_storage[0 := data_bytes sample_packet]). length s = 256"
    using link_storage_update [OF length_data_bytes [OF sample_sendable], of zero_storage 0]
    by (simp add: zero_storage_def)
  then show "reads_from inbox_rtos snd link_1_1 with_message"
    using link_1_1_inv
    by (simp add: reads_from_def link_inv_def with_message_def sample_world_def)
      (simp add: link_1_1_def inbox_rtos_def zero_storage_def two_queues_empty)
  show "waiting snd link_1_1 with_message = [data_bytes sample_packet]"
    by (simp add: waiting_def link_items_def with_message_def sample_world_def link_1_1_def
        zero_storage_def)
qed

definition with_received :: "(pid \<times> (pid \<Rightarrow> msg_t list)) world" where
  "with_received = on_mclmac (on_mac (\<lambda>m. m\<lparr>packets_received := (packets_received m)[0 := sample_packet],
     last_received := 1, number_packets_received := 1\<rparr>)) sample_world"

text \<open>
  A message of the routing layer becomes the last packet to send. When the MAC thread reads
  its queue and the oldest message holds a packet of type 2 to 6, the packet is decoded and put
  behind the packets already waiting, exactly as it was encoded, and the message is gone from the
  queue.
\<close>

theorem read_queue_element_spec:
  assumes "reads_from os inbox l w" and "waiting inbox l w = data_bytes pkt # msgs"
    and "sendable pkt" and "2 \<le> unat (ptype pkt)" and "unat (ptype pkt) < 7"
    and "control_inv w" and "0 < control_room w" and "length (control_items w) < 10"
    and "unat (packets_to_send_message (internals w)) \<le> 10"
  shows "\<exists>w'. mclmac_read_queue_element os w = Inr (1, w') \<and> control_inv w' \<and>
    control_items w' = control_items w @ [pkt] \<and> waiting inbox l w' = msgs"
  using read_queue_control [OF assms] by blast

lemma read_queue_element_spec_witness:
  "\<exists>w'. mclmac_read_queue_element inbox_rtos with_message = Inr (1, w') \<and>
     control_items w' = [sample_packet]"
proof -
  have same: "control_inv with_message" "control_items with_message = []"
    "control_room with_message = 10" "unat (packets_to_send_message (internals with_message)) = 0"
    using sample_world_start(3-5,8)
    by (simp_all add: with_message_def control_inv_def control_items_def control_room_def)
  show ?thesis
    using read_queue_element_spec [OF with_message_reads sample_sendable _ _ same(1)] same
    by (auto simp: sample_packet_def)
qed

text \<open>
  C40. A packet received over the radio comes back to the MAC layer. With nothing waiting in the
  inbox of the MAC thread, writing the oldest received packet to the routing layer and then
  reading the MAC queue puts that very packet among the packets to send: the message was sent to
  the MAC thread itself, not to the routing layer.
\<close>

theorem received_packet_is_queued_to_send:
  assumes "reads_from os inbox l w" and "writes_to_itself l w" and "waiting inbox l w = []"
    and "0 < link_room (ipc_queues w, kernel w)"
    and "received_inv (internals w)" and "received_items (internals w) = pkt # pkts" and "sendable pkt"
    and "2 \<le> unat (ptype pkt)" and "unat (ptype pkt) < 7"
    and "control_inv w" and "0 < control_room w" and "length (control_items w) < 10"
    and "unat (packets_to_send_message (internals w)) \<le> 10"
  shows "\<exists>w1 w2. mclmac_write_queue_element os w = Inr (1, w1) \<and>
    mclmac_read_queue_element os w1 = Inr (1, w2) \<and>
    received_items (internals w1) = pkts \<and> control_items w2 = control_items w @ [pkt] \<and>
    waiting inbox l w2 = []"
proof -
  from write_queue_self [OF assms(1,2) _ assms(4-7)] assms(3) obtain Q k where
    wr: "mclmac_write_queue_element os w =
      Inr (1, on_mclmac (on_mac remove_received) (w\<lparr>ipc_queues := Q, kernel := k\<rparr>))" (is "_ = Inr (_, ?w)")
    and link: "link_inv os inbox l (Q, k)" "thread_getpid os k = receiver l"
    "link_items inbox l (Q, k) = [data_bytes pkt]" by auto
  have reads: "reads_from os inbox l ?w" "waiting inbox l ?w = [data_bytes pkt]"
    using link assms(1)
    by (simp_all add: reads_from_def waiting_def on_mclmac_def on_mac_def)
  have same: "control_inv ?w" "control_items ?w = control_items w" "control_room ?w = control_room w"
    "packets_to_send_message (internals ?w) = packets_to_send_message (internals w)"
    using assms(10)
    by (simp_all add: control_inv_def control_items_def control_room_def on_mclmac_def on_mac_def
        remove_received_def Let_def)
  obtain m' where "take_received (internals w) = Inr (pkt, m')" "received_items m' = pkts"
    using received.get_ok [OF assms(5,6)] by blast
  then have "received_items (internals ?w) = pkts"
    by (auto simp: take_received_def on_mclmac_def on_mac_def split: if_splits)
  with read_queue_control [OF reads assms(7-9), unfolded same] assms(11-13) same(1) wr
  show ?thesis by auto
qed

lemma received_packet_is_queued_to_send_witness:
  "\<exists>w1 w2. mclmac_write_queue_element inbox_rtos with_received = Inr (1, w1) \<and>
     mclmac_read_queue_element inbox_rtos w1 = Inr (1, w2) \<and> control_items w2 = [sample_packet]"
proof -
  have "reads_from inbox_rtos snd link_1_1 with_received"
    using sample_world_reads by (simp add: reads_from_def with_received_def on_mclmac_def on_mac_def)
  moreover have "writes_to_itself link_1_1 with_received"
    by (simp add: writes_to_itself_def with_received_def on_mclmac_def on_mac_def link_1_1_def
        sample_world_def)
  moreover have "waiting snd link_1_1 with_received = []"
    "link_room (ipc_queues with_received, kernel with_received) = 100"
    "control_inv with_received" "control_items with_received = []" "control_room with_received = 10"
    "unat (packets_to_send_message (internals with_received)) = 0"
    using sample_world_start
    by (simp_all add: with_received_def on_mclmac_def on_mac_def waiting_def control_inv_def
        control_items_def control_room_def Let_def)
  moreover have "received_inv (internals with_received)"
    "received_items (internals with_received) = [sample_packet]"
    by (simp_all add: received_inv_def received_items_def ring_ok_def ring_items_def with_received_def
        on_mclmac_def on_mac_def sample_world_def MAC_internals_init_def zero_mac_internals_def)
  ultimately show ?thesis
    using received_packet_is_queued_to_send [of inbox_rtos snd link_1_1 with_received sample_packet "[]"]
      sample_sendable
    by (simp add: sample_packet_def) blast
qed

text \<open>
  C27. The packets of the routing layer. Take any interleaving of packets stored for sending and
  calls of \<open>mclmac_send_data_packet\<close>, with at most ten packets waiting and one waiting at every
  call. If it stores at most as many packets as the array has entries that were not used since the
  counters were last reset, ten at the start, it sends the packets in the order they were stored
  and loses none. If it stores more, it ends with a write behind the end of the array.
\<close>

theorem packets_sent_in_order:
  assumes "control_inv w" and "\<forall>pkt \<in> set (inserted ops). sendable pkt"
    and "feasible MAX_NUMBER_DATA_PACKETS (length (control_items w)) ops"
    and "length (control_items w) \<le> MAX_NUMBER_DATA_PACKETS"
  shows "if length (inserted ops) \<le> control_room w
    then \<exists>sent w'. run_queue put_control send_next ops w = Inr (sent, w') \<and> control_inv w' \<and>
      sent @ control_items w' = control_items w @ inserted ops
    else run_queue put_control send_next ops w = Inl Out_of_bounds"
  by (rule control_queue.run_outcome [OF assms])

lemma packets_sent_in_order_witness:
  "\<exists>sent w'. run_queue put_control send_next [Some sample_packet, None, Some sample_packet]
     sample_world = Inr (sent, w') \<and> sent @ control_items w' = [sample_packet, sample_packet]"
  using packets_sent_in_order [of sample_world "[Some sample_packet, None, Some sample_packet]"]
    sample_sendable sample_world_start by auto

text \<open>
  The eleventh packet is written out of bounds. The index of the last packet is never
  reset while packets are sent, so once as many packets have been stored as the array has entries
  left, sent or not, storing one more writes behind the array.
\<close>

theorem eleventh_packet_out_of_bounds:
  assumes "control_inv w" and "\<forall>pkt \<in> set (inserted ops). sendable pkt"
    and "length (inserted ops) = control_room w"
    and "feasible MAX_NUMBER_DATA_PACKETS (length (control_items w)) ops"
    and "length (control_items w) \<le> MAX_NUMBER_DATA_PACKETS"
  shows "\<exists>sent w'. run_queue put_control send_next ops w = Inr (sent, w') \<and>
    store_control_packet msg (internals w') = Inl Out_of_bounds"
proof -
  obtain sent w' where "run_queue put_control send_next ops w = Inr (sent, w')" "control_inv w'"
    "control_room w = control_room w' + length (inserted ops)"
    using control_queue.run_fifo [OF assms(1,2) _ assms(4,5)] assms(3) by auto
  then show ?thesis using assms(3)
    by (auto simp: control_room_def control_inv_def store_control_packet_def Let_def)
qed

lemma eleventh_packet_out_of_bounds_witness:
  "\<exists>sent w'. run_queue put_control send_next (concat (replicate 10 [Some sample_packet, None]))
     sample_world = Inr (sent, w') \<and>
     store_control_packet (data_bytes sample_packet) (internals w') = Inl Out_of_bounds"
  using eleventh_packet_out_of_bounds [of sample_world "concat (replicate 10 [Some sample_packet, None])"
      "data_bytes sample_packet"] sample_sendable sample_world_start
  by (simp add: alternating)

text \<open>
  Received packets are kept in order, and the eleventh is lost. As long as at most ten
  packets are received in total, they are taken for the routing layer in the order of their
  arrival. The next packet is stored at the eleventh of the twenty entries, but the index of the
  first packet wraps around after ten: what is taken then is whatever the first entry holds, and
  not the packet.
\<close>

theorem received_packets_in_order_then_lost:
  assumes "received_inv m" and "received_items m = []" and "\<forall>pkt \<in> set pkts. sendable pkt"
    and "length pkts = received_room m" and "sendable pkt"
  shows "\<exists>m1 m2. run_queue (\<lambda>pkt. store_received (data_bytes pkt)) take_received
      (map Some pkts @ replicate (length pkts) None) m = Inr (pkts, m1) \<and>
    store_received (data_bytes pkt) m1 = Inr m2 \<and>
    packets_received m2 = (packets_received m1)[10 := pkt] \<and>
    take_received m2 = Inr (packets_received m1 ! 0, remove_received m2)"
proof -
  have "length pkts \<le> MAX_NUMBER_DATA_PACKETS" using assms(4) by (simp add: received_room_def)
  from received.fill_drain [OF assms(1-3) _ this] assms(4) obtain m1 where
    run: "run_queue (\<lambda>pkt. store_received (data_bytes pkt)) take_received
      (map Some pkts @ replicate (length pkts) None) m = Inr (pkts, m1)"
    and m1: "received_inv m1" "received_items m1 = []" "received_room m1 = 0"
    by auto
  have "length (received_items m1) = unat (number_packets_received m1)"
    using m1(1) by (simp add: received_items_def received_inv_def ring_ok_def)
  then have nr: "number_packets_received m1 = 0" using m1(2) by (simp add: unat_eq_0)
  then have st: "unat (last_received m1) = 10" "unat (first_received m1) = 0"
    "number_packets_received m1 = 0" "length (packets_received m1) = 20"
    using m1(1,3) by (auto simp: received_room_def received_inv_def ring_ok_def)
  let ?m = "m1\<lparr>packets_received := (packets_received m1)[10 := pkt], last_received := 11,
      number_packets_received := 1\<rparr>"
  have "store_received (data_bytes pkt) m1 = Inr ?m"
    using st by (simp add: store_received_def data_bytes_decode [OF assms(5)])
  moreover have "take_received ?m = Inr (packets_received m1 ! 0, remove_received ?m)"
    using st by (simp add: take_received_def)
  ultimately show ?thesis using run by auto
qed

lemma received_packets_in_order_then_lost_witness:
  "\<exists>m1 m2. run_queue (\<lambda>pkt. store_received (data_bytes pkt)) take_received
      (map Some (replicate 10 sample_packet) @ replicate 10 None) (internals sample_world) =
      Inr (replicate 10 sample_packet, m1) \<and>
    store_received (data_bytes sample_packet) m1 = Inr m2 \<and>
    take_received m2 = Inr (packets_received m1 ! 0, remove_received m2)"
proof -
  have "received_room (internals sample_world) = 10"
    by (simp add: received_room_def sample_world_def MAC_internals_init_def zero_mac_internals_def)
  then show ?thesis
    using received_packets_in_order_then_lost [of "internals sample_world" "replicate 10 sample_packet"
        sample_packet] sample_sendable sample_world_start by auto
qed

text \<open>
  Without a routing queue a received packet stops the node. Nothing in the MAC layer sets the
  identifier of the routing queue, and with its initial value 0 the first packet received makes
  \<open>mclmac_write_queue_element\<close> fail an assertion: the test for 0 comes after the assertion.
\<close>

theorem no_routing_queue_assertion:
  "routing_queue_id (mclmac w) = 0 \<Longrightarrow> mclmac_write_queue_element os w =
     (if number_packets_received (internals w) = 0 then Inr (0, w) else Inl Assertion_failed)"
  by (simp add: mclmac_write_queue_element_def elements_on_queue_def Let_def)

lemma no_routing_queue_assertion_witness:
  "mclmac_write_queue_element inbox_rtos
     (on_mclmac (\<lambda>m. m\<lparr>routing_queue_id := 0\<rparr>) with_received) = Inl Assertion_failed"
  using no_routing_queue_assertion [of "on_mclmac (\<lambda>m. m\<lparr>routing_queue_id := 0\<rparr>) with_received" inbox_rtos]
  by (simp add: with_received_def on_mclmac_def on_mac_def)

end
