(* ===== verification/World.thy ===== *)
theory World
  imports Mac_Queues
begin

text \<open>
  Time, interrupts and other threads. The functions of the MAC layer wait in loops for a timer to
  expire. The field \<open>script\<close> of the world says what happens meanwhile: one list of events per
  round of a waiting loop (microseconds that pass, the interrupt of the hardware timer, whatever
  other threads do to the kernel). A loop that is still waiting when the script ends gives the
  fault \<open>Still_running\<close>; the script is arbitrary, so a property that holds for every script holds
  for every behaviour of the environment, and a property that a loop ends states what the script
  must contain.

  Every round of a loop consumes one entry, so the length of the script is enough fuel for every
  loop (\<open>run_loop_unfold\<close>).
\<close>

section \<open>The environment\<close>

fun env_event :: "'k event \<Rightarrow> 'k world \<Rightarrow> 'k world" where
  "env_event (Elapse d) w = w\<lparr>clock := clock w + d\<rparr>"
| "env_event Ztimer_interrupt w = w\<lparr>timeouts := timeout_fire (timeouts w) (clock w)\<rparr>"
| "env_event (Other_threads f) w = w\<lparr>kernel := f (kernel w)\<rparr>"

definition wait_round :: "'k world \<Rightarrow> 'k world result" where
  "wait_round w =
     (case script w of
       [] \<Rightarrow> Inl Still_running
     | es # rest \<Rightarrow> Inr (fold env_event es (w\<lparr>script := rest\<rparr>)))"

text \<open>
  A loop with local variables \<open>l\<close>: the body says whether there is another round.
\<close>

fun wait_loop ::
    "nat \<Rightarrow> ('l \<Rightarrow> 'k world \<Rightarrow> (bool \<times> 'l \<times> 'k world) result) \<Rightarrow> 'l \<Rightarrow> 'k world \<Rightarrow> ('l \<times> 'k world) result" where
  "wait_loop 0 body l w = Inl Still_running"
| "wait_loop (Suc n) body l w =
     rbind (wait_round w) (\<lambda>w'.
     rbind (body l w') (\<lambda>(again, l', w'').
       if again then wait_loop n body l' w'' else Inr (l', w'')))"

definition run_loop ::
    "('l \<Rightarrow> 'k world \<Rightarrow> (bool \<times> 'l \<times> 'k world) result) \<Rightarrow> 'l \<Rightarrow> 'k world \<Rightarrow> ('l \<times> 'k world) result" where
  "run_loop body l w = wait_loop (Suc (length (script w))) body l w"

text \<open>The functions of \<open>timeouts.c\<close> and of RIOT's \<open>ztimer\<close>, on the world.\<close>

definition set_timer :: "u32 \<Rightarrow> 'k world \<Rightarrow> u32 \<times> 'k world" where
  "set_timer d w = (case timeout_set (timeouts w) (clock w) d of (i, t) \<Rightarrow> (i, w\<lparr>timeouts := t\<rparr>))"

definition unset_timer :: "u32 \<Rightarrow> 'k world \<Rightarrow> 'k world" where
  "unset_timer i w = w\<lparr>timeouts := snd (timeout_unset (timeouts w) i)\<rparr>"

abbreviation passed :: "u32 \<Rightarrow> 'k world \<Rightarrow> nat" where
  "passed i w \<equiv> timeout_passed (timeouts w) i"

definition ztimer_sleep :: "u32 \<Rightarrow> 'k world \<Rightarrow> 'k world result" where
  "ztimer_sleep d w = rbind (wait_round w) (\<lambda>w'. Inr (w'\<lparr>clock := clock w' + d\<rparr>))"

section \<open>Loops\<close>

lemma env_event_frame [simp]:
  "mclmac (env_event e w) = mclmac w" "ipc_queues (env_event e w) = ipc_queues w"
  "script (env_event e w) = script w" "rand_values (env_event e w) = rand_values w"
  by (cases e; simp)+

lemma env_events_frame [simp]:
  "mclmac (fold env_event es w) = mclmac w" "ipc_queues (fold env_event es w) = ipc_queues w"
  "script (fold env_event es w) = script w" "rand_values (fold env_event es w) = rand_values w"
  by (induction es arbitrary: w) simp_all

lemma env_events_timers:
  "wf_timeouts (timeouts w) \<Longrightarrow> wf_timeouts (timeouts (fold env_event es w))"
proof (induction es arbitrary: w)
  case (Cons e es)
  then show ?case by (cases e) (simp_all add: wf_timeout_fire)
qed simp

lemma wait_round_Inr:
  assumes "wait_round w = Inr w'"
  shows "mclmac w' = mclmac w" and "ipc_queues w' = ipc_queues w" and "rand_values w' = rand_values w"
    and "length (script w) = Suc (length (script w'))"
    and "wf_timeouts (timeouts w) \<Longrightarrow> wf_timeouts (timeouts w')"
  using assms by (auto simp: wait_round_def env_events_timers split: list.splits)

text \<open>A body that never lengthens the script.\<close>

definition consumes :: "('l \<Rightarrow> 'k world \<Rightarrow> (bool \<times> 'l \<times> 'k world) result) \<Rightarrow> bool" where
  "consumes body \<longleftrightarrow>
     (\<forall>l w again l' w'. body l w = Inr (again, l', w') \<longrightarrow> length (script w') \<le> length (script w))"

lemma wait_loop_fuel:
  assumes "consumes body" and "length (script w) < n" and "length (script w) < m"
  shows "wait_loop n body l w = wait_loop m body l w"
  using assms(2,3)
proof (induction n arbitrary: m l w)
  case (Suc n)
  then obtain k where m: "m = Suc k" by (cases m) auto
  show ?case
  proof (cases "wait_round w")
    case (Inr w1)
    note round = wait_round_Inr(4) [OF Inr]
    show ?thesis
    proof (cases "body l w1")
      case (Inr r)
      obtain again l2 w2 where r: "r = (again, l2, w2)" by (cases r)
      have "length (script w2) \<le> length (script w1)"
        using assms(1) Inr r by (auto simp: consumes_def)
      then have "wait_loop n body l2 w2 = wait_loop k body l2 w2"
        using Suc.IH [of w2 k l2] Suc.prems m round by simp
      then show ?thesis using m r Inr \<open>wait_round w = Inr w1\<close> by simp
    qed (use m Inr in simp)
  qed (use m in simp)
qed simp

lemma run_loop_unfold:
  assumes "consumes body"
  shows "run_loop body l w =
    rbind (wait_round w) (\<lambda>w'.
    rbind (body l w') (\<lambda>(again, l', w''). if again then run_loop body l' w'' else Inr (l', w'')))"
proof (cases "wait_round w")
  case (Inr w1)
  note round = wait_round_Inr(4) [OF Inr]
  show ?thesis
  proof (cases "body l w1")
    case (Inr r)
    obtain again l2 w2 where r: "r = (again, l2, w2)" by (cases r)
    have "length (script w2) \<le> length (script w1)"
      using assms Inr r by (auto simp: consumes_def)
    then have "wait_loop (length (script w)) body l2 w2 = run_loop body l2 w2"
      unfolding run_loop_def using round by (intro wait_loop_fuel [OF assms]) auto
    with r Inr \<open>wait_round w = Inr w1\<close> show ?thesis by (simp add: run_loop_def)
  qed (use Inr in \<open>simp add: run_loop_def\<close>)
qed (simp add: run_loop_def)

lemma run_loop_Nil: "script w = [] \<Longrightarrow> run_loop body l w = Inl Still_running"
  by (simp add: run_loop_def wait_round_def)

text \<open>The rule for what holds after a loop that ends.\<close>

lemma run_loop_rule:
  assumes "run_loop body l w = Inr (l', w')" and "I l w"
    and "\<And>l w w1. I l w \<Longrightarrow> wait_round w = Inr w1 \<Longrightarrow> I l w1"
    and "\<And>l w again l2 w2. I l w \<Longrightarrow> body l w = Inr (again, l2, w2) \<Longrightarrow> if again then I l2 w2 else P l2 w2"
  shows "P l' w'"
proof -
  have "wait_loop n body l w = Inr (l', w') \<Longrightarrow> I l w \<Longrightarrow> P l' w'" for n
  proof (induction n arbitrary: l w)
    case (Suc n)
    from Suc.prems(1) obtain w1 again l2 w2 where
      step: "wait_round w = Inr w1" "body l w1 = Inr (again, l2, w2)"
      "(if again then wait_loop n body l2 w2 else Inr (l2, w2)) = Inr (l', w')"
      by (auto simp: rbind_eq_Inr)
    from assms(4) [OF assms(3) [OF Suc.prems(2) step(1)] step(2)] step(3) Suc.IH [of l2 w2]
    show ?case by (auto split: if_splits)
  qed simp
  from this [OF assms(1) [unfolded run_loop_def] assms(2)] show ?thesis .
qed

text \<open>A loop fails only as its body does, or because the script ends.\<close>

lemma run_loop_fault:
  assumes "run_loop body l w = Inl e" and "I l w"
    and "\<And>l w w1. I l w \<Longrightarrow> wait_round w = Inr w1 \<Longrightarrow> I l w1"
    and "\<And>l w l2 w2. I l w \<Longrightarrow> body l w = Inr (True, l2, w2) \<Longrightarrow> I l2 w2"
    and "\<And>l w e. I l w \<Longrightarrow> body l w = Inl e \<Longrightarrow> e = Still_running"
  shows "e = Still_running"
proof -
  have "wait_loop n body l w = Inl e \<Longrightarrow> I l w \<Longrightarrow> e = Still_running" for n
  proof (induction n arbitrary: l w)
    case (Suc n)
    show ?case
    proof (cases "wait_round w")
      case (Inl e')
      with Suc.prems(1) show ?thesis by (auto simp: wait_round_def split: list.splits)
    next
      case (Inr w1)
      note I = assms(3) [OF Suc.prems(2) Inr]
      show ?thesis
      proof (cases "body l w1")
        case (Inl e')
        with assms(5) [OF I Inl] Inr Suc.prems(1) \<open>wait_round w = Inr w1\<close> show ?thesis by simp
      next
        case body: (Inr r)
        obtain again l2 w2 where r: "r = (again, l2, w2)" by (cases r)
        with Suc.prems(1) Inr body assms(4) [OF I, of l2 w2] Suc.IH [of l2 w2] show ?thesis
          by (auto split: if_splits)
      qed
    qed
  qed simp
  from this [OF assms(1) [unfolded run_loop_def] assms(2)] show ?thesis .
qed

section \<open>Timers while the environment acts\<close>

lemma env_events_released:
  assumes "wf_timeouts (timeouts w)" and "passed i w = 2"
  shows "passed i (fold env_event es w) = 2"
  using assms
proof (induction es arbitrary: w)
  case (Cons e es)
  have "wf_timeouts (timeouts (env_event e w))" using env_events_timers [of w "[e]"] Cons.prems(1) by simp
  moreover have "passed i (env_event e w) = 2"
    using timers.fire_step [OF Cons.prems(1), of "clock w" i] Cons.prems(2) by (cases e) auto
  ultimately show ?case using Cons.IH [of "env_event e w"] by simp
qed simp

lemma wait_round_released:
  "wait_round w = Inr w1 \<Longrightarrow> wf_timeouts (timeouts w) \<Longrightarrow> passed i w = 2 \<Longrightarrow> passed i w1 = 2"
  by (auto simp: wait_round_def env_events_released split: list.splits)

lemma unset_timer_released: "wf_timeouts (timeouts w) \<Longrightarrow> passed i (unset_timer i w) = 2"
  by (simp add: unset_timer_def timers.unset_self)

lemma unset_timer_frame [simp]:
  "mclmac (unset_timer i w) = mclmac w" "script (unset_timer i w) = script w"
  "kernel (unset_timer i w) = kernel w" "ipc_queues (unset_timer i w) = ipc_queues w"
  by (simp_all add: unset_timer_def)

lemma set_timer_frame:
  "set_timer d w = (i, w') \<Longrightarrow> mclmac w' = mclmac w \<and> script w' = script w \<and> kernel w' = kernel w \<and>
     ipc_queues w' = ipc_queues w"
  by (auto simp: set_timer_def split: prod.splits)

lemma wf_unset_timer: "wf_timeouts (timeouts w) \<Longrightarrow> wf_timeouts (timeouts (unset_timer i w))"
  by (simp add: unset_timer_def wf_timeout_unset)

lemma wf_set_timer:
  "set_timer d w = (i, w') \<Longrightarrow> wf_timeouts (timeouts w) \<Longrightarrow> wf_timeouts (timeouts w')"
  using wf_timeout_set [of "timeouts w" "clock w" d] by (auto simp: set_timer_def split: prod.splits)

lemma on_mclmac_frame [simp]:
  "mclmac (on_mclmac f w) = f (mclmac w)" "timeouts (on_mclmac f w) = timeouts w"
  "script (on_mclmac f w) = script w" "clock (on_mclmac f w) = clock w"
  "kernel (on_mclmac f w) = kernel w" "ipc_queues (on_mclmac f w) = ipc_queues w"
  "rand_values (on_mclmac f w) = rand_values w"
  by (simp_all add: on_mclmac_def)

end
