(* ===== verification/Packet_Handlers.thy ===== *)
theory Packet_Handlers
  imports World
begin

text \<open>
  The packet handlers of \<open>Packets_Handlers.c\<close> and their native stubs, which stand for the radio.
  The stubs look at the test variables \<open>_init_state\<close>, \<open>_state_cf\<close>, \<open>_state_ctrl\<close>, \<open>_trues\<close> and
  \<open>_trues5\<close> only when the program is built with \<open>TESTING\<close>: this is the parameter \<open>testing\<close>. The
  data packets are in theory \<open>Mac_Queues\<close>.
\<close>

section \<open>Contention-free packets\<close>

definition mclmac_start_packet_detection :: "MCLMAC_t \<Rightarrow> MCLMAC_t" where
  "mclmac_start_packet_detection m = m"

text \<open>\<open>while (timeout_passed(timeout) != 1) ;\<close>\<close>

definition busy_wait :: "u32 \<Rightarrow> 'k world \<Rightarrow> 'k world result" where
  "busy_wait timeout w =
     rbind (run_loop (\<lambda>(_ :: unit) w. Inr (passed timeout w \<noteq> 1, (), w)) () w) (\<lambda>(_, w'). Inr w')"

definition cf_packet_detected_native :: "bool \<Rightarrow> 'k world \<Rightarrow> (bool \<times> 'k world) result" where
  "cf_packet_detected_native testing w =
     (if testing \<and> init_state (mclmac w) = 0
      then
        (case set_timer 1100000 w of (timeout, w1) \<Rightarrow>
          rbind (busy_wait timeout w1) (\<lambda>w2. Inr (False, unset_timer timeout w2)))
      else if testing \<and> init_state (mclmac w) = 1
      then
        (case set_timer 900000 w of (timeout, w1) \<Rightarrow>
          rbind (busy_wait timeout w1) (\<lambda>w2. Inr (True, unset_timer timeout w2)))
      else Inr (True, w))"

definition mclmac_cf_packet_detected :: "bool \<Rightarrow> 'k world \<Rightarrow> (bool \<times> 'k world) result" where
  "mclmac_cf_packet_detected testing w = cf_packet_detected_native testing w"

definition mclmac_send_cf_message :: "'k world \<Rightarrow> 'k world result" where
  "mclmac_send_cf_message w =
     (let w1 = on_mclmac mclmac_set_radio_standby w;
          pkt = cf_messages (internals w1) ! 0
      in case c_rand w1 of (n, w2) \<Rightarrow>
        rbind (cfpacket_get_packet_bytestring RIOT (\<lambda>_. 0) (of_nat n) pkt) (\<lambda>bs.
          ztimer_sleep 1 (on_mclmac mclmac_set_radio_standby w2)))"

text \<open>The stub pretends that a node with a random identifier wants to send to this node.\<close>

definition set_cf_received :: "bool \<Rightarrow> 'k world \<Rightarrow> 'k world" where
  "set_cf_received b = on_mclmac (on_mac (cf_message_received_update (\<lambda>_. b)))"

definition random_cf_packet :: "'k world \<Rightarrow> 'k world" where
  "random_cf_packet w =
     (case c_rand w of (r0, w1) \<Rightarrow> case c_rand w1 of (r1, w2) \<Rightarrow>
       on_mclmac (\<lambda>m. on_mac (\<lambda>i. i\<lparr>cf_messages := (cf_messages i)
         [1 := cfpacket_create (cf_messages i ! 1) (of_nat r0, of_nat r1) (mclmac_get_nodeid m)]\<rparr>) m) w2)"

definition receive_cf_message_native :: "bool \<Rightarrow> 'k world \<Rightarrow> bool \<times> 'k world" where
  "receive_cf_message_native testing w =
     (let m = mclmac w
      in if \<not> testing then (True, w)
         else if state_cf m = 1 \<or> state_cf m = 3 then (False, set_cf_received False w)
         else if state_cf m = 2
         then (if trues m = 1 then (False, set_cf_received False w)
               else (True, on_mclmac (\<lambda>m. m\<lparr>trues := trues m + 1\<rparr>)
                             (random_cf_packet (set_cf_received True w))))
         else if state_cf m = 4
         then (if mclmac_get_current_cf_slot m = 0 then (False, set_cf_received False w)
               else if trues m = 2 then (False, set_cf_received False w)
               else (True, on_mclmac (\<lambda>m. m\<lparr>trues := trues m + 1\<rparr>)
                             (random_cf_packet (set_cf_received True w))))
         else if state_cf m = 5
         then (if trues5 m \<ge> 2 then (False, set_cf_received False w)
               else
                 (case c_rand w of (r, w1) \<Rightarrow>
                   if r mod 1024 > 256
                   then (True, on_mclmac (\<lambda>m. m\<lparr>trues5 := trues5 m + 1\<rparr>)
                                 (random_cf_packet (set_cf_received True w1)))
                   else (True, set_cf_received False w1)))
         else (True, w))"

definition mclmac_receive_cf_message :: "bool \<Rightarrow> 'k world \<Rightarrow> bool \<times> 'k world" where
  "mclmac_receive_cf_message testing w = receive_cf_message_native testing w"

section \<open>Control packets\<close>

text \<open>
  The stub for the synchronisation marks a random frequency as occupied in the current slot, in
  the node's own table, and makes a packet of the node's own data: the hop count cut to a byte,
  the network time to 32 bits.
\<close>

definition receive_ctrlpkt_sync_native ::
    "'k world \<Rightarrow> ControlPacket_t \<Rightarrow> (ControlPacket_t \<times> 'k world) result" where
  "receive_ctrlpkt_sync_native w pkt =
     (let m = mclmac w;
          slot = current_slot (frame (mac m));
          hops = ucast (own_hopCount m) :: u8;
          net_time = ucast (own_networkTime m) :: u32
      in case c_rand w of (r, w1) \<Rightarrow>
        (let freq = r mod MAX_NUMBER_FREQS; row = occupied_frequencies_slots m ! freq;
             bit = push_bit (unat slot mod 8) (1 :: u8); pos = unat slot div 8
         in if pos < length row
            then
              (let occ = (occupied_frequencies_slots m)[freq := row[pos := row ! pos OR bit]]
               in Inr (controlpacket_create pkt (0, 0) (current_frame (frame (mac m))) slot
                         NO_COLLISION_SLOT NO_COLLISION_FREQ (ucast hops) (ucast net_time)
                         (own_initTime m) occ,
                       on_mclmac (\<lambda>m. m\<lparr>occupied_frequencies_slots := occ\<rparr>) w1))
            else Inl Out_of_bounds))"

definition mclmac_receive_ctrlpkt_sync ::
    "bool \<Rightarrow> 'k world \<Rightarrow> ControlPacket_t \<Rightarrow> (bool \<times> ControlPacket_t \<times> 'k world) result" where
  "mclmac_receive_ctrlpkt_sync testing w pkt =
     (if testing \<and> state_ctrl (mclmac w) = 1 then Inr (False, pkt, w)
      else rbind (receive_ctrlpkt_sync_native w pkt) (\<lambda>(pkt', w'). Inr (True, pkt', w')))"

definition mclmac_create_control_packet :: "MCLMAC_t \<Rightarrow> MCLMAC_t" where
  "mclmac_create_control_packet m =
     on_mac (\<lambda>i. i\<lparr>ctrlpkt := controlpacket_create (controlpacket_clear (ctrlpkt i)) (own_id m)
        (current_frame (frame i)) (current_slot (frame i)) (mac_collisionSlot i)
        (mac_collisionFrequency i) (own_hopCount m) (own_networkTime m) (own_initTime m)
        (occupied_frequencies_slots m)\<rparr>) m"

definition mclmac_send_control_packet :: "'k world \<Rightarrow> 'k world result" where
  "mclmac_send_control_packet w =
     (case c_rand w of (n, w1) \<Rightarrow>
       rbind (controlpacket_get_packet_bytestring RIOT (\<lambda>_. 0) (of_nat n) (ctrlpkt (internals w1))) (\<lambda>bs.
         Inr (on_mclmac (on_mac (\<lambda>i. i\<lparr>ctrlpkt := controlpacket_clear (ctrlpkt i)\<rparr>)) w1)))"

text \<open>The stub for receiving: 256 random bytes below 250, overwritten by type and known fields.\<close>

fun rand_bytes_250 :: "nat \<Rightarrow> 'k world \<Rightarrow> u8 list \<times> 'k world" where
  "rand_bytes_250 0 w = ([], w)"
| "rand_bytes_250 (Suc n) w =
     (case c_rand w of (r, w') \<Rightarrow>
       case rand_bytes_250 n w' of (bs, w'') \<Rightarrow> (of_nat (r mod 250) # bs, w''))"

definition native_id_writes :: "MCLMAC_t \<Rightarrow> (nat \<times> u8) list" where
  "native_id_writes m =
     (let tid = transmitter_id (mac m) in
     [(1, masked_byte (fst tid) 0xff00000000000000 56),
      (2, masked_byte (fst tid) 0x00ff000000000000 48),
      (3, masked_byte (fst tid) 0x0000ff0000000000 40),
      (4, masked_byte (fst tid) 0x000000ff00000000 32),
      (5, masked_byte (fst tid) 0x00000000ff000000 24),
      (6, masked_byte (fst tid) 0x0000000000ff0000 16),
      (7, masked_byte (fst tid) 0x000000000000ff00 8),
      (8, masked_byte (fst tid) 0x00000000000000ff 0),
      (9, masked_byte (snd tid) 0xff00000000000000 56),
      (10, masked_byte (snd tid) 0x00ff000000000000 48),
      (11, masked_byte (snd tid) 0x0000ff0000000000 40),
      (12, masked_byte (snd tid) 0x000000ff00000000 32),
      (13, masked_byte (snd tid) 0x00000000ff000000 24),
      (14, masked_byte (snd tid) 0x0000000000ff0000 16),
      (15, masked_byte (snd tid) 0x000000000000ff00 8),
      (16, masked_byte (snd tid) 0x00000000000000ff 0)])"

definition u32_writes :: "nat \<Rightarrow> u32 \<Rightarrow> (nat \<times> u8) list" where
  "u32_writes i x =
     [(i, masked_byte x 0xff000000 24), (i + 1, masked_byte x 0x00ff0000 16),
      (i + 2, masked_byte x 0x0000ff00 8), (i + 3, masked_byte x 0x000000ff 0)]"

definition u64_writes :: "nat \<Rightarrow> u64 \<Rightarrow> (nat \<times> u8) list" where
  "u64_writes i x =
     [(i, masked_byte x 0xff00000000000000 56), (i + 1, masked_byte x 0x00ff000000000000 48),
      (i + 2, masked_byte x 0x0000ff0000000000 40), (i + 3, masked_byte x 0x000000ff00000000 32),
      (i + 4, masked_byte x 0x00000000ff000000 24), (i + 5, masked_byte x 0x0000000000ff0000 16),
      (i + 6, masked_byte x 0x000000000000ff00 8), (i + 7, masked_byte x 0x00000000000000ff 0)]"

definition native_field_writes :: "MCLMAC_t \<Rightarrow> (nat \<times> u8) list" where
  "native_field_writes m =
     u32_writes 17 (current_frame (frame (mac m))) @
     [(21, mclmac_get_current_slot m), (22, 0), (23, 0), (24, 0), (25, 0), (26, 0),
      (27, masked_byte (own_hopCount m) 0xff00 8), (28, masked_byte (own_hopCount m) 0x00ff 0)] @
     u64_writes 29 (own_networkTime m) @
     u32_writes 37 (own_initTime m)"

definition native_case_writes :: "MCLMAC_t \<Rightarrow> (nat \<times> u8) list" where
  "native_case_writes m =
     (if state_ctrl m = 3 then (22, selectedSlot (mac m)) # u32_writes 23 (transmitChannel (mac m))
      else if state_ctrl m = 4 then [(21, mclmac_get_current_slot m + 1)]
      else if state_ctrl m = 5 then u32_writes 17 (current_frame (frame (mac m)) + 1)
      else if state_ctrl m = 6 then u64_writes 29 (own_networkTime m + of_nat NETWORK_TIME_EPSILON + 1)
      else [])"

definition native_control_writes :: "bool \<Rightarrow> MCLMAC_t \<Rightarrow> (nat \<times> u8) list" where
  "native_control_writes testing m =
     (0, 1) #
     (if testing \<and> state_ctrl m \<in> {1, 3, 4, 5, 6}
      then native_id_writes m @ native_field_writes m @ native_case_writes m
      else if testing \<and> state_ctrl m = 2 then native_id_writes m
      else [])"

definition receive_control_packet_native :: "bool \<Rightarrow> 'k world \<Rightarrow> 'k world result" where
  "receive_control_packet_native testing w =
     (case rand_bytes_250 MAX_MESSAGE_SIZE w of (rs, w1) \<Rightarrow>
       rbind (write_all (WRITE_ARRAY RIOT) (new_array RIOT (\<lambda>_. 0) MAX_MESSAGE_SIZE)
                (zip [0..<MAX_MESSAGE_SIZE] rs @ native_control_writes testing (mclmac w))) (\<lambda>bs.
       rbind (controlpacket_construct_packet_from_bytestring RIOT (ctrlpkt_recv (internals w1)) bs) (\<lambda>pkt.
         Inr (on_mclmac (on_mac (ctrlpkt_recv_update (\<lambda>_. pkt))) w1))))"

definition mclmac_receive_control_packet :: "bool \<Rightarrow> 'k world \<Rightarrow> (bool \<times> 'k world) result" where
  "mclmac_receive_control_packet testing w =
     (if testing \<and> state_ctrl (mclmac w) = 7 then Inr (False, w)
      else rbind (receive_control_packet_native testing w) (\<lambda>w'. Inr (True, w')))"

end
