(* ===== verification/Power_Mode.thy ===== *)
theory Power_Mode
  imports Packet_Handlers
begin

text \<open>
  The power mode state machine, \<open>MAC_PowerMode_StateMachine.c\<close>: what a node does in every slot
  while it has access to the medium. One definition per state; \<open>mclmac_execute_powermode_state\<close>
  dispatches on the current state. The parameter \<open>os\<close> is the kernel interface of theory
  \<open>Ipc_Queues\<close>, \<open>testing\<close> the build flag of theory \<open>Packet_Handlers\<close>.
\<close>

section \<open>Transitions\<close>

definition mclmac_set_powermode_state :: "MCLMAC_t \<Rightarrow> PowerMode_t \<Rightarrow> MCLMAC_t" where
  "mclmac_set_powermode_state m mode = m\<lparr>powerMode := mode\<rparr>"

definition mclmac_set_next_powermode_state :: "MCLMAC_t \<Rightarrow> PowerMode_t \<Rightarrow> MCLMAC_t result" where
  "mclmac_set_next_powermode_state m next = assert_that (next \<noteq> STARTP) (Inr (m\<lparr>nextPowerMode := next\<rparr>))"

definition mclmac_update_powermode_state_machine :: "MCLMAC_t \<Rightarrow> POWERMODE_ERRORS \<times> MCLMAC_t" where
  "mclmac_update_powermode_state_machine m =
     (if powerMode m = nextPowerMode m then (E_PM_NO_TRANSITION, m)
      else
        (case nextPowerMode m of
          NONEP \<Rightarrow> (E_PM_NO_TRANSITION, mclmac_set_powermode_state m NONEP)
        | PASSIVE \<Rightarrow>
            (if powerMode m = FINISHP then (E_PM_TRANSITION_ERROR, m)
             else (E_PM_TRANSITION_SUCCESS, mclmac_set_powermode_state m PASSIVE))
        | ACTIVE \<Rightarrow>
            (if powerMode m = PASSIVE
             then (E_PM_TRANSITION_SUCCESS, mclmac_set_powermode_state m ACTIVE)
             else (E_PM_TRANSITION_ERROR, m))
        | TRANSMIT \<Rightarrow>
            (if powerMode m = ACTIVE
             then (E_PM_TRANSITION_SUCCESS, mclmac_set_powermode_state m TRANSMIT)
             else (E_PM_TRANSITION_ERROR, m))
        | RECEIVE \<Rightarrow>
            (if powerMode m = ACTIVE
             then (E_PM_TRANSITION_SUCCESS, mclmac_set_powermode_state m RECEIVE)
             else (E_PM_TRANSITION_ERROR, m))
        | FINISHP \<Rightarrow>
            (if powerMode m = STARTP then (E_PM_TRANSITION_ERROR, m)
             else if powerMode m = PASSIVE then (E_PM_TRANSITION_ERROR, m)
             else (E_PM_TRANSITION_SUCCESS, mclmac_set_powermode_state m FINISHP))
        | _ \<Rightarrow> (E_PM_INVALID_STATE, m)))"

section \<open>The states\<close>

definition try_mclmac :: "(MCLMAC_t \<Rightarrow> MCLMAC_t result) \<Rightarrow> 'k world \<Rightarrow> 'k world result" where
  "try_mclmac f w = rbind (f (mclmac w)) (\<lambda>m. Inr (w\<lparr>mclmac := m\<rparr>))"

definition next_powermode :: "PowerMode_t \<Rightarrow> 'k world \<Rightarrow> 'k world result" where
  "next_powermode s = try_mclmac (\<lambda>m. mclmac_set_next_powermode_state m s)"

text \<open>\<open>frame.slot_timer = timeout_set(frame.slot_duration)\<close>, and the same for the CF timer.\<close>

definition arm_slot_timer :: "'k world \<Rightarrow> 'k world" where
  "arm_slot_timer w =
     (case set_timer (slot_duration (frame (internals w))) w of (i, w') \<Rightarrow>
       on_mclmac (on_frame (slot_timer_update (\<lambda>_. i))) w')"

definition arm_cf_timer :: "'k world \<Rightarrow> 'k world" where
  "arm_cf_timer w =
     (case set_timer (cf_duration (frame (internals w))) w of (i, w') \<Rightarrow>
       on_mclmac (on_frame (cf_timer_update (\<lambda>_. i))) w')"

definition reset_packet_counters :: "MAC_Internals_t \<Rightarrow> MAC_Internals_t" where
  "reset_packet_counters i =
     i\<lparr>packets_to_send_message := 0, packets_to_send_control := 0, number_packets_received := 0,
       first_send_message := 0, last_send_message := 0, first_send_control := 0,
       last_send_control := 0, first_received := 0, last_received := 0\<rparr>"

definition startp_settings :: "MCLMAC_t \<Rightarrow> MCLMAC_t result" where
  "startp_settings m =
     rbind (mclmac_set_slots_number m (nSlots m)) (\<lambda>m.
     rbind (mclmac_set_cf_slots_number m (nChannels m)) (\<lambda>m.
     rbind (mclmac_set_frame_duration m FRAME_DURATION) (\<lambda>m.
     rbind (mclmac_set_slot_duration m SLOT_DURATION) (\<lambda>m.
     rbind (mclmac_set_cf_duration m CF_SLOT_DURATION) (\<lambda>m.
       Inr (on_mac reset_packet_counters
              (mclmac_set_current_cf_slot
                (mclmac_set_current_slot
                  (mclmac_set_current_frame m (wakeup_frame m + 1)) 0) 0)))))))"

definition execute_startp :: "'k world \<Rightarrow> (PM_EXECUTION_ERRORS \<times> 'k world) result" where
  "execute_startp w =
     rbind (try_mclmac startp_settings w) (\<lambda>w.
     rbind (next_powermode PASSIVE w) (\<lambda>w.
       Inr (E_PM_EXECUTION_SUCCESS, arm_slot_timer w)))"

subsection \<open>PASSIVE\<close>

text \<open>One round of the sleeping loop.\<close>

definition passive_round :: "'k rtos \<Rightarrow> unit \<Rightarrow> 'k world \<Rightarrow> (bool \<times> unit \<times> 'k world) result" where
  "passive_round os l w =
     (let timer = slot_timer (frame (internals w));
          sleep = (passed timer w \<noteq> 1);
          w1 = (if sleep then w else unset_timer timer w)
      in rbind (elements_on_queue os (kernel w1) (mac_queue_id (mclmac w1))) (\<lambda>n.
           if n = 0 \<and> number_packets_received (internals w1) = 0 then Inr (sleep, (), w1)
           else
             rbind (mclmac_read_queue_element os w1) (\<lambda>(_, w2).
             rbind (mclmac_write_queue_element os w2) (\<lambda>(_, w3).
               Inr (sleep, (), w3)))))"

text \<open>The step to the next slot, and to the next frame after its last slot.\<close>

definition advance_slot :: "MCLMAC_t \<Rightarrow> MCLMAC_t" where
  "advance_slot m =
     (let m1 = mclmac_increase_slot m;
          m2 = (if mclmac_get_current_slot m1 = slots_number (frame (mac m1))
                then mclmac_set_current_slot (mclmac_increase_frame m1) 0 else m1)
      in m2\<lparr>own_networkTime := own_networkTime m2 + 1\<rparr>)"

definition execute_passive ::
    "'k rtos \<Rightarrow> 'k world \<Rightarrow> (PM_EXECUTION_ERRORS \<times> 'k world) result" where
  "execute_passive os w =
     rbind (run_loop (passive_round os) ()
              (on_mclmac (\<lambda>m. mclmac_set_radio_sleep (mclmac_set_current_cf_slot m 0)) w)) (\<lambda>(_, w1).
     rbind (next_powermode ACTIVE (arm_slot_timer (on_mclmac advance_slot w1))) (\<lambda>w2.
       Inr (E_PM_EXECUTION_SUCCESS, w2)))"

subsection \<open>ACTIVE\<close>

record active_locals =
  is_current :: bool
  send :: bool
  receive :: bool
  packets :: u8

text \<open>Announcing: the CF packet of the node is made, sent and cleared.\<close>

definition announce :: "node_id \<Rightarrow> 'k world \<Rightarrow> 'k world result" where
  "announce dest w =
     rbind (mclmac_send_cf_message
              (on_mclmac (\<lambda>m. on_mac (\<lambda>i. i\<lparr>cf_messages := (cf_messages i)
                 [0 := cfpacket_create (cf_messages i ! 0) (mclmac_get_nodeid m) dest]\<rparr>) m) w)) (\<lambda>w'.
       Inr (on_mclmac (on_mac (\<lambda>i. i\<lparr>cf_messages := (cf_messages i)
              [0 := cfpacket_clear (cf_messages i ! 0)]\<rparr>)) w'))"

definition active_send :: "active_locals \<Rightarrow> 'k world \<Rightarrow> (active_locals \<times> 'k world) result" where
  "active_send l w =
     (let i = internals w;
          ready = packets_to_send_message i > 0 \<or> packets_to_send_control i > 0 \<or> collisionDetected i
      in rbind (if ready
                then rbind (announce (mac_destination_id i) w) (\<lambda>w1.
                       Inr (l\<lparr>send := True, is_current := False\<rparr>, w1))
                else Inr (l, w)) (\<lambda>(l1, w1).
           if is_first_node (mclmac w1)
           then rbind (announce (0, 0) w1) (\<lambda>w2. Inr (l1\<lparr>send := True, is_current := False\<rparr>, w2))
           else Inr (l1, w1)))"

definition active_receive ::
    "bool \<Rightarrow> u8 \<Rightarrow> active_locals \<Rightarrow> 'k world \<Rightarrow> (active_locals \<times> 'k world) result" where
  "active_receive testing cf_slot l w =
     (case mclmac_receive_cf_message testing w of (received, w1) \<Rightarrow>
       if \<not> received then Inr (l, w1)
       else
         (let pkt = cf_messages (internals w1) ! 1;
              dest = cfpacket_get_destinationid pkt;
              for_me = dest = own_id (mclmac w1) \<or> dest = (0, 0)
          in rbind (if for_me
                    then rbind (mclmac_get_frequency (mclmac w1) cf_slot) (\<lambda>channel.
                      Inr (l\<lparr>packets := packets l + 1, receive := True\<rparr>,
                           on_mclmac (\<lambda>m. mclmac_set_reception_channel
                             (mclmac_set_transmiterid m (cfpacket_get_nodeid pkt)) channel) w1))
                    else Inr (l, w1)) (\<lambda>(l1, w2).
               Inr (l1, on_mclmac (\<lambda>m. if is_first_node m then m\<lparr>is_first_node := False\<rparr> else m) w2))))"

text \<open>The expiry of the CF timer: the next contention-free slot, or the end after the last.\<close>

definition cf_slot_step :: "'k world \<Rightarrow> bool \<times> 'k world" where
  "cf_slot_step w =
     (let timer = cf_timer (frame (internals w))
      in if passed timer w = 1
         then
           (let w1 = on_mclmac mclmac_increase_cf_slot (unset_timer timer w)
            in if mclmac_get_current_cf_slot (mclmac w1) = of_nat MAX_NUMBER_FREQS
               then (True, w1) else (False, arm_cf_timer w1))
         else (False, w))"

text \<open>One round of the loop over the contention-free slots.\<close>

definition active_round ::
    "bool \<Rightarrow> u32 \<Rightarrow> active_locals \<Rightarrow> 'k world \<Rightarrow> (bool \<times> active_locals \<times> 'k world) result" where
  "active_round testing selected_freq l w =
     (let cf_slot = mclmac_get_current_cf_slot (mclmac w)
      in rbind (mclmac_get_frequency (mclmac w) cf_slot) (\<lambda>f.
           let state = (if is_current l \<and> selected_freq = f then 0 else 1 :: nat)
           in case cf_slot_step w of (ended, w1) \<Rightarrow>
             if ended then Inr (False, l, w1)
             else
               rbind (if state = 0 then active_send l w1 else active_receive testing cf_slot l w1)
                 (\<lambda>(l', w2). Inr (True, l', w2))))"

text \<open>What the node decides after the last contention-free slot.\<close>

definition active_decide ::
    "active_locals \<Rightarrow> 'k world \<Rightarrow> (PM_EXECUTION_ERRORS \<times> 'k world) result" where
  "active_decide l w =
     (if (send l \<and> receive l) \<or> packets l > 1
      then rbind (next_powermode PASSIVE w) (\<lambda>w.
        Inr (E_PM_COLLISION_DETECTED,
             if send l \<and> receive l then on_mclmac (on_mac (is_internal_collision_update (\<lambda>_. True))) w
             else w))
      else
        rbind (if send l then next_powermode TRANSMIT w else Inr w) (\<lambda>w.
        rbind (if receive l then next_powermode RECEIVE w else Inr w) (\<lambda>w.
        rbind (if \<not> send l \<and> \<not> receive l then next_powermode PASSIVE w else Inr w) (\<lambda>w.
          Inr (E_PM_EXECUTION_SUCCESS, w)))))"

definition execute_active ::
    "bool \<Rightarrow> 'k world \<Rightarrow> (PM_EXECUTION_ERRORS \<times> 'k world) result" where
  "execute_active testing w =
     (let w1 = on_mclmac mclmac_start_cf_phase w;
          m = mclmac w1;
          l = \<lparr>is_current = (mclmac_get_current_slot m = mclmac_get_selected_slot m),
               send = False, receive = False, packets = 0\<rparr>
      in rbind (run_loop (active_round testing (mclmac_get_transmit_channel m)) l (arm_cf_timer w1))
           (\<lambda>(l', w2). active_decide l' w2))"

subsection \<open>TRANSMIT\<close>

text \<open>One round of the sending loop: the slot timer is released when it expires.\<close>

definition transmit_round :: "unit \<Rightarrow> 'k world \<Rightarrow> (bool \<times> unit \<times> 'k world) result" where
  "transmit_round l w =
     (let timer = slot_timer (frame (internals w))
      in if passed timer w = 1 then Inr (False, (), unset_timer timer w)
         else rbind (mclmac_send_data_packet w) (\<lambda>w1.
           Inr (mclmac_available_data_packets (mclmac w1) \<noteq> 0, (), w1)))"

definition forget_collision :: "MAC_Internals_t \<Rightarrow> MAC_Internals_t" where
  "forget_collision i =
     i\<lparr>collisionDetected := False, mac_collisionSlot := 0, mac_collisionFrequency := 0\<rparr>"

definition execute_transmit :: "'k world \<Rightarrow> (PM_EXECUTION_ERRORS \<times> 'k world) result" where
  "execute_transmit w =
     rbind (mclmac_send_control_packet (on_mclmac
              (\<lambda>m. mclmac_create_control_packet (snd (mclmac_start_split_phase m TRANSMIT))) w)) (\<lambda>w1.
       if collisionDetected (internals w1)
       then
         (let w2 = on_mclmac (on_mac forget_collision) w1
          in if is_internal_collision (internals w2)
             then
               rbind (next_powermode FINISHP
                        (on_mclmac (on_mac (is_internal_collision_update (\<lambda>_. False))) w2)) (\<lambda>w3.
                 Inr (E_PM_COLLISION_ERROR, w3))
             else rbind (next_powermode PASSIVE w2) (\<lambda>w3. Inr (E_PM_EXECUTION_SUCCESS, w3)))
       else
         rbind (run_loop transmit_round () w1) (\<lambda>(_, w2).
         rbind (next_powermode PASSIVE w2) (\<lambda>w3. Inr (E_PM_EXECUTION_SUCCESS, w3))))"

subsection \<open>RECEIVE\<close>

text \<open>\<open>while (count <= 2)\<close>: listen for the control packet; the result is the final \<open>count\<close>.\<close>

function listen_control :: "bool \<Rightarrow> nat \<Rightarrow> 'k world \<Rightarrow> (nat \<times> 'k world) result" where
  "listen_control testing count w =
     (if count \<le> 2
      then rbind (mclmac_receive_control_packet testing w) (\<lambda>(received, w1).
        if received then Inr (count, w1) else listen_control testing (count + 1) w1)
      else Inr (count, w))"
  by pat_completeness auto
termination by (relation "measure (\<lambda>(_, count, _). 3 - count)") auto

declare listen_control.simps [simp del]

text \<open>
  Whether the sender's network time is within the tolerance: the lower bound goes through a
  32-bit \<open>int\<close>.
\<close>

definition on_time :: "u64 \<Rightarrow> u64 \<Rightarrow> bool" where
  "on_time own time =
     (let difference = ucast (own - of_nat NETWORK_TIME_EPSILON) :: u32;
          lower = (if sint difference < 0 then 0 else ucast difference) :: u64;
          upper = own + of_nat NETWORK_TIME_EPSILON
      in \<not> (time < lower \<or> time > upper))"

definition receive_round :: "nat \<Rightarrow> 'k world \<Rightarrow> (bool \<times> nat \<times> 'k world) result" where
  "receive_round received w =
     (if \<not> received < 2 * MAX_NUMBER_DATA_PACKETS then Inr (False, received, w)
      else if passed (slot_timer (frame (internals w))) w = 1 then Inr (False, received, w)
      else
        rbind (mclmac_receive_data_packet w) (\<lambda>(ret, w1).
          Inr (True, if ret then unat (number_packets_received (internals w1)) else received, w1)))"

definition execute_receive ::
    "bool \<Rightarrow> 'k world \<Rightarrow> (PM_EXECUTION_ERRORS \<times> 'k world) result" where
  "execute_receive testing w =
     rbind (listen_control testing 1 (on_mclmac (\<lambda>m. snd (mclmac_start_split_phase m RECEIVE)) w)) (\<lambda>(count, w1).
       if count \<ge> 2
       then rbind (next_powermode PASSIVE w1) (\<lambda>w2. Inr (E_PM_EXECUTION_SUCCESS, w2))
       else
         (let m = mclmac w1; pkt = ctrlpkt_recv (mac m)
          in if controlpacket_get_collision_frequency pkt = transmitChannel (mac m) \<and>
                controlpacket_get_collision_slot pkt = selectedSlot (mac m)
             then rbind (next_powermode FINISHP w1) (\<lambda>w2. Inr (E_PM_COLLISION_ERROR, w2))
             else if controlpacket_get_current_slot pkt \<noteq> mclmac_get_current_slot m \<or>
                controlpacket_get_current_frame pkt \<noteq> current_frame (frame (mac m)) \<or>
                \<not> on_time (own_networkTime m) (controlpacket_get_network_time pkt)
             then rbind (next_powermode FINISHP w1) (\<lambda>w2. Inr (E_PM_SYNCHRONIZATION_ERROR, w2))
             else
               rbind (run_loop receive_round (unat (number_packets_received (mac m))) w1) (\<lambda>(_, w2).
               rbind (next_powermode PASSIVE w2) (\<lambda>w3. Inr (E_PM_EXECUTION_SUCCESS, w3)))))"

subsection \<open>FINISHP, and the dispatch\<close>

definition finish_internals :: "MAC_Internals_t \<Rightarrow> MAC_Internals_t" where
  "finish_internals i =
     reset_packet_counters (i\<lparr>mac_destination_id := (0, 0),
       message_packets_to_send := map datapacket_clear (message_packets_to_send i),
       control_packets_to_send := map datapacket_clear (control_packets_to_send i),
       packets_received := map datapacket_clear (packets_received i)\<rparr>)"

definition execute_finishp :: "'k world \<Rightarrow> (PM_EXECUTION_ERRORS \<times> 'k world) result" where
  "execute_finishp w = Inr (E_PM_EXECUTION_SUCCESS, on_mclmac (on_mac finish_internals) w)"

definition mclmac_execute_powermode_state ::
    "'k rtos \<Rightarrow> bool \<Rightarrow> 'k world \<Rightarrow> (PM_EXECUTION_ERRORS \<times> 'k world) result" where
  "mclmac_execute_powermode_state os testing w =
     assert_that (nSlots (mclmac w) > 0)
       (if powerMode (mclmac w) = NONEP then Inr (E_PM_EXECUTION_FAILED, w)
        else
          (case powerMode (mclmac w) of
            STARTP \<Rightarrow> execute_startp w
          | PASSIVE \<Rightarrow> execute_passive os w
          | ACTIVE \<Rightarrow> execute_active testing w
          | TRANSMIT \<Rightarrow> execute_transmit w
          | RECEIVE \<Rightarrow> execute_receive testing w
          | FINISHP \<Rightarrow> execute_finishp w
          | _ \<Rightarrow> Inr (E_PM_EXECUTION_SUCCESS, w)))"

end
