(* ===== verification/Frames.thy ===== *)
theory Frames
  imports Packet_Handlers
begin

text \<open>
  What the operations of the MAC layer leave alone. \<open>core\<close> forgets the parts of the state that
  belong to the packet queues; an operation on packets keeps the core, so that every other field
  (modes, slot counters, channels, collision flags) is unchanged by it.
\<close>

definition core :: "MCLMAC_t \<Rightarrow> MCLMAC_t" where
  "core m = on_mac (\<lambda>i. i
     \<lparr>packets_to_send_message := 0, first_send_message := 0, last_send_message := 0,
      message_packets_to_send := [], packets_to_send_control := 0, first_send_control := 0,
      last_send_control := 0, control_packets_to_send := [], first_received := 0,
      last_received := 0, packets_received := [], number_packets_received := 0\<rparr>) m"

lemma core_fields:
  assumes "core m' = core m"
  shows "powerMode m' = powerMode m" "nextPowerMode m' = nextPowerMode m"
    "currentState m' = currentState m" "nextState m' = nextState m"
    "nSlots m' = nSlots m" "nChannels m' = nChannels m" "own_id m' = own_id m"
    "own_networkTime m' = own_networkTime m" "frequencies m' = frequencies m"
    "is_first_node m' = is_first_node m" "mac_queue_id m' = mac_queue_id m"
    "routing_queue_id m' = routing_queue_id m" "self_pid m' = self_pid m"
    "wakeup_frame m' = wakeup_frame m" "own_hopCount m' = own_hopCount m"
    "frame (mac m') = frame (mac m)" "cf_messages (mac m') = cf_messages (mac m)"
    "collisionDetected (mac m') = collisionDetected (mac m)"
    "is_internal_collision (mac m') = is_internal_collision (mac m)"
    "selectedSlot (mac m') = selectedSlot (mac m)"
    "transmitChannel (mac m') = transmitChannel (mac m)"
    "receiveChannel (mac m') = receiveChannel (mac m)"
    "ctrlpkt_recv (mac m') = ctrlpkt_recv (mac m)" "ctrlpkt (mac m') = ctrlpkt (mac m)"
proof -
  have m: "\<And>f. f (core m') = f (core m)" using assms by simp
  show "powerMode m' = powerMode m" "nextPowerMode m' = nextPowerMode m"
    "currentState m' = currentState m" "nextState m' = nextState m"
    "nSlots m' = nSlots m" "nChannels m' = nChannels m" "own_id m' = own_id m"
    "own_networkTime m' = own_networkTime m" "frequencies m' = frequencies m"
    "is_first_node m' = is_first_node m" "mac_queue_id m' = mac_queue_id m"
    "routing_queue_id m' = routing_queue_id m" "self_pid m' = self_pid m"
    "wakeup_frame m' = wakeup_frame m" "own_hopCount m' = own_hopCount m"
    using m [of powerMode] m [of nextPowerMode] m [of currentState] m [of nextState] m [of nSlots]
      m [of nChannels] m [of own_id] m [of own_networkTime] m [of frequencies] m [of is_first_node]
      m [of mac_queue_id] m [of routing_queue_id] m [of self_pid] m [of wakeup_frame]
      m [of own_hopCount]
    by (simp_all add: core_def on_mac_def)
  have i: "\<And>f. f (mac (core m')) = f (mac (core m))" using assms by simp
  show "frame (mac m') = frame (mac m)" "cf_messages (mac m') = cf_messages (mac m)"
    "collisionDetected (mac m') = collisionDetected (mac m)"
    "is_internal_collision (mac m') = is_internal_collision (mac m)"
    "selectedSlot (mac m') = selectedSlot (mac m)"
    "transmitChannel (mac m') = transmitChannel (mac m)"
    "receiveChannel (mac m') = receiveChannel (mac m)"
    "ctrlpkt_recv (mac m') = ctrlpkt_recv (mac m)" "ctrlpkt (mac m') = ctrlpkt (mac m)"
    using i [of frame] i [of cf_messages] i [of collisionDetected] i [of is_internal_collision]
      i [of selectedSlot] i [of transmitChannel] i [of receiveChannel] i [of ctrlpkt_recv]
      i [of ctrlpkt]
    by (simp_all add: core_def on_mac_def)
qed

text \<open>An operation that keeps the core, the timers, the clock and the script.\<close>

definition only_packets :: "'k world \<Rightarrow> 'k world \<Rightarrow> bool" where
  "only_packets w w' \<longleftrightarrow> core (mclmac w') = core (mclmac w) \<and> timeouts w' = timeouts w \<and>
     clock w' = clock w \<and> script w' = script w"

lemma only_packets_refl [simp]: "only_packets w w"
  by (simp add: only_packets_def)

lemma only_packets_trans: "only_packets w w' \<Longrightarrow> only_packets w' w'' \<Longrightarrow> only_packets w w''"
  by (simp add: only_packets_def)

lemmas only_packets_fields = core_fields [OF only_packets_def [THEN iffD1, THEN conjunct1]]

lemma only_packetsD:
  assumes "only_packets w w'"
  shows "core (mclmac w') = core (mclmac w)" "timeouts w' = timeouts w" "clock w' = clock w"
    "script w' = script w"
  using assms by (simp_all add: only_packets_def)

lemma store_message_core:
  "store_message_packet msg (mac m) = Inr i \<Longrightarrow> core (on_mac (\<lambda>_. i) m) = core m"
  by (auto simp: store_message_packet_def core_def on_mac_def Let_def rbind_eq_Inr split: if_splits)

lemma store_control_core:
  "store_control_packet msg (mac m) = Inr i \<Longrightarrow> core (on_mac (\<lambda>_. i) m) = core m"
  by (auto simp: store_control_packet_def core_def on_mac_def Let_def rbind_eq_Inr split: if_splits)

lemma store_received_core:
  "store_received bs (mac m) = Inr i \<Longrightarrow> core (on_mac (\<lambda>_. i) m) = core m"
  by (auto simp: store_received_def core_def on_mac_def Let_def rbind_eq_Inr split: if_splits)

lemma read_queue_only_packets:
  "mclmac_read_queue_element os w = Inr (r, w') \<Longrightarrow> only_packets w w'"
  by (auto simp: mclmac_read_queue_element_def only_packets_def on_mclmac_def Let_def
      assert_that_eq_Inr rbind_eq_Inr store_message_core store_control_core split: if_splits)

lemma write_queue_only_packets:
  "mclmac_write_queue_element os w = Inr (r, w') \<Longrightarrow> only_packets w w'"
  by (auto simp: mclmac_write_queue_element_def only_packets_def on_mclmac_def Let_def
      rbind_eq_Inr remove_received_def core_def on_mac_def split: if_splits)

lemma send_data_only_packets:
  "mclmac_send_data_packet w = Inr w' \<Longrightarrow> only_packets w w'"
  by (auto simp: mclmac_send_data_packet_def only_packets_def on_mclmac_def Let_def
      rbind_eq_Inr core_def on_mac_def split: if_splits)

lemma rand_bytes_frame:
  "rand_bytes n w = (bs, w') \<Longrightarrow> only_packets w w' \<and> mclmac w' = mclmac w"
  by (induction n arbitrary: w bs w')
    (auto simp: c_rand_def only_packets_def split: prod.splits)

lemma receive_native_frame:
  assumes "receive_data_packet_native w b = Inr (bs, w1)"
  shows "only_packets w w1 \<and> mclmac w1 = mclmac w"
proof -
  obtain rs w' where rs: "rand_bytes 238 w = (rs, w')" by (cases "rand_bytes 238 w")
  with assms have "w1 = w'"
    by (auto simp: receive_data_packet_native_def rbind_eq_Inr simp del: upt_rec_numeral)
  with rand_bytes_frame [OF rs] show ?thesis by simp
qed

lemma receive_data_only_packets:
  assumes "mclmac_receive_data_packet w = Inr (r, w')"
  shows "only_packets w w'"
proof -
  from assms obtain bs w1 i where native: "receive_data_packet_native w (new_array RIOT (\<lambda>_. 0) 256) = Inr (bs, w1)"
    and st: "store_received bs (internals w1) = Inr i" "w' = on_mclmac (on_mac (\<lambda>_. i)) w1"
    by (auto simp: mclmac_receive_data_packet_def rbind_eq_Inr)
  with receive_native_frame [OF native] store_received_core [OF st(1)] show ?thesis
    by (auto simp: only_packets_def on_mclmac_def)
qed

lemmas packet_ops_only_packets =
  read_queue_only_packets write_queue_only_packets send_data_only_packets receive_data_only_packets

end
