(* ===== verification/Power_Mode_Props.thy ===== *)
theory Power_Mode_Props
  imports Power_Mode Frames
begin

text \<open>
  What the power mode state machine guarantees: its transitions, the effect of every state, which
  waits end and which do not, and the invariant of the whole machine.
\<close>

section \<open>The transitions\<close>

text \<open>The edges of the machine, as the conditions of the code draw them.\<close>

fun powermode_edge :: "PowerMode_t \<Rightarrow> PowerMode_t \<Rightarrow> bool" where
  "powermode_edge s PASSIVE = (s \<notin> {PASSIVE, FINISHP})"
| "powermode_edge s ACTIVE = (s = PASSIVE)"
| "powermode_edge s TRANSMIT = (s = ACTIVE)"
| "powermode_edge s RECEIVE = (s = ACTIVE)"
| "powermode_edge s FINISHP = (s \<in> {ACTIVE, TRANSMIT, RECEIVE, NONEP, IDLEP})"
| "powermode_edge s _ = False"

text \<open>
  The power mode changes exactly along the edges of the machine: the update succeeds when the
  next state is a successor of the current one and then enters it; otherwise the state stays as it
  is, except that the next state NONEP is entered without being counted as a transition.
\<close>

theorem powermode_update_spec:
  "mclmac_update_powermode_state_machine m =
    (if powermode_edge (powerMode m) (nextPowerMode m)
     then (E_PM_TRANSITION_SUCCESS, m\<lparr>powerMode := nextPowerMode m\<rparr>)
     else if nextPowerMode m = NONEP then (E_PM_NO_TRANSITION, m\<lparr>powerMode := NONEP\<rparr>)
     else (if powerMode m = nextPowerMode m then E_PM_NO_TRANSITION
           else if nextPowerMode m \<in> {STARTP, IDLEP} then E_PM_INVALID_STATE
           else E_PM_TRANSITION_ERROR, m))"
  by (cases "nextPowerMode m"; cases "powerMode m")
    (simp_all add: mclmac_update_powermode_state_machine_def mclmac_set_powermode_state_def)

section \<open>PASSIVE\<close>

lemma passive_round_frame:
  assumes "passive_round os l w = Inr (again, l', w')"
  shows "core (mclmac w') = core (mclmac w)" and "script w' = script w"
    and "again \<longleftrightarrow> passed (slot_timer (frame (internals w))) w \<noteq> 1"
    and "timeouts w' = timeouts (if again then w else unset_timer (slot_timer (frame (internals w))) w)"
proof -
  let ?t = "slot_timer (frame (internals w))"
  let ?w1 = "if passed ?t w \<noteq> 1 then w else unset_timer ?t w"
  have "again = (passed ?t w \<noteq> 1) \<and> only_packets ?w1 w'"
    using assms
    by (auto simp: passive_round_def Let_def rbind_eq_Inr split: if_splits
        dest: read_queue_only_packets write_queue_only_packets intro: only_packets_trans)
  then show "core (mclmac w') = core (mclmac w)" "script w' = script w"
    "again \<longleftrightarrow> passed ?t w \<noteq> 1" "timeouts w' = timeouts (if again then w else unset_timer ?t w)"
    by (auto simp: only_packets_def)
qed

lemma passive_round_consumes: "consumes (passive_round os)"
  by (auto simp: consumes_def dest: passive_round_frame(2))

lemma passive_loop_core:
  assumes "run_loop (passive_round os) l w = Inr (l', w')"
  shows "core (mclmac w') = core (mclmac w)"
  by (rule run_loop_rule [OF assms, where I = "\<lambda>_ v. core (mclmac v) = core (mclmac w)"])
    (auto dest: wait_round_Inr(1) passive_round_frame(1))

lemma passive_result:
  assumes "execute_passive os w = Inr (r, w')"
  shows "r = E_PM_EXECUTION_SUCCESS \<and> nextPowerMode (mclmac w') = ACTIVE \<and>
    powerMode (mclmac w') = powerMode (mclmac w) \<and> currentState (mclmac w') = currentState (mclmac w) \<and>
    nextState (mclmac w') = nextState (mclmac w) \<and> nSlots (mclmac w') = nSlots (mclmac w) \<and>
    own_networkTime (mclmac w') = own_networkTime (mclmac w) + 1 \<and>
    (let f = frame (internals w); f' = frame (internals w')
     in (current_slot f', current_frame f') =
          (if current_slot f + 1 = slots_number f then (0, current_frame f + 1)
           else (current_slot f + 1, current_frame f)) \<and>
        slots_number f' = slots_number f \<and> slot_duration f' = slot_duration f) \<and>
    selectedSlot (internals w') = selectedSlot (internals w) \<and>
    transmitChannel (internals w') = transmitChannel (internals w)"
proof -
  let ?w0 = "on_mclmac (\<lambda>m. mclmac_set_radio_sleep (mclmac_set_current_cf_slot m 0)) w"
  from assms obtain l w1 where loop: "run_loop (passive_round os) () ?w0 = Inr (l, w1)"
    and w': "next_powermode ACTIVE (arm_slot_timer (on_mclmac advance_slot w1)) = Inr w'"
    and r: "r = E_PM_EXECUTION_SUCCESS"
    by (auto simp: execute_passive_def rbind_eq_Inr)
  note same = core_fields [OF passive_loop_core [OF loop]]
  obtain i w2 where arm: "set_timer (slot_duration (frame (internals (on_mclmac advance_slot w1))))
      (on_mclmac advance_slot w1) = (i, w2)"
    by (cases "set_timer (slot_duration (frame (internals (on_mclmac advance_slot w1))))
      (on_mclmac advance_slot w1)")
  have m': "mclmac w' = (on_frame (slot_timer_update (\<lambda>_. i)) (advance_slot (mclmac w1)))
      \<lparr>nextPowerMode := ACTIVE\<rparr>"
    using w' set_timer_frame [OF arm]
    by (auto simp: next_powermode_def try_mclmac_def mclmac_set_next_powermode_state_def
        arm_slot_timer_def arm [simplified])
  show ?thesis
    using r same by (auto simp: m' advance_slot_def mac_access Let_def)
qed

text \<open>
  C36. The PASSIVE state lasts exactly one slot. When it ends, the node is in the next slot, or in
  the first slot of the next frame after the last slot; the network time has advanced by one, the
  next state is ACTIVE, and whatever packets were exchanged with the upper layers, the number of
  slots, the channels and the selected slot are what they were.
\<close>

theorem passive_advances_one_slot:
  assumes "execute_passive os w = Inr (r, w')"
  shows "r = E_PM_EXECUTION_SUCCESS \<and> nextPowerMode (mclmac w') = ACTIVE \<and>
    powerMode (mclmac w') = powerMode (mclmac w) \<and> currentState (mclmac w') = currentState (mclmac w) \<and>
    nextState (mclmac w') = nextState (mclmac w) \<and> nSlots (mclmac w') = nSlots (mclmac w) \<and>
    own_networkTime (mclmac w') = own_networkTime (mclmac w) + 1 \<and>
    (let f = frame (internals w); f' = frame (internals w')
     in (current_slot f', current_frame f') =
          (if current_slot f + 1 = slots_number f then (0, current_frame f + 1)
           else (current_slot f + 1, current_frame f)) \<and>
        slots_number f' = slots_number f \<and> slot_duration f' = slot_duration f) \<and>
    selectedSlot (internals w') = selectedSlot (internals w) \<and>
    transmitChannel (internals w') = transmitChannel (internals w)"
  using assms by (rule passive_result)

text \<open>A sleeping node whose slot timer is not running waits for ever.\<close>

lemma passive_waits_for_ever:
  assumes "wf_timeouts (timeouts w)" and "passed (slot_timer (frame (internals w))) w = 2"
  shows "execute_passive os w \<noteq> Inr x"
proof
  assume x: "execute_passive os w = Inr x"
  let ?w0 = "on_mclmac (\<lambda>m. mclmac_set_radio_sleep (mclmac_set_current_cf_slot m 0)) w"
  from x obtain l w1 where "run_loop (passive_round os) () ?w0 = Inr (l, w1)"
    by (auto simp: execute_passive_def rbind_eq_Inr)
  then show False
  proof (rule run_loop_rule [where I = "\<lambda>_ v. wf_timeouts (timeouts v) \<and>
      passed (slot_timer (frame (internals v))) v = 2" and P = "\<lambda>_ _. False"])
    show "wf_timeouts (timeouts ?w0) \<and> passed (slot_timer (frame (internals ?w0))) ?w0 = 2"
      using assms by (simp add: mac_access)
    show "wf_timeouts (timeouts v1) \<and> passed (slot_timer (frame (internals v1))) v1 = 2"
      if "wf_timeouts (timeouts v) \<and> passed (slot_timer (frame (internals v))) v = 2"
        and "wait_round v = Inr v1" for v v1 :: "'a world"
      using that wait_round_Inr [OF that(2)] wait_round_released [OF that(2)] by simp
    show "if again then wf_timeouts (timeouts v2) \<and> passed (slot_timer (frame (internals v2))) v2 = 2 else False"
      if "wf_timeouts (timeouts v) \<and> passed (slot_timer (frame (internals v))) v = 2"
        and "passive_round os l v = Inr (again, l2, v2)" for l v again l2 v2
      using that(1) passive_round_frame [OF that(2)]
        core_fields(16) [OF passive_round_frame(1) [OF that(2)]] by simp
  qed
qed

section \<open>TRANSMIT\<close>

lemma transmit_round_frame:
  assumes "transmit_round l w = Inr (again, l', w')"
  shows "core (mclmac w') = core (mclmac w)" and "script w' = script w"
    and "wf_timeouts (timeouts w) \<Longrightarrow> wf_timeouts (timeouts w')"
    and "wf_timeouts (timeouts w) \<Longrightarrow> \<not> again \<Longrightarrow> mclmac_available_data_packets (mclmac w') = 0 \<or>
      passed (slot_timer (frame (internals w'))) w' = 2"
proof -
  let ?t = "slot_timer (frame (internals w))"
  consider (expired) "\<not> again" "w' = unset_timer ?t w"
    | (sent) "mclmac_send_data_packet w = Inr w'"
        "again = (mclmac_available_data_packets (mclmac w') \<noteq> 0)"
    using assms by (auto simp: transmit_round_def Let_def rbind_eq_Inr split: if_splits)
  note cases = this
  have "core (mclmac w') = core (mclmac w) \<and> script w' = script w \<and>
      (wf_timeouts (timeouts w) \<longrightarrow> wf_timeouts (timeouts w') \<and>
        (\<not> again \<longrightarrow> mclmac_available_data_packets (mclmac w') = 0 \<or>
          passed (slot_timer (frame (internals w'))) w' = 2))"
    using cases
  proof cases
    case expired
    then show ?thesis by (simp add: wf_unset_timer unset_timer_released)
  next
    case sent
    then show ?thesis using only_packetsD [OF send_data_only_packets [OF sent(1)]] by simp
  qed
  then show "core (mclmac w') = core (mclmac w)" "script w' = script w"
    "wf_timeouts (timeouts w) \<Longrightarrow> wf_timeouts (timeouts w')"
    "wf_timeouts (timeouts w) \<Longrightarrow> \<not> again \<Longrightarrow> mclmac_available_data_packets (mclmac w') = 0 \<or>
      passed (slot_timer (frame (internals w'))) w' = 2"
    by blast+
qed

text \<open>
  C38. A transmission cut off by the end of the slot stops the node. When TRANSMIT ends because
  the slot timer expired, with packets still to send, it has released the timer and made PASSIVE
  the next state; PASSIVE waits for that timer, which never expires again: whatever the
  environment does, PASSIVE does not end.
\<close>

theorem transmit_timeout_then_stuck:
  assumes "wf_timeouts (timeouts w)" and "execute_transmit w = Inr (r, w')"
    and "\<not> collisionDetected (internals w)"
    and "mclmac_available_data_packets (mclmac w') \<noteq> 0"
  shows "r = E_PM_EXECUTION_SUCCESS \<and> nextPowerMode (mclmac w') = PASSIVE \<and>
    passed (slot_timer (frame (internals w'))) w' = 2 \<and>
    execute_passive os (w'\<lparr>mclmac := snd (mclmac_update_powermode_state_machine (mclmac w')),
      script := any\<rparr>) \<noteq> Inr x"
proof -
  from assms(2) obtain w1 where snd_ctrl: "mclmac_send_control_packet (on_mclmac
      (\<lambda>m. mclmac_create_control_packet (snd (mclmac_start_split_phase m TRANSMIT))) w) = Inr w1"
    by (auto simp: execute_transmit_def rbind_eq_Inr)
  then have w1: "timeouts w1 = timeouts w" "\<not> collisionDetected (internals w1)"
    using assms(3)
    by (auto simp: mclmac_send_control_packet_def c_rand_def rbind_eq_Inr mac_access
        mclmac_create_control_packet_def mclmac_start_split_phase_def)
  then obtain l w2 where loop: "run_loop transmit_round () w1 = Inr (l, w2)"
    and w': "w' = on_mclmac (nextPowerMode_update (\<lambda>_. PASSIVE)) w2" "r = E_PM_EXECUTION_SUCCESS"
    using assms(2) snd_ctrl
    by (auto simp: execute_transmit_def rbind_eq_Inr next_powermode_def try_mclmac_def
        mclmac_set_next_powermode_state_def on_mclmac_def)
  have "wf_timeouts (timeouts w2) \<and> (mclmac_available_data_packets (mclmac w2) = 0 \<or>
      passed (slot_timer (frame (internals w2))) w2 = 2)"
    by (rule run_loop_rule [OF loop, where I = "\<lambda>_ v. wf_timeouts (timeouts v)"])
      (use assms(1) w1 in \<open>auto dest: wait_round_Inr(5) transmit_round_frame(3,4)\<close>)
  then have p: "wf_timeouts (timeouts w')" "passed (slot_timer (frame (internals w'))) w' = 2"
    using assms(4) w'(1) by (auto simp: mclmac_available_data_packets_def)
  let ?v = "w'\<lparr>mclmac := snd (mclmac_update_powermode_state_machine (mclmac w')), script := any\<rparr>"
  have "mac (snd (mclmac_update_powermode_state_machine m)) = mac m" for m
    by (auto simp: mclmac_update_powermode_state_machine_def mclmac_set_powermode_state_def
        split: PowerMode_t.splits)
  then have "wf_timeouts (timeouts ?v)" "passed (slot_timer (frame (internals ?v))) ?v = 2"
    using p by simp_all
  from passive_waits_for_ever [OF this] p w' show ?thesis by simp
qed

section \<open>The tolerance on the network time\<close>

lemma on_time_tolerance:
  assumes "uint own < 2 ^ 31 + 2000"
  shows "on_time own t \<longleftrightarrow> \<bar>uint t - uint own\<bar> \<le> 2000"
proof -
  have up: "uint (own + 2000) = uint own + 2000"
    using assms by (simp add: uint_word_ariths take_bit_int_eq_self)
  show ?thesis
  proof (cases "2000 \<le> uint own")
    case True
    then have d: "uint (own - 2000) = uint own - 2000"
      using assms by (simp add: uint_word_ariths take_bit_int_eq_self)
    have e: "uint (ucast (own - 2000) :: u32) = uint own - 2000"
      using assms d by (subst uint_ucast_small) auto
    have "sint (ucast (own - 2000) :: u32) = uint own - 2000"
      using assms e by (simp add: sint_u32)
    moreover have "uint (ucast (ucast (own - 2000) :: u32) :: u64) = uint own - 2000"
      using e by (simp add: unsigned_ucast_eq unsigned_take_bit_eq)
    ultimately show ?thesis using True up
      by (auto simp: on_time_def Let_def word_less_def)
  next
    case False
    have "(uint own - 2000) mod 2 ^ 64 = uint own - 2000 + 2 ^ 64"
      using False by (subst mod_add_self2 [symmetric], subst mod_pos_pos_trivial) auto
    then have "uint (own - 2000) = uint own - 2000 + 2 ^ 64"
      by (simp add: uint_word_ariths take_bit_eq_mod)
    moreover have "(uint own - 2000 + 2 ^ 64) mod 2 ^ 32 = (uint own - 2000 + 2 ^ 32 + (2 ^ 32 - 1) * 2 ^ 32) mod 2 ^ 32"
      by simp
    moreover have "\<dots> = uint own - 2000 + 2 ^ 32"
      using False by (simp only: mod_mult_self1) (intro mod_pos_pos_trivial; simp)
    ultimately have "uint (ucast (own - 2000) :: u32) = uint own - 2000 + 2 ^ 32"
      by (simp add: unsigned_ucast_eq take_bit_eq_mod)
    moreover obtain n where "uint own = int n" using nonneg_int_cases [OF unsigned_greater_eq] .
    ultimately have "sint (ucast (own - 2000) :: u32) < 0"
      using False by (simp add: sint_u32)
    moreover obtain k where "uint t = int k" using nonneg_int_cases [OF unsigned_greater_eq] .
    ultimately show ?thesis using False up
      by (auto simp: on_time_def Let_def word_less_def)
  qed
qed

lemma on_time_late:
  assumes "2 ^ 31 + 2000 \<le> uint own" and "uint own < 2 ^ 32 + 2000"
  shows "on_time own t \<longleftrightarrow> uint t \<le> uint own + 2000"
proof -
  have up: "uint (own + 2000) = uint own + 2000"
    using assms by (simp add: uint_word_ariths take_bit_int_eq_self)
  have d: "uint (own - 2000) = uint own - 2000"
    using assms by (simp add: uint_word_ariths take_bit_int_eq_self)
  have e: "uint (ucast (own - 2000) :: u32) = uint own - 2000"
    using assms d by (subst uint_ucast_small) auto
  then have "sint (ucast (own - 2000) :: u32) < 0"
    using assms by (simp add: sint_u32)
  then show ?thesis using up
    by (auto simp: on_time_def Let_def word_less_def)
qed

text \<open>
  The check of the sender's network time. While the node's own time is below
  \<open>2 ^ 31 + 2000\<close>, a sender is on time exactly when its time differs by at most 2000. From then on
  the lower bound, computed in an \<open>int\<close>, is 0: for the next \<open>2 ^ 31\<close> units every sender that is
  late, by however much, counts as on time.
\<close>

theorem on_time_window:
  "(uint own < 2 ^ 31 + 2000 \<longrightarrow> (on_time own t \<longleftrightarrow> \<bar>uint t - uint own\<bar> \<le> 2000)) \<and>
   (2 ^ 31 + 2000 \<le> uint own \<and> uint own < 2 ^ 32 + 2000 \<longrightarrow>
     (on_time own t \<longleftrightarrow> uint t \<le> uint own + 2000))"
  using on_time_tolerance on_time_late by blast

lemma on_time_window_witness:
  "on_time 1000 0 \<and> \<not> on_time 5000 2999 \<and> on_time 3000000000 0"
  using on_time_window [of 1000 0] on_time_window [of 5000 2999] on_time_window [of 3000000000 0]
  by simp

end
