(* ===== verification/Power_Mode_Progress.thy ===== *)
theory Power_Mode_Progress
  imports Power_Mode_Props
begin

text \<open>
  Progress: what the environment must do for the PASSIVE state to end, and concrete runs of the
  power mode machine.
\<close>

section \<open>Rounds in which only time passes\<close>

definition quiet :: "'k event list \<Rightarrow> bool" where
  "quiet = list_all (\<lambda>e. case e of Other_threads _ \<Rightarrow> False | _ \<Rightarrow> True)"

lemma quiet_kernel: "quiet es \<Longrightarrow> kernel (fold env_event es w) = kernel w"
  by (induction es arbitrary: w) (auto simp: quiet_def split: event.splits)

lemma env_event_script: "env_event e (w\<lparr>script := s\<rparr>) = (env_event e w)\<lparr>script := s\<rparr>"
  by (cases e) simp_all

lemma env_events_script:
  "fold env_event es (w\<lparr>script := s\<rparr>) = (fold env_event es w)\<lparr>script := s\<rparr>"
  by (induction es arbitrary: w) (simp_all add: env_event_script)

lemma env_event_mclmac: "env_event e (on_mclmac f w) = on_mclmac f (env_event e w)"
  by (cases e) (simp_all add: on_mclmac_def)

lemma env_events_mclmac: "fold env_event es (on_mclmac f w) = on_mclmac f (fold env_event es w)"
  by (induction es arbitrary: w) (simp_all add: env_event_mclmac)

section \<open>PASSIVE ends\<close>

text \<open>A sleeping node without packets does nothing but look at its timer.\<close>

lemma idle_passive_round:
  assumes "elements_on_queue os (kernel w) (mac_queue_id (mclmac w)) = Inr 0"
    and "number_packets_received (internals w) = 0"
  shows "passive_round os l w =
    (if passed (slot_timer (frame (internals w))) w = 1
     then Inr (False, (), unset_timer (slot_timer (frame (internals w))) w) else Inr (True, (), w))"
  using assms by (simp add: passive_round_def Let_def)

lemma idle_passive_loop:
  assumes "elements_on_queue os (kernel w) (mac_queue_id (mclmac w)) = Inr 0"
    and "number_packets_received (internals w) = 0"
    and "script w = rounds @ rest" and "rounds \<noteq> []" and "list_all quiet rounds"
    and "passed (slot_timer (frame (internals w))) (fold env_event (concat rounds) w) = 1"
  shows "\<exists>w'. run_loop (passive_round os) () w = Inr ((), w')"
  using assms
proof (induction rounds arbitrary: w)
  case (Cons es rounds)
  let ?w = "(fold env_event es w)\<lparr>script := rounds @ rest\<rparr>"
  have wait: "wait_round w = Inr ?w"
    using Cons.prems(3) by (simp add: wait_round_def env_events_script)
  have idle: "elements_on_queue os (kernel ?w) (mac_queue_id (mclmac ?w)) = Inr 0"
    "number_packets_received (internals ?w) = 0"
    using Cons.prems(1,2,5) by (simp_all add: quiet_kernel)
  show ?case
  proof (cases "passed (slot_timer (frame (internals ?w))) ?w = 1")
    case True
    then show ?thesis
      by (simp add: run_loop_unfold [OF passive_round_consumes] wait idle_passive_round [OF idle]
          del: select_convs)
  next
    case False
    then have "rounds \<noteq> []" using Cons.prems(6) by (auto simp: fold_append)
    with Cons.IH [OF idle] Cons.prems(5,6) have "\<exists>w'. run_loop (passive_round os) () ?w = Inr ((), w')"
      by (simp add: env_events_script)
    with False show ?thesis
      by (simp add: run_loop_unfold [OF passive_round_consumes, of os "()" w] wait idle_passive_round [OF idle])
  qed
qed simp

lemma idle_passive_ends:
  assumes "elements_on_queue os (kernel w) (mac_queue_id (mclmac w)) = Inr 0"
    and "number_packets_received (internals w) = 0"
    and "script w = rounds @ rest" and "rounds \<noteq> []" and "list_all quiet rounds"
    and "passed (slot_timer (frame (internals w))) (fold env_event (concat rounds) w) = 1"
  shows "\<exists>w'. execute_passive os w = Inr (E_PM_EXECUTION_SUCCESS, w')"
proof -
  define u where "u = on_mclmac (\<lambda>m. mclmac_set_radio_sleep (mclmac_set_current_cf_slot m 0)) w"
  have u: "timeouts (fold env_event es u) = timeouts (fold env_event es w)"
    "kernel u = kernel w" "mac_queue_id (mclmac u) = mac_queue_id (mclmac w)" "script u = script w"
    "number_packets_received (internals u) = number_packets_received (internals w)"
    "slot_timer (frame (internals u)) = slot_timer (frame (internals w))" for es
    by (simp_all add: u_def env_events_mclmac mac_access)
  obtain w1 where "run_loop (passive_round os) () u = Inr ((), w1)"
    using idle_passive_loop [of os u rounds rest] assms by (auto simp: u)
  then show ?thesis
    by (simp add: execute_passive_def next_powermode_def try_mclmac_def
        mclmac_set_next_powermode_state_def u_def)
qed

text \<open>
  PASSIVE ends when the slot does. If no packet waits in the queue of the MAC thread or has
  been received, and the environment lets time pass and delivers timer interrupts until the slot
  timer has expired, then the PASSIVE state ends successfully, however many rounds this takes.
\<close>

theorem passive_ends:
  assumes "elements_on_queue os (kernel w) (mac_queue_id (mclmac w)) = Inr 0"
    and "number_packets_received (internals w) = 0"
    and "script w = rounds @ rest" and "rounds \<noteq> []" and "list_all quiet rounds"
    and "passed (slot_timer (frame (internals w))) (fold env_event (concat rounds) w) = 1"
  shows "\<exists>w'. execute_passive os w = Inr (E_PM_EXECUTION_SUCCESS, w')"
  using assms by (rule idle_passive_ends)

text \<open>A node whose slot has just ended.\<close>

definition napping :: "(pid \<times> (pid \<Rightarrow> msg_t list)) world" where
  "napping = on_mclmac (on_frame (\<lambda>f. f\<lparr>slot_timer := 3, slots_number := 16\<rparr>))
     (sample_world\<lparr>timeouts := static_timeouts\<lparr>timeout_state := (replicate 20 0)[3 := 7]\<rparr>,
        script := [[Elapse 30000], [Ztimer_interrupt]]\<rparr>)"

lemma napping_passed: "passed (slot_timer (frame (internals napping))) napping = 1"
  by (simp add: napping_def timeout_passed_def mac_access sample_world_def)

lemma napping_idle:
  "elements_on_queue inbox_rtos (kernel napping) (mac_queue_id (mclmac napping)) = Inr 0"
  "number_packets_received (internals napping) = 0"
  by (simp_all add: napping_def elements_on_queue_def sample_world_def inbox_rtos_def mac_access
      MAC_internals_init_def zero_mac_internals_def)

lemma napping_passive:
  "\<exists>w'. execute_passive inbox_rtos napping = Inr (E_PM_EXECUTION_SUCCESS, w')"
proof (rule idle_passive_ends [of inbox_rtos napping "[[Elapse 30000]]" "[[Ztimer_interrupt]]"])
  show "elements_on_queue inbox_rtos (kernel napping) (mac_queue_id (mclmac napping)) = Inr 0"
    "number_packets_received (internals napping) = 0"
    by (rule napping_idle)+
  show "passed (slot_timer (frame (internals napping))) (fold env_event (concat [[Elapse 30000]]) napping) = 1"
    using napping_passed by simp
qed (simp_all add: napping_def quiet_def)

lemma passive_ends_witness:
  "\<exists>w'. execute_passive inbox_rtos napping = Inr (E_PM_EXECUTION_SUCCESS, w')"
proof (rule passive_ends [of inbox_rtos napping "[[Elapse 30000]]" "[[Ztimer_interrupt]]"])
  show "elements_on_queue inbox_rtos (kernel napping) (mac_queue_id (mclmac napping)) = Inr 0"
    "number_packets_received (internals napping) = 0"
    by (rule napping_idle)+
  show "passed (slot_timer (frame (internals napping))) (fold env_event (concat [[Elapse 30000]]) napping) = 1"
    using napping_passed by simp
qed (simp_all add: napping_def quiet_def)

lemma passive_advances_one_slot_witness:
  "\<exists>w'. execute_passive inbox_rtos napping = Inr (E_PM_EXECUTION_SUCCESS, w') \<and>
     current_slot (frame (internals w')) = 1 \<and> nextPowerMode (mclmac w') = ACTIVE"
proof -
  obtain w' where run: "execute_passive inbox_rtos napping = Inr (E_PM_EXECUTION_SUCCESS, w')"
    using napping_passive by blast
  from passive_advances_one_slot [OF this]
  have "current_slot (frame (internals w')) = 1 \<and> nextPowerMode (mclmac w') = ACTIVE"
    by (simp add: Let_def napping_def sample_world_def mac_access MAC_internals_init_def
        zero_mac_internals_def zero_frame_def)
  with run show ?thesis by blast
qed

text \<open>The same node in the TRANSMIT state with one packet to send.\<close>

definition transmitting :: "(pid \<times> (pid \<Rightarrow> msg_t list)) world" where
  "transmitting = on_mclmac (\<lambda>m. on_mac (\<lambda>i. i\<lparr>packets_to_send_control := 1\<rparr>) (m\<lparr>powerMode := TRANSMIT\<rparr>))
     (napping\<lparr>script := [[]]\<rparr>)"

lemma transmit_returns:
  assumes "\<not> collisionDetected (internals w)" and "script w = [] # rest"
    and "passed (slot_timer (frame (internals w))) w = 1"
  shows "\<exists>w'. execute_transmit w = Inr (E_PM_EXECUTION_SUCCESS, w') \<and>
    mclmac_available_data_packets (mclmac w') = mclmac_available_data_packets (mclmac w)"
  using assms
  by (simp add: execute_transmit_def mclmac_send_control_packet_def control_encode c_rand_def
      mclmac_create_control_packet_def mclmac_start_split_phase_def run_loop_def wait_round_def
      transmit_round_def Let_def next_powermode_def try_mclmac_def
      mclmac_set_next_powermode_state_def mac_access mclmac_available_data_packets_def
      on_mclmac_def unset_timer_def)

lemma transmit_timeout_then_stuck_witness:
  "\<exists>w'. execute_transmit transmitting = Inr (E_PM_EXECUTION_SUCCESS, w') \<and>
     (\<forall>x. execute_passive inbox_rtos (w'\<lparr>mclmac := snd (mclmac_update_powermode_state_machine (mclmac w')),
       script := replicate 1000 [Elapse 1000, Ztimer_interrupt]\<rparr>) \<noteq> Inr x)"
proof -
  have start: "\<not> collisionDetected (internals transmitting)" "script transmitting = [] # []"
    "mclmac_available_data_packets (mclmac transmitting) \<noteq> 0"
    "passed (slot_timer (frame (internals transmitting))) transmitting = 1"
    by (simp_all add: transmitting_def napping_def sample_world_def mac_access timeout_passed_def
      MAC_internals_init_def zero_mac_internals_def mclmac_available_data_packets_def)
  have "timeouts transmitting = static_timeouts\<lparr>timeout_state := (replicate 20 0)[3 := 7]\<rparr>"
    by (simp add: transmitting_def napping_def)
  then have wf: "wf_timeouts (timeouts transmitting)"
    by (auto simp: wf_timeouts_def static_timeouts_def nth_list_update pending_def)
  obtain w' where run: "execute_transmit transmitting = Inr (E_PM_EXECUTION_SUCCESS, w')"
    "mclmac_available_data_packets (mclmac w') \<noteq> 0"
    using transmit_returns [OF start(1,2,4)] start(3) by auto
  with transmit_timeout_then_stuck [OF wf run(1) start(1) run(2)] show ?thesis by blast
qed

end
