(* ===== verification/Power_Mode_Outcomes.thy ===== *)
theory Power_Mode_Outcomes
  imports Power_Mode_Props
begin

text \<open>
  What every power mode can end with. \<open>station\<close> is the part of the state that no step of the
  ACTIVE, TRANSMIT and RECEIVE states touches: the two state machines, the position in the frame,
  the node's slot and channel. \<open>cf_phase\<close> is the part that the CF packets leave alone.
\<close>

definition station :: "MCLMAC_t \<Rightarrow> PowerMode_t \<times> state_t \<times> state_t \<times> u8 \<times> u32 \<times> u8 \<times> u32 \<times> u32 list \<times> u64 \<times> u8" where
  "station m = (powerMode m, currentState m, nextState m, current_slot (frame (mac m)),
     current_frame (frame (mac m)), selectedSlot (mac m), transmitChannel (mac m), frequencies m,
     own_networkTime m, nSlots m)"

definition cf_phase :: "MCLMAC_t \<Rightarrow> u8 \<times> u8 \<times> bool \<times> u8" where
  "cf_phase m = (packets_to_send_message (mac m), packets_to_send_control (mac m),
     collisionDetected (mac m), current_cf_slot (frame (mac m)))"

lemma station_core: "core m' = core m \<Longrightarrow> station m' = station m"
  using core_fields [of m' m] by (simp add: station_def)

lemma set_next_powermode [simp]:
  "s \<noteq> STARTP \<Longrightarrow> next_powermode s w = Inr (on_mclmac (nextPowerMode_update (\<lambda>_. s)) w)"
  by (simp add: next_powermode_def try_mclmac_def mclmac_set_next_powermode_state_def on_mclmac_def)

lemma on_mac_fields:
  "mac (on_mac f m) = f (mac m)" "nextPowerMode (on_mac f m) = nextPowerMode m"
  "powerMode (on_mac f m) = powerMode m"
  by (simp_all add: on_mac_def)

section \<open>ACTIVE\<close>

lemma announce_frame:
  assumes "announce dest w = Inr w'"
  shows "station (mclmac w') = station (mclmac w)" and "cf_phase (mclmac w') = cf_phase (mclmac w)"
    and "is_first_node (mclmac w') = is_first_node (mclmac w)"
  using assms
  by (auto simp: announce_def mclmac_send_cf_message_def Let_def cf_encode c_rand_def ztimer_sleep_def
      rbind_eq_Inr station_def cf_phase_def mac_access dest!: wait_round_Inr(1) simp del: wait_round_def)

lemma test_counters_frame [simp]:
  "station (m\<lparr>trues := n\<rparr>) = station m" "station (m\<lparr>trues5 := n\<rparr>) = station m"
  "cf_phase (m\<lparr>trues := n\<rparr>) = cf_phase m" "cf_phase (m\<lparr>trues5 := n\<rparr>) = cf_phase m"
  "station (m\<lparr>is_first_node := b\<rparr>) = station m" "cf_phase (m\<lparr>is_first_node := b\<rparr>) = cf_phase m"
  by (simp_all add: station_def cf_phase_def)

lemma random_cf_frame [simp]:
  "station (mclmac (random_cf_packet w)) = station (mclmac w)"
  "cf_phase (mclmac (random_cf_packet w)) = cf_phase (mclmac w)"
  "is_first_node (mclmac (random_cf_packet w)) = is_first_node (mclmac w)"
  by (simp_all add: random_cf_packet_def c_rand_def station_def cf_phase_def mac_access)

lemma set_cf_received_frame [simp]:
  "station (mclmac (set_cf_received b w)) = station (mclmac w)"
  "cf_phase (mclmac (set_cf_received b w)) = cf_phase (mclmac w)"
  "is_first_node (mclmac (set_cf_received b w)) = is_first_node (mclmac w)"
  by (simp_all add: set_cf_received_def station_def cf_phase_def mac_access)

lemma receive_cf_frame:
  assumes "mclmac_receive_cf_message testing w = (b, w')"
  shows "station (mclmac w') = station (mclmac w)" "cf_phase (mclmac w') = cf_phase (mclmac w)"
    "is_first_node (mclmac w') = is_first_node (mclmac w)"
  using assms
  by (auto simp: mclmac_receive_cf_message_def receive_cf_message_native_def Let_def c_rand_def
      split: if_splits)

lemma cf_addresses_frame [simp]:
  "station (mclmac_set_transmiterid m t) = station m" "station (mclmac_set_reception_channel m c) = station m"
  "cf_phase (mclmac_set_transmiterid m t) = cf_phase m" "cf_phase (mclmac_set_reception_channel m c) = cf_phase m"
  by (simp_all add: station_def cf_phase_def mac_access)

lemma active_receive_frame:
  assumes "active_receive testing c l w = Inr (l', w')"
  shows "station (mclmac w') = station (mclmac w)" and "cf_phase (mclmac w') = cf_phase (mclmac w)"
    and "send l' = send l" and "is_current l' = is_current l"
    and "is_first_node (mclmac w') \<Longrightarrow> is_first_node (mclmac w)"
proof -
  obtain b w1 where rcv: "mclmac_receive_cf_message testing w = (b, w1)"
    by (cases "mclmac_receive_cf_message testing w")
  note fr = receive_cf_frame [OF rcv]
  from assms rcv fr show "station (mclmac w') = station (mclmac w)" "cf_phase (mclmac w') = cf_phase (mclmac w)"
    "send l' = send l" "is_current l' = is_current l" "is_first_node (mclmac w') \<Longrightarrow> is_first_node (mclmac w)"
    by (auto simp: active_receive_def Let_def rbind_eq_Inr split: if_splits)
qed

lemma active_send_frame:
  assumes "active_send l w = Inr (l', w')"
  shows "station (mclmac w') = station (mclmac w)" and "cf_phase (mclmac w') = cf_phase (mclmac w)"
    and "is_first_node (mclmac w') = is_first_node (mclmac w)"
    and "is_current l' \<Longrightarrow> is_current l"
    and "send l' \<longleftrightarrow> send l \<or> is_first_node (mclmac w) \<or> packets_to_send_message (internals w) > 0 \<or>
      packets_to_send_control (internals w) > 0 \<or> collisionDetected (internals w)"
proof -
  let ?ready = "packets_to_send_message (internals w) > 0 \<or> packets_to_send_control (internals w) > 0 \<or>
    collisionDetected (internals w)"
  from assms obtain l1 w1 where
    first: "(if ?ready then rbind (announce (mac_destination_id (internals w)) w) (\<lambda>w1.
        Inr (l\<lparr>send := True, is_current := False\<rparr>, w1)) else Inr (l, w)) = Inr (l1, w1)"
    and second: "(if is_first_node (mclmac w1)
      then rbind (announce (0, 0) w1) (\<lambda>w2. Inr (l1\<lparr>send := True, is_current := False\<rparr>, w2))
      else Inr (l1, w1)) = Inr (l', w')"
    by (auto simp: active_send_def Let_def rbind_eq_Inr)
  have w1: "station (mclmac w1) = station (mclmac w) \<and> cf_phase (mclmac w1) = cf_phase (mclmac w) \<and>
      is_first_node (mclmac w1) = is_first_node (mclmac w) \<and> (is_current l1 \<longrightarrow> is_current l) \<and>
      (send l1 \<longleftrightarrow> send l \<or> ?ready)"
  proof (cases ?ready)
    case True
    from first have "announce (mac_destination_id (internals w)) w = Inr w1"
      and l1: "l1 = l\<lparr>send := True, is_current := False\<rparr>"
      unfolding if_P [OF True] by (auto simp: rbind_eq_Inr)
    from announce_frame [OF this(1)] l1 True show ?thesis by simp
  next
    case False
    with first show ?thesis by simp
  qed
  have "station (mclmac w') = station (mclmac w1) \<and> cf_phase (mclmac w') = cf_phase (mclmac w1) \<and>
    is_first_node (mclmac w') = is_first_node (mclmac w1) \<and> (is_current l' \<longrightarrow> is_current l1) \<and>
    (send l' \<longleftrightarrow> send l1 \<or> is_first_node (mclmac w1))"
  proof (cases "is_first_node (mclmac w1)")
    case True
    from second have "announce (0, 0) w1 = Inr w'" and l': "l' = l1\<lparr>send := True, is_current := False\<rparr>"
      unfolding if_P [OF True] by (auto simp: rbind_eq_Inr)
    from announce_frame [OF this(1)] l' True show ?thesis by simp
  next
    case False
    with second show ?thesis by simp
  qed
  with w1 show "station (mclmac w') = station (mclmac w)" "cf_phase (mclmac w') = cf_phase (mclmac w)"
    "is_first_node (mclmac w') = is_first_node (mclmac w)" "is_current l' \<Longrightarrow> is_current l"
    "send l' \<longleftrightarrow> send l \<or> is_first_node (mclmac w) \<or> packets_to_send_message (internals w) > 0 \<or>
      packets_to_send_control (internals w) > 0 \<or> collisionDetected (internals w)"
    by auto
qed

lemma announce_fault: "announce dest w = Inl e \<Longrightarrow> e = Still_running"
  by (auto simp: announce_def mclmac_send_cf_message_def Let_def cf_encode c_rand_def ztimer_sleep_def
      wait_round_def split: list.splits)

lemma active_send_fault: "active_send l w = Inl e \<Longrightarrow> e = Still_running"
  by (auto simp: active_send_def Let_def rbind_def dest: announce_fault split: if_splits sum.splits)

lemma active_receive_fault:
  "unat c < MAX_NUMBER_FREQS \<Longrightarrow> active_receive testing c l w \<noteq> Inl e"
  by (auto simp: active_receive_def Let_def mclmac_get_frequency_def split: prod.splits if_splits)

lemma cf_slot_step_frame:
  assumes "cf_slot_step w = (ended, w')"
  shows "station (mclmac w') = station (mclmac w)" "is_first_node (mclmac w') = is_first_node (mclmac w)"
    "packets_to_send_message (internals w') = packets_to_send_message (internals w)"
    "packets_to_send_control (internals w') = packets_to_send_control (internals w)"
    "collisionDetected (internals w') = collisionDetected (internals w)"
    "ended \<Longrightarrow> current_cf_slot (frame (internals w')) = 8"
    "\<not> ended \<Longrightarrow> unat (current_cf_slot (frame (internals w))) < 8 \<Longrightarrow>
      unat (current_cf_slot (frame (internals w'))) < 8"
proof -
  have inc: "unat (c + 1) < 8" if "unat c < 8" "c + 1 \<noteq> 8" for c :: u8
  proof -
    have "unat (c + 1) \<noteq> unat (8 :: u8)" using that(2) by (simp only: word_unat_eq_iff not_False_eq_True)
    moreover have "unat (c + 1) = Suc (unat c)" by (rule unat_inc) (use that(1) in simp)
    ultimately show ?thesis using that(1) by simp
  qed
  show "station (mclmac w') = station (mclmac w)" "is_first_node (mclmac w') = is_first_node (mclmac w)"
    "packets_to_send_message (internals w') = packets_to_send_message (internals w)"
    "packets_to_send_control (internals w') = packets_to_send_control (internals w)"
    "collisionDetected (internals w') = collisionDetected (internals w)"
    "ended \<Longrightarrow> current_cf_slot (frame (internals w')) = 8"
    "\<not> ended \<Longrightarrow> unat (current_cf_slot (frame (internals w))) < 8 \<Longrightarrow>
      unat (current_cf_slot (frame (internals w'))) < 8"
    using assms
    by (auto simp: cf_slot_step_def Let_def arm_cf_timer_def mac_access station_def inc
        split: if_splits prod.splits dest: set_timer_frame)
qed

text \<open>
  What holds during the contention-free phase of a node that entered it in the state \<open>m\<close>: it has
  announced itself only in its own slot, and only with something to say.
\<close>

definition own_slot :: "MCLMAC_t \<Rightarrow> bool" where
  "own_slot m \<longleftrightarrow> current_slot (frame (mac m)) = selectedSlot (mac m)"

definition has_to_send :: "MCLMAC_t \<Rightarrow> bool" where
  "has_to_send m \<longleftrightarrow> packets_to_send_message (mac m) > 0 \<or> packets_to_send_control (mac m) > 0 \<or>
     collisionDetected (mac m) \<or> is_first_node m"

definition phase_inv :: "MCLMAC_t \<Rightarrow> active_locals \<Rightarrow> MCLMAC_t \<Rightarrow> bool" where
  "phase_inv m l m' \<longleftrightarrow> station m' = station m \<and>
     packets_to_send_message (mac m') = packets_to_send_message (mac m) \<and>
     packets_to_send_control (mac m') = packets_to_send_control (mac m) \<and>
     collisionDetected (mac m') = collisionDetected (mac m) \<and>
     (is_first_node m' \<longrightarrow> is_first_node m) \<and> (is_current l \<longrightarrow> own_slot m) \<and>
     (send l \<longrightarrow> own_slot m \<and> has_to_send m)"

lemma phase_inv_send:
  assumes "phase_inv m l (mclmac w)" and "is_current l" and "active_send l w = Inr (l', w')"
  shows "phase_inv m l' (mclmac w')" "current_cf_slot (frame (internals w')) = current_cf_slot (frame (internals w))"
  using assms active_send_frame [OF assms(3)]
  by (auto simp: phase_inv_def has_to_send_def cf_phase_def)

lemma phase_inv_receive:
  assumes "phase_inv m l (mclmac w)" and "active_receive testing c l w = Inr (l', w')"
  shows "phase_inv m l' (mclmac w')" "current_cf_slot (frame (internals w')) = current_cf_slot (frame (internals w))"
  using assms active_receive_frame [OF assms(2)] by (auto simp: phase_inv_def cf_phase_def)

lemma phase_inv_round:
  assumes "phase_inv m l (mclmac w)" and "unat (current_cf_slot (frame (internals w))) < 8"
    and "active_round testing f l w = Inr (again, l', w')"
  shows "phase_inv m l' (mclmac w') \<and> (if again then unat (current_cf_slot (frame (internals w'))) < 8
    else current_cf_slot (frame (internals w')) = 8)"
proof -
  obtain ended w1 where step: "cf_slot_step w = (ended, w1)" by (cases "cf_slot_step w")
  note fr = cf_slot_step_frame [OF step]
  have w1: "phase_inv m l (mclmac w1)" using assms(1) fr by (simp add: phase_inv_def)
  show ?thesis
  proof (cases ended)
    case True
    with assms(3) step w1 fr(6) show ?thesis
      by (auto simp: active_round_def Let_def rbind_eq_Inr)
  next
    case False
    from assms(3) step False have again
      and body: "active_send l w1 = Inr (l', w') \<and> is_current l \<or>
        active_receive testing (current_cf_slot (frame (internals w))) l w1 = Inr (l', w')"
      by (auto simp: active_round_def Let_def rbind_eq_Inr mac_access split: if_splits)
    with phase_inv_send [OF w1] phase_inv_receive [OF w1] fr(7) [OF False assms(2)] show ?thesis
      by metis
  qed
qed

lemma active_round_fault:
  assumes "unat (current_cf_slot (frame (internals w))) < 8"
    and "active_round testing f l w = Inl e"
  shows "e = Still_running"
proof -
  obtain ended w1 where step: "cf_slot_step w = (ended, w1)" by (cases "cf_slot_step w")
  from assms step show ?thesis
    using active_receive_fault [of "current_cf_slot (frame (internals w))" testing l w1 e]
    by (auto simp: active_round_def Let_def rbind_def mclmac_get_frequency_def mac_access
        dest: active_send_fault split: if_splits sum.splits)
qed

text \<open>The beginning of ACTIVE.\<close>

definition active_start :: "'k world \<Rightarrow> active_locals \<times> 'k world" where
  "active_start w = (let w1 = on_mclmac mclmac_start_cf_phase w in
     (\<lparr>is_current = own_slot (mclmac w1), send = False, receive = False, packets = 0\<rparr>, arm_cf_timer w1))"

lemma execute_active_start:
  "execute_active testing w = (case active_start w of (l, w1) \<Rightarrow>
     rbind (run_loop (active_round testing (transmitChannel (internals w))) l w1)
       (\<lambda>(l', w2). active_decide l' w2))"
  by (simp add: execute_active_def active_start_def Let_def mac_access mclmac_start_cf_phase_def own_slot_def)

lemma active_start_inv:
  assumes "active_start w = (l, w1)"
  shows "phase_inv (mclmac w) l (mclmac w1)" "unat (current_cf_slot (frame (internals w1))) < 8"
  using assms
  by (auto simp: active_start_def Let_def phase_inv_def arm_cf_timer_def station_def own_slot_def
      mac_access mclmac_start_cf_phase_def split: prod.splits dest!: set_timer_frame)

lemma active_loop:
  assumes "execute_active testing w = Inr (r, w')"
  obtains l w2 where "active_decide l w2 = Inr (r, w')" "phase_inv (mclmac w) l (mclmac w2)"
    "current_cf_slot (frame (internals w2)) = 8"
proof -
  obtain l0 w0 where start: "active_start w = (l0, w0)" by (cases "active_start w")
  with assms obtain l w2 where
    loop: "run_loop (active_round testing (transmitChannel (internals w))) l0 w0 = Inr (l, w2)"
    and dec: "active_decide l w2 = Inr (r, w')"
    by (auto simp: execute_active_start rbind_eq_Inr)
  have "phase_inv (mclmac w) l (mclmac w2) \<and> current_cf_slot (frame (internals w2)) = 8"
    by (rule run_loop_rule [OF loop, where I = "\<lambda>l v. phase_inv (mclmac w) l (mclmac v) \<and>
        unat (current_cf_slot (frame (internals v))) < 8"])
      (use active_start_inv [OF start] in \<open>auto dest: wait_round_Inr(1) phase_inv_round split: if_splits\<close>)
  with dec that show ?thesis by blast
qed

lemma active_result:
  assumes "execute_active testing w = Inr (r, w')"
  shows "station (mclmac w') = station (mclmac w) \<and> current_cf_slot (frame (internals w')) = 8 \<and>
    (r = E_PM_COLLISION_DETECTED \<and> nextPowerMode (mclmac w') = PASSIVE \<or>
     r = E_PM_EXECUTION_SUCCESS \<and> nextPowerMode (mclmac w') \<in> {TRANSMIT, RECEIVE, PASSIVE}) \<and>
    (nextPowerMode (mclmac w') = TRANSMIT \<longrightarrow> own_slot (mclmac w) \<and> has_to_send (mclmac w))"
proof -
  from active_loop [OF assms] obtain l w2 where dec: "active_decide l w2 = Inr (r, w')"
    and inv: "phase_inv (mclmac w) l (mclmac w2)" "current_cf_slot (frame (internals w2)) = 8" .
  have st: "station (m\<lparr>nextPowerMode := s\<rparr>) = station m"
    "station (on_mac (is_internal_collision_update f) m) = station m" for m s f
    by (simp_all add: station_def on_mac_def)
  from inv have "station (mclmac w2) = station (mclmac w)"
    "send l \<Longrightarrow> own_slot (mclmac w) \<and> has_to_send (mclmac w)" by (auto simp: phase_inv_def)
  with dec inv(2) show ?thesis
    by (auto simp: active_decide_def rbind_eq_Inr st on_mac_fields split: if_splits)
qed

text \<open>
  C13. A node announces a transmission only in its own slot. When ACTIVE ends, all eight
  contention-free slots are over, the state machines, the position in the frame and the node's
  slot and channel are untouched, and the next state is as follows: after a detected collision
  PASSIVE; after success TRANSMIT, RECEIVE or PASSIVE. TRANSMIT is chosen only when the current
  slot is the selected one and the node has packets, a collision to report, or is the first node.
\<close>

theorem active_outcome:
  assumes "execute_active testing w = Inr (r, w')"
  shows "station (mclmac w') = station (mclmac w) \<and> current_cf_slot (frame (internals w')) = 8 \<and>
    (r = E_PM_COLLISION_DETECTED \<and> nextPowerMode (mclmac w') = PASSIVE \<or>
     r = E_PM_EXECUTION_SUCCESS \<and> nextPowerMode (mclmac w') \<in> {TRANSMIT, RECEIVE, PASSIVE}) \<and>
    (nextPowerMode (mclmac w') = TRANSMIT \<longrightarrow> own_slot (mclmac w) \<and> has_to_send (mclmac w))"
  using assms by (rule active_result)

text \<open>
  The contention-free phase cannot fail. Whatever is received and however long the
  environment lets it run, ACTIVE never fails an assertion and never leaves the bounds of an
  array: a run that does not end is one that is still waiting.
\<close>

theorem active_never_fails:
  "execute_active testing w = Inl e \<Longrightarrow> e = Still_running"
proof -
  assume run: "execute_active testing w = Inl e"
  obtain l0 w0 where start: "active_start w = (l0, w0)" by (cases "active_start w")
  have "active_decide l w2 \<noteq> Inl e" for l and w2 :: "'a world"
    by (simp add: active_decide_def)
  with run start have "run_loop (active_round testing (transmitChannel (internals w))) l0 w0 = Inl e"
    by (auto simp: execute_active_start rbind_def split: sum.splits)
  then show ?thesis
    by (rule run_loop_fault [where I = "\<lambda>l v. phase_inv (mclmac w) l (mclmac v) \<and>
        unat (current_cf_slot (frame (internals v))) < 8"])
      (use active_start_inv [OF start] in \<open>auto dest: wait_round_Inr(1) phase_inv_round active_round_fault\<close>)
qed

section \<open>TRANSMIT and RECEIVE\<close>

lemma ctrlpkt_station [simp]:
  "station (on_mac (ctrlpkt_update f) m) = station m" "station (on_mac (ctrlpkt_recv_update f) m) = station m"
  "station (on_mac forget_collision m) = station m" "station (nextPowerMode_update g m) = station m"
  "station (on_mac (is_internal_collision_update h) m) = station m"
  by (simp_all add: station_def on_mac_def forget_collision_def)

lemma transmit_loop_core:
  "run_loop transmit_round l w = Inr (l', w') \<Longrightarrow> core (mclmac w') = core (mclmac w)"
  by (erule run_loop_rule [where I = "\<lambda>_ v. core (mclmac v) = core (mclmac w)"])
    (auto dest: wait_round_Inr(1) transmit_round_frame(1))

lemma transmit_result:
  assumes "execute_transmit w = Inr (r, w')"
  shows "station (mclmac w') = station (mclmac w) \<and> \<not> collisionDetected (internals w') \<and>
    (if collisionDetected (internals w) \<and> is_internal_collision (internals w)
     then r = E_PM_COLLISION_ERROR \<and> nextPowerMode (mclmac w') = FINISHP
     else r = E_PM_EXECUTION_SUCCESS \<and> nextPowerMode (mclmac w') = PASSIVE)"
proof -
  from assms obtain w1 where snd_ctrl: "mclmac_send_control_packet (on_mclmac
      (\<lambda>m. mclmac_create_control_packet (snd (mclmac_start_split_phase m TRANSMIT))) w) = Inr w1"
    by (auto simp: execute_transmit_def rbind_eq_Inr)
  then have w1: "station (mclmac w1) = station (mclmac w)"
    "collisionDetected (internals w1) = collisionDetected (internals w)"
    "is_internal_collision (internals w1) = is_internal_collision (internals w)"
    by (auto simp: mclmac_send_control_packet_def c_rand_def rbind_eq_Inr mac_access station_def
        mclmac_create_control_packet_def mclmac_start_split_phase_def)
  show ?thesis
  proof (cases "collisionDetected (internals w)")
    case True
    with assms snd_ctrl w1 show ?thesis
      by (auto simp: execute_transmit_def rbind_eq_Inr Let_def on_mac_fields split: if_splits)
        (simp_all add: forget_collision_def)
  next
    case False
    with assms snd_ctrl w1 obtain l w2 where "run_loop transmit_round () w1 = Inr (l, w2)"
      "w' = on_mclmac (nextPowerMode_update (\<lambda>_. PASSIVE)) w2" "r = E_PM_EXECUTION_SUCCESS"
      by (auto simp: execute_transmit_def rbind_eq_Inr)
    with False w1 station_core [OF transmit_loop_core] core_fields(18) [OF transmit_loop_core]
    show ?thesis by auto
  qed
qed

text \<open>
  TRANSMIT leads on. It leaves the position in the frame and the node's slot and channel
  alone. It reports a collision error, with FINISHP next, exactly when the node is in a collision
  it caused by sending and receiving in the same slot; in every other case it succeeds with
  PASSIVE next. A reported collision is forgotten.
\<close>

theorem transmit_outcome:
  assumes "execute_transmit w = Inr (r, w')"
  shows "station (mclmac w') = station (mclmac w) \<and> \<not> collisionDetected (internals w') \<and>
    (if collisionDetected (internals w) \<and> is_internal_collision (internals w)
     then r = E_PM_COLLISION_ERROR \<and> nextPowerMode (mclmac w') = FINISHP
     else r = E_PM_EXECUTION_SUCCESS \<and> nextPowerMode (mclmac w') = PASSIVE)"
  using assms by (rule transmit_result)

text \<open>What listening for control packets leaves alone.\<close>

definition heard :: "'k world \<Rightarrow> 'k world \<Rightarrow> bool" where
  "heard w w' \<longleftrightarrow> (\<exists>pkt. mclmac w' = on_mac (ctrlpkt_recv_update (\<lambda>_. pkt)) (mclmac w)) \<and>
     timeouts w' = timeouts w \<and> script w' = script w"

lemma heard_refl: "heard w w"
  unfolding heard_def by (rule conjI [OF exI [of _ "ctrlpkt_recv (internals w)"]]) (simp_all add: on_mac_def)

lemma heard_trans: "heard w w1 \<Longrightarrow> heard w1 w2 \<Longrightarrow> heard w w2"
  by (auto simp: heard_def on_mac_def)

lemma rand_bytes_250_frame:
  "rand_bytes_250 n w = (bs, w') \<Longrightarrow> mclmac w' = mclmac w \<and> timeouts w' = timeouts w \<and> script w' = script w"
  by (induction n arbitrary: w bs w') (auto simp: c_rand_def split: prod.splits)

lemma receive_control_heard:
  assumes "mclmac_receive_control_packet testing w = Inr (b, w')"
  shows "heard w w'"
proof (cases "testing \<and> state_ctrl (mclmac w) = 7")
  case True
  with assms heard_refl show ?thesis by (auto simp: mclmac_receive_control_packet_def)
next
  case False
  obtain rs w1 where rs: "rand_bytes_250 256 w = (rs, w1)" by (cases "rand_bytes_250 256 w")
  with False assms obtain pkt where "w' = on_mclmac (on_mac (ctrlpkt_recv_update (\<lambda>_. pkt))) w1"
    unfolding mclmac_receive_control_packet_def if_not_P [OF False]
    by (auto simp: receive_control_packet_native_def rbind_eq_Inr simp del: upt_rec_numeral)
  with rand_bytes_250_frame [OF rs] show ?thesis by (auto simp: heard_def)
qed

lemma listen_control_heard:
  "listen_control testing n w = Inr (count, w') \<Longrightarrow> heard w w'"
proof (induction testing n w arbitrary: rule: listen_control.induct)
  case (1 testing n w)
  show ?case
  proof (cases "n \<le> 2")
    case False
    with "1.prems" show ?thesis by (simp add: listen_control.simps heard_refl)
  next
    case True
    with "1.prems" obtain b w1 where rcv: "mclmac_receive_control_packet testing w = Inr (b, w1)"
      and rest: "(if b then Inr (n, w1) else listen_control testing (n + 1) w1) = Inr (count, w')"
      by (subst (asm) listen_control.simps) (auto simp: rbind_eq_Inr)
    from "1.IH" [OF True, of b w1] rest receive_control_heard [OF rcv] show ?thesis
      by (cases b) (auto intro: heard_trans)
  qed
qed

lemma receive_round_frame:
  assumes "receive_round n w = Inr (again, n', w')"
  shows "core (mclmac w') = core (mclmac w)"
  using assms
  by (auto simp: receive_round_def rbind_eq_Inr split: if_splits
      dest!: receive_data_only_packets only_packetsD(1))

lemma receive_loop_core:
  "run_loop receive_round n w = Inr (l', w') \<Longrightarrow> core (mclmac w') = core (mclmac w)"
  by (erule run_loop_rule [where I = "\<lambda>_ v. core (mclmac v) = core (mclmac w)"])
    (auto dest: wait_round_Inr(1) receive_round_frame)

text \<open>When a received control packet agrees with the node's own view.\<close>

definition reports_collision :: "ControlPacket_t \<Rightarrow> MCLMAC_t \<Rightarrow> bool" where
  "reports_collision pkt m \<longleftrightarrow> collisionFrequency pkt = transmitChannel (mac m) \<and>
     collisionSlot pkt = selectedSlot (mac m)"

definition in_sync :: "ControlPacket_t \<Rightarrow> MCLMAC_t \<Rightarrow> bool" where
  "in_sync pkt m \<longleftrightarrow> currentSlot pkt = current_slot (frame (mac m)) \<and>
     currentFrame pkt = current_frame (frame (mac m)) \<and> on_time (own_networkTime m) (networkTime pkt)"

lemma receive_result:
  assumes "execute_receive testing w = Inr (r, w')"
  shows "station (mclmac w') = station (mclmac w) \<and>
    (let m = mclmac w'; pkt = ctrlpkt_recv (mac m)
     in (r = E_PM_EXECUTION_SUCCESS \<and> nextPowerMode m = PASSIVE \<or>
         r = E_PM_COLLISION_ERROR \<and> nextPowerMode m = FINISHP \<and> reports_collision pkt m \<or>
         r = E_PM_SYNCHRONIZATION_ERROR \<and> nextPowerMode m = FINISHP \<and> \<not> in_sync pkt m) \<and>
        (number_packets_received (mac m) \<noteq> number_packets_received (internals w) \<longrightarrow>
          r = E_PM_EXECUTION_SUCCESS \<and> \<not> reports_collision pkt m \<and> in_sync pkt m))"
proof -
  from assms obtain count w1 where
    listen: "listen_control testing 1 (on_mclmac (\<lambda>m. snd (mclmac_start_split_phase m RECEIVE)) w) = Inr (count, w1)"
    by (auto simp: execute_receive_def rbind_eq_Inr)
  from listen_control_heard [OF this] have w1: "station (mclmac w1) = station (mclmac w)"
    "number_packets_received (internals w1) = number_packets_received (internals w)"
    by (auto simp: heard_def mclmac_start_split_phase_def on_mac_fields)
  show ?thesis
  proof (cases "count \<ge> 2 \<or> reports_collision (ctrlpkt_recv (internals w1)) (mclmac w1) \<or>
      \<not> in_sync (ctrlpkt_recv (internals w1)) (mclmac w1)")
    case True
    with assms listen w1 show ?thesis
      by (auto simp: execute_receive_def Let_def reports_collision_def in_sync_def mac_access
          split: if_splits)
  next
    case False
    with assms listen obtain l w2 where loop: "run_loop receive_round (unat (number_packets_received (internals w1))) w1 = Inr (l, w2)"
      and w': "w' = on_mclmac (nextPowerMode_update (\<lambda>_. PASSIVE)) w2" "r = E_PM_EXECUTION_SUCCESS"
      by (auto simp: execute_receive_def Let_def reports_collision_def in_sync_def mac_access rbind_eq_Inr)
    note same = receive_loop_core [OF loop]
    from False w1 w' station_core [OF same] core_fields [OF same] show ?thesis
      by (simp add: Let_def reports_collision_def in_sync_def)
  qed
qed

text \<open>
  C12. Data is accepted only from a sender in sync. RECEIVE reports a collision error only when the
  control packet names this node's own slot and frequency, and a synchronisation error only when
  slot, frame or time differ, in both cases with FINISHP next; otherwise it succeeds with PASSIVE
  next. The number of received packets changes only when the control packet reports no collision
  and agrees with the node.
\<close>

theorem receive_outcome:
  assumes "execute_receive testing w = Inr (r, w')"
  shows "station (mclmac w') = station (mclmac w) \<and>
    (let m = mclmac w'; pkt = ctrlpkt_recv (mac m)
     in (r = E_PM_EXECUTION_SUCCESS \<and> nextPowerMode m = PASSIVE \<or>
         r = E_PM_COLLISION_ERROR \<and> nextPowerMode m = FINISHP \<and> reports_collision pkt m \<or>
         r = E_PM_SYNCHRONIZATION_ERROR \<and> nextPowerMode m = FINISHP \<and> \<not> in_sync pkt m) \<and>
        (number_packets_received (mac m) \<noteq> number_packets_received (internals w) \<longrightarrow>
          r = E_PM_EXECUTION_SUCCESS \<and> \<not> reports_collision pkt m \<and> in_sync pkt m))"
  using assms by (rule receive_result)

section \<open>FINISHP\<close>

text \<open>The data packet queues of theory \<open>Mac_Queues\<close> with nothing in them and all their room.\<close>

definition queues_empty :: "MAC_Internals_t \<Rightarrow> bool" where
  "queues_empty i \<longleftrightarrow> packets_to_send_message i = 0 \<and> first_send_message i = 0 \<and> last_send_message i = 0 \<and>
     packets_to_send_control i = 0 \<and> first_send_control i = 0 \<and> last_send_control i = 0 \<and>
     number_packets_received i = 0 \<and> first_received i = 0 \<and> last_received i = 0"

lemma finish_internals_empty: "queues_empty (finish_internals i)"
  by (simp add: finish_internals_def reset_packet_counters_def queues_empty_def)

lemma finish_received:
  "length (packets_received i) = 20 \<Longrightarrow> received_inv (finish_internals i) \<and>
    received_items (finish_internals i) = [] \<and> received_room (finish_internals i) = 10"
  by (simp add: finish_internals_def reset_packet_counters_def received_inv_def received_items_def
      received_room_def ring_ok_def ring_items_def)

lemma finish_control:
  "length (control_packets_to_send (internals w)) = 10 \<Longrightarrow>
    control_inv (on_mclmac (on_mac finish_internals) w) \<and>
    control_items (on_mclmac (on_mac finish_internals) w) = [] \<and>
    control_room (on_mclmac (on_mac finish_internals) w) = 10"
  by (simp add: finish_internals_def reset_packet_counters_def control_inv_def control_items_def
      control_room_def on_mac_def ring_ok_def ring_items_def)

text \<open>
  FINISHP makes the packet queues usable again. It always succeeds, and afterwards the queue
  of packets to send and the queue of received packets are well formed, empty, and have room for
  ten packets each, however many had been stored before.
\<close>

theorem finishp_resets_queues:
  assumes "length (packets_received (internals w)) = 20"
    and "length (control_packets_to_send (internals w)) = 10"
  shows "\<exists>w'. execute_finishp w = Inr (E_PM_EXECUTION_SUCCESS, w') \<and>
    received_inv (internals w') \<and> received_items (internals w') = [] \<and> received_room (internals w') = 10 \<and>
    control_inv w' \<and> control_items w' = [] \<and> control_room w' = 10"
  using finish_received [OF assms(1)] finish_control [OF assms(2)]
  by (simp add: execute_finishp_def on_mac_fields)

lemma finishp_resets_queues_witness:
  "\<exists>w'. execute_finishp with_received = Inr (E_PM_EXECUTION_SUCCESS, w') \<and>
     received_items (internals w') = [] \<and> control_room w' = 10"
proof -
  have "length (packets_received (internals with_received)) = 20"
    "length (control_packets_to_send (internals with_received)) = 10"
    by (simp_all add: with_received_def on_mac_def sample_world_def MAC_internals_init_def
        zero_mac_internals_def)
  from finishp_resets_queues [OF this] show ?thesis by blast
qed

section \<open>One step of the machine\<close>

lemma startp_result:
  assumes "execute_startp w = Inr (r, w')"
  shows "r = E_PM_EXECUTION_SUCCESS \<and> nextPowerMode (mclmac w') = PASSIVE \<and>
    powerMode (mclmac w') = powerMode (mclmac w) \<and> currentState (mclmac w') = currentState (mclmac w) \<and>
    nextState (mclmac w') = nextState (mclmac w) \<and> nSlots (mclmac w') = nSlots (mclmac w) \<and>
    queues_empty (internals w') \<and> current_slot (frame (internals w')) = 0 \<and>
    current_frame (frame (internals w')) = wakeup_frame (mclmac w) + 1"
  using assms
  by (auto simp: execute_startp_def try_mclmac_def startp_settings_def rbind_eq_Inr mac_access
      mclmac_set_slots_number_def mclmac_set_cf_slots_number_def mclmac_set_frame_duration_def
      mclmac_set_slot_duration_def mclmac_set_cf_duration_def assert_that_eq_Inr arm_slot_timer_def
      reset_packet_counters_def queues_empty_def split: prod.splits dest!: set_timer_frame)

lemma update_along_edge:
  "powermode_edge (powerMode m) (nextPowerMode m) \<Longrightarrow>
    mclmac_update_powermode_state_machine m = (E_PM_TRANSITION_SUCCESS, m\<lparr>powerMode := nextPowerMode m\<rparr>)"
  by (cases "nextPowerMode m")
    (auto simp: mclmac_update_powermode_state_machine_def mclmac_set_powermode_state_def)

text \<open>A mode in which the machine is running.\<close>

definition running :: "PowerMode_t \<Rightarrow> bool" where
  "running s \<longleftrightarrow> s \<notin> {NONEP, IDLEP}"

lemma station_modes:
  "station m' = station m \<Longrightarrow> powerMode m' = powerMode m \<and> currentState m' = currentState m \<and>
     nextState m' = nextState m \<and> nSlots m' = nSlots m"
  by (simp add: station_def)

lemma powermode_step_result:
  assumes "mclmac_execute_powermode_state os testing w = Inr (r, w')" and "running (powerMode (mclmac w))"
  shows "powerMode (mclmac w') = powerMode (mclmac w) \<and> currentState (mclmac w') = currentState (mclmac w) \<and>
    nextState (mclmac w') = nextState (mclmac w) \<and> nSlots (mclmac w') = nSlots (mclmac w) \<and>
    (case r of
       E_PM_EXECUTION_SUCCESS \<Rightarrow> powerMode (mclmac w) = FINISHP \<or>
         powermode_edge (powerMode (mclmac w)) (nextPowerMode (mclmac w')) \<and> nextPowerMode (mclmac w') \<noteq> FINISHP
     | E_PM_COLLISION_DETECTED \<Rightarrow> powerMode (mclmac w) = ACTIVE \<and> nextPowerMode (mclmac w') = PASSIVE
     | E_PM_EXECUTION_FAILED \<Rightarrow> False
     | _ \<Rightarrow> powerMode (mclmac w) \<in> {TRANSMIT, RECEIVE} \<and> nextPowerMode (mclmac w') = FINISHP)"
proof (cases "powerMode (mclmac w)")
  case STARTP
  with assms have "execute_startp w = Inr (r, w')"
    by (simp add: mclmac_execute_powermode_state_def assert_that_eq_Inr)
  from startp_result [OF this] STARTP show ?thesis by simp
next
  case PASSIVE
  with assms have "execute_passive os w = Inr (r, w')"
    by (simp add: mclmac_execute_powermode_state_def assert_that_eq_Inr)
  from passive_result [OF this] PASSIVE show ?thesis by simp
next
  case ACTIVE
  with assms have "execute_active testing w = Inr (r, w')"
    by (simp add: mclmac_execute_powermode_state_def assert_that_eq_Inr)
  from active_result [OF this] station_modes [OF active_result [OF this, THEN conjunct1]] ACTIVE show ?thesis by auto
next
  case TRANSMIT
  with assms have "execute_transmit w = Inr (r, w')"
    by (simp add: mclmac_execute_powermode_state_def assert_that_eq_Inr)
  from transmit_result [OF this] station_modes [OF transmit_result [OF this, THEN conjunct1]] TRANSMIT show ?thesis by (auto split: if_splits)
next
  case RECEIVE
  with assms have "execute_receive testing w = Inr (r, w')"
    by (simp add: mclmac_execute_powermode_state_def assert_that_eq_Inr)
  from receive_result [OF this] station_modes [OF receive_result [OF this, THEN conjunct1]] RECEIVE show ?thesis by (auto simp: Let_def)
next
  case FINISHP
  with assms have "execute_finishp w = Inr (r, w')"
    by (simp add: mclmac_execute_powermode_state_def assert_that_eq_Inr)
  with FINISHP show ?thesis by (auto simp: execute_finishp_def on_mac_def)
qed (use assms(2) in \<open>simp_all add: running_def\<close>)

text \<open>
  C6. The power mode machine never takes a wrong turn. Executing a state leaves the state, and
  the state of the MAC machine, as they are, and says which state is next; whenever it reports
  success, the transition to that state is one the update accepts (FINISHP apart, which is the
  end); collisions are detected only in ACTIVE and reported as errors only by TRANSMIT and
  RECEIVE, and then FINISHP, which the update also accepts, is next.
\<close>

theorem powermode_step:
  assumes "mclmac_execute_powermode_state os testing w = Inr (r, w')" and "running (powerMode (mclmac w))"
  shows "powerMode (mclmac w') = powerMode (mclmac w) \<and> currentState (mclmac w') = currentState (mclmac w) \<and>
    nextState (mclmac w') = nextState (mclmac w) \<and>
    (case r of
       E_PM_EXECUTION_SUCCESS \<Rightarrow> powerMode (mclmac w) = FINISHP \<or>
         fst (mclmac_update_powermode_state_machine (mclmac w')) = E_PM_TRANSITION_SUCCESS
     | E_PM_COLLISION_DETECTED \<Rightarrow> powerMode (mclmac w) = ACTIVE
     | E_PM_EXECUTION_FAILED \<Rightarrow> False
     | _ \<Rightarrow> powerMode (mclmac w) \<in> {TRANSMIT, RECEIVE} \<and>
         mclmac_update_powermode_state_machine (mclmac w') =
           (E_PM_TRANSITION_SUCCESS, (mclmac w')\<lparr>powerMode := FINISHP\<rparr>))"
proof -
  note res = powermode_step_result [OF assms]
  note upd = update_along_edge [of "mclmac w'"]
  show ?thesis
  proof (cases r)
    case E_PM_EXECUTION_SUCCESS
    with res upd show ?thesis by simp fastforce
  next
    case E_PM_COLLISION_ERROR
    with res have "powermode_edge (powerMode (mclmac w')) (nextPowerMode (mclmac w'))" by auto
    from upd [OF this] res E_PM_COLLISION_ERROR show ?thesis by simp
  next
    case E_PM_SYNCHRONIZATION_ERROR
    with res have "powermode_edge (powerMode (mclmac w')) (nextPowerMode (mclmac w'))" by auto
    from upd [OF this] res E_PM_SYNCHRONIZATION_ERROR show ?thesis by simp
  qed (use res in simp_all)
qed

end
