(* ===== verification/Active_Progress.thy ===== *)
theory Active_Progress
  imports Power_Mode_Progress Power_Mode_Outcomes
begin

text \<open>
  Progress of the ACTIVE state: the contention-free phase ends, however the time passes. The
  environment lets time elapse in steps of any length, each followed by the interrupt of the
  hardware timer; the runs are those of the test build while its stub hears no packet.
\<close>

section \<open>Loops that end\<close>

lemma wait_loop_mono:
  "wait_loop n body l w = Inr r \<Longrightarrow> n \<le> m \<Longrightarrow> wait_loop m body l w = Inr r"
proof (induction n arbitrary: m l w)
  case (Suc n)
  from Suc.prems(2) obtain k where m: "m = Suc k" "n \<le> k" by (cases m) auto
  from Suc.prems(1) obtain w1 again l2 w2 where
    step: "wait_round w = Inr w1" "body l w1 = Inr (again, l2, w2)"
    "(if again then wait_loop n body l2 w2 else Inr (l2, w2)) = Inr r"
    by (auto simp: rbind_eq_Inr)
  with m Suc.IH [of l2 w2 k] show ?case by (auto split: if_splits)
qed simp

text \<open>The rule for total correctness: the script gets shorter in every round.\<close>

lemma run_loop_ends:
  assumes "I l w"
    and "\<And>l w. I l w \<Longrightarrow> \<exists>w1 again l' w'. wait_round w = Inr w1 \<and> body l w1 = Inr (again, l', w') \<and>
      (if again then I l' w' \<and> length (script w') \<le> length (script w1) else P l' w')"
  shows "\<exists>l' w'. run_loop body l w = Inr (l', w') \<and> P l' w'"
  using assms(1)
proof (induction "length (script w)" arbitrary: l w rule: less_induct)
  case less
  from assms(2) [OF less.prems] obtain w1 again l1 w2 where
    step: "wait_round w = Inr w1" "body l w1 = Inr (again, l1, w2)"
    "if again then I l1 w2 \<and> length (script w2) \<le> length (script w1) else P l1 w2" by blast
  note len = wait_round_Inr(4) [OF step(1)]
  show ?case
  proof (cases again)
    case True
    with step(3) len less.hyps [of w2 l1] obtain l' w' where
      run: "run_loop body l1 w2 = Inr (l', w')" "P l' w'" by auto
    have "wait_loop (length (script w)) body l1 w2 = Inr (l', w')"
      by (rule wait_loop_mono [OF run(1) [unfolded run_loop_def]]) (use True step(3) len in simp)
    with True step(1,2) run(2) show ?thesis by (simp add: run_loop_def)
  qed (use step in \<open>simp add: run_loop_def\<close>)
qed

lemma run_loop_consumes:
  assumes "run_loop body l w = Inr (l', w')" and "consumes body"
  shows "length (script w') \<le> length (script w)"
  by (rule run_loop_rule [OF assms(1), where I = "\<lambda>_ v. length (script v) \<le> length (script w)"])
    (use assms(2) in \<open>fastforce simp: consumes_def dest: wait_round_Inr(4)\<close>)+

section \<open>The environment\<close>

text \<open>Some microseconds pass, and the interrupt comes, which does nothing when no timer is due.\<close>

definition lapse :: "u32 \<Rightarrow> 'k event list" where
  "lapse d = [Elapse d, Ztimer_interrupt]"

text \<open>
  The script consists of lapses below \<open>2 ^ 30\<close> microseconds, about eighteen minutes, and \<open>n\<close> of
  them last \<open>s\<close> microseconds at least.
\<close>

definition lapses :: "u32 \<Rightarrow> nat \<Rightarrow> 'k world \<Rightarrow> bool" where
  "lapses s n w \<longleftrightarrow> (\<exists>ds. script w = map lapse ds \<and> (\<forall>d \<in> set ds. d < 0x40000000) \<and>
     n \<le> length (filter (\<lambda>d. s \<le> d) ds))"

lemma lapses_mono:
  assumes "lapses s n w" and "m \<le> n" and "t \<le> s"
  shows "lapses t m w"
proof -
  have "length (filter (\<lambda>d. s \<le> d) ds) \<le> length (filter (\<lambda>d. t \<le> d) ds)" for ds
    by (induction ds) (use assms(3) in auto)
  with assms(1,2) show ?thesis unfolding lapses_def by (meson order_trans)
qed

lemma lapses_fewer: "lapses s n w \<Longrightarrow> m \<le> n \<Longrightarrow> lapses s m w"
  by (rule lapses_mono [OF _ _ order.refl])

lemma lapses_script: "script w' = script w \<Longrightarrow> lapses s n w' = lapses s n w"
  by (simp add: lapses_def)

section \<open>A running timer\<close>

definition some_free_slot :: "timeout_t \<Rightarrow> bool" where
  "some_free_slot t \<longleftrightarrow> (\<exists>i < TIMEOUTS. free_slot t i)"

definition two_free_slots :: "timeout_t \<Rightarrow> bool" where
  "two_free_slots t \<longleftrightarrow> (\<exists>i < TIMEOUTS. \<exists>j < TIMEOUTS. i \<noteq> j \<and> free_slot t i \<and> free_slot t j)"

lemma two_free_some: "two_free_slots t \<Longrightarrow> some_free_slot t"
  by (auto simp: two_free_slots_def some_free_slot_def)

lemma set_with_free_slot:
  assumes "wf_timeouts t" and "some_free_slot t" and "s \<noteq> 0" and "timeout_set t now s = (i, t')"
  shows "i \<noteq> TIMEOUT_SET_ERROR" and "timeout_passed t' i = 0" and "wf_timeouts t'"
    and "timeout_time t' ! unat i = timespec_add now s"
proof -
  obtain k where k: "first_free t k"
    using assms(2) by (cases t rule: first_free_cases) (auto simp: some_free_slot_def)
  then have lt: "k < TIMEOUTS" by (simp add: first_free_def)
  note set = timeout_set_free [OF assms(1) k assms(3), of now]
  then have i: "i = of_nat k" using assms(4) by simp
  with lt have "unat i < TIMEOUTS" by (simp add: unat_slot)
  then show "i \<noteq> TIMEOUT_SET_ERROR" using TIMEOUT_SET_ERROR_bad by auto
  then show "timeout_passed t' i = 0"
    using timers.set_live [OF assms(1), of now s] assms(4) by simp
  show "wf_timeouts t'" using wf_timeout_set [OF assms(1), of now s] assms(4) by simp
  have "length (timeout_time t) = TIMEOUTS" using assms(1) by (simp add: wf_timeouts_def)
  then show "timeout_time t' ! unat i = timespec_add now s"
    using set assms(4) lt unat_slot [OF lt] by (auto simp: i)
qed

lemma timeout_set_time:
  assumes "wf_timeouts t" and "timeout_set t now s = (i, t')" and "j \<noteq> i"
  shows "timeout_time t' ! unat j = timeout_time t ! unat j"
proof (cases t rule: first_free_cases)
  case full
  with timeout_set_full [OF assms(1), of now s] assms(2) show ?thesis by simp
next
  case (free k)
  show ?thesis
  proof (cases "s = 0")
    case False
    have k: "unat i = k" and t': "timeout_time t' = (timeout_time t)[k := timespec_add now s]"
      using timeout_set_free [OF assms(1) free False, of now] assms(2) free
      by (auto simp: first_free_def unat_slot)
    moreover have "unat j \<noteq> unat i" using assms(3) by (simp add: word_unat_eq_iff)
    ultimately show ?thesis by simp
  qed (use assms(2) in simp)
qed

lemma set_keeps_free:
  assumes "wf_timeouts t" and "two_free_slots t" and "timeout_set t now s = (i, t')"
  shows "some_free_slot t'"
proof (cases rule: timeout_set_cases [OF assms(1), of now s])
  case 1
  with assms(2,3) show ?thesis by (simp add: two_free_some)
next
  case (2 k)
  from assms(2) obtain j where "j < TIMEOUTS" "j \<noteq> k" "free_slot t j"
    by (auto simp: two_free_slots_def)
  with 2(4) assms(3) show ?thesis by (auto simp: some_free_slot_def free_slot_def)
qed

lemma unset_frees:
  assumes "wf_timeouts t" and "timeout_passed t i \<noteq> 2"
  defines "t' \<equiv> snd (timeout_unset t i)"
  shows "some_free_slot t'" and "some_free_slot t \<Longrightarrow> two_free_slots t'"
proof -
  have i: "unat i < TIMEOUTS" using assms(2) by (rule timeout_running_bound)
  note st = timeout_unset_state [OF assms(1) i]
  have used: "timeout_state t ! unat i \<in> {3, 7}"
    using assms(2) timeout_passed_slot [OF assms(1) i] by (auto split: if_splits)
  then have mine: "free_slot t' (unat i)" by (auto simp: t'_def free_slot_def st)
  with i show "some_free_slot t'" by (auto simp: some_free_slot_def)
  assume "some_free_slot t"
  then obtain j where j: "j < TIMEOUTS" "free_slot t j" by (auto simp: some_free_slot_def)
  with used have "j \<noteq> unat i" by (auto simp: free_slot_def)
  with j have "free_slot t' j" by (simp add: t'_def free_slot_def st)
  with j(1) mine i \<open>j \<noteq> unat i\<close> show "two_free_slots t'" unfolding two_free_slots_def by blast
qed

lemma free_fire: "wf_timeouts t \<Longrightarrow> i < TIMEOUTS \<Longrightarrow> free_slot t i \<Longrightarrow> free_slot (timeout_fire t now) i"
  using timeout_fire_fields(3) [of t i now] wf_slot [of t i] by (auto simp: free_slot_def)

text \<open>Timer \<open>i\<close> was set for \<open>d\<close> microseconds, and has passed or is not due yet.\<close>

definition ticking :: "u32 \<Rightarrow> u32 \<Rightarrow> 'k world \<Rightarrow> bool" where
  "ticking i d w \<longleftrightarrow> wf_timeouts (timeouts w) \<and> d < 0x40000000 \<and>
     (passed i w = 1 \<or> passed i w = 0 \<and> 0 \<le> sint (timeout_time (timeouts w) ! unat i - clock w) \<and>
        sint (timeout_time (timeouts w) ! unat i - clock w) \<le> uint d)"

lemma ticking_wf: "ticking i d w \<Longrightarrow> wf_timeouts (timeouts w)"
  by (simp add: ticking_def)

lemma ticking_passed: "ticking i d w \<Longrightarrow> passed i w \<noteq> 2"
  by (auto simp: ticking_def)

lemma ticking_same:
  "timeouts w' = timeouts w \<Longrightarrow> clock w' = clock w \<Longrightarrow> ticking i d w' = ticking i d w"
  by (simp add: ticking_def)

lemma sint_minus:
  fixes x e :: u32
  assumes "0 \<le> sint x" and "e < 0x40000000"
  shows "sint (x - e) = sint x - uint e"
proof -
  have "uint e < 0x40000000" using assms(2) by (simp add: word_less_def)
  then have "unat e < 2 ^ 31" using unat_small [of e] by simp
  moreover note sint_nonneg_small [OF assms(1)]
  ultimately show ?thesis
    using sint_diff_small [of x e] sint_small [of x] unat_small [of x] by simp
qed

lemma ticking_lapse:
  assumes "ticking i d w" and "e < 0x40000000"
  defines "w' \<equiv> fold env_event (lapse e) w"
  shows "ticking i d w'" and "d \<le> e \<Longrightarrow> passed i w' = 1"
    and "passed i w' = 0 \<Longrightarrow> 0 < sint (timeout_time (timeouts w') ! unat i - clock w')"
proof -
  have wf: "wf_timeouts (timeouts w)" and d: "d < 0x40000000" using assms(1) by (simp_all add: ticking_def)
  let ?left = "timeout_time (timeouts w) ! unat i - clock w"
  have w': "timeouts w' = timeout_fire (timeouts w) (clock w + e)" "clock w' = clock w + e"
    by (simp_all add: w'_def lapse_def)
  have time: "timeout_time (timeouts w') ! unat i - clock w' = ?left - e"
    by (simp add: w' timeout_fire_fields(2) [OF wf] algebra_simps)
  have p: "passed i w' = (if passed i w = 0 \<and> sint (?left - e) \<le> 0 then 1 else passed i w)"
    using timeout_fire_passed [OF wf, of "clock w + e" i] by (simp add: w' timespec_diff_def algebra_simps)
  have left: "passed i w = 0 \<Longrightarrow> 0 \<le> sint ?left \<and> sint ?left \<le> uint d \<and> sint (?left - e) = sint ?left - uint e"
    using assms(1,2) sint_minus [of ?left e] by (auto simp: ticking_def)
  have range: "passed i w = 1 \<or> passed i w = 0" using assms(1) by (auto simp: ticking_def)
  have wf': "wf_timeouts (timeouts w')" unfolding w'(1) by (rule wf_timeout_fire [OF wf])
  show "ticking i d w'"
  proof (cases "passed i w' = 1")
    case False
    with p range have "passed i w = 0" "passed i w' = 0" "\<not> sint (?left - e) \<le> 0"
      by (auto split: if_splits)
    with left unsigned_greater_eq [of e, where ?'a = int]
    have "0 \<le> sint (?left - e) \<and> sint (?left - e) \<le> uint d" by linarith
    with \<open>passed i w' = 0\<close> wf' d time show ?thesis by (simp add: ticking_def)
  qed (use wf' d in \<open>simp add: ticking_def\<close>)
  show "passed i w' = 1" if "d \<le> e"
    using that p left range by (auto simp: word_le_def split: if_splits)
  show "0 < sint (timeout_time (timeouts w') ! unat i - clock w')" if "passed i w' = 0"
    using that p range time by (auto split: if_splits)
qed

text \<open>
  One round of waiting: a lapse of \<open>e\<close> microseconds passes, after which the timers set for no longer have
  passed. \<open>n\<close> more lapses of \<open>s\<close> microseconds are left, and one more when this one was shorter.
\<close>

definition after_lapse :: "u32 \<Rightarrow> nat \<Rightarrow> u32 \<Rightarrow> 'k world \<Rightarrow> 'k world \<Rightarrow> bool" where
  "after_lapse s n e w w1 \<longleftrightarrow> mclmac w1 = mclmac w \<and> kernel w1 = kernel w \<and> lapses s n w1 \<and>
     (\<not> s \<le> e \<longrightarrow> lapses s (Suc n) w1) \<and>
     (\<forall>i d. ticking i d w \<longrightarrow> ticking i d w1 \<and> (d \<le> e \<longrightarrow> passed i w1 = 1) \<and>
        (passed i w1 = 0 \<longrightarrow> 0 < sint (timeout_time (timeouts w1) ! unat i - clock w1))) \<and>
     (wf_timeouts (timeouts w) \<longrightarrow> wf_timeouts (timeouts w1) \<and>
        (\<forall>i < TIMEOUTS. free_slot (timeouts w) i \<longrightarrow> free_slot (timeouts w1) i))"

lemma after_lapseD:
  assumes "after_lapse s n e w w1"
  shows "mclmac w1 = mclmac w" "kernel w1 = kernel w" "lapses s n w1" "\<not> s \<le> e \<Longrightarrow> lapses s (Suc n) w1"
    "ticking i d w \<Longrightarrow> ticking i d w1" "ticking i d w \<Longrightarrow> d \<le> e \<Longrightarrow> passed i w1 = 1"
    "ticking i d w \<Longrightarrow> passed i w1 = 0 \<Longrightarrow> 0 < sint (timeout_time (timeouts w1) ! unat i - clock w1)"
    "wf_timeouts (timeouts w) \<Longrightarrow> some_free_slot (timeouts w) \<Longrightarrow> some_free_slot (timeouts w1)"
    "wf_timeouts (timeouts w) \<Longrightarrow> two_free_slots (timeouts w) \<Longrightarrow> two_free_slots (timeouts w1)"
    "wf_timeouts (timeouts w) \<Longrightarrow> wf_timeouts (timeouts w1)"
  using assms unfolding after_lapse_def some_free_slot_def two_free_slots_def by blast+

lemma lapses_wait:
  assumes "lapses s (Suc n) w"
  obtains e w1 where "wait_round w = Inr w1" "after_lapse s n e w w1"
proof -
  from assms obtain ds where ds: "script w = map lapse ds" "\<forall>d \<in> set ds. d < 0x40000000"
    "Suc n \<le> length (filter (\<lambda>d. s \<le> d) ds)" by (auto simp: lapses_def)
  then obtain e es where d: "ds = e # es" by (cases ds) auto
  let ?u = "fold env_event (lapse e) w"
  let ?w = "?u\<lparr>script := map lapse es\<rparr>"
  have e: "e < 0x40000000" using ds(2) d by simp
  have same: "timeouts ?w = timeouts ?u" "clock ?w = clock ?u" by simp_all
  note t = ticking_lapse [OF _ e, where w = w]
  show thesis
  proof (rule that [of ?w e])
    show "wait_round w = Inr ?w" using ds(1) d by (simp add: wait_round_def env_events_script)
    have "mclmac ?w = mclmac w" "kernel ?w = kernel w" by (simp_all add: lapse_def)
    moreover have "lapses s n ?w" unfolding lapses_def by (rule exI [of _ es]) (use ds d in \<open>auto split: if_splits\<close>)
    moreover have "lapses s (Suc n) ?w" if "\<not> s \<le> e"
      unfolding lapses_def by (rule exI [of _ es]) (use ds d that in auto)
    moreover have "ticking i d ?w" if "ticking i d w" for i d
      using t(1) [OF that] by (simp only: ticking_def same)
    moreover have "passed i ?w = 1" if "ticking i d w" "d \<le> e" for i d
      using t(2) [OF that] by (simp only: same)
    moreover have "0 < sint (timeout_time (timeouts ?w) ! unat i - clock ?w)" if "ticking i d w" "passed i ?w = 0" for i d
      using t(3) [OF that(1)] that(2) by (simp only: same)
    moreover have "wf_timeouts (timeouts ?w) \<and>
        (\<forall>i < TIMEOUTS. free_slot (timeouts w) i \<longrightarrow> free_slot (timeouts ?w) i)" if "wf_timeouts (timeouts w)"
      using free_fire [OF that] wf_timeout_fire [OF that] by (simp add: lapse_def)
    ultimately show "after_lapse s n e w ?w" unfolding after_lapse_def by blast
  qed
qed

lemma ticking_set:
  assumes "set_timer d w = (i, w')" and "wf_timeouts (timeouts w)" and "some_free_slot (timeouts w)"
    and "0 < d" and "d < 0x40000000"
  shows "ticking i d w'" and "ticking j e w \<Longrightarrow> ticking j e w' \<and> j \<noteq> i"
proof -
  have set: "timeout_set (timeouts w) (clock w) d = (i, timeouts w')" and c: "clock w' = clock w"
    using assms(1) by (auto simp: set_timer_def split: prod.splits)
  have nz: "d \<noteq> 0" using assms(4) by auto
  note s = set_with_free_slot [OF assms(2,3) nz set]
  have small: "uint d < 2 ^ 31" using assms(5) by (simp add: word_less_def)
  then have sd: "sint d = uint d" by (rule sint_small)
  moreover have "0 < uint d" using assms(4) by (simp add: word_less_def)
  ultimately have "timeout_time (timeouts w') ! unat i - clock w' = d"
    using s(4) c by (simp add: timespec_add_def)
  with s(2,3) assms(5) sd show "ticking i d w'" by (simp add: ticking_def)
  assume j: "ticking j e w"
  then have ne: "j \<noteq> i"
    using timers.set_distinct [OF assms(2), of "clock w" d j] s(1) set ticking_passed [OF j] by auto
  have "passed j w' = passed j w"
    using timers.set_other [OF assms(2), of j "clock w" d] ne set by simp
  moreover have "timeout_time (timeouts w') ! unat j = timeout_time (timeouts w) ! unat j"
    using timeout_set_time [OF assms(2) set] ne by simp
  ultimately show "ticking j e w' \<and> j \<noteq> i" using j s(3) c ne by (simp add: ticking_def)
qed

lemma ticking_unset: "ticking j e w \<Longrightarrow> j \<noteq> i \<Longrightarrow> ticking j e (unset_timer i w)"
  using timers.unset_other [of "timeouts w" j i] wf_unset_timer [of w i]
  by (auto simp: ticking_def unset_timer_def timeout_unset_def Let_def)


section \<open>What ACTIVE leaves alone\<close>

text \<open>Everything but the position in the frame, the CF packets, the timers' numbers and the power mode.\<close>

definition fixed :: "MCLMAC_t \<Rightarrow> MCLMAC_t" where
  "fixed m = on_mac (\<lambda>i. i\<lparr>cf_message_received := False, cf_messages := [],
       frame := (frame i)\<lparr>current_slot := 0, current_frame := 0, current_cf_slot := 0, slot_timer := 0, cf_timer := 0\<rparr>\<rparr>)
     (m\<lparr>powerMode := NONEP, nextPowerMode := NONEP, own_networkTime := 0\<rparr>)"

lemma fixed_fields:
  assumes "fixed m' = fixed m"
  shows "selectedSlot (mac m') = selectedSlot (mac m)" "transmitChannel (mac m') = transmitChannel (mac m)"
    "frequencies m' = frequencies m" "nSlots m' = nSlots m" "is_first_node m' = is_first_node m"
    "slots_number (frame (mac m')) = slots_number (frame (mac m))"
    "slot_duration (frame (mac m')) = slot_duration (frame (mac m))"
    "cf_duration (frame (mac m')) = cf_duration (frame (mac m))"
    "collisionDetected (mac m') = collisionDetected (mac m)"
    "is_internal_collision (mac m') = is_internal_collision (mac m)"
    "mac_collisionSlot (mac m') = mac_collisionSlot (mac m)"
    "mac_collisionFrequency (mac m') = mac_collisionFrequency (mac m)"
    "packets_to_send_message (mac m') = packets_to_send_message (mac m)"
    "packets_to_send_control (mac m') = packets_to_send_control (mac m)"
    "number_packets_received (mac m') = number_packets_received (mac m)"
    "mac_queue_id m' = mac_queue_id m" "state_cf m' = state_cf m" "trues m' = trues m" "trues5 m' = trues5 m"
proof -
  have m: "\<And>f. f (fixed m') = f (fixed m)" using assms by simp
  show "frequencies m' = frequencies m" "nSlots m' = nSlots m" "is_first_node m' = is_first_node m"
    "mac_queue_id m' = mac_queue_id m" "state_cf m' = state_cf m" "trues m' = trues m" "trues5 m' = trues5 m"
    using m [of frequencies] m [of nSlots] m [of is_first_node] m [of mac_queue_id] m [of state_cf]
      m [of trues] m [of trues5] by (simp_all add: fixed_def on_mac_def)
  have i: "\<And>f. f (mac (fixed m')) = f (mac (fixed m))" using assms by simp
  show "selectedSlot (mac m') = selectedSlot (mac m)" "transmitChannel (mac m') = transmitChannel (mac m)"
    "slots_number (frame (mac m')) = slots_number (frame (mac m))"
    "slot_duration (frame (mac m')) = slot_duration (frame (mac m))"
    "cf_duration (frame (mac m')) = cf_duration (frame (mac m))"
    "collisionDetected (mac m') = collisionDetected (mac m)"
    "is_internal_collision (mac m') = is_internal_collision (mac m)"
    "mac_collisionSlot (mac m') = mac_collisionSlot (mac m)"
    "mac_collisionFrequency (mac m') = mac_collisionFrequency (mac m)"
    "packets_to_send_message (mac m') = packets_to_send_message (mac m)"
    "packets_to_send_control (mac m') = packets_to_send_control (mac m)"
    "number_packets_received (mac m') = number_packets_received (mac m)"
    using i [of selectedSlot] i [of transmitChannel] i [of "\<lambda>i. slots_number (frame i)"]
      i [of "\<lambda>i. slot_duration (frame i)"] i [of "\<lambda>i. cf_duration (frame i)"] i [of collisionDetected]
      i [of is_internal_collision] i [of mac_collisionSlot] i [of mac_collisionFrequency]
      i [of packets_to_send_message] i [of packets_to_send_control] i [of number_packets_received]
    by (simp_all add: fixed_def on_mac_def)
qed

lemma fixed_has_to_send: "fixed m' = fixed m \<Longrightarrow> has_to_send m' = has_to_send m"
  by (simp add: has_to_send_def fixed_fields [of m' m])

text \<open>The stub answers that no packet has come, and goes on doing so.\<close>

definition hears_nothing :: "MCLMAC_t \<Rightarrow> bool" where
  "hears_nothing m \<longleftrightarrow> state_cf m \<in> {1, 3} \<or> state_cf m = 2 \<and> trues m = 1 \<or>
     state_cf m = 4 \<and> trues m = 2 \<or> state_cf m = 5 \<and> 2 \<le> trues5 m"

lemma fixed_hears_nothing: "fixed m' = fixed m \<Longrightarrow> hears_nothing m' = hears_nothing m"
  by (simp add: hears_nothing_def fixed_fields [of m' m])

lemma silent_receive:
  "hears_nothing (mclmac w) \<Longrightarrow> active_receive True c l w = Inr (l, set_cf_received False w)"
  by (auto simp: hears_nothing_def active_receive_def mclmac_receive_cf_message_def
      receive_cf_message_native_def Let_def)

text \<open>A step of the node: only what is not fixed changes, and no timer but those it sets and releases.\<close>

definition along :: "'k world \<Rightarrow> 'k world \<Rightarrow> bool" where
  "along w w' \<longleftrightarrow> fixed (mclmac w') = fixed (mclmac w) \<and> kernel w' = kernel w \<and>
     slot_timer (frame (internals w')) = slot_timer (frame (internals w))"

lemma along_refl [simp]: "along w w"
  by (simp add: along_def)

lemma along_trans [trans]: "along w w1 \<Longrightarrow> along w1 w2 \<Longrightarrow> along w w2"
  by (simp add: along_def)

lemma fixed_updates [simp]:
  "fixed (on_mac (cf_message_received_update f) m) = fixed m"
  "fixed (on_mac (cf_messages_update g) m) = fixed m"
  "fixed (on_frame (cf_timer_update h) m) = fixed m"
  "fixed (on_frame (slot_timer_update h) m) = fixed m"
  "fixed (mclmac_increase_cf_slot m) = fixed m"
  "fixed (mclmac_start_cf_phase m) = fixed m"
  "fixed (m\<lparr>nextPowerMode := s\<rparr>) = fixed m"
  "fixed (m\<lparr>powerMode := s\<rparr>) = fixed m"
  "fixed (mclmac_set_current_cf_slot m c) = fixed m"
  by (simp_all add: fixed_def mac_access mclmac_start_cf_phase_def mclmac_change_cf_channel_def)

lemma set_cf_received_along [simp]:
  "along w (set_cf_received b w)" "frame (internals (set_cf_received b w)) = frame (internals w)"
  "timeouts (set_cf_received b w) = timeouts w" "clock (set_cf_received b w) = clock w"
  "script (set_cf_received b w) = script w"
  by (simp_all add: along_def set_cf_received_def) (simp_all add: on_mac_def)

section \<open>Announcing\<close>

text \<open>An announcement takes one lapse and a microsecond.\<close>

lemma announce_lapses:
  assumes "lapses s (Suc n) w"
  shows "\<exists>w'. announce dest w = Inr w' \<and> lapses s n w' \<and> along w w' \<and>
    frame (internals w') = frame (internals w) \<and> (\<forall>i d. ticking i d w \<longrightarrow> ticking i d w')"
proof -
  define v where "v = snd (c_rand (on_mclmac (\<lambda>m. on_mac (\<lambda>i. i\<lparr>cf_messages := (cf_messages i)
      [0 := cfpacket_create (cf_messages i ! 0) (mclmac_get_nodeid m) dest]\<rparr>) m) w))"
  have v: "script v = script w" "timeouts v = timeouts w" "clock v = clock w" "along w v"
    "frame (internals v) = frame (internals w)"
    by (simp_all add: v_def c_rand_def along_def) (simp_all add: on_mac_def fixed_def)
  have "lapses s (Suc n) v" using assms lapses_script [OF v(1)] by simp
  then obtain e v1 where wait: "wait_round v = Inr v1" and after: "after_lapse s n e v v1"
    by (rule lapses_wait)
  note e = wait after_lapseD(1-3) [OF after] and tick = after_lapseD(5,7) [OF after]
  let ?w = "on_mclmac (on_mac (\<lambda>i. i\<lparr>cf_messages := (cf_messages i)[0 := cfpacket_clear (cf_messages i ! 0)]\<rparr>))
      (v1\<lparr>clock := clock v1 + 1\<rparr>)"
  have "announce dest w = Inr ?w"
    using e(1) by (simp add: announce_def mclmac_send_cf_message_def Let_def cf_encode c_rand_def
        ztimer_sleep_def mclmac_set_radio_standby_def v_def on_mclmac_def)
  moreover have "lapses s n ?w" using e(4) by (simp add: lapses_def)
  moreover have "along w ?w" "frame (internals ?w) = frame (internals w)"
    using v(4,5) e(2,3) by (simp_all add: along_def) (simp_all add: on_mac_def fixed_def)
  moreover have "ticking i d ?w" if "ticking i d w" for i d
  proof -
    have v': "ticking i d v" using that ticking_same [OF v(2,3)] by blast
    note v1 = tick(1) [OF v']
    show ?thesis
    proof (cases "passed i v1 = 0")
      case True
      let ?left = "timeout_time (timeouts v1) ! unat i - clock v1"
      have pos: "0 < sint ?left" using tick(2) [OF v' True] .
      then have "sint (?left - 1) = sint ?left - 1" using sint_minus [of ?left 1] by simp
      with v1 True pos show ?thesis by (simp add: ticking_def diff_diff_eq)
    qed (use v1 in \<open>simp add: ticking_def\<close>)
  qed
  ultimately show ?thesis by blast
qed

lemma active_send_lapses:
  assumes "lapses s (Suc (Suc n)) w"
  shows "\<exists>l' w'. active_send l w = Inr (l', w') \<and> along w w' \<and> frame (internals w') = frame (internals w) \<and>
    (\<forall>i d. ticking i d w \<longrightarrow> ticking i d w') \<and>
    (if has_to_send (mclmac w) then l' = l\<lparr>send := True, is_current := False\<rparr> \<and> lapses s n w' else l' = l \<and> w' = w)"
proof -
  let ?ready = "packets_to_send_message (internals w) > 0 \<or> packets_to_send_control (internals w) > 0 \<or>
    collisionDetected (internals w)"
  obtain l1 w1 where first: "(if ?ready then rbind (announce (mac_destination_id (internals w)) w) (\<lambda>w1.
        Inr (l\<lparr>send := True, is_current := False\<rparr>, w1)) else Inr (l, w)) = Inr (l1, w1)"
    and w1: "along w w1" "frame (internals w1) = frame (internals w)" "\<forall>i d. ticking i d w \<longrightarrow> ticking i d w1"
      "if ?ready then l1 = l\<lparr>send := True, is_current := False\<rparr> \<and> lapses s (Suc n) w1 else l1 = l \<and> w1 = w"
    using announce_lapses [OF assms, of "mac_destination_id (internals w)"] by (cases ?ready) auto
  have same: "is_first_node (mclmac w1) = is_first_node (mclmac w)"
    using w1(1) fixed_fields(5) [of "mclmac w1" "mclmac w"] by (simp add: along_def)
  have "lapses s (Suc n) w1" using w1(4) lapses_fewer [OF assms, of "Suc n"] by (auto split: if_splits)
  from announce_lapses [OF this, of "(0, 0)"] obtain w2 where w2: "announce (0, 0) w1 = Inr w2" "lapses s n w2"
    "along w1 w2" "frame (internals w2) = frame (internals w1)" "\<forall>i d. ticking i d w1 \<longrightarrow> ticking i d w2" by blast
  show ?thesis
  proof (cases "is_first_node (mclmac w)")
    case True
    then have "active_send l w = Inr (l\<lparr>send := True, is_current := False\<rparr>, w2)"
      using first w1(4) w2(1) same by (simp add: active_send_def Let_def split: if_splits)
    with True w1 w2 along_trans [OF w1(1) w2(3)] show ?thesis by (simp add: has_to_send_def)
  next
    case False
    then have "active_send l w = Inr (l1, w1)" using first same by (simp add: active_send_def Let_def)
    with False w1 lapses_fewer [of s "Suc n" w1 n] show ?thesis
      by (auto simp: has_to_send_def split: if_splits)
  qed
qed

section \<open>The loop over the contention-free slots\<close>

text \<open>The CF timer runs in one of the eight slots, and beside it the timers \<open>K\<close>, each with its duration.\<close>

definition all_tick :: "(u32 \<times> u32) set \<Rightarrow> 'k world \<Rightarrow> bool" where
  "all_tick K w \<longleftrightarrow> (\<forall>(i, d) \<in> K. ticking i d w)"

definition cf_runs :: "(u32 \<times> u32) set \<Rightarrow> 'k world \<Rightarrow> bool" where
  "cf_runs K w \<longleftrightarrow> ticking (cf_timer (frame (internals w))) 500 w \<and> cf_duration (frame (internals w)) = 500 \<and>
     unat (current_cf_slot (frame (internals w))) < 8 \<and> all_tick K w \<and> cf_timer (frame (internals w)) \<notin> fst ` K"

lemma all_tick_same: "timeouts w' = timeouts w \<Longrightarrow> clock w' = clock w \<Longrightarrow> all_tick K w' = all_tick K w"
  using ticking_same [of w' w] by (simp add: all_tick_def)

lemma cf_runs_later:
  assumes "cf_runs K w" and "\<And>i d. ticking i d w \<Longrightarrow> ticking i d w'" and "frame (internals w') = frame (internals w)"
  shows "cf_runs K w'"
  using assms by (auto simp: cf_runs_def all_tick_def)

lemma arm_cf_runs:
  assumes "wf_timeouts (timeouts w)" and "some_free_slot (timeouts w)" and "all_tick K w"
    and "cf_duration (frame (internals w)) = 500" and "unat (current_cf_slot (frame (internals w))) < 8"
  defines "w' \<equiv> arm_cf_timer w"
  shows "cf_runs K w'" "along w w'" "script w' = script w"
    "current_cf_slot (frame (internals w')) = current_cf_slot (frame (internals w))"
proof -
  obtain i x where set: "set_timer 500 w = (i, x)" by (cases "set_timer 500 w")
  have w': "w' = on_mclmac (on_frame (cf_timer_update (\<lambda>_. i))) x"
    by (simp add: w'_def arm_cf_timer_def assms(4) set)
  note fr = set_timer_frame [OF set]
  have "fixed (mclmac w') = fixed (mclmac w)" using fr by (simp add: w')
  then show "along w w'" using fr by (simp add: w' along_def) (simp add: mac_access)
  show "script w' = script w"
    "current_cf_slot (frame (internals w')) = current_cf_slot (frame (internals w))"
    using fr by (simp_all add: w' mac_access)
  have same: "timeouts w' = timeouts x" "clock w' = clock x" by (simp_all add: w')
  note t = ticking_set [OF set assms(1,2)]
  have "all_tick K x" "i \<notin> fst ` K" using assms(3) t(2) by (fastforce simp: all_tick_def)+
  moreover have "ticking i 500 x" using t(1) by simp
  ultimately show "cf_runs K w'"
    using assms(4,5) fr ticking_same [OF same] all_tick_same [OF same] by (simp add: cf_runs_def w' mac_access)
qed

lemma cf_slot_step_runs:
  assumes "cf_runs K w" and "cf_slot_step w = (ended, w1)"
  shows "along w w1" "script w1 = script w"
    "ended \<Longrightarrow> unat (current_cf_slot (frame (internals w))) = 7 \<and> all_tick K w1 \<and> some_free_slot (timeouts w1)"
    "\<not> ended \<Longrightarrow> cf_runs K w1 \<and> unat (current_cf_slot (frame (internals w1))) =
       unat (current_cf_slot (frame (internals w))) + (if passed (cf_timer (frame (internals w))) w = 1 then 1 else 0)"
proof -
  let ?i = "cf_timer (frame (internals w))" and ?c = "current_cf_slot (frame (internals w))"
  define u where "u = on_mclmac mclmac_increase_cf_slot (unset_timer ?i w)"
  have t: "ticking ?i 500 w" "all_tick K w" "?i \<notin> fst ` K" "unat ?c < 8" "cf_duration (frame (internals w)) = 500"
    using assms(1) by (simp_all add: cf_runs_def)
  have un: "timeouts u = timeouts (unset_timer ?i w)" "clock u = clock (unset_timer ?i w)" by (simp_all add: u_def)
  have "ticking j d (unset_timer ?i w)" if "(j, d) \<in> K" for j d
    by (rule ticking_unset) (use that t(2,3) in \<open>force simp: all_tick_def\<close>)+
  then have "all_tick K (unset_timer ?i w)" by (auto simp: all_tick_def)
  then have K: "all_tick K u" using all_tick_same [OF un] by simp
  have wf: "wf_timeouts (timeouts u)" using wf_unset_timer [OF ticking_wf [OF t(1)]] un(1) by simp
  have free: "some_free_slot (timeouts u)"
    using unset_frees(1) [OF ticking_wf [OF t(1)] ticking_passed [OF t(1)]] un(1) by (simp add: unset_timer_def)
  have inc: "unat (?c + 1) = unat ?c + 1" using t(4) by (simp add: unat_inc)
  have "fixed (mclmac u) = fixed (mclmac w)" by (simp add: u_def)
  then have u: "along w u" "script u = script w" "cf_duration (frame (internals u)) = 500"
    "current_cf_slot (frame (internals u)) = ?c + 1"
    using t(5) by (simp_all add: u_def along_def) (simp_all add: mac_access)
  have last: "?c + 1 = 8 \<longleftrightarrow> unat ?c = 7" using inc by (simp add: word_unat_eq_iff)
  have step: "cf_slot_step w = (if passed ?i w = 1 then if ?c + 1 = 8 then (True, u) else (False, arm_cf_timer u)
      else (False, w))"
    using u(4) by (simp add: cf_slot_step_def Let_def mclmac_get_current_cf_slot_def flip: u_def)
  note arm = arm_cf_runs [OF wf free K u(3)]
  show "along w w1" "script w1 = script w"
    using step assms(2) u arm(2,3) t(4) last inc along_trans [OF u(1)] by (auto split: if_splits)
  show "unat ?c = 7 \<and> all_tick K w1 \<and> some_free_slot (timeouts w1)" if ended
    using step assms(2) that last K free by (auto split: if_splits)
  show "cf_runs K w1 \<and> unat (current_cf_slot (frame (internals w1))) =
       unat ?c + (if passed ?i w = 1 then 1 else 0)" if "\<not> ended"
    using step assms that last inc arm(1,4) u(4) t(4) by (auto split: if_splits)
qed

text \<open>The loop's scripts get no longer.\<close>

lemma announce_script: "announce dest w = Inr w' \<Longrightarrow> length (script w') \<le> length (script w)"
  by (auto simp: announce_def mclmac_send_cf_message_def Let_def cf_encode c_rand_def ztimer_sleep_def
      rbind_eq_Inr dest!: wait_round_Inr(4))

lemma random_cf_script [simp]: "script (random_cf_packet w) = script w" "script (set_cf_received b w) = script w"
  by (simp_all add: random_cf_packet_def c_rand_def set_cf_received_def)

lemma receive_cf_script: "mclmac_receive_cf_message testing w = (b, w') \<Longrightarrow> script w' = script w"
  by (auto simp: mclmac_receive_cf_message_def receive_cf_message_native_def Let_def c_rand_def
      split: if_splits)

lemma active_receive_script:
  assumes "active_receive testing c l w = Inr (l', w')"
  shows "script w' = script w"
proof -
  obtain b w1 where "mclmac_receive_cf_message testing w = (b, w1)"
    by (cases "mclmac_receive_cf_message testing w")
  with assms receive_cf_script [OF this] show ?thesis
    by (auto simp: active_receive_def Let_def rbind_eq_Inr split: if_splits)
qed

lemma active_send_script:
  assumes "active_send l w = Inr (l', w')"
  shows "length (script w') \<le> length (script w)"
proof -
  from assms obtain l1 w1 where
    "w1 = w \<or> announce (mac_destination_id (internals w)) w = Inr w1"
    "w' = w1 \<or> announce (0, 0) w1 = Inr w'"
    by (auto simp: active_send_def Let_def rbind_eq_Inr split: if_splits)
  with announce_script [of _ w w1] announce_script [of _ w1 w'] show ?thesis by fastforce
qed

lemma arm_cf_script: "script (arm_cf_timer w) = script w"
  by (auto simp: arm_cf_timer_def split: prod.splits dest!: set_timer_frame)

lemma active_round_consumes: "consumes (active_round testing f)"
  unfolding consumes_def
proof (intro allI impI)
  fix l w again l' and w' :: "'a world"
  assume round: "active_round testing f l w = Inr (again, l', w')"
  obtain ended w1 where step: "cf_slot_step w = (ended, w1)" by (cases "cf_slot_step w")
  then have w1: "script w1 = script w"
    by (auto simp: cf_slot_step_def Let_def arm_cf_script split: if_splits)
  from round step have "w' = w1 \<or> active_send l w1 = Inr (l', w') \<or>
      active_receive testing (current_cf_slot (frame (internals w))) l w1 = Inr (l', w')"
    by (auto simp: active_round_def Let_def rbind_eq_Inr mac_access split: if_splits)
  with active_send_script active_receive_script w1 show "length (script w') \<le> length (script w)"
    by fastforce
qed

text \<open>
  The invariant of the loop for a node that hears nothing, relative to the beginning \<open>w0\<close>: it has not
  received; it has sent only in its own slot, having something to send, and has yet to send only while
  its channel may still come. The lapses left are enough for the slots to come and the announcements,
  and \<open>r\<close> more.
\<close>

definition my_channel :: "MCLMAC_t \<Rightarrow> nat \<Rightarrow> bool" where
  "my_channel m q \<longleftrightarrow> q < 7 \<and> frequencies m ! q = transmitChannel (mac m)"

definition announces :: "MCLMAC_t \<Rightarrow> bool" where
  "announces m \<longleftrightarrow> own_slot m \<and> has_to_send m"

definition cf_phase_on :: "'k world \<Rightarrow> u32 \<Rightarrow> nat \<Rightarrow> (u32 \<times> u32) set \<Rightarrow> active_locals \<Rightarrow> 'k world \<Rightarrow> bool" where
  "cf_phase_on w0 s r K l w \<longleftrightarrow> (let c = unat (current_cf_slot (frame (internals w))); m = mclmac w0 in
     along w0 w \<and> cf_runs K w \<and> lapses s (8 - c + (if is_current l then 2 else 0) + r) w \<and>
     \<not> receive l \<and> packets l = 0 \<and> (is_current l \<longrightarrow> own_slot m) \<and> (send l \<longrightarrow> announces m) \<and>
     (announces m \<longrightarrow> send l \<or> is_current l \<and> (\<forall>q. my_channel m q \<longrightarrow> c \<le> q)))"

definition cf_phase_over :: "'k world \<Rightarrow> u32 \<Rightarrow> nat \<Rightarrow> (u32 \<times> u32) set \<Rightarrow> active_locals \<Rightarrow> 'k world \<Rightarrow> bool" where
  "cf_phase_over w0 s r K l w \<longleftrightarrow> along w0 w \<and> all_tick K w \<and> some_free_slot (timeouts w) \<and> lapses s r w \<and>
     \<not> receive l \<and> packets l = 0 \<and> (send l \<longrightarrow> announces (mclmac w0)) \<and>
     (announces (mclmac w0) \<and> (\<exists>q. my_channel (mclmac w0) q) \<longrightarrow> send l)"

lemma phase_send:
  assumes "along w0 w" and "cf_runs K w"
    and "lapses s (Suc (Suc (8 - unat (current_cf_slot (frame (internals w))) + r))) w"
    and "is_current l" "\<not> receive l" "packets l = 0" "is_current l \<longrightarrow> own_slot (mclmac w0)" "send l \<longrightarrow> announces (mclmac w0)"
  shows "\<exists>l' w'. active_send l w = Inr (l', w') \<and> cf_phase_on w0 s r K l' w'"
proof -
  obtain l' w' where w': "active_send l w = Inr (l', w')"
    "along w w'" "frame (internals w') = frame (internals w)" "\<And>i d. ticking i d w \<Longrightarrow> ticking i d w'"
    "if has_to_send (mclmac w) then l' = l\<lparr>send := True, is_current := False\<rparr> \<and>
       lapses s (8 - unat (current_cf_slot (frame (internals w))) + r) w' else l' = l \<and> w' = w"
    using active_send_lapses [OF assms(3), of l] by blast
  have "cf_runs K w'" by (rule cf_runs_later [OF assms(2) w'(4,3)])
  moreover have "has_to_send (mclmac w) = has_to_send (mclmac w0)"
    using assms(1) fixed_has_to_send [of "mclmac w" "mclmac w0"] by (simp add: along_def)
  ultimately have "cf_phase_on w0 s r K l' w'"
    using assms(3-8) w'(3,5) along_trans [OF assms(1) w'(2)]
    by (auto simp: cf_phase_on_def announces_def Let_def split: if_splits)
  with w'(1) show ?thesis by blast
qed

lemma phase_listen:
  assumes "cf_phase_on w0 s r K l w" and "hears_nothing (mclmac w0)"
  shows "\<exists>w'. active_receive True c l w = Inr (l, w') \<and> cf_phase_on w0 s r K l w'"
proof -
  let ?w = "set_cf_received False w"
  from assms(1) have along: "along w0 w" and runs: "cf_runs K w" by (simp_all add: cf_phase_on_def Let_def)
  then have "hears_nothing (mclmac w)" using assms(2) fixed_hears_nothing [of "mclmac w" "mclmac w0"] by (simp add: along_def)
  moreover have "cf_runs K ?w" by (rule cf_runs_later [OF runs]) (simp_all add: ticking_same [of ?w w])
  moreover have "along w0 ?w" by (rule along_trans [OF along]) simp
  ultimately show ?thesis
    using assms(1) lapses_script [of ?w w] by (simp add: silent_receive cf_phase_on_def Let_def)
qed

lemma active_round_phase:
  assumes "cf_phase_on w0 s r K l w" and "hears_nothing (mclmac w0)" and "500 \<le> s"
  shows "\<exists>w1 again l' w'. wait_round w = Inr w1 \<and>
    active_round True (transmitChannel (internals w0)) l w1 = Inr (again, l', w') \<and>
    (if again then cf_phase_on w0 s r K l' w' else cf_phase_over w0 s r K l' w')"
proof -
  let ?m = "mclmac w0" and ?f = "transmitChannel (internals w0)"
  let ?c = "unat (current_cf_slot (frame (internals w)))"
  let ?n = "7 - ?c + (if is_current l then 2 else 0) + r"
  have c: "?c < 8" using assms(1) by (simp add: cf_phase_on_def cf_runs_def Let_def)
  then have "Suc ?n = 8 - ?c + (if is_current l then 2 else 0) + r" by simp
  then have inv: "along w0 w" "cf_runs K w" "lapses s (Suc ?n) w" "\<not> receive l" "packets l = 0"
    "is_current l \<longrightarrow> own_slot ?m" "send l \<longrightarrow> announces ?m"
    "announces ?m \<longrightarrow> send l \<or> is_current l \<and> (\<forall>q. my_channel ?m q \<longrightarrow> ?c \<le> q)"
    using assms(1) unfolding cf_phase_on_def Let_def by metis+
  from inv(3) obtain e v where wait: "wait_round w = Inr v" and after: "after_lapse s ?n e w v"
    by (rule lapses_wait)
  note v = after_lapseD [OF after]
  have cv: "current_cf_slot (frame (internals v)) = current_cf_slot (frame (internals w))" using v(1) by simp
  have runs: "cf_runs K v" by (rule cf_runs_later [OF inv(2) v(5)]) (simp_all add: v(1))
  have along_v: "along w0 v" using inv(1) v(1,2) by (simp add: along_def)
  obtain ended u where step: "cf_slot_step v = (ended, u)" by (cases "cf_slot_step v")
  note cf = cf_slot_step_runs [OF runs step]
  have along_u: "along w0 u" using along_trans [OF along_v cf(1)] .
  then have fixed: "fixed (mclmac u) = fixed ?m" by (simp add: along_def)
  have freq: "frequencies (mclmac v) ! ?c = frequencies ?m ! ?c"
    using along_v fixed_fields(3) [of "mclmac v" ?m] by (simp add: along_def)
  let ?at = "is_current l \<and> ?f = frequencies ?m ! ?c"
  have round: "active_round True ?f l v = (if ended then Inr (False, l, u) else
      rbind (if ?at then active_send l u else active_receive True (current_cf_slot (frame (internals w))) l u)
        (\<lambda>(l', w2). Inr (True, l', w2)))"
    using c step cv freq by (simp add: active_round_def Let_def mclmac_get_frequency_def mclmac_get_current_cf_slot_def)
  show ?thesis
  proof (cases ended)
    case True
    from cf(3) [OF True] cv have "?c = 7" "all_tick K u" "some_free_slot (timeouts u)" by simp_all
    moreover from \<open>?c = 7\<close> have "\<not> my_channel ?m q" if "\<forall>q. my_channel ?m q \<longrightarrow> ?c \<le> q" for q
      using that by (auto simp: my_channel_def)
    moreover have "lapses s r u"
      using lapses_fewer [OF v(3), of r] lapses_script [OF cf(2)] by simp
    ultimately have "cf_phase_over w0 s r K l u"
      using inv along_u by (auto simp: cf_phase_over_def)
    with wait round True show ?thesis by auto
  next
    case False
    let ?cu = "unat (current_cf_slot (frame (internals u)))"
    note u = cf(4) [OF False]
    have cu: "?cu < 8" "?c \<le> ?cu" "?cu \<le> Suc ?c" using u cv by (auto simp: cf_runs_def)
    have left: "lapses s (8 - ?cu + (if is_current l then 2 else 0) + r) u"
    proof (cases "s \<le> e")
      case True
      then have "500 \<le> e" using assms(3) by simp
      then have "passed (cf_timer (frame (internals v))) v = 1"
        using v(6) [of "cf_timer (frame (internals w))" 500] inv(2) v(1) by (simp add: cf_runs_def)
      with u cv have "?cu = Suc ?c" by simp
      with v(3) lapses_script [OF cf(2)] show ?thesis by (simp add: Suc_diff_le)
    next
      case False
      from lapses_fewer [OF v(4) [OF False]] cu c have "lapses s (8 - ?cu + (if is_current l then 2 else 0) + r) v"
        by (simp add: Suc_diff_le)
      with lapses_script [OF cf(2)] show ?thesis by simp
    qed
    show ?thesis
    proof (cases ?at)
      case True
      with left have "lapses s (Suc (Suc (8 - ?cu + r))) u" by simp
      from phase_send [OF along_u _ this] True u inv obtain l' w' where
        "active_send l u = Inr (l', w')" "cf_phase_on w0 s r K l' w'" by blast
      with wait round False True show ?thesis by auto
    next
      case at: False
      have "?cu \<le> q" if "\<forall>q. my_channel ?m q \<longrightarrow> ?c \<le> q" "my_channel ?m q" "is_current l" for q
      proof -
        have "?c \<noteq> q" using at that(2,3) by (auto simp: my_channel_def)
        with that(1,2) cu(3) show ?thesis by fastforce
      qed
      then have "cf_phase_on w0 s r K l u" using u inv along_u left by (auto simp: cf_phase_on_def Let_def)
      from phase_listen [OF this assms(2)] obtain w' where
        "active_receive True (current_cf_slot (frame (internals w))) l u = Inr (l, w')" "cf_phase_on w0 s r K l w'" by blast
      with wait round False at show ?thesis by auto
    qed
  qed
qed

section \<open>The whole state\<close>

lemma active_lapses:
  assumes "wf_timeouts (timeouts w)" and "some_free_slot (timeouts w)" and "all_tick K w"
    and "cf_duration (frame (internals w)) = 500" and "hears_nothing (mclmac w)" and "lapses s (10 + r) w" and "500 \<le> s"
  shows "\<exists>w'. execute_active True w = Inr (E_PM_EXECUTION_SUCCESS, w') \<and> along w w' \<and> all_tick K w' \<and>
    some_free_slot (timeouts w') \<and> lapses s r w' \<and> length (script w') \<le> length (script w) \<and>
    (nextPowerMode (mclmac w') = PASSIVE \<or> nextPowerMode (mclmac w') = TRANSMIT \<and> announces (mclmac w)) \<and>
    (announces (mclmac w) \<and> (\<exists>q. my_channel (mclmac w) q) \<longrightarrow> nextPowerMode (mclmac w') = TRANSMIT)"
proof -
  define v where "v = on_mclmac mclmac_start_cf_phase w"
  let ?l = "\<lparr>is_current = own_slot (mclmac w), send = False, receive = False, packets = 0\<rparr>"
  have same: "timeouts v = timeouts w" "clock v = clock w" by (simp_all add: v_def)
  have v: "along w v" "current_cf_slot (frame (internals v)) = 0" "cf_duration (frame (internals v)) = 500"
    "script v = script w" "own_slot (mclmac v) = own_slot (mclmac w)"
    using assms(4) by (simp_all add: v_def along_def)
      (simp_all add: mclmac_start_cf_phase_def mac_access own_slot_def)
  have start: "active_start w = (?l, arm_cf_timer v)"
    using v(5) by (simp add: active_start_def Let_def flip: v_def)
  note arm = arm_cf_runs [of v K, unfolded same v(2,3), OF assms(1,2) all_tick_same [OF same, THEN iffD2, OF assms(3)]]
  have "cf_phase_on w s r K ?l (arm_cf_timer v)"
    using arm v lapses_fewer [OF assms(6)] lapses_script [of "arm_cf_timer v" w] along_trans [of w v]
    by (simp add: cf_phase_on_def announces_def)
  then have "\<exists>l u. run_loop (active_round True (transmitChannel (internals w))) ?l (arm_cf_timer v) = Inr (l, u) \<and>
      cf_phase_over w s r K l u"
  proof (rule run_loop_ends)
    fix l and x :: "'a world" assume "cf_phase_on w s r K l x"
    from active_round_phase [OF this assms(5,7)] obtain x1 again l' x' where "wait_round x = Inr x1"
      and round: "active_round True (transmitChannel (internals w)) l x1 = Inr (again, l', x')"
      and "if again then cf_phase_on w s r K l' x' else cf_phase_over w s r K l' x'" by blast
    moreover note round
    moreover have "length (script x') \<le> length (script x1)"
      by (rule active_round_consumes [unfolded consumes_def, rule_format, OF round])
    ultimately show "\<exists>x1 again l' x'. wait_round x = Inr x1 \<and>
        active_round True (transmitChannel (internals w)) l x1 = Inr (again, l', x') \<and>
        (if again then cf_phase_on w s r K l' x' \<and> length (script x') \<le> length (script x1) else cf_phase_over w s r K l' x')"
      by (auto split: if_splits)
  qed
  then obtain l u where loop: "run_loop (active_round True (transmitChannel (internals w))) ?l (arm_cf_timer v) = Inr (l, u)"
    and over: "cf_phase_over w s r K l u" by blast
  let ?w = "on_mclmac (nextPowerMode_update (\<lambda>_. if send l then TRANSMIT else PASSIVE)) u"
  have "execute_active True w = Inr (E_PM_EXECUTION_SUCCESS, ?w)"
    using over by (simp add: execute_active_start start loop active_decide_def cf_phase_over_def)
  moreover have "along w ?w" using over by (simp add: cf_phase_over_def along_def)
  moreover have "all_tick K ?w" "some_free_slot (timeouts ?w)" "lapses s r ?w"
    using over all_tick_same [of ?w u K] lapses_script [of ?w u] by (simp_all add: cf_phase_over_def)
  moreover have "length (script ?w) \<le> length (script w)"
    using run_loop_consumes [OF loop active_round_consumes] arm(3) v(4) by simp
  ultimately show ?thesis using over by (auto simp: cf_phase_over_def)
qed

text \<open>
  C37. The contention-free phase ends, with the right decision, however the time passes. The build is
  the one for tests, the only one that compiles, with a stub that hears no packet any more; the timers
  are in order, one of them is free, and the contention-free slots have their length. Let time pass in
  any steps below \<open>2 ^ 30\<close> microseconds, each followed by the timer interrupt, ten of which last 500
  microseconds or more: eight for the slots, and two for announcements. Then ACTIVE ends with success,
  and with the lapses that there are beyond the ten. A node that is not in its own slot, or has nothing
  to send, goes back to PASSIVE. A node in its own slot with something to send goes to TRANSMIT when its
  channel is one of the first seven; in the slot of the eighth the phase may end before it announces.
\<close>

theorem silent_active_ends:
  assumes "wf_timeouts (timeouts w)" and "some_free_slot (timeouts w)"
    and "cf_duration (frame (internals w)) = CF_SLOT_DURATION" and "hears_nothing (mclmac w)"
    and "lapses 500 (10 + r) w"
  shows "\<exists>w'. execute_active True w = Inr (E_PM_EXECUTION_SUCCESS, w') \<and> lapses 500 r w' \<and>
    nextPowerMode (mclmac w') \<in> {PASSIVE, TRANSMIT} \<and>
    (\<not> (own_slot (mclmac w) \<and> has_to_send (mclmac w)) \<longrightarrow> nextPowerMode (mclmac w') = PASSIVE) \<and>
    (own_slot (mclmac w) \<and> has_to_send (mclmac w) \<and>
       (\<exists>q < 7. frequencies (mclmac w) ! q = transmitChannel (internals w)) \<longrightarrow>
     nextPowerMode (mclmac w') = TRANSMIT)"
proof -
  have "all_tick {} w" by (simp add: all_tick_def)
  moreover have "cf_duration (frame (internals w)) = 500" using assms(3) by simp
  ultimately obtain w' where "execute_active True w = Inr (E_PM_EXECUTION_SUCCESS, w')" "lapses 500 r w'"
    "nextPowerMode (mclmac w') = PASSIVE \<or> nextPowerMode (mclmac w') = TRANSMIT \<and> announces (mclmac w)"
    "announces (mclmac w) \<and> (\<exists>q. my_channel (mclmac w) q) \<longrightarrow> nextPowerMode (mclmac w') = TRANSMIT"
    using active_lapses [OF assms(1,2) _ _ assms(4,5) order.refl] by blast
  then show ?thesis by (auto simp: announces_def my_channel_def)
qed

text \<open>A node in its own slot, or in another, with something to send.\<close>

definition listening_in :: "u8 \<Rightarrow> (pid \<times> (pid \<Rightarrow> msg_t list)) world" where
  "listening_in s = on_mclmac (\<lambda>m. (on_mac (\<lambda>i. i\<lparr>selectedSlot := s, transmitChannel := 903000000, packets_to_send_control := 1\<rparr>)
     (on_frame (\<lambda>f. f\<lparr>cf_duration := 500\<rparr>) m))\<lparr>powerMode := ACTIVE, state_cf := 1\<rparr>)
     (sample_world\<lparr>script := replicate 10 (lapse 501)\<rparr>)"

abbreviation listening :: "(pid \<times> (pid \<Rightarrow> msg_t list)) world" where
  "listening \<equiv> listening_in 5"

lemma listening_ready:
  "wf_timeouts (timeouts (listening_in s))" "some_free_slot (timeouts (listening_in s))"
  "cf_duration (frame (internals (listening_in s))) = CF_SLOT_DURATION" "hears_nothing (mclmac (listening_in s))"
  "lapses 500 (10 + 0) (listening_in s)" "own_slot (mclmac (listening_in s)) = (s = 0)"
  "has_to_send (mclmac (listening_in s))" "frequencies (mclmac (listening_in s)) ! 0 = transmitChannel (internals (listening_in s))"
proof -
  have t: "timeouts (listening_in s) = static_timeouts" by (simp add: listening_in_def sample_world_def)
  show "wf_timeouts (timeouts (listening_in s))" unfolding t
    by (simp add: wf_timeouts_def static_timeouts_def)
  show "some_free_slot (timeouts (listening_in s))" unfolding t some_free_slot_def
    by (rule exI [of _ 0]) (simp add: free_slot_def static_timeouts_def)
  show "own_slot (mclmac (listening_in s)) = (s = 0)"
    by (auto simp: own_slot_def listening_in_def mac_access sample_world_def MAC_internals_init_def
        zero_mac_internals_def zero_frame_def)
  show "lapses 500 (10 + 0) (listening_in s)"
    unfolding lapses_def by (rule exI [of _ "replicate 10 501"]) (simp add: listening_in_def)
qed (simp_all add: listening_in_def mac_access has_to_send_def hears_nothing_def sample_world_def FREQUENCIES_def zero_mclmac_def)

lemma silent_active_ends_witness:
  "(\<exists>w'. execute_active True (listening_in 5) = Inr (E_PM_EXECUTION_SUCCESS, w') \<and> nextPowerMode (mclmac w') = PASSIVE) \<and>
   (\<exists>w'. execute_active True (listening_in 0) = Inr (E_PM_EXECUTION_SUCCESS, w') \<and> nextPowerMode (mclmac w') = TRANSMIT)"
  using silent_active_ends [OF listening_ready(1-5) [of 5]] silent_active_ends [OF listening_ready(1-5) [of 0]]
    listening_ready(6-8) [of 5] listening_ready(6-8) [of 0] by force

lemma listening_active: "\<exists>w'. execute_active True listening = Inr (E_PM_EXECUTION_SUCCESS, w')"
proof -
  have "all_tick {} listening" by (simp add: all_tick_def)
  moreover have "cf_duration (frame (internals listening)) = 500" using listening_ready(3) [of 5] by simp
  ultimately show ?thesis using active_lapses [OF listening_ready(1,2) _ _ listening_ready(4,5) order.refl] by blast
qed

lemma active_outcome_witness:
  "\<exists>w'. execute_active True listening = Inr (E_PM_EXECUTION_SUCCESS, w') \<and>
     current_cf_slot (frame (internals w')) = 8 \<and> nextPowerMode (mclmac w') \<noteq> TRANSMIT"
proof -
  obtain w' where run: "execute_active True listening = Inr (E_PM_EXECUTION_SUCCESS, w')"
    using listening_active by blast
  from active_outcome [OF run] listening_ready(6) [of 5] run show ?thesis by auto
qed

lemma active_never_fails_witness:
  "execute_active True (listening\<lparr>script := []\<rparr>) = Inl Still_running"
proof -
  have "execute_active True (listening\<lparr>script := []\<rparr>) = Inl Still_running"
    by (simp add: execute_active_start active_start_def Let_def run_loop_Nil arm_cf_script)
  from active_never_fails [OF this] this show ?thesis by simp
qed

end
