(* ===== verification/Mac_Machine.thy ===== *)
theory Mac_Machine
  imports Power_Mode
begin

text \<open>
  The state machine of the MAC layer, \<open>MAC_StateMachine.c\<close>: a node starts, listens for a network,
  synchronises with it, selects a slot and a channel, and runs the power mode machine while it has
  access to the medium. \<open>pid\<close> is the number of the calling thread, \<open>thread_getpid()\<close>.
\<close>

section \<open>Transitions\<close>

definition mclmac_set_MAC_state :: "MCLMAC_t \<Rightarrow> state_t \<Rightarrow> MCLMAC_t result" where
  "mclmac_set_MAC_state m state = assert_that (state \<noteq> NONE) (Inr (m\<lparr>currentState := state\<rparr>))"

definition mclmac_set_next_MAC_state :: "MCLMAC_t \<Rightarrow> state_t \<Rightarrow> MCLMAC_t result" where
  "mclmac_set_next_MAC_state m next =
     assert_that (next \<noteq> NONE) (assert_that (next \<noteq> START) (Inr (m\<lparr>nextState := next\<rparr>)))"

definition mclmac_get_MAC_state :: "MCLMAC_t \<Rightarrow> state_t" where
  "mclmac_get_MAC_state m = currentState m"

definition enter_MAC_state :: "MCLMAC_t \<Rightarrow> state_t \<Rightarrow> (MAC_STATEMACHINE_ERRORS \<times> MCLMAC_t) result" where
  "enter_MAC_state m s = rbind (mclmac_set_MAC_state m s) (\<lambda>m'. Inr (E_MAC_TRANSITION_SUCCESS, m'))"

definition mclmac_update_mac_state_machine ::
    "MCLMAC_t \<Rightarrow> (MAC_STATEMACHINE_ERRORS \<times> MCLMAC_t) result" where
  "mclmac_update_mac_state_machine m =
     (if currentState m = nextState m then Inr (E_MAC_NO_TRANSITION, m)
      else
        (case nextState m of
          NONE \<Rightarrow> Inr (E_MAC_NO_TRANSITION, m)
        | INITIALIZATION \<Rightarrow>
            (if currentState m = START \<or> currentState m = MEDIUM_ACCESS
             then enter_MAC_state m INITIALIZATION else Inr (E_MAC_TRANSITION_ERROR, m))
        | SYNCHRONIZATION \<Rightarrow>
            (if currentState m = START then Inr (E_MAC_TRANSITION_ERROR, m)
             else enter_MAC_state m SYNCHRONIZATION)
        | TIMESLOT_AND_CHANNEL_SELECTION \<Rightarrow>
            (if currentState m = SYNCHRONIZATION
             then enter_MAC_state m TIMESLOT_AND_CHANNEL_SELECTION else Inr (E_MAC_TRANSITION_ERROR, m))
        | MEDIUM_ACCESS \<Rightarrow>
            (if currentState m = TIMESLOT_AND_CHANNEL_SELECTION
             then enter_MAC_state m MEDIUM_ACCESS else Inr (E_MAC_TRANSITION_ERROR, m))
        | FINISH \<Rightarrow>
            (if currentState m = MEDIUM_ACCESS
             then enter_MAC_state m FINISH else Inr (E_MAC_TRANSITION_ERROR, m))
        | _ \<Rightarrow> Inr (E_MAC_INVALID_STATE, m)))"

definition next_state :: "state_t \<Rightarrow> 'k world \<Rightarrow> 'k world result" where
  "next_state s = try_mclmac (\<lambda>m. mclmac_set_next_MAC_state m s)"

section \<open>START\<close>

definition execute_start ::
    "'k rtos \<Rightarrow> pid \<Rightarrow> 'k world \<Rightarrow> (MAC_EXECUTION_ERRORS \<times> 'k world) result" where
  "execute_start os pid w =
     (case c_rand w of (r, w1) \<Rightarrow>
       (let frame = of_nat (r mod MAX_NUMBER_SLOTS) :: u32;
            w2 = on_mclmac (\<lambda>m. m\<lparr>wakeup_frame := (if frame = 0 then 1 else frame),
                                  self_pid := pid\<rparr>) w1
        in rbind (open_queue os (ipc_queues w2) (kernel w2) (mac_queue_id (mclmac w2))
                    (self_pid (mclmac w2))) (\<lambda>(_, Q, k).
           rbind (next_state INITIALIZATION (w2\<lparr>ipc_queues := Q, kernel := k\<rparr>)) (\<lambda>w3.
             Inr (E_MAC_EXECUTION_SUCCESS, on_mclmac (is_first_node_update (\<lambda>_. False)) w3)))))"

section \<open>INITIALIZATION\<close>

text \<open>
  One round of listening: the result of \<open>timeout_passed\<close> goes through a \<open>bool\<close>, so the answer 2
  of a timer that is not running counts as expired.
\<close>

definition detection_round ::
    "bool \<Rightarrow> u32 \<Rightarrow> bool \<Rightarrow> 'k world \<Rightarrow> (bool \<times> bool \<times> 'k world) result" where
  "detection_round testing timer found w =
     rbind (mclmac_cf_packet_detected testing w) (\<lambda>(packet, w1).
       let passed = passed timer w1 \<noteq> 0
       in if passed then Inr (False, False, w1)
          else if packet then Inr (False, True, w1)
          else Inr (True, found, w1))"

text \<open>\<open>0.95 * CF_SLOT_DURATION\<close>, cut to \<open>uint32_t\<close>.\<close>

definition cf_slot_rest :: u32 where
  "cf_slot_rest = 95 * CF_SLOT_DURATION div 100"

definition execute_initialization ::
    "bool \<Rightarrow> 'k world \<Rightarrow> (MAC_EXECUTION_ERRORS \<times> 'k world) result" where
  "execute_initialization testing w =
     (case set_timer DETECTION_TIME w of (timer, w1) \<Rightarrow>
       rbind (run_loop (detection_round testing timer) False w1) (\<lambda>(found, w2).
       rbind (ztimer_sleep cf_slot_rest
                (unset_timer timer
                  (if \<not> found then on_mclmac (is_first_node_update (\<lambda>_. True)) w2 else w2))) (\<lambda>w3.
       rbind (next_state SYNCHRONIZATION (on_mclmac mclmac_set_radio_standby w3)) (\<lambda>w4.
         Inr (E_MAC_EXECUTION_SUCCESS, w4)))))"

section \<open>SYNCHRONIZATION\<close>

text \<open>\<open>while (count <= 10)\<close>: the final \<open>count\<close>, and the packet.\<close>

function listen_sync ::
    "bool \<Rightarrow> nat \<Rightarrow> ControlPacket_t \<Rightarrow> 'k world \<Rightarrow> (nat \<times> ControlPacket_t \<times> 'k world) result" where
  "listen_sync testing count pkt w =
     (if count \<le> 10
      then rbind (mclmac_receive_ctrlpkt_sync testing w pkt) (\<lambda>(received, pkt', w').
        if \<not> received then listen_sync testing (count + 1) pkt' w' else Inr (count, pkt', w'))
      else Inr (count, pkt, w))"
  by pat_completeness auto
termination by (relation "measure (\<lambda>(_, count, _, _). 11 - count)") auto

declare listen_sync.simps [simp del]

text \<open>\<open>selected_slots_neighbors[slot / 8] |= 1U << (slot % 8)\<close>.\<close>

definition mark_neighbor :: "u8 \<Rightarrow> MCLMAC_t \<Rightarrow> MCLMAC_t result" where
  "mark_neighbor slot m =
     (let pos = unat slot div 8; s = selected_slots_neighbors m
      in if pos < length s
         then Inr (m\<lparr>selected_slots_neighbors := s[pos := s ! pos OR push_bit (unat slot mod 8) 1]\<rparr>)
         else Inl Out_of_bounds)"

text \<open>What the first control packet says of the network.\<close>

definition adopt_network :: "ControlPacket_t \<Rightarrow> MCLMAC_t \<Rightarrow> MCLMAC_t result" where
  "adopt_network pkt m =
     rbind (mark_neighbor (controlpacket_get_current_slot pkt)
              (m\<lparr>own_networkTime := controlpacket_get_network_time pkt,
                 own_initTime := controlpacket_get_init_time pkt,
                 occupied_frequencies_slots := controlpacket_get_occupied_slots pkt\<rparr>)) (\<lambda>m'.
       Inr (m'\<lparr>wakeup_frame := wakeup_frame m' + controlpacket_get_current_frame pkt\<rparr>))"

text \<open>The time until the current slot ends, in 32-bit arithmetic.\<close>

definition time_remaining :: "u32 \<Rightarrow> u8 \<Rightarrow> u64 \<Rightarrow> u32" where
  "time_remaining frm slot net_time =
     (let time_passed_frames = frm * FRAME_DURATION;
          time_passed_slots = (if slot = 0 then 0 else (ucast slot - 1) * SLOT_DURATION);
          total_time_passed = time_passed_frames + time_passed_slots;
          current_slot_time_passed = ucast (net_time - ucast total_time_passed)
      in SLOT_DURATION - current_slot_time_passed)"

record sync_locals =
  sync_frame :: u32
  sync_slot :: u8
  sync_frequency :: u32
  sync_slot_timer :: u32
  sync_frame_timer :: u32
  sync_pkt :: ControlPacket_t

text \<open>
  A later control packet: the hop count goes through a \<open>uint8_t\<close>, the bitmaps are joined.
\<close>

definition merge_network :: "ControlPacket_t \<Rightarrow> u8 \<Rightarrow> MCLMAC_t \<Rightarrow> MCLMAC_t result" where
  "merge_network pkt slot m =
     (let hops = ucast (controlpacket_get_hop_count pkt) :: u8;
          m1 = (if ucast hops < own_hopCount m then m\<lparr>own_hopCount := ucast hops\<rparr> else m)
      in mark_neighbor slot
           (m1\<lparr>occupied_frequencies_slots :=
              map2 (map2 (OR)) (occupied_frequencies_slots m1) (controlpacket_get_occupied_slots pkt)\<rparr>))"

definition sync_slot_step :: "sync_locals \<Rightarrow> 'k world \<Rightarrow> sync_locals \<times> 'k world" where
  "sync_slot_step l w =
     (if passed (sync_slot_timer l) w = 1
      then (case set_timer SLOT_DURATION (unset_timer (sync_slot_timer l) w) of (i, w') \<Rightarrow>
        (l\<lparr>sync_slot := sync_slot l + 1, sync_slot_timer := i\<rparr>, w'))
      else (l, w))"

definition sync_frame_step :: "sync_locals \<Rightarrow> 'k world \<Rightarrow> sync_locals \<times> 'k world" where
  "sync_frame_step l w =
     (if passed (sync_frame_timer l) w = 1
      then (case set_timer FRAME_DURATION (unset_timer (sync_frame_timer l) w) of (i, w') \<Rightarrow>
        (l\<lparr>sync_frame := sync_frame l + 1, sync_slot := 0, sync_frame_timer := i,
           sync_frequency := (sync_frequency l + 1) mod of_nat MAX_NUMBER_FREQS\<rparr>, w'))
      else (l, w))"

definition sync_round ::
    "bool \<Rightarrow> sync_locals \<Rightarrow> 'k world \<Rightarrow> (bool \<times> sync_locals \<times> 'k world) result" where
  "sync_round testing l w =
     (if \<not> sync_frame l < wakeup_frame (mclmac w) - 1 then Inr (False, l, w)
      else
        rbind (mclmac_receive_ctrlpkt_sync testing w (sync_pkt l)) (\<lambda>(received, pkt, w1).
        rbind (if received then try_mclmac (merge_network pkt (sync_slot l)) w1 else Inr w1) (\<lambda>w2.
          case sync_slot_step (l\<lparr>sync_pkt := pkt\<rparr>) w2 of (l3, w3) \<Rightarrow>
          case sync_frame_step l3 w3 of (l4, w4) \<Rightarrow> Inr (True, l4, w4))))"

definition first_node_sync :: "'k world \<Rightarrow> (MAC_EXECUTION_ERRORS \<times> 'k world) result" where
  "first_node_sync w =
     rbind (next_state TIMESLOT_AND_CHANNEL_SELECTION
              (on_mclmac (\<lambda>m. m\<lparr>own_initTime := clock w, own_hopCount := 0\<rparr>) w)) (\<lambda>w'.
       Inr (E_MAC_EXECUTION_SUCCESS, w'))"

text \<open>After the first control packet: the timers, and listening until the wake-up frame.\<close>

definition follow_network ::
    "bool \<Rightarrow> ControlPacket_t \<Rightarrow> 'k world \<Rightarrow> (MAC_EXECUTION_ERRORS \<times> 'k world) result" where
  "follow_network testing pkt w =
     (let frame = controlpacket_get_current_frame pkt;
          slot = controlpacket_get_current_slot pkt;
          remaining = time_remaining frame slot (own_networkTime (mclmac w))
      in case set_timer remaining w of (st, w1) \<Rightarrow>
         case set_timer remaining w1 of (ft, w2) \<Rightarrow>
           if st = TIMEOUT_SET_ERROR \<or> ft = TIMEOUT_SET_ERROR
           then Inr (E_MAC_EXECUTION_FAILED, w2)
           else
             rbind (run_loop (sync_round testing)
                      \<lparr>sync_frame = frame, sync_slot = slot, sync_frequency = 0,
                       sync_slot_timer = st, sync_frame_timer = ft, sync_pkt = pkt\<rparr> w2) (\<lambda>(l, w3).
             rbind (next_state TIMESLOT_AND_CHANNEL_SELECTION
                      (on_mclmac mclmac_set_radio_standby
                        (unset_timer (sync_slot_timer l) (unset_timer (sync_frame_timer l) w3)))) (\<lambda>w4.
               Inr (E_MAC_EXECUTION_SUCCESS, w4))))"

definition execute_synchronization ::
    "bool \<Rightarrow> 'k world \<Rightarrow> (MAC_EXECUTION_ERRORS \<times> 'k world) result" where
  "execute_synchronization testing w =
     (if is_first_node (mclmac w) then first_node_sync w
      else
        rbind (listen_sync testing 0 controlpacket_init
                 (on_mclmac (\<lambda>m. (mclmac_set_radio_rx m)\<lparr>own_hopCount := 0xffff, own_networkTime := 0\<rparr>) w))
          (\<lambda>(count, pkt, w1).
            if count = 11 then Inr (E_MAC_EXECUTION_FAILED, w1)
            else rbind (try_mclmac (adopt_network pkt) w1) (follow_network testing pkt)))"

section \<open>TIMESLOT AND CHANNEL SELECTION\<close>

text \<open>The bit of row \<open>k\<close>, byte \<open>i\<close>, that the search looks at in step \<open>j\<close>, from 1 to 8.\<close>

definition slot_taken :: "u8 list list \<Rightarrow> nat \<Rightarrow> nat \<Rightarrow> bool" where
  "slot_taken occupied i j \<longleftrightarrow>
     list_ex (\<lambda>k. occupied ! k ! i AND push_bit (8 - j) 1 \<noteq> 0) [0..<MAX_NUMBER_FREQS]"

definition find_slot :: "u8 list list \<Rightarrow> (nat \<times> nat) option" where
  "find_slot occupied =
     find (\<lambda>(i, j). \<not> slot_taken occupied i j)
       (concat (map (\<lambda>i. map (\<lambda>j. (i, j)) [1..<9]) [0..<SLOT_BYTES]))"

definition select_slot :: "'k world \<Rightarrow> bool \<times> 'k world" where
  "select_slot w =
     (case find_slot (occupied_frequencies_slots (mclmac w)) of
       None \<Rightarrow> (False, w)
     | Some (i, j) \<Rightarrow>
         (case c_rand w of (r, w') \<Rightarrow>
           (True, on_mclmac (\<lambda>m. mclmac_set_selected_slot
              (mclmac_set_transmit_channel m (frequencies m ! (r mod MAX_NUMBER_FREQS)))
              (of_nat (SLOT_BYTES * i + (j - 1)))) w')))"

definition first_node_selection :: "'k world \<Rightarrow> (MAC_EXECUTION_ERRORS \<times> 'k world) result" where
  "first_node_selection w =
     rbind (next_state MEDIUM_ACCESS
              (on_mclmac (\<lambda>m. mclmac_set_selected_slot
                 (mclmac_set_transmit_channel m (frequencies m ! 0)) 0) w)) (\<lambda>w'.
       Inr (E_MAC_EXECUTION_SUCCESS,
            on_mclmac (\<lambda>m. m\<lparr>occupied_frequencies_slots := (occupied_frequencies_slots m)
               [0 := (occupied_frequencies_slots m ! 0)[0 := 0x80]]\<rparr>) w'))"

definition execute_selection :: "'k world \<Rightarrow> (MAC_EXECUTION_ERRORS \<times> 'k world) result" where
  "execute_selection w0 =
     (let w = on_mclmac mclmac_set_radio_sleep w0
      in if is_first_node (mclmac w) then first_node_selection w
         else
           (case set_timer FRAME_DURATION w of (timer, w1) \<Rightarrow>
             if timer = TIMEOUT_SET_ERROR then Inr (E_MAC_EXECUTION_FAILED, w1)
             else
               (case select_slot w1 of (available, w2) \<Rightarrow>
                 rbind (next_state (if \<not> available then SYNCHRONIZATION else MEDIUM_ACCESS) w2) (\<lambda>w3.
                 rbind (busy_wait timer w3) (\<lambda>w4.
                   Inr (E_MAC_EXECUTION_SUCCESS, unset_timer timer w4))))))"

section \<open>MEDIUM ACCESS\<close>

definition start_round ::
    "'k rtos \<Rightarrow> bool \<Rightarrow> unit \<Rightarrow> 'k world \<Rightarrow> (bool \<times> unit \<times> 'k world) result" where
  "start_round os testing l w =
     rbind (mclmac_execute_powermode_state os testing w) (\<lambda>(ret, w1).
       if ret = E_PM_EXECUTION_FAILED
       then Inr (True, (), on_mclmac (powerMode_update (\<lambda>_. STARTP)) w1)
       else Inr (False, (), w1))"

definition update_powermode :: "'k world \<Rightarrow> 'k world" where
  "update_powermode = on_mclmac (\<lambda>m. snd (mclmac_update_powermode_state_machine m))"

definition note_collision :: "MCLMAC_t \<Rightarrow> MCLMAC_t" where
  "note_collision m =
     on_mac (\<lambda>i. i\<lparr>collisionDetected := True, mac_collisionSlot := mclmac_get_current_slot m,
        mac_collisionFrequency := mclmac_get_reception_channel m, mac_destination_id := (0, 0)\<rparr>) m"

definition access_round ::
    "'k rtos \<Rightarrow> bool \<Rightarrow> unit \<Rightarrow> 'k world \<Rightarrow> (bool \<times> unit \<times> 'k world) result" where
  "access_round os testing l w =
     rbind (mclmac_execute_powermode_state os testing w) (\<lambda>(ret, w1).
       case ret of
         E_PM_EXECUTION_SUCCESS \<Rightarrow> Inr (True, (), update_powermode w1)
       | E_PM_COLLISION_ERROR \<Rightarrow>
           rbind (next_powermode FINISHP w1) (\<lambda>w2.
           rbind (next_state SYNCHRONIZATION w2) (\<lambda>w3. Inr (False, (), w3)))
       | E_PM_SYNCHRONIZATION_ERROR \<Rightarrow>
           rbind (next_powermode FINISHP w1) (\<lambda>w2.
           rbind (next_state INITIALIZATION w2) (\<lambda>w3. Inr (False, (), w3)))
       | E_PM_COLLISION_DETECTED \<Rightarrow> Inr (True, (), on_mclmac note_collision w1)
       | _ \<Rightarrow> Inr (True, (), w1))"

definition execute_medium_access ::
    "'k rtos \<Rightarrow> bool \<Rightarrow> 'k world \<Rightarrow> (MAC_EXECUTION_ERRORS \<times> 'k world) result" where
  "execute_medium_access os testing w =
     rbind (run_loop (start_round os testing) () (on_mclmac mclmac_init_powermode_state_machine w)) (\<lambda>(_, w1).
     rbind (run_loop (access_round os testing) () (update_powermode w1)) (\<lambda>(_, w2).
     rbind (mclmac_execute_powermode_state os testing (update_powermode w2)) (\<lambda>(_, w3).
       Inr (E_MAC_EXECUTION_SUCCESS, w3))))"

definition mclmac_execute_mac_state_machine ::
    "'k rtos \<Rightarrow> bool \<Rightarrow> pid \<Rightarrow> 'k world \<Rightarrow> (MAC_EXECUTION_ERRORS \<times> 'k world) result" where
  "mclmac_execute_mac_state_machine os testing pid w =
     (case currentState (mclmac w) of
       START \<Rightarrow> execute_start os pid w
     | INITIALIZATION \<Rightarrow> execute_initialization testing w
     | SYNCHRONIZATION \<Rightarrow> execute_synchronization testing w
     | TIMESLOT_AND_CHANNEL_SELECTION \<Rightarrow> execute_selection w
     | MEDIUM_ACCESS \<Rightarrow> execute_medium_access os testing w
     | _ \<Rightarrow> Inr (E_MAC_EXECUTION_SUCCESS, w))"

end
