(* ===== verification/Mac_Machine_Props.thy ===== *)
theory Mac_Machine_Props
  imports Mac_Machine Power_Mode_Outcomes
begin

text \<open>
  What the state machine of the MAC layer guarantees: its transitions, the outcome of its states,
  and the invariant of a node that executes and updates it for ever.
\<close>

section \<open>The transitions\<close>

fun mac_edge :: "state_t \<Rightarrow> state_t \<Rightarrow> bool" where
  "mac_edge s INITIALIZATION = (s \<in> {START, MEDIUM_ACCESS})"
| "mac_edge s SYNCHRONIZATION = (s \<notin> {START, SYNCHRONIZATION})"
| "mac_edge s TIMESLOT_AND_CHANNEL_SELECTION = (s = SYNCHRONIZATION)"
| "mac_edge s MEDIUM_ACCESS = (s = TIMESLOT_AND_CHANNEL_SELECTION)"
| "mac_edge s FINISH = (s = MEDIUM_ACCESS)"
| "mac_edge s _ = False"

text \<open>
  The MAC machine moves exactly along its edges. The update never fails an assertion; it
  enters the next state when that is a successor of the current one, and otherwise reports why not
  and changes nothing.
\<close>

theorem mac_update_spec:
  "mclmac_update_mac_state_machine m = Inr
    (if mac_edge (currentState m) (nextState m)
     then (E_MAC_TRANSITION_SUCCESS, m\<lparr>currentState := nextState m\<rparr>)
     else (if nextState m \<in> {NONE, currentState m} then E_MAC_NO_TRANSITION
           else if nextState m = START then E_MAC_INVALID_STATE
           else E_MAC_TRANSITION_ERROR, m))"
  by (cases "nextState m"; cases "currentState m")
    (simp_all add: mclmac_update_mac_state_machine_def enter_MAC_state_def mclmac_set_MAC_state_def)

lemma set_next_state [simp]:
  "s \<noteq> NONE \<Longrightarrow> s \<noteq> START \<Longrightarrow> next_state s w = Inr (on_mclmac (nextState_update (\<lambda>_. s)) w)"
  by (simp add: next_state_def try_mclmac_def mclmac_set_next_MAC_state_def on_mclmac_def)

section \<open>MEDIUM ACCESS\<close>

definition working :: "PowerMode_t \<Rightarrow> bool" where
  "working s \<longleftrightarrow> s \<in> {PASSIVE, ACTIVE, TRANSMIT, RECEIVE}"

lemma working_running: "working s \<Longrightarrow> running s \<and> s \<noteq> FINISHP"
  by (auto simp: working_def running_def)

lemma edge_to_working: "powermode_edge s t \<Longrightarrow> t \<noteq> FINISHP \<Longrightarrow> working t"
  by (cases t) (auto simp: working_def)

lemma update_powermode_edge:
  "powermode_edge (powerMode (mclmac w)) (nextPowerMode (mclmac w)) \<Longrightarrow>
    mclmac (update_powermode w) = (mclmac w)\<lparr>powerMode := nextPowerMode (mclmac w)\<rparr>"
  by (simp add: update_powermode_def update_along_edge)

text \<open>One round of the loop, for a machine that works.\<close>

lemma access_round_result:
  assumes "access_round os testing l w = Inr (again, l', w')" and "working (powerMode (mclmac w))"
  shows "currentState (mclmac w') = currentState (mclmac w) \<and>
    (if again then working (powerMode (mclmac w'))
     else powerMode (mclmac w') \<in> {TRANSMIT, RECEIVE} \<and> nextPowerMode (mclmac w') = FINISHP \<and>
       nextState (mclmac w') \<in> {SYNCHRONIZATION, INITIALIZATION})"
proof -
  from assms(1) obtain r w1 where ex: "mclmac_execute_powermode_state os testing w = Inr (r, w1)"
    by (auto simp: access_round_def rbind_eq_Inr)
  note res = powermode_step_result [OF ex working_running [OF assms(2), THEN conjunct1]]
  show ?thesis
  proof (cases r)
    case E_PM_EXECUTION_SUCCESS
    with assms(1) ex have w': "again" "w' = update_powermode w1" by (auto simp: access_round_def)
    from res E_PM_EXECUTION_SUCCESS working_running [OF assms(2)]
    have e: "powermode_edge (powerMode (mclmac w1)) (nextPowerMode (mclmac w1))"
      "nextPowerMode (mclmac w1) \<noteq> FINISHP" by auto
    from update_powermode_edge [OF e(1)] edge_to_working [OF e] res w' show ?thesis by simp
  next
    case E_PM_COLLISION_DETECTED
    with assms ex res show ?thesis
      by (auto simp: access_round_def note_collision_def on_mac_def)
  qed (use assms(1) ex res in \<open>auto simp: access_round_def\<close>)
qed

lemma start_loop:
  assumes "run_loop (start_round os testing) l w = Inr (l', w')"
    and "powerMode (mclmac w) = STARTP"
  shows "powermode_edge (powerMode (mclmac w')) (nextPowerMode (mclmac w')) \<and>
    nextPowerMode (mclmac w') \<noteq> FINISHP \<and> currentState (mclmac w') = currentState (mclmac w)"
proof (rule run_loop_rule [OF assms(1), where I = "\<lambda>_ v. powerMode (mclmac v) = STARTP \<and>
    currentState (mclmac v) = currentState (mclmac w)"])
  fix l v again l2 v2
  assume v: "powerMode (mclmac v) = STARTP \<and> currentState (mclmac v) = currentState (mclmac w)"
    and "start_round os testing l v = Inr (again, l2, v2)"
  then obtain r v1 where ex: "mclmac_execute_powermode_state os testing v = Inr (r, v1)"
    and rest: "(if r = E_PM_EXECUTION_FAILED
       then Inr (True, (), on_mclmac (powerMode_update (\<lambda>_. STARTP)) v1)
       else Inr (False, (), v1)) = (Inr (again, l2, v2) :: (bool \<times> unit \<times> 'a world) result)"
    by (auto simp: start_round_def rbind_eq_Inr)
  from powermode_step_result [OF ex] v rest
  show "if again then powerMode (mclmac v2) = STARTP \<and> currentState (mclmac v2) = currentState (mclmac w)
    else powermode_edge (powerMode (mclmac v2)) (nextPowerMode (mclmac v2)) \<and>
      nextPowerMode (mclmac v2) \<noteq> FINISHP \<and> currentState (mclmac v2) = currentState (mclmac w)"
    by (cases r) (auto simp: running_def)
qed (use assms(2) in \<open>auto dest: wait_round_Inr(1)\<close>)

lemma access_loop:
  assumes "run_loop (access_round os testing) l w = Inr (l', w')" and "working (powerMode (mclmac w))"
  shows "currentState (mclmac w') = currentState (mclmac w) \<and>
    powerMode (mclmac w') \<in> {TRANSMIT, RECEIVE} \<and> nextPowerMode (mclmac w') = FINISHP \<and>
    nextState (mclmac w') \<in> {SYNCHRONIZATION, INITIALIZATION}"
  by (rule run_loop_rule [OF assms(1), where I = "\<lambda>_ v. working (powerMode (mclmac v)) \<and>
      currentState (mclmac v) = currentState (mclmac w)"])
    (use assms(2) in \<open>auto dest: wait_round_Inr(1) access_round_result split: if_splits\<close>)

lemma medium_access_result:
  assumes "execute_medium_access os testing w = Inr (r, w')"
  shows "r = E_MAC_EXECUTION_SUCCESS \<and> currentState (mclmac w') = currentState (mclmac w) \<and>
    nextState (mclmac w') \<in> {SYNCHRONIZATION, INITIALIZATION} \<and>
    powerMode (mclmac w') = FINISHP \<and> queues_empty (internals w')"
proof -
  let ?w0 = "on_mclmac mclmac_init_powermode_state_machine w"
  from assms obtain l1 w1 l2 w2 r3 where
    start: "run_loop (start_round os testing) () ?w0 = Inr (l1, w1)"
    and loop: "run_loop (access_round os testing) () (update_powermode w1) = Inr (l2, w2)"
    and fin: "mclmac_execute_powermode_state os testing (update_powermode w2) = Inr (r3, w')"
    and r: "r = E_MAC_EXECUTION_SUCCESS"
    by (auto simp: execute_medium_access_def rbind_eq_Inr)
  have "powerMode (mclmac ?w0) = STARTP" "currentState (mclmac ?w0) = currentState (mclmac w)"
    by (simp_all add: mclmac_init_powermode_state_machine_def)
  with start_loop [OF start] have w1: "powermode_edge (powerMode (mclmac w1)) (nextPowerMode (mclmac w1))"
    "nextPowerMode (mclmac w1) \<noteq> FINISHP" "currentState (mclmac w1) = currentState (mclmac w)" by auto
  from access_loop [OF loop] edge_to_working [OF w1(1,2)] update_powermode_edge [OF w1(1)] w1(3)
  have w2: "powerMode (mclmac w2) \<in> {TRANSMIT, RECEIVE}" "nextPowerMode (mclmac w2) = FINISHP"
    "nextState (mclmac w2) \<in> {SYNCHRONIZATION, INITIALIZATION}"
    "currentState (mclmac w2) = currentState (mclmac w)" by auto
  from w2 have "powermode_edge (powerMode (mclmac w2)) (nextPowerMode (mclmac w2))" by auto
  from update_powermode_edge [OF this] w2(2-) fin r show ?thesis
    by (auto simp: mclmac_execute_powermode_state_def assert_that_eq_Inr execute_finishp_def
        on_mac_def finish_internals_empty)
qed

text \<open>
  C2. Access to the medium ends only through a collision or the loss of synchronisation, and
  always through FINISHP. Whatever the environment does, when MEDIUM ACCESS returns, the power
  mode machine is in FINISHP, all data packets have been dropped and their queues reset, and the
  node goes on to synchronise or to initialise itself again.
\<close>

theorem medium_access_outcome:
  assumes "execute_medium_access os testing w = Inr (r, w')"
  shows "r = E_MAC_EXECUTION_SUCCESS \<and> currentState (mclmac w') = currentState (mclmac w) \<and>
    nextState (mclmac w') \<in> {SYNCHRONIZATION, INITIALIZATION} \<and>
    powerMode (mclmac w') = FINISHP \<and> queues_empty (internals w')"
  using assms by (rule medium_access_result)

section \<open>START\<close>

lemma start_result:
  assumes "execute_start os pid w = Inr (r, w')"
  shows "r = E_MAC_EXECUTION_SUCCESS \<and> currentState (mclmac w') = currentState (mclmac w) \<and>
    nextState (mclmac w') = INITIALIZATION \<and> \<not> is_first_node (mclmac w') \<and>
    self_pid (mclmac w') = pid \<and> 1 \<le> unat (wakeup_frame (mclmac w')) \<and>
    unat (wakeup_frame (mclmac w')) < MAX_NUMBER_SLOTS"
proof -
  have w: "unat (of_nat (n mod 16) :: u32) = n mod 16" for n :: nat
    by (rule unat_of_nat_small) (use mod_less_divisor [of 16 n] in simp)
  have f: "1 \<le> unat (if of_nat (n mod 16) = (0 :: u32) then 1 else of_nat (n mod 16) :: u32) \<and>
      unat (if of_nat (n mod 16) = (0 :: u32) then 1 else of_nat (n mod 16) :: u32) < 16" for n
  proof (cases "n mod 16 = 0")
    case False
    then have "(of_nat (n mod 16) :: u32) \<noteq> 0" using w [of n] by (metis unat_0)
    with False w [of n] show ?thesis by simp
  qed simp
  show ?thesis
    using assms f [of "rand_values w 0"]
    by (auto simp: execute_start_def c_rand_def Let_def rbind_eq_Inr)
qed

section \<open>INITIALIZATION\<close>

lemma busy_wait_frame:
  assumes "busy_wait i w = Inr w'"
  shows "mclmac w' = mclmac w"
proof -
  from assms obtain l where
    "run_loop (\<lambda>(_ :: unit) w. Inr (passed i w \<noteq> 1, (), w)) () w = Inr (l, w')"
    by (auto simp: busy_wait_def rbind_eq_Inr)
  then show ?thesis
    by (rule run_loop_rule [where I = "\<lambda>_ v. mclmac v = mclmac w"]) (auto dest: wait_round_Inr(1))
qed

lemma cf_detected_frame:
  assumes "mclmac_cf_packet_detected testing w = Inr (b, w')"
  shows "mclmac w' = mclmac w"
  using assms
  by (auto simp: mclmac_cf_packet_detected_def cf_packet_detected_native_def rbind_eq_Inr
      split: if_splits prod.splits dest!: busy_wait_frame set_timer_frame)

lemma detection_loop:
  assumes "run_loop (detection_round testing i) found w = Inr (found', w')"
  shows "mclmac w' = mclmac w \<and> (i = TIMEOUT_SET_ERROR \<longrightarrow> \<not> found')"
  by (rule run_loop_rule [OF assms, where I = "\<lambda>_ v. mclmac v = mclmac w"])
    (auto simp: detection_round_def Let_def rbind_eq_Inr timeout_passed_bad [OF TIMEOUT_SET_ERROR_bad]
      dest!: wait_round_Inr(1) cf_detected_frame split: if_splits)

lemma initialization_result:
  assumes "execute_initialization testing w = Inr (r, w')"
  shows "r = E_MAC_EXECUTION_SUCCESS \<and> currentState (mclmac w') = currentState (mclmac w) \<and>
    nextState (mclmac w') = SYNCHRONIZATION \<and>
    (is_first_node (mclmac w) \<or> wf_timeouts (timeouts w) \<and> (\<forall>i < TIMEOUTS. \<not> free_slot (timeouts w) i) \<longrightarrow>
      is_first_node (mclmac w'))"
proof -
  obtain i w1 where arm: "set_timer DETECTION_TIME w = (i, w1)" by (cases "set_timer DETECTION_TIME w")
  with assms obtain found w2 w3 where loop: "run_loop (detection_round testing i) False w1 = Inr (found, w2)"
    and nap: "ztimer_sleep cf_slot_rest (unset_timer i
      (if \<not> found then on_mclmac (is_first_node_update (\<lambda>_. True)) w2 else w2)) = Inr w3"
    and w': "w' = on_mclmac (nextState_update (\<lambda>_. SYNCHRONIZATION)) (on_mclmac mclmac_set_radio_standby w3)"
      "r = E_MAC_EXECUTION_SUCCESS"
    by (auto simp: execute_initialization_def rbind_eq_Inr)
  have full: "i = TIMEOUT_SET_ERROR" if "wf_timeouts (timeouts w)" "\<forall>i < TIMEOUTS. \<not> free_slot (timeouts w) i"
    using arm timeout_set_full [OF that] by (auto simp: set_timer_def DETECTION_TIME_def split: prod.splits)
  from nap have "mclmac w3 = (if \<not> found then (mclmac w2)\<lparr>is_first_node := True\<rparr> else mclmac w2)"
    by (auto simp: ztimer_sleep_def rbind_eq_Inr dest!: wait_round_Inr(1))
  with w' detection_loop [OF loop] set_timer_frame [OF arm] full show ?thesis by auto
qed

text \<open>
  A node that finds no network becomes its first node, and a node without a free timer
  always does. INITIALIZATION succeeds and synchronisation is next; it never takes the role of the
  first node away; and when all timers are in use it gives it to the node even if other nodes
  are transmitting, since the answer 2 of a timer that could not be set counts as expired.
\<close>

theorem initialization_outcome:
  assumes "execute_initialization testing w = Inr (r, w')"
  shows "r = E_MAC_EXECUTION_SUCCESS \<and> currentState (mclmac w') = currentState (mclmac w) \<and>
    nextState (mclmac w') = SYNCHRONIZATION \<and>
    (is_first_node (mclmac w) \<or> wf_timeouts (timeouts w) \<and> (\<forall>i < TIMEOUTS. \<not> free_slot (timeouts w) i) \<longrightarrow>
      is_first_node (mclmac w'))"
  using assms by (rule initialization_result)

section \<open>SYNCHRONIZATION\<close>

text \<open>What the functions that listen leave alone.\<close>

definition mac_states :: "MCLMAC_t \<Rightarrow> state_t \<times> state_t" where
  "mac_states m = (currentState m, nextState m)"

lemma receive_sync_frame:
  assumes "mclmac_receive_ctrlpkt_sync testing w pkt = Inr (b, pkt', w')"
  shows "mac_states (mclmac w') = mac_states (mclmac w)" "timeouts w' = timeouts w" "script w' = script w"
  using assms
  by (auto simp: mac_states_def mclmac_receive_ctrlpkt_sync_def receive_ctrlpkt_sync_native_def Let_def c_rand_def
      rbind_eq_Inr split: if_splits)

lemma listen_sync_frame:
  "listen_sync testing n pkt w = Inr (count, pkt', w') \<Longrightarrow>
    mac_states (mclmac w') = mac_states (mclmac w) \<and> timeouts w' = timeouts w"
proof (induction testing n pkt w rule: listen_sync.induct)
  case (1 testing n pkt w)
  show ?case
  proof (cases "n \<le> 10")
    case False
    with "1.prems" show ?thesis by (simp add: listen_sync.simps)
  next
    case True
    with "1.prems" obtain b pkt1 w1 where rcv: "mclmac_receive_ctrlpkt_sync testing w pkt = Inr (b, pkt1, w1)"
      and rest: "(if \<not> b then listen_sync testing (n + 1) pkt1 w1 else Inr (n, pkt1, w1)) = Inr (count, pkt', w')"
      by (subst (asm) listen_sync.simps) (auto simp: rbind_eq_Inr)
    from "1.IH" [OF True, of b pkt1 w1] rest receive_sync_frame [OF rcv] show ?thesis
      by (cases b) auto
  qed
qed

lemma mark_neighbor_frame:
  "mark_neighbor slot m = Inr m' \<Longrightarrow> \<exists>s. m' = m\<lparr>selected_slots_neighbors := s\<rparr>"
  by (auto simp: mark_neighbor_def Let_def split: if_splits)

lemma adopt_frame: "adopt_network pkt m = Inr m' \<Longrightarrow> mac_states m' = mac_states m"
  by (auto simp: mac_states_def adopt_network_def rbind_eq_Inr dest!: mark_neighbor_frame)

lemma merge_frame: "merge_network pkt slot m = Inr m' \<Longrightarrow> mac_states m' = mac_states m"
  by (auto simp: mac_states_def merge_network_def Let_def dest!: mark_neighbor_frame split: if_splits)

lemma sync_steps_frame:
  "sync_slot_step l w = (l', w') \<Longrightarrow> mclmac w' = mclmac w"
  "sync_frame_step l w = (l', w') \<Longrightarrow> mclmac w' = mclmac w"
  by (auto simp: sync_slot_step_def sync_frame_step_def split: prod.splits if_splits dest!: set_timer_frame)

lemma sync_round_frame:
  assumes "sync_round testing l w = Inr (again, l', w')"
  shows "mac_states (mclmac w') = mac_states (mclmac w)"
proof (cases "sync_frame l < wakeup_frame (mclmac w) - 1")
  case False
  with assms show ?thesis by (simp add: sync_round_def)
next
  case True
  with assms obtain b pkt w1 w2 where rcv: "mclmac_receive_ctrlpkt_sync testing w (sync_pkt l) = Inr (b, pkt, w1)"
    and mrg: "(if b then try_mclmac (merge_network pkt (sync_slot l)) w1 else Inr w1) = Inr w2"
    and rest: "(case sync_slot_step (l\<lparr>sync_pkt := pkt\<rparr>) w2 of (l3, w3) \<Rightarrow>
        case sync_frame_step l3 w3 of (l4, w4) \<Rightarrow> Inr (True, l4, w4)) = (Inr (again, l', w') :: (bool \<times> sync_locals \<times> 'a world) result)"
    by (auto simp: sync_round_def rbind_eq_Inr)
  have "mac_states (mclmac w2) = mac_states (mclmac w1)"
    using mrg by (auto simp: try_mclmac_def rbind_eq_Inr merge_frame split: if_splits)
  moreover have "mclmac w' = mclmac w2"
    using rest by (auto split: prod.splits dest!: sync_steps_frame)
  ultimately show ?thesis using receive_sync_frame(1) [OF rcv] by simp
qed

lemma sync_loop_frame:
  assumes "run_loop (sync_round testing) l w = Inr (l', w')"
  shows "mac_states (mclmac w') = mac_states (mclmac w)"
  by (rule run_loop_rule [OF assms, where I = "\<lambda>_ v. mac_states (mclmac v) = mac_states (mclmac w)"])
    (auto dest: wait_round_Inr(1) sync_round_frame)

lemma follow_result:
  assumes "follow_network testing pkt w = Inr (r, w')"
  shows "mac_states (mclmac w') = (currentState (mclmac w),
    if r = E_MAC_EXECUTION_SUCCESS then TIMESLOT_AND_CHANNEL_SELECTION else nextState (mclmac w))"
  using assms
  by (auto simp: mac_states_def follow_network_def Let_def rbind_eq_Inr split: prod.splits if_splits
      dest!: set_timer_frame sync_loop_frame)

lemma synchronization_result:
  assumes "execute_synchronization testing w = Inr (r, w')"
  shows "mac_states (mclmac w') = (currentState (mclmac w),
    if r = E_MAC_EXECUTION_SUCCESS then TIMESLOT_AND_CHANNEL_SELECTION else nextState (mclmac w))"
proof (cases "is_first_node (mclmac w)")
  case True
  with assms show ?thesis by (auto simp: mac_states_def execute_synchronization_def first_node_sync_def)
next
  case False
  with assms obtain count pkt w1 where
    listen: "listen_sync testing 0 controlpacket_init
       (on_mclmac (\<lambda>m. (mclmac_set_radio_rx m)\<lparr>own_hopCount := 0xffff, own_networkTime := 0\<rparr>) w) = Inr (count, pkt, w1)"
    and rest: "(if count = 11 then Inr (E_MAC_EXECUTION_FAILED, w1)
       else rbind (try_mclmac (adopt_network pkt) w1) (follow_network testing pkt)) = Inr (r, w')"
    by (auto simp: execute_synchronization_def rbind_eq_Inr)
  from listen_sync_frame [OF listen] rest show ?thesis
    by (auto simp: mac_states_def try_mclmac_def rbind_eq_Inr dest!: adopt_frame follow_result split: if_splits)
qed

section \<open>TIMESLOT AND CHANNEL SELECTION\<close>

lemma select_slot_frame:
  "select_slot w = (b, w') \<Longrightarrow> mac_states (mclmac w') = mac_states (mclmac w)"
  by (auto simp: mac_states_def select_slot_def c_rand_def mac_access split: option.splits)

lemma selection_result:
  assumes "execute_selection w = Inr (r, w')"
  shows "currentState (mclmac w') = currentState (mclmac w) \<and>
    (if r = E_MAC_EXECUTION_SUCCESS then nextState (mclmac w') \<in> {SYNCHRONIZATION, MEDIUM_ACCESS}
     else nextState (mclmac w') = nextState (mclmac w))"
proof (cases "is_first_node (mclmac w)")
  case True
  with assms show ?thesis by (auto simp: execute_selection_def first_node_selection_def mac_access)
next
  case False
  obtain i w1 where arm: "set_timer FRAME_DURATION (on_mclmac mclmac_set_radio_sleep w) = (i, w1)"
    by (cases "set_timer FRAME_DURATION (on_mclmac mclmac_set_radio_sleep w)")
  obtain b w2 where sel: "select_slot w1 = (b, w2)" by (cases "select_slot w1")
  have "next_state (if \<not> b then SYNCHRONIZATION else MEDIUM_ACCESS) w2 =
      Inr (on_mclmac (nextState_update (\<lambda>_. if \<not> b then SYNCHRONIZATION else MEDIUM_ACCESS)) w2)"
    by simp
  with assms False arm sel set_timer_frame [OF arm] select_slot_frame [OF sel] show ?thesis
    by (auto simp: mac_states_def execute_selection_def Let_def rbind_eq_Inr dest!: busy_wait_frame split: if_splits)
qed

section \<open>One step of the machine\<close>

lemma mac_step_result:
  assumes "mclmac_execute_mac_state_machine os testing pid w = Inr (r, w')"
    and "currentState (mclmac w) \<notin> {FINISH, NONE}"
  shows "currentState (mclmac w') = currentState (mclmac w) \<and>
    (if r = E_MAC_EXECUTION_SUCCESS
     then mac_edge (currentState (mclmac w)) (nextState (mclmac w')) \<and> nextState (mclmac w') \<noteq> FINISH
     else nextState (mclmac w') = nextState (mclmac w) \<and>
       currentState (mclmac w) \<in> {SYNCHRONIZATION, TIMESLOT_AND_CHANNEL_SELECTION})"
proof (cases "currentState (mclmac w)")
  case START
  with assms have "execute_start os pid w = Inr (r, w')" by (simp add: mclmac_execute_mac_state_machine_def)
  from start_result [OF this] START show ?thesis by simp
next
  case INITIALIZATION
  with assms have "execute_initialization testing w = Inr (r, w')" by (simp add: mclmac_execute_mac_state_machine_def)
  from initialization_result [OF this] INITIALIZATION show ?thesis by simp
next
  case SYNCHRONIZATION
  with assms have "execute_synchronization testing w = Inr (r, w')" by (simp add: mclmac_execute_mac_state_machine_def)
  from synchronization_result [OF this] SYNCHRONIZATION show ?thesis by (simp add: mac_states_def)
next
  case TIMESLOT_AND_CHANNEL_SELECTION
  with assms have "execute_selection w = Inr (r, w')" by (simp add: mclmac_execute_mac_state_machine_def)
  from selection_result [OF this] TIMESLOT_AND_CHANNEL_SELECTION show ?thesis by (auto split: if_splits)
next
  case MEDIUM_ACCESS
  with assms have "execute_medium_access os testing w = Inr (r, w')" by (simp add: mclmac_execute_mac_state_machine_def)
  from medium_access_result [OF this] MEDIUM_ACCESS show ?thesis by auto
qed (use assms in \<open>simp_all add: mclmac_execute_mac_state_machine_def\<close>)

text \<open>
  A node at work: it executes the state of the machine and updates it, as the tests of the
  repository drive it. What the environment does during the next step is arbitrary.
\<close>

inductive node_step :: "'k rtos \<Rightarrow> bool \<Rightarrow> pid \<Rightarrow> 'k world \<Rightarrow> 'k world \<Rightarrow> bool"
  for os testing pid where
  step: "mclmac_execute_mac_state_machine os testing pid w = Inr (r, w1) \<Longrightarrow>
    mclmac_update_mac_state_machine (mclmac w1) = Inr (e, m) \<Longrightarrow>
    node_step os testing pid w (w1\<lparr>mclmac := m, script := s\<rparr>)"

inductive_cases node_stepE: "node_step os testing pid w w'"

inductive node_reach :: "'k rtos \<Rightarrow> bool \<Rightarrow> pid \<Rightarrow> 'k world \<Rightarrow> bool"
  for os testing pid where
  init: "currentState (mclmac w) = START \<Longrightarrow> node_reach os testing pid w"
| step: "node_reach os testing pid w \<Longrightarrow> node_step os testing pid w w' \<Longrightarrow> node_reach os testing pid w'"

definition protocol_edges :: "(state_t \<times> state_t) set" where
  "protocol_edges =
     {(START, INITIALIZATION), (INITIALIZATION, SYNCHRONIZATION),
      (SYNCHRONIZATION, TIMESLOT_AND_CHANNEL_SELECTION),
      (TIMESLOT_AND_CHANNEL_SELECTION, SYNCHRONIZATION), (TIMESLOT_AND_CHANNEL_SELECTION, MEDIUM_ACCESS),
      (MEDIUM_ACCESS, SYNCHRONIZATION), (MEDIUM_ACCESS, INITIALIZATION)}"

lemma mac_edge_protocol: "mac_edge s t \<Longrightarrow> s \<notin> {FINISH, NONE} \<Longrightarrow> t \<noteq> FINISH \<Longrightarrow> (s, t) \<in> protocol_edges"
  by (cases t; cases s) (simp_all add: protocol_edges_def)

definition settled :: "MCLMAC_t \<Rightarrow> bool" where
  "settled m \<longleftrightarrow> currentState m \<notin> {FINISH, NONE} \<and> (currentState m \<noteq> START \<longrightarrow> nextState m = currentState m)"

lemma update_mac_edge:
  "mac_edge (currentState m) (nextState m) \<Longrightarrow>
    mclmac_update_mac_state_machine m = Inr (E_MAC_TRANSITION_SUCCESS, m\<lparr>currentState := nextState m\<rparr>)"
  by (cases "nextState m")
    (auto simp: mclmac_update_mac_state_machine_def enter_MAC_state_def mclmac_set_MAC_state_def)

lemma node_step_settled:
  assumes "node_step os testing pid w w'" and "settled (mclmac w)"
  shows "settled (mclmac w') \<and>
    ((currentState (mclmac w), currentState (mclmac w')) \<in> protocol_edges \<or>
     currentState (mclmac w') = currentState (mclmac w) \<and>
     currentState (mclmac w) \<in> {SYNCHRONIZATION, TIMESLOT_AND_CHANNEL_SELECTION})"
proof -
  from assms(1) obtain r w1 e m s where w': "w' = w1\<lparr>mclmac := m, script := s\<rparr>"
    and ex: "mclmac_execute_mac_state_machine os testing pid w = Inr (r, w1)"
    and upd: "mclmac_update_mac_state_machine (mclmac w1) = Inr (e, m)"
    by (elim node_stepE)
  have ok: "currentState (mclmac w) \<notin> {FINISH, NONE}" using assms(2) by (simp add: settled_def)
  note res = mac_step_result [OF ex ok]
  show ?thesis
  proof (cases "r = E_MAC_EXECUTION_SUCCESS")
    case True
    with res have e: "mac_edge (currentState (mclmac w1)) (nextState (mclmac w1))"
      "nextState (mclmac w1) \<noteq> FINISH" by auto
    with update_mac_edge [OF e(1)] w' upd have m: "mclmac w' = (mclmac w1)\<lparr>currentState := nextState (mclmac w1)\<rparr>"
      by simp
    from mac_edge_protocol [OF e(1) _ e(2)] res ok have "(currentState (mclmac w), currentState (mclmac w')) \<in> protocol_edges"
      by (simp add: m)
    moreover have "nextState (mclmac w1) \<noteq> NONE" using e(1) by auto
    ultimately show ?thesis using e(2) by (simp add: settled_def m)
  next
    case False
    with res assms(2) have same: "nextState (mclmac w1) = currentState (mclmac w1)"
      "currentState (mclmac w1) = currentState (mclmac w)"
      "currentState (mclmac w) \<in> {SYNCHRONIZATION, TIMESLOT_AND_CHANNEL_SELECTION}"
      by (auto simp: settled_def)
    with w' upd have "mclmac w' = mclmac w1" by (simp add: mclmac_update_mac_state_machine_def)
    with same show ?thesis by (auto simp: settled_def)
  qed
qed

lemma node_reach_settled: "node_reach os testing pid w \<Longrightarrow> settled (mclmac w)"
  by (induction rule: node_reach.induct) (auto simp: settled_def dest: node_step_settled [unfolded settled_def])

text \<open>
  C1. A node follows the protocol for ever. In whatever state a node gets, every further step
  either moves it along the protocol - from the start to initialisation, synchronisation, the
  selection of a slot, access to the medium, and back from there - or leaves it where it is, which
  happens only in synchronisation and selection, when they fail. FINISH is never reached.
\<close>

theorem node_follows_protocol:
  assumes "node_reach os testing pid w" and "node_step os testing pid w w'"
  shows "currentState (mclmac w') \<noteq> FINISH \<and>
    ((currentState (mclmac w), currentState (mclmac w')) \<in> protocol_edges \<or>
     currentState (mclmac w') = currentState (mclmac w) \<and>
     currentState (mclmac w) \<in> {SYNCHRONIZATION, TIMESLOT_AND_CHANNEL_SELECTION})"
  using node_step_settled [OF assms(2) node_reach_settled [OF assms(1)]]
  by (simp add: settled_def)

end
