(* ===== verification/Access_Progress.thy ===== *)
theory Access_Progress
  imports Active_Progress Mac_Machine_Props
begin

text \<open>
  Progress of MEDIUM ACCESS: a node that has noticed a collision of its own making sleeps until its
  slot, announces itself there, reports the collision and leaves the medium, whichever slot it has and
  however the time passes. The run goes through STARTP, then PASSIVE and ACTIVE once for every slot
  until the node's own, TRANSMIT and FINISHP.
\<close>

section \<open>Loops, one round at a time\<close>

lemma run_loop_stop:
  "script w = es # rest \<Longrightarrow> body l ((fold env_event es w)\<lparr>script := rest\<rparr>) = Inr (False, l', w') \<Longrightarrow>
    run_loop body l w = Inr (l', w')"
  by (simp add: run_loop_def wait_round_def env_events_script)

lemma run_loop_next:
  assumes "wait_round w = Inr u" and "body l u = Inr (True, l1, w1)"
    and "length (script w1) \<le> length (script u)" and "run_loop body l1 w1 = Inr r"
  shows "run_loop body l w = Inr r"
proof -
  have "wait_loop (length (script w)) body l1 w1 = Inr r"
    by (rule wait_loop_mono [OF assms(4) [unfolded run_loop_def]])
      (use assms(3) wait_round_Inr(4) [OF assms(1)] in simp)
  with assms(1,2) show ?thesis by (simp add: run_loop_def)
qed

lemma run_loop_last:
  "wait_round w = Inr u \<Longrightarrow> body l u = Inr (False, l', w') \<Longrightarrow> run_loop body l w = Inr (l', w')"
  by (simp add: run_loop_def)

lemma run_loop_again:
  assumes "script w = es # rest" and "body l ((fold env_event es w)\<lparr>script := rest\<rparr>) = Inr (True, l1, w1)"
    and "length (script w1) \<le> length rest" and "run_loop body l1 w1 = Inr r"
  shows "run_loop body l w = Inr r"
  by (rule run_loop_next [OF _ assms(2) _ assms(4)])
    (use assms(1,3) in \<open>simp_all add: wait_round_def env_events_script\<close>)

lemmas run_loop_stop_Nil = run_loop_stop [where es = "[]", unfolded fold_Nil id_apply]
lemmas run_loop_again_Nil = run_loop_again [where es = "[]", unfolded fold_Nil id_apply]

section \<open>The states of the run\<close>

text \<open>
  A node that was in a collision with itself, has nothing in its queues and hears no packet, and
  whose slot is in the frame and whose channel is one of the first seven.
\<close>

definition collided :: "'k rtos \<Rightarrow> 'k world \<Rightarrow> bool" where
  "collided os w \<longleftrightarrow> (let m = mclmac w; i = mac m in
     elements_on_queue os (kernel w) (mac_queue_id m) = Inr 0 \<and> hears_nothing m \<and>
     collisionDetected i \<and> is_internal_collision i \<and> selectedSlot i < nSlots m \<and>
     (\<exists>q < 7. frequencies m ! q = transmitChannel i))"

text \<open>The collision as the node has noted it.\<close>

definition noted :: "MCLMAC_t \<Rightarrow> u8 \<times> u32 \<times> u8" where
  "noted m = (mac_collisionSlot (mac m), mac_collisionFrequency (mac m), selectedSlot (mac m))"

text \<open>
  The frame has its lengths, nothing was received, the slot timer runs, and another is free for the
  CF timer.
\<close>

definition under_way :: "'k rtos \<Rightarrow> 'k world \<Rightarrow> bool" where
  "under_way os w \<longleftrightarrow> collided os w \<and> (let f = frame (internals w) in
     slots_number f = nSlots (mclmac w) \<and> slot_duration f = 80000 \<and> cf_duration f = 500 \<and>
     current_slot f < nSlots (mclmac w) \<and> ticking (slot_timer f) 80000 w) \<and>
     number_packets_received (internals w) = 0 \<and> some_free_slot (timeouts w)"

lemma fixed_collided:
  assumes "fixed (mclmac w') = fixed (mclmac w)" and "kernel w' = kernel w"
  shows "collided os w' = collided os w" "noted (mclmac w') = noted (mclmac w)"
  using fixed_fields [OF assms(1)] fixed_hears_nothing [OF assms(1)] assms(2)
  by (simp_all add: collided_def noted_def Let_def)

lemma collided_announces: "collided os w \<Longrightarrow> announces (mclmac w) = own_slot (mclmac w)"
  by (simp add: collided_def announces_def has_to_send_def Let_def)

lemma collided_channel: "collided os w \<Longrightarrow> \<exists>q. my_channel (mclmac w) q"
  by (auto simp: collided_def my_channel_def Let_def)

lemma under_way_wait:
  assumes "under_way os w" and "after_lapse s n e w w1"
  shows "under_way os w1"
  using assms after_lapseD [OF assms(2)] by (auto simp: under_way_def collided_def Let_def intro: ticking_wf)

lemma arm_slot_ticks:
  assumes "wf_timeouts (timeouts w)" and "two_free_slots (timeouts w)" and "slot_duration (frame (internals w)) = 80000"
  defines "w' \<equiv> arm_slot_timer w"
  shows "ticking (slot_timer (frame (internals w'))) 80000 w'" "some_free_slot (timeouts w')"
    "mclmac w' = on_frame (slot_timer_update (\<lambda>_. slot_timer (frame (internals w')))) (mclmac w)"
    "kernel w' = kernel w" "script w' = script w"
proof -
  obtain i x where set: "set_timer 80000 w = (i, x)" by (cases "set_timer 80000 w")
  have w': "w' = on_mclmac (on_frame (slot_timer_update (\<lambda>_. i))) x"
    by (simp add: w'_def arm_slot_timer_def assms(3) set)
  note fr = set_timer_frame [OF set]
  have i: "slot_timer (frame (internals w')) = i" by (simp add: w' mac_access)
  have same: "timeouts w' = timeouts x" "clock w' = clock x" by (simp_all add: w')
  have "ticking i 80000 x" by (rule ticking_set [OF set assms(1) two_free_some [OF assms(2)]]) simp_all
  then show "ticking (slot_timer (frame (internals w'))) 80000 w'" unfolding i ticking_same [OF same] .
  have "timeout_set (timeouts w) (clock w) 80000 = (i, timeouts x)"
    using set by (auto simp: set_timer_def split: prod.splits)
  with set_keeps_free [OF assms(1,2)] show "some_free_slot (timeouts w')" unfolding same by blast
  show "mclmac w' = on_frame (slot_timer_update (\<lambda>_. slot_timer (frame (internals w')))) (mclmac w)"
    unfolding i using fr by (simp add: w')
  show "kernel w' = kernel w" "script w' = script w" using fr by (simp_all add: w')
qed

text \<open>Setting the slot timer gets the node under way.\<close>

lemma arm_slot_under_way:
  assumes "collided os w" and "wf_timeouts (timeouts w)" and "two_free_slots (timeouts w)"
    and "slot_duration (frame (internals w)) = 80000" and "cf_duration (frame (internals w)) = 500"
    and "slots_number (frame (internals w)) = nSlots (mclmac w)"
    and "current_slot (frame (internals w)) < slots_number (frame (internals w))"
    and "number_packets_received (internals w) = 0"
  defines "w' \<equiv> arm_slot_timer w"
  shows "under_way os w'" "noted (mclmac w') = noted (mclmac w)" "nSlots (mclmac w') = nSlots (mclmac w)"
    "powerMode (mclmac w') = powerMode (mclmac w)" "nextPowerMode (mclmac w') = nextPowerMode (mclmac w)"
    "current_slot (frame (internals w')) = current_slot (frame (internals w))" "script w' = script w"
proof -
  note arm = arm_slot_ticks [OF assms(2-4), folded w'_def]
  have m: "mclmac w' = on_frame (slot_timer_update (\<lambda>_. slot_timer (frame (internals w')))) (mclmac w)" by (rule arm)
  then have "fixed (mclmac w') = fixed (mclmac w)" by (metis fixed_updates(4))
  note same = fixed_collided [OF this arm(4)] fixed_fields [OF this]
  show "noted (mclmac w') = noted (mclmac w)" "nSlots (mclmac w') = nSlots (mclmac w)" "script w' = script w"
    using same arm(5) by simp_all
  show cur: "powerMode (mclmac w') = powerMode (mclmac w)" "nextPowerMode (mclmac w') = nextPowerMode (mclmac w)"
    "current_slot (frame (internals w')) = current_slot (frame (internals w))"
    by (subst m, simp add: mac_access)+
  show "under_way os w'" using assms same cur arm(1,2) by (simp add: under_way_def Let_def)
qed

section \<open>STARTP\<close>

lemma startp_run:
  assumes "collided os w" and "0 < nChannels (mclmac w)" and "wf_timeouts (timeouts w)" and "two_free_slots (timeouts w)"
  shows "\<exists>w'. execute_startp w = Inr (E_PM_EXECUTION_SUCCESS, w') \<and> under_way os w' \<and>
    powerMode (mclmac w') = powerMode (mclmac w) \<and> nextPowerMode (mclmac w') = PASSIVE \<and>
    noted (mclmac w') = noted (mclmac w) \<and> nSlots (mclmac w') = nSlots (mclmac w) \<and> script w' = script w"
proof -
  define v where "v = on_mclmac (\<lambda>m. (on_mac reset_packet_counters (mclmac_set_current_cf_slot
      (mclmac_set_current_slot (mclmac_set_current_frame (on_frame (\<lambda>f. f\<lparr>slots_number := nSlots m,
        cf_slots_number := nChannels m, frame_duration := FRAME_DURATION, slot_duration := SLOT_DURATION,
        cf_duration := CF_SLOT_DURATION\<rparr>) m) (wakeup_frame m + 1)) 0) 0))\<lparr>nextPowerMode := PASSIVE\<rparr>) w"
  have pos: "0 < nSlots (mclmac w)" using assms(1) by (auto simp: collided_def Let_def word_gt_0)
  have run: "execute_startp w = Inr (E_PM_EXECUTION_SUCCESS, arm_slot_timer v)"
    using pos assms(2)
    by (simp add: execute_startp_def try_mclmac_def startp_settings_def mac_access
        mclmac_set_slots_number_def mclmac_set_cf_slots_number_def mclmac_set_frame_duration_def
        mclmac_set_slot_duration_def mclmac_set_cf_duration_def FRAME_DURATION_def v_def on_mclmac_def)
  have v: "collided os v" "timeouts v = timeouts w" "slot_duration (frame (internals v)) = 80000"
    "cf_duration (frame (internals v)) = 500" "slots_number (frame (internals v)) = nSlots (mclmac w)"
    "current_slot (frame (internals v)) = 0" "number_packets_received (internals v) = 0"
    "powerMode (mclmac v) = powerMode (mclmac w)" "nextPowerMode (mclmac v) = PASSIVE" "script v = script w"
    "noted (mclmac v) = noted (mclmac w)" "nSlots (mclmac v) = nSlots (mclmac w)"
    using assms(1) by (simp_all add: v_def collided_def noted_def Let_def hears_nothing_def mac_access reset_packet_counters_def)
  have "slots_number (frame (internals v)) = nSlots (mclmac v)"
    "current_slot (frame (internals v)) < slots_number (frame (internals v))" using v pos by simp_all
  from arm_slot_under_way [OF v(1) assms(3,4) [folded v(2)] v(3,4) this v(7)] v run
  show ?thesis by simp
qed

section \<open>PASSIVE\<close>

lemma slot_after:
  fixes c n :: u8
  assumes "c < n"
  shows "(if c + 1 = n then 0 else c + 1) < n"
proof -
  have "unat c < 255" using assms unsigned_less [of n, where ?'a = nat] by (simp add: word_less_nat_alt)
  then have "unat (c + 1) = unat c + 1" by (simp add: unat_inc)
  with assms show ?thesis by (auto simp: word_less_nat_alt word_unat_eq_iff)
qed

text \<open>The node sleeps until the slot timer has passed, at the latest after the next long lapse.\<close>

lemma passive_loop:
  assumes "under_way os w" and "lapses 80000 (Suc n) w"
  shows "\<exists>w'. run_loop (passive_round os) () w = Inr ((), w') \<and> mclmac w' = mclmac w \<and> kernel w' = kernel w \<and>
    wf_timeouts (timeouts w') \<and> two_free_slots (timeouts w') \<and> lapses 80000 n w'"
proof -
  let ?I = "\<lambda>_ v. mclmac v = mclmac w \<and> kernel v = kernel w \<and> under_way os v \<and> lapses 80000 (Suc n) v"
  let ?P = "\<lambda>_ v. mclmac v = mclmac w \<and> kernel v = kernel w \<and> wf_timeouts (timeouts v) \<and>
    two_free_slots (timeouts v) \<and> lapses 80000 n v"
  have "\<exists>l' w'. run_loop (passive_round os) () w = Inr (l', w') \<and> ?P l' w'"
  proof (rule run_loop_ends [where I = ?I and P = ?P])
    show "?I () w" using assms by simp
    fix l and v :: "'a world" assume I: "?I l v"
    then obtain e u where wait: "wait_round v = Inr u" and after: "after_lapse 80000 n e v u"
      by (blast elim: lapses_wait)
    let ?i = "slot_timer (frame (internals u))"
    note u = after_lapseD [OF after]
    have uw: "under_way os u" using under_way_wait [OF _ after] I by blast
    then have t: "ticking ?i 80000 u" and free: "some_free_slot (timeouts u)"
      and idle: "elements_on_queue os (kernel u) (mac_queue_id (mclmac u)) = Inr 0" "number_packets_received (internals u) = 0"
      by (simp_all add: under_way_def collided_def Let_def)
    note round = idle_passive_round [OF idle, of l]
    show "\<exists>u again l' w'. wait_round v = Inr u \<and> passive_round os l u = Inr (again, l', w') \<and>
        (if again then ?I l' w' \<and> length (script w') \<le> length (script u) else ?P l' w')"
    proof (cases "passed ?i u = 1")
      case True
      have "timeouts (unset_timer ?i u) = snd (timeout_unset (timeouts u) ?i)" by (simp add: unset_timer_def)
      with unset_frees(2) [OF ticking_wf [OF t] ticking_passed [OF t] free]
      have "two_free_slots (timeouts (unset_timer ?i u))" by simp
      moreover have "wf_timeouts (timeouts (unset_timer ?i u))" by (rule wf_unset_timer [OF ticking_wf [OF t]])
      moreover have "lapses 80000 n (unset_timer ?i u)" by (rule lapses_script [THEN iffD2, OF _ u(3)]) simp
      moreover have "mclmac (unset_timer ?i u) = mclmac w" "kernel (unset_timer ?i u) = kernel w"
        using u(1,2) I by auto
      ultimately have P: "?P () (unset_timer ?i u)" by blast
      have "passive_round os l u = Inr (False, (), unset_timer ?i u)" using round True by simp
      with wait P show ?thesis by (metis (full_types))
    next
      case False
      have "ticking ?i 80000 v" using I u(1) by (auto simp: under_way_def Let_def)
      with False u(6) have "\<not> 80000 \<le> e" by blast
      from u(4) [OF this] have I': "?I () u" using u(1,2) I uw by simp
      have "passive_round os l u = Inr (True, (), u)" using round False by simp
      with wait I' show ?thesis by (metis (full_types) order.refl)
    qed
  qed
  then show ?thesis by auto
qed

lemma passive_run:
  assumes "under_way os w" and "lapses 80000 (Suc n) w"
  defines "f \<equiv> frame (internals w)"
  shows "\<exists>w'. execute_passive os w = Inr (E_PM_EXECUTION_SUCCESS, w') \<and> under_way os w' \<and> lapses 80000 n w' \<and>
    powerMode (mclmac w') = powerMode (mclmac w) \<and> nextPowerMode (mclmac w') = ACTIVE \<and>
    noted (mclmac w') = noted (mclmac w) \<and> nSlots (mclmac w') = nSlots (mclmac w) \<and>
    current_slot (frame (internals w')) = (if current_slot f + 1 = slots_number f then 0 else current_slot f + 1) \<and>
    length (script w') \<le> length (script w)"
proof -
  define w0 where "w0 = on_mclmac (\<lambda>m. mclmac_set_radio_sleep (mclmac_set_current_cf_slot m 0)) w"
  have same: "timeouts w0 = timeouts w" "clock w0 = clock w" "kernel w0 = kernel w" by (simp_all add: w0_def)
  have m0: "mclmac w0 = mclmac_set_current_cf_slot (mclmac w) 0" by (simp add: w0_def)
  have "collided os w0 = collided os w" by (rule fixed_collided) (simp_all add: m0 same)
  moreover have "frame (internals w0) = (frame (internals w))\<lparr>current_cf_slot := 0\<rparr>" "nSlots (mclmac w0) = nSlots (mclmac w)"
    "number_packets_received (internals w0) = number_packets_received (internals w)"
    by (simp_all add: m0 mac_access)
  ultimately have uw: "under_way os w0"
    using assms(1) by (auto simp: under_way_def Let_def same ticking_same [OF same(1,2)])
  obtain w1 where loop: "run_loop (passive_round os) () w0 = Inr ((), w1)" and w1: "mclmac w1 = mclmac w0"
    "kernel w1 = kernel w" "wf_timeouts (timeouts w1)" "two_free_slots (timeouts w1)" "lapses 80000 n w1"
    using passive_loop [OF uw, of n] assms(2) lapses_script [of w0 w] same by (auto simp: w0_def)
  define v where "v = on_mclmac advance_slot w1"
  let ?c = "if current_slot f + 1 = slots_number f then 0 else current_slot f + 1"
  have "fixed (mclmac v) = fixed (mclmac w)"
    by (simp add: v_def w1(1) m0 fixed_def advance_slot_def mac_access Let_def)
  note fx = fixed_collided [OF this] fixed_fields [OF this]
  have k: "kernel v = kernel w" using w1(2) by (simp add: v_def)
  have v: "collided os v" "slot_duration (frame (internals v)) = 80000" "cf_duration (frame (internals v)) = 500"
    "slots_number (frame (internals v)) = nSlots (mclmac v)" "number_packets_received (internals v) = 0"
    "noted (mclmac v) = noted (mclmac w)" "nSlots (mclmac v) = nSlots (mclmac w)"
    using assms(1) fx k by (simp_all add: under_way_def Let_def)
  have cur: "current_slot (frame (internals v)) = ?c"
    by (simp add: v_def w1(1) m0 advance_slot_def mac_access f_def Let_def)
  have pm: "powerMode (mclmac v) = powerMode (mclmac w)"
    by (simp add: v_def w1(1) m0 advance_slot_def mac_access Let_def)
  have "current_slot f < slots_number f" using assms(1) by (auto simp: under_way_def f_def Let_def)
  then have "?c < slots_number f" by (rule slot_after)
  moreover have "slots_number f = slots_number (frame (internals v))" using fx by (simp add: f_def)
  ultimately have lt: "current_slot (frame (internals v)) < slots_number (frame (internals v))" using cur by simp
  have run: "execute_passive os w = Inr (E_PM_EXECUTION_SUCCESS, on_mclmac (nextPowerMode_update (\<lambda>_. ACTIVE)) (arm_slot_timer v))"
    using loop by (simp add: execute_passive_def v_def w0_def)
  let ?w = "on_mclmac (nextPowerMode_update (\<lambda>_. ACTIVE)) (arm_slot_timer v)"
  have same_v: "timeouts v = timeouts w1" by (simp add: v_def)
  note arm = arm_slot_under_way [OF v(1) w1(3,4) [folded same_v] v(2-4) lt v(5)]
  have len: "length (script w1) \<le> length (script w)"
    using run_loop_consumes [OF loop passive_round_consumes] by (simp add: w0_def)
  have same_w: "timeouts ?w = timeouts (arm_slot_timer v)" "clock ?w = clock (arm_slot_timer v)" by simp_all
  have "collided os ?w = collided os (arm_slot_timer v)" by (rule fixed_collided) simp_all
  then have "under_way os ?w" using arm(1) by (simp add: under_way_def Let_def ticking_same [OF same_w])
  moreover have "noted (mclmac ?w) = noted (mclmac (arm_slot_timer v))" by (simp add: noted_def)
  ultimately show ?thesis
    using run arm v cur pm w1(5) len fx lapses_script [of ?w w1] by (simp add: v_def)
qed

section \<open>ACTIVE\<close>

text \<open>In its own slot the node announces the collision, in the others it only listens.\<close>

lemma active_run:
  assumes "under_way os w" and "lapses 80000 (10 + n) w"
  shows "\<exists>w'. execute_active True w = Inr (E_PM_EXECUTION_SUCCESS, w') \<and> under_way os w' \<and> lapses 80000 n w' \<and>
    powerMode (mclmac w') = powerMode (mclmac w) \<and>
    nextPowerMode (mclmac w') = (if own_slot (mclmac w) then TRANSMIT else PASSIVE) \<and>
    noted (mclmac w') = noted (mclmac w) \<and> nSlots (mclmac w') = nSlots (mclmac w) \<and>
    current_slot (frame (internals w')) = current_slot (frame (internals w)) \<and>
    length (script w') \<le> length (script w)"
proof -
  let ?K = "{(slot_timer (frame (internals w)), 80000)} :: (u32 \<times> u32) set"
  from assms(1) have c: "collided os w" and w: "hears_nothing (mclmac w)" "cf_duration (frame (internals w)) = 500"
    "all_tick ?K w" "some_free_slot (timeouts w)" "wf_timeouts (timeouts w)"
    by (auto simp: under_way_def collided_def Let_def all_tick_def intro: ticking_wf)
  obtain w' where run: "execute_active True w = Inr (E_PM_EXECUTION_SUCCESS, w')"
    and w': "along w w'" "all_tick ?K w'" "some_free_slot (timeouts w')" "lapses 80000 n w'"
      "length (script w') \<le> length (script w)"
    and next_mode: "nextPowerMode (mclmac w') = PASSIVE \<or> nextPowerMode (mclmac w') = TRANSMIT \<and> announces (mclmac w)"
      "announces (mclmac w) \<and> (\<exists>q. my_channel (mclmac w) q) \<longrightarrow> nextPowerMode (mclmac w') = TRANSMIT"
    using active_lapses [OF w(5,4,3,2,1) assms(2)] by auto
  have mode: "nextPowerMode (mclmac w') = (if own_slot (mclmac w) then TRANSMIT else PASSIVE)"
    using next_mode collided_announces [OF c] collided_channel [OF c] by auto
  have fx: "fixed (mclmac w') = fixed (mclmac w)" and k: "kernel w' = kernel w"
    and t: "slot_timer (frame (internals w')) = slot_timer (frame (internals w))"
    using w'(1) by (simp_all add: along_def)
  have st: "current_slot (frame (internals w')) = current_slot (frame (internals w))"
    "powerMode (mclmac w') = powerMode (mclmac w)"
    using active_result [OF run] by (simp_all add: station_def)
  have "ticking (slot_timer (frame (internals w'))) 80000 w'" using w'(2) t by (simp add: all_tick_def)
  then have "under_way os w'"
    using assms(1) fixed_collided(1) [OF fx k] fixed_fields [OF fx] st(1) w'(3)
    by (auto simp: under_way_def Let_def)
  with run w'(4,5) mode st fixed_collided(2) [OF fx k] fixed_fields(4) [OF fx] show ?thesis by simp
qed

section \<open>TRANSMIT\<close>

text \<open>The control packet that TRANSMIT makes and sends.\<close>

definition control_report :: "MCLMAC_t \<Rightarrow> ControlPacket_t" where
  "control_report m = ctrlpkt (mac (mclmac_create_control_packet (snd (mclmac_start_split_phase m TRANSMIT))))"

lemma control_report_fields:
  "controlpacket_get_collision_slot (control_report m) = mac_collisionSlot (mac m)"
  "controlpacket_get_collision_frequency (control_report m) = mac_collisionFrequency (mac m)"
  "controlpacket_get_current_slot (control_report m) = current_slot (frame (mac m))"
  by (simp_all add: control_report_def mclmac_create_control_packet_def mclmac_start_split_phase_def
      controlpacket_create_def controlpacket_get_collision_slot_def controlpacket_get_collision_frequency_def
      controlpacket_get_current_slot_def mac_access)

lemma transmit_run:
  assumes "collisionDetected (internals w)" and "is_internal_collision (internals w)"
  shows "\<exists>w'. execute_transmit w = Inr (E_PM_COLLISION_ERROR, w') \<and> script w' = script w"
  using assms
  by (simp add: execute_transmit_def mclmac_send_control_packet_def control_encode c_rand_def Let_def
      mclmac_create_control_packet_def mclmac_start_split_phase_def mac_access forget_collision_def)

section \<open>The loop of MEDIUM ACCESS\<close>

lemma execute_mode:
  "nSlots (mclmac w) > 0 \<Longrightarrow> mclmac_execute_powermode_state os testing w =
    (case powerMode (mclmac w) of STARTP \<Rightarrow> execute_startp w | PASSIVE \<Rightarrow> execute_passive os w
     | ACTIVE \<Rightarrow> execute_active testing w | TRANSMIT \<Rightarrow> execute_transmit w
     | RECEIVE \<Rightarrow> execute_receive testing w | FINISHP \<Rightarrow> execute_finishp w
     | NONEP \<Rightarrow> Inr (E_PM_EXECUTION_FAILED, w) | _ \<Rightarrow> Inr (E_PM_EXECUTION_SUCCESS, w))"
  by (simp add: mclmac_execute_powermode_state_def split: PowerMode_t.splits)

lemma updated:
  assumes "powermode_edge (powerMode (mclmac w)) (nextPowerMode (mclmac w))"
  shows "mclmac (update_powermode w) = (mclmac w)\<lparr>powerMode := nextPowerMode (mclmac w)\<rparr>"
    "timeouts (update_powermode w) = timeouts w" "kernel (update_powermode w) = kernel w"
    "script (update_powermode w) = script w" "clock (update_powermode w) = clock w"
  using update_powermode_edge [OF assms] by (simp_all add: update_powermode_def)

lemma updated_under_way:
  assumes "powermode_edge (powerMode (mclmac w)) (nextPowerMode (mclmac w))"
  shows "under_way os (update_powermode w) = under_way os w"
    "noted (mclmac (update_powermode w)) = noted (mclmac w)"
proof -
  note u = updated [OF assms]
  have fx: "fixed (mclmac (update_powermode w)) = fixed (mclmac w)" by (simp add: u)
  note f = fixed_collided [OF fx u(3)]
  show "noted (mclmac (update_powermode w)) = noted (mclmac w)" by (rule f(2))
  show "under_way os (update_powermode w) = under_way os w"
    unfolding under_way_def f ticking_same [OF u(2,5)] by (simp add: u Let_def)
qed

lemma under_way_slots: "under_way os w \<Longrightarrow> 0 < nSlots (mclmac w)"
  by (auto simp: under_way_def Let_def word_gt_0)

text \<open>One round of the loop that is not the last.\<close>

definition access_step :: "'k rtos \<Rightarrow> bool \<Rightarrow> 'k world \<Rightarrow> 'k world \<Rightarrow> bool" where
  "access_step os testing w w' \<longleftrightarrow> (\<exists>u. wait_round w = Inr u \<and> access_round os testing () u = Inr (True, (), w'))"

lemma state_step:
  assumes "wait_round w = Inr u" and "under_way os u"
    and "mclmac_execute_powermode_state os True u = Inr (E_PM_EXECUTION_SUCCESS, v)"
    and "under_way os v" and "powermode_edge (powerMode (mclmac v)) (nextPowerMode (mclmac v))"
    and "length (script v) \<le> length (script u)" and "lapses s n v"
  defines "w' \<equiv> update_powermode v"
  shows "access_step os True w w'" "under_way os w'" "noted (mclmac w') = noted (mclmac v)" "lapses s n w'"
    "run_loop (access_round os True) () w' = Inr r \<Longrightarrow> run_loop (access_round os True) () w = Inr r"
proof -
  have round: "access_round os True () u = Inr (True, (), w')"
    using assms(3) by (simp add: access_round_def w'_def)
  with assms(1) show "access_step os True w w'" by (auto simp: access_step_def)
  show "under_way os w'" "noted (mclmac w') = noted (mclmac v)"
    using updated_under_way [OF assms(5)] assms(4) by (simp_all add: w'_def)
  have sc: "script w' = script v" using updated(4) [OF assms(5)] by (simp add: w'_def)
  show "lapses s n w'" using assms(7) lapses_script [OF sc] by blast
  show "run_loop (access_round os True) () w = Inr r" if "run_loop (access_round os True) () w' = Inr r"
    by (rule run_loop_next [OF assms(1) round _ that]) (use assms(6) sc in simp)
qed

lemma passive_step:
  assumes "under_way os w" and "powerMode (mclmac w) = PASSIVE" and "lapses 80000 (n + 2) w"
  defines "f \<equiv> frame (internals w)"
  shows "\<exists>w'. access_step os True w w' \<and> under_way os w' \<and> powerMode (mclmac w') = ACTIVE \<and> lapses 80000 n w' \<and>
    noted (mclmac w') = noted (mclmac w) \<and> nSlots (mclmac w') = nSlots (mclmac w) \<and>
    current_slot (frame (internals w')) = (if current_slot f + 1 = slots_number f then 0 else current_slot f + 1) \<and>
    (\<forall>r. run_loop (access_round os True) () w' = Inr r \<longrightarrow> run_loop (access_round os True) () w = Inr r)"
proof -
  have "lapses 80000 (Suc (Suc n)) w" using assms(3) by simp
  then obtain e u where wait: "wait_round w = Inr u" and after: "after_lapse 80000 (Suc n) e w u" by (rule lapses_wait)
  note uw = under_way_wait [OF assms(1) after] and u = after_lapseD [OF after]
  obtain v where v: "execute_passive os u = Inr (E_PM_EXECUTION_SUCCESS, v)" "under_way os v" "lapses 80000 n v"
    "powerMode (mclmac v) = powerMode (mclmac u)" "nextPowerMode (mclmac v) = ACTIVE"
    "noted (mclmac v) = noted (mclmac u)" "nSlots (mclmac v) = nSlots (mclmac u)"
    "current_slot (frame (internals v)) = (if current_slot f + 1 = slots_number f then 0 else current_slot f + 1)"
    "length (script v) \<le> length (script u)"
    using passive_run [OF uw u(3)] u(1) by (auto simp: f_def)
  have edge: "powermode_edge (powerMode (mclmac v)) (nextPowerMode (mclmac v))" using v(4,5) u(1) assms(2) by simp
  have "mclmac_execute_powermode_state os True u = Inr (E_PM_EXECUTION_SUCCESS, v)"
    using v(1) u(1) assms(2) under_way_slots [OF uw] by (simp add: execute_mode)
  note step = state_step [OF wait uw this v(2) edge v(9,3)]
  show ?thesis
    by (rule exI [of _ "update_powermode v"]) (use step v(5-8) u(1) updated(1) [OF edge] in auto)
qed

lemma active_step:
  assumes "under_way os w" and "powerMode (mclmac w) = ACTIVE" and "lapses 80000 (n + 11) w"
  shows "\<exists>w'. access_step os True w w' \<and> under_way os w' \<and> lapses 80000 n w' \<and>
    powerMode (mclmac w') = (if own_slot (mclmac w) then TRANSMIT else PASSIVE) \<and>
    noted (mclmac w') = noted (mclmac w) \<and> nSlots (mclmac w') = nSlots (mclmac w) \<and>
    current_slot (frame (internals w')) = current_slot (frame (internals w)) \<and>
    (\<forall>r. run_loop (access_round os True) () w' = Inr r \<longrightarrow> run_loop (access_round os True) () w = Inr r)"
proof -
  have "lapses 80000 (Suc (10 + n)) w" using assms(3) by (simp add: add.commute)
  then obtain e u where wait: "wait_round w = Inr u" and after: "after_lapse 80000 (10 + n) e w u" by (rule lapses_wait)
  note uw = under_way_wait [OF assms(1) after] and u = after_lapseD [OF after]
  obtain v where v: "execute_active True u = Inr (E_PM_EXECUTION_SUCCESS, v)" "under_way os v" "lapses 80000 n v"
    "powerMode (mclmac v) = powerMode (mclmac u)"
    "nextPowerMode (mclmac v) = (if own_slot (mclmac w) then TRANSMIT else PASSIVE)"
    "noted (mclmac v) = noted (mclmac u)" "nSlots (mclmac v) = nSlots (mclmac u)"
    "current_slot (frame (internals v)) = current_slot (frame (internals u))"
    "length (script v) \<le> length (script u)"
    using active_run [OF uw u(3)] u(1) by auto
  have edge: "powermode_edge (powerMode (mclmac v)) (nextPowerMode (mclmac v))" using v(4,5) u(1) assms(2) by simp
  have "mclmac_execute_powermode_state os True u = Inr (E_PM_EXECUTION_SUCCESS, v)"
    using v(1) u(1) assms(2) under_way_slots [OF uw] by (simp add: execute_mode)
  note step = state_step [OF wait uw this v(2) edge v(9,3)]
  show ?thesis
    by (rule exI [of _ "update_powermode v"]) (use step v(5-8) u(1) updated(1) [OF edge] in auto)
qed

text \<open>The last round of the loop: TRANSMIT, in the node's own slot.\<close>

definition transmit_ends :: "'k rtos \<Rightarrow> bool \<Rightarrow> 'k world \<Rightarrow> 'k world \<Rightarrow> 'k world \<Rightarrow> bool" where
  "transmit_ends os testing w w1 w2 \<longleftrightarrow>
     (\<exists>v. (access_step os testing)\<^sup>*\<^sup>* w v \<and> wait_round v = Inr w1) \<and> powerMode (mclmac w1) = TRANSMIT \<and>
     own_slot (mclmac w1) \<and> access_round os testing () w1 = Inr (False, (), w2)"

definition reported :: "'k rtos \<Rightarrow> 'k world \<Rightarrow> 'k world \<Rightarrow> 'k world \<Rightarrow> bool" where
  "reported os w w1 w2 \<longleftrightarrow> transmit_ends os True w w1 w2 \<and> run_loop (access_round os True) () w = Inr ((), w2) \<and>
     noted (mclmac w1) = noted (mclmac w) \<and> nextState (mclmac w2) = SYNCHRONIZATION \<and>
     \<not> collisionDetected (internals w2) \<and> powerMode (mclmac w2) = TRANSMIT \<and> nextPowerMode (mclmac w2) = FINISHP \<and>
     nSlots (mclmac w2) > 0 \<and> current_slot (frame (internals w2)) = selectedSlot (internals w)"

lemma transmit_step:
  assumes "under_way os w" and "powerMode (mclmac w) = TRANSMIT" and "own_slot (mclmac w)" and "lapses 80000 (Suc n) w"
  shows "\<exists>w1 w2. reported os w w1 w2"
proof -
  obtain e u where wait: "wait_round w = Inr u" and after: "after_lapse 80000 n e w u"
    using assms(4) by (rule lapses_wait)
  note uw = under_way_wait [OF assms(1) after] and u = after_lapseD [OF after]
  have c: "collisionDetected (internals u)" "is_internal_collision (internals u)"
    using uw by (simp_all add: under_way_def collided_def Let_def)
  from transmit_run [OF this] obtain v where v: "execute_transmit u = Inr (E_PM_COLLISION_ERROR, v)" by blast
  let ?w = "on_mclmac (nextState_update (\<lambda>_. SYNCHRONIZATION)) (on_mclmac (nextPowerMode_update (\<lambda>_. FINISHP)) v)"
  have round: "access_round os True () u = Inr (False, (), ?w)"
    using v u(1) assms(2) under_way_slots [OF uw] by (simp add: access_round_def execute_mode)
  have "transmit_ends os True w u ?w"
    using wait round u(1) assms(2,3) by (auto simp: transmit_ends_def)
  moreover have "run_loop (access_round os True) () w = Inr ((), ?w)" by (rule run_loop_last [where body = "access_round os True", OF wait round])
  ultimately show ?thesis
    using transmit_result [OF v] u(1) assms(2,3) under_way_slots [OF assms(1)]
    by (intro exI [of _ u] exI [of _ ?w]) (simp add: reported_def station_def own_slot_def)
qed

section \<open>The way to the own slot\<close>

text \<open>How many slots there are from \<open>c\<close> until \<open>s\<close> comes, a whole frame of \<open>n\<close> when they are the same.\<close>

definition slots_between :: "u8 \<Rightarrow> u8 \<Rightarrow> u8 \<Rightarrow> nat" where
  "slots_between n c s = (if c < s then unat s - unat c else unat n - unat c + unat s)"

definition slots_to_go :: "MCLMAC_t \<Rightarrow> nat" where
  "slots_to_go m = slots_between (nSlots m) (current_slot (frame (mac m))) (selectedSlot (mac m))"

lemma next_slot_nearer:
  assumes "c < n" and "s < n"
  defines "c' \<equiv> if c + 1 = n then 0 else c + 1"
  shows "if c' = s then slots_between n c s = 1 else Suc (slots_between n c' s) = slots_between n c s"
proof -
  have "unat c < 255" using assms(1) unsigned_less [of n, where ?'a = nat] by (simp add: word_less_nat_alt)
  then have "unat (c + 1) = Suc (unat c)" by (simp add: unat_inc)
  then have c': "unat c' = (if Suc (unat c) = unat n then 0 else Suc (unat c))"
    by (simp add: c'_def word_unat_eq_iff)
  have lt: "unat c < unat n" "unat s < unat n" using assms by (simp_all add: word_less_nat_alt)
  show ?thesis using c' lt by (auto simp: slots_between_def word_unat_eq_iff word_less_nat_alt split: if_splits)
qed

lemma slots_to_go_le: "under_way os w \<Longrightarrow> slots_to_go (mclmac w) \<le> unat (nSlots (mclmac w))"
  by (auto simp: slots_to_go_def slots_between_def under_way_def collided_def Let_def word_less_nat_alt)

lemma reported_before:
  assumes "(access_step os True)\<^sup>*\<^sup>* w v" and "reported os v w1 w2" and "noted (mclmac v) = noted (mclmac w)"
    and "\<forall>r. run_loop (access_round os True) () v = Inr r \<longrightarrow> run_loop (access_round os True) () w = Inr r"
  shows "reported os w w1 w2"
proof -
  have "transmit_ends os True w w1 w2"
    using assms(1,2) unfolding reported_def transmit_ends_def by (blast intro: rtranclp_trans)
  with assms(2-4) show ?thesis by (auto simp: reported_def noted_def)
qed

text \<open>The next slot: PASSIVE until it comes, and ACTIVE in it.\<close>

lemma next_slot:
  assumes "under_way os w" and "powerMode (mclmac w) = PASSIVE" and "lapses 80000 (n + 13) w"
  shows "\<exists>w'. (access_step os True)\<^sup>*\<^sup>* w w' \<and> under_way os w' \<and> lapses 80000 n w' \<and>
    powerMode (mclmac w') = (if own_slot (mclmac w') then TRANSMIT else PASSIVE) \<and>
    noted (mclmac w') = noted (mclmac w) \<and>
    (if own_slot (mclmac w') then slots_to_go (mclmac w) = 1
     else Suc (slots_to_go (mclmac w')) = slots_to_go (mclmac w)) \<and>
    (\<forall>r. run_loop (access_round os True) () w' = Inr r \<longrightarrow> run_loop (access_round os True) () w = Inr r)"
proof -
  let ?c = "current_slot (frame (internals w))" and ?n = "nSlots (mclmac w)" and ?s = "selectedSlot (internals w)"
  have c: "?c < ?n" "?s < ?n" "slots_number (frame (internals w)) = ?n"
    using assms(1) by (auto simp: under_way_def collided_def Let_def)
  have "n + 11 + 2 = n + 13" by simp
  with assms(3) have "lapses 80000 (n + 11 + 2) w" by metis
  from passive_step [OF assms(1,2) this] obtain a where a: "access_step os True w a" "under_way os a"
    "powerMode (mclmac a) = ACTIVE" "lapses 80000 (n + 11) a" "noted (mclmac a) = noted (mclmac w)"
    "nSlots (mclmac a) = ?n" "current_slot (frame (internals a)) = (if ?c + 1 = ?n then 0 else ?c + 1)"
    "\<forall>r. run_loop (access_round os True) () a = Inr r \<longrightarrow> run_loop (access_round os True) () w = Inr r"
    unfolding c(3) by blast
  from active_step [OF a(2-4)] obtain b where b: "access_step os True a b" "under_way os b"
    "lapses 80000 n b" "powerMode (mclmac b) = (if own_slot (mclmac a) then TRANSMIT else PASSIVE)"
    "noted (mclmac b) = noted (mclmac a)" "nSlots (mclmac b) = nSlots (mclmac a)"
    "current_slot (frame (internals b)) = current_slot (frame (internals a))"
    "\<forall>r. run_loop (access_round os True) () b = Inr r \<longrightarrow> run_loop (access_round os True) () a = Inr r"
    by blast
  have s: "selectedSlot (internals a) = ?s" "selectedSlot (internals b) = ?s"
    using a(5) b(5) by (simp_all add: noted_def)
  then have own: "own_slot (mclmac b) = own_slot (mclmac a)"
    "own_slot (mclmac b) \<longleftrightarrow> (if ?c + 1 = ?n then 0 else ?c + 1) = ?s"
    using a(7) b(7) by (simp_all add: own_slot_def)
  have "if own_slot (mclmac b) then slots_to_go (mclmac w) = 1
     else Suc (slots_to_go (mclmac b)) = slots_to_go (mclmac w)"
    using next_slot_nearer [OF c(1,2)] unfolding slots_to_go_def a(6) b(6) a(7) b(7) s own(2) .
  moreover have "(access_step os True)\<^sup>*\<^sup>* w b" using a(1) b(1) by (simp add: rtranclp.intros(2) [OF r_into_rtranclp])
  ultimately show ?thesis using a(5,8) b own(1) by (intro exI [of _ b]) simp
qed

lemma access_loop_run:
  assumes "under_way os w" and "powerMode (mclmac w) = PASSIVE" and "slots_to_go (mclmac w) \<le> d"
    and "lapses 80000 (13 * d + 1) w"
  shows "\<exists>w1 w2. reported os w w1 w2"
  using assms
proof (induction d arbitrary: w)
  case 0
  have "current_slot (frame (internals w)) < nSlots (mclmac w)"
    using 0(1) by (simp add: under_way_def Let_def)
  with 0(3) show ?case by (simp add: slots_to_go_def slots_between_def word_less_nat_alt split: if_splits)
next
  case (Suc d)
  have "13 * d + 1 + 13 = 13 * Suc d + 1" by simp
  with Suc.prems(4) have "lapses 80000 (13 * d + 1 + 13) w" by metis
  from next_slot [OF Suc.prems(1,2) this] obtain b where b: "(access_step os True)\<^sup>*\<^sup>* w b" "under_way os b"
    "lapses 80000 (13 * d + 1) b" "powerMode (mclmac b) = (if own_slot (mclmac b) then TRANSMIT else PASSIVE)"
    "noted (mclmac b) = noted (mclmac w)"
    "if own_slot (mclmac b) then slots_to_go (mclmac w) = 1 else Suc (slots_to_go (mclmac b)) = slots_to_go (mclmac w)"
    "\<forall>r. run_loop (access_round os True) () b = Inr r \<longrightarrow> run_loop (access_round os True) () w = Inr r"
    by blast
  have "\<exists>w1 w2. reported os b w1 w2"
  proof (cases "own_slot (mclmac b)")
    case True
    with b(3,4) show ?thesis using transmit_step [OF b(2) _ True, of "13 * d"] by simp
  next
    case False
    with b(4,6) Suc.prems(3) show ?thesis using Suc.IH [OF b(2) _ _ b(3)] by simp
  qed
  with reported_before [OF b(1) _ b(5,7)] show ?case by blast
qed

section \<open>The whole run\<close>

lemma access_run:
  assumes "collided os w" and "0 < nChannels (mclmac w)" and "wf_timeouts (timeouts w)" and "two_free_slots (timeouts w)"
    and "lapses 80000 (13 * unat (nSlots (mclmac w)) + 2) w"
  shows "\<exists>u w1 w2 w'. run_loop (start_round os True) () (on_mclmac mclmac_init_powermode_state_machine w) = Inr ((), u) \<and>
    reported os (update_powermode u) w1 w2 \<and> noted (mclmac (update_powermode u)) = noted (mclmac w) \<and>
    mclmac_execute_powermode_state os True (update_powermode w2) = Inr (E_PM_EXECUTION_SUCCESS, w') \<and>
    execute_medium_access os True w = Inr (E_MAC_EXECUTION_SUCCESS, w') \<and>
    nextState (mclmac w') = SYNCHRONIZATION \<and> \<not> collisionDetected (internals w')"
proof -
  let ?n = "13 * unat (nSlots (mclmac w)) + 1"
  define w0 where "w0 = on_mclmac mclmac_init_powermode_state_machine w"
  have same: "script w0 = script w" "timeouts w0 = timeouts w" "kernel w0 = kernel w" by (simp_all add: w0_def)
  have "fixed (mclmac w0) = fixed (mclmac w)"
    by (simp add: w0_def mclmac_init_powermode_state_machine_def fixed_def mac_access)
  note fx = fixed_collided [OF this same(3)] fixed_fields [OF this]
  have w0: "powerMode (mclmac w0) = STARTP" "nChannels (mclmac w0) = nChannels (mclmac w)" "lapses 80000 (Suc ?n) w0"
    using assms(5) lapses_script [OF same(1)] by (simp_all add: w0_def mclmac_init_powermode_state_machine_def)
  from w0(3) obtain e x where wait: "wait_round w0 = Inr x" and after: "after_lapse 80000 ?n e w0 x" by (rule lapses_wait)
  note x = after_lapseD [OF after]
  have c: "collided os x" and nx: "noted (mclmac x) = noted (mclmac w)"
    using assms(1) fx x(1,2) by (simp_all add: collided_def noted_def Let_def)
  have wf: "wf_timeouts (timeouts x)" "two_free_slots (timeouts x)" using assms(3,4) x(9,10) same(2) by simp_all
  have ch: "0 < nChannels (mclmac x)" using assms(2) w0(2) x(1) by simp
  from startp_run [OF c ch wf] obtain u where u: "execute_startp x = Inr (E_PM_EXECUTION_SUCCESS, u)" "under_way os u"
    "powerMode (mclmac u) = STARTP" "nextPowerMode (mclmac u) = PASSIVE" "noted (mclmac u) = noted (mclmac x)"
    "nSlots (mclmac u) = nSlots (mclmac x)" "script u = script x"
    using w0(1) x(1) by auto
  have "nSlots (mclmac x) > 0" using under_way_slots [OF u(2)] u(6) by simp
  then have "start_round os True () x = Inr (False, (), u)"
    using u(1) w0(1) x(1) by (simp add: start_round_def execute_mode)
  from run_loop_last [where body = "start_round os True", OF wait this]
  have start: "run_loop (start_round os True) () w0 = Inr ((), u)" .
  let ?u = "update_powermode u"
  have e: "powermode_edge (powerMode (mclmac u)) (nextPowerMode (mclmac u))" using u(3,4) by simp
  note up = updated_under_way [OF e] updated [OF e]
  have uw: "under_way os ?u" "powerMode (mclmac ?u) = PASSIVE" using u(2,4) up(1,3) by simp_all
  have n: "nSlots (mclmac ?u) = nSlots (mclmac w)" using up(3) u(6) x(1) fx by simp
  have "slots_to_go (mclmac ?u) \<le> unat (nSlots (mclmac w))" using slots_to_go_le [OF uw(1)] n by simp
  moreover have "lapses 80000 ?n ?u" using x(3) lapses_script [of ?u x] up(6) u(7) by simp
  ultimately obtain w1 w2 where rep: "reported os ?u w1 w2"
    using access_loop_run [OF uw, of "unat (nSlots (mclmac w))"] by blast
  have e2: "powermode_edge (powerMode (mclmac w2)) (nextPowerMode (mclmac w2))" and n2: "nSlots (mclmac w2) > 0"
    using rep by (simp_all add: reported_def)
  let ?w' = "on_mclmac (on_mac finish_internals) (update_powermode w2)"
  have fin: "mclmac_execute_powermode_state os True (update_powermode w2) = Inr (E_PM_EXECUTION_SUCCESS, ?w')"
    using updated(1) [OF e2] rep n2 by (simp add: execute_mode execute_finishp_def reported_def)
  have "execute_medium_access os True w = Inr (E_MAC_EXECUTION_SUCCESS, ?w')"
    using start rep fin unfolding w0_def reported_def by (simp add: execute_medium_access_def)
  moreover have "noted (mclmac ?u) = noted (mclmac w)" using up(2) u(5) nx by simp
  moreover have "nextState (mclmac ?w') = SYNCHRONIZATION" "\<not> collisionDetected (internals ?w')"
    using updated(1) [OF e2] rep
    by (simp_all add: reported_def on_mac_def finish_internals_def reset_packet_counters_def)
  ultimately show ?thesis using start rep fin unfolding w0_def by blast
qed

text \<open>
  C3. A collision is reported in the node's own slot, and ends the access to the medium. The build is the
  one for tests, with a stub that hears no packet any more. A node has noticed a collision of its own
  making; nothing is in its queues; its slot is in the frame, its channel one of the first seven, its
  timers are in order and two of them free. Whatever the slot, and however the time passes, if only
  each step of it ends with the timer interrupt and \<open>13 n + 2\<close> steps, for \<open>n\<close> slots in the frame, last
  80 milliseconds or more: MEDIUM ACCESS returns. Its loop ends with a round of TRANSMIT in the node's own
  slot, where the control packet tells the slot and the frequency of the collision; then FINISHP is
  executed, the collision is forgotten, and the node goes back to synchronise.
\<close>

theorem collision_ends_access:
  assumes "collided os w" and "0 < nChannels (mclmac w)" and "wf_timeouts (timeouts w)" and "two_free_slots (timeouts w)"
    and "lapses 80000 (13 * unat (nSlots (mclmac w)) + 2) w"
  shows "\<exists>u w1 w2 w'. run_loop (start_round os True) () (on_mclmac mclmac_init_powermode_state_machine w) = Inr ((), u) \<and>
    transmit_ends os True (update_powermode u) w1 w2 \<and>
    controlpacket_get_collision_slot (control_report (mclmac w1)) = mac_collisionSlot (internals w) \<and>
    controlpacket_get_collision_frequency (control_report (mclmac w1)) = mac_collisionFrequency (internals w) \<and>
    controlpacket_get_current_slot (control_report (mclmac w1)) = selectedSlot (internals w) \<and>
    mclmac_execute_powermode_state os True (update_powermode w2) = Inr (E_PM_EXECUTION_SUCCESS, w') \<and>
    execute_medium_access os True w = Inr (E_MAC_EXECUTION_SUCCESS, w') \<and>
    nextState (mclmac w') = SYNCHRONIZATION \<and> \<not> collisionDetected (internals w')"
proof -
  obtain u w1 w2 w' where run: "run_loop (start_round os True) () (on_mclmac mclmac_init_powermode_state_machine w) = Inr ((), u)"
    "mclmac_execute_powermode_state os True (update_powermode w2) = Inr (E_PM_EXECUTION_SUCCESS, w')"
    "execute_medium_access os True w = Inr (E_MAC_EXECUTION_SUCCESS, w')"
    "nextState (mclmac w') = SYNCHRONIZATION" "\<not> collisionDetected (internals w')"
    and rep: "reported os (update_powermode u) w1 w2" "noted (mclmac (update_powermode u)) = noted (mclmac w)"
    using access_run [OF assms] by blast
  have ends: "transmit_ends os True (update_powermode u) w1 w2" and "noted (mclmac w1) = noted (mclmac w)"
    using rep by (simp_all add: reported_def)
  then have "mac_collisionSlot (internals w1) = mac_collisionSlot (internals w)"
    "mac_collisionFrequency (internals w1) = mac_collisionFrequency (internals w)"
    "current_slot (frame (internals w1)) = selectedSlot (internals w)"
    by (simp_all add: noted_def transmit_ends_def own_slot_def)
  with run ends show ?thesis unfolding control_report_fields by blast
qed

text \<open>A collision in slot 3 at 903.5 MHz, noticed by a node with the sixth slot.\<close>

definition colliding :: "(pid \<times> (pid \<Rightarrow> msg_t list)) world" where
  "colliding = on_mclmac (\<lambda>m. (on_mac (\<lambda>i. i\<lparr>collisionDetected := True, is_internal_collision := True,
     mac_collisionSlot := 3, mac_collisionFrequency := 903500000, selectedSlot := 5, transmitChannel := 903000000\<rparr>) m)
       \<lparr>state_cf := 1, currentState := MEDIUM_ACCESS\<rparr>)
     (sample_world\<lparr>script := replicate 210 (lapse 80000)\<rparr>)"

lemma colliding_ready:
  "collided inbox_rtos colliding" "0 < nChannels (mclmac colliding)" "wf_timeouts (timeouts colliding)"
  "two_free_slots (timeouts colliding)" "lapses 80000 (13 * unat (nSlots (mclmac colliding)) + 2) colliding"
proof -
  have n: "nSlots (mclmac colliding) = 16" "nChannels (mclmac colliding) = 8"
    by (simp_all add: colliding_def sample_world_def on_mac_def zero_mclmac_def)
  show "0 < nChannels (mclmac colliding)" by (simp add: n)
  show "collided inbox_rtos colliding"
    by (auto simp: collided_def colliding_def Let_def sample_world_def on_mac_def FREQUENCIES_def
        zero_mclmac_def elements_on_queue_def inbox_rtos_def hears_nothing_def intro!: exI [of _ 0])
  have t: "timeouts colliding = static_timeouts" by (simp add: colliding_def sample_world_def)
  show "wf_timeouts (timeouts colliding)" unfolding t by (simp add: wf_timeouts_def static_timeouts_def)
  show "two_free_slots (timeouts colliding)" unfolding t two_free_slots_def
    by (rule exI [of _ 0], simp, rule exI [of _ 1]) (simp add: free_slot_def static_timeouts_def)
  show "lapses 80000 (13 * unat (nSlots (mclmac colliding)) + 2) colliding"
    unfolding lapses_def n by (rule exI [of _ "replicate 210 80000"]) (simp add: colliding_def)
qed

lemma collision_ends_access_witness:
  "\<exists>w1 w2 w'. execute_medium_access inbox_rtos True colliding = Inr (E_MAC_EXECUTION_SUCCESS, w') \<and>
     access_round inbox_rtos True () w1 = Inr (False, (), w2) \<and>
     controlpacket_get_collision_slot (control_report (mclmac w1)) = 3 \<and>
     controlpacket_get_collision_frequency (control_report (mclmac w1)) = 903500000 \<and>
     controlpacket_get_current_slot (control_report (mclmac w1)) = 5 \<and> nextState (mclmac w') = SYNCHRONIZATION"
proof -
  have "mac_collisionSlot (internals colliding) = 3" "mac_collisionFrequency (internals colliding) = 903500000"
    "selectedSlot (internals colliding) = 5" by (simp_all add: colliding_def on_mac_def)
  with collision_ends_access [OF colliding_ready] show ?thesis unfolding transmit_ends_def by metis
qed

lemma medium_access_outcome_witness:
  "\<exists>w'. execute_medium_access inbox_rtos True colliding = Inr (E_MAC_EXECUTION_SUCCESS, w') \<and>
     powerMode (mclmac w') = FINISHP \<and> queues_empty (internals w')"
proof -
  obtain w' where run: "execute_medium_access inbox_rtos True colliding = Inr (E_MAC_EXECUTION_SUCCESS, w')"
    using access_run [OF colliding_ready] by blast
  from medium_access_outcome [OF run] run show ?thesis by blast
qed

end
