(* ===== verification/Slot_Selection.thy ===== *)
theory Slot_Selection
  imports Mac_Machine_Props
begin

text \<open>
  The data that the synchronisation collects and the choice of a slot from it: the search for a
  free slot against its specification, the merging of the neighbours' bitmaps, and the delay that
  is meant to end with the network's current slot.
\<close>

section \<open>The search for a free slot\<close>

text \<open>
  Slot \<open>s\<close> is bit \<open>7 - s mod 8\<close> of byte \<open>s div 8\<close>; it is free when no frequency has the bit set.
\<close>

definition slot_free :: "u8 list list \<Rightarrow> nat \<Rightarrow> bool" where
  "slot_free occupied s \<longleftrightarrow> (\<forall>k < MAX_NUMBER_FREQS. \<not> bit (occupied ! k ! (s div 8)) (7 - s mod 8))"

definition first_free_slot :: "u8 list list \<Rightarrow> nat option" where
  "first_free_slot occupied = find (slot_free occupied) [0..<MAX_NUMBER_SLOTS]"

lemma find_map: "find P (map f xs) = map_option f (find (\<lambda>x. P (f x)) xs)"
  by (induction xs) simp_all

lemma slot_taken_free: "s < 16 \<Longrightarrow> slot_taken occupied (s div 8) (s mod 8 + 1) = (\<not> slot_free occupied s)"
  by (auto simp: slot_taken_def slot_free_def list_ex_iff push_bit_of_1 and_exp_eq_0_iff_not_bit
      simp del: upt_rec_numeral)

lemma find_slot_first:
  "find_slot occupied = map_option (\<lambda>s. (s div 8, s mod 8 + 1)) (first_free_slot occupied)"
proof -
  have "concat (map (\<lambda>i. map (\<lambda>j. (i, j)) [1..<9]) [0..<2]) = map (\<lambda>s. (s div 8, s mod 8 + 1)) [0..<16::nat]"
    by (simp add: upt_rec)
  moreover have "find (\<lambda>s. \<not> slot_taken occupied (s div 8) (s mod 8 + 1)) [0..<16] =
      find (slot_free occupied) [0..<16]"
    by (rule find_cong) (use slot_taken_free [simplified] in \<open>simp_all del: upt_rec_numeral\<close>)
  ultimately show ?thesis
    by (simp add: find_slot_def first_free_slot_def find_map case_prod_beta del: upt_rec_numeral)
qed

lemma first_free_slot_Some:
  "first_free_slot occupied = Some s \<Longrightarrow> s < 16 \<and> slot_free occupied s \<and> (\<forall>t < s. \<not> slot_free occupied t)"
  by (auto simp: first_free_slot_def find_Some_iff simp del: upt_rec_numeral)

lemma select_slot_result:
  "select_slot w = (case first_free_slot (occupied_frequencies_slots (mclmac w)) of
     None \<Rightarrow> (False, w)
   | Some s \<Rightarrow> (case c_rand w of (r, w') \<Rightarrow> (True, on_mclmac (\<lambda>m. mclmac_set_selected_slot
       (mclmac_set_transmit_channel m (frequencies m ! (r mod MAX_NUMBER_FREQS)))
       (of_nat (if s < 8 then s else s - 6))) w')))"
proof (cases "first_free_slot (occupied_frequencies_slots (mclmac w))")
  case None
  then show ?thesis by (simp add: select_slot_def find_slot_first)
next
  case (Some s)
  from first_free_slot_Some [OF this] have "2 * (s div 8) + s mod 8 = (if s < 8 then s else s - 6)"
    by (cases "s < 8") (auto simp: le_div_geq le_mod_geq)
  then have "(of_nat (SLOT_BYTES * (s div 8) + (s mod 8 + 1 - 1)) :: u8) = of_nat (if s < 8 then s else s - 6)"
    by (simp only: SLOT_BYTES_eq add_diff_cancel_right')
  then show ?thesis
    by (simp only: select_slot_def find_slot_first Some option.map option.case prod.case)
qed

text \<open>
  C14. The search for a slot against its specification. The search fails, leaving everything as
  it is, exactly when no slot is free on all frequencies. Otherwise it finds the first free slot
  \<open>s\<close> and takes one of the channels of the node; the slot it selects is \<open>s\<close> when \<open>s\<close> lies in the
  first byte of the bitmaps, but \<open>s - 6\<close> when it lies in the second: the byte index is multiplied
  by the number of bytes instead of by 8.
\<close>

theorem select_slot_spec:
  "case first_free_slot (occupied_frequencies_slots (mclmac w)) of
     None \<Rightarrow> select_slot w = (False, w)
   | Some s \<Rightarrow> \<exists>w' c. select_slot w = (True, w') \<and> c < MAX_NUMBER_FREQS \<and>
       selectedSlot (internals w') = of_nat (if s < 8 then s else s - 6) \<and>
       transmitChannel (internals w') = frequencies (mclmac w) ! c"
  by (auto simp: select_slot_result c_rand_def mac_access split: option.splits
      intro!: exI [of _ "rand_values w 0 mod 8"])

text \<open>
  With the first eight slots taken, the selected slot is a taken one. If a slot is found and
  the first byte of the bitmaps leaves none free, the slot the node is going to use is marked as
  occupied on some frequency: the node will collide with its neighbours.
\<close>

theorem selected_slot_occupied:
  assumes "\<forall>s < 8. \<not> slot_free (occupied_frequencies_slots (mclmac w)) s"
    and "select_slot w = (True, w')"
  shows "\<not> slot_free (occupied_frequencies_slots (mclmac w)) (unat (selectedSlot (internals w')))"
proof -
  from assms(2) obtain s where s: "first_free_slot (occupied_frequencies_slots (mclmac w)) = Some s"
    by (auto simp: select_slot_result split: option.splits)
  note first = first_free_slot_Some [OF s]
  have "\<not> s < 8" using first assms(1) by blast
  with s assms(2) have "selectedSlot (internals w') = of_nat (s - 6)"
    by (auto simp: select_slot_result c_rand_def mac_access)
  moreover have "unat (of_nat (s - 6) :: u8) = s - 6"
  proof (rule unat_of_nat_small)
    have "s - 6 < 256" using first by linarith
    then show "s - 6 < 2 ^ LENGTH(8)" by simp
  qed
  ultimately show ?thesis using first \<open>\<not> s < 8\<close> by simp
qed

lemma selected_slot_occupied_witness:
  "\<exists>w'. select_slot (on_mclmac (\<lambda>m. m\<lparr>occupied_frequencies_slots := [255, 0] # replicate 7 [0, 0]\<rparr>)
       sample_world) = (True, w') \<and>
     \<not> slot_free ([255, 0] # replicate 7 [0, 0]) (unat (selectedSlot (internals w')))"
proof -
  let ?w = "on_mclmac (\<lambda>m. m\<lparr>occupied_frequencies_slots := [255, 0] # replicate 7 [0, 0]\<rparr>) sample_world"
  have occ: "occupied_frequencies_slots (mclmac ?w) = [255, 0] # replicate 7 [0, 0]" by simp
  have taken: "\<forall>s < 8. \<not> slot_free (occupied_frequencies_slots (mclmac ?w)) s"
  proof (intro allI impI)
    fix s :: nat assume "s < 8"
    moreover have "(255 :: u8) = - 1" by simp
    ultimately have "bit (255 :: u8) (7 - s)" by (simp only: bit_minus_1_iff possible_bit_word) simp
    then show "\<not> slot_free (occupied_frequencies_slots (mclmac ?w)) s"
      using \<open>s < 8\<close> unfolding occ slot_free_def by (auto intro!: exI [of _ 0])
  qed
  have "slot_free (occupied_frequencies_slots (mclmac ?w)) 8"
    unfolding occ slot_free_def by (auto simp: nth_Cons')
  then have "first_free_slot (occupied_frequencies_slots (mclmac ?w)) \<noteq> None"
    by (auto simp: first_free_slot_def find_None_iff simp del: upt_rec_numeral intro!: exI [of _ 8])
  then obtain w' where "select_slot ?w = (True, w')"
    by (auto simp: select_slot_result c_rand_def split: option.splits)
  with selected_slot_occupied [OF taken this] show ?thesis unfolding occ by blast
qed

section \<open>Merging what the neighbours say\<close>

lemma nth_merge:
  assumes "wf_bitmap a" and "wf_bitmap b" and "k < MAX_NUMBER_FREQS" and "i < SLOT_BYTES"
  shows "map2 (map2 (OR)) a b ! k ! i = a ! k ! i OR b ! k ! i"
proof -
  have "length a = 8" "length b = 8" "length (a ! k) = 2" "length (b ! k) = 2"
    using assms by (auto simp: wf_bitmap_def)
  with assms(3,4) show ?thesis by simp
qed

text \<open>
  C16. What a control packet adds to the node's view of the network. For a slot of the frame, the
  hop count becomes the smaller of the node's own and the lowest byte of the packet's; a slot is
  free afterwards exactly when it is free for both; and the current slot is marked as a neighbour's,
  and no mark is lost. A packet handled in a slot outside the frame writes out of bounds.
\<close>

theorem merge_network_spec:
  assumes "wf_bitmap (occupied_frequencies_slots m)" and "wf_bitmap (occupied_slots pkt)"
    and "length (selected_slots_neighbors m) = SLOT_BYTES"
  shows "case merge_network pkt slot m of
      Inl e \<Rightarrow> e = Out_of_bounds \<and> \<not> unat slot < MAX_NUMBER_SLOTS
    | Inr m' \<Rightarrow> unat slot < MAX_NUMBER_SLOTS \<and>
        unat (own_hopCount m') = min (unat (own_hopCount m)) (unat (hopCount pkt) mod 256) \<and>
        (\<forall>s < MAX_NUMBER_SLOTS. slot_free (occupied_frequencies_slots m') s \<longleftrightarrow>
          slot_free (occupied_frequencies_slots m) s \<and> slot_free (occupied_slots pkt) s) \<and>
        (\<forall>s < MAX_NUMBER_SLOTS. bit (selected_slots_neighbors m' ! (s div 8)) (s mod 8) \<longleftrightarrow>
          s = unat slot \<or> bit (selected_slots_neighbors m ! (s div 8)) (s mod 8))"
proof -
  let ?h = "ucast (hopCount pkt) :: u8"
  have h: "unat (ucast ?h :: u16) = unat (hopCount pkt) mod 256"
    by (simp add: unsigned_ucast_eq take_bit_eq_mod unat_mod)
  have hops: "unat (if ucast ?h < own_hopCount m then ucast ?h else own_hopCount m) =
      min (unat (own_hopCount m)) (unat (hopCount pkt) mod 256)"
    using h by (auto simp: word_less_nat_alt)
  have free: "slot_free (map2 (map2 (OR)) (occupied_frequencies_slots m) (occupied_slots pkt)) s \<longleftrightarrow>
      slot_free (occupied_frequencies_slots m) s \<and> slot_free (occupied_slots pkt) s" if "s < 16" for s
    using nth_merge [OF assms(1,2), of _ "s div 8"] that by (auto simp: slot_free_def bit_or_iff)
  have mark: "bit (xs[unat slot div 8 := xs ! (unat slot div 8) OR push_bit (unat slot mod 8) 1] ! (s div 8)) (s mod 8) \<longleftrightarrow>
      s = unat slot \<or> bit (xs ! (s div 8)) (s mod 8)"
    if "length xs = 2" "s < 16" "unat slot < 16" for xs :: "u8 list" and s
  proof (cases "s div 8 = unat slot div 8")
    case True
    then have "s = unat slot \<longleftrightarrow> s mod 8 = unat slot mod 8" by (metis div_mult_mod_eq)
    with True that show ?thesis by (auto simp: bit_simps)
  next
    case False
    with that show ?thesis by auto
  qed
  show ?thesis
  proof (cases "unat slot < 16")
    case True
    then have "unat slot div 8 < 2" by (simp add: less_mult_imp_div_less)
    with True assms(3) show ?thesis
      by (simp add: merge_network_def mark_neighbor_def Let_def hops [symmetric] free
          mark [unfolded push_bit_of_1])
  next
    case False
    with assms(3) show ?thesis by (simp add: merge_network_def mark_neighbor_def Let_def)
  qed
qed

section \<open>The delay until the slot ends\<close>

lemma mod_64_32: "x mod 18446744073709551616 mod 4294967296 = (x mod 4294967296 :: int)"
  by (rule mod_mod_cancel) simp

lemma ucast_diff: "(ucast (a - b :: u64) :: u32) = ucast a - ucast b"
proof transfer
  fix a b :: int
  show "take_bit LENGTH(32) (take_bit LENGTH(64) (a - b)) =
    take_bit LENGTH(32) (take_bit LENGTH(64) a - take_bit LENGTH(64) b)"
    using mod_diff_cong [OF mod_64_32 [of a] mod_64_32 [of b]]
    by (simp add: take_bit_eq_mod mod_64_32)
qed

lemma ucast_of_nat_64: "(ucast (of_nat n :: u64) :: u32) = of_nat n"
  by transfer (simp add: take_bit_eq_mod mod_64_32)

lemma ucast_of_nat_8: "s < 256 \<Longrightarrow> (ucast (of_nat s :: u8) :: u32) = of_nat s"
  by transfer (simp add: take_bit_eq_mod mod_simps)

lemma ucast_down_up: "(ucast (ucast (x :: u32) :: u64) :: u32) = x"
  by (rule bit_word_eqI) (auto simp: bit_simps)

lemma unat_u32_small: "n < 2 ^ 32 \<Longrightarrow> unat (of_nat n :: u32) = n"
  by (rule unat_of_nat_small) simp

text \<open>
  The delay to the end of the slot does not match the network time. A node counts the network
  time in slots: slot \<open>s\<close> of frame \<open>f\<close> has the time \<open>16 * f + s\<close> when the count started with the
  network. From such a time, which the delay takes for microseconds, a node that synchronises
  computes a delay of nearly \<open>f\<close> frames and \<open>s\<close> slots, instead of at most one slot.
\<close>

theorem time_remaining_in_slots:
  assumes "0 < s" and "s < MAX_NUMBER_SLOTS" and "f \<le> 3000"
  shows "unat (time_remaining (of_nat f) (of_nat s) (of_nat (16 * f + s))) =
    (f * 1280000 + s * 80000) - (16 * f + s)"
proof -
  obtain r where r: "s = Suc r" using assms(1) by (cases s) auto
  have "unat (of_nat s :: u8) = s" by (simp add: unat_of_nat take_bit_nat_eq_self) (use assms(2) in simp)
  then have s: "(of_nat s :: u8) \<noteq> 0" using assms(1) by (metis unat_0 less_irrefl)
  have "time_remaining (of_nat f) (of_nat s) (of_nat (16 * f + s)) =
      80000 - (of_nat (16 * f + s) - (of_nat f * 1280000 + (of_nat s - 1) * 80000))"
    unfolding time_remaining_def Let_def if_not_P [OF s] ucast_diff ucast_of_nat_64 ucast_down_up
    using ucast_of_nat_8 [of s] assms(2) by (simp add: FRAME_DURATION_def)
  also have "\<dots> = of_nat (f * 1280000 + s * 80000) - of_nat (16 * f + s)"
    by (simp add: r algebra_simps)
  also have "\<dots> = of_nat ((f * 1280000 + s * 80000) - (16 * f + s))"
    using of_nat_diff [of "16 * f + s" "f * 1280000 + s * 80000", where ?'a = u32] by simp
  finally show ?thesis
    using unat_u32_small [of "(f * 1280000 + s * 80000) - (16 * f + s)"] assms by simp
qed

lemma time_remaining_in_slots_witness:
  "unat (time_remaining (of_nat 100) (of_nat 3) (of_nat (16 * 100 + 3))) = 128238397"
  using time_remaining_in_slots [of 3 100] by simp

end
