(* ===== verification/Machine_Runs.thy ===== *)
theory Machine_Runs
  imports Access_Progress Slot_Selection
begin

text \<open>Concrete runs of the two state machines, on the kernel instance of theory \<open>Ipc_Queues\<close>.\<close>

section \<open>The power mode machine\<close>

lemma transmitting_run:
  "\<exists>w'. execute_transmit transmitting = Inr (E_PM_EXECUTION_SUCCESS, w')"
proof -
  have "\<not> collisionDetected (internals transmitting)" "script transmitting = [] # []"
    "passed (slot_timer (frame (internals transmitting))) transmitting = 1"
    by (simp_all add: transmitting_def napping_def sample_world_def mac_access timeout_passed_def
      MAC_internals_init_def zero_mac_internals_def)
  from transmit_returns [OF this] show ?thesis by blast
qed

lemma transmit_outcome_witness:
  "\<exists>w'. execute_transmit transmitting = Inr (E_PM_EXECUTION_SUCCESS, w') \<and>
     nextPowerMode (mclmac w') = PASSIVE"
proof -
  obtain w' where run: "execute_transmit transmitting = Inr (E_PM_EXECUTION_SUCCESS, w')"
    using transmitting_run by blast
  from transmit_outcome [OF run] run show ?thesis by (auto split: if_splits)
qed

lemma powermode_step_witness:
  "\<exists>w'. mclmac_execute_powermode_state inbox_rtos False transmitting = Inr (E_PM_EXECUTION_SUCCESS, w') \<and>
     powerMode (mclmac w') = TRANSMIT \<and>
     fst (mclmac_update_powermode_state_machine (mclmac w')) = E_PM_TRANSITION_SUCCESS"
proof -
  have mode: "powerMode (mclmac transmitting) = TRANSMIT" "nSlots (mclmac transmitting) > 0"
    by (simp_all add: transmitting_def napping_def sample_world_def mac_access)
  obtain w' where "execute_transmit transmitting = Inr (E_PM_EXECUTION_SUCCESS, w')"
    using transmitting_run by blast
  then have run: "mclmac_execute_powermode_state inbox_rtos False transmitting = Inr (E_PM_EXECUTION_SUCCESS, w')"
    by (simp add: mclmac_execute_powermode_state_def mode)
  from powermode_step [OF run] mode run show ?thesis by (simp add: running_def)
qed

text \<open>A node that hears no control packet: the stub with \<open>_state_ctrl = 7\<close>.\<close>

definition deaf :: "(pid \<times> (pid \<Rightarrow> msg_t list)) world" where
  "deaf = on_mclmac (state_ctrl_update (\<lambda>_. 7)) sample_world"

lemma receive_outcome_witness:
  "\<exists>w'. execute_receive True deaf = Inr (E_PM_EXECUTION_SUCCESS, w') \<and>
     number_packets_received (internals w') = 0"
proof -
  have "mclmac_receive_control_packet True deaf = Inr (False, deaf)"
    by (simp add: mclmac_receive_control_packet_def deaf_def)
  then have listen: "listen_control True 1 deaf = Inr (3, deaf)"
    by (simp add: listen_control.simps [of True _ deaf])
  have "on_mclmac (\<lambda>m. snd (mclmac_start_split_phase m RECEIVE)) deaf = deaf"
    by (simp add: mclmac_start_split_phase_def on_mclmac_def)
  with listen obtain w' where run: "execute_receive True deaf = Inr (E_PM_EXECUTION_SUCCESS, w')"
    "mclmac w' = (mclmac deaf)\<lparr>nextPowerMode := PASSIVE\<rparr>"
    by (auto simp: execute_receive_def)
  from receive_outcome [OF run(1)] run show ?thesis
    by (simp add: Let_def) (simp add: deaf_def sample_world_def MAC_internals_init_def zero_mac_internals_def)
qed

section \<open>The MAC machine\<close>

text \<open>A node none of whose timers is free.\<close>

definition busy_timers :: "(pid \<times> (pid \<Rightarrow> msg_t list)) world" where
  "busy_timers = sample_world\<lparr>timeouts := static_timeouts
     \<lparr>timeout_state := replicate TIMEOUTS 3, timeout_timer := Some 100\<rparr>, script := [[], []]\<rparr>"

lemma initialization_outcome_witness:
  "\<exists>w'. execute_initialization False busy_timers = Inr (E_MAC_EXECUTION_SUCCESS, w') \<and>
     is_first_node (mclmac w')"
proof -
  have t: "wf_timeouts (timeouts busy_timers)" "\<forall>i < TIMEOUTS. \<not> free_slot (timeouts busy_timers) i"
    by (simp_all add: busy_timers_def wf_timeouts_def free_slot_def static_timeouts_def)
  have "set_timer DETECTION_TIME busy_timers = (TIMEOUT_SET_ERROR, busy_timers)"
    by (simp add: set_timer_def timeout_set_full [OF t])
  moreover have "run_loop (detection_round False TIMEOUT_SET_ERROR) False busy_timers =
      Inr (False, busy_timers\<lparr>script := [[]]\<rparr>)"
    by (simp add: run_loop_def busy_timers_def wait_round_def detection_round_def
        mclmac_cf_packet_detected_def cf_packet_detected_native_def
        timeout_passed_bad [OF TIMEOUT_SET_ERROR_bad])
  ultimately obtain w' where run: "execute_initialization False busy_timers = Inr (E_MAC_EXECUTION_SUCCESS, w')"
    by (auto simp: execute_initialization_def ztimer_sleep_def wait_round_def unset_timer_def)
  from initialization_outcome [OF run] t run show ?thesis by blast
qed

lemma sample_start: "currentState (mclmac sample_world) = START"
  by (simp add: sample_world_def zero_mclmac_def)

lemma sample_first_step:
  "\<exists>w'. node_step inbox_rtos False 1 sample_world w' \<and> currentState (mclmac w') = INITIALIZATION"
proof -
  obtain w1 where ex: "mclmac_execute_mac_state_machine inbox_rtos False 1 sample_world = Inr (E_MAC_EXECUTION_SUCCESS, w1)"
    by (auto simp: mclmac_execute_mac_state_machine_def sample_start execute_start_def c_rand_def Let_def)
      (simp add: sample_world_def zero_mclmac_def open_queue_def two_queues_def init_queues_def)
  have edge: "mac_edge (currentState (mclmac w1)) (nextState (mclmac w1))"
    "currentState (mclmac w1) = START" "nextState (mclmac w1) \<noteq> FINISH"
    using mac_step_result [OF ex] sample_start by simp_all
  have "nextState (mclmac w1) = INITIALIZATION"
    using edge by (cases "nextState (mclmac w1)") simp_all
  with node_step.step [OF ex update_mac_edge [OF edge(1)], of "[]"] show ?thesis by auto
qed

lemma node_follows_protocol_witness:
  "\<exists>w'. node_step inbox_rtos False 1 sample_world w' \<and>
     (START, currentState (mclmac w')) \<in> protocol_edges"
proof -
  obtain w' where step: "node_step inbox_rtos False 1 sample_world w'" using sample_first_step by blast
  from node_follows_protocol [OF node_reach.init [OF sample_start] step] step sample_start show ?thesis
    by auto
qed

lemma merge_network_spec_witness:
  "case merge_network controlpacket_init 3 (mclmac sample_world) of
     Inl e \<Rightarrow> False
   | Inr m' \<Rightarrow> bit (selected_slots_neighbors m' ! 0) 3 \<and> slot_free (occupied_frequencies_slots m') 3"
proof -
  have wf: "wf_bitmap (occupied_frequencies_slots (mclmac sample_world))"
    "wf_bitmap (occupied_slots controlpacket_init)"
    "length (selected_slots_neighbors (mclmac sample_world)) = SLOT_BYTES"
    by (simp_all add: sample_world_def zero_mclmac_def controlpacket_init_def)
  have free: "slot_free (occupied_frequencies_slots (mclmac sample_world)) 3"
    "slot_free (occupied_slots controlpacket_init) 3"
    by (auto simp: slot_free_def sample_world_def zero_mclmac_def controlpacket_init_def zero_bitmap_def)
  note spec = merge_network_spec [OF wf, of 3]
  show ?thesis
  proof (cases "merge_network controlpacket_init 3 (mclmac sample_world)")
    case (Inl e)
    with spec show ?thesis by simp
  next
    case (Inr m')
    with spec have "\<forall>s < 16. slot_free (occupied_frequencies_slots m') s \<longleftrightarrow>
          slot_free (occupied_frequencies_slots (mclmac sample_world)) s \<and> slot_free (occupied_slots controlpacket_init) s"
      "\<forall>s < 16. bit (selected_slots_neighbors m' ! (s div 8)) (s mod 8) \<longleftrightarrow>
          s = 3 \<or> bit (selected_slots_neighbors (mclmac sample_world) ! (s div 8)) (s mod 8)"
      by simp_all
    from this(1) [rule_format, of 3] this(2) [rule_format, of 3] free Inr show ?thesis by simp
  qed
qed

end
