(* ===== verification/Codec_Totality.thy ===== *)
theory Codec_Totality
  imports Machine_Runs
begin

text \<open>
  Encoders and decoders in the RIOT build never fail on what the MAC layer gives them: a write out
  of bounds has no effect there, and the byte strings have the length of a radio packet.
\<close>

section \<open>Writing\<close>

lemma riot_write_all:
  "\<exists>bs. write_all (WRITE_ARRAY RIOT) a ws = Inr bs \<and> length bs = length a"
proof (induction ws arbitrary: a)
  case (Cons w ws)
  obtain i e where w: "w = (i, e)" by (cases w)
  obtain a' where "WRITE_ARRAY RIOT a e i = Inr a'" "length a' = length a"
    by (cases "i < length a") (simp_all add: WRITE_ARRAY_def)
  with Cons.IH [of a'] w show ?case by auto
qed simp

lemma riot_copy_length:
  "copy_elements RIOT src so dst wo is = Inr dst' \<Longrightarrow> length dst' = length dst"
  by (induction "is" arbitrary: dst) (auto simp: rbind_eq_Inr WRITE_ARRAY_def split: if_splits)

section \<open>Data packets\<close>

lemma data_decode_wf:
  "datapacket_construct_from_bytestring RIOT junk pkt bs = Inr pkt' \<Longrightarrow> wf_datapacket pkt'"
  by (auto simp: datapacket_construct_from_bytestring_def wf_datapacket_def rbind_eq_Inr
      dest!: riot_copy_length)

lemma data_clear_wf [simp]: "wf_datapacket (datapacket_clear pkt)"
  by (simp add: datapacket_clear_def wf_datapacket_def)

lemma data_encode_total:
  assumes "wf_datapacket pkt"
  shows "\<exists>bs. datapacket_get_packet_bytestring RIOT junk pkt = Inr bs"
  using data_encode [OF assms, of RIOT junk] data_encode_too_long(2) [OF assms, of junk]
  by (cases "unat (psize pkt) \<le> 238") auto

lemma data_decode_total:
  assumes "length bs = 256" and "unat (bs ! 17) \<le> 238"
  shows "\<exists>pkt'. datapacket_construct_from_bytestring RIOT junk pkt bs = Inr pkt'"
proof -
  let ?n = "unat (bs ! 17)"
  have "copy_elements RIOT bs 18 (new_array RIOT junk ?n) 0 [0..<?n] =
      Inr (take ?n (drop 18 bs))"
    using copy_elements_prefix [of ?n 18 bs 0 "new_array RIOT junk ?n" RIOT] assms by simp
  with assms(1) show ?thesis
    by (simp add: datapacket_construct_from_bytestring_def flat_reads)
qed

section \<open>Control packets\<close>

lemma control_encode_total:
  "\<exists>bs. controlpacket_get_packet_bytestring RIOT junk rnd pkt = Inr bs"
  using riot_write_all by (simp add: controlpacket_get_packet_bytestring_def Let_def) blast

lemma read_rows_total:
  assumes "\<forall>i \<in> set is. i * m + m + base \<le> length bs"
  shows "\<exists>rs. read_rows p bs base m is = Inr rs \<and> length rs = length is \<and> (\<forall>r \<in> set rs. length r = m)"
  using assms
proof (induction "is")
  case (Cons i "is")
  have "read_list (READ_ARRAY p) bs (map (\<lambda>j. i * m + j + base) [0..<m]) =
      Inr (map (\<lambda>j. bs ! (i * m + j + base)) [0..<m])"
    using Cons.prems by (subst flat_read_list) (auto simp: o_def)
  with Cons show ?case by auto
qed simp

lemma control_decode_total:
  assumes "length bs = 256"
  shows "\<exists>pkt'. controlpacket_construct_packet_from_bytestring RIOT pkt bs = Inr pkt' \<and>
    (pkt' = pkt \<or> wf_bitmap (occupied_slots pkt'))"
proof -
  obtain rs where "read_rows RIOT bs 41 SLOT_BYTES [0..<MAX_NUMBER_FREQS] = Inr rs" "wf_bitmap rs"
    using read_rows_total [of "[0..<MAX_NUMBER_FREQS]" SLOT_BYTES 41 bs RIOT] assms
    by (auto simp: wf_bitmap_def simp del: upt_rec_numeral)
  with assms show ?thesis
    by (simp add: controlpacket_construct_packet_from_bytestring_def flat_reads
        del: upt_rec_numeral)
qed

end
