(* ===== verification/Node_Invariant.thy ===== *)
theory Node_Invariant
  imports Codec_Totality
begin

text \<open>
  What holds of the data of a node at any time: the arrays have their sizes, the indices of the
  packet queues stay within them, every stored packet is well formed. Every operation of the MAC
  layer keeps it, and with it no state of the machines but PASSIVE and SYNCHRONIZATION can fail.
\<close>

section \<open>The invariant\<close>

definition wf_packets :: "MAC_Internals_t \<Rightarrow> bool" where
  "wf_packets i \<longleftrightarrow>
     unat (first_send_message i) < MAX_NUMBER_DATA_PACKETS \<and>
     unat (packets_to_send_message i) \<le> unat (last_send_message i) \<and>
     unat (last_send_message i) \<le> MAX_NUMBER_DATA_PACKETS \<and>
     unat (first_send_control i) < MAX_NUMBER_DATA_PACKETS \<and>
     unat (packets_to_send_control i) \<le> unat (last_send_control i) \<and>
     unat (last_send_control i) \<le> MAX_NUMBER_DATA_PACKETS \<and>
     unat (first_received i) < MAX_NUMBER_DATA_PACKETS \<and>
     unat (last_received i) < 2 * MAX_NUMBER_DATA_PACKETS \<and>
     list_all wf_datapacket (message_packets_to_send i) \<and>
     list_all wf_datapacket (control_packets_to_send i) \<and>
     list_all wf_datapacket (packets_received i)"

definition wf_node :: "MCLMAC_t \<Rightarrow> bool" where
  "wf_node m \<longleftrightarrow> wf_mclmac m \<and> wf_packets (mac m)"

abbreviation wf_internals :: "MAC_Internals_t \<Rightarrow> bool" where
  "wf_internals i \<equiv> wf_mac i \<and> wf_packets i"

definition good :: "'k world \<Rightarrow> bool" where
  "good w \<longleftrightarrow> wf_node (mclmac w) \<and> wf_timeouts (timeouts w)"

text \<open>The queues and the identity of a node never change.\<close>

definition ids :: "MCLMAC_t \<Rightarrow> node_id \<times> u32 list \<times> u32 \<times> u32" where
  "ids m = (own_id m, frequencies m, mac_queue_id m, routing_queue_id m)"

definition keeps :: "'k world \<Rightarrow> 'k world \<Rightarrow> bool" where
  "keeps w w' \<longleftrightarrow> (good w \<longrightarrow> good w') \<and> ids (mclmac w') = ids (mclmac w)"

lemmas wf_simps = wf_node_def wf_mclmac_def wf_mac_def wf_packets_def ids_def

lemma keeps_refl [simp]: "keeps w w"
  by (simp add: keeps_def)

lemma keeps_trans [trans]: "keeps w w1 \<Longrightarrow> keeps w1 w2 \<Longrightarrow> keeps w w2"
  by (auto simp: keeps_def)

lemma keeps_good: "keeps w w' \<Longrightarrow> good w \<Longrightarrow> good w'"
  by (simp add: keeps_def)

lemma keepsI:
  assumes "wf_node (mclmac w) \<Longrightarrow> wf_node (mclmac w')" and "ids (mclmac w') = ids (mclmac w)"
    and "wf_timeouts (timeouts w) \<Longrightarrow> wf_timeouts (timeouts w')"
  shows "keeps w w'"
  using assms by (simp add: keeps_def good_def)

lemma on_mclmac_keeps:
  "(wf_node (mclmac w) \<Longrightarrow> wf_node (f (mclmac w))) \<Longrightarrow> ids (f (mclmac w)) = ids (mclmac w) \<Longrightarrow>
    keeps w (on_mclmac f w)"
  by (rule keepsI) simp_all

section \<open>Timers and loops\<close>

lemma wait_round_keeps: "wait_round w = Inr w' \<Longrightarrow> keeps w w'"
  by (rule keepsI) (auto dest: wait_round_Inr)

lemma set_timer_keeps: "set_timer d w = (i, w') \<Longrightarrow> keeps w w'"
  by (rule keepsI) (auto dest: set_timer_frame wf_set_timer)

lemma unset_timer_keeps [simp]: "keeps w (unset_timer i w)"
  by (rule keepsI) (simp_all add: wf_unset_timer)

lemma c_rand_keeps: "c_rand w = (n, w') \<Longrightarrow> keeps w w'"
  by (rule keepsI) (auto simp: c_rand_def)

lemma ztimer_sleep_keeps: "ztimer_sleep d w = Inr w' \<Longrightarrow> keeps w w'"
  by (rule keepsI) (auto simp: ztimer_sleep_def rbind_eq_Inr dest: wait_round_Inr)

lemma run_loop_keeps:
  assumes "run_loop body l w = Inr (l', w')"
    and "\<And>l v again l2 v2. body l v = Inr (again, l2, v2) \<Longrightarrow> keeps v v2"
  shows "keeps w w'"
  by (rule run_loop_rule [OF assms(1), where I = "\<lambda>_ v. keeps w v"])
    (auto intro: keeps_trans dest: wait_round_keeps assms(2))

text \<open>A loop over a body that keeps the invariant and cannot fail under it.\<close>

lemma run_loop_safe:
  assumes "run_loop body l w = Inl e" and "good w"
    and "\<And>l v again l2 v2. body l v = Inr (again, l2, v2) \<Longrightarrow> keeps v v2"
    and "\<And>l v e. good v \<Longrightarrow> body l v = Inl e \<Longrightarrow> e = Still_running"
  shows "e = Still_running"
  by (rule run_loop_fault [OF assms(1), where I = "\<lambda>_ v. good v"])
    (use assms(2-) in \<open>auto dest: keeps_good [OF wait_round_keeps] keeps_good [OF assms(3)]\<close>)

lemma busy_wait_keeps: "busy_wait i w = Inr w' \<Longrightarrow> keeps w w'"
  by (auto simp: busy_wait_def rbind_eq_Inr dest!: run_loop_keeps)

lemma busy_wait_safe: "busy_wait i w = Inl e \<Longrightarrow> e = Still_running"
  by (auto simp: busy_wait_def rbind_def split: sum.splits
      dest!: run_loop_fault [where I = "\<lambda>_ _. True"])

section \<open>Packet queues\<close>

lemma wf_at: "list_all wf_datapacket xs \<Longrightarrow> n < length xs \<Longrightarrow> wf_datapacket (xs ! n)"
  by (simp add: list_all_length)

lemma wf_put [simp]: "list_all wf_datapacket xs \<Longrightarrow> wf_datapacket pkt \<Longrightarrow> list_all wf_datapacket (xs[n := pkt])"
  by (auto simp: list_all_iff dest!: set_update_subset_insert [THEN subsetD])

lemma wf_cleared [simp]: "list_all wf_datapacket (map datapacket_clear xs)"
  by (simp add: list_all_iff)

lemma unat_mod_20: "unat (of_nat (n mod 20) :: u8) = n mod 20"
proof (rule unat_of_nat_small)
  have "n mod 20 < 20" by simp
  then show "n mod 20 < 2 ^ LENGTH(8)" by simp
qed

lemma unat_dec: "(x :: u8) > 0 \<Longrightarrow> unat (x - 1) = unat x - 1"
  by (simp add: unat_minus_one word_gt_0)

text \<open>Storing adds a packet behind the others, removing takes the first.\<close>

lemma store_message_wf:
  assumes "store_message_packet msg i = Inr i'" and "wf_internals i"
  shows "wf_internals i'"
proof -
  from assms(1) obtain pkt where len: "unat (last_send_message i) < length (message_packets_to_send i)"
    and "wf_datapacket pkt" and "i' = i\<lparr>message_packets_to_send :=
       (message_packets_to_send i)[unat (last_send_message i) := pkt],
      last_send_message := last_send_message i + 1, packets_to_send_message := packets_to_send_message i + 1\<rparr>"
    by (auto simp: store_message_packet_def Let_def rbind_eq_Inr dest: data_decode_wf split: if_splits)
  moreover have "unat (last_send_message i + 1) = Suc (unat (last_send_message i))"
    "unat (packets_to_send_message i + 1) = Suc (unat (packets_to_send_message i))"
    using assms(2) len by (auto simp: wf_mac_def wf_packets_def intro!: unat_inc)
  ultimately show ?thesis using assms(2) by (simp add: wf_mac_def wf_packets_def)
qed

lemma store_control_wf:
  assumes "store_control_packet msg i = Inr i'" and "wf_internals i"
  shows "wf_internals i'"
proof -
  from assms(1) obtain pkt where len: "unat (last_send_control i) < length (control_packets_to_send i)"
    and "wf_datapacket pkt" and "i' = i\<lparr>control_packets_to_send :=
       (control_packets_to_send i)[unat (last_send_control i) := pkt],
      last_send_control := last_send_control i + 1, packets_to_send_control := packets_to_send_control i + 1\<rparr>"
    by (auto simp: store_control_packet_def Let_def rbind_eq_Inr dest: data_decode_wf split: if_splits)
  moreover have "unat (last_send_control i + 1) = Suc (unat (last_send_control i))"
    "unat (packets_to_send_control i + 1) = Suc (unat (packets_to_send_control i))"
    using assms(2) len by (auto simp: wf_mac_def wf_packets_def intro!: unat_inc)
  ultimately show ?thesis using assms(2) by (simp add: wf_mac_def wf_packets_def)
qed

lemma store_received_wf:
  assumes "store_received bs i = Inr i'" and "wf_internals i"
  shows "wf_internals i'"
proof -
  from assms(1) obtain pkt where "wf_datapacket pkt" and "i' = i\<lparr>packets_received :=
       (packets_received i)[unat (last_received i) := pkt],
      last_received := of_nat ((unat (last_received i) + 1) mod 20),
      number_packets_received := number_packets_received i + 1\<rparr>"
    by (auto simp: store_received_def Let_def rbind_eq_Inr dest: data_decode_wf split: if_splits)
  with assms(2) show ?thesis by (simp add: wf_mac_def wf_packets_def unat_mod_20 del: of_nat_add of_nat_Suc)
qed

lemma remove_received_wf: "wf_internals i \<Longrightarrow> wf_internals (remove_received i)"
  by (simp add: remove_received_def Let_def wf_mac_def wf_packets_def unat_mod_10 del: of_nat_add of_nat_Suc)

lemma internals_keeps:
  "(wf_internals (internals w) \<Longrightarrow> wf_internals (f (internals w))) \<Longrightarrow> keeps w (on_mclmac (on_mac f) w)"
  by (rule on_mclmac_keeps) (simp_all add: wf_node_def wf_mclmac_def ids_def on_mac_def)

lemma kernel_keeps [simp]: "keeps w (w\<lparr>ipc_queues := Q, kernel := k\<rparr>)"
  by (rule keepsI) simp_all

lemma read_queue_keeps:
  assumes "mclmac_read_queue_element os w = Inr (r, w')"
  shows "keeps w w'"
proof -
  have st: "keeps w (on_mclmac (on_mac (\<lambda>_. i)) (w\<lparr>ipc_queues := Q, kernel := k\<rparr>))"
    if "store_message_packet msg (internals w) = Inr i \<or> store_control_packet msg (internals w) = Inr i"
    for msg i Q k
  proof (rule keeps_trans [OF kernel_keeps], rule internals_keeps)
    assume "wf_internals (internals (w\<lparr>ipc_queues := Q, kernel := k\<rparr>))"
    then show "wf_internals i" using that store_message_wf store_control_wf by auto
  qed
  from assms show ?thesis
    by (auto simp: mclmac_read_queue_element_def Let_def assert_that_eq_Inr rbind_eq_Inr
        intro: st split: if_splits)
qed

lemma write_queue_keeps:
  assumes "mclmac_write_queue_element os w = Inr (r, w')"
  shows "keeps w w'"
  using assms
  by (auto simp: mclmac_write_queue_element_def Let_def rbind_eq_Inr
      intro!: keeps_trans [OF kernel_keeps internals_keeps] remove_received_wf split: if_splits)

lemma send_data_keeps:
  assumes "mclmac_send_data_packet w = Inr w'"
  shows "keeps w w'"
  using assms
  by (auto simp: mclmac_send_data_packet_def Let_def rbind_eq_Inr wf_mac_def wf_packets_def
      unat_mod_10 unat_dec simp del: of_nat_add of_nat_Suc intro!: internals_keeps split: if_splits)

lemma send_data_safe:
  assumes "wf_internals (internals w)"
  shows "mclmac_send_data_packet w \<noteq> Inl e"
proof -
  let ?i = "internals w"
  have "wf_datapacket (control_packets_to_send ?i ! unat (first_send_control ?i))"
    "wf_datapacket (message_packets_to_send ?i ! unat (first_send_message ?i))"
    using assms by (auto simp: wf_mac_def wf_packets_def intro!: wf_at)
  from this [THEN data_encode_total, of "\<lambda>_. 0"] assms show ?thesis
    by (auto simp: mclmac_send_data_packet_def Let_def wf_mac_def wf_packets_def)
qed

lemma rand_bytes_length: "rand_bytes n w = (bs, w') \<Longrightarrow> length bs = n"
  by (induction n arbitrary: w bs w') (auto split: prod.splits)

lemma receive_native_total:
  "\<exists>bs w'. receive_data_packet_native w (replicate 256 0) = Inr (bs, w') \<and>
    length bs = 256 \<and> bs ! 17 = 238"
proof -
  let ?h = "map snd (receive_data_header (mclmac w))"
  obtain rs w1 where rs: "rand_bytes 238 w = (rs, w1)" by (cases "rand_bytes 238 w")
  have len: "length rs = 238" by (rule rand_bytes_length [OF rs])
  have "map fst (receive_data_header (mclmac w)) = [0..<18]"
    by (simp add: receive_data_header_def Let_def upt_conv_Cons)
  from flat_write_block [OF this, of "replicate 256 0" RIOT] have
    h: "write_all (WRITE_ARRAY RIOT) (replicate 256 0) (receive_data_header (mclmac w)) = Inr (?h @ replicate 238 0)"
    by simp
  have h18: "length ?h = 18" "?h ! 17 = 238" by (simp_all add: receive_data_header_def)
  have "\<forall>(i, e) \<in> set (zip [18..<256] rs). i < length (?h @ replicate 238 0)"
    using h18(1) by (auto dest!: set_zip_leftD simp del: upt_rec_numeral)
  from flat.write_all_in [OF TrueI this, of RIOT] have
    "write_all (WRITE_ARRAY RIOT) (?h @ replicate 238 0) (zip [18..<256] rs) =
      Inr (upds (zip [18..<256] rs) (?h @ replicate 238 0))"
    by blast
  moreover have "upds (zip [18..<256] rs) (?h @ replicate 238 0) = ?h @ rs"
    using upds_enumerate [of 18 rs "?h @ replicate 238 0"] len h18(1) by (simp del: upt_rec_numeral)
  ultimately show ?thesis
    using h rs len h18 by (simp add: receive_data_packet_native_def nth_append del: upt_rec_numeral)
qed

lemma receive_data_keeps:
  assumes "mclmac_receive_data_packet w = Inr (r, w')"
  shows "keeps w w'"
proof -
  from assms obtain bs w1 i where native: "receive_data_packet_native w (new_array RIOT (\<lambda>_. 0) 256) = Inr (bs, w1)"
    and st: "store_received bs (internals w1) = Inr i" "w' = on_mclmac (on_mac (\<lambda>_. i)) w1"
    by (auto simp: mclmac_receive_data_packet_def rbind_eq_Inr)
  have "keeps w w1" using receive_native_frame [OF native] by (auto intro!: keepsI simp: only_packets_def)
  also have "keeps w1 w'" unfolding st(2) by (rule internals_keeps) (rule store_received_wf [OF st(1)])
  finally show ?thesis .
qed

lemma receive_data_safe:
  assumes "wf_internals (internals w)"
  shows "mclmac_receive_data_packet w \<noteq> Inl e"
proof -
  obtain bs w1 where native: "receive_data_packet_native w (replicate 256 0) = Inr (bs, w1)"
    and bs: "length bs = 256" "bs ! 17 = 238" using receive_native_total by blast
  have "mclmac w1 = mclmac w" using receive_native_frame [OF native] by blast
  moreover obtain pkt where "datapacket_construct_from_bytestring RIOT (\<lambda>_. 0)
      (packets_received (internals w) ! unat (last_received (internals w))) bs = Inr pkt"
    using data_decode_total [OF bs(1)] bs(2) by fastforce
  ultimately show ?thesis using assms native
    by (auto simp: mclmac_receive_data_packet_def new_array_def store_received_def Let_def wf_mac_def
        wf_packets_def)
qed

section \<open>Packet handlers\<close>

lemma wf_controlpacket_clear: "wf_bitmap (occupied_slots (controlpacket_clear pkt))"
  by (simp add: controlpacket_clear_def controlpacket_init_def)

lemma keeps_rand [simp]:
  "keeps (w\<lparr>rand_values := f\<rparr>) w' = keeps w w'" "keeps w (w'\<lparr>rand_values := f\<rparr>) = keeps w w'"
  by (simp_all add: keeps_def good_def)

lemma data_keeps:
  "(wf_node (mclmac w) \<Longrightarrow> wf_node (mclmac w')) \<Longrightarrow> ids (mclmac w') = ids (mclmac w) \<Longrightarrow>
    timeouts w' = timeouts w \<Longrightarrow> keeps w w'"
  by (rule keepsI) simp_all

lemma send_cf_keeps: "mclmac_send_cf_message w = Inr w' \<Longrightarrow> keeps w w'"
  by (auto simp: mclmac_send_cf_message_def Let_def rbind_eq_Inr c_rand_def on_mclmac_def
      dest!: ztimer_sleep_keeps)

lemma cf_messages_keeps [simp]:
  "keeps w (on_mclmac (\<lambda>m. on_mac (\<lambda>i. i\<lparr>cf_messages := (cf_messages i)[n := f i m]\<rparr>) m) w)"
  by (rule on_mclmac_keeps) (simp_all add: wf_simps on_mac_def)

lemma announce_keeps:
  assumes "announce dest w = Inr w'"
  shows "keeps w w'"
proof -
  from assms obtain w1 where
    "mclmac_send_cf_message (on_mclmac (\<lambda>m. on_mac (\<lambda>i. i\<lparr>cf_messages := (cf_messages i)
       [0 := cfpacket_create (cf_messages i ! 0) (mclmac_get_nodeid m) dest]\<rparr>) m) w) = Inr w1"
    and w': "w' = on_mclmac (\<lambda>m. on_mac (\<lambda>i. i\<lparr>cf_messages := (cf_messages i)
       [0 := cfpacket_clear (cf_messages i ! 0)]\<rparr>) m) w1"
    by (auto simp: announce_def rbind_eq_Inr)
  from keeps_trans [OF cf_messages_keeps send_cf_keeps [OF this(1)]] show ?thesis
    unfolding w' by (rule keeps_trans) simp
qed

lemma receive_cf_keeps:
  "mclmac_receive_cf_message testing w = (b, w') \<Longrightarrow> keeps w w'"
  by (auto simp: mclmac_receive_cf_message_def receive_cf_message_native_def Let_def c_rand_def
      set_cf_received_def random_cf_packet_def on_mac_def wf_simps split: if_splits intro!: data_keeps)

lemma create_control_wf:
  "wf_node m \<Longrightarrow> wf_node (mclmac_create_control_packet m)"
  "ids (mclmac_create_control_packet m) = ids m"
  by (simp_all add: mclmac_create_control_packet_def controlpacket_create_def on_mac_def wf_simps)

lemma send_control_keeps: "mclmac_send_control_packet w = Inr w' \<Longrightarrow> keeps w w'"
  by (auto simp: mclmac_send_control_packet_def c_rand_def rbind_eq_Inr on_mac_def wf_simps
      wf_controlpacket_clear intro!: data_keeps)

lemma send_control_safe: "mclmac_send_control_packet w \<noteq> Inl e"
  using control_encode_total [of "\<lambda>_. 0" "of_nat (rand_values w 0)" "ctrlpkt (internals w)"]
  by (auto simp: mclmac_send_control_packet_def c_rand_def)

lemma receive_control_native:
  "\<exists>pkt w1. receive_control_packet_native testing w =
     Inr (on_mclmac (on_mac (ctrlpkt_recv_update (\<lambda>_. pkt))) w1) \<and>
   (pkt = ctrlpkt_recv (internals w) \<or> wf_bitmap (occupied_slots pkt)) \<and>
   mclmac w1 = mclmac w \<and> timeouts w1 = timeouts w"
proof -
  obtain rs w1 where rs: "rand_bytes_250 256 w = (rs, w1)" by (cases "rand_bytes_250 256 w")
  note frame = rand_bytes_250_frame [OF rs]
  obtain bs where "write_all (WRITE_ARRAY RIOT) (replicate 256 0)
      (zip [0..<256] rs @ native_control_writes testing (mclmac w)) = Inr bs" "length bs = 256"
    using riot_write_all [of "replicate 256 0"] by auto
  moreover obtain pkt where "controlpacket_construct_packet_from_bytestring RIOT (ctrlpkt_recv (internals w1)) bs = Inr pkt"
    "pkt = ctrlpkt_recv (internals w1) \<or> wf_bitmap (occupied_slots pkt)"
    using control_decode_total [OF \<open>length bs = 256\<close>, of "ctrlpkt_recv (internals w1)"] by blast
  ultimately show ?thesis using rs frame
    by (intro exI [of _ pkt] exI [of _ w1])
      (simp add: receive_control_packet_native_def new_array_def del: upt_rec_numeral)
qed

lemma receive_control_keeps:
  assumes "mclmac_receive_control_packet testing w = Inr (b, w')"
  shows "keeps w w'"
proof (cases "testing \<and> state_ctrl (mclmac w) = 7")
  case True
  with assms show ?thesis by (auto simp: mclmac_receive_control_packet_def)
next
  case False
  obtain pkt w1 where r: "receive_control_packet_native testing w =
      Inr (on_mclmac (on_mac (ctrlpkt_recv_update (\<lambda>_. pkt))) w1)"
    "pkt = ctrlpkt_recv (internals w) \<or> wf_bitmap (occupied_slots pkt)"
    "mclmac w1 = mclmac w" "timeouts w1 = timeouts w"
    using receive_control_native by blast
  from assms r(1) have "w' = on_mclmac (on_mac (ctrlpkt_recv_update (\<lambda>_. pkt))) w1"
    unfolding mclmac_receive_control_packet_def if_not_P [OF False] by simp
  then show ?thesis using r(2-) by (auto simp: on_mac_def wf_simps intro!: data_keeps)
qed

lemma receive_control_safe: "mclmac_receive_control_packet testing w \<noteq> Inl e"
  using receive_control_native [of testing w] by (auto simp: mclmac_receive_control_packet_def)

lemma listen_control_keeps: "listen_control testing n w = Inr (count, w') \<Longrightarrow> keeps w w'"
proof (induction testing n w rule: listen_control.induct)
  case (1 testing n w)
  then show ?case
    by (subst (asm) (2) listen_control.simps)
      (auto simp: rbind_eq_Inr split: if_splits dest: receive_control_keeps intro: keeps_trans)
qed

lemma listen_control_safe: "listen_control testing n w \<noteq> Inl e"
proof (induction testing n w rule: listen_control.induct)
  case (1 testing n w)
  show ?case
  proof (cases "n \<le> 2")
    case True
    obtain b w1 where "mclmac_receive_control_packet testing w = Inr (b, w1)"
      using receive_control_safe by (cases "mclmac_receive_control_packet testing w") auto
    with "1.IH" [OF True, of b w1] show ?thesis by (subst listen_control.simps) simp
  qed (simp add: listen_control.simps)
qed

section \<open>The power mode machine\<close>

lemma next_powermode_keeps: "next_powermode s w = Inr w' \<Longrightarrow> keeps w w'"
  by (auto simp: next_powermode_def try_mclmac_def mclmac_set_next_powermode_state_def
      assert_that_eq_Inr rbind_eq_Inr wf_simps intro!: data_keeps)

lemma arm_timers_keep [simp]: "keeps w (arm_slot_timer w)" "keeps w (arm_cf_timer w)"
proof -
  have "keeps w (on_mclmac (on_frame f) w1)" if "set_timer d w = (i, w1)" for f d i w1
    using set_timer_keeps [OF that] by (rule keeps_trans) (auto simp: mac_access wf_simps intro!: on_mclmac_keeps)
  then show "keeps w (arm_slot_timer w)" "keeps w (arm_cf_timer w)"
    by (auto simp: arm_slot_timer_def arm_cf_timer_def split: prod.splits)
qed

lemma startp_settings_wf:
  assumes "wf_node m"
  shows "\<exists>m'. startp_settings m = Inr m' \<and> wf_node m' \<and> ids m' = ids m"
proof -
  have "nSlots m = 16" "nChannels m = 8" using assms by (simp_all add: wf_simps)
  with assms show ?thesis
    by (simp add: startp_settings_def mclmac_set_slots_number_def mclmac_set_cf_slots_number_def
        mclmac_set_frame_duration_def mclmac_set_slot_duration_def mclmac_set_cf_duration_def
        mac_access reset_packet_counters_def wf_simps FRAME_DURATION_def)
qed

lemma startp_ids: "startp_settings m = Inr m' \<Longrightarrow> ids m' = ids m"
  by (auto simp: startp_settings_def mclmac_set_slots_number_def mclmac_set_cf_slots_number_def
      mclmac_set_frame_duration_def mclmac_set_slot_duration_def mclmac_set_cf_duration_def
      mac_access reset_packet_counters_def ids_def rbind_eq_Inr assert_that_eq_Inr)

lemma startp_keeps: "execute_startp w = Inr (r, w') \<Longrightarrow> keeps w w'"
proof -
  assume "execute_startp w = Inr (r, w')"
  then obtain m w2 where m: "startp_settings (mclmac w) = Inr m"
    and w2: "next_powermode PASSIVE (w\<lparr>mclmac := m\<rparr>) = Inr w2" and w': "w' = arm_slot_timer w2"
    by (auto simp: execute_startp_def try_mclmac_def rbind_eq_Inr)
  have "keeps w (w\<lparr>mclmac := m\<rparr>)"
    using startp_settings_wf [of "mclmac w"] startp_ids [OF m] m by (auto intro!: data_keeps)
  from keeps_trans [OF this next_powermode_keeps [OF w2]] show ?thesis
    unfolding w' by (rule keeps_trans) simp
qed

lemma startp_safe: "good w \<Longrightarrow> execute_startp w \<noteq> Inl e"
  using startp_settings_wf [of "mclmac w"]
  by (auto simp: good_def execute_startp_def try_mclmac_def)

lemma passive_round_keeps: "passive_round os l w = Inr (again, l', w') \<Longrightarrow> keeps w w'"
  by (auto simp: passive_round_def Let_def rbind_eq_Inr split: if_splits
      intro: keeps_trans keeps_trans [OF unset_timer_keeps keeps_trans] dest!: read_queue_keeps write_queue_keeps)

lemma advance_slot_keeps [simp]: "keeps w (on_mclmac advance_slot w)"
  by (rule on_mclmac_keeps) (simp_all add: advance_slot_def Let_def mac_access wf_simps)

lemma passive_keeps: "execute_passive os w = Inr (r, w') \<Longrightarrow> keeps w w'"
proof -
  assume "execute_passive os w = Inr (r, w')"
  then obtain w1 w2 l where
    loop: "run_loop (passive_round os) () (on_mclmac (\<lambda>m. mclmac_set_radio_sleep (mclmac_set_current_cf_slot m 0)) w) = Inr (l, w1)"
    and nxt: "next_powermode ACTIVE (arm_slot_timer (on_mclmac advance_slot w1)) = Inr w'"
    by (auto simp: execute_passive_def rbind_eq_Inr)
  have "keeps w (on_mclmac (\<lambda>m. mclmac_set_radio_sleep (mclmac_set_current_cf_slot m 0)) w)"
    by (rule on_mclmac_keeps) (simp_all add: mac_access wf_simps)
  also have "keeps \<dots> w1" by (rule run_loop_keeps [OF loop passive_round_keeps])
  also have "keeps w1 (arm_slot_timer (on_mclmac advance_slot w1))"
    by (rule keeps_trans [OF advance_slot_keeps]) simp
  also have "keeps \<dots> w'" by (rule next_powermode_keeps [OF nxt])
  finally show ?thesis .
qed

lemma cf_slot_step_keeps: "cf_slot_step w = (ended, w') \<Longrightarrow> keeps w w'"
proof -
  assume step: "cf_slot_step w = (ended, w')"
  let ?u = "unset_timer (cf_timer (frame (internals w))) w"
  have "keeps ?u (on_mclmac mclmac_increase_cf_slot ?u)"
    by (rule on_mclmac_keeps) (simp_all add: mac_access wf_simps)
  then have "keeps w (on_mclmac mclmac_increase_cf_slot ?u)" by (rule keeps_trans [OF unset_timer_keeps])
  with step show ?thesis
    by (auto simp: cf_slot_step_def Let_def split: if_splits intro: keeps_trans)
qed

lemma active_send_keeps: "active_send l w = Inr (l', w') \<Longrightarrow> keeps w w'"
  by (auto simp: active_send_def Let_def rbind_eq_Inr split: if_splits
      dest!: announce_keeps intro: keeps_trans)

lemma active_receive_keeps: "active_receive testing c l w = Inr (l', w') \<Longrightarrow> keeps w w'"
proof -
  assume rcv: "active_receive testing c l w = Inr (l', w')"
  obtain b w1 where w1: "mclmac_receive_cf_message testing w = (b, w1)"
    by (cases "mclmac_receive_cf_message testing w")
  have "keeps w1 w'" using rcv w1
    by (auto simp: active_receive_def Let_def rbind_eq_Inr mac_access wf_simps split: if_splits
        intro!: data_keeps)
  with receive_cf_keeps [OF w1] show ?thesis by (rule keeps_trans)
qed

lemma active_round_keeps: "active_round testing f l w = Inr (again, l', w') \<Longrightarrow> keeps w w'"
  by (auto simp: active_round_def Let_def rbind_eq_Inr split: if_splits prod.splits
      dest!: cf_slot_step_keeps active_send_keeps active_receive_keeps intro: keeps_trans)

lemma active_decide_keeps: "active_decide l w = Inr (r, w') \<Longrightarrow> keeps w w'"
  by (auto simp: active_decide_def rbind_eq_Inr on_mac_def wf_simps split: if_splits intro!: data_keeps)

lemma active_keeps: "execute_active testing w = Inr (r, w') \<Longrightarrow> keeps w w'"
proof -
  assume "execute_active testing w = Inr (r, w')"
  then obtain l f w2 l2 where
    loop: "run_loop (active_round testing f) l (arm_cf_timer (on_mclmac mclmac_start_cf_phase w)) = Inr (l2, w2)"
    and dec: "active_decide l2 w2 = Inr (r, w')"
    by (auto simp: execute_active_def Let_def rbind_eq_Inr)
  have "keeps w (on_mclmac mclmac_start_cf_phase w)"
    by (rule on_mclmac_keeps) (simp_all add: mclmac_start_cf_phase_def mac_access wf_simps)
  also have "keeps \<dots> (arm_cf_timer (on_mclmac mclmac_start_cf_phase w))" by simp
  also have "keeps \<dots> w2" by (rule run_loop_keeps [OF loop active_round_keeps])
  also have "keeps w2 w'" by (rule active_decide_keeps [OF dec])
  finally show ?thesis .
qed

lemma split_phase [simp]: "snd (mclmac_start_split_phase m s) = m"
  by (simp add: mclmac_start_split_phase_def)

lemma start_split_keeps [simp]: "keeps w (on_mclmac (\<lambda>m. mclmac_create_control_packet m) w)"
  by (rule on_mclmac_keeps) (simp_all add: create_control_wf)

lemma on_mclmac_id [simp]: "on_mclmac (\<lambda>m. m) w = w"
  by (simp add: on_mclmac_def)

lemma transmit_round_keeps: "transmit_round l w = Inr (again, l', w') \<Longrightarrow> keeps w w'"
  by (auto simp: transmit_round_def Let_def rbind_eq_Inr split: if_splits dest: send_data_keeps)

lemma transmit_round_safe: "transmit_round l w = Inl e \<Longrightarrow> good w \<Longrightarrow> False"
  using send_data_safe [of w]
  by (auto simp: transmit_round_def Let_def rbind_def good_def wf_node_def wf_mclmac_def split: sum.splits if_splits)

lemma forget_keeps [simp]:
  "keeps w (on_mclmac (on_mac forget_collision) w)"
  "keeps w (on_mclmac (on_mac (is_internal_collision_update f)) w)"
  by (rule on_mclmac_keeps; simp add: on_mac_def forget_collision_def wf_simps)+

lemma transmit_keeps: "execute_transmit w = Inr (r, w') \<Longrightarrow> keeps w w'"
proof -
  assume ex: "execute_transmit w = Inr (r, w')"
  then obtain w1 where
    snd_ctrl: "mclmac_send_control_packet (on_mclmac (\<lambda>m. mclmac_create_control_packet m) w) = Inr w1"
    by (auto simp: execute_transmit_def rbind_eq_Inr)
  have w1: "keeps w w1" by (rule keeps_trans [OF start_split_keeps send_control_keeps [OF snd_ctrl]])
  have "keeps w1 w'"
  proof (cases "collisionDetected (internals w1)")
    case True
    let ?w2 = "on_mclmac (on_mac forget_collision) w1"
    have "keeps w1 (on_mclmac (on_mac (is_internal_collision_update (\<lambda>_. False))) ?w2)"
      by (rule keeps_trans [OF forget_keeps(1)]) simp
    with True ex snd_ctrl show ?thesis
      by (auto simp: execute_transmit_def Let_def rbind_eq_Inr simp del: set_next_powermode split: if_splits
          dest!: next_powermode_keeps intro: keeps_trans [OF forget_keeps(1)] keeps_trans)
  next
    case False
    with ex snd_ctrl obtain l w2 where "run_loop transmit_round () w1 = Inr (l, w2)"
      "next_powermode PASSIVE w2 = Inr w'"
      by (auto simp: execute_transmit_def rbind_eq_Inr simp del: set_next_powermode)
    from run_loop_keeps [OF this(1) transmit_round_keeps] next_powermode_keeps [OF this(2)]
    show ?thesis by (rule keeps_trans)
  qed
  with w1 show ?thesis by (rule keeps_trans)
qed

lemma transmit_safe:
  assumes "execute_transmit w = Inl e" and "good w"
  shows "e = Still_running"
proof -
  obtain w1 where snd_ctrl: "mclmac_send_control_packet (on_mclmac (\<lambda>m. mclmac_create_control_packet m) w) = Inr w1"
    using send_control_safe by (cases "mclmac_send_control_packet (on_mclmac (\<lambda>m. mclmac_create_control_packet m) w)") auto
  have "good w1" using keeps_trans [OF start_split_keeps send_control_keeps [OF snd_ctrl]] assms(2) by (rule keeps_good)
  moreover have "run_loop transmit_round () w1 = Inl e"
    using assms(1) snd_ctrl
    by (cases "collisionDetected (internals w1)")
      (auto simp: execute_transmit_def Let_def rbind_def split: sum.splits if_splits)
  ultimately show ?thesis
    by - (rule run_loop_safe, auto dest: transmit_round_keeps transmit_round_safe)
qed

lemma receive_round_keeps: "receive_round n w = Inr (again, n', w') \<Longrightarrow> keeps w w'"
  by (auto simp: receive_round_def rbind_eq_Inr split: if_splits dest: receive_data_keeps)

lemma receive_round_safe: "receive_round n w = Inl e \<Longrightarrow> good w \<Longrightarrow> False"
  using receive_data_safe [of w]
  by (auto simp: receive_round_def rbind_def good_def wf_node_def wf_mclmac_def split: sum.splits if_splits)

lemma receive_keeps: "execute_receive testing w = Inr (r, w') \<Longrightarrow> keeps w w'"
proof -
  assume ex: "execute_receive testing w = Inr (r, w')"
  then obtain count w1 where listen: "listen_control testing 1 w = Inr (count, w1)"
    by (auto simp: execute_receive_def rbind_eq_Inr)
  have "keeps w1 w'"
    using ex listen
    by (auto simp: execute_receive_def Let_def rbind_eq_Inr simp del: set_next_powermode split: if_splits
        dest!: next_powermode_keeps run_loop_keeps [OF _ receive_round_keeps] intro: keeps_trans)
  with listen_control_keeps [OF listen] show ?thesis by (rule keeps_trans)
qed

lemma receive_safe:
  assumes "execute_receive testing w = Inl e" and "good w"
  shows "e = Still_running"
proof -
  obtain count w1 where listen: "listen_control testing 1 w = Inr (count, w1)"
    using listen_control_safe by (cases "listen_control testing 1 w") auto
  have "good w1" by (rule keeps_good [OF listen_control_keeps [OF listen] assms(2)])
  moreover have "run_loop receive_round (unat (number_packets_received (internals w1))) w1 = Inl e"
    using assms(1) listen
    by (auto simp: execute_receive_def Let_def rbind_def split: sum.splits if_splits)
  ultimately show ?thesis
    by - (rule run_loop_safe, auto dest: receive_round_keeps receive_round_safe)
qed

lemma finish_keeps: "execute_finishp w = Inr (r, w') \<Longrightarrow> keeps w w'"
  by (auto simp: execute_finishp_def finish_internals_def reset_packet_counters_def wf_mac_def
      wf_packets_def intro!: internals_keeps)

lemma powermode_keeps:
  assumes "mclmac_execute_powermode_state os testing w = Inr (r, w')"
  shows "keeps w w'"
  using assms
  by (cases "powerMode (mclmac w)")
    (auto simp: mclmac_execute_powermode_state_def assert_that_eq_Inr
      dest: startp_keeps passive_keeps active_keeps transmit_keeps receive_keeps finish_keeps)

text \<open>
  C8. No state of the power mode machine but PASSIVE can fail. On a node whose data are well
  formed, STARTP, ACTIVE, TRANSMIT, RECEIVE and FINISHP never fail an assertion, never leave the
  bounds of an array and never read a byte that was not written, whatever the radio and the
  environment do: a run that does not end is one that is still waiting.
\<close>

theorem powermode_safe:
  assumes "good w" and "powerMode (mclmac w) \<noteq> PASSIVE"
    and "mclmac_execute_powermode_state os testing w = Inl e"
  shows "e = Still_running"
proof -
  have "nSlots (mclmac w) > 0" using assms(1) by (simp add: good_def wf_simps)
  with assms show ?thesis
    by (cases "powerMode (mclmac w)")
      (auto simp: mclmac_execute_powermode_state_def execute_finishp_def
        dest: startp_safe active_never_fails transmit_safe receive_safe)
qed

section \<open>The MAC machine\<close>

lemma next_state_keeps: "next_state s w = Inr w' \<Longrightarrow> keeps w w'"
  by (auto simp: next_state_def try_mclmac_def mclmac_set_next_MAC_state_def assert_that_eq_Inr
      rbind_eq_Inr wf_simps intro!: data_keeps)

lemma first_node_keeps [simp]: "keeps w (on_mclmac (is_first_node_update f) w)"
  by (rule on_mclmac_keeps) (simp_all add: wf_simps)

lemma start_keeps: "execute_start os pid w = Inr (r, w') \<Longrightarrow> keeps w w'"
  by (auto simp: execute_start_def c_rand_def Let_def rbind_eq_Inr wf_simps intro!: data_keeps)

lemma cf_detected_keeps: "mclmac_cf_packet_detected testing w = Inr (b, w') \<Longrightarrow> keeps w w'"
  by (auto simp: mclmac_cf_packet_detected_def cf_packet_detected_native_def rbind_eq_Inr
      split: if_splits prod.splits dest!: set_timer_keeps busy_wait_keeps intro: keeps_trans keeps_trans [OF keeps_trans])

lemma radio_ids [simp]:
  "on_mclmac mclmac_set_radio_standby w = w" "on_mclmac mclmac_set_radio_sleep w = w"
  by (simp_all add: on_mclmac_def)

lemma detection_keeps: "detection_round testing i found w = Inr (again, found', w') \<Longrightarrow> keeps w w'"
  by (auto simp: detection_round_def Let_def rbind_eq_Inr split: if_splits dest!: cf_detected_keeps)

lemma initialization_keeps: "execute_initialization testing w = Inr (r, w') \<Longrightarrow> keeps w w'"
proof -
  assume ex: "execute_initialization testing w = Inr (r, w')"
  obtain i w1 where arm: "set_timer DETECTION_TIME w = (i, w1)" by (cases "set_timer DETECTION_TIME w")
  let ?v = "\<lambda>found w2. if \<not> found then on_mclmac (is_first_node_update (\<lambda>_. True)) w2 else w2"
  from ex arm obtain found w2 w3 where
    loop: "run_loop (detection_round testing i) False w1 = Inr (found, w2)"
    and nap: "ztimer_sleep cf_slot_rest (unset_timer i (?v found w2)) = Inr w3"
    and nxt: "next_state SYNCHRONIZATION w3 = Inr w'"
    by (auto simp: execute_initialization_def rbind_eq_Inr simp del: set_next_state)
  have "keeps w w1" by (rule set_timer_keeps [OF arm])
  also have "keeps w1 w2" by (rule run_loop_keeps [OF loop detection_keeps])
  also have "keeps w2 (?v found w2)" by simp
  also have "keeps \<dots> (unset_timer i (?v found w2))" by simp
  also have "keeps \<dots> w3" by (rule ztimer_sleep_keeps [OF nap])
  also have "keeps w3 w'" by (rule next_state_keeps [OF nxt])
  finally show ?thesis .
qed

lemma cf_detected_safe: "mclmac_cf_packet_detected testing w = Inl e \<Longrightarrow> e = Still_running"
  by (auto simp: mclmac_cf_packet_detected_def cf_packet_detected_native_def rbind_def
      split: if_splits prod.splits sum.splits dest!: busy_wait_safe)

lemma initialization_safe: "execute_initialization testing w = Inl e \<Longrightarrow> e = Still_running"
proof -
  assume ex: "execute_initialization testing w = Inl e"
  have loop: "e = Still_running" if "run_loop (detection_round testing i) l v = Inl e" for i l v
    by (rule run_loop_fault [OF that, where I = "\<lambda>_ _. True"])
      (auto simp: detection_round_def rbind_def Let_def split: sum.splits if_splits dest!: cf_detected_safe)
  from ex show ?thesis
    by (auto simp: execute_initialization_def rbind_def ztimer_sleep_def wait_round_def
        split: prod.splits sum.splits list.splits dest!: loop)
qed

lemma wf_bitmap_put: "wf_bitmap m \<Longrightarrow> length row = SLOT_BYTES \<Longrightarrow> wf_bitmap (m[k := row])"
  by (auto simp: wf_bitmap_def dest!: set_update_subset_insert [THEN subsetD])

lemma wf_bitmap_row: "wf_bitmap m \<Longrightarrow> k < MAX_NUMBER_FREQS \<Longrightarrow> length (m ! k) = SLOT_BYTES"
  by (simp add: wf_bitmap_def)

lemma wf_bitmap_join: "wf_bitmap m \<Longrightarrow> wf_bitmap m' \<Longrightarrow> wf_bitmap (map2 (map2 (OR)) m m')"
  by (auto simp: wf_bitmap_def set_zip)

lemma receive_sync_keeps:
  assumes "mclmac_receive_ctrlpkt_sync testing w pkt = Inr (b, pkt', w')"
  shows "keeps w w'" and "b \<Longrightarrow> good w \<Longrightarrow> wf_bitmap (occupied_slots pkt')"
proof -
  let ?k = "rand_values w 0 mod 8"
  have "wf_bitmap ((occupied_frequencies_slots (mclmac w))
      [?k := (occupied_frequencies_slots (mclmac w) ! ?k)[n := b]])" if "wf_node (mclmac w)" for n b
    using that by (intro wf_bitmap_put) (simp_all add: wf_simps wf_bitmap_row)
  with assms show "keeps w w'" "b \<Longrightarrow> good w \<Longrightarrow> wf_bitmap (occupied_slots pkt')"
    by (auto simp: mclmac_receive_ctrlpkt_sync_def receive_ctrlpkt_sync_native_def Let_def c_rand_def
        controlpacket_create_def rbind_eq_Inr wf_simps good_def split: if_splits intro!: data_keeps)
qed

lemma listen_sync_keeps:
  "listen_sync testing n pkt w = Inr (count, pkt', w') \<Longrightarrow>
    keeps w w' \<and> (good w \<longrightarrow> count \<noteq> 11 \<longrightarrow> n \<le> 11 \<longrightarrow> wf_bitmap (occupied_slots pkt'))"
proof (induction testing n pkt w rule: listen_sync.induct)
  case (1 testing n pkt w)
  show ?case
  proof (cases "n \<le> 10")
    case False
    with "1.prems" show ?thesis by (simp add: listen_sync.simps)
  next
    case True
    with "1.prems" obtain b pkt1 w1 where rcv: "mclmac_receive_ctrlpkt_sync testing w pkt = Inr (b, pkt1, w1)"
      and rest: "(if \<not> b then listen_sync testing (n + 1) pkt1 w1 else Inr (n, pkt1, w1)) = Inr (count, pkt', w')"
      by (subst (asm) listen_sync.simps) (auto simp: rbind_eq_Inr)
    note k = receive_sync_keeps [OF rcv]
    from "1.IH" [OF True, of b pkt1 w1] rest k True show ?thesis
      by (cases b) (auto intro: keeps_trans dest: keeps_good)
  qed
qed

lemma mark_neighbor_wf: "mark_neighbor slot m = Inr m' \<Longrightarrow> wf_node m \<Longrightarrow> wf_node m'"
  by (auto simp: mark_neighbor_def Let_def wf_simps split: if_splits)

lemma mark_neighbor_ids: "mark_neighbor slot m = Inr m' \<Longrightarrow> ids m' = ids m"
  by (auto simp: mark_neighbor_def Let_def ids_def split: if_splits)

lemma adopt_keeps:
  assumes "try_mclmac (adopt_network pkt) w = Inr w'"
  shows "ids (mclmac w') = ids (mclmac w)" "good w \<Longrightarrow> wf_bitmap (occupied_slots pkt) \<Longrightarrow> good w'"
  using assms
  by (auto simp: good_def try_mclmac_def adopt_network_def controlpacket_get_occupied_slots_def rbind_eq_Inr
      wf_node_def wf_mclmac_def ids_def mark_neighbor_def Let_def split: if_splits)

lemma merge_keeps:
  assumes "try_mclmac (merge_network pkt slot) w = Inr w'"
  shows "ids (mclmac w') = ids (mclmac w)" "good w \<Longrightarrow> wf_bitmap (occupied_slots pkt) \<Longrightarrow> good w'"
  using assms
  by (auto simp: good_def try_mclmac_def merge_network_def controlpacket_get_occupied_slots_def rbind_eq_Inr
      wf_node_def wf_mclmac_def ids_def mark_neighbor_def Let_def wf_bitmap_join split: if_splits)

lemma sync_steps_keep:
  "sync_slot_step l w = (l', w') \<Longrightarrow> keeps w w'" "sync_frame_step l w = (l', w') \<Longrightarrow> keeps w w'"
  by (auto simp: sync_slot_step_def sync_frame_step_def split: prod.splits if_splits
      dest!: set_timer_keeps intro: keeps_trans [OF unset_timer_keeps])

lemma sync_round_keeps:
  assumes "sync_round testing l w = Inr (again, l', w')"
  shows "keeps w w'"
proof (cases "sync_frame l < wakeup_frame (mclmac w) - 1")
  case False
  with assms show ?thesis by (simp add: sync_round_def)
next
  case True
  with assms obtain b pkt w1 w2 where rcv: "mclmac_receive_ctrlpkt_sync testing w (sync_pkt l) = Inr (b, pkt, w1)"
    and mrg: "(if b then try_mclmac (merge_network pkt (sync_slot l)) w1 else Inr w1) = Inr w2"
    and rest: "(case sync_slot_step (l\<lparr>sync_pkt := pkt\<rparr>) w2 of (l3, w3) \<Rightarrow>
        case sync_frame_step l3 w3 of (l4, w4) \<Rightarrow> Inr (True, l4, w4)) = (Inr (again, l', w') :: (bool \<times> sync_locals \<times> 'a world) result)"
    by (auto simp: sync_round_def rbind_eq_Inr)
  have "keeps w w2"
    using receive_sync_keeps [OF rcv] mrg
    by (cases b) (auto simp: keeps_def dest: merge_keeps)
  moreover have "keeps w2 w'"
    using rest by (auto split: prod.splits dest!: sync_steps_keep intro: keeps_trans)
  ultimately show ?thesis by (rule keeps_trans)
qed

lemma follow_keeps: "follow_network testing pkt w = Inr (r, w') \<Longrightarrow> keeps w w'"
  by (auto simp: follow_network_def Let_def rbind_eq_Inr split: prod.splits if_splits simp del: set_next_state
      dest!: set_timer_keeps next_state_keeps run_loop_keeps [OF _ sync_round_keeps]
        keeps_trans [OF unset_timer_keeps] intro: keeps_trans)

lemma synchronization_keeps:
  assumes "execute_synchronization testing w = Inr (r, w')"
  shows "keeps w w'"
proof (cases "is_first_node (mclmac w)")
  case True
  with assms show ?thesis
    by (auto simp: execute_synchronization_def first_node_sync_def wf_simps intro!: data_keeps)
next
  case False
  let ?w0 = "on_mclmac (\<lambda>m. (mclmac_set_radio_rx m)\<lparr>own_hopCount := 0xffff, own_networkTime := 0\<rparr>) w"
  from False assms obtain count pkt w1 where
    listen: "listen_sync testing 0 controlpacket_init ?w0 = Inr (count, pkt, w1)"
    and rest: "(if count = 11 then Inr (E_MAC_EXECUTION_FAILED, w1)
       else rbind (try_mclmac (adopt_network pkt) w1) (follow_network testing pkt)) = Inr (r, w')"
    by (auto simp: execute_synchronization_def rbind_eq_Inr)
  have w0: "keeps w ?w0" by (rule on_mclmac_keeps) (simp_all add: wf_simps)
  from listen_sync_keeps [OF listen] have w1: "keeps w w1"
    "good w \<Longrightarrow> count \<noteq> 11 \<Longrightarrow> wf_bitmap (occupied_slots pkt)"
    using w0 by (auto intro: keeps_trans dest: keeps_good)
  show ?thesis
  proof (cases "count = 11")
    case True
    with rest w1 show ?thesis by simp
  next
    case False
    with rest obtain w2 where ad: "try_mclmac (adopt_network pkt) w1 = Inr w2"
      and fol: "follow_network testing pkt w2 = Inr (r, w')" by (auto simp: rbind_eq_Inr)
    have "keeps w w2" using adopt_keeps [OF ad] w1 False by (auto simp: keeps_def)
    with follow_keeps [OF fol] show ?thesis by (blast intro: keeps_trans)
  qed
qed

lemma select_slot_keeps: "select_slot w = (b, w') \<Longrightarrow> keeps w w'"
  by (auto simp: select_slot_def c_rand_def mac_access wf_simps split: option.splits intro!: data_keeps)

lemma first_selection_keeps:
  "first_node_selection w = Inr (r, w') \<Longrightarrow> keeps w w'"
  by (auto simp: first_node_selection_def mac_access wf_mac_def wf_mclmac_def wf_packets_def wf_node_def ids_def
      wf_bitmap_row intro!: data_keeps wf_bitmap_put)

lemma selection_keeps:
  assumes "execute_selection w = Inr (r, w')"
  shows "keeps w w'"
  using assms
  by (auto simp: execute_selection_def Let_def rbind_eq_Inr split: if_splits prod.splits simp del: set_next_state
      dest!: set_timer_keeps select_slot_keeps next_state_keeps busy_wait_keeps first_selection_keeps
      intro: keeps_trans keeps_trans [OF keeps_trans unset_timer_keeps])

lemma selection_safe: "execute_selection w = Inl e \<Longrightarrow> e = Still_running"
proof -
  assume ex: "execute_selection w = Inl e"
  have nxt: "next_state (if \<not> b then SYNCHRONIZATION else MEDIUM_ACCESS) v \<noteq> Inl e'" for b v e'
    by simp
  from ex show ?thesis
    by (auto simp: execute_selection_def first_node_selection_def Let_def rbind_def nxt
        split: prod.splits sum.splits if_splits dest!: busy_wait_safe)
qed

lemma update_powermode_keeps [simp]: "keeps w (update_powermode w)"
  unfolding update_powermode_def
  by (rule on_mclmac_keeps) (simp_all add: powermode_update_spec wf_simps)

lemma start_round_keeps: "start_round os testing l w = Inr (again, l', w') \<Longrightarrow> keeps w w'"
proof -
  assume st: "start_round os testing l w = Inr (again, l', w')"
  then obtain ret w1 where ex: "mclmac_execute_powermode_state os testing w = Inr (ret, w1)"
    by (auto simp: start_round_def rbind_eq_Inr)
  have "keeps w1 (on_mclmac (powerMode_update (\<lambda>_. STARTP)) w1)"
    by (rule on_mclmac_keeps) (simp_all add: wf_simps)
  with st ex powermode_keeps [OF ex] show ?thesis
    by (auto simp: start_round_def split: if_splits intro: keeps_trans)
qed

lemma access_round_keeps: "access_round os testing l w = Inr (again, l', w') \<Longrightarrow> keeps w w'"
proof -
  assume st: "access_round os testing l w = Inr (again, l', w')"
  then obtain ret w1 where ex: "mclmac_execute_powermode_state os testing w = Inr (ret, w1)"
    by (auto simp: access_round_def rbind_eq_Inr)
  have "keeps w1 (on_mclmac note_collision w1)"
    by (rule on_mclmac_keeps) (simp_all add: note_collision_def on_mac_def wf_simps)
  then have "keeps w1 w'"
    using st ex
    by (cases ret) (auto simp: access_round_def rbind_eq_Inr simp del: set_next_state set_next_powermode
        dest!: next_powermode_keeps next_state_keeps intro: keeps_trans)
  with powermode_keeps [OF ex] show ?thesis by (rule keeps_trans)
qed

lemma medium_access_keeps:
  assumes "execute_medium_access os testing w = Inr (r, w')"
  shows "keeps w w'"
proof -
  let ?w0 = "on_mclmac mclmac_init_powermode_state_machine w"
  from assms obtain l1 w1 l2 w2 r3 where
    start: "run_loop (start_round os testing) () ?w0 = Inr (l1, w1)"
    and loop: "run_loop (access_round os testing) () (update_powermode w1) = Inr (l2, w2)"
    and fin: "mclmac_execute_powermode_state os testing (update_powermode w2) = Inr (r3, w')"
    by (auto simp: execute_medium_access_def rbind_eq_Inr)
  have "keeps w ?w0"
    by (rule on_mclmac_keeps) (simp_all add: mclmac_init_powermode_state_machine_def wf_simps)
  also have "keeps \<dots> w1" by (rule run_loop_keeps [OF start start_round_keeps])
  also have "keeps w1 (update_powermode w1)" by simp
  also have "keeps \<dots> w2" by (rule run_loop_keeps [OF loop access_round_keeps])
  also have "keeps w2 (update_powermode w2)" by simp
  also have "keeps \<dots> w'" by (rule powermode_keeps [OF fin])
  finally show ?thesis .
qed

lemma mac_step_keeps:
  assumes "mclmac_execute_mac_state_machine os testing pid w = Inr (r, w')"
  shows "keeps w w'"
  using assms
  by (cases "currentState (mclmac w)")
    (auto simp: mclmac_execute_mac_state_machine_def dest: start_keeps initialization_keeps
      synchronization_keeps selection_keeps medium_access_keeps)

lemma node_step_keeps:
  assumes "node_step os testing pid w w'"
  shows "keeps w w'"
proof -
  from assms obtain r w1 e m s where w': "w' = w1\<lparr>mclmac := m, script := s\<rparr>"
    and ex: "mclmac_execute_mac_state_machine os testing pid w = Inr (r, w1)"
    and upd: "mclmac_update_mac_state_machine (mclmac w1) = Inr (e, m)"
    by (elim node_stepE)
  from upd have "m = mclmac w1 \<or> m = (mclmac w1)\<lparr>currentState := nextState (mclmac w1)\<rparr>"
    by (auto simp: mac_update_spec split: if_splits)
  then have "keeps w1 w'" unfolding w' by (auto simp: wf_simps intro!: data_keeps)
  with mac_step_keeps [OF ex] show ?thesis by (rule keeps_trans)
qed

lemma node_steps_keep: "(node_step os testing pid)\<^sup>*\<^sup>* w w' \<Longrightarrow> keeps w w'"
  by (induction rule: rtranclp_induct) (auto intro: keeps_trans dest: node_step_keeps)

text \<open>
  C7. The data of a node stay well formed for ever. However long a node executes its state
  machines, and whatever it receives, the arrays keep their sizes, the indices of the packet
  queues stay within them, at most as many packets wait as were stored, every stored packet is
  well formed, the timers are consistent, and the node keeps its identity, its frequencies and
  its queues.
\<close>

theorem node_data_invariant:
  assumes "(node_step os testing pid)\<^sup>*\<^sup>* w w'" and "wf_node (mclmac w)" and "wf_timeouts (timeouts w)"
  shows "wf_node (mclmac w') \<and> wf_timeouts (timeouts w') \<and> ids (mclmac w') = ids (mclmac w)"
  using node_steps_keep [OF assms(1)] assms(2,3) by (simp add: keeps_def good_def)

text \<open>
  Listening for a network and selecting a slot cannot fail, on any data: a run that does not
  end is one that is still waiting.
\<close>

theorem mac_states_safe:
  assumes "currentState (mclmac w) \<in> {INITIALIZATION, TIMESLOT_AND_CHANNEL_SELECTION}"
    and "mclmac_execute_mac_state_machine os testing pid w = Inl e"
  shows "e = Still_running"
  using assms
  by (auto simp: mclmac_execute_mac_state_machine_def dest: initialization_safe selection_safe)

section \<open>Concrete nodes\<close>

lemma sample_good: "good sample_world"
  by (simp add: good_def sample_world_def zero_mclmac_def MAC_internals_init_def zero_mac_internals_def
      wf_simps wf_timeouts_def static_timeouts_def controlpacket_init_def FREQUENCIES_def
      zero_datapacket_def wf_datapacket_def list_all_iff)

lemma node_data_invariant_witness:
  "\<exists>w'. (node_step inbox_rtos False 1)\<^sup>*\<^sup>* sample_world w' \<and>
     currentState (mclmac w') = INITIALIZATION \<and> wf_node (mclmac w')"
proof -
  obtain w' where step: "node_step inbox_rtos False 1 sample_world w'"
    and st: "currentState (mclmac w') = INITIALIZATION"
    using sample_first_step by blast
  have wf: "wf_node (mclmac sample_world)" "wf_timeouts (timeouts sample_world)"
    using sample_good by (simp_all add: good_def)
  have run: "(node_step inbox_rtos False 1)\<^sup>*\<^sup>* sample_world w'" using step by (rule r_into_rtranclp)
  from node_data_invariant [OF run wf] run st show ?thesis by blast
qed

text \<open>ACTIVE waits when nothing happens any more.\<close>

definition silent :: "(pid \<times> (pid \<Rightarrow> msg_t list)) world" where
  "silent = on_mclmac (powerMode_update (\<lambda>_. ACTIVE)) sample_world"

lemma powermode_safe_witness:
  "mclmac_execute_powermode_state inbox_rtos True silent = Inl Still_running"
proof -
  have good: "good silent"
    using sample_good by (simp add: silent_def good_def wf_simps)
  have mode: "powerMode (mclmac silent) \<noteq> PASSIVE" "powerMode (mclmac silent) = ACTIVE"
    "nSlots (mclmac silent) > 0" by (simp_all add: silent_def sample_world_def)
  obtain l w1 where start: "active_start silent = (l, w1)" by (cases "active_start silent")
  then have empty: "script w1 = []"
    by (auto simp: active_start_def Let_def arm_cf_timer_def silent_def sample_world_def
        split: prod.splits dest!: set_timer_frame)
  then have "\<exists>e. execute_active True silent = Inl e"
    by (simp add: execute_active_start start run_loop_Nil [OF empty])
  with mode obtain e where run: "mclmac_execute_powermode_state inbox_rtos True silent = Inl e"
    by (auto simp: mclmac_execute_powermode_state_def)
  from powermode_safe [OF good mode(1) run] run show ?thesis by simp
qed

end
