(* ===== verification/Timer_Accounting.thy ===== *)
theory Timer_Accounting
  imports Node_Invariant
begin

text \<open>
  Who holds the twenty timers. No state of the machines releases a timer it did not set, and the
  slot timer, which the power mode machine sets in STARTP and passes on from slot to slot, is
  released by nobody when MEDIUM ACCESS ends.
\<close>

section \<open>The timers in use\<close>

definition used :: "timeout_t \<Rightarrow> nat set" where
  "used t = {i. i < TIMEOUTS \<and> \<not> free_slot t i}"

abbreviation timers_of :: "'k world \<Rightarrow> nat set" where
  "timers_of w \<equiv> used (timeouts w)"

lemma used_iff: "wf_timeouts t \<Longrightarrow> i \<in> used t \<longleftrightarrow> i < TIMEOUTS \<and> timeout_state t ! i \<in> {3, 7}"
  using wf_slot [of t i] by (auto simp: used_def free_slot_def)

lemma finite_used: "finite (used t)" and card_used: "card (used t) \<le> TIMEOUTS"
proof -
  have "used t \<subseteq> {..<TIMEOUTS}" by (auto simp: used_def)
  from card_mono [OF _ this] finite_subset [OF this] show "finite (used t)" "card (used t) \<le> TIMEOUTS"
    by simp_all
qed

lemma passed_used: "wf_timeouts t \<Longrightarrow> timeout_passed t i = 2 \<longleftrightarrow> unat i \<notin> used t"
  using wf_slot [of t "unat i"]
  by (cases "unat i < TIMEOUTS") (auto simp: timeout_passed_slot used_iff)

lemma used_fire: "wf_timeouts t \<Longrightarrow> used (timeout_fire t now) = used t"
  using wf_timeout_fire [of t now] by (auto simp: used_iff timeout_fire_fields(3) split: if_splits)

lemma used_unset:
  assumes "wf_timeouts t"
  shows "used (snd (timeout_unset t i)) = used t - {unat i}"
proof (cases "unat i < TIMEOUTS")
  case True
  have "timeout_state t ! unat i AND 4 \<notin> {3, 7}" using wf_slot [OF assms True] by auto
  with assms wf_timeout_unset [OF assms, of i] show ?thesis
    by (auto simp: used_iff timeout_unset_state [OF _ True] split: if_splits)
next
  case False
  then show ?thesis by (auto simp: timeout_unset_def used_def)
qed

lemma used_set:
  assumes "wf_timeouts t" and "timeout_set t now d = (i, t')"
  shows "used t \<subseteq> used t'" and "unat i \<notin> used t"
    and "d \<noteq> 0 \<Longrightarrow> j < TIMEOUTS \<Longrightarrow> j \<notin> used t \<Longrightarrow> unat i \<in> used t'"
proof -
  have wf': "wf_timeouts t'" using wf_timeout_set [OF assms(1), of now d] assms(2) by simp
  have "used t \<subseteq> used t' \<and> unat i \<notin> used t \<and> (d \<noteq> 0 \<and> j < TIMEOUTS \<and> j \<notin> used t \<longrightarrow> unat i \<in> used t')"
  proof (cases t rule: first_free_cases)
    case full
    then have "used t = {..<TIMEOUTS}" by (auto simp: used_def)
    moreover have "timeout_set t now d = (TIMEOUT_SET_ERROR, t)"
      by (rule timeout_set_full [OF assms(1) full])
    ultimately show ?thesis using assms(2) TIMEOUT_SET_ERROR_bad by auto
  next
    case (free k)
    show ?thesis
    proof (cases "d = 0")
      case True
      with assms(2) TIMEOUT_SET_ERROR_bad show ?thesis by (auto simp: timeout_set_def used_def)
    next
      case False
      from timeout_set_free [OF assms(1) free False, of now] assms(2)
      have "i = of_nat k" "timeout_state t' = (timeout_state t)[k := 3]" by auto
      moreover from free have "k < TIMEOUTS" "k \<notin> used t" by (simp_all add: first_free_def used_def)
      moreover have "length (timeout_state t) = TIMEOUTS" using assms(1) by (simp add: wf_timeouts_def)
      ultimately show ?thesis
        by (auto simp: unat_slot used_iff [OF assms(1)] used_iff [OF wf'] nth_list_update)
    qed
  qed
  then show "used t \<subseteq> used t'" "unat i \<notin> used t"
    "d \<noteq> 0 \<Longrightarrow> j < TIMEOUTS \<Longrightarrow> j \<notin> used t \<Longrightarrow> unat i \<in> used t'" by blast+
qed

section \<open>The operations\<close>

lemma good_timers: "good w \<Longrightarrow> wf_timeouts (timeouts w)"
  by (simp add: good_def)

lemma env_events_used: "wf_timeouts (timeouts w) \<Longrightarrow> timers_of (fold env_event es w) = timers_of w"
proof (induction es arbitrary: w)
  case (Cons e es)
  have "wf_timeouts (timeouts (env_event e w))"
    using env_events_timers [OF Cons.prems, of "[e]"] by simp
  from Cons.IH [OF this] Cons.prems show ?case by (cases e) (simp_all add: used_fire)
qed simp

lemma wait_round_used: "wait_round w = Inr w' \<Longrightarrow> good w \<Longrightarrow> timers_of w' = timers_of w"
  by (auto simp: wait_round_def env_events_used good_timers split: list.splits)

lemma set_timer_used:
  assumes "set_timer d w = (i, w')" and "good w"
  shows "timers_of w \<subseteq> timers_of w'" and "unat i \<notin> timers_of w"
    and "d \<noteq> 0 \<Longrightarrow> j < TIMEOUTS \<Longrightarrow> j \<notin> timers_of w \<Longrightarrow> unat i \<in> timers_of w'"
proof -
  have set: "timeout_set (timeouts w) (clock w) d = (i, timeouts w')"
    using assms(1) by (auto simp: set_timer_def split: prod.splits)
  note used = used_set [OF good_timers [OF assms(2)] set]
  show "timers_of w \<subseteq> timers_of w'" "unat i \<notin> timers_of w" by (fact used(1,2))+
  show "d \<noteq> 0 \<Longrightarrow> j < TIMEOUTS \<Longrightarrow> j \<notin> timers_of w \<Longrightarrow> unat i \<in> timers_of w'" by (fact used(3))
qed

lemma unset_timer_used: "good w \<Longrightarrow> timers_of (unset_timer i w) = timers_of w - {unat i}"
  by (simp add: unset_timer_def used_unset good_timers)

lemma passed_timers: "good w \<Longrightarrow> passed i w = 2 \<longleftrightarrow> unat i \<notin> timers_of w"
  by (simp add: passed_used good_timers)

text \<open>Steps that release only timers they have set.\<close>

definition spares :: "'k world \<Rightarrow> 'k world \<Rightarrow> bool" where
  "spares w w' \<longleftrightarrow> keeps w w' \<and> (good w \<longrightarrow> timers_of w \<subseteq> timers_of w')"

lemma spares_refl [simp]: "spares w w"
  by (simp add: spares_def)

lemma spares_trans [trans]: "spares w w1 \<Longrightarrow> spares w1 w2 \<Longrightarrow> spares w w2"
  by (auto simp: spares_def intro: keeps_trans dest: keeps_good)

lemma spares_same: "keeps w w' \<Longrightarrow> timeouts w' = timeouts w \<Longrightarrow> spares w w'"
  by (simp add: spares_def)

lemma wait_round_spares: "wait_round w = Inr w' \<Longrightarrow> spares w w'"
  by (simp add: spares_def wait_round_keeps wait_round_used)

lemma run_loop_spares:
  assumes "run_loop body l w = Inr (l', w')"
    and "\<And>l v again l2 v2. body l v = Inr (again, l2, v2) \<Longrightarrow> spares v v2"
  shows "spares w w'"
  by (rule run_loop_rule [OF assms(1), where I = "\<lambda>_ v. spares w v"])
    (auto intro: spares_trans dest: wait_round_spares assms(2))

text \<open>A timer set, used for a while and released again.\<close>

lemma borrowed:
  assumes "set_timer d w = (i, w1)" and "spares w1 w2"
  shows "spares w (unset_timer i w2)"
proof -
  have k: "keeps w w1" "keeps w1 w2" "keeps w2 (unset_timer i w2)"
    using set_timer_keeps [OF assms(1)] assms(2) by (simp_all add: spares_def)
  have "timers_of w \<subseteq> timers_of (unset_timer i w2)" if "good w"
  proof -
    from k that have "good w1" "good w2" by (blast dest: keeps_good)+
    with set_timer_used [OF assms(1) that] assms(2) show ?thesis
      by (auto simp: unset_timer_used spares_def)
  qed
  with k show ?thesis unfolding spares_def by (blast intro: keeps_trans)
qed

section \<open>The states of the MAC machine\<close>

lemma busy_wait_spares: "busy_wait i w = Inr w' \<Longrightarrow> spares w w'"
  by (auto simp: busy_wait_def rbind_eq_Inr dest!: run_loop_spares)

lemma next_state_timers: "next_state s w = Inr w' \<Longrightarrow> timeouts w' = timeouts w"
  by (auto simp: next_state_def try_mclmac_def rbind_eq_Inr)

lemma next_state_spares: "next_state s w = Inr w' \<Longrightarrow> spares w w'"
  by (rule spares_same [OF next_state_keeps next_state_timers])

lemma start_spares: "execute_start os pid w = Inr (r, w') \<Longrightarrow> spares w w'"
  by (rule spares_same [OF start_keeps])
    (auto simp: execute_start_def c_rand_def Let_def rbind_eq_Inr simp del: set_next_state
      dest!: next_state_timers)

lemma cf_detected_spares: "mclmac_cf_packet_detected testing w = Inr (b, w') \<Longrightarrow> spares w w'"
  by (auto simp: mclmac_cf_packet_detected_def cf_packet_detected_native_def rbind_eq_Inr
      split: if_splits prod.splits intro: borrowed dest: busy_wait_spares)

lemma detection_spares: "detection_round testing i found w = Inr (again, found', w') \<Longrightarrow> spares w w'"
  by (auto simp: detection_round_def rbind_eq_Inr Let_def split: if_splits dest: cf_detected_spares)

lemma sleep_spares: "ztimer_sleep d w = Inr w' \<Longrightarrow> spares w w'"
proof -
  assume sl: "ztimer_sleep d w = Inr w'"
  then obtain w1 where "wait_round w = Inr w1" "timeouts w' = timeouts w1"
    by (auto simp: ztimer_sleep_def rbind_eq_Inr)
  with ztimer_sleep_keeps [OF sl] wait_round_used [of w w1] show ?thesis by (simp add: spares_def)
qed

lemma on_mclmac_spares: "keeps w (on_mclmac f w) \<Longrightarrow> spares w (on_mclmac f w)"
  by (simp add: spares_same)

lemma initialization_spares:
  assumes "execute_initialization testing w = Inr (r, w')"
  shows "spares w w'"
proof -
  obtain timer w1 where set: "set_timer DETECTION_TIME w = (timer, w1)" by (cases "set_timer DETECTION_TIME w")
  with assms obtain found w2 w3 where loop: "run_loop (detection_round testing timer) False w1 = Inr (found, w2)"
    and sl: "ztimer_sleep cf_slot_rest (unset_timer timer
       (if \<not> found then on_mclmac (is_first_node_update (\<lambda>_. True)) w2 else w2)) = Inr w3"
    and nxt: "next_state SYNCHRONIZATION (on_mclmac mclmac_set_radio_standby w3) = Inr w'"
    by (auto simp: execute_initialization_def rbind_eq_Inr simp del: set_next_state)
  have "spares w1 w2" by (rule run_loop_spares [OF loop detection_spares])
  also have "spares w2 (if \<not> found then on_mclmac (is_first_node_update (\<lambda>_. True)) w2 else w2)"
    by (simp add: on_mclmac_spares)
  finally have "spares w1 (if \<not> found then on_mclmac (is_first_node_update (\<lambda>_. True)) w2 else w2)" .
  from borrowed [OF set this] sleep_spares [OF sl]
  have "spares w w3" by (rule spares_trans)
  also have "spares w3 (on_mclmac mclmac_set_radio_standby w3)"
    by (rule on_mclmac_spares, rule on_mclmac_keeps) (simp_all add: wf_simps mac_access)
  also have "spares \<dots> w'" by (rule next_state_spares [OF nxt])
  finally show ?thesis .
qed

lemma selection_spares:
  assumes "execute_selection w = Inr (r, w')"
  shows "spares w w'"
proof -
  let ?w = "on_mclmac mclmac_set_radio_sleep w"
  have w: "spares w ?w"
    by (rule on_mclmac_spares, rule on_mclmac_keeps) (simp_all add: wf_simps mac_access)
  show ?thesis
  proof (cases "is_first_node (mclmac ?w)")
    case True
    with assms have "timeouts w' = timeouts w"
      by (auto simp: execute_selection_def first_node_selection_def)
    with selection_keeps [OF assms] show ?thesis by (rule spares_same)
  next
    case False
    obtain timer w1 where set: "set_timer FRAME_DURATION ?w = (timer, w1)" by (cases "set_timer FRAME_DURATION ?w")
    obtain b w2 where sel: "select_slot w1 = (b, w2)" by (cases "select_slot w1")
    then have s2: "spares w1 w2"
      by (intro spares_same select_slot_keeps) (auto simp: select_slot_def c_rand_def split: option.splits)
    from set_timer_keeps [OF set] set_timer_used(1) [OF set] have "spares ?w w1" by (simp add: spares_def)
    with w have s1: "spares w w1" by (rule spares_trans)
    show ?thesis
    proof (cases "timer = TIMEOUT_SET_ERROR")
      case True
      with assms False set s1 show ?thesis by (simp add: execute_selection_def Let_def)
    next
      case ok: False
      with assms False set sel obtain w3 w4 where
        nxt: "next_state (if \<not> b then SYNCHRONIZATION else MEDIUM_ACCESS) w2 = Inr w3"
        and wait: "busy_wait timer w3 = Inr w4" and w': "w' = unset_timer timer w4"
        by (auto simp: execute_selection_def Let_def rbind_eq_Inr simp del: set_next_state)
      have "spares w1 w4"
        using s2 next_state_spares [OF nxt] busy_wait_spares [OF wait] by (blast intro: spares_trans)
      from borrowed [OF set this] w w' show ?thesis by (blast intro: spares_trans)
    qed
  qed
qed

text \<open>
  SYNCHRONIZATION holds two timers at a time, and replaces them when they expire. \<open>U\<close> are the
  timers that others hold.
\<close>

definition sync_timers :: "nat set \<Rightarrow> sync_locals \<Rightarrow> 'k world \<Rightarrow> bool" where
  "sync_timers U l w \<longleftrightarrow> good w \<and> U \<subseteq> timers_of w \<and> unat (sync_slot_timer l) \<notin> U \<and>
     unat (sync_frame_timer l) \<notin> U"

lemma replaced:
  assumes "set_timer d (unset_timer i w) = (j, w')" and "good w" and "U \<subseteq> timers_of w" and "unat i \<notin> U"
  shows "U \<subseteq> timers_of w'" and "unat j \<notin> U"
proof -
  have g: "good (unset_timer i w)" using assms(2) by (rule keeps_good [OF unset_timer_keeps])
  have "U \<subseteq> timers_of (unset_timer i w)" using assms(2-4) by (auto simp: unset_timer_used)
  with set_timer_used [OF assms(1) g] show "U \<subseteq> timers_of w'" "unat j \<notin> U" by auto
qed

lemma sync_steps_timers:
  "sync_slot_step l w = (l', w') \<Longrightarrow> sync_timers U l w \<Longrightarrow> sync_timers U l' w'"
  "sync_frame_step l w = (l', w') \<Longrightarrow> sync_timers U l w \<Longrightarrow> sync_timers U l' w'"
proof -
  assume step: "sync_slot_step l w = (l', w')" and U: "sync_timers U l w"
  obtain j v where set: "set_timer SLOT_DURATION (unset_timer (sync_slot_timer l) w) = (j, v)"
    by (cases "set_timer SLOT_DURATION (unset_timer (sync_slot_timer l) w)")
  have "good w'" using keeps_good [OF sync_steps_keep(1) [OF step]] U by (simp add: sync_timers_def)
  with step set U replaced [OF set, of U] show "sync_timers U l' w'"
    by (cases "passed (sync_slot_timer l) w = 1") (auto simp: sync_slot_step_def sync_timers_def)
next
  assume step: "sync_frame_step l w = (l', w')" and U: "sync_timers U l w"
  obtain j v where set: "set_timer FRAME_DURATION (unset_timer (sync_frame_timer l) w) = (j, v)"
    by (cases "set_timer FRAME_DURATION (unset_timer (sync_frame_timer l) w)")
  have "good w'" using keeps_good [OF sync_steps_keep(2) [OF step]] U by (simp add: sync_timers_def)
  with step set U replaced [OF set, of U] show "sync_timers U l' w'"
    by (cases "passed (sync_frame_timer l) w = 1") (auto simp: sync_frame_step_def sync_timers_def)
qed

lemma receive_sync_timers:
  "mclmac_receive_ctrlpkt_sync testing w pkt = Inr (b, pkt', w') \<Longrightarrow> timeouts w' = timeouts w"
  by (auto simp: mclmac_receive_ctrlpkt_sync_def receive_ctrlpkt_sync_native_def c_rand_def Let_def
      rbind_eq_Inr split: if_splits)

lemma listen_sync_timers:
  "listen_sync testing n pkt w = Inr (count, pkt', w') \<Longrightarrow> timeouts w' = timeouts w"
proof (induction testing n pkt w rule: listen_sync.induct)
  case (1 testing n pkt w)
  show ?case
  proof (cases "n \<le> 10")
    case False
    with "1.prems" show ?thesis by (simp add: listen_sync.simps)
  next
    case True
    with "1.prems" obtain b pkt1 w1 where rcv: "mclmac_receive_ctrlpkt_sync testing w pkt = Inr (b, pkt1, w1)"
      and rest: "(if \<not> b then listen_sync testing (n + 1) pkt1 w1 else Inr (n, pkt1, w1)) = Inr (count, pkt', w')"
      by (subst (asm) listen_sync.simps) (auto simp: rbind_eq_Inr)
    from "1.IH" [OF True, of b pkt1 w1] rest receive_sync_timers [OF rcv] show ?thesis by (cases b) auto
  qed
qed

lemma sync_round_timers:
  assumes "sync_round testing l w = Inr (again, l', w')" and "sync_timers U l w"
  shows "sync_timers U l' w'"
proof (cases "sync_frame l < wakeup_frame (mclmac w) - 1")
  case False
  with assms show ?thesis by (simp add: sync_round_def)
next
  case True
  with assms(1) obtain b pkt w1 w2 where
    rcv: "mclmac_receive_ctrlpkt_sync testing w (sync_pkt l) = Inr (b, pkt, w1)"
    and mrg: "(if b then try_mclmac (merge_network pkt (sync_slot l)) w1 else Inr w1) = Inr w2"
    and rest: "(case sync_slot_step (l\<lparr>sync_pkt := pkt\<rparr>) w2 of (l3, w3) \<Rightarrow>
        case sync_frame_step l3 w3 of (l4, w4) \<Rightarrow> Inr (True, l4, w4)) = (Inr (again, l', w') :: (bool \<times> sync_locals \<times> 'a world) result)"
    by (auto simp: sync_round_def rbind_eq_Inr)
  obtain l3 w3 where slot: "sync_slot_step (l\<lparr>sync_pkt := pkt\<rparr>) w2 = (l3, w3)"
    by (cases "sync_slot_step (l\<lparr>sync_pkt := pkt\<rparr>) w2")
  with rest have frame: "sync_frame_step l3 w3 = (l', w')" by (auto split: prod.splits)
  note k = receive_sync_keeps [OF rcv]
  have "timeouts w2 = timeouts w" "good w \<Longrightarrow> good w2"
    using receive_sync_timers [OF rcv] mrg k merge_keeps(2) [of pkt _ w1 w2]
    by (auto simp: try_mclmac_def rbind_eq_Inr split: if_splits dest: keeps_good)
  with assms(2) have "sync_timers U (l\<lparr>sync_pkt := pkt\<rparr>) w2" by (simp add: sync_timers_def)
  from sync_steps_timers(2) [OF frame sync_steps_timers(1) [OF slot this]] show ?thesis .
qed

lemma wait_round_sync: "wait_round w = Inr w' \<Longrightarrow> sync_timers U l w \<Longrightarrow> sync_timers U l w'"
  using keeps_good [OF wait_round_keeps, of w w'] by (simp add: sync_timers_def wait_round_used)

lemma sync_loop_timers:
  assumes "run_loop (sync_round testing) l w = Inr (l', w')" and "sync_timers U l w"
  shows "sync_timers U l' w'"
  by (rule run_loop_rule [OF assms(1), where I = "sync_timers U"])
    (use assms(2) in \<open>auto dest: sync_round_timers wait_round_sync\<close>)

lemma follow_spares:
  assumes "follow_network testing pkt w = Inr (r, w')"
  shows "spares w w'"
proof -
  let ?rem = "time_remaining (controlpacket_get_current_frame pkt) (controlpacket_get_current_slot pkt)
      (own_networkTime (mclmac w))"
  obtain st w1 where set1: "set_timer ?rem w = (st, w1)" by (cases "set_timer ?rem w")
  obtain ft w2 where set2: "set_timer ?rem w1 = (ft, w2)" by (cases "set_timer ?rem w1")
  have "timers_of w \<subseteq> timers_of w'" if g: "good w"
  proof -
    have g1: "good w1" "good w2"
      using g keeps_good [OF set_timer_keeps [OF set1]] keeps_good [OF set_timer_keeps [OF set2]] by blast+
    note u1 = set_timer_used [OF set1 g] and u2 = set_timer_used [OF set2 g1(1)]
    show ?thesis
    proof (cases "st = TIMEOUT_SET_ERROR \<or> ft = TIMEOUT_SET_ERROR")
      case True
      with assms set1 set2 u1(1) u2(1) show ?thesis by (auto simp: follow_network_def Let_def)
    next
      case False
      let ?l = "\<lparr>sync_frame = controlpacket_get_current_frame pkt, sync_slot = controlpacket_get_current_slot pkt,
         sync_frequency = 0, sync_slot_timer = st, sync_frame_timer = ft, sync_pkt = pkt\<rparr>"
      from False assms set1 set2 obtain l w3 where loop: "run_loop (sync_round testing) ?l w2 = Inr (l, w3)"
        and nxt: "next_state TIMESLOT_AND_CHANNEL_SELECTION (on_mclmac mclmac_set_radio_standby
            (unset_timer (sync_slot_timer l) (unset_timer (sync_frame_timer l) w3))) = Inr w'"
        by (auto simp: follow_network_def Let_def rbind_eq_Inr simp del: set_next_state)
      from u1 u2 g1 have "sync_timers (timers_of w) ?l w2" by (auto simp: sync_timers_def)
      from sync_loop_timers [OF loop this] have "sync_timers (timers_of w) l w3" .
      moreover from this have "good (unset_timer (sync_frame_timer l) w3)"
        by (auto simp: sync_timers_def intro: keeps_good [OF unset_timer_keeps])
      ultimately show ?thesis
        using next_state_timers [OF nxt] by (auto simp: sync_timers_def unset_timer_used)
    qed
  qed
  with follow_keeps [OF assms] show ?thesis by (simp add: spares_def)
qed

lemma synchronization_spares:
  assumes "execute_synchronization testing w = Inr (r, w')"
  shows "spares w w'"
proof (cases "is_first_node (mclmac w)")
  case True
  with assms have "timeouts w' = timeouts w" by (auto simp: execute_synchronization_def first_node_sync_def)
  with synchronization_keeps [OF assms] show ?thesis by (rule spares_same)
next
  case False
  let ?w0 = "on_mclmac (\<lambda>m. (mclmac_set_radio_rx m)\<lparr>own_hopCount := 0xffff, own_networkTime := 0\<rparr>) w"
  from False assms obtain count pkt w1 where
    listen: "listen_sync testing 0 controlpacket_init ?w0 = Inr (count, pkt, w1)"
    and rest: "(if count = 11 then Inr (E_MAC_EXECUTION_FAILED, w1)
       else rbind (try_mclmac (adopt_network pkt) w1) (follow_network testing pkt)) = Inr (r, w')"
    by (auto simp: execute_synchronization_def rbind_eq_Inr)
  have t1: "timeouts w1 = timeouts w" using listen_sync_timers [OF listen] by simp
  show ?thesis
  proof (cases "count = 11")
    case True
    with rest t1 have "timeouts w' = timeouts w" by auto
    with synchronization_keeps [OF assms] show ?thesis by (rule spares_same)
  next
    case ok: False
    with rest obtain w2 where ad: "try_mclmac (adopt_network pkt) w1 = Inr w2"
      and fol: "follow_network testing pkt w2 = Inr (r, w')" by (auto simp: rbind_eq_Inr)
    have w0: "keeps w ?w0" by (rule on_mclmac_keeps) (simp_all add: wf_simps mac_access)
    from listen_sync_keeps [OF listen] w0 adopt_keeps [OF ad] ok have "keeps w w2"
      by (auto simp: keeps_def)
    moreover from ad t1 have "timeouts w2 = timeouts w" by (auto simp: try_mclmac_def rbind_eq_Inr)
    ultimately have "spares w w2" by (rule spares_same)
    also note follow_spares [OF fol]
    finally show ?thesis .
  qed
qed

section \<open>The states of the power mode machine\<close>

text \<open>What belongs to the slot timer, and steps that concern neither it nor any other timer.\<close>

definition slot_clock :: "MCLMAC_t \<Rightarrow> u32 \<times> u32" where
  "slot_clock m = (slot_timer (frame (mac m)), slot_duration (frame (mac m)))"

definition quiet :: "'k world \<Rightarrow> 'k world \<Rightarrow> bool" where
  "quiet w w' \<longleftrightarrow> keeps w w' \<and> (good w \<longrightarrow> timers_of w' = timers_of w) \<and>
     slot_clock (mclmac w') = slot_clock (mclmac w) \<and>
     cf_timer (frame (internals w')) = cf_timer (frame (internals w))"

lemma quiet_trans [trans]: "quiet w w1 \<Longrightarrow> quiet w1 w2 \<Longrightarrow> quiet w w2"
  by (auto simp: quiet_def intro: keeps_trans dest: keeps_good)

lemma quietI:
  "keeps w w' \<Longrightarrow> timeouts w' = timeouts w \<Longrightarrow> frame (internals w') = frame (internals w) \<Longrightarrow> quiet w w'"
  by (simp add: quiet_def slot_clock_def)

lemma quiet_core: "only_packets w w' \<Longrightarrow> keeps w w' \<Longrightarrow> quiet w w'"
  by (intro quietI) (simp_all add: only_packets_fields only_packetsD)

lemma wait_round_quiet: "wait_round w = Inr w' \<Longrightarrow> quiet w w'"
  by (simp add: quiet_def wait_round_keeps wait_round_used wait_round_Inr(1))

lemma sleep_quiet: "ztimer_sleep d w = Inr w' \<Longrightarrow> quiet w w'"
proof -
  assume sl: "ztimer_sleep d w = Inr w'"
  then obtain w1 where "wait_round w = Inr w1" "timeouts w' = timeouts w1" "mclmac w' = mclmac w1"
    by (auto simp: ztimer_sleep_def rbind_eq_Inr)
  with ztimer_sleep_keeps [OF sl] wait_round_quiet [of w w1] show ?thesis by (simp add: quiet_def)
qed

lemma announce_quiet:
  assumes "announce dest w = Inr w'"
  shows "quiet w w'"
proof -
  from assms obtain w1 where
    snd: "mclmac_send_cf_message (on_mclmac (\<lambda>m. on_mac (\<lambda>i. i\<lparr>cf_messages := (cf_messages i)
       [0 := cfpacket_create (cf_messages i ! 0) (mclmac_get_nodeid m) dest]\<rparr>) m) w) = Inr w1"
    and w': "w' = on_mclmac (on_mac (\<lambda>i. i\<lparr>cf_messages := (cf_messages i)
       [0 := cfpacket_clear (cf_messages i ! 0)]\<rparr>)) w1"
    by (auto simp: announce_def rbind_eq_Inr)
  from snd obtain v where sl: "ztimer_sleep 1 v = Inr w1" and v: "timeouts v = timeouts w"
    "frame (internals v) = frame (internals w)"
    by (auto simp: mclmac_send_cf_message_def Let_def cf_encode c_rand_def mac_access)
  have "good w \<Longrightarrow> timers_of v = timers_of w" "slot_clock (mclmac v) = slot_clock (mclmac w)"
    using v by (simp_all add: slot_clock_def)
  moreover have "timers_of w1 = timers_of v" if "good w"
  proof -
    from sl obtain v1 where "wait_round v = Inr v1" "timeouts w1 = timeouts v1"
      by (auto simp: ztimer_sleep_def rbind_eq_Inr)
    moreover have "wf_timeouts (timeouts v)" using that v(1) by (simp add: good_timers)
    ultimately show ?thesis by (auto simp: wait_round_def env_events_used split: list.splits)
  qed
  ultimately show ?thesis
    using announce_keeps [OF assms] sleep_quiet [OF sl] v w'
    by (simp add: quiet_def slot_clock_def on_mac_fields)
qed

lemma active_send_quiet: "active_send l w = Inr (l', w') \<Longrightarrow> quiet w w'"
  using quietI [OF keeps_refl, of w]
  by (auto simp: active_send_def Let_def rbind_eq_Inr split: if_splits
      dest!: announce_quiet intro: quiet_trans)

lemma receive_cf_quiet:
  "mclmac_receive_cf_message testing w = (b, w') \<Longrightarrow> timeouts w' = timeouts w \<and> frame (internals w') = frame (internals w)"
  by (auto simp: mclmac_receive_cf_message_def receive_cf_message_native_def Let_def c_rand_def
      set_cf_received_def random_cf_packet_def on_mac_fields mac_access split: if_splits)

lemma active_receive_quiet:
  assumes "active_receive testing c l w = Inr (l', w')"
  shows "quiet w w'"
proof (rule quietI [OF active_receive_keeps [OF assms]])
  obtain b w1 where rcv: "mclmac_receive_cf_message testing w = (b, w1)"
    by (cases "mclmac_receive_cf_message testing w")
  from assms rcv receive_cf_quiet [OF rcv]
  show "timeouts w' = timeouts w" "frame (internals w') = frame (internals w)"
    by (auto simp: active_receive_def Let_def rbind_eq_Inr mac_access split: if_splits)
qed

text \<open>ACTIVE sets the CF timer, replaces it in every contention-free slot and releases it.\<close>

definition cf_timers :: "nat set \<Rightarrow> u32 \<times> u32 \<Rightarrow> 'k world \<Rightarrow> bool" where
  "cf_timers U c w \<longleftrightarrow> good w \<and> U \<subseteq> timers_of w \<and> unat (cf_timer (frame (internals w))) \<notin> U \<and>
     slot_clock (mclmac w) = c"

lemma cf_timers_quiet: "cf_timers U c w \<Longrightarrow> quiet w w' \<Longrightarrow> cf_timers U c w'"
  by (auto simp: cf_timers_def quiet_def dest: keeps_good)

lemma arm_cf_timers:
  assumes "good w" and "U \<subseteq> timers_of w" and "slot_clock (mclmac w) = c"
  shows "cf_timers U c (arm_cf_timer w)"
proof -
  obtain i v where set: "set_timer (cf_duration (frame (internals w))) w = (i, v)"
    by (cases "set_timer (cf_duration (frame (internals w))) w")
  have "good (arm_cf_timer w)" using arm_timers_keep(2) assms(1) by (rule keeps_good)
  with assms set set_timer_used [OF set assms(1)] set_timer_frame [OF set] show ?thesis
    by (auto simp: cf_timers_def arm_cf_timer_def slot_clock_def mac_access)
qed

lemma cf_slot_step_timers:
  assumes "cf_slot_step w = (ended, w')" and "cf_timers U c w"
  shows "cf_timers U c w'"
proof -
  let ?t = "cf_timer (frame (internals w))"
  let ?u = "on_mclmac mclmac_increase_cf_slot (unset_timer ?t w)"
  have "keeps (unset_timer ?t w) ?u" by (rule on_mclmac_keeps) (simp_all add: mac_access wf_simps)
  from keeps_good [OF keeps_trans [OF unset_timer_keeps this]] assms(2) have g: "good ?u"
    by (simp add: cf_timers_def)
  have u: "cf_timers U c ?u"
    using assms(2) g by (auto simp: cf_timers_def unset_timer_used slot_clock_def mac_access)
  then have "cf_timers U c (arm_cf_timer ?u)"
    by (intro arm_cf_timers) (simp_all add: cf_timers_def)
  with u assms show ?thesis by (auto simp: cf_slot_step_def Let_def split: if_splits)
qed

lemma active_round_timers:
  assumes "active_round testing f l w = Inr (again, l', w')" and "cf_timers U c w"
  shows "cf_timers U c w'"
proof -
  obtain ended w1 where step: "cf_slot_step w = (ended, w1)" by (cases "cf_slot_step w")
  note w1 = cf_slot_step_timers [OF step assms(2)]
  from assms(1) step w1 cf_timers_quiet [OF w1] show ?thesis
    by (auto simp: active_round_def Let_def rbind_eq_Inr split: if_splits
        dest: active_send_quiet active_receive_quiet)
qed

lemma wait_round_cf: "wait_round w = Inr w' \<Longrightarrow> cf_timers U c w \<Longrightarrow> cf_timers U c w'"
  by (rule cf_timers_quiet [OF _ wait_round_quiet])

lemma active_timers:
  assumes "execute_active testing w = Inr (r, w')" and "good w"
  shows "timers_of w \<subseteq> timers_of w'" and "slot_clock (mclmac w') = slot_clock (mclmac w)"
proof -
  let ?v = "on_mclmac mclmac_start_cf_phase w"
  have v: "cf_timers (timers_of w) (slot_clock (mclmac w)) (arm_cf_timer ?v)"
    using assms(2)
    by (intro arm_cf_timers) (simp_all add: good_def mclmac_start_cf_phase_def mac_access slot_clock_def wf_simps)
  obtain l w1 where start: "active_start w = (l, w1)" by (cases "active_start w")
  then have w1: "w1 = arm_cf_timer ?v" by (simp add: active_start_def Let_def)
  with assms start obtain l' w2 where
    loop: "run_loop (active_round testing (transmitChannel (internals w))) l w1 = Inr (l', w2)"
    and dec: "active_decide l' w2 = Inr (r, w')"
    by (auto simp: execute_active_start rbind_eq_Inr)
  have "cf_timers (timers_of w) (slot_clock (mclmac w)) w2"
    by (rule run_loop_rule [OF loop, where I = "\<lambda>_. cf_timers (timers_of w) (slot_clock (mclmac w))"])
      (use v w1 in \<open>auto dest: active_round_timers wait_round_cf\<close>)
  with dec show "timers_of w \<subseteq> timers_of w'" "slot_clock (mclmac w') = slot_clock (mclmac w)"
    by (auto simp: active_decide_def rbind_eq_Inr cf_timers_def slot_clock_def on_mac_fields split: if_splits)
qed

text \<open>
  The slot timer, while the power mode machine works: \<open>U\<close> are the timers of others, and the slot
  timer is not one of them. It is running or expired, unless TRANSMIT has released it.
\<close>

abbreviation slot_timer_of :: "'k world \<Rightarrow> nat" where
  "slot_timer_of w \<equiv> unat (slot_timer (frame (internals w)))"

definition slot_apart :: "nat set \<Rightarrow> 'k world \<Rightarrow> bool" where
  "slot_apart U w \<longleftrightarrow> good w \<and> slot_duration (frame (internals w)) \<noteq> 0 \<and> U \<subseteq> timers_of w \<and>
     slot_timer_of w \<notin> U"

definition slot_held :: "nat set \<Rightarrow> 'k world \<Rightarrow> bool" where
  "slot_held U w \<longleftrightarrow> slot_apart U w \<and> slot_timer_of w \<in> timers_of w"

lemma slot_same:
  assumes "good w'" and "timers_of w' = timers_of w" and "slot_clock (mclmac w') = slot_clock (mclmac w)"
  shows "slot_apart U w \<Longrightarrow> slot_apart U w'" and "slot_held U w \<Longrightarrow> slot_held U w'"
  using assms by (auto simp: slot_apart_def slot_held_def slot_clock_def)

lemma arm_slot:
  assumes "good w" and "slot_duration (frame (internals w)) \<noteq> 0" and "U \<subseteq> timers_of w"
  shows "slot_apart U (arm_slot_timer w)"
    and "j < TIMEOUTS \<Longrightarrow> j \<notin> timers_of w \<Longrightarrow> slot_held U (arm_slot_timer w)"
proof -
  obtain i v where set: "set_timer (slot_duration (frame (internals w))) w = (i, v)"
    by (cases "set_timer (slot_duration (frame (internals w))) w")
  have g: "good (arm_slot_timer w)" using arm_timers_keep(1) assms(1) by (rule keeps_good)
  note u = set_timer_used [OF set assms(1)]
  have m: "slot_timer_of (arm_slot_timer w) = unat i" "timers_of (arm_slot_timer w) = timers_of v"
    "slot_duration (frame (internals (arm_slot_timer w))) = slot_duration (frame (internals w))"
    using set set_timer_frame [OF set] by (simp_all add: arm_slot_timer_def mac_access)
  show apart: "slot_apart U (arm_slot_timer w)"
    using g u(1,2) assms(2,3) m by (auto simp: slot_apart_def)
  show "slot_held U (arm_slot_timer w)" if "j < TIMEOUTS" "j \<notin> timers_of w"
    using apart u(3) [OF assms(2) that] m by (simp add: slot_held_def)
qed

lemma next_powermode_frame:
  "next_powermode s w = Inr w' \<Longrightarrow> timeouts w' = timeouts w \<and> slot_clock (mclmac w') = slot_clock (mclmac w)"
  by (auto simp: next_powermode_def try_mclmac_def mclmac_set_next_powermode_state_def assert_that_eq_Inr
      rbind_eq_Inr slot_clock_def)

lemma startp_slot:
  assumes "execute_startp w = Inr (r, w')" and "good w"
  shows "slot_apart (timers_of w) w'"
proof -
  from assms(1) obtain m w2 where m: "startp_settings (mclmac w) = Inr m"
    and w2: "next_powermode PASSIVE (w\<lparr>mclmac := m\<rparr>) = Inr w2" and w': "w' = arm_slot_timer w2"
    by (auto simp: execute_startp_def try_mclmac_def rbind_eq_Inr)
  have "slot_duration (frame (mac m)) \<noteq> 0" using m
    by (auto simp: startp_settings_def mclmac_set_slots_number_def mclmac_set_cf_slots_number_def
      mclmac_set_frame_duration_def mclmac_set_slot_duration_def mclmac_set_cf_duration_def
      mac_access reset_packet_counters_def rbind_eq_Inr assert_that_eq_Inr)
  moreover have "good (w\<lparr>mclmac := m\<rparr>)"
    using startp_settings_wf [of "mclmac w"] m assms(2) by (auto simp: good_def)
  ultimately show ?thesis
    using next_powermode_frame [OF w2] keeps_good [OF next_powermode_keeps [OF w2]] w'
    by (auto simp: slot_clock_def intro!: arm_slot(1))
qed

lemma passive_slot:
  assumes "execute_passive os w = Inr (r, w')" and "slot_apart U w"
  shows "slot_held U w'"
proof -
  let ?w0 = "on_mclmac (\<lambda>m. mclmac_set_radio_sleep (mclmac_set_current_cf_slot m 0)) w"
  from assms(1) obtain l w1 where loop: "run_loop (passive_round os) () ?w0 = Inr (l, w1)"
    and nxt: "next_powermode ACTIVE (arm_slot_timer (on_mclmac advance_slot w1)) = Inr w'"
    by (auto simp: execute_passive_def rbind_eq_Inr)
  have k: "keeps w ?w0" by (rule on_mclmac_keeps) (simp_all add: mac_access wf_simps)
  then have w0: "slot_apart U ?w0"
    using assms(2) keeps_good [OF k] by (simp add: slot_apart_def mac_access)
  have w1: "slot_apart U w1 \<and> slot_timer_of w1 < TIMEOUTS \<and> slot_timer_of w1 \<notin> timers_of w1"
  proof (rule run_loop_rule [OF loop, where I = "\<lambda>_. slot_apart U"])
    show "slot_apart U v1" if "slot_apart U v" "wait_round v = Inr v1" for v v1 :: "'a world"
      using that wait_round_quiet [OF that(2)] by (auto simp: slot_apart_def quiet_def slot_clock_def dest: keeps_good)
    show "if again then slot_apart U v1 else slot_apart U v1 \<and> slot_timer_of v1 < TIMEOUTS \<and>
        slot_timer_of v1 \<notin> timers_of v1"
      if v: "slot_apart U v" and round: "passive_round os l v = Inr (again, l1, v1)" for l v again l1 v1
    proof -
      let ?t = "slot_timer (frame (internals v))"
      note fr = passive_round_frame [OF round]
      have g: "good v" "good v1"
        using v keeps_good [OF passive_round_keeps [OF round]] by (simp_all add: slot_apart_def)
      have same: "frame (internals v1) = frame (internals v)" by (rule core_fields(16) [OF fr(1)])
      have "timers_of v1 = (if again then timers_of v else timers_of v - {unat ?t})"
        using fr(4) unset_timer_used [OF g(1)] by simp
      moreover have "unat ?t < TIMEOUTS" if "\<not> again"
        using fr(3) that by (cases "unat ?t < TIMEOUTS") simp_all
      ultimately show ?thesis using v g(2) same by (auto simp: slot_apart_def)
    qed
  qed (fact w0)
  let ?v = "on_mclmac advance_slot w1"
  have v: "good ?v" "slot_duration (frame (internals ?v)) \<noteq> 0" "U \<subseteq> timers_of ?v"
    using w1 keeps_good [OF advance_slot_keeps, of w1]
    by (auto simp: slot_apart_def advance_slot_def Let_def mac_access)
  have held: "slot_held U (arm_slot_timer ?v)"
    by (rule arm_slot(2) [OF v, of "slot_timer_of w1"]) (use w1 in simp_all)
  moreover from held have "good w'"
    using keeps_good [OF next_powermode_keeps [OF nxt]] by (simp add: slot_held_def slot_apart_def)
  ultimately show ?thesis
    using next_powermode_frame [OF nxt] by (intro slot_same(2) [of w' "arm_slot_timer ?v"]) simp_all
qed

lemma active_slot:
  assumes "execute_active testing w = Inr (r, w')" and "slot_held U w"
  shows "slot_held U w'"
proof -
  have g: "good w" using assms(2) by (simp add: slot_held_def slot_apart_def)
  from active_timers [OF assms(1) g] keeps_good [OF active_keeps [OF assms(1)] g] assms(2)
  show ?thesis by (auto simp: slot_held_def slot_apart_def slot_clock_def)
qed

text \<open>TRANSMIT releases the slot timer when it expires before all packets are sent.\<close>

lemma transmit_round_slot:
  assumes v: "slot_apart U v" and round: "transmit_round l v = Inr (again, l1, v1)"
  shows "slot_apart U v1"
proof -
  have "good v1" using v keeps_good [OF transmit_round_keeps [OF round]] by (simp add: slot_apart_def)
  moreover have "timeouts v1 = timeouts v \<or> timeouts v1 = timeouts (unset_timer (slot_timer (frame (internals v))) v)"
    using round by (auto simp: transmit_round_def Let_def rbind_eq_Inr split: if_splits
      dest!: send_data_only_packets only_packetsD(2))
  ultimately show ?thesis
    using v core_fields(16) [OF transmit_round_frame(1) [OF round]]
      unset_timer_used [of v "slot_timer (frame (internals v))"]
    by (auto simp: slot_apart_def)
qed

lemma transmit_slot:
  assumes "execute_transmit w = Inr (r, w')" and "slot_held U w"
  shows "slot_apart U w'" and "slot_held U w' \<or> r = E_PM_EXECUTION_SUCCESS"
proof -
  from assms(1) obtain w1 where snd_ctrl: "mclmac_send_control_packet (on_mclmac
      (\<lambda>m. mclmac_create_control_packet (snd (mclmac_start_split_phase m TRANSMIT))) w) = Inr w1"
    by (auto simp: execute_transmit_def rbind_eq_Inr)
  then have w1: "timeouts w1 = timeouts w" "slot_clock (mclmac w1) = slot_clock (mclmac w)"
    "collisionDetected (internals w1) = collisionDetected (internals w)"
    by (auto simp: mclmac_send_control_packet_def c_rand_def rbind_eq_Inr mac_access slot_clock_def
        mclmac_create_control_packet_def mclmac_start_split_phase_def)
  have g: "good w" using assms(2) by (simp add: slot_held_def slot_apart_def)
  have g': "good w'" by (rule keeps_good [OF transmit_keeps [OF assms(1)] g])
  have "slot_apart U w' \<and> (slot_held U w' \<or> r = E_PM_EXECUTION_SUCCESS)"
  proof (cases "collisionDetected (internals w)")
    case True
    with assms(1) snd_ctrl w1 have "timeouts w' = timeouts w" "slot_clock (mclmac w') = slot_clock (mclmac w)"
      by (auto simp: execute_transmit_def rbind_eq_Inr Let_def slot_clock_def on_mac_fields
          forget_collision_def split: if_splits)
    then have "slot_held U w'" by (intro slot_same(2) [OF g' _ _ assms(2)]) simp_all
    then show ?thesis by (simp add: slot_held_def)
  next
    case False
    with assms(1) snd_ctrl w1 obtain l w2 where loop: "run_loop transmit_round () w1 = Inr (l, w2)"
      and w': "w' = on_mclmac (nextPowerMode_update (\<lambda>_. PASSIVE)) w2" "r = E_PM_EXECUTION_SUCCESS"
      by (auto simp: execute_transmit_def rbind_eq_Inr)
    have "keeps w w1"
      by (rule keeps_trans [OF start_split_keeps send_control_keeps]) (use snd_ctrl in simp)
    then have "good w1" using g by (rule keeps_good)
    then have "slot_apart U w1"
      using slot_same(1) [of w1 w U] w1 assms(2) by (simp add: slot_held_def)
    then have "slot_apart U w2"
    proof (rule run_loop_rule [OF loop, where I = "\<lambda>_. slot_apart U" and P = "\<lambda>_. slot_apart U"])
      show "slot_apart U v1" if "slot_apart U v" "wait_round v = Inr v1" for v v1 :: "'a world"
        using that wait_round_quiet [OF that(2)]
        by (auto simp: slot_apart_def quiet_def slot_clock_def dest: keeps_good)
      show "if again then slot_apart U v1 else slot_apart U v1"
        if "slot_apart U v" "transmit_round l v = Inr (again, l1, v1)" for l v again l1 v1
        using transmit_round_slot [OF that] by simp
    qed
    with g' w' show ?thesis by (simp add: slot_apart_def)
  qed
  then show "slot_apart U w'" "slot_held U w' \<or> r = E_PM_EXECUTION_SUCCESS" by blast+
qed

lemma receive_slot:
  assumes "execute_receive testing w = Inr (r, w')" and "slot_held U w"
  shows "slot_held U w'"
proof -
  from assms(1) obtain count w1 where listen: "listen_control testing 1 w = Inr (count, w1)"
    by (auto simp: execute_receive_def rbind_eq_Inr)
  have g: "good w" using assms(2) by (simp add: slot_held_def slot_apart_def)
  have "quiet w w1"
    using listen_control_heard [OF listen] listen_control_keeps [OF listen]
    by (auto simp: heard_def on_mac_fields intro!: quietI)
  moreover have "quiet w1 w'"
  proof -
    have loop: "quiet w1 v" if "run_loop receive_round n w1 = Inr (l, v)" for n l v
    proof (rule run_loop_rule [OF that, where I = "\<lambda>_. quiet w1"])
      show "if again then quiet w1 v2 else quiet w1 v2"
        if "quiet w1 v1" "receive_round n v1 = Inr (again, l2, v2)" for n v1 again l2 v2
        using that receive_round_keeps [OF that(2)]
        by (auto simp: receive_round_def rbind_eq_Inr split: if_splits
            dest!: receive_data_only_packets quiet_core intro: quiet_trans)
    qed (auto intro: quiet_trans wait_round_quiet quietI)
    have next_quiet: "quiet v w'" if "next_powermode s v = Inr w'" for s and v :: "'a world"
      using next_powermode_frame [OF that] next_powermode_keeps [OF that] that
      by (auto simp: quiet_def next_powermode_def try_mclmac_def mclmac_set_next_powermode_state_def
          assert_that_eq_Inr rbind_eq_Inr)
    from assms(1) listen show ?thesis
      by (auto simp: execute_receive_def Let_def rbind_eq_Inr simp del: set_next_powermode
          split: if_splits dest!: next_quiet loop intro: quiet_trans)
  qed
  ultimately have "quiet w w'" by (rule quiet_trans)
  with keeps_good [of w w'] g show ?thesis
    by (intro slot_same(2) [OF _ _ _ assms(2)]) (simp_all add: quiet_def)
qed

text \<open>The slot timer through the loop of MEDIUM ACCESS. A released timer ends in PASSIVE.\<close>

definition access_timers :: "nat set \<Rightarrow> 'k world \<Rightarrow> bool" where
  "access_timers U w \<longleftrightarrow> slot_apart U w \<and> working (powerMode (mclmac w)) \<and>
     (powerMode (mclmac w) \<noteq> PASSIVE \<longrightarrow> slot_held U w)"

lemma powermode_slot:
  assumes "mclmac_execute_powermode_state os testing w = Inr (r, w')" and "access_timers U w"
  shows "slot_apart U w' \<and> (slot_held U w' \<or> r = E_PM_EXECUTION_SUCCESS \<and> nextPowerMode (mclmac w') = PASSIVE)"
  using assms passive_slot [of os w r w' U] active_slot [of testing w r w' U]
    receive_slot [of testing w r w' U] transmit_slot [of w r w' U] transmit_result [of w r w']
  by (cases "powerMode (mclmac w)")
    (auto simp: access_timers_def working_def mclmac_execute_powermode_state_def assert_that_eq_Inr
      slot_held_def split: if_splits)

lemma access_round_timers:
  assumes "access_round os testing l w = Inr (again, l', w')" and "access_timers U w"
  shows "if again then access_timers U w' else slot_held U w'"
proof -
  from assms(1) obtain r w1 where ex: "mclmac_execute_powermode_state os testing w = Inr (r, w1)"
    by (auto simp: access_round_def rbind_eq_Inr)
  note p = powermode_slot [OF ex assms(2)]
  note g' = keeps_good [OF access_round_keeps [OF assms(1)]]
  have w: "working (powerMode (mclmac w))" "good w" using assms(2) by (simp_all add: access_timers_def slot_apart_def)
  note res = powermode_step_result [OF ex working_running [OF w(1), THEN conjunct1]]
  note round = access_round_result [OF assms(1) w(1)]
  have same: "timeouts w' = timeouts w1 \<and> slot_clock (mclmac w') = slot_clock (mclmac w1)"
    using assms(1) ex res
    by (cases r) (auto simp: access_round_def rbind_eq_Inr update_powermode_def powermode_update_spec
        slot_clock_def note_collision_def on_mac_fields)
  with g' w(2) p have apart: "slot_apart U w'" and held: "slot_held U w1 \<Longrightarrow> slot_held U w'"
    by (auto intro: slot_same(1) [of w' w1] slot_same(2) [of w' w1])
  show ?thesis
  proof (cases "r = E_PM_EXECUTION_SUCCESS")
    case True
    with assms(1) ex have w': "again" "w' = update_powermode w1" by (auto simp: access_round_def)
    from res True working_running [OF w(1)]
    have "powermode_edge (powerMode (mclmac w1)) (nextPowerMode (mclmac w1))" by auto
    from update_powermode_edge [OF this] p held apart w' round show ?thesis
      by (auto simp: access_timers_def)
  next
    case False
    with p have "slot_held U w'" by (auto intro: held)
    with apart round show ?thesis by (auto simp: access_timers_def)
  qed
qed

lemma access_loop_timers:
  assumes "run_loop (access_round os testing) l w = Inr (l', w')" and "access_timers U w"
  shows "slot_held U w'"
proof (rule run_loop_rule [OF assms(1), where I = "\<lambda>_. access_timers U" and P = "\<lambda>_. slot_held U"])
  show "access_timers U v1" if v: "access_timers U v" and round: "wait_round v = Inr v1" for v v1 :: "'a world"
  proof -
    note q = wait_round_quiet [OF round]
    from v have "good v" by (simp add: access_timers_def slot_apart_def)
    with q have same: "good v1" "timers_of v1 = timers_of v" "slot_clock (mclmac v1) = slot_clock (mclmac v)"
      by (auto simp: quiet_def dest: keeps_good)
    from v slot_same [OF same, of U] wait_round_Inr(1) [OF round] show ?thesis
      by (simp add: access_timers_def)
  qed
  show "if again then access_timers U v1 else slot_held U v1"
    if "access_timers U v" "access_round os testing l v = Inr (again, l1, v1)" for l v again l1 v1
    by (rule access_round_timers [OF that(2,1)])
qed (fact assms(2))

lemma access_spends:
  assumes "execute_medium_access os testing w = Inr (r, w')" and "good w"
  shows "timers_of w \<subset> timers_of w'"
proof -
  let ?U = "timers_of w"
  let ?w0 = "on_mclmac mclmac_init_powermode_state_machine w"
  from assms(1) obtain l1 w1 l2 w2 r3 where
    start: "run_loop (start_round os testing) () ?w0 = Inr (l1, w1)"
    and loop: "run_loop (access_round os testing) () (update_powermode w1) = Inr (l2, w2)"
    and fin: "mclmac_execute_powermode_state os testing (update_powermode w2) = Inr (r3, w')"
    by (auto simp: execute_medium_access_def rbind_eq_Inr)
  have "keeps w ?w0"
    by (rule on_mclmac_keeps) (simp_all add: mclmac_init_powermode_state_machine_def wf_simps)
  then have w0: "good ?w0" "timers_of ?w0 = ?U" "powerMode (mclmac ?w0) = STARTP"
    using assms(2) by (auto simp: mclmac_init_powermode_state_machine_def dest: keeps_good)
  have w1: "slot_apart ?U w1 \<and> powerMode (mclmac w1) = STARTP \<and> nextPowerMode (mclmac w1) = PASSIVE"
  proof (rule run_loop_rule [OF start, where I = "\<lambda>_ v. good v \<and> timers_of v = ?U \<and> powerMode (mclmac v) = STARTP"])
    show "good v1 \<and> timers_of v1 = ?U \<and> powerMode (mclmac v1) = STARTP"
      if "good v \<and> timers_of v = ?U \<and> powerMode (mclmac v) = STARTP" "wait_round v = Inr v1" for v v1 :: "'a world"
      using that wait_round_Inr(1) [OF that(2)] wait_round_used [OF that(2)] keeps_good [OF wait_round_keeps [OF that(2)]]
      by simp
    show "if again then good v1 \<and> timers_of v1 = ?U \<and> powerMode (mclmac v1) = STARTP
        else slot_apart ?U v1 \<and> powerMode (mclmac v1) = STARTP \<and> nextPowerMode (mclmac v1) = PASSIVE"
      if v: "good v \<and> timers_of v = ?U \<and> powerMode (mclmac v) = STARTP"
        and round: "start_round os testing l v = Inr (again, l', v1)" for l v again l' v1
    proof -
      from round v obtain r1 where ex: "execute_startp v = Inr (r1, v1)" and "\<not> again"
        by (auto simp: start_round_def rbind_eq_Inr mclmac_execute_powermode_state_def assert_that_eq_Inr
            dest: startp_result split: if_splits)
      with startp_result [OF ex] startp_slot [OF ex] v show ?thesis by simp
    qed
  qed (use w0 in simp)
  then have "powermode_edge (powerMode (mclmac w1)) (nextPowerMode (mclmac w1))" by simp
  from update_powermode_edge [OF this] w1 keeps_good [OF update_powermode_keeps, of w1]
  have u1: "access_timers ?U (update_powermode w1)"
    by (auto simp: access_timers_def slot_apart_def working_def update_powermode_def)
  from access_loop_timers [OF loop u1] have held: "slot_held ?U w2" .
  have "working (powerMode (mclmac (update_powermode w1)))" using u1 by (simp add: access_timers_def)
  from access_loop [OF loop this] have "powermode_edge (powerMode (mclmac w2)) (nextPowerMode (mclmac w2))"
    "nextPowerMode (mclmac w2) = FINISHP" by auto
  from update_powermode_edge [OF this(1)] this(2) fin have "timeouts w' = timeouts w2"
    by (auto simp: mclmac_execute_powermode_state_def assert_that_eq_Inr execute_finishp_def update_powermode_def)
  with held show ?thesis by (auto simp: slot_held_def slot_apart_def)
qed

text \<open>
  C5. Every access to the medium loses a timer. When MEDIUM ACCESS returns, every timer that was
  in use before is still in use, and at least one more: the slot timer, which STARTP set, PASSIVE
  renewed in every slot and FINISHP leaves running.
\<close>

theorem medium_access_loses_timer:
  assumes "execute_medium_access os testing w = Inr (r, w')"
    and "wf_node (mclmac w)" and "wf_timeouts (timeouts w)"
  shows "used (timeouts w) \<subset> used (timeouts w')"
  using access_spends [OF assms(1)] assms(2,3) by (simp add: good_def)

lemma medium_access_loses_timer_witness:
  "\<exists>w'. execute_medium_access inbox_rtos True colliding = Inr (E_MAC_EXECUTION_SUCCESS, w') \<and>
     used (timeouts colliding) \<subset> used (timeouts w')"
proof -
  obtain w' where run: "execute_medium_access inbox_rtos True colliding = Inr (E_MAC_EXECUTION_SUCCESS, w')"
    using access_run [OF colliding_ready] by blast
  have "wf_node (mclmac colliding)" "wf_timeouts (timeouts colliding)"
    using sample_good by (simp_all add: colliding_def good_def wf_simps on_mac_def)
  from medium_access_loses_timer [OF run this] run show ?thesis by blast
qed

section \<open>A node at work\<close>

lemma mac_step_spends:
  assumes "mclmac_execute_mac_state_machine os testing pid w = Inr (r, w')"
  shows "spares w w'"
    and "good w \<Longrightarrow> currentState (mclmac w) = MEDIUM_ACCESS \<Longrightarrow> timers_of w \<subset> timers_of w'"
proof -
  have access: "execute_medium_access os testing w = Inr (r, w') \<Longrightarrow> spares w w'"
    using access_spends [of os testing w r w'] medium_access_keeps [of os testing w r w']
    by (auto simp: spares_def)
  with assms show "spares w w'"
    by (cases "currentState (mclmac w)")
      (auto simp: mclmac_execute_mac_state_machine_def dest: start_spares initialization_spares
        synchronization_spares selection_spares)
  show "timers_of w \<subset> timers_of w'" if "good w" "currentState (mclmac w) = MEDIUM_ACCESS"
    using assms that access_spends [of os testing w r w'] by (simp add: mclmac_execute_mac_state_machine_def)
qed

lemma node_step_spends:
  assumes "node_step os testing pid w w'" and "good w"
  shows "card (timers_of w) + (if currentState (mclmac w) = MEDIUM_ACCESS then 1 else 0) \<le> card (timers_of w')"
proof -
  from assms(1) obtain r w1 where "timeouts w' = timeouts w1"
    and ex: "mclmac_execute_mac_state_machine os testing pid w = Inr (r, w1)"
    by (elim node_stepE) simp
  with mac_step_spends [OF ex] assms(2) show ?thesis
    using psubset_card_mono [OF finite_used [of "timeouts w'"], of "timers_of w"]
      card_mono [OF finite_used [of "timeouts w'"], of "timers_of w"]
    by (auto simp: spares_def)
qed

definition accesses :: "'k world list \<Rightarrow> nat" where
  "accesses ws = length (filter (\<lambda>w. currentState (mclmac w) = MEDIUM_ACCESS) ws)"

lemma accesses_spend:
  "successively (node_step os testing pid) (w # ws) \<Longrightarrow> good w \<Longrightarrow>
    accesses (butlast (w # ws)) + card (timers_of w) \<le> card (timers_of (last (w # ws)))"
proof (induction ws arbitrary: w)
  case (Cons v ws)
  then have step: "node_step os testing pid w v" and rest: "successively (node_step os testing pid) (v # ws)"
    by simp_all
  have "good v" using keeps_good [OF node_step_keeps [OF step] Cons.prems(2)] .
  from Cons.IH [OF rest this] node_step_spends [OF step Cons.prems(2)] show ?case
    by (auto simp: accesses_def split: if_splits)
qed (simp add: accesses_def)

text \<open>
  C4. A node gets access to the medium at most twenty times. Because each access loses one of the
  twenty timers and no state gives back a timer that it did not set, in every run of a node whose
  data are well formed, however long and whatever the environment does, the completed steps that
  are accesses to the medium are at most as many as there are free timers at the beginning.
\<close>

theorem at_most_twenty_accesses:
  assumes "successively (node_step os testing pid) (w # ws)"
    and "wf_node (mclmac w)" and "wf_timeouts (timeouts w)"
  shows "accesses (butlast (w # ws)) + card (used (timeouts w)) \<le> 20"
proof -
  have "accesses (butlast (w # ws)) + card (timers_of w) \<le> card (timers_of (last (w # ws)))"
    using accesses_spend [OF assms(1)] assms(2,3) by (simp add: good_def)
  also have "\<dots> \<le> 20" using card_used [of "timeouts (last (w # ws))"] by simp
  finally show ?thesis .
qed

text \<open>One access, which ends in a collision.\<close>

lemma at_most_twenty_accesses_witness:
  "\<exists>v. successively (node_step inbox_rtos True 1) [colliding, v] \<and> accesses (butlast [colliding, v]) = 1 \<and>
     accesses (butlast [colliding, v]) + card (used (timeouts colliding)) \<le> 20"
proof -
  obtain w' where run: "execute_medium_access inbox_rtos True colliding = Inr (E_MAC_EXECUTION_SUCCESS, w')"
    using access_run [OF colliding_ready] by blast
  have state: "currentState (mclmac colliding) = MEDIUM_ACCESS" by (simp add: colliding_def)
  then have ex: "mclmac_execute_mac_state_machine inbox_rtos True 1 colliding = Inr (E_MAC_EXECUTION_SUCCESS, w')"
    using run by (simp add: mclmac_execute_mac_state_machine_def)
  have "\<exists>p. mclmac_update_mac_state_machine (mclmac w') = Inr p" by (simp add: mac_update_spec)
  then obtain e m where "mclmac_update_mac_state_machine (mclmac w') = Inr (e, m)" by auto
  from node_step.step [OF ex this, of "[]"]
  have run2: "successively (node_step inbox_rtos True 1) [colliding, w'\<lparr>mclmac := m, script := []\<rparr>]" by simp
  have "wf_node (mclmac colliding)" "wf_timeouts (timeouts colliding)"
    using sample_good by (simp_all add: colliding_def good_def wf_simps on_mac_def)
  from at_most_twenty_accesses [OF run2 this] run2 state show ?thesis
    by (intro exI [of _ "w'\<lparr>mclmac := m, script := []\<rparr>"]) (simp add: accesses_def)
qed

end
