(* ===== verification/Slot_Sharing.thy ===== *)
theory Slot_Sharing
  imports Machine_Runs
begin

text \<open>
  What a node tells its neighbours about the slot it has taken. Selection, the control packet, its
  encoding and decoding, and the adoption by a node that joins are put together here: the joining
  node searches the very bitmaps that the first searched, unless those were marked in between.
\<close>

section \<open>Selection\<close>

text \<open>The number the code gives to the free slot \<open>s\<close>, see \<open>select_slot_spec\<close>.\<close>

definition slot_number :: "nat \<Rightarrow> u8" where
  "slot_number s = of_nat (if s < 8 then s else s - 6)"

abbreviation occupied :: "'k world \<Rightarrow> u8 list list" where
  "occupied w \<equiv> occupied_frequencies_slots (mclmac w)"

lemma selected:
  assumes "execute_selection w = Inr (E_MAC_EXECUTION_SUCCESS, w')"
    and "nextState (mclmac w') = MEDIUM_ACCESS" and "\<not> is_first_node (mclmac w)"
  shows "occupied w' = occupied w" and "frame (internals w') = frame (internals w)"
    and "\<exists>s. first_free_slot (occupied w) = Some s \<and> selectedSlot (internals w') = slot_number s"
proof -
  let ?w = "on_mclmac mclmac_set_radio_sleep w"
  obtain i w1 where arm: "set_timer FRAME_DURATION ?w = (i, w1)" by (cases "set_timer FRAME_DURATION ?w")
  obtain b w2 where sel: "select_slot w1 = (b, w2)" by (cases "select_slot w1")
  have m1: "mclmac w1 = mclmac w" using set_timer_frame [OF arm] by (simp add: mac_access)
  have nxt: "next_state (if \<not> b then SYNCHRONIZATION else MEDIUM_ACCESS) w2 =
      Inr (on_mclmac (nextState_update (\<lambda>_. if \<not> b then SYNCHRONIZATION else MEDIUM_ACCESS)) w2)"
    by simp
  from assms(1,3) arm sel nxt have m: "mclmac w' = (mclmac w2)
      \<lparr>nextState := if \<not> b then SYNCHRONIZATION else MEDIUM_ACCESS\<rparr>"
    by (auto simp: execute_selection_def Let_def rbind_eq_Inr mac_access dest!: busy_wait_frame split: if_splits)
  with assms(2) have b by (auto split: if_splits)
  with sel obtain s where s: "first_free_slot (occupied w1) = Some s"
    "mclmac w2 = mclmac_set_selected_slot (mclmac_set_transmit_channel (mclmac w1)
       (frequencies (mclmac w1) ! (rand_values w1 0 mod MAX_NUMBER_FREQS))) (slot_number s)"
    by (auto simp: select_slot_result slot_number_def c_rand_def split: option.splits)
  with m m1 show "occupied w' = occupied w" "frame (internals w') = frame (internals w)"
    "\<exists>s. first_free_slot (occupied w) = Some s \<and> selectedSlot (internals w') = slot_number s"
    by (simp_all add: mac_access)
qed

lemma first_node_selected:
  assumes "execute_selection w = Inr (E_MAC_EXECUTION_SUCCESS, w')" and "is_first_node (mclmac w)"
  shows "occupied w' = (occupied w)[0 := (occupied w ! 0)[0 := 0x80]]" and "selectedSlot (internals w') = 0"
  using assms by (auto simp: execute_selection_def first_node_selection_def mac_access)

section \<open>From one node to the other\<close>

text \<open>The bytes of the control packet that a node makes of its state, with the random byte \<open>rnd\<close>.\<close>

definition broadcast :: "u32 \<Rightarrow> MCLMAC_t \<Rightarrow> u8 list result" where
  "broadcast rnd m =
     controlpacket_get_packet_bytestring RIOT (\<lambda>_. 0) rnd (ctrlpkt (mac (mclmac_create_control_packet m)))"

text \<open>A node that receives the bytes and adopts what they say.\<close>

definition join_network :: "u8 list \<Rightarrow> 'k world \<Rightarrow> 'k world result" where
  "join_network bs w =
     rbind (controlpacket_construct_packet_from_bytestring RIOT controlpacket_init bs) (\<lambda>pkt.
       try_mclmac (adopt_network pkt) w)"

lemma joined:
  assumes "wf_bitmap (occupied_frequencies_slots m)" and "broadcast rnd m = Inr bs" and "join_network bs w = Inr w'"
  shows "occupied w' = occupied_frequencies_slots m" "is_first_node (mclmac w') = is_first_node (mclmac w)"
proof -
  let ?pkt = "ctrlpkt (mac (mclmac_create_control_packet m))"
  have occ: "occupied_slots ?pkt = occupied_frequencies_slots m"
    by (simp add: mclmac_create_control_packet_def controlpacket_create_def on_mac_def)
  with assms(1) have wf: "wf_bitmap (occupied_slots ?pkt)" by simp
  from assms(2) obtain rest where "bs = control_bytes ?pkt @ rest"
    by (auto simp: broadcast_def control_encode)
  with assms(3) have "try_mclmac (adopt_network (?pkt\<lparr>networkTime := received_time (networkTime ?pkt)\<rparr>)) w = Inr w'"
    by (simp add: join_network_def control_decode [OF wf])
  with occ show "occupied w' = occupied_frequencies_slots m"
    "is_first_node (mclmac w') = is_first_node (mclmac w)"
    by (auto simp: try_mclmac_def adopt_network_def mark_neighbor_def Let_def rbind_eq_Inr split: if_splits)
qed

lemma join_succeeds:
  assumes "wf_bitmap (occupied_frequencies_slots m)" and "broadcast rnd m = Inr bs"
    and "unat (current_slot (frame (mac m))) div 8 < length (selected_slots_neighbors (mclmac w))"
  shows "\<exists>w'. join_network bs w = Inr w' \<and> timeouts w' = timeouts w \<and> script w' = script w"
proof -
  let ?pkt = "ctrlpkt (mac (mclmac_create_control_packet m))"
  have pkt: "occupied_slots ?pkt = occupied_frequencies_slots m" "currentSlot ?pkt = current_slot (frame (mac m))"
    by (simp_all add: mclmac_create_control_packet_def controlpacket_create_def on_mac_def)
  with assms(1) have wf: "wf_bitmap (occupied_slots ?pkt)" by simp
  from assms(2) obtain rest where "bs = control_bytes ?pkt @ rest"
    by (auto simp: broadcast_def control_encode)
  with assms(3) pkt show ?thesis
    by (simp add: join_network_def control_decode [OF wf] try_mclmac_def adopt_network_def mark_neighbor_def Let_def)
qed

lemma slot_number_0: "s < 16 \<Longrightarrow> slot_number s = 0 \<longleftrightarrow> s = 0"
proof -
  assume "s < 16"
  then have "(if s < 8 then s else s - 6) < 256" by auto
  then have "(if s < 8 then s else s - 6) < 2 ^ LENGTH(8)" by simp
  from unat_of_nat_small [OF this] have "unat (slot_number s) = (if s < 8 then s else s - 6)"
    unfolding slot_number_def .
  then show ?thesis by (auto simp: unat_eq_zero split: if_splits)
qed

text \<open>
  C15. A node keeps its slot to itself. When a node \<open>a\<close> has selected a slot, broadcasts a control
  packet, and a node \<open>b\<close> that adopts the packet selects a slot in turn, then \<open>b\<close> takes the slot of
  \<open>a\<close>: only the first node of a network marks its slot as occupied in the bitmaps it broadcasts,
  and only then is the slot of \<open>b\<close> another one.
\<close>

theorem joining_node_shares_slot:
  assumes "execute_selection a = Inr (E_MAC_EXECUTION_SUCCESS, a')" and "nextState (mclmac a') = MEDIUM_ACCESS"
    and "wf_bitmap (occupied_frequencies_slots (mclmac a))"
    and "broadcast rnd (mclmac a') = Inr bs" and "join_network bs b0 = Inr b"
    and "\<not> is_first_node (mclmac b0)"
    and "execute_selection b = Inr (E_MAC_EXECUTION_SUCCESS, b')" and "nextState (mclmac b') = MEDIUM_ACCESS"
  shows "selectedSlot (internals b') = selectedSlot (internals a') \<longleftrightarrow> \<not> is_first_node (mclmac a)"
proof (cases "is_first_node (mclmac a)")
  case True
  note a = first_node_selected [OF assms(1) True]
  have wf: "wf_bitmap (occupied a')"
    using assms(3) unfolding a(1) by (auto simp: wf_bitmap_def dest!: set_update_subset_insert [THEN subsetD])
  note b = joined [OF wf assms(4,5)]
  obtain s where s: "first_free_slot (occupied b) = Some s" "selectedSlot (internals b') = slot_number s"
    using selected(3) [OF assms(7,8)] assms(6) b(2) by auto
  have "\<not> slot_free (occupied b) 0"
    using assms(3) a(1) b(1) by (auto simp: slot_free_def wf_bitmap_def intro!: exI [of _ 0])
  with first_free_slot_Some [OF s(1)] have "s \<noteq> 0" "s < 16" by (metis, simp)
  with True a(2) s(2) slot_number_0 show ?thesis by auto
next
  case False
  note a = selected [OF assms(1,2) False]
  have "occupied b = occupied a" using joined(1) [OF _ assms(4,5)] assms(3) a(1) by simp
  with a(3) selected(3) [OF assms(7,8)] assms(6) joined(2) [OF _ assms(4,5)] assms(3) a(1) False
  show ?thesis by auto
qed

section \<open>Two nodes\<close>

text \<open>A free timer, and an environment in which the frame ends.\<close>

lemma frame_timer_expires:
  assumes "set_timer FRAME_DURATION w = (i, w1)" and "wf_timeouts (timeouts w)" and "some_free_slot (timeouts w)"
    and "script w2 = [[Elapse FRAME_DURATION, Ztimer_interrupt]]" and "timeouts w2 = timeouts w1" and "clock w2 = clock w"
  shows "i \<noteq> TIMEOUT_SET_ERROR" and "\<exists>w3. busy_wait i w2 = Inr w3"
proof -
  have set: "timeout_set (timeouts w) (clock w) FRAME_DURATION = (i, timeouts w1)"
    using assms(1) by (auto simp: set_timer_def split: prod.splits)
  show i: "i \<noteq> TIMEOUT_SET_ERROR"
    using set_with_free_slot(1) [OF assms(2,3) _ set] by (simp add: FRAME_DURATION_def)
  have "timeout_passed (timeout_fire (timeouts w1) (clock w + FRAME_DURATION)) i = 1"
    using timeout_expires [OF assms(2) _ _ set i, of FRAME_DURATION] by (simp add: FRAME_DURATION_def)
  then have "run_loop (\<lambda>(_ :: unit) w. Inr (passed i w \<noteq> 1, (), w)) () w2 =
      Inr ((), (fold env_event [Elapse FRAME_DURATION, Ztimer_interrupt] w2)\<lparr>script := []\<rparr>)"
    by (intro run_loop_stop [OF assms(4)]) (simp add: assms(5,6))
  then show "\<exists>w3. busy_wait i w2 = Inr w3" by (simp add: busy_wait_def)
qed

lemma selection_run:
  assumes "\<not> is_first_node (mclmac w)" and "wf_timeouts (timeouts w)" and "some_free_slot (timeouts w)"
    and "script w = [[Elapse FRAME_DURATION, Ztimer_interrupt]]" and "first_free_slot (occupied w) = Some s"
  shows "\<exists>w'. execute_selection w = Inr (E_MAC_EXECUTION_SUCCESS, w') \<and> nextState (mclmac w') = MEDIUM_ACCESS"
proof -
  let ?w = "on_mclmac mclmac_set_radio_sleep w"
  obtain i w1 where arm: "set_timer FRAME_DURATION ?w = (i, w1)" by (cases "set_timer FRAME_DURATION ?w")
  have w1: "mclmac w1 = mclmac w" "script w1 = script w" "clock w1 = clock w"
    using set_timer_frame [OF arm] arm by (auto simp: mac_access set_timer_def split: prod.splits)
  obtain w2 where sel: "select_slot w1 = (True, w2)" and w2: "script w2 = script w" "timeouts w2 = timeouts w1" "clock w2 = clock w"
    using assms(5) w1 by (auto simp: select_slot_result c_rand_def)
  let ?w3 = "on_mclmac (nextState_update (\<lambda>_. MEDIUM_ACCESS)) w2"
  have "wf_timeouts (timeouts ?w)" "some_free_slot (timeouts ?w)" using assms(2,3) by simp_all
  from frame_timer_expires [OF arm this, of ?w3] assms(4) w2
  obtain w4 where "i \<noteq> TIMEOUT_SET_ERROR" and wait: "busy_wait i ?w3 = Inr w4" by auto
  with assms(1) arm sel have "execute_selection w = Inr (E_MAC_EXECUTION_SUCCESS, unset_timer i w4)"
    by (simp add: execute_selection_def Let_def mac_access)
  moreover have "nextState (mclmac (unset_timer i w4)) = MEDIUM_ACCESS" using busy_wait_frame [OF wait] by simp
  ultimately show ?thesis by blast
qed

definition joining :: "(pid \<times> (pid \<Rightarrow> msg_t list)) world" where
  "joining = sample_world\<lparr>script := [[Elapse FRAME_DURATION, Ztimer_interrupt]]\<rparr>"

lemma joining_node_shares_slot_witness:
  "\<exists>a' bs b b'. execute_selection joining = Inr (E_MAC_EXECUTION_SUCCESS, a') \<and>
     broadcast 7 (mclmac a') = Inr bs \<and> join_network bs joining = Inr b \<and>
     execute_selection b = Inr (E_MAC_EXECUTION_SUCCESS, b') \<and>
     selectedSlot (internals b') = selectedSlot (internals a')"
proof -
  have t: "timeouts joining = static_timeouts" by (simp add: joining_def sample_world_def)
  have free: "wf_timeouts (timeouts joining)" "some_free_slot (timeouts joining)"
    unfolding t
    by (auto simp: wf_timeouts_def static_timeouts_def some_free_slot_def free_slot_def intro!: exI [of _ 0])
  have j: "\<not> is_first_node (mclmac joining)" "script joining = [[Elapse FRAME_DURATION, Ztimer_interrupt]]"
    "occupied joining = zero_bitmap" "wf_bitmap (occupied joining)"
    "current_slot (frame (internals joining)) = 0" "length (selected_slots_neighbors (mclmac joining)) = 2"
    by (simp_all add: joining_def sample_world_def zero_mclmac_def MAC_internals_init_def zero_mac_internals_def
        zero_frame_def)
  have "slot_free zero_bitmap 0" by (simp add: slot_free_def zero_bitmap_def)
  then have first: "first_free_slot zero_bitmap = Some 0" by (simp add: first_free_slot_def upt_rec)
  obtain a' where a: "execute_selection joining = Inr (E_MAC_EXECUTION_SUCCESS, a')" "nextState (mclmac a') = MEDIUM_ACCESS"
    using selection_run [OF j(1) free j(2)] first j(3) by auto
  obtain bs where bs: "broadcast 7 (mclmac a') = Inr bs" by (simp add: broadcast_def control_encode)
  have occ: "occupied a' = zero_bitmap" using selected(1) [OF a j(1)] j(3) by simp
  have "wf_bitmap (occupied a')" "unat (current_slot (frame (internals a'))) div 8 < length (selected_slots_neighbors (mclmac joining))"
    using selected(1,2) [OF a j(1)] j(3-6) by simp_all
  from join_succeeds [OF this(1) bs this(2)] obtain b where
    b: "join_network bs joining = Inr b" "timeouts b = timeouts joining" "script b = script joining" by blast
  have ob: "occupied b = zero_bitmap" "\<not> is_first_node (mclmac b)"
    using joined [OF \<open>wf_bitmap (occupied a')\<close> bs b(1)] occ j(1) by simp_all
  obtain b' where b': "execute_selection b = Inr (E_MAC_EXECUTION_SUCCESS, b')" "nextState (mclmac b') = MEDIUM_ACCESS"
    using selection_run [OF ob(2), of 0] free b(2,3) j(2) first ob(1) by auto
  from joining_node_shares_slot [OF a j(4) bs b(1) j(1) b'] a(1) bs b(1) b'(1) j(1) show ?thesis by blast
qed

end
