(* ===== verification/Memory.thy ===== *)
theory Memory
  imports Byte_Array
begin

text \<open>
  The RIOT arrays of \<open>utils/memory.c\<close>: a byte string is a linked list of one-byte blocks taken
  from a static pool. The pool \<open>MEMORY\<close> is a map from block addresses to blocks. Which blocks
  are free is the business of RIOT's \<open>memarray\<close> module, which is not part of the repository:
  its state and functions are the parameter \<open>'s memarray\<close>, and \<open>memarray_ok\<close> states the
  documented behaviour the code relies on.
\<close>

section \<open>Blocks, arrays and the allocator\<close>

record memory_block_t =
  nxt :: "nat option"
  block0 :: u8

record array_t =
  head :: "nat option"
  asize :: nat

record 's memarray =
  memarray_init :: "nat \<Rightarrow> 's"
  memarray_free_data :: "'s \<Rightarrow> nat option"
  memarray_available :: "'s \<Rightarrow> nat"
  memarray_alloc :: "'s \<Rightarrow> nat option \<times> 's"
  memarray_free :: "'s \<Rightarrow> nat \<Rightarrow> 's"

record 's memory =
  MEMORY :: "nat \<Rightarrow> memory_block_t"
  storage :: 's

definition memory_init :: "'s memarray \<Rightarrow> 's memory \<Rightarrow> nat \<times> 's memory" where
  "memory_init api m =
     (let m' = m\<lparr>storage := memarray_init api MAX_NUMBER_BLOCKS\<rparr>
      in (if memarray_free_data api (storage m') = None then 0 else 1, m'))"

text \<open>The loop of \<open>create_array\<close> that appends \<open>n\<close> blocks after block \<open>b\<close>.\<close>

fun create_blocks :: "'s memarray \<Rightarrow> 's memory \<Rightarrow> nat \<Rightarrow> nat \<Rightarrow> 's memory result" where
  "create_blocks api m b 0 = Inr m"
| "create_blocks api m b (Suc n) =
     (case memarray_alloc api (storage m) of (r, st) \<Rightarrow>
       (case r of
         None \<Rightarrow> Inl Null_dereference
       | Some b' \<Rightarrow>
           create_blocks api
             (m\<lparr>storage := st,
                MEMORY := (MEMORY m)(b := (MEMORY m b)\<lparr>nxt := Some b'\<rparr>,
                                     b' := \<lparr>nxt = None, block0 = 0\<rparr>)\<rparr>) b' n))"

definition create_array ::
    "'s memarray \<Rightarrow> 's memory \<Rightarrow> array_t \<Rightarrow> nat \<Rightarrow> (nat \<times> array_t \<times> 's memory) result" where
  "create_array api m array n =
     (if n = 0 then Inr (0, array, m)
      else if memarray_available api (storage m) < n then Inr (0, array, m)
      else
        (let array = array\<lparr>asize := n\<rparr>
         in case memarray_alloc api (storage m) of (r, st) \<Rightarrow>
              (case r of
                None \<Rightarrow> Inr (0, array, m\<lparr>storage := st\<rparr>)
              | Some b \<Rightarrow>
                  rbind (create_blocks api
                      (m\<lparr>storage := st, MEMORY := (MEMORY m)(b := \<lparr>nxt = None, block0 = 0\<rparr>)\<rparr>)
                      b (n - 1))
                    (\<lambda>m'. Inr (1, array\<lparr>head := Some b\<rparr>, m')))))"

text \<open>
  The loop of \<open>free_array\<close> follows the \<open>next\<close> pointers until the null pointer, whatever the
  size says: on a cyclic list it would not end, which is the value \<open>None\<close>.
\<close>

partial_function (option) free_blocks ::
    "'s memarray \<Rightarrow> 's memory \<Rightarrow> nat \<Rightarrow> 's memory option" where
  "free_blocks api m h =
     (case nxt (MEMORY m h) of
       Some h' \<Rightarrow> free_blocks api (m\<lparr>storage := memarray_free api (storage m) h\<rparr>) h'
     | None \<Rightarrow> Some (m\<lparr>storage := memarray_free api (storage m) h\<rparr>))"

definition free_array ::
    "'s memarray \<Rightarrow> 's memory \<Rightarrow> array_t \<Rightarrow> (nat \<times> array_t \<times> 's memory) option" where
  "free_array api m array =
     (case head array of
       None \<Rightarrow> Some (0, array, m)
     | Some h \<Rightarrow>
         (if asize array = 0 then Some (0, array, m)
          else map_option (\<lambda>m'. (1, array\<lparr>head := None, asize := 0\<rparr>, m')) (free_blocks api m h)))"

text \<open>Following \<open>n\<close> pointers from a block, as the loops of the accessors do.\<close>

fun walk :: "(nat \<Rightarrow> memory_block_t) \<Rightarrow> nat option \<Rightarrow> nat \<Rightarrow> nat result" where
  "walk mem None n = Inl Null_dereference"
| "walk mem (Some b) 0 = Inr b"
| "walk mem (Some b) (Suc n) = walk mem (nxt (mem b)) n"

definition write_element ::
    "'s memory \<Rightarrow> array_t \<Rightarrow> u8 \<Rightarrow> nat \<Rightarrow> (nat \<times> 's memory) result" where
  "write_element m array element i =
     (if asize array \<le> i then Inr (0, m)
      else rbind (walk (MEMORY m) (head array) i) (\<lambda>b.
        Inr (1, m\<lparr>MEMORY := (MEMORY m)(b := (MEMORY m b)\<lparr>block0 := element\<rparr>)\<rparr>)))"

text \<open>The element read, or \<open>None\<close> where the function returns 0 and writes nothing.\<close>

definition read_element :: "'s memory \<Rightarrow> array_t \<Rightarrow> nat \<Rightarrow> u8 option result" where
  "read_element m array i =
     (if asize array \<le> i then Inr None
      else rbind (walk (MEMORY m) (head array) i) (\<lambda>b. Inr (Some (block0 (MEMORY m b)))))"

definition readE :: "'s memory \<Rightarrow> array_t \<Rightarrow> nat \<Rightarrow> u8 result" where
  "readE m array i =
     rbind (read_element m array i) (\<lambda>r.
       case r of None \<Rightarrow> Inl Uninitialised_read | Some e \<Rightarrow> Inr e)"

section \<open>Well-formed arrays\<close>

text \<open>\<open>chain mem p bs\<close>: from pointer \<open>p\<close> the list runs through the blocks \<open>bs\<close> to the null pointer.\<close>

fun chain :: "(nat \<Rightarrow> memory_block_t) \<Rightarrow> nat option \<Rightarrow> nat list \<Rightarrow> bool" where
  "chain mem p [] \<longleftrightarrow> p = None"
| "chain mem p (b # bs) \<longleftrightarrow> p = Some b \<and> chain mem (nxt (mem b)) bs"

definition array_blocks :: "'s memory \<Rightarrow> array_t \<Rightarrow> nat list \<Rightarrow> bool" where
  "array_blocks m array bs \<longleftrightarrow>
     chain (MEMORY m) (head array) bs \<and> distinct bs \<and> length bs = asize array"

fun collect :: "(nat \<Rightarrow> memory_block_t) \<Rightarrow> nat option \<Rightarrow> nat \<Rightarrow> u8 list" where
  "collect mem p 0 = []"
| "collect mem None (Suc n) = []"
| "collect mem (Some b) (Suc n) = block0 (mem b) # collect mem (nxt (mem b)) n"

definition contents :: "'s memory \<Rightarrow> array_t \<Rightarrow> u8 list" where
  "contents m array = collect (MEMORY m) (head array) (asize array)"

lemma collect_chain: "chain mem p bs \<Longrightarrow> collect mem p (length bs) = map (block0 \<circ> mem) bs"
  by (induction bs arbitrary: p) auto

lemma walk_chain: "chain mem p bs \<Longrightarrow> i < length bs \<Longrightarrow> walk mem p i = Inr (bs ! i)"
proof (induction bs arbitrary: p i)
  case Nil
  then show ?case by simp
next
  case (Cons b bs)
  then show ?case by (cases i) auto
qed

lemma chain_cong:
  "\<forall>b \<in> set bs. nxt (mem' b) = nxt (mem b) \<Longrightarrow> chain mem' p bs = chain mem p bs"
  by (induction bs arbitrary: p) auto

lemma contents_blocks: "array_blocks m array bs \<Longrightarrow> contents m array = map (block0 \<circ> MEMORY m) bs"
  using collect_chain [of "MEMORY m" "head array" bs]
  by (auto simp: array_blocks_def contents_def)

lemma length_contents: "array_blocks m array bs \<Longrightarrow> length (contents m array) = asize array"
  by (simp add: contents_blocks) (simp add: array_blocks_def)

lemma write_element_in:
  assumes "array_blocks m array bs" and "i < asize array"
  shows "\<exists>m'. write_element m array e i = Inr (1, m') \<and> array_blocks m' array bs \<and>
           contents m' array = (contents m array)[i := e] \<and> storage m' = storage m"
proof -
  let ?m' = "m\<lparr>MEMORY := (MEMORY m)(bs ! i := (MEMORY m (bs ! i))\<lparr>block0 := e\<rparr>)\<rparr>"
  have ch: "chain (MEMORY m) (head array) bs" and d: "distinct bs" and i: "i < length bs"
    using assms by (auto simp: array_blocks_def)
  have "chain (MEMORY ?m') (head array) bs"
    using ch chain_cong [of bs "MEMORY ?m'" "MEMORY m" "head array"] by simp
  then have ab: "array_blocks ?m' array bs" using assms by (simp add: array_blocks_def)
  have "map (block0 \<circ> MEMORY ?m') bs = (map (block0 \<circ> MEMORY m) bs)[i := e]"
    using d i by (intro nth_equalityI) (auto simp: nth_list_update nth_eq_iff_index_eq)
  then have "contents ?m' array = (contents m array)[i := e]"
    using ab assms(1) by (simp add: contents_blocks)
  with ab walk_chain [OF ch i] assms(2) show ?thesis
    by (auto simp: write_element_def)
qed

lemma read_element_in:
  assumes "array_blocks m array bs" and "i < asize array"
  shows "read_element m array i = Inr (Some (contents m array ! i))"
proof -
  have ch: "chain (MEMORY m) (head array) bs" and i: "i < length bs"
    using assms by (auto simp: array_blocks_def)
  with walk_chain [OF ch i] assms show ?thesis
    by (simp add: read_element_def contents_blocks)
qed

section \<open>The linked list refines the array macros\<close>

text \<open>
  The macros of the RIOT build over an array in memory, in the shape of the \<open>byte_array\<close>
  interface. The array descriptor is not changed by a write.
\<close>

definition chain_write :: "'s memory \<times> array_t \<Rightarrow> u8 \<Rightarrow> nat \<Rightarrow> ('s memory \<times> array_t) result" where
  "chain_write b e i =
     rbind (write_element (fst b) (snd b) e i) (\<lambda>(r, m'). Inr (m', snd b))"

definition chain_read :: "'s memory \<times> array_t \<Rightarrow> nat \<Rightarrow> u8 result" where
  "chain_read b i = readE (fst b) (snd b) i"

definition chain_cells :: "'s memory \<times> array_t \<Rightarrow> u8 list" where
  "chain_cells b = contents (fst b) (snd b)"

definition chain_invar :: "'s memory \<times> array_t \<Rightarrow> bool" where
  "chain_invar b \<longleftrightarrow> (\<exists>bs. array_blocks (fst b) (snd b) bs)"

lemma length_chain_cells: "chain_invar b \<Longrightarrow> length (chain_cells b) = asize (snd b)"
  by (auto simp: chain_invar_def chain_cells_def length_contents)

lemma chain_write_in:
  assumes "chain_invar b" and "i < length (chain_cells b)"
  shows "\<exists>b'. chain_write b e i = Inr b' \<and> chain_invar b' \<and> chain_cells b' = (chain_cells b)[i := e]"
proof -
  from assms obtain bs where "array_blocks (fst b) (snd b) bs" "i < asize (snd b)"
    by (auto simp: chain_invar_def length_chain_cells)
  from write_element_in [OF this, of e] show ?thesis
    by (auto simp: chain_write_def chain_invar_def chain_cells_def)
qed

lemma chain_read_in:
  assumes "chain_invar b" and "i < length (chain_cells b)"
  shows "chain_read b i = Inr (chain_cells b ! i)"
proof -
  from assms obtain bs where "array_blocks (fst b) (snd b) bs" "i < asize (snd b)"
    by (auto simp: chain_invar_def length_chain_cells)
  from read_element_in [OF this] show ?thesis
    by (simp add: chain_read_def readE_def chain_cells_def)
qed

interpretation linked: byte_array chain_write chain_read chain_cells chain_invar
  by unfold_locales (rule chain_write_in chain_read_in; assumption)+

lemma chain_write_refines:
  assumes "chain_invar b"
  shows "\<exists>b'. chain_write b e i = Inr b' \<and> chain_invar b' \<and>
           WRITE_ARRAY RIOT (chain_cells b) e i = Inr (chain_cells b')"
proof (cases "i < length (chain_cells b)")
  case True
  with chain_write_in [OF assms True, of e] show ?thesis
    by (auto simp: WRITE_ARRAY_def)
next
  case False
  then have "chain_write b e i = Inr b"
    by (simp add: chain_write_def write_element_def length_chain_cells assms)
  with False assms show ?thesis by (simp add: WRITE_ARRAY_def)
qed

text \<open>
  C29: simulation. Any sequence of writes on a well-formed linked array, in or out of bounds,
  succeeds, keeps the array well-formed and leaves in it what the same writes leave in a flat
  RIOT array; and reading agrees with the flat array at every index, faults included. The
  theorems on encoders and decoders over flat arrays therefore hold of the linked ones.
\<close>

theorem linked_array_refines_flat:
  assumes "chain_invar b"
  shows "(\<exists>b'. write_all chain_write b ws = Inr b' \<and> chain_invar b' \<and>
            write_all (WRITE_ARRAY RIOT) (chain_cells b) ws = Inr (chain_cells b')) \<and>
         chain_read b i = READ_ARRAY RIOT (chain_cells b) i"
proof
  show "\<exists>b'. write_all chain_write b ws = Inr b' \<and> chain_invar b' \<and>
      write_all (WRITE_ARRAY RIOT) (chain_cells b) ws = Inr (chain_cells b')"
    using assms
  proof (induction ws arbitrary: b)
    case Nil
    then show ?case by simp
  next
    case (Cons w ws)
    obtain k e where w: "w = (k, e)" by (cases w)
    from chain_write_refines [OF Cons.prems, of e k] obtain b1 where
      "chain_write b e k = Inr b1" "chain_invar b1"
      "WRITE_ARRAY RIOT (chain_cells b) e k = Inr (chain_cells b1)" by blast
    with Cons.IH [of b1] w show ?case by simp
  qed
  show "chain_read b i = READ_ARRAY RIOT (chain_cells b) i"
  proof (cases "i < length (chain_cells b)")
    case True
    with chain_read_in [OF assms True] show ?thesis by (simp add: READ_ARRAY_def)
  next
    case False
    with assms show ?thesis
      by (simp add: chain_read_def readE_def read_element_def READ_ARRAY_def length_chain_cells)
  qed
qed

section \<open>Allocation and release\<close>

text \<open>
  What the code relies on of \<open>memarray\<close>: in a good state there are finitely many free blocks
  and \<open>memarray_available\<close> counts them; \<open>memarray_alloc\<close> takes one of them, or fails when there
  is none; \<open>memarray_free\<close> gives a block in use back.
\<close>

definition memarray_ok :: "'s memarray \<Rightarrow> ('s \<Rightarrow> nat set) \<Rightarrow> ('s \<Rightarrow> bool) \<Rightarrow> bool" where
  "memarray_ok api frees good \<longleftrightarrow>
     (\<forall>s. good s \<longrightarrow> finite (frees s) \<and> memarray_available api s = card (frees s)) \<and>
     (\<forall>s. good s \<longrightarrow>
        (case memarray_alloc api s of
          (None, s') \<Rightarrow> frees s = {}
        | (Some b, s') \<Rightarrow> b \<in> frees s \<and> good s' \<and> frees s' = frees s - {b})) \<and>
     (\<forall>s b. good s \<and> b \<notin> frees s \<longrightarrow>
        good (memarray_free api s b) \<and> frees (memarray_free api s b) = insert b (frees s))"

lemma memarray_alloc_ok:
  assumes "memarray_ok api frees good" and "good s" and "frees s \<noteq> {}"
  obtains b s' where "memarray_alloc api s = (Some b, s')" "b \<in> frees s" "good s'"
    "frees s' = frees s - {b}"
  using assms unfolding memarray_ok_def
  by (cases "memarray_alloc api s"; cases "fst (memarray_alloc api s)") (fastforce)+

lemma create_blocks_ok:
  assumes ok: "memarray_ok api frees good"
  shows "good (storage m) \<Longrightarrow> n \<le> card (frees (storage m)) \<Longrightarrow> b \<notin> frees (storage m) \<Longrightarrow>
    MEMORY m b = \<lparr>nxt = None, block0 = 0\<rparr> \<Longrightarrow>
    \<exists>m' bs. create_blocks api m b n = Inr m' \<and> chain (MEMORY m') (Some b) (b # bs) \<and>
      length bs = n \<and> distinct (b # bs) \<and> set bs \<subseteq> frees (storage m) \<and> good (storage m') \<and>
      frees (storage m') = frees (storage m) - set bs \<and>
      (\<forall>x \<in> set (b # bs). block0 (MEMORY m' x) = 0) \<and>
      (\<forall>x. x \<notin> set (b # bs) \<longrightarrow> MEMORY m' x = MEMORY m x)"
proof (induction n arbitrary: m b)
  case 0
  then show ?case by (intro exI [of _ m] exI [of _ "[]"]) auto
next
  case (Suc n)
  have fin: "finite (frees (storage m))" using ok Suc.prems(1) by (simp add: memarray_ok_def)
  with Suc.prems(2) have "frees (storage m) \<noteq> {}" by auto
  then obtain c st where c: "memarray_alloc api (storage m) = (Some c, st)"
    "c \<in> frees (storage m)" "good st" "frees st = frees (storage m) - {c}"
    using memarray_alloc_ok [OF ok Suc.prems(1)] by blast
  define m1 where "m1 = m\<lparr>storage := st,
      MEMORY := (MEMORY m)(b := (MEMORY m b)\<lparr>nxt := Some c\<rparr>, c := \<lparr>nxt = None, block0 = 0\<rparr>)\<rparr>"
  have "c \<noteq> b" using c(2) Suc.prems(3) by auto
  have m1: "storage m1 = st" "MEMORY m1 c = \<lparr>nxt = None, block0 = 0\<rparr>"
    "MEMORY m1 b = \<lparr>nxt = Some c, block0 = 0\<rparr>"
    "\<And>x. x \<noteq> b \<Longrightarrow> x \<noteq> c \<Longrightarrow> MEMORY m1 x = MEMORY m x"
    using \<open>c \<noteq> b\<close> Suc.prems(4) by (simp_all add: m1_def)
  have "n \<le> card (frees st)" using c fin Suc.prems(2) by simp
  with Suc.IH [of m1 c] m1 c obtain m' bs where m': "create_blocks api m1 c n = Inr m'"
    "chain (MEMORY m') (Some c) (c # bs)" "length bs = n" "distinct (c # bs)"
    "set bs \<subseteq> frees st" "good (storage m')" "frees (storage m') = frees st - set bs"
    "\<forall>x \<in> set (c # bs). block0 (MEMORY m' x) = 0"
    "\<forall>x. x \<notin> set (c # bs) \<longrightarrow> MEMORY m' x = MEMORY m1 x" by auto
  have "b \<notin> set (c # bs)" using \<open>c \<noteq> b\<close> m'(5) c(4) Suc.prems(3) by auto
  moreover from this have "MEMORY m' b = \<lparr>nxt = Some c, block0 = 0\<rparr>" using m'(9) m1 by simp
  moreover have "create_blocks api m b (Suc n) = Inr m'" using c(1) m'(1) by (simp add: m1_def)
  ultimately show ?case
    using m' m1(4) c by (intro exI [of _ m'] exI [of _ "c # bs"]) auto
qed

lemma create_array_ok:
  assumes ok: "memarray_ok api frees good" and "good (storage m)"
    and "0 < n" and "n \<le> card (frees (storage m))"
  shows "\<exists>array' m' bs. create_array api m array n = Inr (1, array', m') \<and>
           array_blocks m' array' bs \<and> asize array' = n \<and> contents m' array' = replicate n 0 \<and>
           set bs \<subseteq> frees (storage m) \<and> good (storage m') \<and>
           frees (storage m') = frees (storage m) - set bs \<and>
           (\<forall>x. x \<notin> set bs \<longrightarrow> MEMORY m' x = MEMORY m x)"
proof -
  have fin: "finite (frees (storage m))" and av: "memarray_available api (storage m) = card (frees (storage m))"
    using ok assms(2) by (simp_all add: memarray_ok_def)
  from assms(3,4) have "frees (storage m) \<noteq> {}" by auto
  then obtain b st where b: "memarray_alloc api (storage m) = (Some b, st)"
    "b \<in> frees (storage m)" "good st" "frees st = frees (storage m) - {b}"
    using memarray_alloc_ok [OF ok assms(2)] by blast
  let ?m1 = "m\<lparr>storage := st, MEMORY := (MEMORY m)(b := \<lparr>nxt = None, block0 = 0\<rparr>)\<rparr>"
  have "n - 1 \<le> card (frees st)" using b fin assms(4) by simp
  with create_blocks_ok [OF ok, of ?m1 "n - 1" b] b obtain m' bs where
    m': "create_blocks api ?m1 b (n - 1) = Inr m'" "chain (MEMORY m') (Some b) (b # bs)"
    "length bs = n - 1" "distinct (b # bs)" "set bs \<subseteq> frees st" "good (storage m')"
    "frees (storage m') = frees st - set bs" "\<forall>x \<in> set (b # bs). block0 (MEMORY m' x) = 0"
    "\<forall>x. x \<notin> set (b # bs) \<longrightarrow> MEMORY m' x = MEMORY ?m1 x" by auto
  let ?array = "array\<lparr>asize := n, head := Some b\<rparr>"
  have "create_array api m array n = Inr (1, ?array, m')"
    using assms(3,4) av b(1) m'(1) by (simp add: create_array_def)
  moreover have ab: "array_blocks m' ?array (b # bs)"
    using m'(2-4) assms(3) by (simp add: array_blocks_def)
  moreover have "contents m' ?array = replicate n 0"
  proof -
    have "map (block0 \<circ> MEMORY m') (b # bs) = map (\<lambda>_. 0) (b # bs)"
      by (rule map_cong [OF refl]) (use m'(8) in auto)
    also have "\<dots> = replicate n 0"
      using m'(3) assms(3) by (simp only: map_replicate_const) simp
    finally show ?thesis using contents_blocks [OF ab] by simp
  qed
  ultimately show ?thesis using m' b by (intro exI conjI) auto
qed

text \<open>Releasing walks the list once and gives back exactly its blocks.\<close>

lemma free_blocks_ok:
  assumes ok: "memarray_ok api frees good"
  shows "good (storage m) \<Longrightarrow> chain (MEMORY m) (Some h) bs \<Longrightarrow> distinct bs \<Longrightarrow>
    set bs \<inter> frees (storage m) = {} \<Longrightarrow>
    \<exists>m'. free_blocks api m h = Some m' \<and> good (storage m') \<and>
      frees (storage m') = frees (storage m) \<union> set bs \<and> MEMORY m' = MEMORY m"
proof (induction bs arbitrary: m h)
  case Nil
  then show ?case by simp
next
  case (Cons b bs)
  let ?m1 = "m\<lparr>storage := memarray_free api (storage m) h\<rparr>"
  have h: "h = b" "h \<notin> frees (storage m)" using Cons.prems by auto
  have m1: "good (storage ?m1)" "frees (storage ?m1) = insert h (frees (storage m))"
    using ok Cons.prems(1) h(2) by (simp_all add: memarray_ok_def)
  show ?case
  proof (cases "nxt (MEMORY m h)")
    case None
    with Cons.prems have "bs = []" by (cases bs) auto
    with None h m1 show ?thesis by (subst free_blocks.simps) auto
  next
    case (Some h')
    with Cons.prems h have "chain (MEMORY ?m1) (Some h') bs" by auto
    moreover have "set bs \<inter> frees (storage ?m1) = {}" using Cons.prems h m1 by auto
    ultimately obtain m' where "free_blocks api ?m1 h' = Some m'" "good (storage m')"
      "frees (storage m') = frees (storage ?m1) \<union> set bs" "MEMORY m' = MEMORY ?m1"
      using Cons.IH [of ?m1 h'] m1 Cons.prems(3) by auto
    with Some h m1 show ?thesis by (subst free_blocks.simps) auto
  qed
qed

text \<open>The free list of block addresses, a concrete \<open>memarray\<close>.\<close>

definition list_memarray :: "nat list memarray" where
  "list_memarray = \<lparr>memarray_init = (\<lambda>n. [0..<n]),
     memarray_free_data = (\<lambda>s. case s of [] \<Rightarrow> None | b # _ \<Rightarrow> Some b),
     memarray_available = length,
     memarray_alloc = (\<lambda>s. case s of [] \<Rightarrow> (None, []) | b # bs \<Rightarrow> (Some b, bs)),
     memarray_free = (\<lambda>s b. b # s)\<rparr>"

lemma list_memarray_ok: "memarray_ok list_memarray set distinct"
  by (auto simp: memarray_ok_def list_memarray_def distinct_card split: list.splits)

section \<open>Properties\<close>

text \<open>
  \<open>create_array\<close> succeeds exactly when a non-zero size is asked for and enough blocks are
  free: it then returns 1 with a well-formed array of that many zero bytes, made of blocks that
  were free, and touches no other block. Otherwise it returns 0 and changes nothing.
\<close>

theorem create_array_spec:
  assumes "memarray_ok api frees good" and "good (storage m)"
  shows "if 0 < n \<and> n \<le> card (frees (storage m))
     then \<exists>array' m' bs. create_array api m array n = Inr (1, array', m') \<and>
            array_blocks m' array' bs \<and> contents m' array' = replicate n 0 \<and>
            set bs \<subseteq> frees (storage m) \<and> frees (storage m') = frees (storage m) - set bs \<and>
            (\<forall>x. x \<notin> set bs \<longrightarrow> MEMORY m' x = MEMORY m x)
     else create_array api m array n = Inr (0, array, m)"
proof (cases "0 < n \<and> n \<le> card (frees (storage m))")
  case True
  with create_array_ok [OF assms, of n array] show ?thesis by auto
next
  case False
  moreover have "memarray_available api (storage m) = card (frees (storage m))"
    using assms by (simp add: memarray_ok_def)
  ultimately show ?thesis by (auto simp: create_array_def)
qed

theorem create_array_spec_witness:
  "\<exists>array' m' bs. create_array list_memarray
       \<lparr>MEMORY = (\<lambda>_. \<lparr>nxt = None, block0 = 9\<rparr>), storage = [3, 1, 2]\<rparr> \<lparr>head = None, asize = 0\<rparr> 2
       = Inr (1, array', m') \<and>
     array_blocks m' array' bs \<and> contents m' array' = [0, 0]"
  using create_array_spec [OF list_memarray_ok, of
      "\<lparr>MEMORY = (\<lambda>_. \<lparr>nxt = None, block0 = 9\<rparr>), storage = [3, 1, 2]\<rparr>" 2
      "\<lparr>head = None, asize = 0\<rparr>"]
  by (auto simp: numeral_2_eq_2)

text \<open>
  \<open>free_array\<close> ends on every well-formed array in use, returns 1, empties the descriptor
  and gives back exactly the blocks of the array: creating an array and freeing it leaves as
  many blocks free as before.
\<close>

theorem free_array_spec:
  assumes "memarray_ok api frees good" and "good (storage m)"
    and "array_blocks m array bs" and "set bs \<inter> frees (storage m) = {}" and "0 < asize array"
  shows "\<exists>m'. free_array api m array = Some (1, \<lparr>head = None, asize = 0\<rparr>, m') \<and>
           frees (storage m') = frees (storage m) \<union> set bs \<and>
           card (frees (storage m')) = card (frees (storage m)) + asize array \<and>
           MEMORY m' = MEMORY m"
proof -
  have ab: "chain (MEMORY m) (head array) bs" "distinct bs" "length bs = asize array"
    using assms(3) by (auto simp: array_blocks_def)
  with assms(5) obtain b bs' where "bs = b # bs'" by (cases bs) auto
  with ab have h: "head array = Some b" "chain (MEMORY m) (Some b) bs" by auto
  from free_blocks_ok [OF assms(1,2) h(2) ab(2) assms(4)] obtain m' where
    m': "free_blocks api m b = Some m'" "frees (storage m') = frees (storage m) \<union> set bs"
    "MEMORY m' = MEMORY m" by blast
  have "finite (frees (storage m))" using assms(1,2) by (simp add: memarray_ok_def)
  then have "card (frees (storage m')) = card (frees (storage m)) + asize array"
    using m'(2) assms(4) ab by (simp add: card_Un_disjoint distinct_card Int_commute)
  with m' h assms(5) show ?thesis by (cases array) (simp add: free_array_def)
qed

theorem free_array_spec_witness:
  "\<exists>m'. free_array list_memarray
      \<lparr>MEMORY = (\<lambda>b. if b = 5 then \<lparr>nxt = Some 6, block0 = 1\<rparr> else \<lparr>nxt = None, block0 = 2\<rparr>),
       storage = [3]\<rparr> \<lparr>head = Some 5, asize = 2\<rparr> = Some (1, \<lparr>head = None, asize = 0\<rparr>, m') \<and>
     set (storage m') = {3, 5, 6}"
  using free_array_spec [OF list_memarray_ok, of
      "\<lparr>MEMORY = (\<lambda>b. if b = 5 then \<lparr>nxt = Some 6, block0 = 1\<rparr> else \<lparr>nxt = None, block0 = 2\<rparr>),
       storage = [3]\<rparr>" "\<lparr>head = Some 5, asize = 2\<rparr>" "[5, 6]"]
  by (auto simp: array_blocks_def)

theorem linked_array_refines_flat_witness:
  "\<exists>b'. write_all chain_write
      (\<lparr>MEMORY = (\<lambda>b. if b = 5 then \<lparr>nxt = Some 6, block0 = 1\<rparr> else \<lparr>nxt = None, block0 = 2\<rparr>),
        storage = ()\<rparr>, \<lparr>head = Some 5, asize = 2\<rparr>) [(1, 40), (2, 50)] = Inr b' \<and>
     write_all (WRITE_ARRAY RIOT) [1, 2] [(1, 40), (2, 50)] = Inr (chain_cells b')"
proof -
  let ?b = "(\<lparr>MEMORY = (\<lambda>b. if b = 5 then \<lparr>nxt = Some 6, block0 = 1\<rparr>
      else \<lparr>nxt = None, block0 = 2\<rparr>), storage = ()\<rparr>, \<lparr>head = Some (5 :: nat), asize = 2\<rparr>)"
  have "chain_invar ?b"
    by (auto simp: chain_invar_def array_blocks_def intro!: exI [of _ "[5, 6]"])
  moreover have "chain_cells ?b = [1, 2]"
    by (simp add: chain_cells_def contents_def numeral_2_eq_2)
  ultimately show ?thesis
    using linked_array_refines_flat [of ?b "[(1, 40), (2, 50)]" 0] by auto
qed

end
