(* ===== verification/Packet_Memory.thy ===== *)
theory Packet_Memory
  imports Memory Data_Packet "HOL-Library.Multiset"
begin

text \<open>
  Data packets in the block pool of \<open>memory.c\<close>: in the RIOT build the payload of a packet, and every
  byte string, is a linked array. This theory has the functions of \<open>MAC/DataPacket.c\<close> over the pool,
  which allocate and release, and relates them to those over lists in theory \<open>Data_Packet\<close>.

  \<open>pool_inv\<close> is the invariant: the arrays in use share no block with each other nor with the free
  ones. Forgetting an array (dropping it from the list) keeps the invariant: its blocks are lost.
\<close>

section \<open>Arrays that share no block\<close>

fun follow :: "(nat \<Rightarrow> memory_block_t) \<Rightarrow> nat option \<Rightarrow> nat \<Rightarrow> nat list" where
  "follow mem p 0 = []"
| "follow mem None (Suc n) = []"
| "follow mem (Some b) (Suc n) = b # follow mem (nxt (mem b)) n"

definition blocks :: "'s memory \<Rightarrow> array_t \<Rightarrow> nat list" where
  "blocks m a = follow (MEMORY m) (head a) (asize a)"

definition array_ok :: "'s memory \<Rightarrow> array_t \<Rightarrow> bool" where
  "array_ok m a \<longleftrightarrow> array_blocks m a (blocks m a)"

definition pool_inv :: "('s \<Rightarrow> nat set) \<Rightarrow> ('s \<Rightarrow> bool) \<Rightarrow> 's memory \<Rightarrow> array_t list \<Rightarrow> bool" where
  "pool_inv frees good m as \<longleftrightarrow>
     good (storage m) \<and> (\<forall>a \<in> set as. array_ok m a) \<and> distinct (concat (map (blocks m) as)) \<and>
     set (concat (map (blocks m) as)) \<inter> frees (storage m) = {}"

text \<open>The blocks the arrays hold.\<close>

definition used :: "array_t list \<Rightarrow> nat" where
  "used as = sum_list (map asize as)"

lemma used_simps [simp]:
  "used [] = 0" "used (a # as) = asize a + used as" "used (as @ bs) = used as + used bs"
  by (simp_all add: used_def)

lemma used_mset: "mset as = mset bs \<Longrightarrow> used as = used bs"
  unfolding used_def by (metis mset_map sum_mset_sum_list)

lemma follow_chain: "chain mem p bs \<Longrightarrow> follow mem p (length bs) = bs"
  by (induction bs arbitrary: p) auto

lemma blocks_eq: "array_blocks m a bs \<Longrightarrow> blocks m a = bs"
  using follow_chain [of "MEMORY m" "head a" bs] by (simp add: array_blocks_def blocks_def)

lemma array_okI: "array_blocks m a bs \<Longrightarrow> array_ok m a"
  by (simp add: array_ok_def blocks_eq)

lemma array_ok_blocks: "array_ok m a \<Longrightarrow> array_blocks m a (blocks m a)"
  by (simp add: array_ok_def)

lemma length_blocks: "array_ok m a \<Longrightarrow> length (blocks m a) = asize a"
  by (simp add: array_ok_def array_blocks_def)

lemma blocks_storage [simp]: "blocks (m\<lparr>storage := st\<rparr>) a = blocks m a"
  by (simp add: blocks_def)

lemma pool_inv_Cons:
  "pool_inv frees good m (a # as) \<longleftrightarrow> array_ok m a \<and> pool_inv frees good m as \<and>
     set (blocks m a) \<inter> (set (concat (map (blocks m) as)) \<union> frees (storage m)) = {}"
  by (auto simp: pool_inv_def array_ok_def array_blocks_def)

lemma pool_inv_mset:
  assumes "mset as = mset bs"
  shows "pool_inv frees good m as = pool_inv frees good m bs"
proof -
  have set: "set as = set bs" using mset_eq_setD [OF assms] .
  have "mset (concat (map (blocks m) xs)) = (\<Sum>a\<in>#mset xs. mset (blocks m a))" for xs
    by (induction xs) auto
  then have "mset (concat (map (blocks m) as)) = mset (concat (map (blocks m) bs))"
    using assms by simp
  then have "distinct (concat (map (blocks m) as)) = distinct (concat (map (blocks m) bs))"
    by (rule mset_eq_imp_distinct_iff)
  with set show ?thesis by (simp add: pool_inv_def)
qed

lemma pool_inv_forget: "pool_inv frees good m (a # as) \<Longrightarrow> pool_inv frees good m as"
  by (simp add: pool_inv_Cons)

text \<open>Changes outside of the blocks of an array leave it alone.\<close>

definition same_outside :: "nat set \<Rightarrow> 's memory \<Rightarrow> 's memory \<Rightarrow> bool" where
  "same_outside S m m' \<longleftrightarrow> (\<forall>x. x \<notin> S \<longrightarrow> MEMORY m' x = MEMORY m x)"

lemma array_frame:
  assumes "array_ok m a" and "same_outside S m m'" and "set (blocks m a) \<inter> S = {}"
  shows "array_ok m' a \<and> blocks m' a = blocks m a \<and> contents m' a = contents m a"
proof -
  note ab = array_ok_blocks [OF assms(1)]
  have eq: "\<forall>b \<in> set (blocks m a). MEMORY m' b = MEMORY m b"
    using assms(2,3) by (auto simp: same_outside_def)
  then have ab': "array_blocks m' a (blocks m a)"
    using ab chain_cong [of "blocks m a" "MEMORY m'" "MEMORY m" "head a"]
    by (simp add: array_blocks_def)
  have "contents m' a = contents m a"
    unfolding contents_blocks [OF ab'] contents_blocks [OF ab] using eq by simp
  with ab' show ?thesis by (simp add: array_okI blocks_eq)
qed

lemma pool_frame:
  assumes "pool_inv frees good m as" and "same_outside S m m'"
    and "S \<inter> set (concat (map (blocks m) as)) = {}" and "good (storage m')"
    and "frees (storage m') \<inter> set (concat (map (blocks m) as)) = {}"
  shows "pool_inv frees good m' as" and "map (blocks m') as = map (blocks m) as"
    and "map (contents m') as = map (contents m) as"
proof -
  have frame: "array_ok m' a \<and> blocks m' a = blocks m a \<and> contents m' a = contents m a"
    if "a \<in> set as" for a
    using assms(1,3) that by (intro array_frame [OF _ assms(2)]) (auto simp: pool_inv_def)
  then show bs: "map (blocks m') as = map (blocks m) as"
    and "map (contents m') as = map (contents m) as" by simp_all
  show "pool_inv frees good m' as"
    using assms frame by (auto simp: pool_inv_def bs simp del: set_concat)
qed

section \<open>What an operation leaves behind\<close>

text \<open>
  \<open>kept m m' as\<close>: after an operation the arrays \<open>as\<close> are still there with the same
  contents.
\<close>

definition kept :: "'s memory \<Rightarrow> 's memory \<Rightarrow> array_t list \<Rightarrow> bool" where
  "kept m m' as \<longleftrightarrow> map (contents m') as = map (contents m) as"

lemma kept_refl [simp]: "kept m m as"
  by (simp add: kept_def)

lemma kept_trans: "kept m m' as \<Longrightarrow> kept m' m'' as \<Longrightarrow> kept m m'' as"
  by (simp add: kept_def)

lemma kept_Cons: "kept m m' (a # as) \<longleftrightarrow> contents m' a = contents m a \<and> kept m m' as"
  by (simp add: kept_def)


lemma create_array_pool:
  assumes ok: "memarray_ok api frees good" and inv: "pool_inv frees good m as"
  shows "\<exists>r a m'. create_array api m a0 n = Inr (r, a, m') \<and>
    (if 0 < n \<and> n \<le> card (frees (storage m))
     then r = 1 \<and> pool_inv frees good m' (a # as) \<and> asize a = n \<and> contents m' a = replicate n 0 \<and>
       kept m m' as \<and> card (frees (storage m')) + n = card (frees (storage m))
     else r = 0 \<and> a = a0 \<and> m' = m)"
proof (cases "0 < n \<and> n \<le> card (frees (storage m))")
  case True
  have good: "good (storage m)" using inv by (simp add: pool_inv_def)
  from create_array_ok [OF ok good, of n a0] True obtain a m' bs where
    c: "create_array api m a0 n = Inr (1, a, m')" "array_blocks m' a bs" "asize a = n"
    "contents m' a = replicate n 0" "set bs \<subseteq> frees (storage m)" "good (storage m')"
    "frees (storage m') = frees (storage m) - set bs"
    "\<forall>x. x \<notin> set bs \<longrightarrow> MEMORY m' x = MEMORY m x" by blast
  have so: "same_outside (set bs) m m'" using c(8) by (simp add: same_outside_def)
  have disj: "set bs \<inter> set (concat (map (blocks m) as)) = {}"
    "frees (storage m') \<inter> set (concat (map (blocks m) as)) = {}"
    using c(5,7) inv by (auto simp: pool_inv_def)
  note fr = pool_frame [OF inv so disj(1) c(6) disj(2)]
  have "pool_inv frees good m' (a # as)"
    using fr(1) c disj(1) unfolding pool_inv_Cons fr(2) by (auto simp: array_okI blocks_eq)
  moreover have "card (frees (storage m')) + n = card (frees (storage m))"
  proof -
    have fin: "finite (frees (storage m))" using ok good by (simp add: memarray_ok_def)
    have "card (set bs) = n" using c(2,3) by (simp add: array_blocks_def distinct_card)
    then show ?thesis using c(5,7) fin True by (simp add: card_Diff_subset finite_subset)
  qed
  ultimately show ?thesis using c fr(3) True by (auto simp: kept_def)
next
  case False
  moreover have "memarray_available api (storage m) = card (frees (storage m))"
    using ok inv by (simp add: memarray_ok_def pool_inv_def)
  ultimately show ?thesis by (auto simp: create_array_def)
qed

text \<open>\<open>if (a.size > 0) free_array(&a)\<close>.\<close>

definition release :: "'s memarray \<Rightarrow> 's memory \<Rightarrow> array_t \<Rightarrow> (array_t \<times> 's memory) result" where
  "release api m a =
     (if 0 < asize a
      then (case free_array api m a of None \<Rightarrow> Inl Blocked | Some (_, a', m') \<Rightarrow> Inr (a', m'))
      else Inr (a, m))"

lemma release_pool:
  assumes ok: "memarray_ok api frees good" and inv: "pool_inv frees good m (a # as)"
  shows "\<exists>m'. release api m a = Inr (\<lparr>head = None, asize = 0\<rparr>, m') \<and>
    pool_inv frees good m' as \<and> kept m m' as \<and>
    card (frees (storage m')) = card (frees (storage m)) + asize a"
proof (cases "asize a")
  case 0
  have "array_blocks m a (blocks m a)" using inv by (simp add: pool_inv_Cons array_ok_blocks)
  with 0 have "a = \<lparr>head = None, asize = 0\<rparr>" by (cases a) (auto simp: array_blocks_def)
  with inv show ?thesis by (auto simp: release_def pool_inv_Cons)
next
  case (Suc n)
  have ab: "array_blocks m a (blocks m a)" and good: "good (storage m)"
    and disj: "set (blocks m a) \<inter> frees (storage m) = {}"
    "set (blocks m a) \<inter> set (concat (map (blocks m) as)) = {}"
    and inv': "pool_inv frees good m as"
    using inv by (auto simp: pool_inv_Cons array_ok_def) (auto simp: pool_inv_def)
  then obtain b bs where bs: "blocks m a = b # bs" "head a = Some b"
    using Suc by (cases "blocks m a") (auto simp: array_blocks_def)
  with ab have "chain (MEMORY m) (Some b) (blocks m a)" "distinct (blocks m a)"
    by (auto simp: array_blocks_def)
  from free_blocks_ok [OF ok good this disj(1)] obtain m' where m': "free_blocks api m b = Some m'"
    "good (storage m')" "frees (storage m') = frees (storage m) \<union> set (blocks m a)"
    "MEMORY m' = MEMORY m" by blast
  have fin: "finite (frees (storage m))" using ok good by (simp add: memarray_ok_def)
  have "same_outside {} m m'" using m'(4) by (simp add: same_outside_def)
  moreover have "frees (storage m') \<inter> set (concat (map (blocks m) as)) = {}"
    using m'(3) disj(2) inv' by (auto simp: pool_inv_def)
  ultimately have fr: "pool_inv frees good m' as" "map (contents m') as = map (contents m) as"
    using pool_frame [OF inv', of "{}" m'] m'(2) by auto
  have "card (frees (storage m')) = card (frees (storage m)) + card (set (blocks m a))"
    using m'(3) disj(1) fin by (simp add: card_Un_disjoint Int_commute)
  also have "card (set (blocks m a)) = asize a"
    using ab by (simp add: array_blocks_def distinct_card)
  finally show ?thesis
    using m'(1) bs(2) Suc fr by (auto simp: release_def free_array_def kept_def)
qed

text \<open>Writing and copying touch the blocks of one array only.\<close>

definition heap_writes :: "'s memory \<Rightarrow> array_t \<Rightarrow> (nat \<times> u8) list \<Rightarrow> 's memory result" where
  "heap_writes m a ws = rbind (write_all chain_write (m, a) ws) (\<lambda>(m', _). Inr m')"

fun heap_copy ::
    "'s memory \<Rightarrow> array_t \<Rightarrow> nat \<Rightarrow> array_t \<Rightarrow> nat \<Rightarrow> nat list \<Rightarrow> 's memory result" where
  "heap_copy m src so dst wo [] = Inr m"
| "heap_copy m src so dst wo (i # is) =
     rbind (readE m src (i + so)) (\<lambda>e.
     rbind (write_element m dst e (i + wo)) (\<lambda>(_, m'). heap_copy m' src so dst wo is))"

lemma write_element_pool:
  assumes inv: "pool_inv frees good m (a # as)"
  shows "\<exists>r m'. write_element m a e i = Inr (r, m') \<and> pool_inv frees good m' (a # as) \<and>
    WRITE_ARRAY RIOT (contents m a) e i = Inr (contents m' a) \<and> kept m m' as \<and>
    storage m' = storage m"
proof (cases "i < asize a")
  case True
  have ab: "array_blocks m a (blocks m a)" using inv by (simp add: pool_inv_Cons array_ok_def)
  from write_element_in [OF ab True, of e] obtain m' where
    w: "write_element m a e i = Inr (1, m')" "array_blocks m' a (blocks m a)"
    "contents m' a = (contents m a)[i := e]" "storage m' = storage m" by blast
  have "walk (MEMORY m) (head a) i = Inr (blocks m a ! i)" "blocks m a ! i \<in> set (blocks m a)"
    using ab True by (auto simp: array_blocks_def intro: walk_chain)
  then have "same_outside (set (blocks m a)) m m'"
    using w(1) True by (auto simp: write_element_def same_outside_def)
  moreover have disj: "set (blocks m a) \<inter> set (concat (map (blocks m) as)) = {}"
    "frees (storage m') \<inter> set (concat (map (blocks m) as)) = {}" "good (storage m')"
    and inv': "pool_inv frees good m as"
    using inv w(4) by (auto simp: pool_inv_Cons) (auto simp: pool_inv_def)
  ultimately have fr: "pool_inv frees good m' as" "map (blocks m') as = map (blocks m) as"
    "map (contents m') as = map (contents m) as"
    using pool_frame [OF inv', of "set (blocks m a)" m'] by auto
  have "pool_inv frees good m' (a # as)"
    using fr(1) inv w(2,4) disj(1) unfolding pool_inv_Cons fr(2) by (auto simp: array_okI blocks_eq)
  with w fr True ab show ?thesis
    by (auto simp: kept_def WRITE_ARRAY_def length_contents)
next
  case False
  with inv show ?thesis
    by (auto simp: write_element_def WRITE_ARRAY_def length_contents pool_inv_Cons array_ok_def)
qed

lemma heap_writes_pool:
  assumes "pool_inv frees good m (a # as)"
  shows "\<exists>m'. heap_writes m a ws = Inr m' \<and> pool_inv frees good m' (a # as) \<and>
    write_all (WRITE_ARRAY RIOT) (contents m a) ws = Inr (contents m' a) \<and> kept m m' as \<and>
    storage m' = storage m"
  using assms
proof (induction ws arbitrary: m)
  case Nil
  then show ?case by (simp add: heap_writes_def)
next
  case (Cons w ws)
  obtain i e where w: "w = (i, e)" by (cases w)
  from write_element_pool [OF Cons.prems, of e i] obtain r m1 where
    m1: "write_element m a e i = Inr (r, m1)" "pool_inv frees good m1 (a # as)"
    "WRITE_ARRAY RIOT (contents m a) e i = Inr (contents m1 a)" "kept m m1 as"
    "storage m1 = storage m" by blast
  from Cons.IH [OF m1(2)] m1 w show ?case
    by (auto simp: heap_writes_def chain_write_def intro: kept_trans)
qed

lemma readE_pool:
  assumes "pool_inv frees good m as" and "a \<in> set as"
  shows "readE m a i = READ_ARRAY RIOT (contents m a) i"
proof -
  have ab: "array_blocks m a (blocks m a)" using assms by (simp add: pool_inv_def array_ok_def)
  show ?thesis
  proof (cases "i < asize a")
    case True
    with read_element_in [OF ab True] ab show ?thesis
      by (simp add: readE_def READ_ARRAY_def length_contents)
  next
    case False
    with ab show ?thesis
      by (simp add: readE_def read_element_def READ_ARRAY_def length_contents)
  qed
qed

lemma heap_copy_pool:
  assumes "pool_inv frees good m (dst # as)" and "src \<in> set as"
  shows "case copy_elements RIOT (contents m src) so (contents m dst) wo is of
      Inl e \<Rightarrow> heap_copy m src so dst wo is = Inl e
    | Inr bs \<Rightarrow> \<exists>m'. heap_copy m src so dst wo is = Inr m' \<and> pool_inv frees good m' (dst # as) \<and>
        contents m' dst = bs \<and> kept m m' as \<and> storage m' = storage m"
  using assms(1)
proof (induction "is" arbitrary: m)
  case Nil
  then show ?case by simp
next
  case (Cons i "is")
  have rd: "readE m src (i + so) = READ_ARRAY RIOT (contents m src) (i + so)"
    using readE_pool [OF Cons.prems, of src] assms(2) by simp
  show ?case
  proof (cases "READ_ARRAY RIOT (contents m src) (i + so)")
    case (Inl e)
    with rd show ?thesis by simp
  next
    case (Inr e)
    from write_element_pool [OF Cons.prems, of e "i + wo"] obtain r m1 where
      m1: "write_element m dst e (i + wo) = Inr (r, m1)" "pool_inv frees good m1 (dst # as)"
      "WRITE_ARRAY RIOT (contents m dst) e (i + wo) = Inr (contents m1 dst)" "kept m m1 as"
      "storage m1 = storage m" by blast
    have "contents m1 src = contents m src" using m1(4) assms(2) by (simp add: kept_def)
    with Cons.IH [OF m1(2)] rd Inr m1 show ?thesis
      by (auto split: sum.splits intro: kept_trans)
  qed
qed

section \<open>Packets\<close>

definition empty_array :: array_t where
  "empty_array = \<lparr>head = None, asize = 0\<rparr>"

record mem_packet =
  mp_type :: u8
  mp_size :: u8
  mp_destination :: node_id
  mp_data :: array_t

definition abs_packet :: "'s memory \<Rightarrow> mem_packet \<Rightarrow> DataPacket_t" where
  "abs_packet m p = \<lparr>ptype = mp_type p, psize = mp_size p, destination_id = mp_destination p,
     data = contents m (mp_data p)\<rparr>"

text \<open>
  A local variable of type \<open>array_t\<close> given to \<open>create_array\<close>. When that fails the variable stays
  without a value; every function goes on to use it.
\<close>

definition local_array :: "'s memarray \<Rightarrow> 's memory \<Rightarrow> nat \<Rightarrow> (array_t \<times> 's memory) result" where
  "local_array api m n =
     rbind (create_array api m empty_array n) (\<lambda>(r, a, m').
       if r = 0 then Inl Uninitialised_read else Inr (a, m'))"

definition heap_packet_create :: "'s memarray \<Rightarrow> 's memory \<Rightarrow> mem_packet \<Rightarrow> u8 \<Rightarrow> node_id \<Rightarrow> array_t \<Rightarrow> u8 \<Rightarrow>
    (mem_packet \<times> 's memory) result" where
  "heap_packet_create api m p ty dest src sz =
     assert_that (0 \<le> sint ty \<and> sint ty < 10)
     (assert_that (0 < sz)
     (rbind (create_array api m (mp_data p) (unat sz)) (\<lambda>(_, d, m1).
      rbind (heap_copy m1 src 0 d 0 [0..<unat sz]) (\<lambda>m2.
        Inr (\<lparr>mp_type = ty, mp_size = sz, mp_destination = dest, mp_data = d\<rparr>, m2)))))"

definition heap_packet_clear :: "'s memarray \<Rightarrow> 's memory \<Rightarrow> mem_packet \<Rightarrow> (mem_packet \<times> 's memory) result" where
  "heap_packet_clear api m p =
     rbind (release api m (mp_data p)) (\<lambda>(d, m').
       Inr (\<lparr>mp_type = - 1, mp_size = 0, mp_destination = (0, 0), mp_data = d\<rparr>, m'))"

definition heap_packet_destroy :: "'s memarray \<Rightarrow> 's memory \<Rightarrow> mem_packet \<Rightarrow> (mem_packet \<times> 's memory) result" where
  "heap_packet_destroy api m p =
     rbind (release api m (mp_data p)) (\<lambda>(d, m'). Inr (p\<lparr>mp_data := d, mp_type := - 1\<rparr>, m'))"

definition heap_packet_bytestring :: "'s memarray \<Rightarrow> 's memory \<Rightarrow> mem_packet \<Rightarrow> (array_t \<times> 's memory) result" where
  "heap_packet_bytestring api m p =
     rbind (local_array api m PACKET_SIZE_MAC) (\<lambda>(a, m1).
     rbind (heap_writes m1 a (data_field_writes
        \<lparr>ptype = mp_type p, psize = mp_size p, destination_id = mp_destination p, data = []\<rparr>)) (\<lambda>m2.
     rbind (heap_copy m2 (mp_data p) 0 a 18 [0..<unat (mp_size p)]) (\<lambda>m3.
     rbind (if unat (mp_size p) < PACKET_SIZE_MAC - 18
            then heap_writes m3 a (map (\<lambda>i. (i + 18, 0)) [unat (mp_size p)..<PACKET_SIZE_MAC - 18])
            else Inr m3) (\<lambda>m4. Inr (a, m4)))))"

definition heap_packet_construct ::
    "'s memarray \<Rightarrow> 's memory \<Rightarrow> mem_packet \<Rightarrow> array_t \<Rightarrow> (mem_packet \<times> 's memory) result" where
  "heap_packet_construct api m p bs =
     rbind (chain_read (m, bs) 0) (\<lambda>ty.
     rbind (read_word chain_read (m, bs) [(1, 56), (2, 48), (3, 40), (4, 32), (5, 24), (6, 16), (7, 8), (8, 0)]) (\<lambda>dest0.
     rbind (read_word chain_read (m, bs) [(9, 56), (10, 48), (11, 40), (12, 32), (13, 24), (14, 16), (15, 8), (16, 0)]) (\<lambda>dest1.
     rbind (chain_read (m, bs) 17) (\<lambda>sz.
     rbind (release api m (mp_data p)) (\<lambda>(d, m1).
     rbind (create_array api m1 d (unat sz)) (\<lambda>(_, d', m2).
     rbind (heap_copy m2 bs 18 d' 0 [0..<unat sz]) (\<lambda>m3.
       Inr (\<lparr>mp_type = ty, mp_size = sz, mp_destination = (dest0, dest1), mp_data = d'\<rparr>, m3))))))))"

lemma pool_inv_empty [simp]: "pool_inv frees good m (empty_array # as) = pool_inv frees good m as"
  by (auto simp: pool_inv_Cons array_ok_def array_blocks_def blocks_def empty_array_def)

lemma contents_empty [simp]: "contents m empty_array = []"
  by (simp add: contents_def empty_array_def)

lemma asize_empty [simp]: "asize empty_array = 0"
  by (simp add: empty_array_def)

lemma data_field_writes_abs:
  "data_field_writes \<lparr>ptype = mp_type p, psize = mp_size p, destination_id = mp_destination p, data = []\<rparr> =
    data_field_writes (abs_packet m p)"
  by (simp add: data_field_writes_def abs_packet_def)

lemma abs_packet_kept:
  "kept m m' as \<Longrightarrow> mp_data p \<in> set as \<Longrightarrow> abs_packet m' p = abs_packet m p"
  by (simp add: kept_def abs_packet_def)

lemma local_array_pool:
  assumes "memarray_ok api frees good" and "pool_inv frees good m as" and "0 < n"
  shows "if n \<le> card (frees (storage m))
    then \<exists>a m'. local_array api m n = Inr (a, m') \<and> pool_inv frees good m' (a # as) \<and> asize a = n \<and>
      contents m' a = replicate n 0 \<and> kept m m' as \<and> card (frees (storage m')) + n = card (frees (storage m))
    else local_array api m n = Inl Uninitialised_read"
  using create_array_pool [OF assms(1,2), of empty_array n] assms(3)
  by (auto simp: local_array_def split: if_splits)

text \<open>
  The encoder over the pool: with 256 free blocks it does what the encoder over lists does, takes
  256 blocks for the byte string and leaves all other arrays alone; with fewer it
  uses a variable without a value.
\<close>

lemma heap_packet_bytestring_pool:
  assumes ok: "memarray_ok api frees good" and inv: "pool_inv frees good m as"
    and p: "mp_data p \<in> set as"
  shows "if 256 \<le> card (frees (storage m))
    then (case datapacket_get_packet_bytestring RIOT junk (abs_packet m p) of
        Inl e \<Rightarrow> heap_packet_bytestring api m p = Inl e
      | Inr bs \<Rightarrow> \<exists>a m'. heap_packet_bytestring api m p = Inr (a, m') \<and>
          pool_inv frees good m' (a # as) \<and> asize a = 256 \<and> contents m' a = bs \<and> kept m m' as \<and>
          card (frees (storage m')) + 256 = card (frees (storage m)))
    else heap_packet_bytestring api m p = Inl Uninitialised_read"
proof (cases "256 \<le> card (frees (storage m))")
  case True
  with local_array_pool [OF ok inv, of 256] obtain a m1 where m1:
    "local_array api m 256 = Inr (a, m1)" "pool_inv frees good m1 (a # as)" "asize a = 256"
    "contents m1 a = replicate 256 0" "kept m m1 as"
    "card (frees (storage m1)) + 256 = card (frees (storage m))" by auto
  from heap_writes_pool [OF m1(2), of "data_field_writes (abs_packet m p)"] obtain m2 where m2:
    "heap_writes m1 a (data_field_writes (abs_packet m p)) = Inr m2" "pool_inv frees good m2 (a # as)"
    "write_all (WRITE_ARRAY RIOT) (replicate 256 0) (data_field_writes (abs_packet m p)) = Inr (contents m2 a)"
    "kept m1 m2 as" "storage m2 = storage m1" unfolding m1(4) by blast
  have data: "contents m2 (mp_data p) = data (abs_packet m p)"
    using m1(5) m2(4) p by (simp add: kept_def abs_packet_def)
  have size: "mp_size p = psize (abs_packet m p)" by (simp add: abs_packet_def)
  note copy = heap_copy_pool [OF m2(2) p, of 0 18 "[0..<unat (mp_size p)]"]
  show ?thesis
  proof (cases "copy_elements RIOT (data (abs_packet m p)) 0 (contents m2 a) 18 [0..<unat (mp_size p)]")
    case (Inl e)
    with copy m1(1) m2(1,3) True show ?thesis
      by (simp add: heap_packet_bytestring_def datapacket_get_packet_bytestring_def new_array_def data
          size data_field_writes_abs [of p m, unfolded size])
  next
    case (Inr bs3)
    with copy obtain m3 where m3: "heap_copy m2 (mp_data p) 0 a 18 [0..<unat (mp_size p)] = Inr m3"
      "pool_inv frees good m3 (a # as)" "contents m3 a = bs3" "kept m2 m3 as" "storage m3 = storage m2"
      by (auto simp: data)
    let ?ws = "if unat (mp_size p) < 238 then map (\<lambda>i. (i + 18, 0)) [unat (mp_size p)..<238] else []"
    from heap_writes_pool [OF m3(2), of ?ws] obtain m4 where m4:
      "heap_writes m3 a ?ws = Inr m4" "pool_inv frees good m4 (a # as)"
      "write_all (WRITE_ARRAY RIOT) bs3 ?ws = Inr (contents m4 a)" "kept m3 m4 as"
      "storage m4 = storage m3" unfolding m3(3) by blast
    have nil: "heap_writes m a [] = Inr m" for m :: "'a memory" and a by (simp add: heap_writes_def)
    have "heap_packet_bytestring api m p = Inr (a, m4)"
      using m1(1) m2(1) m3(1) m4(1)
      by (simp add: heap_packet_bytestring_def data_field_writes_abs [of p m] nil split: if_splits)
    moreover have "datapacket_get_packet_bytestring RIOT junk (abs_packet m p) = Inr (contents m4 a)"
      using m2(3) Inr m4(3)
      by (simp add: datapacket_get_packet_bytestring_def new_array_def size split: if_splits)
    moreover have "kept m m4 as" using m1(5) m2(4) m3(4) m4(4) by (blast intro: kept_trans)
    moreover have "storage m4 = storage m1" using m2(5) m3(5) m4(5) by simp
    ultimately show ?thesis using m4(2) m1(3,6) True by simp
  qed
next
  case False
  with local_array_pool [OF ok inv, of 256] show ?thesis by (simp add: heap_packet_bytestring_def)
qed

lemma pool_inv_empties [simp]: "pool_inv frees good m (replicate k empty_array) = good (storage m)"
proof (induction k)
  case 0
  show ?case by (simp add: pool_inv_def)
qed simp

lemma used_empties [simp]: "used (replicate k empty_array) = 0"
  by (simp add: used_def)

lemma chain_reads_pool:
  assumes "pool_inv frees good m as" and "a \<in> set as"
  shows "chain_read (m, a) i = READ_ARRAY RIOT (contents m a) i"
    and "read_word chain_read (m, a) ls = read_word (READ_ARRAY RIOT) (contents m a) ls"
proof -
  show rd: "chain_read (m, a) i = READ_ARRAY RIOT (contents m a) i" for i
    using readE_pool [OF assms] by (simp add: chain_read_def)
  have "read_list chain_read (m, a) is = read_list (READ_ARRAY RIOT) (contents m a) is" for "is"
    by (induction "is") (simp_all add: rd)
  then show "read_word chain_read (m, a) ls = read_word (READ_ARRAY RIOT) (contents m a) ls"
    by (simp add: read_word_def)
qed

lemma pool_inv_swap: "pool_inv frees good m (a # b # as) = pool_inv frees good m (b # a # as)"
  by (rule pool_inv_mset) simp

text \<open>
  Releasing the array of a packet and creating it anew: it either gets the size asked for, or, when
  too few blocks are free, none.
\<close>

lemma renew_pool:
  assumes ok: "memarray_ok api frees good" and inv: "pool_inv frees good m (d # as)"
  shows "\<exists>m1 r d' m2. release api m d = Inr (empty_array, m1) \<and>
    create_array api m1 empty_array n = Inr (r, d', m2) \<and> pool_inv frees good m2 (d' # as) \<and>
    kept m m2 as \<and> card (frees (storage m2)) + asize d' = card (frees (storage m)) + asize d \<and>
    contents m2 d' = replicate (asize d') 0 \<and>
    asize d' = (if n \<le> card (frees (storage m)) + asize d then n else 0)"
proof -
  from release_pool [OF ok inv] obtain m1 where m1: "release api m d = Inr (empty_array, m1)"
    "pool_inv frees good m1 as" "kept m m1 as"
    "card (frees (storage m1)) = card (frees (storage m)) + asize d"
    unfolding empty_array_def by blast
  from create_array_pool [OF ok m1(2), of empty_array n] obtain r d' m2 where
    m2: "create_array api m1 empty_array n = Inr (r, d', m2)" and
    res: "if 0 < n \<and> n \<le> card (frees (storage m1))
      then r = 1 \<and> pool_inv frees good m2 (d' # as) \<and> asize d' = n \<and> contents m2 d' = replicate n 0 \<and>
        kept m1 m2 as \<and> card (frees (storage m2)) + n = card (frees (storage m1))
      else r = 0 \<and> d' = empty_array \<and> m2 = m1" by blast
  show ?thesis
  proof (cases "0 < n \<and> n \<le> card (frees (storage m1))")
    case True
    with res m1 m2 show ?thesis by (auto intro: kept_trans)
  next
    case False
    with res m1 m2 show ?thesis by auto
  qed
qed

text \<open>
  The decoder over the pool, whatever memory there is: when it returns, all arrays are in order and
  the blocks of the packet are accounted for.
\<close>

lemma heap_packet_construct_pool:
  assumes ok: "memarray_ok api frees good" and inv: "pool_inv frees good m (mp_data p # bs # as)"
    and res: "heap_packet_construct api m p bs = Inr (p', m')"
  shows "pool_inv frees good m' (mp_data p' # bs # as) \<and> kept m m' (bs # as) \<and>
    card (frees (storage m')) + asize (mp_data p') = card (frees (storage m)) + asize (mp_data p)"
proof -
  from res obtain ty dest0 dest1 sz where sz: "chain_read (m, bs) 17 = Inr sz"
    and res': "rbind (release api m (mp_data p)) (\<lambda>(d, m1).
     rbind (create_array api m1 d (unat sz)) (\<lambda>(_, d', m2).
     rbind (heap_copy m2 bs 18 d' 0 [0..<unat sz]) (\<lambda>m3.
       Inr (\<lparr>mp_type = ty, mp_size = sz, mp_destination = (dest0, dest1), mp_data = d'\<rparr>, m3)))) =
     Inr (p', m')"
    unfolding heap_packet_construct_def by (auto simp: rbind_eq_Inr)
  from renew_pool [OF ok inv, of "unat sz"] obtain m1 r d' m2 where
    d': "release api m (mp_data p) = Inr (empty_array, m1)"
    "create_array api m1 empty_array (unat sz) = Inr (r, d', m2)"
    "pool_inv frees good m2 (d' # bs # as)" "kept m m2 (bs # as)"
    "card (frees (storage m2)) + asize d' = card (frees (storage m)) + asize (mp_data p)" by blast
  note copy = heap_copy_pool [OF d'(3), of bs 18 0 "[0..<unat sz]"]
  from res' d'(1,2) obtain m3 where m3: "heap_copy m2 bs 18 d' 0 [0..<unat sz] = Inr m3"
    "p' = \<lparr>mp_type = ty, mp_size = sz, mp_destination = (dest0, dest1), mp_data = d'\<rparr>" "m' = m3"
    by (auto simp: rbind_eq_Inr)
  with copy have "pool_inv frees good m3 (d' # bs # as)" "kept m2 m3 (bs # as)"
    "storage m3 = storage m2"
    by (auto split: sum.splits)
  with m3 d'(4,5) show ?thesis by (auto intro: kept_trans)
qed

text \<open>With enough memory the decoder does what the decoder over lists does.\<close>

lemma heap_packet_construct_refines:
  assumes ok: "memarray_ok api frees good" and inv: "pool_inv frees good m (mp_data p # bs # as)"
    and list: "datapacket_construct_from_bytestring RIOT junk (abs_packet m p) (contents m bs) = Inr pkt"
    and mem: "unat (psize pkt) \<le> card (frees (storage m)) + asize (mp_data p)"
  shows "\<exists>p' m'. heap_packet_construct api m p bs = Inr (p', m') \<and> abs_packet m' p' = pkt \<and>
    asize (mp_data p') = unat (psize pkt)"
proof -
  note rd = chain_reads_pool [OF inv, of bs]
  from list obtain ty dest0 dest1 sz arr where hdr: "READ_ARRAY RIOT (contents m bs) 0 = Inr ty"
    "read_word (READ_ARRAY RIOT) (contents m bs) [(1, 56), (2, 48), (3, 40), (4, 32), (5, 24), (6, 16), (7, 8), (8, 0)] = Inr dest0"
    "read_word (READ_ARRAY RIOT) (contents m bs) [(9, 56), (10, 48), (11, 40), (12, 32), (13, 24), (14, 16), (15, 8), (16, 0)] = Inr dest1"
    "READ_ARRAY RIOT (contents m bs) 17 = Inr sz"
    "copy_elements RIOT (contents m bs) 18 (replicate (unat sz) 0) 0 [0..<unat sz] = Inr arr"
    "pkt = (abs_packet m p)\<lparr>ptype := ty, destination_id := (dest0, dest1), psize := sz, data := arr\<rparr>"
    unfolding datapacket_construct_from_bytestring_def by (auto simp: rbind_eq_Inr new_array_def)
  from renew_pool [OF ok inv, of "unat sz"] mem hdr(6) obtain m1 r d' m2 where
    d': "release api m (mp_data p) = Inr (empty_array, m1)"
    "create_array api m1 empty_array (unat sz) = Inr (r, d', m2)"
    "pool_inv frees good m2 (d' # bs # as)" "kept m m2 (bs # as)"
    "asize d' = unat sz" "contents m2 d' = replicate (unat sz) 0" by auto
  have "contents m2 bs = contents m bs" using d'(4) by (simp add: kept_Cons)
  with heap_copy_pool [OF d'(3), of bs 18 0 "[0..<unat sz]"] hdr(5) d'(6) obtain m3 where
    "heap_copy m2 bs 18 d' 0 [0..<unat sz] = Inr m3" "contents m3 d' = arr" by auto
  with d' hdr show ?thesis
    by (simp add: rd heap_packet_construct_def abs_packet_def)
qed

lemma heap_packet_clear_pool:
  assumes "memarray_ok api frees good" and "pool_inv frees good m (mp_data p # as)"
  shows "\<exists>p' m'. heap_packet_clear api m p = Inr (p', m') \<and> mp_data p' = empty_array \<and>
    abs_packet m' p' = datapacket_clear (abs_packet m p) \<and> pool_inv frees good m' as \<and> kept m m' as \<and>
    card (frees (storage m')) = card (frees (storage m)) + asize (mp_data p)"
  using release_pool [OF assms]
  by (auto simp: heap_packet_clear_def abs_packet_def datapacket_clear_def empty_array_def contents_def)

text \<open>
  \<open>datapacket_create\<close> makes the new array without releasing the one the packet had: the packet
  gets the payload, and the old array stays behind with nobody holding it. \<open>datapacket_destroy\<close> does
  release it.
\<close>

lemma heap_packet_create_pool:
  assumes ok: "memarray_ok api frees good" and inv: "pool_inv frees good m (mp_data p # as)"
    and src: "src \<in> set as" and mem: "unat sz \<le> card (frees (storage m))"
    and list: "datapacket_create RIOT junk (abs_packet m p) ty dest (contents m src) sz = Inr pkt"
  shows "\<exists>p' m'. heap_packet_create api m p ty dest src sz = Inr (p', m') \<and> abs_packet m' p' = pkt \<and>
    pool_inv frees good m' (mp_data p' # mp_data p # as) \<and>
    card (frees (storage m')) + unat sz = card (frees (storage m))"
proof -
  from list obtain arr where ty: "0 \<le> sint ty \<and> sint ty < 10" and sz: "0 < sz"
    and arr: "copy_elements RIOT (contents m src) 0 (replicate (unat sz) 0) 0 [0..<unat sz] = Inr arr"
    and pkt: "pkt = (abs_packet m p)\<lparr>destination_id := dest, ptype := ty, psize := sz, data := arr\<rparr>"
    by (auto simp: datapacket_create_def assert_that_eq_Inr rbind_eq_Inr new_array_def Let_def)
  from sz have "0 < unat sz" by (simp add: unat_gt_0 word_gt_0)
  with create_array_pool [OF ok inv, of "mp_data p" "unat sz"] mem obtain d m1 where
    d: "create_array api m (mp_data p) (unat sz) = Inr (1, d, m1)"
    "pool_inv frees good m1 (d # mp_data p # as)" "contents m1 d = replicate (unat sz) 0"
    "kept m m1 (mp_data p # as)" "card (frees (storage m1)) + unat sz = card (frees (storage m))"
    by auto
  have "contents m1 src = contents m src" using d(4) src by (simp add: kept_def)
  with heap_copy_pool [OF d(2), of src 0 0 "[0..<unat sz]"] src arr d(3) obtain m2 where
    "heap_copy m1 src 0 d 0 [0..<unat sz] = Inr m2" "pool_inv frees good m2 (d # mp_data p # as)"
    "contents m2 d = arr" "storage m2 = storage m1" by auto
  with d ty sz pkt show ?thesis by (simp add: heap_packet_create_def abs_packet_def)
qed

lemma heap_packet_destroy_pool:
  assumes "memarray_ok api frees good" and "pool_inv frees good m (mp_data p # as)"
  shows "\<exists>p' m'. heap_packet_destroy api m p = Inr (p', m') \<and>
    abs_packet m' p' = datapacket_destroy (abs_packet m p) \<and> pool_inv frees good m' as \<and>
    card (frees (storage m')) = card (frees (storage m)) + asize (mp_data p)"
  using release_pool [OF assms]
  by (auto simp: heap_packet_destroy_def abs_packet_def datapacket_destroy_def contents_def Let_def)

end
