(* ===== verification/Mac_Memory.thy ===== *)
theory Mac_Memory
  imports Packet_Memory Packet_Handlers Power_Mode
begin

text \<open>
  The functions of the MAC layer that allocate, over the block pool: reading messages from the upper
  layers, writing to the routing layer, sending and receiving data packets, sending control and CF
  packets, receiving control packets in the native build, and the release of the packets in FINISHP and in
  \<open>MAC_internals_clear\<close>.

  \<open>('s, 'k) heap_world\<close> is a world whose data packets are in the pool: \<open>heap_packets\<close> holds the ten
  packets with messages to send, the ten with control messages and the twenty received ones, in this
  order; the packets in the field \<open>world\<close> are not used.
\<close>

section \<open>The world with its pool\<close>

record ('s, 'k) heap_world =
  pool :: "'s memory"
  heap_packets :: "mem_packet list"
  world :: "'k world"

definition message_slot :: "nat \<Rightarrow> nat" where "message_slot i = i"
definition control_slot :: "nat \<Rightarrow> nat" where "control_slot i = MAX_NUMBER_DATA_PACKETS + i"
definition received_slot :: "nat \<Rightarrow> nat" where "received_slot i = 2 * MAX_NUMBER_DATA_PACKETS + i"

definition with_packets :: "DataPacket_t list \<Rightarrow> MAC_Internals_t \<Rightarrow> MAC_Internals_t" where
  "with_packets ps m = m\<lparr>message_packets_to_send := take MAX_NUMBER_DATA_PACKETS ps,
     control_packets_to_send := take MAX_NUMBER_DATA_PACKETS (drop MAX_NUMBER_DATA_PACKETS ps),
     packets_received := drop (2 * MAX_NUMBER_DATA_PACKETS) ps\<rparr>"

text \<open>The world as the model over lists sees it.\<close>

definition abs_world :: "('s, 'k) heap_world \<Rightarrow> 'k world" where
  "abs_world hw = on_mclmac (on_mac (with_packets (map (abs_packet (pool hw)) (heap_packets hw)))) (world hw)"

definition on_internals :: "(MAC_Internals_t \<Rightarrow> MAC_Internals_t) \<Rightarrow> ('s, 'k) heap_world \<Rightarrow> ('s, 'k) heap_world" where
  "on_internals f hw = hw\<lparr>world := on_mclmac (on_mac f) (world hw)\<rparr>"

section \<open>Operations on packets in the pool\<close>

definition construct_at ::
    "'s memarray \<Rightarrow> nat \<Rightarrow> array_t \<Rightarrow> ('s, 'k) heap_world \<Rightarrow> ('s, 'k) heap_world result" where
  "construct_at api k bs hw =
     rbind (heap_packet_construct api (pool hw) (heap_packets hw ! k) bs) (\<lambda>(p, m).
       Inr (hw\<lparr>pool := m, heap_packets := (heap_packets hw)[k := p]\<rparr>))"

definition clear_at ::
    "'s memarray \<Rightarrow> nat \<Rightarrow> ('s, 'k) heap_world \<Rightarrow> ('s, 'k) heap_world result" where
  "clear_at api k hw =
     rbind (heap_packet_clear api (pool hw) (heap_packets hw ! k)) (\<lambda>(p, m).
       Inr (hw\<lparr>pool := m, heap_packets := (heap_packets hw)[k := p]\<rparr>))"

text \<open>\<open>free_array\<close> of a local variable.\<close>

definition free_local ::
    "'s memarray \<Rightarrow> array_t \<Rightarrow> ('s, 'k) heap_world \<Rightarrow> ('s, 'k) heap_world result" where
  "free_local api a hw =
     (case free_array api (pool hw) a of
       None \<Rightarrow> Inl Blocked
     | Some (_, _, m) \<Rightarrow> Inr (hw\<lparr>pool := m\<rparr>))"

definition heap_store_message ::
    "'s memarray \<Rightarrow> array_t \<Rightarrow> ('s, 'k) heap_world \<Rightarrow> ('s, 'k) heap_world result" where
  "heap_store_message api bs hw =
     (let last = unat (last_send_message (internals (world hw)))
      in if last < MAX_NUMBER_DATA_PACKETS
         then rbind (construct_at api (message_slot last) bs hw) (\<lambda>hw'.
           Inr (on_internals (\<lambda>m. m\<lparr>last_send_message := last_send_message m + 1,
             packets_to_send_message := packets_to_send_message m + 1\<rparr>) hw'))
         else Inl Out_of_bounds)"

definition heap_store_control ::
    "'s memarray \<Rightarrow> array_t \<Rightarrow> ('s, 'k) heap_world \<Rightarrow> ('s, 'k) heap_world result" where
  "heap_store_control api bs hw =
     (let last = unat (last_send_control (internals (world hw)))
      in if last < MAX_NUMBER_DATA_PACKETS
         then rbind (construct_at api (control_slot last) bs hw) (\<lambda>hw'.
           Inr (on_internals (\<lambda>m. m\<lparr>last_send_control := last_send_control m + 1,
             packets_to_send_control := packets_to_send_control m + 1\<rparr>) hw'))
         else Inl Out_of_bounds)"

text \<open>A message goes to the queue of its type; one of another type is dropped.\<close>

definition heap_store_queued ::
    "'s memarray \<Rightarrow> array_t \<Rightarrow> nat \<Rightarrow> ('s, 'k) heap_world \<Rightarrow> (nat \<times> ('s, 'k) heap_world) result" where
  "heap_store_queued api bs ty hw =
     (if ty \<ge> 7 \<and> ty < 10 then rbind (heap_store_message api bs hw) (\<lambda>h. Inr (1, h))
      else if ty \<ge> 2 \<and> ty < 7 then rbind (heap_store_control api bs hw) (\<lambda>h. Inr (1, h))
      else Inr (0, hw))"

definition heap_read_queue_element ::
    "'k rtos \<Rightarrow> 's memarray \<Rightarrow> ('s, 'k) heap_world \<Rightarrow> (nat \<times> ('s, 'k) heap_world) result" where
  "heap_read_queue_element os api hw =
     (let w = world hw; m = internals w
      in assert_that (unat (packets_to_send_message m) \<le> MAX_NUMBER_DATA_PACKETS)
        (assert_that (unat (packets_to_send_control m) \<le> MAX_NUMBER_DATA_PACKETS)
        (if unat (packets_to_send_message m) + unat (packets_to_send_control m)
              = 2 * MAX_NUMBER_DATA_PACKETS
         then Inr (0, hw)
         else
           rbind (elements_on_queue os (kernel w) (mac_queue_id (mclmac w))) (\<lambda>n.
             if n = 0 then Inr (0, hw)
             else
               rbind (recv_message os (ipc_queues w) (kernel w) (mac_queue_id (mclmac w))
                        (replicate MAX_MESSAGE_SIZE 0) MAX_MESSAGE_SIZE 0) (\<lambda>(ret, msg, pid, Q, k).
                 if ret = 0 then Inl Uninitialised_read
                 else
                   rbind (local_array api (pool hw) MAX_MESSAGE_SIZE) (\<lambda>(bs, m1).
                   rbind (heap_writes m1 bs (zip [0..<MAX_MESSAGE_SIZE] msg)) (\<lambda>m2.
                   rbind (heap_store_queued api bs (unat (msg ! 0))
                       (hw\<lparr>pool := m2, world := w\<lparr>ipc_queues := Q, kernel := k\<rparr>\<rparr>)) (\<lambda>(r, h).
                   rbind (free_local api bs h) (\<lambda>h'. Inr (r, h'))))))))))"

text \<open>When \<open>send_message\<close> fails the byte string is not released.\<close>

definition heap_write_queue_element ::
    "'k rtos \<Rightarrow> 's memarray \<Rightarrow> ('s, 'k) heap_world \<Rightarrow> (nat \<times> ('s, 'k) heap_world) result" where
  "heap_write_queue_element os api hw =
     (let w = world hw; m = internals w; first = unat (first_received m);
          qid = routing_queue_id (mclmac w)
      in if number_packets_received m = 0 then Inr (0, hw)
         else if first_received m = last_received m \<and> number_packets_received m = 0 then Inr (0, hw)
         else
           rbind (elements_on_queue os (kernel w) qid) (\<lambda>n.
             if n = MAX_ELEMENTS_ON_QUEUE then Inr (0, hw)
             else if qid = 0 then Inr (0, hw)
             else if first < 2 * MAX_NUMBER_DATA_PACKETS
             then
               rbind (heap_packet_bytestring api (pool hw) (heap_packets hw ! received_slot first)) (\<lambda>(a, m1).
               rbind (read_list chain_read (m1, a) [0..<MAX_MESSAGE_SIZE]) (\<lambda>bs.
               rbind (send_message os (ipc_queues w) (kernel w) qid bs PACKET_SIZE_MAC
                        (self_pid (mclmac w))) (\<lambda>(ret, Q, k).
                 (let hw' = hw\<lparr>pool := m1, world := w\<lparr>ipc_queues := Q, kernel := k\<rparr>\<rparr>
                  in if ret = 0 then Inr (0, hw')
                     else
                       rbind (clear_at api (received_slot first) hw') (\<lambda>h.
                       rbind (free_local api a (on_internals (\<lambda>m. m
                           \<lparr>first_received := of_nat ((first + 1) mod MAX_NUMBER_DATA_PACKETS),
                            number_packets_received := number_packets_received m - 1\<rparr>) h)) (\<lambda>h'.
                         Inr (1, h')))))))
             else Inl Out_of_bounds))"

text \<open>One packet taken from its queue: encode it, clear it, release the byte string.\<close>

definition send_slot :: "'s memarray \<Rightarrow> nat \<Rightarrow> (MAC_Internals_t \<Rightarrow> MAC_Internals_t) \<Rightarrow>
    ('s, 'k) heap_world \<Rightarrow> ('s, 'k) heap_world result" where
  "send_slot api k upd hw =
     rbind (heap_packet_bytestring api (pool hw) (heap_packets hw ! k)) (\<lambda>(a, m1).
     rbind (clear_at api k (hw\<lparr>pool := m1\<rparr>)) (\<lambda>h. free_local api a (on_internals upd h)))"

definition heap_send_data_packet ::
    "'s memarray \<Rightarrow> ('s, 'k) heap_world \<Rightarrow> ('s, 'k) heap_world result" where
  "heap_send_data_packet api hw =
     (let m = internals (world hw)
      in if packets_to_send_message m = 0 \<and> packets_to_send_control m = 0 then Inr hw
         else if unat (first_send_message m) > MAX_NUMBER_DATA_PACKETS then Inr hw
         else if unat (first_send_control m) > MAX_NUMBER_DATA_PACKETS then Inr hw
         else if packets_to_send_control m > 0
         then
           (let first = unat (first_send_control m)
            in if first < MAX_NUMBER_DATA_PACKETS
               then send_slot api (control_slot first) (\<lambda>m. m
                   \<lparr>first_send_control := of_nat ((first + 1) mod MAX_NUMBER_DATA_PACKETS),
                    packets_to_send_control := packets_to_send_control m - 1\<rparr>) hw
               else Inl Out_of_bounds)
         else if packets_to_send_message m > 0
         then
           (let first = unat (first_send_message m)
            in if first < MAX_NUMBER_DATA_PACKETS
               then send_slot api (message_slot first) (\<lambda>m. m
                   \<lparr>first_send_message := of_nat ((first + 1) mod MAX_NUMBER_DATA_PACKETS),
                    packets_to_send_message := packets_to_send_message m - 1\<rparr>) hw
               else Inl Out_of_bounds)
         else Inr hw)"

definition heap_receive_data_packet ::
    "'s memarray \<Rightarrow> ('s, 'k) heap_world \<Rightarrow> (nat \<times> ('s, 'k) heap_world) result" where
  "heap_receive_data_packet api hw =
     rbind (local_array api (pool hw) PACKET_SIZE_MAC) (\<lambda>(bs, m1).
     rbind (heap_writes m1 bs (receive_data_header (mclmac (world hw)))) (\<lambda>m2.
       (case rand_bytes (PACKET_SIZE_MAC - 18) (world hw) of (rs, w') \<Rightarrow>
         rbind (heap_writes m2 bs (zip [18..<PACKET_SIZE_MAC] rs)) (\<lambda>m3.
           (let pos = unat (last_received (internals w'))
            in if pos < 2 * MAX_NUMBER_DATA_PACKETS
               then
                 rbind (construct_at api (received_slot pos) bs (hw\<lparr>pool := m3, world := w'\<rparr>)) (\<lambda>h.
                 rbind (free_local api bs (on_internals (\<lambda>m. m
                     \<lparr>last_received := of_nat ((pos + 1) mod (2 * MAX_NUMBER_DATA_PACKETS)),
                      number_packets_received := number_packets_received m + 1\<rparr>) h)) (\<lambda>h'.
                   Inr (1, h')))
               else Inl Out_of_bounds)))))"

text \<open>
  The native stub that receives a control packet makes a byte string and never releases it. The
  decoder of control packets only reads it, so it sees the contents of the array.
\<close>

definition heap_receive_control_packet ::
    "'s memarray \<Rightarrow> bool \<Rightarrow> ('s, 'k) heap_world \<Rightarrow> (bool \<times> ('s, 'k) heap_world) result" where
  "heap_receive_control_packet api testing hw =
     (if testing \<and> state_ctrl (mclmac (world hw)) = 7 then Inr (False, hw)
      else
        rbind (local_array api (pool hw) MAX_MESSAGE_SIZE) (\<lambda>(bs, m1).
          (case rand_bytes_250 MAX_MESSAGE_SIZE (world hw) of (rs, w1) \<Rightarrow>
            rbind (heap_writes m1 bs
                (zip [0..<MAX_MESSAGE_SIZE] rs @ native_control_writes testing (mclmac (world hw)))) (\<lambda>m2.
            rbind (controlpacket_construct_packet_from_bytestring RIOT (ctrlpkt_recv (internals w1))
                (contents m2 bs)) (\<lambda>pkt.
              Inr (True, hw\<lparr>pool := m2,
                world := on_mclmac (on_mac (ctrlpkt_recv_update (\<lambda>_. pkt))) w1\<rparr>))))))"

text \<open>
  Control and CF packets are not in the pool, but their byte strings are while they are sent; that of
  a control packet has 257 blocks.
\<close>

definition heap_send_control_packet ::
    "'s memarray \<Rightarrow> ('s, 'k) heap_world \<Rightarrow> ('s, 'k) heap_world result" where
  "heap_send_control_packet api hw =
     (case c_rand (world hw) of (n, w1) \<Rightarrow>
       (let pkt = ctrlpkt (internals w1)
        in rbind (local_array api (pool hw) (PACKET_SIZE_MAC + 1)) (\<lambda>(a, m1).
           rbind (heap_writes m1 a (control_header_writes pkt @ control_slots_writes pkt @
               control_padding_writes (of_nat n))) (\<lambda>m2.
             free_local api a (hw\<lparr>pool := m2,
               world := on_mclmac (on_mac (\<lambda>i. i\<lparr>ctrlpkt := controlpacket_clear (ctrlpkt i)\<rparr>)) w1\<rparr>)))))"

definition heap_send_cf_message ::
    "'s memarray \<Rightarrow> ('s, 'k) heap_world \<Rightarrow> ('s, 'k) heap_world result" where
  "heap_send_cf_message api hw =
     (let w1 = on_mclmac mclmac_set_radio_standby (world hw);
          pkt = cf_messages (internals w1) ! 0
      in case c_rand w1 of (n, w2) \<Rightarrow>
        rbind (local_array api (pool hw) PACKET_SIZE_MAC) (\<lambda>(a, m1).
        rbind (heap_writes m1 a (cf_field_writes pkt @ cf_padding_writes (of_nat n))) (\<lambda>m2.
        rbind (ztimer_sleep 1 (on_mclmac mclmac_set_radio_standby w2)) (\<lambda>w3.
          free_local api a (hw\<lparr>pool := m2, world := w3\<rparr>)))))"

text \<open>
  The packets are released in the order of the loops: FINISHP releases all of them,
  \<open>MAC_internals_clear\<close> and \<open>MAC_internals_destroy\<close> only the first ten of the received ones.
\<close>

fun clear_slots ::
    "'s memarray \<Rightarrow> nat list \<Rightarrow> ('s, 'k) heap_world \<Rightarrow> ('s, 'k) heap_world result" where
  "clear_slots api [] hw = Inr hw"
| "clear_slots api (k # ks) hw = rbind (clear_at api k hw) (clear_slots api ks)"

definition finishp_slots :: "nat list" where
  "finishp_slots = concat (map (\<lambda>i. [message_slot i, control_slot i, received_slot i,
     received_slot (i + MAX_NUMBER_DATA_PACKETS)]) [0..<MAX_NUMBER_DATA_PACKETS])"

definition cleared_slots :: "nat list" where
  "cleared_slots = concat (map (\<lambda>i. [message_slot i, control_slot i, received_slot i])
     [0..<MAX_NUMBER_DATA_PACKETS])"

definition heap_finishp :: "'s memarray \<Rightarrow> ('s, 'k) heap_world \<Rightarrow> ('s, 'k) heap_world result" where
  "heap_finishp api hw =
     clear_slots api finishp_slots
       (on_internals (\<lambda>i. reset_packet_counters (i\<lparr>mac_destination_id := (0, 0)\<rparr>)) hw)"

definition heap_internals_clear :: "'s memarray \<Rightarrow> ('s, 'k) heap_world \<Rightarrow> ('s, 'k) heap_world result" where
  "heap_internals_clear api hw =
     rbind (clear_slots api cleared_slots hw) (\<lambda>h. Inr (on_internals MAC_internals_clear h))"

definition heap_internals_destroy :: "'s memarray \<Rightarrow> ('s, 'k) heap_world \<Rightarrow> ('s, 'k) heap_world result" where
  "heap_internals_destroy api hw =
     rbind (clear_slots api cleared_slots hw) (\<lambda>h. Inr (on_internals MAC_internals_destroy h))"

text \<open>\<open>MAC_internals_init\<close> zeroes the structure, arrays included, without releasing them.\<close>

definition heap_internals_init :: "('s, 'k) heap_world \<Rightarrow> ('s, 'k) heap_world" where
  "heap_internals_init hw =
     on_internals (\<lambda>_. MAC_internals_init) (hw\<lparr>heap_packets := replicate (4 * MAX_NUMBER_DATA_PACKETS)
       \<lparr>mp_type = 0, mp_size = 0, mp_destination = (0, 0), mp_data = empty_array\<rparr>\<rparr>)"

section \<open>The blocks of the layer\<close>

definition arrays :: "('s, 'k) heap_world \<Rightarrow> array_t list" where
  "arrays hw = map mp_data (heap_packets hw)"

definition packets_of :: "('s, 'k) heap_world \<Rightarrow> DataPacket_t list" where
  "packets_of hw = map (abs_packet (pool hw)) (heap_packets hw)"

text \<open>
  \<open>heap_inv frees good hw n\<close>: the packets of the layer are in order, and \<open>n\<close> blocks are free or
  hold their payload. \<open>temp_inv\<close> is the same in the middle of a function that has a byte
  string of 256 blocks besides.
\<close>

definition heap_inv :: "('s \<Rightarrow> nat set) \<Rightarrow> ('s \<Rightarrow> bool) \<Rightarrow> ('s, 'k) heap_world \<Rightarrow> nat \<Rightarrow> bool" where
  "heap_inv frees good hw n \<longleftrightarrow> length (heap_packets hw) = 4 * MAX_NUMBER_DATA_PACKETS \<and>
     pool_inv frees good (pool hw) (arrays hw) \<and>
     card (frees (storage (pool hw))) + used (arrays hw) = n"

definition temp_inv ::
    "('s \<Rightarrow> nat set) \<Rightarrow> ('s \<Rightarrow> bool) \<Rightarrow> ('s, 'k) heap_world \<Rightarrow> array_t \<Rightarrow> nat \<Rightarrow> bool" where
  "temp_inv frees good hw bs n \<longleftrightarrow> length (heap_packets hw) = 4 * MAX_NUMBER_DATA_PACKETS \<and>
     pool_inv frees good (pool hw) (bs # arrays hw) \<and> asize bs = PACKET_SIZE_MAC \<and>
     card (frees (storage (pool hw))) + used (arrays hw) + PACKET_SIZE_MAC = n"

lemma heap_views [simp]:
  "arrays (world_update f hw) = arrays hw" "packets_of (world_update f hw) = packets_of hw"
  "arrays (on_internals g hw) = arrays hw" "packets_of (on_internals g hw) = packets_of hw"
  "arrays (hw\<lparr>pool := m\<rparr>) = arrays hw"
  by (simp_all add: arrays_def packets_of_def on_internals_def)

lemma heap_inv_world [simp]:
  "heap_inv frees good (world_update f hw) n = heap_inv frees good hw n"
  "temp_inv frees good (world_update f hw) bs n = temp_inv frees good hw bs n"
  "heap_inv frees good (on_internals g hw) n = heap_inv frees good hw n"
  "temp_inv frees good (on_internals g hw) bs n = temp_inv frees good hw bs n"
  by (simp_all add: heap_inv_def temp_inv_def on_internals_def)

lemma on_internals_fields [simp]:
  "pool (on_internals g hw) = pool hw" "heap_packets (on_internals g hw) = heap_packets hw"
  "world (on_internals g hw) = on_mclmac (on_mac g) (world hw)"
  by (simp_all add: on_internals_def)

text \<open>Taking one packet out of the list.\<close>

definition others :: "nat \<Rightarrow> 'a list \<Rightarrow> 'a list" where
  "others k xs = take k xs @ drop (Suc k) xs"

lemma mset_others: "k < length xs \<Longrightarrow> mset (xs[k := y]) = add_mset y (mset (others k xs))"
  by (simp add: others_def upd_conv_take_nth_drop)

lemma mset_others_nth: "k < length xs \<Longrightarrow> mset xs = add_mset (xs ! k) (mset (others k xs))"
  using mset_others [of k xs "xs ! k"] by simp

lemma map_others: "map f (others k xs) = others k (map f xs)"
  by (simp add: others_def take_map drop_map)

lemma others_eq_update:
  assumes "k < length xs" and "map f (others k xs) = map g (others k xs)"
  shows "map f (xs[k := y]) = (map g xs)[k := f y]"
proof (rule nth_equalityI)
  fix i assume i: "i < length (map f (xs[k := y]))"
  have "f (xs ! i) = g (xs ! i)" if "i \<noteq> k"
  proof -
    have "xs ! i \<in> set (others k xs)"
    proof (cases "i < k")
      case True
      with i assms(1) have "take k xs ! i = xs ! i" "i < length (take k xs)" by simp_all
      then have "xs ! i \<in> set (take k xs)" by (metis nth_mem)
      then show ?thesis by (simp add: others_def)
    next
      case False
      with that i have "drop (Suc k) xs ! (i - Suc k) = xs ! i" "i - Suc k < length (drop (Suc k) xs)"
        by simp_all
      then have "xs ! i \<in> set (drop (Suc k) xs)" by (metis nth_mem)
      then show ?thesis by (simp add: others_def)
    qed
    with assms(2) show ?thesis by simp
  qed
  with i assms(1) show "map f (xs[k := y]) ! i = (map g xs)[k := f y] ! i"
    by (simp add: nth_list_update)
qed simp

lemma pool_focus:
  assumes "k < length ps"
  shows "pool_inv frees good m (ts @ map mp_data ps) =
    pool_inv frees good m (mp_data (ps ! k) # ts @ map mp_data (others k ps))"
  by (rule pool_inv_mset) (use mset_others_nth [of k "map mp_data ps"] assms in \<open>simp add: map_others\<close>)

lemma pool_focus_update:
  assumes "k < length ps"
  shows "pool_inv frees good m (ts @ map mp_data (ps[k := p])) =
    pool_inv frees good m (mp_data p # ts @ map mp_data (others k ps))"
  by (rule pool_inv_mset)
    (use mset_others [of k "map mp_data ps" "mp_data p"] assms in \<open>simp add: map_others map_update\<close>)

lemma used_update:
  assumes "k < length ps"
  shows "used (map mp_data (ps[k := p])) + asize (mp_data (ps ! k)) =
    used (map mp_data ps) + asize (mp_data p)"
proof -
  have "used (map mp_data (ps[k := p])) = used (mp_data p # others k (map mp_data ps))"
    by (rule used_mset) (use mset_others [of k "map mp_data ps" "mp_data p"] assms in \<open>simp add: map_update\<close>)
  moreover have "used (map mp_data ps) = used (mp_data (ps ! k) # others k (map mp_data ps))"
    by (rule used_mset) (use mset_others_nth [of k "map mp_data ps"] assms in simp)
  ultimately show ?thesis by simp
qed

lemma abs_packets_kept:
  "kept m m' (map mp_data ps) \<Longrightarrow> map (abs_packet m') ps = map (abs_packet m) ps"
  by (simp add: kept_def abs_packet_def)

lemma packets_of_kept: "kept (pool hw) m (arrays hw) \<Longrightarrow> packets_of (hw\<lparr>pool := m\<rparr>) = packets_of hw"
  by (simp add: packets_of_def arrays_def abs_packets_kept)

lemma kept_subset: "kept m m' as \<Longrightarrow> set bs \<subseteq> set as \<Longrightarrow> kept m m' bs"
  by (auto simp: kept_def)

section \<open>What each step does to the blocks\<close>

lemma local_array_heap:
  assumes "memarray_ok api frees good" and "heap_inv frees good hw n"
  shows "if 256 \<le> card (frees (storage (pool hw)))
    then \<exists>bs m. local_array api (pool hw) 256 = Inr (bs, m) \<and> temp_inv frees good (hw\<lparr>pool := m\<rparr>) bs n \<and>
      contents m bs = replicate 256 0 \<and> packets_of (hw\<lparr>pool := m\<rparr>) = packets_of hw
    else local_array api (pool hw) 256 = Inl Uninitialised_read"
  using local_array_pool [OF assms(1), of "pool hw" "arrays hw" 256] assms(2)
  by (auto simp: heap_inv_def temp_inv_def packets_of_kept split: if_splits)

lemma heap_writes_heap:
  assumes "temp_inv frees good hw bs n"
  shows "\<exists>m. heap_writes (pool hw) bs ws = Inr m \<and> temp_inv frees good (hw\<lparr>pool := m\<rparr>) bs n \<and>
    write_all (WRITE_ARRAY RIOT) (contents (pool hw) bs) ws = Inr (contents m bs) \<and>
    packets_of (hw\<lparr>pool := m\<rparr>) = packets_of hw"
proof -
  have "pool_inv frees good (pool hw) (bs # arrays hw)" using assms by (simp add: temp_inv_def)
  from heap_writes_pool [OF this, of ws] assms show ?thesis
    by (auto simp: temp_inv_def packets_of_kept)
qed

lemma bytestring_heap:
  assumes ok: "memarray_ok api frees good" and inv: "heap_inv frees good hw n" and k: "k < 40"
  shows "if 256 \<le> card (frees (storage (pool hw)))
    then (case datapacket_get_packet_bytestring RIOT junk (packets_of hw ! k) of
        Inl e \<Rightarrow> heap_packet_bytestring api (pool hw) (heap_packets hw ! k) = Inl e
      | Inr bs \<Rightarrow> \<exists>a m. heap_packet_bytestring api (pool hw) (heap_packets hw ! k) = Inr (a, m) \<and>
          temp_inv frees good (hw\<lparr>pool := m\<rparr>) a n \<and> contents m a = bs \<and>
          packets_of (hw\<lparr>pool := m\<rparr>) = packets_of hw)
    else heap_packet_bytestring api (pool hw) (heap_packets hw ! k) = Inl Uninitialised_read"
proof -
  have len: "k < length (heap_packets hw)" using inv k by (simp add: heap_inv_def)
  then have "mp_data (heap_packets hw ! k) \<in> set (arrays hw)" by (simp add: arrays_def)
  moreover have "pool_inv frees good (pool hw) (arrays hw)" using inv by (simp add: heap_inv_def)
  moreover have "packets_of hw ! k = abs_packet (pool hw) (heap_packets hw ! k)"
    using len by (simp add: packets_of_def)
  ultimately show ?thesis
    using heap_packet_bytestring_pool [OF ok, of "pool hw" "arrays hw" "heap_packets hw ! k" junk] inv
    by (auto simp: heap_inv_def temp_inv_def packets_of_kept split: sum.splits if_splits)
qed

lemma construct_at_heap:
  assumes ok: "memarray_ok api frees good" and inv: "temp_inv frees good hw bs n" and k: "k < 40"
    and res: "construct_at api k bs hw = Inr hw'"
  shows "temp_inv frees good hw' bs n \<and> world hw' = world hw \<and>
    packets_of hw' = (packets_of hw)[k := abs_packet (pool hw') (heap_packets hw' ! k)]"
proof -
  let ?ps = "heap_packets hw"
  have len: "k < length ?ps" using inv k by (simp add: temp_inv_def)
  from res obtain p m where c: "heap_packet_construct api (pool hw) (?ps ! k) bs = Inr (p, m)"
    and hw': "hw' = hw\<lparr>pool := m, heap_packets := ?ps[k := p]\<rparr>"
    by (auto simp: construct_at_def rbind_eq_Inr)
  have "pool_inv frees good (pool hw) (mp_data (?ps ! k) # bs # map mp_data (others k ?ps))"
    using inv pool_focus [OF len, of frees good "pool hw" "[bs]"] by (simp add: temp_inv_def arrays_def)
  from heap_packet_construct_pool [OF ok this c]
  have after: "pool_inv frees good m (mp_data p # bs # map mp_data (others k ?ps))"
    "kept (pool hw) m (bs # map mp_data (others k ?ps))"
    "card (frees (storage m)) + asize (mp_data p) =
     card (frees (storage (pool hw))) + asize (mp_data (?ps ! k))" by blast+
  have "pool_inv frees good m (bs # map mp_data (?ps[k := p]))"
    using after(1) pool_focus_update [OF len, of frees good m "[bs]"] by simp
  moreover have "map (abs_packet m) (others k ?ps) = map (abs_packet (pool hw)) (others k ?ps)"
    using after(2) by (intro abs_packets_kept) (simp add: kept_Cons)
  from others_eq_update [OF len this, of p]
  have "packets_of hw' = (packets_of hw)[k := abs_packet m p]" by (simp add: packets_of_def hw')
  ultimately show ?thesis
    using inv after(3) used_update [OF len, of p] len
    by (simp add: temp_inv_def arrays_def hw')
qed

lemma construct_at_refines:
  assumes ok: "memarray_ok api frees good" and inv: "temp_inv frees good hw bs n" and k: "k < 40"
    and list: "datapacket_construct_from_bytestring RIOT junk (packets_of hw ! k)
      (contents (pool hw) bs) = Inr pkt"
    and mem: "255 \<le> card (frees (storage (pool hw)))"
  shows "\<exists>hw'. construct_at api k bs hw = Inr hw' \<and> temp_inv frees good hw' bs n \<and>
    world hw' = world hw \<and> packets_of hw' = (packets_of hw)[k := pkt]"
proof -
  let ?ps = "heap_packets hw"
  have len: "k < length ?ps" using inv k by (simp add: temp_inv_def)
  have foc: "pool_inv frees good (pool hw) (mp_data (?ps ! k) # bs # map mp_data (others k ?ps))"
    using inv pool_focus [OF len, of frees good "pool hw" "[bs]"] by (simp add: temp_inv_def arrays_def)
  have abs: "packets_of hw ! k = abs_packet (pool hw) (?ps ! k)" using len by (simp add: packets_of_def)
  have "unat (psize pkt) < 256" using unsigned_less [of "psize pkt", where 'a = nat] by simp
  with mem have "unat (psize pkt) \<le> card (frees (storage (pool hw))) + asize (mp_data (?ps ! k))" by simp
  from heap_packet_construct_refines [OF ok foc list [unfolded abs] this] obtain p m where
    p: "heap_packet_construct api (pool hw) (?ps ! k) bs = Inr (p, m)" "abs_packet m p = pkt" by blast
  then have "construct_at api k bs hw = Inr (hw\<lparr>pool := m, heap_packets := ?ps[k := p]\<rparr>)"
    by (simp add: construct_at_def)
  with construct_at_heap [OF ok inv k this] p len show ?thesis by simp
qed

lemma clear_at_pool:
  assumes ok: "memarray_ok api frees good" and len: "k < length (heap_packets hw)"
    and inv: "pool_inv frees good (pool hw) (ts @ arrays hw)"
  shows "\<exists>hw'. clear_at api k hw = Inr hw' \<and> pool_inv frees good (pool hw') (ts @ arrays hw') \<and>
    world hw' = world hw \<and> length (heap_packets hw') = length (heap_packets hw) \<and>
    kept (pool hw) (pool hw') ts \<and>
    card (frees (storage (pool hw'))) + used (arrays hw') =
      card (frees (storage (pool hw))) + used (arrays hw) \<and>
    packets_of hw' = (packets_of hw)[k := datapacket_clear (packets_of hw ! k)] \<and>
    arrays hw' = (arrays hw)[k := empty_array]"
proof -
  let ?ps = "heap_packets hw"
  have foc: "pool_inv frees good (pool hw) (mp_data (?ps ! k) # ts @ map mp_data (others k ?ps))"
    using inv pool_focus [OF len, of frees good "pool hw" ts] by (simp add: arrays_def)
  from heap_packet_clear_pool [OF ok this] obtain p m where
    p: "heap_packet_clear api (pool hw) (?ps ! k) = Inr (p, m)" "mp_data p = empty_array"
    "abs_packet m p = datapacket_clear (abs_packet (pool hw) (?ps ! k))"
    "pool_inv frees good m (ts @ map mp_data (others k ?ps))"
    "kept (pool hw) m (ts @ map mp_data (others k ?ps))"
    "card (frees (storage m)) = card (frees (storage (pool hw))) + asize (mp_data (?ps ! k))" by blast
  let ?hw = "hw\<lparr>pool := m, heap_packets := ?ps[k := p]\<rparr>"
  have "pool_inv frees good m (ts @ map mp_data (?ps[k := p]))"
    using p(2,4) pool_focus_update [OF len, of frees good m ts p] by simp
  moreover have "map (abs_packet m) (others k ?ps) = map (abs_packet (pool hw)) (others k ?ps)"
    using p(5) by (intro abs_packets_kept) (auto intro: kept_subset)
  from others_eq_update [OF len this, of p]
  have "packets_of ?hw = (packets_of hw)[k := datapacket_clear (packets_of hw ! k)]"
    using len p(3) by (simp add: packets_of_def)
  moreover have "kept (pool hw) m ts" using p(5) by (rule kept_subset) simp
  ultimately show ?thesis
    using p(1,2,6) used_update [OF len, of p]
    by (intro exI [of _ ?hw]) (simp add: clear_at_def arrays_def map_update)
qed

lemma clear_at_heap:
  assumes "memarray_ok api frees good" and "heap_inv frees good hw n" and "k < 40"
  shows "\<exists>hw'. clear_at api k hw = Inr hw' \<and> heap_inv frees good hw' n \<and> world hw' = world hw \<and>
    packets_of hw' = (packets_of hw)[k := datapacket_clear (packets_of hw ! k)] \<and>
    arrays hw' = (arrays hw)[k := empty_array]"
  using clear_at_pool [OF assms(1), of k hw "[]"] assms(2,3)
  by (auto simp: heap_inv_def)

lemma clear_at_temp:
  assumes "memarray_ok api frees good" and "temp_inv frees good hw bs n" and "k < 40"
  shows "\<exists>hw'. clear_at api k hw = Inr hw' \<and> temp_inv frees good hw' bs n \<and> world hw' = world hw \<and>
    packets_of hw' = (packets_of hw)[k := datapacket_clear (packets_of hw ! k)]"
  using clear_at_pool [OF assms(1), of k hw "[bs]"] assms(2,3)
  by (auto simp: temp_inv_def)

lemma free_local_heap:
  assumes ok: "memarray_ok api frees good" and inv: "temp_inv frees good hw bs n"
  shows "\<exists>hw'. free_local api bs hw = Inr hw' \<and> heap_inv frees good hw' n \<and> world hw' = world hw \<and>
    packets_of hw' = packets_of hw"
proof -
  have "pool_inv frees good (pool hw) (bs # arrays hw)" "0 < asize bs"
    using inv by (simp_all add: temp_inv_def)
  with release_pool [OF ok this(1)] obtain m where
    m: "release api (pool hw) bs = Inr (\<lparr>head = None, asize = 0\<rparr>, m)"
    "pool_inv frees good m (arrays hw)" "kept (pool hw) m (arrays hw)"
    "card (frees (storage m)) = card (frees (storage (pool hw))) + asize bs" by blast
  then obtain r where "free_array api (pool hw) bs = Some (r, \<lparr>head = None, asize = 0\<rparr>, m)"
    using \<open>0 < asize bs\<close> by (auto simp: release_def split: option.splits)
  with m inv show ?thesis
    by (auto simp: free_local_def heap_inv_def temp_inv_def packets_of_kept)
qed

text \<open>A byte string that is not released is lost.\<close>

lemma temp_inv_forget: "temp_inv frees good hw bs n \<Longrightarrow> heap_inv frees good hw (n - 256)"
  by (auto simp: temp_inv_def heap_inv_def intro: pool_inv_forget)

lemma temp_inv_bound: "temp_inv frees good hw bs n \<Longrightarrow> 256 \<le> n"
  by (simp add: temp_inv_def)

section \<open>Every operation accounts for its blocks\<close>

lemma slot_bounds:
  "i < 10 \<Longrightarrow> message_slot i < 40" "i < 10 \<Longrightarrow> control_slot i < 40" "i < 20 \<Longrightarrow> received_slot i < 40"
  by (simp_all add: message_slot_def control_slot_def received_slot_def)

text \<open>The steps as consequences of a successful run, in the form the operations compose them.\<close>

lemma local_array_step:
  assumes ok: "memarray_ok api frees good" and "heap_inv frees good hw n"
    and "local_array api (pool hw) 256 = Inr (bs, m)"
  shows "temp_inv frees good (hw\<lparr>pool := m\<rparr>) bs n"
  using local_array_heap [OF ok assms(2)] assms(3) by (auto split: if_splits)

lemma heap_writes_step:
  assumes "temp_inv frees good hw bs n" and "heap_writes (pool hw) bs ws = Inr m"
  shows "temp_inv frees good (hw\<lparr>pool := m\<rparr>) bs n"
  using heap_writes_heap [OF assms(1), of ws] assms(2) by auto

lemma bytestring_step:
  assumes ok: "memarray_ok api frees good" and inv: "heap_inv frees good hw n" and k: "k < 40"
    and res: "heap_packet_bytestring api (pool hw) (heap_packets hw ! k) = Inr (a, m)"
  shows "temp_inv frees good (hw\<lparr>pool := m\<rparr>) a n"
proof -
  from bytestring_heap [OF ok inv k, of "\<lambda>_. 0"] res have
    "256 \<le> card (frees (storage (pool hw)))" by (auto split: if_splits)
  with bytestring_heap [OF ok inv k, of "\<lambda>_. 0"] res show ?thesis
    by (cases "datapacket_get_packet_bytestring RIOT (\<lambda>_. 0) (packets_of hw ! k)") auto
qed

lemma construct_at_step:
  assumes ok: "memarray_ok api frees good" and "temp_inv frees good hw bs n" and "k < 40"
    and "construct_at api k bs hw = Inr hw'"
  shows "temp_inv frees good hw' bs n"
  using construct_at_heap [OF assms] by simp

lemma clear_at_step:
  assumes ok: "memarray_ok api frees good" and "temp_inv frees good hw bs n" and "k < 40"
    and "clear_at api k hw = Inr hw'"
  shows "temp_inv frees good hw' bs n"
  using clear_at_temp [OF assms(1-3)] assms(4) by auto

lemma free_local_step:
  assumes ok: "memarray_ok api frees good" and "temp_inv frees good hw bs n"
    and "free_local api bs hw = Inr hw'"
  shows "heap_inv frees good hw' n"
  using free_local_heap [OF assms(1,2)] assms(3) by auto

lemma store_step:
  assumes ok: "memarray_ok api frees good" and "temp_inv frees good hw bs n"
  shows "heap_store_message api bs hw = Inr hw' \<Longrightarrow> temp_inv frees good hw' bs n"
    and "heap_store_control api bs hw = Inr hw' \<Longrightarrow> temp_inv frees good hw' bs n"
  using assms slot_bounds
  by (auto simp: heap_store_message_def heap_store_control_def Let_def rbind_eq_Inr split: if_splits
      dest!: construct_at_step [OF ok, rotated 2])

lemma read_queue_blocks:
  assumes ok: "memarray_ok api frees good" and inv: "heap_inv frees good hw n"
    and res: "heap_read_queue_element os api hw = Inr (r, hw')"
  shows "heap_inv frees good hw' n"
proof (cases "hw' = hw")
  case False
  let ?w = "world hw"
  from res False obtain msg Q k bs m1 m2 h where
    l: "local_array api (pool hw) 256 = Inr (bs, m1)"
    and w: "heap_writes m1 bs (zip [0..<256] msg) = Inr m2"
    and st: "heap_store_queued api bs (unat (msg ! 0)) (hw\<lparr>pool := m2, world := ?w\<lparr>ipc_queues := Q, kernel := k\<rparr>\<rparr>) = Inr (r, h)"
    and f: "free_local api bs h = Inr hw'"
    by (auto simp: heap_read_queue_element_def Let_def assert_that_eq_Inr rbind_eq_Inr split: if_splits
        simp del: upt_rec_numeral)
  have "temp_inv frees good (hw\<lparr>pool := m1\<rparr>) bs n" by (rule local_array_step [OF ok inv l])
  from heap_writes_step [OF this, of _ m2] w
  have "temp_inv frees good (world_update (\<lambda>_. ?w\<lparr>ipc_queues := Q, kernel := k\<rparr>) (hw\<lparr>pool := m2\<rparr>)) bs n"
    by simp
  then have mid: "temp_inv frees good (hw\<lparr>pool := m2, world := ?w\<lparr>ipc_queues := Q, kernel := k\<rparr>\<rparr>) bs n"
    by simp
  from st mid have "temp_inv frees good h bs n"
    by (auto simp: heap_store_queued_def rbind_eq_Inr split: if_splits dest: store_step [OF ok mid])
  from free_local_step [OF ok this f] show ?thesis .
qed (use inv in simp)

lemma send_slot_blocks:
  assumes ok: "memarray_ok api frees good" and inv: "heap_inv frees good hw n" and k: "k < 40"
    and res: "send_slot api k upd hw = Inr hw'"
  shows "heap_inv frees good hw' n"
proof -
  from res obtain a m h where
    b: "heap_packet_bytestring api (pool hw) (heap_packets hw ! k) = Inr (a, m)"
    and c: "clear_at api k (hw\<lparr>pool := m\<rparr>) = Inr h"
    and f: "free_local api a (on_internals upd h) = Inr hw'"
    by (auto simp: send_slot_def rbind_eq_Inr)
  from bytestring_step [OF ok inv k b] have "temp_inv frees good (hw\<lparr>pool := m\<rparr>) a n" .
  from clear_at_step [OF ok this k c] have "temp_inv frees good (on_internals upd h) a n" by simp
  from free_local_step [OF ok this f] show ?thesis .
qed

lemma send_blocks:
  assumes ok: "memarray_ok api frees good" and inv: "heap_inv frees good hw n"
    and res: "heap_send_data_packet api hw = Inr hw'"
  shows "heap_inv frees good hw' n"
  using res inv
  by (auto simp: heap_send_data_packet_def Let_def slot_bounds split: if_splits
      elim!: send_slot_blocks [OF ok inv, rotated])

lemma receive_blocks:
  assumes ok: "memarray_ok api frees good" and inv: "heap_inv frees good hw n"
    and res: "heap_receive_data_packet api hw = Inr (r, hw')"
  shows "heap_inv frees good hw' n"
proof -
  obtain rs w' where rs: "rand_bytes 238 (world hw) = (rs, w')" by (cases "rand_bytes 238 (world hw)")
  let ?pos = "unat (last_received (internals w'))"
  from res rs obtain bs m1 m2 m3 h upd where
    l: "local_array api (pool hw) 256 = Inr (bs, m1)"
    and w: "heap_writes m1 bs (receive_data_header (mclmac (world hw))) = Inr m2"
      "heap_writes m2 bs (zip [18..<256] rs) = Inr m3"
    and pos: "?pos < 20"
    and c: "construct_at api (received_slot ?pos) bs (hw\<lparr>pool := m3, world := w'\<rparr>) = Inr h"
    and f: "free_local api bs (on_internals upd h) = Inr hw'"
    by (auto simp: heap_receive_data_packet_def Let_def rbind_eq_Inr split: if_splits
        simp del: upt_rec_numeral)
  have "temp_inv frees good (hw\<lparr>pool := m1\<rparr>) bs n" by (rule local_array_step [OF ok inv l])
  from heap_writes_step [OF this, of _ m2] w(1) have "temp_inv frees good (hw\<lparr>pool := m2\<rparr>) bs n" by simp
  from heap_writes_step [OF this, of _ m3] w(2)
  have "temp_inv frees good (world_update (\<lambda>_. w') (hw\<lparr>pool := m3\<rparr>)) bs n" by simp
  then have "temp_inv frees good (hw\<lparr>pool := m3, world := w'\<rparr>) bs n" by simp
  from construct_at_step [OF ok this _ c] pos slot_bounds(3)
  have "temp_inv frees good (on_internals upd h) bs n" by simp
  from free_local_step [OF ok this f] show ?thesis .
qed

text \<open>
  A failed write to the routing layer and every received control packet lose 256 blocks.
\<close>

lemma write_queue_blocks:
  assumes ok: "memarray_ok api frees good" and inv: "heap_inv frees good hw n"
    and res: "heap_write_queue_element os api hw = Inr (r, hw')"
  shows "heap_inv frees good hw' n \<or> r = 0 \<and> 256 \<le> n \<and> heap_inv frees good hw' (n - 256)"
proof (cases "hw' = hw")
  case False
  let ?w = "world hw" and ?k = "received_slot (unat (first_received (internals (world hw))))"
  let ?h = "\<lambda>m Q k. hw\<lparr>pool := m, world := ?w\<lparr>ipc_queues := Q, kernel := k\<rparr>\<rparr>"
  from res False have "\<exists>a m1 Q k. ?k < 40 \<and>
      heap_packet_bytestring api (pool hw) (heap_packets hw ! ?k) = Inr (a, m1) \<and>
      (r = 0 \<and> hw' = ?h m1 Q k \<or> (\<exists>h upd. clear_at api ?k (?h m1 Q k) = Inr h \<and>
        free_local api a (on_internals upd h) = Inr hw'))"
    using slot_bounds(3) [of "unat (first_received (internals (world hw)))"]
    by (auto simp: heap_write_queue_element_def Let_def rbind_eq_Inr split: if_splits
        simp del: upt_rec_numeral) blast+
  then obtain a m1 Q k where k: "?k < 40"
    and b: "heap_packet_bytestring api (pool hw) (heap_packets hw ! ?k) = Inr (a, m1)"
    and rest: "r = 0 \<and> hw' = ?h m1 Q k \<or> (\<exists>h upd. clear_at api ?k (?h m1 Q k) = Inr h \<and>
        free_local api a (on_internals upd h) = Inr hw')" by blast
  from bytestring_step [OF ok inv k b]
  have "temp_inv frees good (world_update (\<lambda>_. ?w\<lparr>ipc_queues := Q, kernel := k\<rparr>) (hw\<lparr>pool := m1\<rparr>)) a n"
    by simp
  then have mid: "temp_inv frees good (?h m1 Q k) a n" by simp
  from rest show ?thesis
  proof
    assume "r = 0 \<and> hw' = ?h m1 Q k"
    with temp_inv_forget [OF mid] temp_inv_bound [OF mid] show ?thesis by simp
  next
    assume "\<exists>h upd. clear_at api ?k (?h m1 Q k) = Inr h \<and> free_local api a (on_internals upd h) = Inr hw'"
    then obtain h upd where c: "clear_at api ?k (?h m1 Q k) = Inr h"
      and f: "free_local api a (on_internals upd h) = Inr hw'" by blast
    from clear_at_step [OF ok mid k c] have "temp_inv frees good (on_internals upd h) a n" by simp
    from free_local_step [OF ok this f] show ?thesis ..
  qed
qed (use inv in simp)

lemma receive_control_blocks:
  assumes ok: "memarray_ok api frees good" and inv: "heap_inv frees good hw n"
    and res: "heap_receive_control_packet api testing hw = Inr (True, hw')"
  shows "256 \<le> n \<and> heap_inv frees good hw' (n - 256)"
proof -
  obtain rs w1 where rs: "rand_bytes_250 256 (world hw) = (rs, w1)"
    by (cases "rand_bytes_250 256 (world hw)")
  from res rs obtain bs m1 ws m2 w2 where
    l: "local_array api (pool hw) 256 = Inr (bs, m1)" and w: "heap_writes m1 bs ws = Inr m2"
    and hw': "hw' = hw\<lparr>pool := m2, world := w2\<rparr>"
    by (auto simp: heap_receive_control_packet_def rbind_eq_Inr split: if_splits
        simp del: upt_rec_numeral)
  have "temp_inv frees good (hw\<lparr>pool := m1\<rparr>) bs n" by (rule local_array_step [OF ok inv l])
  from heap_writes_step [OF this, of ws m2] w
  have "temp_inv frees good (world_update (\<lambda>_. w2) (hw\<lparr>pool := m2\<rparr>)) bs n" by simp
  then have mid: "temp_inv frees good hw' bs n" by (simp add: hw')
  from temp_inv_forget [OF mid] temp_inv_bound [OF mid] show ?thesis by simp
qed

lemma receive_control_exhausted:
  assumes "memarray_ok api frees good" and "heap_inv frees good hw n"
    and "card (frees (storage (pool hw))) < 256" and "\<not> (testing \<and> state_ctrl (mclmac (world hw)) = 7)"
  shows "heap_receive_control_packet api testing hw = Inl Uninitialised_read"
  using local_array_heap [OF assms(1,2)] assms(3,4) by (auto simp: heap_receive_control_packet_def)

text \<open>A byte string that lives as long as the function.\<close>

lemma temporary_array:
  assumes ok: "memarray_ok api frees good" and inv: "heap_inv frees good hw n" and k: "0 < k"
  shows "if k \<le> card (frees (storage (pool hw)))
    then \<exists>a m1 m2. local_array api (pool hw) k = Inr (a, m1) \<and> heap_writes m1 a ws = Inr m2 \<and>
      (\<forall>w. \<exists>hw'. free_local api a (hw\<lparr>pool := m2, world := w\<rparr>) = Inr hw' \<and>
        heap_inv frees good hw' n \<and> world hw' = w \<and> packets_of hw' = packets_of hw)
    else local_array api (pool hw) k = Inl Uninitialised_read"
proof (cases "k \<le> card (frees (storage (pool hw)))")
  case True
  have "pool_inv frees good (pool hw) (arrays hw)" using inv by (simp add: heap_inv_def)
  with local_array_pool [OF ok this k] True obtain a m1 where m1:
    "local_array api (pool hw) k = Inr (a, m1)" "pool_inv frees good m1 (a # arrays hw)" "asize a = k"
    "kept (pool hw) m1 (arrays hw)" "card (frees (storage m1)) + k = card (frees (storage (pool hw)))"
    by auto
  from heap_writes_pool [OF m1(2), of ws] obtain m2 where m2: "heap_writes m1 a ws = Inr m2"
    "pool_inv frees good m2 (a # arrays hw)" "kept m1 m2 (arrays hw)" "storage m2 = storage m1" by blast
  from release_pool [OF ok m2(2)] obtain m3 where
    m3: "release api m2 a = Inr (\<lparr>head = None, asize = 0\<rparr>, m3)"
    "pool_inv frees good m3 (arrays hw)" "kept m2 m3 (arrays hw)"
    "card (frees (storage m3)) = card (frees (storage m2)) + asize a" by blast
  then obtain r where r: "free_array api m2 a = Some (r, \<lparr>head = None, asize = 0\<rparr>, m3)"
    using k m1(3) by (auto simp: release_def split: option.splits)
  have kept: "kept (pool hw) m3 (arrays hw)" using m1(4) m2(3) m3(3) by (blast intro: kept_trans)
  have "\<exists>hw'. free_local api a (hw\<lparr>pool := m2, world := w\<rparr>) = Inr hw' \<and>
      heap_inv frees good hw' n \<and> world hw' = w \<and> packets_of hw' = packets_of hw" for w
    using r m3(2,4) m2(4) m1(3,5) inv packets_of_kept [OF kept]
    by (auto simp: free_local_def heap_inv_def arrays_def packets_of_def)
  with m1(1) m2(1) True show ?thesis by auto
next
  case False
  have "pool_inv frees good (pool hw) (arrays hw)" using inv by (simp add: heap_inv_def)
  from local_array_pool [OF ok this k] False show ?thesis by simp
qed

lemma temporary_array_step:
  assumes "memarray_ok api frees good" and "heap_inv frees good hw n" and "0 < k"
    and "local_array api (pool hw) k = Inr (a, m1)" and "heap_writes m1 a ws = Inr m2"
    and "free_local api a (hw\<lparr>pool := m2, world := w\<rparr>) = Inr hw'"
  shows "heap_inv frees good hw' n"
proof (cases "k \<le> card (frees (storage (pool hw)))")
  case True
  with temporary_array [OF assms(1-3), of ws] assms(4,5)
  obtain h where "free_local api a (hw\<lparr>pool := m2, world := w\<rparr>) = Inr h" "heap_inv frees good h n"
    by auto
  with assms(6) show ?thesis by simp
next
  case False
  with temporary_array [OF assms(1-3)] assms(4) show ?thesis by simp
qed

text \<open>The encoders of control and CF packets need a byte string, and it is released.\<close>

lemma send_control_blocks:
  assumes ok: "memarray_ok api frees good" and inv: "heap_inv frees good hw n"
  shows "heap_send_control_packet api hw = Inr hw' \<Longrightarrow> heap_inv frees good hw' n"
    and "card (frees (storage (pool hw))) \<le> 256 \<Longrightarrow> heap_send_control_packet api hw = Inl Uninitialised_read"
proof -
  obtain r w1 where c: "c_rand (world hw) = (r, w1)" by (cases "c_rand (world hw)")
  show "heap_inv frees good hw' n" if "heap_send_control_packet api hw = Inr hw'"
    using that temporary_array_step [OF ok inv, of 257]
    by (auto simp: heap_send_control_packet_def c rbind_eq_Inr Let_def)
  show "heap_send_control_packet api hw = Inl Uninitialised_read"
    if "card (frees (storage (pool hw))) \<le> 256"
    using that temporary_array [OF ok inv, of 257] by (simp add: heap_send_control_packet_def c)
qed

lemma send_cf_blocks:
  assumes ok: "memarray_ok api frees good" and inv: "heap_inv frees good hw n"
    and res: "heap_send_cf_message api hw = Inr hw'"
  shows "heap_inv frees good hw' n"
  using res temporary_array_step [OF ok inv, of 256]
  by (auto simp: heap_send_cf_message_def Let_def rbind_eq_Inr split: prod.splits)

lemma clear_slots_blocks:
  assumes "memarray_ok api frees good" and "heap_inv frees good hw n" and "\<forall>k \<in> set ks. k < 40"
  shows "\<exists>hw'. clear_slots api ks hw = Inr hw' \<and> heap_inv frees good hw' n \<and> world hw' = world hw \<and>
    packets_of hw' = fold (\<lambda>k ps. ps[k := datapacket_clear (ps ! k)]) ks (packets_of hw) \<and>
    arrays hw' = fold (\<lambda>k as. as[k := empty_array]) ks (arrays hw)"
  using assms(2,3)
proof (induction ks arbitrary: hw)
  case (Cons k ks)
  with clear_at_heap [OF assms(1) Cons.prems(1), of k] obtain h where
    "clear_at api k hw = Inr h" "heap_inv frees good h n" "world h = world hw"
    "packets_of h = (packets_of hw)[k := datapacket_clear (packets_of hw ! k)]"
    "arrays h = (arrays hw)[k := empty_array]" by auto
  with Cons.IH [of h] Cons.prems show ?case by auto
qed simp

lemma slots_in_range:
  "\<forall>k \<in> set finishp_slots. k < 40" "\<forall>k \<in> set cleared_slots. k < 40"
  by (auto simp: finishp_slots_def cleared_slots_def message_slot_def control_slot_def received_slot_def)

lemma finishp_slots_all: "set finishp_slots = {..<40}"
proof
  show "{..<40} \<subseteq> set finishp_slots"
  proof
    fix k :: nat assume "k \<in> {..<40}"
    then have "k mod 10 \<in> set [0..<10] \<and> (k = k mod 10 \<or> k = 10 + k mod 10 \<or> k = 20 + k mod 10 \<or> k = 20 + (k mod 10 + 10))"
      by (simp del: upt_rec_numeral) presburger
    then show "k \<in> set finishp_slots"
      unfolding finishp_slots_def message_slot_def control_slot_def received_slot_def
      by (auto simp del: upt_rec_numeral intro!: bexI [of _ "k mod 10"])
  qed
qed (use slots_in_range in auto)

lemma fold_clear_all:
  assumes "set ks = {..<length as}"
  shows "fold (\<lambda>k as. as[k := x]) ks as = replicate (length as) x"
proof -
  have len: "length (fold (\<lambda>k as. as[k := x]) ks as) = length as" for ks :: "nat list" and as
    by (induction ks arbitrary: as) auto
  have "fold (\<lambda>k as. as[k := x]) ks as ! i = (if i \<in> set ks then x else as ! i)"
    if "i < length as" for ks :: "nat list" and as i
    using that by (induction ks arbitrary: as) auto
  with assms len show ?thesis by (intro nth_equalityI) auto
qed

text \<open>FINISHP releases the payload of every packet.\<close>

lemma finishp_blocks:
  assumes ok: "memarray_ok api frees good" and inv: "heap_inv frees good hw n"
  shows "\<exists>hw'. heap_finishp api hw = Inr hw' \<and> heap_inv frees good hw' n \<and>
    arrays hw' = replicate 40 empty_array \<and> card (frees (storage (pool hw'))) = n"
proof -
  let ?h = "on_internals (\<lambda>i. reset_packet_counters (i\<lparr>mac_destination_id := (0, 0)\<rparr>)) hw"
  have "heap_inv frees good ?h n" using inv by simp
  from clear_slots_blocks [OF ok this slots_in_range(1)] obtain hw' where
    hw': "clear_slots api finishp_slots ?h = Inr hw'" "heap_inv frees good hw' n"
    "arrays hw' = fold (\<lambda>k as. as[k := empty_array]) finishp_slots (arrays hw)" by auto
  have "length (arrays hw) = 40" using inv by (simp add: heap_inv_def arrays_def)
  with hw'(3) fold_clear_all [of finishp_slots "arrays hw" empty_array]
  have arr: "arrays hw' = replicate 40 empty_array" by (simp add: finishp_slots_all)
  have "used (replicate 40 empty_array) = 0" by (simp add: used_def)
  with arr hw'(1,2) show ?thesis by (simp add: heap_finishp_def heap_inv_def)
qed

end
