(* ===== verification/Data_Reception.thy ===== *)
theory Data_Reception
  imports Node_Invariant
begin

text \<open>
  What becomes of a node that receives data. Nothing in the repository gives a node the queue of
  the routing layer, so after the first packet the node never leaves PASSIVE again. The run that
  shows it is that of the test build whose stub delivers a control packet in sync
  (\<open>_state_ctrl = 1\<close>).
\<close>

section \<open>A node without a routing queue\<close>

lemma write_without_queue:
  "routing_queue_id (mclmac w) = 0 \<Longrightarrow> number_packets_received (internals w) \<noteq> 0 \<Longrightarrow>
    mclmac_write_queue_element os w = Inl Assertion_failed"
  by (simp add: mclmac_write_queue_element_def Let_def elements_on_queue_def)

lemma store_number:
  "store_message_packet msg i = Inr i' \<Longrightarrow> number_packets_received i' = number_packets_received i"
  "store_control_packet msg i = Inr i' \<Longrightarrow> number_packets_received i' = number_packets_received i"
  by (auto simp: store_message_packet_def store_control_packet_def Let_def rbind_eq_Inr split: if_splits)

lemma read_queue_received:
  assumes "mclmac_read_queue_element os w = Inr (r, w')"
  shows "number_packets_received (internals w') = number_packets_received (internals w)"
  using assms
  by (auto simp: mclmac_read_queue_element_def Let_def assert_that_eq_Inr rbind_eq_Inr on_mac_def
      split: if_splits dest: store_number)

lemma read_then_write_without_queue:
  assumes "mclmac_read_queue_element os w = Inr (r, w')"
    and "routing_queue_id (mclmac w) = 0" and "number_packets_received (internals w) \<noteq> 0"
  shows "mclmac_write_queue_element os w' = Inl Assertion_failed"
  using assms(2,3) read_queue_received [OF assms(1)]
    only_packets_fields(12) [OF read_queue_only_packets [OF assms(1)]]
  by (intro write_without_queue) simp_all

lemma passive_round_stuck:
  assumes "routing_queue_id (mclmac w) = 0" and "number_packets_received (internals w) \<noteq> 0"
  shows "passive_round os l w \<noteq> Inr r"
  using assms
  by (auto simp: passive_round_def Let_def rbind_eq_Inr split: if_splits
      dest!: read_then_write_without_queue)

lemma run_loop_first:
  "run_loop body l w = Inr r \<Longrightarrow> \<exists>w1 r1. wait_round w = Inr w1 \<and> body l w1 = Inr r1"
  by (auto simp: run_loop_def rbind_eq_Inr)

lemma passive_stuck:
  assumes "routing_queue_id (mclmac w) = 0" and "number_packets_received (internals w) \<noteq> 0"
  shows "execute_passive os w \<noteq> Inr r"
proof
  let ?w0 = "on_mclmac (\<lambda>m. mclmac_set_radio_sleep (mclmac_set_current_cf_slot m 0)) w"
  assume "execute_passive os w = Inr r"
  then obtain l w1 where "run_loop (passive_round os) () ?w0 = Inr (l, w1)"
    by (auto simp: execute_passive_def rbind_eq_Inr)
  then obtain v r1 where v: "wait_round ?w0 = Inr v" "passive_round os () v = Inr r1"
    by (auto dest!: run_loop_first)
  have "routing_queue_id (mclmac v) = 0" "number_packets_received (internals v) \<noteq> 0"
    using assms wait_round_Inr(1) [OF v(1)] by (simp_all add: mac_access)
  from passive_round_stuck [OF this] v(2) show False by blast
qed

lemma execute_passive_mode:
  "powerMode (mclmac w) = PASSIVE \<Longrightarrow> mclmac_execute_powermode_state os testing w = Inr r \<Longrightarrow>
    execute_passive os w = Inr r"
  by (simp add: mclmac_execute_powermode_state_def assert_that_eq_Inr)

lemma access_stuck:
  assumes "routing_queue_id (mclmac w) = 0" and "number_packets_received (internals w) \<noteq> 0"
    and "powerMode (mclmac w) = PASSIVE"
  shows "run_loop (access_round os testing) l w \<noteq> Inr r"
proof
  assume "run_loop (access_round os testing) l w = Inr r"
  then obtain v r1 where v: "wait_round w = Inr v" "access_round os testing l v = Inr r1"
    by (auto dest!: run_loop_first)
  then obtain ret where "mclmac_execute_powermode_state os testing v = Inr ret"
    by (auto simp: access_round_def rbind_eq_Inr)
  with assms wait_round_Inr(1) [OF v(1)] have "execute_passive os v = Inr ret"
    by (intro execute_passive_mode) simp_all
  with assms wait_round_Inr(1) [OF v(1)] passive_stuck [of v os ret] show False by simp
qed

lemma receive_routing:
  "execute_receive testing w = Inr (r, w') \<Longrightarrow> routing_queue_id (mclmac w') = routing_queue_id (mclmac w)"
  using receive_keeps [of testing w r w'] by (simp add: keeps_def ids_def)

text \<open>
  C9. The first data packet a node receives is the last. A node whose routing queue is the one
  that \<open>MCLMAC_init\<close> gives it, none, goes on to PASSIVE after RECEIVE has accepted data, and
  never leaves it: whatever the environment does, the access to the medium does not end.
\<close>

theorem data_reception_stops_node:
  assumes "routing_queue_id (mclmac w) = 0" and "powerMode (mclmac w) = RECEIVE"
    and "execute_receive testing w = Inr (r, w1)"
    and "number_packets_received (internals w1) \<noteq> number_packets_received (internals w)"
    and "number_packets_received (internals w1) \<noteq> 0"
  shows "powerMode (mclmac (update_powermode w1)) = PASSIVE \<and>
    run_loop (access_round os testing) () (update_powermode w1) \<noteq> Inr x"
proof -
  note res = receive_result [OF assms(3)]
  from res assms(4) have nxt: "nextPowerMode (mclmac w1) = PASSIVE" by (auto simp: Let_def)
  have "powerMode (mclmac w1) = RECEIVE"
    using res station_modes [of "mclmac w1" "mclmac w"] assms(2) by simp
  with nxt have "mclmac (update_powermode w1) = (mclmac w1)\<lparr>powerMode := PASSIVE\<rparr>"
    using update_powermode_edge [of w1] by simp
  with access_stuck [of "update_powermode w1"] receive_routing [OF assms(3)] assms(1,5)
  show ?thesis by simp
qed

section \<open>A run\<close>

lemma native_control_fst:
  "testing \<Longrightarrow> state_ctrl m = 1 \<Longrightarrow> map fst (native_control_writes testing m) = [0..<41]"
  by (simp add: native_control_writes_def native_id_writes_def native_field_writes_def u32_writes_def
      u64_writes_def native_case_writes_def Let_def upt_conv_Cons)

text \<open>The packet of the stub, over a string of zeros.\<close>

definition stub_packet :: "MCLMAC_t \<Rightarrow> ControlPacket_t" where
  "stub_packet m =
     \<lparr>currentSlot = mclmac_get_current_slot m, collisionSlot = 0, hopCount = own_hopCount m,
      currentFrame = current_frame (frame (mac m)), collisionFrequency = 0, initTime = own_initTime m,
      networkTime = own_networkTime m, node_id = transmitter_id (mac m), occupied_slots = zero_bitmap\<rparr>"

lemma stub_bytes:
  assumes "state_ctrl m = 1"
  shows "map snd (native_control_writes True m) @ replicate 16 0 = control_bytes (stub_packet m)"
  using assms
  by (simp add: native_control_writes_def native_id_writes_def native_field_writes_def u32_writes_def
      u64_writes_def native_case_writes_def Let_def control_bytes_def control_header_writes_def
      control_slots_writes_def stub_packet_def zero_bitmap_def upt_conv_Cons masked_byte_def)
    (simp add: numeral_eq_Suc)

lemma rand_bytes_250_zero:
  assumes "rand_values w = (\<lambda>_. 0)"
  shows "rand_bytes_250 n w = (replicate n 0, w)"
proof -
  have "w\<lparr>rand_values := \<lambda>_. 0\<rparr> = w" using assms by (cases w) simp
  then have "c_rand w = (0, w)" using assms by (simp only: c_rand_def)
  then show ?thesis by (induction n) simp_all
qed

lemma stub_delivers:
  assumes "state_ctrl (mclmac w) = 1" and "rand_values w = (\<lambda>_. 0)" and "own_networkTime (mclmac w) = 0"
  shows "mclmac_receive_control_packet True w =
    Inr (True, on_mclmac (on_mac (ctrlpkt_recv_update (\<lambda>_. stub_packet (mclmac w)))) w)"
proof -
  let ?m = "mclmac w"
  have "map fst (zip [0..<256] (replicate 256 (0 :: u8))) = [0..<256]"
    by (simp del: upt_rec_numeral)
  from flat_write_block [OF this, of "replicate 256 0" RIOT]
  have zeros: "write_all (WRITE_ARRAY RIOT) (replicate 256 0) (zip [0..<256] (replicate 256 0)) =
      Inr (replicate 256 0)"
    by (simp del: upt_rec_numeral)
  have split: "replicate 215 0 = replicate 16 (0 :: u8) @ replicate 199 0"
    by (simp flip: replicate_add del:)
  have "write_all (WRITE_ARRAY RIOT) (replicate 256 0) (native_control_writes True ?m) =
      Inr (control_bytes (stub_packet ?m) @ replicate 199 0)"
    using flat_write_block [OF native_control_fst [OF TrueI assms(1)], of "replicate 256 0" RIOT]
      stub_bytes [OF assms(1)]
    by (simp add: split flip: append_assoc del: upt_rec_numeral)
  with zeros have "write_all (WRITE_ARRAY RIOT) (replicate 256 0)
      (zip [0..<256] (replicate 256 0) @ native_control_writes True ?m) =
      Inr (control_bytes (stub_packet ?m) @ replicate 199 0)"
    by (simp add: write_all_append del: upt_rec_numeral)
  moreover have "networkTime (stub_packet ?m) = 0" "wf_bitmap (occupied_slots (stub_packet ?m))"
    using assms(3) by (simp_all add: stub_packet_def)
  moreover have same: "stub_packet ?m\<lparr>networkTime := 0\<rparr> = stub_packet ?m"
    using assms(3) by (simp add: stub_packet_def)
  ultimately show ?thesis
    using assms(1) rand_bytes_250_zero [OF assms(2), of 256]
    by (simp add: mclmac_receive_control_packet_def receive_control_packet_native_def new_array_def
        control_decode received_time_small del: upt_rec_numeral) (simp only: same)
qed

definition hearing :: "(pid \<times> (pid \<Rightarrow> msg_t list)) world" where
  "hearing = on_mclmac (\<lambda>m. (on_mac (\<lambda>i. i\<lparr>transmitChannel := 902000000\<rparr>) m)
     \<lparr>state_ctrl := 1, routing_queue_id := 0, powerMode := RECEIVE\<rparr>)
     (sample_world\<lparr>rand_values := (\<lambda>_. 0), script := [[], [Ztimer_interrupt]],
        timeouts := static_timeouts\<lparr>timeout_timer := Some 0, timeout_state := (replicate TIMEOUTS 0)[0 := 3]\<rparr>\<rparr>)"

lemma hearing_good: "good hearing"
proof -
  have "wf_timeouts (timeouts hearing)"
    by (simp add: hearing_def wf_timeouts_def static_timeouts_def nth_list_update)
  then show ?thesis
    by (simp add: good_def hearing_def sample_world_def zero_mclmac_def MAC_internals_init_def
      zero_mac_internals_def wf_simps on_mac_def controlpacket_init_def
      FREQUENCIES_def zero_datapacket_def wf_datapacket_def list_all_iff)
qed

lemma hearing_state:
  "state_ctrl (mclmac hearing) = 1" "rand_values hearing = (\<lambda>_. 0)" "own_networkTime (mclmac hearing) = 0"
  "script hearing = [[], [Ztimer_interrupt]]" "powerMode (mclmac hearing) = RECEIVE"
  "routing_queue_id (mclmac hearing) = 0" "number_packets_received (internals hearing) = 0"
  by (simp_all add: hearing_def sample_world_def on_mac_def zero_mclmac_def MAC_internals_init_def
      zero_mac_internals_def)

definition heard_packet :: "(pid \<times> (pid \<Rightarrow> msg_t list)) world" where
  "heard_packet = on_mclmac (on_mac (ctrlpkt_recv_update (\<lambda>_. stub_packet (mclmac hearing)))) hearing"

lemma heard_state:
  "good heard_packet" "script heard_packet = [[], [Ztimer_interrupt]]"
  "passed (slot_timer (frame (internals heard_packet))) heard_packet = 0"
  "number_packets_received (internals heard_packet) = 0"
  "\<not> reports_collision (ctrlpkt_recv (internals heard_packet)) (mclmac heard_packet)"
  "in_sync (ctrlpkt_recv (internals heard_packet)) (mclmac heard_packet)"
proof -
  show "good heard_packet"
    using keeps_good [OF receive_control_keeps [OF stub_delivers [OF hearing_state(1-3)]] hearing_good]
    by (simp only: heard_packet_def)
  show "script heard_packet = [[], [Ztimer_interrupt]]" "number_packets_received (internals heard_packet) = 0"
    by (simp_all add: heard_packet_def hearing_state on_mac_def)
  have tm: "timeouts heard_packet = timeouts hearing" by (simp add: heard_packet_def)
  have slot: "slot_timer (frame (internals heard_packet)) = 0"
    by (simp add: heard_packet_def hearing_def sample_world_def on_mac_def MAC_internals_init_def zero_frame_def)
  show "passed (slot_timer (frame (internals heard_packet))) heard_packet = 0"
    unfolding tm slot by (simp add: hearing_def timeout_passed_def)
  show "\<not> reports_collision (ctrlpkt_recv (internals heard_packet)) (mclmac heard_packet)"
    by (simp add: reports_collision_def heard_packet_def on_mac_def stub_packet_def)
      (simp add: hearing_def on_mac_def)
  have "on_time (own_networkTime (mclmac hearing)) (own_networkTime (mclmac hearing))"
    by (simp add: hearing_state on_time_tolerance)
  then show "in_sync (ctrlpkt_recv (internals heard_packet)) (mclmac heard_packet)"
    by (simp add: in_sync_def heard_packet_def on_mac_def stub_packet_def mac_access)
qed

lemma heard_interrupt:
  "timeout_passed (timeout_fire (timeouts heard_packet) (clock heard_packet)) (slot_timer (frame (internals heard_packet))) = 1"
proof -
  have "wf_timeouts (timeouts heard_packet)" using heard_state(1) by (simp add: good_def)
  from timeout_fire_fields(3) [OF this, of 0 "clock heard_packet"] show ?thesis
    by (simp add: heard_packet_def hearing_def sample_world_def static_timeouts_def timeout_passed_def
        on_mac_def MAC_internals_init_def zero_frame_def timespec_diff_def)
qed

lemma receive_data_counts:
  assumes "mclmac_receive_data_packet w = Inr (r, w')"
  shows "r \<and> number_packets_received (internals w') = number_packets_received (internals w) + 1"
proof -
  from assms obtain bs w1 i where native: "receive_data_packet_native w (new_array RIOT (\<lambda>_. 0) 256) = Inr (bs, w1)"
    and st: "store_received bs (internals w1) = Inr i" "w' = on_mclmac (on_mac (\<lambda>_. i)) w1" and r
    by (auto simp: mclmac_receive_data_packet_def rbind_eq_Inr)
  have "number_packets_received i = number_packets_received (internals w1) + 1"
    using st(1) by (auto simp: store_received_def Let_def rbind_eq_Inr split: if_splits)
  with receive_native_frame [OF native] st(2) \<open>r\<close> show ?thesis by (simp add: on_mac_def)
qed

lemma hearing_run:
  "\<exists>w'. execute_receive True hearing = Inr (E_PM_EXECUTION_SUCCESS, w') \<and>
     number_packets_received (internals w') = 1"
proof -
  let ?h = "heard_packet\<lparr>script := [[Ztimer_interrupt]]\<rparr>"
  have listen: "listen_control True 1 hearing = Inr (1, heard_packet)"
    using stub_delivers [OF hearing_state(1-3)]
    by (subst listen_control.simps) (simp add: heard_packet_def)
  have good: "wf_internals (internals ?h)" using heard_state(1) by (simp add: good_def wf_node_def wf_mclmac_def)
  obtain r v where rv: "mclmac_receive_data_packet ?h = Inr (r, v)"
    using receive_data_safe [OF good] by (metis obj_sumE prod.collapse)
  with receive_data_counts [OF rv] have v: "mclmac_receive_data_packet ?h = Inr (True, v)" by simp
  note same = only_packetsD [OF receive_data_only_packets [OF v]]
  have n: "number_packets_received (internals v) = 1"
    using receive_data_counts [OF v] heard_state(4) by simp
  have slot: "slot_timer (frame (internals v)) = slot_timer (frame (internals heard_packet))"
    using core_fields(16) [OF same(1)] by simp
  have "run_loop receive_round 1 v = Inr (1, (fold env_event [Ztimer_interrupt] v)\<lparr>script := []\<rparr>)"
    by (rule run_loop_stop [of _ "[Ztimer_interrupt]" "[]"]) (use same slot heard_interrupt in \<open>simp_all add: receive_round_def fold_simps\<close>)
  then have "run_loop receive_round 0 heard_packet = Inr (1, (fold env_event [Ztimer_interrupt] v)\<lparr>script := []\<rparr>)"
    by (rule run_loop_again_Nil [OF heard_state(2), rotated 2])
      (use heard_state(3) v n same in \<open>simp_all add: receive_round_def\<close>)
  moreover have "\<not> (collisionFrequency (ctrlpkt_recv (internals heard_packet)) = transmitChannel (internals heard_packet) \<and>
      collisionSlot (ctrlpkt_recv (internals heard_packet)) = selectedSlot (internals heard_packet))"
    using heard_state(5) by (simp add: reports_collision_def)
  ultimately show ?thesis
    using listen heard_state(4,6) n
    by (simp add: execute_receive_def Let_def in_sync_def mac_access)
qed

lemma data_reception_stops_node_witness:
  "\<exists>w'. execute_receive True hearing = Inr (E_PM_EXECUTION_SUCCESS, w') \<and>
     (\<forall>r. run_loop (access_round inbox_rtos True) () (update_powermode w') \<noteq> Inr r)"
proof -
  obtain w' where run: "execute_receive True hearing = Inr (E_PM_EXECUTION_SUCCESS, w')"
    and n: "number_packets_received (internals w') = 1" using hearing_run by blast
  have "number_packets_received (internals w') \<noteq> number_packets_received (internals hearing)"
    "number_packets_received (internals w') \<noteq> 0"
    using n hearing_state(7) by simp_all
  from data_reception_stops_node [OF hearing_state(6,5) run this] run show ?thesis by blast
qed

end
