(* ===== verification/Pool_Refinement.thy ===== *)
theory Pool_Refinement
  imports Mac_Memory Data_Reception
begin

text \<open>
  The operations on the packet queues over the block pool (theory \<open>Mac_Memory\<close>) are those over lists
  (theories \<open>Mac_Queues\<close> and \<open>Packet_Handlers\<close>): \<open>abs_world\<close> reads the packets out of the pool, and
  running an operation over the pool and reading gives what reading and running it over
  lists gives, as long as a byte string and a payload fit into the free blocks.
\<close>

section \<open>The layer over lists\<close>

lemma with_packets_fields [simp]:
  "message_packets_to_send (with_packets ps m) = take 10 ps"
  "control_packets_to_send (with_packets ps m) = take 10 (drop 10 ps)"
  "packets_received (with_packets ps m) = drop 20 ps"
  "last_send_message (with_packets ps m) = last_send_message m"
  "last_send_control (with_packets ps m) = last_send_control m"
  "first_send_message (with_packets ps m) = first_send_message m"
  "first_send_control (with_packets ps m) = first_send_control m"
  "packets_to_send_message (with_packets ps m) = packets_to_send_message m"
  "packets_to_send_control (with_packets ps m) = packets_to_send_control m"
  "first_received (with_packets ps m) = first_received m"
  "last_received (with_packets ps m) = last_received m"
  "number_packets_received (with_packets ps m) = number_packets_received m"
  "ctrlpkt_recv (with_packets ps m) = ctrlpkt_recv m"
  by (simp_all add: with_packets_def)

lemmas slot_defs = message_slot_def control_slot_def received_slot_def

text \<open>Storing a packet in one of the three arrays is storing it in the list.\<close>

lemmas store_packets = with_packets_def slot_defs take_update_swap drop_update_swap drop_update_cancel
  list_update_beyond

lemma abs_world_eq: "abs_world hw = on_mclmac (on_mac (with_packets (packets_of hw))) (world hw)"
  by (simp add: abs_world_def packets_of_def)

lemma internals_abs_world [simp]: "internals (abs_world hw) = with_packets (packets_of hw) (internals (world hw))"
  by (simp add: abs_world_eq on_mclmac_def on_mac_def)

lemma abs_world_fields [simp]:
  "ipc_queues (abs_world hw) = ipc_queues (world hw)" "kernel (abs_world hw) = kernel (world hw)"
  "mac_queue_id (mclmac (abs_world hw)) = mac_queue_id (mclmac (world hw))"
  "routing_queue_id (mclmac (abs_world hw)) = routing_queue_id (mclmac (world hw))"
  "self_pid (mclmac (abs_world hw)) = self_pid (mclmac (world hw))"
  "own_id (mclmac (abs_world hw)) = own_id (mclmac (world hw))"
  by (simp_all add: abs_world_eq on_mclmac_def on_mac_def)

lemma length_packets_of: "heap_inv frees valid hw n \<Longrightarrow> length (packets_of hw) = 40"
  "temp_inv frees valid hw bs n \<Longrightarrow> length (packets_of hw) = 40"
  by (simp_all add: heap_inv_def temp_inv_def packets_of_def)

text \<open>Random values do not depend on the packets.\<close>

lemma c_rand_on_mclmac: "c_rand (on_mclmac f w) = (fst (c_rand w), on_mclmac f (snd (c_rand w)))"
  by (simp add: c_rand_def on_mclmac_def)

lemma rand_bytes_on_mclmac:
  "rand_bytes n (on_mclmac f w) = (fst (rand_bytes n w), on_mclmac f (snd (rand_bytes n w)))"
  by (induction n arbitrary: w) (simp_all add: c_rand_on_mclmac split: prod.splits)

section \<open>The operations over the pool are those over lists\<close>

datatype mac_op = Read_queue | Write_queue | Send_data | Receive_data | Send_control | Send_cf

definition list_op :: "'k rtos \<Rightarrow> mac_op \<Rightarrow> 'k world \<Rightarrow> (nat \<times> 'k world) result" where
  "list_op os op w =
     (case op of
       Read_queue \<Rightarrow> mclmac_read_queue_element os w
     | Write_queue \<Rightarrow> mclmac_write_queue_element os w
     | Send_data \<Rightarrow> rbind (mclmac_send_data_packet w) (\<lambda>w'. Inr (1, w'))
     | Receive_data \<Rightarrow> rbind (mclmac_receive_data_packet w) (\<lambda>(b, w'). Inr (if b then 1 else 0, w'))
     | Send_control \<Rightarrow> rbind (mclmac_send_control_packet w) (\<lambda>w'. Inr (1, w'))
     | Send_cf \<Rightarrow> rbind (mclmac_send_cf_message w) (\<lambda>w'. Inr (1, w')))"

definition pool_op ::
    "'k rtos \<Rightarrow> 's memarray \<Rightarrow> mac_op \<Rightarrow> ('s, 'k) heap_world \<Rightarrow> (nat \<times> ('s, 'k) heap_world) result" where
  "pool_op os api op hw =
     (case op of
       Read_queue \<Rightarrow> heap_read_queue_element os api hw
     | Write_queue \<Rightarrow> heap_write_queue_element os api hw
     | Send_data \<Rightarrow> rbind (heap_send_data_packet api hw) (\<lambda>h. Inr (1, h))
     | Receive_data \<Rightarrow> heap_receive_data_packet api hw
     | Send_control \<Rightarrow> rbind (heap_send_control_packet api hw) (\<lambda>h. Inr (1, h))
     | Send_cf \<Rightarrow> rbind (heap_send_cf_message api hw) (\<lambda>h. Inr (1, h)))"

lemma temp_free_blocks:
  assumes "memarray_ok api frees valid" and "heap_inv frees valid hw n"
    and "512 \<le> card (frees (storage (pool hw)))" and "temp_inv frees valid (hw\<lparr>pool := m\<rparr>) bs n"
  shows "256 \<le> card (frees (storage m))"
  using assms by (simp add: heap_inv_def temp_inv_def)

text \<open>Encoding a packet, clearing it and releasing the byte string.\<close>

lemma send_slot_refines:
  assumes ok: "memarray_ok api frees valid" and inv: "heap_inv frees valid hw n"
    and mem: "512 \<le> card (frees (storage (pool hw)))" and k: "k < 40"
    and enc: "datapacket_get_packet_bytestring RIOT (\<lambda>_. 0) (packets_of hw ! k) = Inr bs"
  shows "\<exists>hw'. send_slot api k upd hw = Inr hw' \<and>
    packets_of hw' = (packets_of hw)[k := datapacket_clear (packets_of hw ! k)] \<and>
    world hw' = on_mclmac (on_mac upd) (world hw)"
proof -
  from bytestring_heap [OF ok inv k, of "\<lambda>_. 0"] mem enc obtain a m where
    a: "heap_packet_bytestring api (pool hw) (heap_packets hw ! k) = Inr (a, m)"
    "temp_inv frees valid (hw\<lparr>pool := m\<rparr>) a n" "packets_of (hw\<lparr>pool := m\<rparr>) = packets_of hw" by auto
  from clear_at_temp [OF ok a(2) k] a(3) obtain h where
    h: "clear_at api k (hw\<lparr>pool := m\<rparr>) = Inr h" "temp_inv frees valid h a n" "world h = world hw"
    "packets_of h = (packets_of hw)[k := datapacket_clear (packets_of hw ! k)]" by auto
  have "temp_inv frees valid (on_internals upd h) a n" using h(2) by simp
  from free_local_heap [OF ok this] obtain hw' where
    "free_local api a (on_internals upd h) = Inr hw'" "world hw' = world (on_internals upd h)"
    "packets_of hw' = packets_of (on_internals upd h)" by blast
  with a(1) h show ?thesis by (simp add: send_slot_def)
qed

text \<open>What a successful sending does to the lists, and how the pool does the same.\<close>

lemma send_list_cases:
  fixes hw :: "('s, 'k) heap_world"
  assumes len: "length (packets_of hw) = 40" and list: "mclmac_send_data_packet (abs_world hw) = Inr w'"
  obtains (nothing_sent) "w' = abs_world hw" "\<forall>api. heap_send_data_packet api hw = Inr hw"
  | (one_sent) k bs upd where "k < 40"
      "datapacket_get_packet_bytestring RIOT (\<lambda>_. 0) (packets_of hw ! k) = Inr bs"
      "w' = on_mclmac (on_mac (with_packets ((packets_of hw)[k := datapacket_clear (packets_of hw ! k)])))
        (on_mclmac (on_mac upd) (world hw))"
      "\<forall>api. heap_send_data_packet api hw = send_slot api k upd hw"
proof -
  let ?m = "internals (world hw)" and ?ps = "packets_of hw"
  let ?c = "unat (first_send_control ?m)" and ?t = "unat (first_send_message ?m)"
  show ?thesis
  proof (cases "packets_to_send_message ?m = 0 \<and> packets_to_send_control ?m = 0 \<or> ?t > 10 \<or> ?c > 10")
    case True
    with list have "w' = abs_world hw" "\<forall>api. heap_send_data_packet api hw = Inr hw"
      by (auto simp: mclmac_send_data_packet_def heap_send_data_packet_def Let_def split: if_splits)
    then show ?thesis by (rule nothing_sent)
  next
    case active: False
    show ?thesis
    proof (cases "packets_to_send_control ?m > 0")
      case True
      with list active len obtain bs where c: "?c < 10"
        and enc: "datapacket_get_packet_bytestring RIOT (\<lambda>_. 0) (?ps ! control_slot ?c) = Inr bs"
        and w': "w' = on_mclmac (on_mac (\<lambda>m. m
           \<lparr>control_packets_to_send := (control_packets_to_send m)
               [?c := datapacket_clear (control_packets_to_send m ! ?c)],
            first_send_control := of_nat ((?c + 1) mod 10),
            packets_to_send_control := packets_to_send_control m - 1\<rparr>)) (abs_world hw)"
        by (auto simp: mclmac_send_data_packet_def Let_def rbind_eq_Inr slot_defs split: if_splits)
      show ?thesis
        by (rule one_sent [OF slot_bounds(2) [OF c] enc])
          (use len c w' active True in \<open>auto simp: abs_world_eq on_mclmac_def on_mac_def store_packets
            heap_send_data_packet_def Let_def\<close>)
    next
      case False
      with active have some: "packets_to_send_message ?m > 0" by (auto simp: word_gt_0)
      with list active False len obtain bs where t: "?t < 10"
        and enc: "datapacket_get_packet_bytestring RIOT (\<lambda>_. 0) (?ps ! message_slot ?t) = Inr bs"
        and w': "w' = on_mclmac (on_mac (\<lambda>m. m
           \<lparr>message_packets_to_send := (message_packets_to_send m)
               [?t := datapacket_clear (message_packets_to_send m ! ?t)],
            first_send_message := of_nat ((?t + 1) mod 10),
            packets_to_send_message := packets_to_send_message m - 1\<rparr>)) (abs_world hw)"
        by (auto simp: mclmac_send_data_packet_def Let_def rbind_eq_Inr slot_defs split: if_splits)
      show ?thesis
        by (rule one_sent [OF slot_bounds(1) [OF t] enc])
          (use len t w' active False some in \<open>auto simp: abs_world_eq on_mclmac_def on_mac_def store_packets
            heap_send_data_packet_def Let_def\<close>)
    qed
  qed
qed

lemma send_refines:
  assumes ok: "memarray_ok api frees valid" and inv: "heap_inv frees valid hw n"
    and mem: "512 \<le> card (frees (storage (pool hw)))"
    and list: "mclmac_send_data_packet (abs_world hw) = Inr w'"
  shows "\<exists>hw'. heap_send_data_packet api hw = Inr hw' \<and> abs_world hw' = w'"
  using length_packets_of(1) [OF inv] list
proof (cases rule: send_list_cases)
  case (one_sent k bs upd)
  from send_slot_refines [OF ok inv mem one_sent(1,2), of upd] one_sent(3,4) show ?thesis
    by (auto simp: abs_world_eq)
qed auto

text \<open>Storing a received byte string as a packet and releasing it.\<close>

lemma store_slot_refines:
  assumes ok: "memarray_ok api frees valid" and inv: "temp_inv frees valid hw bs n" and k: "k < 40"
    and mem: "256 \<le> card (frees (storage (pool hw)))"
    and list: "datapacket_construct_from_bytestring RIOT (\<lambda>_. 0) (packets_of hw ! k)
      (contents (pool hw) bs) = Inr pkt"
  shows "\<exists>h. construct_at api k bs hw = Inr h \<and> temp_inv frees valid h bs n \<and> world h = world hw \<and>
    packets_of h = (packets_of hw)[k := pkt]"
  using construct_at_refines [OF ok inv k list] mem by auto

text \<open>A local byte string filled with bytes: from there on the world may be any.\<close>

lemma heap_writes_append:
  "heap_writes m a (ws @ vs) = rbind (heap_writes m a ws) (\<lambda>m'. heap_writes m' a vs)"
proof -
  have array: "a' = a" if "write_all chain_write (m, a) ws = Inr (m', a')" for m m' a' ws
    using that by (induction ws arbitrary: m) (auto simp: chain_write_def rbind_eq_Inr)
  show ?thesis
    by (cases "write_all chain_write (m, a) ws")
      (auto simp: heap_writes_def write_all_append dest: array)
qed

lemma byte_string_heap:
  assumes ok: "memarray_ok api frees valid" and inv: "heap_inv frees valid hw n"
    and mem: "512 \<le> card (frees (storage (pool hw)))"
    and list: "write_all (WRITE_ARRAY RIOT) (replicate 256 0) ws = Inr bs"
  shows "\<exists>a m1 m2. local_array api (pool hw) 256 = Inr (a, m1) \<and> heap_writes m1 a ws = Inr m2 \<and>
    contents m2 a = bs \<and> 256 \<le> card (frees (storage m2)) \<and>
    (\<forall>w. temp_inv frees valid (hw\<lparr>pool := m2, world := w\<rparr>) a n \<and>
      packets_of (hw\<lparr>pool := m2, world := w\<rparr>) = packets_of hw)"
proof -
  from local_array_heap [OF ok inv] mem obtain a m1 where
    m1: "local_array api (pool hw) 256 = Inr (a, m1)" "temp_inv frees valid (hw\<lparr>pool := m1\<rparr>) a n"
    "contents m1 a = replicate 256 0" "packets_of (hw\<lparr>pool := m1\<rparr>) = packets_of hw" by auto
  from heap_writes_heap [OF m1(2), of ws] m1(3,4) list obtain m2 where
    m2: "heap_writes m1 a ws = Inr m2" "temp_inv frees valid (hw\<lparr>pool := m2\<rparr>) a n" "contents m2 a = bs"
    "packets_of (hw\<lparr>pool := m2\<rparr>) = packets_of hw" by auto
  have "temp_inv frees valid (hw\<lparr>pool := m2, world := w\<rparr>) a n \<and>
      packets_of (hw\<lparr>pool := m2, world := w\<rparr>) = packets_of hw" for w
    using heap_inv_world(2) [of frees valid "\<lambda>_. w" "hw\<lparr>pool := m2\<rparr>" a n] m2(2,4)
      heap_views(2) [of "\<lambda>_. w" "hw\<lparr>pool := m2\<rparr>"] by simp
  with m1(1) m2(1,3) temp_free_blocks [OF ok inv mem m2(2)] show ?thesis by blast
qed

text \<open>What a successful reception does to the lists.\<close>

lemma receive_list_result:
  assumes len: "length (packets_of hw) = 40" and list: "mclmac_receive_data_packet (abs_world hw) = Inr (b, w')"
  obtains (received) rs w1 bs pkt pos where "b" "rand_bytes 238 (world hw) = (rs, w1)" "mclmac w1 = mclmac (world hw)"
    "pos = unat (last_received (internals (world hw)))" "pos < 20"
    "write_all (WRITE_ARRAY RIOT) (replicate 256 0) (receive_data_header (mclmac (world hw)) @ zip [18..<256] rs) = Inr bs"
    "datapacket_construct_from_bytestring RIOT (\<lambda>_. 0) (packets_of hw ! received_slot pos) bs = Inr pkt"
    "w' = on_mclmac (on_mac (with_packets ((packets_of hw)[received_slot pos := pkt])))
      (on_mclmac (on_mac (\<lambda>m. m\<lparr>last_received := of_nat ((pos + 1) mod 20),
        number_packets_received := number_packets_received m + 1\<rparr>)) w1)"
proof -
  let ?w = "world hw" and ?ps = "packets_of hw"
  obtain rs w1 where rs: "rand_bytes 238 ?w = (rs, w1)" by (cases "rand_bytes 238 ?w")
  then have rs': "rand_bytes 238 (abs_world hw) = (rs, on_mclmac (on_mac (with_packets ?ps)) w1)"
    by (simp add: abs_world_eq rand_bytes_on_mclmac)
  have same: "mclmac w1 = mclmac ?w" using rand_bytes_frame [OF rs] by simp
  let ?pos = "unat (last_received (internals ?w))" and ?w1 = "on_mclmac (on_mac (with_packets ?ps)) w1"
  have hdr: "receive_data_header (mclmac (abs_world hw)) = receive_data_header (mclmac ?w)"
    by (simp add: receive_data_header_def)
  from list obtain bs w2 m' where
    native: "receive_data_packet_native (abs_world hw) (replicate 256 0) = Inr (bs, w2)"
    and st: "store_received bs (internals w2) = Inr m'" and w': "b" "w' = on_mclmac (on_mac (\<lambda>_. m')) w2"
    by (auto simp: mclmac_receive_data_packet_def new_array_def rbind_eq_Inr)
  from native rs' have bytes: "write_all (WRITE_ARRAY RIOT) (replicate 256 0)
      (receive_data_header (mclmac ?w) @ zip [18..<256] rs) = Inr bs" and w2: "w2 = ?w1"
    by (auto simp: receive_data_packet_native_def rbind_eq_Inr hdr write_all_append simp del: upt_rec_numeral)
  have int: "internals w2 = with_packets ?ps (internals ?w)"
    by (simp add: w2 on_mclmac_def on_mac_def same)
  from st [unfolded int] len obtain pkt where pos: "?pos < 20"
    and dec: "datapacket_construct_from_bytestring RIOT (\<lambda>_. 0) (?ps ! received_slot ?pos) bs = Inr pkt"
    and m': "m' = (with_packets ?ps (internals ?w))
        \<lparr>packets_received := (drop 20 ?ps)[?pos := pkt],
         last_received := of_nat ((?pos + 1) mod 20),
         number_packets_received := number_packets_received (internals ?w) + 1\<rparr>"
    by (auto simp: store_received_def Let_def rbind_eq_Inr slot_defs split: if_splits)
  show ?thesis
    by (rule received [OF w'(1) rs same refl pos bytes dec])
      (use len pos same in \<open>simp add: w'(2) w2 m' on_mclmac_def on_mac_def store_packets\<close>)
qed

lemma receive_refines:
  assumes ok: "memarray_ok api frees valid" and inv: "heap_inv frees valid hw n"
    and mem: "512 \<le> card (frees (storage (pool hw)))"
    and list: "mclmac_receive_data_packet (abs_world hw) = Inr (b, w')"
  shows "\<exists>hw'. heap_receive_data_packet api hw = Inr (1, hw') \<and> abs_world hw' = w' \<and> b"
  using length_packets_of(1) [OF inv] list
proof (cases rule: receive_list_result)
  case (received rs w1 bs pkt pos)
  from byte_string_heap [OF ok inv mem received(6)] obtain a m1 m2 m3 where
    m: "local_array api (pool hw) 256 = Inr (a, m1)" "heap_writes m1 a (receive_data_header (mclmac (world hw))) = Inr m2"
    "heap_writes m2 a (zip [18..<256] rs) = Inr m3" "contents m3 a = bs" "256 \<le> card (frees (storage m3))"
    and h: "temp_inv frees valid (hw\<lparr>pool := m3, world := w1\<rparr>) a n"
    "packets_of (hw\<lparr>pool := m3, world := w1\<rparr>) = packets_of hw"
    by (auto simp: heap_writes_append rbind_eq_Inr simp del: upt_rec_numeral)
  from store_slot_refines [OF ok h(1) slot_bounds(3) [OF received(5)], of pkt] received(7) h(2) m(4,5) obtain h1 where
    h1: "construct_at api (received_slot pos) a (hw\<lparr>pool := m3, world := w1\<rparr>) = Inr h1"
    "temp_inv frees valid h1 a n" "world h1 = w1" "packets_of h1 = (packets_of hw)[received_slot pos := pkt]" by auto
  let ?upd = "\<lambda>m. m\<lparr>last_received := of_nat ((pos + 1) mod 20),
      number_packets_received := number_packets_received m + 1\<rparr>"
  have "temp_inv frees valid (on_internals ?upd h1) a n" using h1(2) by simp
  from free_local_heap [OF ok this] h1(3,4) obtain hw' where
    hw': "free_local api a (on_internals ?upd h1) = Inr hw'" "world hw' = on_mclmac (on_mac ?upd) w1"
    "packets_of hw' = (packets_of hw)[received_slot pos := pkt]" by auto
  have "heap_receive_data_packet api hw = Inr (1, hw')"
    using m(1-3) received(2-5) h1(1) hw'(1)
    by (simp add: heap_receive_data_packet_def Let_def del: upt_rec_numeral)
  with received(1,8) show ?thesis by (simp add: abs_world_eq hw'(2,3))
qed

lemma recv_message_length:
  assumes "recv_message os Q k qid (replicate 256 0) 256 pid = Inr (ret, msg, pid', Q', k')"
  shows "length msg = 256"
  using assms
  by (auto simp: recv_message_def assert_that_eq_Inr rbind_eq_Inr memcpy_def Let_def split: if_splits)

lemma write_whole_array:
  assumes "length msg = 256"
  shows "write_all (WRITE_ARRAY p) (replicate 256 0) (zip [0..<256] msg) = Inr msg"
  using flat_write_block [of "zip [0..<256] msg" 256 "replicate 256 0" p] assms
  by (simp del: upt_rec_numeral)

lemma store_refines:
  assumes ok: "memarray_ok api frees valid" and inv: "temp_inv frees valid hw bs n"
    and mem: "256 \<le> card (frees (storage (pool hw)))" and msg: "contents (pool hw) bs = msg"
  shows "store_message_packet msg (with_packets (packets_of hw) (internals (world hw))) = Inr m' \<Longrightarrow>
      \<exists>h. heap_store_message api bs hw = Inr h \<and> temp_inv frees valid h bs n \<and>
        abs_world h = on_mclmac (on_mac (\<lambda>_. m')) (world hw)"
    and "store_control_packet msg (with_packets (packets_of hw) (internals (world hw))) = Inr m' \<Longrightarrow>
      \<exists>h. heap_store_control api bs hw = Inr h \<and> temp_inv frees valid h bs n \<and>
        abs_world h = on_mclmac (on_mac (\<lambda>_. m')) (world hw)"
proof -
  let ?m = "internals (world hw)" and ?ps = "packets_of hw"
  have len: "length ?ps = 40" using length_packets_of(2) [OF inv] .
  show "\<exists>h. heap_store_message api bs hw = Inr h \<and> temp_inv frees valid h bs n \<and>
        abs_world h = on_mclmac (on_mac (\<lambda>_. m')) (world hw)"
    if "store_message_packet msg (with_packets ?ps ?m) = Inr m'"
  proof -
    let ?k = "unat (last_send_message ?m)"
    from that len obtain pkt where k: "?k < 10"
      and c: "datapacket_construct_from_bytestring RIOT (\<lambda>_. 0) (?ps ! message_slot ?k) msg = Inr pkt"
      and m': "m' = (with_packets ?ps ?m)\<lparr>message_packets_to_send := (take 10 ?ps)[?k := pkt],
        last_send_message := last_send_message ?m + 1, packets_to_send_message := packets_to_send_message ?m + 1\<rparr>"
      by (auto simp: store_message_packet_def Let_def rbind_eq_Inr slot_defs split: if_splits)
    from store_slot_refines [OF ok inv slot_bounds(1) [OF k] mem c [folded msg]] obtain h where
      "construct_at api (message_slot ?k) bs hw = Inr h" "temp_inv frees valid h bs n"
      "world h = world hw" "packets_of h = ?ps[message_slot ?k := pkt]" by blast
    with k len m' show ?thesis
      by (simp add: heap_store_message_def Let_def abs_world_eq on_mclmac_def on_mac_def store_packets)
  qed
  show "\<exists>h. heap_store_control api bs hw = Inr h \<and> temp_inv frees valid h bs n \<and>
        abs_world h = on_mclmac (on_mac (\<lambda>_. m')) (world hw)"
    if "store_control_packet msg (with_packets ?ps ?m) = Inr m'"
  proof -
    let ?k = "unat (last_send_control ?m)"
    from that len obtain pkt where k: "?k < 10"
      and c: "datapacket_construct_from_bytestring RIOT (\<lambda>_. 0) (?ps ! control_slot ?k) msg = Inr pkt"
      and m': "m' = (with_packets ?ps ?m)\<lparr>control_packets_to_send := (take 10 (drop 10 ?ps))[?k := pkt],
        last_send_control := last_send_control ?m + 1, packets_to_send_control := packets_to_send_control ?m + 1\<rparr>"
      by (auto simp: store_control_packet_def Let_def rbind_eq_Inr slot_defs split: if_splits)
    from store_slot_refines [OF ok inv slot_bounds(2) [OF k] mem c [folded msg]] obtain h where
      "construct_at api (control_slot ?k) bs hw = Inr h" "temp_inv frees valid h bs n"
      "world h = world hw" "packets_of h = ?ps[control_slot ?k := pkt]" by blast
    with k len m' show ?thesis
      by (simp add: heap_store_control_def Let_def abs_world_eq on_mclmac_def on_mac_def store_packets)
  qed
qed

lemma abs_world_kernel:
  "packets_of h = packets_of hw \<Longrightarrow> world h = (world hw)\<lparr>ipc_queues := Q, kernel := k\<rparr> \<Longrightarrow>
    abs_world h = (abs_world hw)\<lparr>ipc_queues := Q, kernel := k\<rparr>"
  by (simp add: abs_world_eq on_mclmac_def on_mac_def)

text \<open>The dispatch on the type of the message.\<close>

definition list_store_queued :: "u8 list \<Rightarrow> 'k world \<Rightarrow> (nat \<times> 'k world) result" where
  "list_store_queued msg w =
     (if unat (msg ! 0) \<ge> 7 \<and> unat (msg ! 0) < 10
      then rbind (store_message_packet msg (internals w)) (\<lambda>m. Inr (1, on_mclmac (on_mac (\<lambda>_. m)) w))
      else if unat (msg ! 0) \<ge> 2 \<and> unat (msg ! 0) < 7
      then rbind (store_control_packet msg (internals w)) (\<lambda>m. Inr (1, on_mclmac (on_mac (\<lambda>_. m)) w))
      else Inr (0, w))"

lemma store_queued_refines:
  assumes ok: "memarray_ok api frees valid" and inv: "temp_inv frees valid hw bs n"
    and mem: "256 \<le> card (frees (storage (pool hw)))" and msg: "contents (pool hw) bs = msg"
    and list: "list_store_queued msg (abs_world hw) = Inr (r, w')"
  shows "\<exists>h. heap_store_queued api bs (unat (msg ! 0)) hw = Inr (r, h) \<and> temp_inv frees valid h bs n \<and>
    abs_world h = w'"
proof -
  have abs: "on_mclmac (on_mac (\<lambda>_. m)) (abs_world hw) = on_mclmac (on_mac (\<lambda>_. m)) (world hw)" for m
    by (simp add: abs_world_eq on_mclmac_def on_mac_def)
  note store = store_refines [OF ok inv mem msg]
  consider (message) "unat (msg ! 0) \<ge> 7 \<and> unat (msg ! 0) < 10"
    | (control) "unat (msg ! 0) \<ge> 2 \<and> unat (msg ! 0) < 7"
    | (dropped) "\<not> (unat (msg ! 0) \<ge> 7 \<and> unat (msg ! 0) < 10)" "\<not> (unat (msg ! 0) \<ge> 2 \<and> unat (msg ! 0) < 7)"
    by blast
  then show ?thesis
  proof cases
    case message
    with list obtain m where "store_message_packet msg (with_packets (packets_of hw) (internals (world hw))) = Inr m"
      "r = 1" "w' = on_mclmac (on_mac (\<lambda>_. m)) (world hw)" by (auto simp: list_store_queued_def rbind_eq_Inr abs)
    with store(1) [of m] message show ?thesis by (auto simp: heap_store_queued_def)
  next
    case control
    with list obtain m where "store_control_packet msg (with_packets (packets_of hw) (internals (world hw))) = Inr m"
      "r = 1" "w' = on_mclmac (on_mac (\<lambda>_. m)) (world hw)" by (auto simp: list_store_queued_def rbind_eq_Inr abs)
    with store(2) [of m] control show ?thesis by (auto simp: heap_store_queued_def)
  next
    case dropped
    with list inv show ?thesis unfolding list_store_queued_def heap_store_queued_def by auto
  qed
qed

text \<open>What a successful reading does to the lists.\<close>

lemma read_list_cases:
  fixes hw :: "('s, 'k) heap_world"
  assumes list: "mclmac_read_queue_element os (abs_world hw) = Inr (r, w')"
  obtains (nothing_read) "w' = abs_world hw" "\<forall>api. heap_read_queue_element os api hw = Inr (r, hw)"
  | (one_read) msg Q k where "length msg = 256"
      "list_store_queued msg ((abs_world hw)\<lparr>ipc_queues := Q, kernel := k\<rparr>) = Inr (r, w')"
      "\<forall>api. heap_read_queue_element os api hw =
        rbind (local_array api (pool hw) 256) (\<lambda>(bs, m1).
        rbind (heap_writes m1 bs (zip [0..<256] msg)) (\<lambda>m2.
        rbind (heap_store_queued api bs (unat (msg ! 0))
          (hw\<lparr>pool := m2, world := (world hw)\<lparr>ipc_queues := Q, kernel := k\<rparr>\<rparr>)) (\<lambda>(r, h).
        rbind (free_local api bs h) (\<lambda>h'. Inr (r, h')))))"
proof -
  let ?w = "world hw" and ?m = "internals (world hw)"
  let ?qid = "mac_queue_id (mclmac ?w)"
  from list have few: "unat (packets_to_send_message ?m) \<le> 10" "unat (packets_to_send_control ?m) \<le> 10"
    by (auto simp: mclmac_read_queue_element_def assert_that_eq_Inr Let_def)
  show ?thesis
  proof (cases "unat (packets_to_send_message ?m) + unat (packets_to_send_control ?m) = 20")
    case True
    show ?thesis
      by (rule nothing_read)
        (use few list True in \<open>auto simp: mclmac_read_queue_element_def heap_read_queue_element_def Let_def\<close>)
  next
    case open_slots: False
    with few list obtain e where e: "elements_on_queue os (kernel ?w) ?qid = Inr e"
      by (auto simp: mclmac_read_queue_element_def Let_def rbind_eq_Inr)
    show ?thesis
    proof (cases "e = 0")
      case True
      show ?thesis
        by (rule nothing_read)
          (use few list open_slots e True in
            \<open>auto simp: mclmac_read_queue_element_def heap_read_queue_element_def Let_def\<close>)
    next
      case False
      with few list open_slots e obtain ret msg pid Q k where
        rcv: "recv_message os (ipc_queues ?w) (kernel ?w) ?qid (replicate 256 0) 256 0 =
          Inr (ret, msg, pid, Q, k)" and ret: "ret \<noteq> 0"
        by (auto simp: mclmac_read_queue_element_def Let_def rbind_eq_Inr split: if_splits)
      show ?thesis
      proof (rule one_read [OF recv_message_length [OF rcv]])
        show "list_store_queued msg ((abs_world hw)\<lparr>ipc_queues := Q, kernel := k\<rparr>) = Inr (r, w')"
          using list few open_slots e False rcv ret
          by (auto simp: mclmac_read_queue_element_def list_store_queued_def Let_def split: if_splits)
      qed (use few open_slots e False rcv ret in
          \<open>simp add: heap_read_queue_element_def Let_def del: upt_rec_numeral\<close>)
    qed
  qed
qed

lemma read_refines:
  assumes ok: "memarray_ok api frees valid" and inv: "heap_inv frees valid hw n"
    and mem: "512 \<le> card (frees (storage (pool hw)))"
    and list: "mclmac_read_queue_element os (abs_world hw) = Inr (r, w')"
  shows "\<exists>hw'. heap_read_queue_element os api hw = Inr (r, hw') \<and> abs_world hw' = w'"
  using list
proof (cases rule: read_list_cases)
  case (one_read msg Q k)
  let ?w1 = "(world hw)\<lparr>ipc_queues := Q, kernel := k\<rparr>"
  from byte_string_heap [OF ok inv mem write_whole_array [OF one_read(1)]] obtain bs m1 m2 where
    m: "local_array api (pool hw) 256 = Inr (bs, m1)" "heap_writes m1 bs (zip [0..<256] msg) = Inr m2"
    "contents m2 bs = msg" "256 \<le> card (frees (storage m2))"
    and h: "temp_inv frees valid (hw\<lparr>pool := m2, world := ?w1\<rparr>) bs n"
    "packets_of (hw\<lparr>pool := m2, world := ?w1\<rparr>) = packets_of hw" by blast
  have "list_store_queued msg (abs_world (hw\<lparr>pool := m2, world := ?w1\<rparr>)) = Inr (r, w')"
    using one_read(2) abs_world_kernel [OF h(2)] by simp
  from store_queued_refines [OF ok h(1) _ _ this] m(3,4) obtain h1 where
    h1: "heap_store_queued api bs (unat (msg ! 0)) (hw\<lparr>pool := m2, world := ?w1\<rparr>) = Inr (r, h1)"
    "temp_inv frees valid h1 bs n" "abs_world h1 = w'" by auto
  from free_local_heap [OF ok h1(2)] obtain hw' where
    hw': "free_local api bs h1 = Inr hw'" "world hw' = world h1" "packets_of hw' = packets_of h1" by blast
  have "heap_read_queue_element os api hw = Inr (r, hw')"
    using one_read(3) m(1,2) h1(1) hw'(1) by (simp del: upt_rec_numeral)
  moreover have "abs_world hw' = w'" using hw'(2,3) h1(3) by (simp add: abs_world_eq)
  ultimately show ?thesis by blast
qed auto

lemma receive_control_available:
  assumes ok: "memarray_ok api frees valid" and inv: "heap_inv frees valid hw n"
    and mem: "256 \<le> card (frees (storage (pool hw)))"
    and list: "mclmac_receive_control_packet testing (world hw) = Inr (True, w)"
  shows "\<exists>hw'. heap_receive_control_packet api testing hw = Inr (True, hw') \<and> world hw' = w \<and>
    arrays hw' = arrays hw \<and> packets_of hw' = packets_of hw"
proof -
  obtain rs w1 where rs: "rand_bytes_250 256 (world hw) = (rs, w1)"
    by (cases "rand_bytes_250 256 (world hw)")
  from list have guard: "\<not> (testing \<and> state_ctrl (mclmac (world hw)) = 7)"
    by (auto simp: mclmac_receive_control_packet_def)
  let ?ws = "zip [0..<256] rs @ native_control_writes testing (mclmac (world hw))"
  from list guard rs obtain bs0 pkt where enc: "write_all (WRITE_ARRAY RIOT) (replicate 256 0) ?ws = Inr bs0"
    and dec: "controlpacket_construct_packet_from_bytestring RIOT (ctrlpkt_recv (internals w1)) bs0 = Inr pkt"
    and w: "w = on_mclmac (on_mac (ctrlpkt_recv_update (\<lambda>_. pkt))) w1"
    by (auto simp: mclmac_receive_control_packet_def receive_control_packet_native_def new_array_def
        rbind_eq_Inr simp del: upt_rec_numeral split: if_splits)
  from local_array_heap [OF ok inv] mem obtain bs m1 where
    m1: "local_array api (pool hw) 256 = Inr (bs, m1)" "temp_inv frees valid (hw\<lparr>pool := m1\<rparr>) bs n"
    "contents m1 bs = replicate 256 0" "packets_of (hw\<lparr>pool := m1\<rparr>) = packets_of hw" by auto
  from heap_writes_heap [OF m1(2), of ?ws] m1(3,4) enc obtain m2 where
    m2: "heap_writes m1 bs ?ws = Inr m2" "contents m2 bs = bs0"
    "packets_of (hw\<lparr>pool := m2\<rparr>) = packets_of hw" by (auto simp del: upt_rec_numeral)
  let ?h = "hw\<lparr>pool := m2, world := w\<rparr>"
  have "heap_receive_control_packet api testing hw = Inr (True, ?h)"
    unfolding heap_receive_control_packet_def if_not_P [OF guard]
    by (simp add: m1(1) rs m2(1,2) dec w del: upt_rec_numeral)
  moreover have "packets_of ?h = packets_of hw"
    using m2(3) heap_views(2) [of "\<lambda>_. w" "hw\<lparr>pool := m2\<rparr>"] by simp
  ultimately show ?thesis by (auto simp: arrays_def)
qed

lemma read_all_heap:
  assumes "temp_inv frees valid (hw\<lparr>pool := m\<rparr>) a n"
  shows "read_list chain_read (m, a) [0..<256] = Inr (contents m a)"
proof -
  have inv: "pool_inv frees valid m (a # arrays hw)" and size: "asize a = 256"
    using assms by (simp_all add: temp_inv_def)
  have "array_blocks m a (blocks m a)"
    using inv by (simp add: pool_inv_def array_ok_blocks)
  then have len: "length (contents m a) = 256"
    using size by (simp add: length_contents)
  have "read_list chain_read (m, a) is = read_list (READ_ARRAY RIOT) (contents m a) is" for "is"
    by (induction "is") (simp_all add: chain_reads_pool(1) [OF inv])
  then show ?thesis using len map_nth [of "contents m a"]
    by (simp add: flat_read_list del: upt_rec_numeral)
qed

text \<open>What a successful writing does to the lists.\<close>

lemma write_list_cases:
  fixes hw :: "('s, 'k) heap_world"
  assumes len: "length (packets_of hw) = 40"
    and list: "mclmac_write_queue_element os (abs_world hw) = Inr (r, w')"
  obtains (nothing_written) "w' = abs_world hw" "\<forall>api. heap_write_queue_element os api hw = Inr (r, hw)"
  | (one_written) first bs ret Q k upd where "first < 20"
      "datapacket_get_packet_bytestring RIOT (\<lambda>_. 0) (packets_of hw ! received_slot first) = Inr bs"
      "if ret = (0 :: u32) then r = 0 \<and> w' = (abs_world hw)\<lparr>ipc_queues := Q, kernel := k\<rparr>
       else r = 1 \<and> w' = on_mclmac (on_mac (with_packets ((packets_of hw)
           [received_slot first := datapacket_clear (packets_of hw ! received_slot first)])))
         (on_mclmac (on_mac upd) ((world hw)\<lparr>ipc_queues := Q, kernel := k\<rparr>))"
      "\<forall>api a m1. heap_packet_bytestring api (pool hw) (heap_packets hw ! received_slot first) = Inr (a, m1) \<longrightarrow>
        read_list chain_read (m1, a) [0..<256] = Inr bs \<longrightarrow>
        (let h = hw\<lparr>pool := m1, world := (world hw)\<lparr>ipc_queues := Q, kernel := k\<rparr>\<rparr>
         in heap_write_queue_element os api hw = (if ret = 0 then Inr (0, h)
           else rbind (clear_at api (received_slot first) h) (\<lambda>h.
             rbind (free_local api a (on_internals upd h)) (\<lambda>h'. Inr (1, h')))))"
proof -
  let ?w = "world hw" and ?m = "internals (world hw)" and ?ps = "packets_of hw"
  let ?qid = "routing_queue_id (mclmac ?w)" and ?first = "unat (first_received ?m)"
  show ?thesis
  proof (cases "number_packets_received ?m = 0")
    case True
    show ?thesis
      by (rule nothing_written)
        (use list True in \<open>auto simp: mclmac_write_queue_element_def heap_write_queue_element_def Let_def\<close>)
  next
    case some: False
    with list obtain e where e: "elements_on_queue os (kernel ?w) ?qid = Inr e"
      by (auto simp: mclmac_write_queue_element_def Let_def rbind_eq_Inr)
    show ?thesis
    proof (cases "e = 10 \<or> ?qid = 0")
      case True
      show ?thesis
        by (rule nothing_written)
          (use list some e True in \<open>auto simp: mclmac_write_queue_element_def heap_write_queue_element_def
            Let_def split: if_splits\<close>)
    next
      case False
      with list some e len obtain bs ret Q k where first: "?first < 20"
        and enc: "datapacket_get_packet_bytestring RIOT (\<lambda>_. 0) (?ps ! received_slot ?first) = Inr bs"
        and snd: "send_message os (ipc_queues ?w) (kernel ?w) ?qid bs 256 (self_pid (mclmac ?w)) = Inr (ret, Q, k)"
        and res: "if ret = 0 then r = 0 \<and> w' = (abs_world hw)\<lparr>ipc_queues := Q, kernel := k\<rparr>
          else r = 1 \<and> w' = on_mclmac (on_mac remove_received) ((abs_world hw)\<lparr>ipc_queues := Q, kernel := k\<rparr>)"
        by (auto simp: mclmac_write_queue_element_def Let_def rbind_eq_Inr slot_defs split: if_splits)
      let ?upd = "\<lambda>m. m\<lparr>first_received := of_nat ((?first + 1) mod 10),
          number_packets_received := number_packets_received m - 1\<rparr>"
      show ?thesis
      proof (rule one_written [OF first enc, where ret = ret and Q = Q and k = k and upd = ?upd])
        show "if ret = 0 then r = 0 \<and> w' = (abs_world hw)\<lparr>ipc_queues := Q, kernel := k\<rparr>
            else r = 1 \<and> w' = on_mclmac (on_mac (with_packets (?ps
                [received_slot ?first := datapacket_clear (?ps ! received_slot ?first)])))
              (on_mclmac (on_mac ?upd) (?w\<lparr>ipc_queues := Q, kernel := k\<rparr>))"
          using res len first
          by (cases "ret = 0") (simp_all add: abs_world_eq on_mclmac_def on_mac_def remove_received_def
              Let_def store_packets)
      qed (use some e False first snd in
          \<open>simp add: heap_write_queue_element_def Let_def del: upt_rec_numeral\<close>)
    qed
  qed
qed

lemma write_refines:
  assumes ok: "memarray_ok api frees valid" and inv: "heap_inv frees valid hw n"
    and mem: "512 \<le> card (frees (storage (pool hw)))"
    and list: "mclmac_write_queue_element os (abs_world hw) = Inr (r, w')"
  shows "\<exists>hw'. heap_write_queue_element os api hw = Inr (r, hw') \<and> abs_world hw' = w'"
  using length_packets_of(1) [OF inv] list
proof (cases rule: write_list_cases)
  case (one_written first bs ret Q k upd)
  let ?k = "received_slot first" and ?w1 = "(world hw)\<lparr>ipc_queues := Q, kernel := k\<rparr>"
  from bytestring_heap [OF ok inv slot_bounds(3) [OF one_written(1)], of "\<lambda>_. 0"] mem one_written(2) obtain a m1 where
    m1: "heap_packet_bytestring api (pool hw) (heap_packets hw ! ?k) = Inr (a, m1)"
    "temp_inv frees valid (hw\<lparr>pool := m1\<rparr>) a n" "contents m1 a = bs"
    "packets_of (hw\<lparr>pool := m1\<rparr>) = packets_of hw" by auto
  let ?h = "hw\<lparr>pool := m1, world := ?w1\<rparr>"
  have h: "temp_inv frees valid ?h a n" "packets_of ?h = packets_of hw"
    using heap_inv_world(2) [of frees valid "\<lambda>_. ?w1" "hw\<lparr>pool := m1\<rparr>" a n] m1(2,4)
      heap_views(2) [of "\<lambda>_. ?w1" "hw\<lparr>pool := m1\<rparr>"] by simp_all
  have rd: "read_list chain_read (m1, a) [0..<256] = Inr bs" using read_all_heap [OF m1(2)] m1(3) by simp
  from one_written(4) m1(1) rd have run: "heap_write_queue_element os api hw = (if ret = 0 then Inr (0, ?h)
      else rbind (clear_at api ?k ?h) (\<lambda>h. rbind (free_local api a (on_internals upd h)) (\<lambda>h'. Inr (1, h'))))"
    by (simp add: Let_def del: upt_rec_numeral)
  show ?thesis
  proof (cases "ret = 0")
    case True
    with run one_written(3) abs_world_kernel [OF h(2)] show ?thesis by simp
  next
    case False
    from clear_at_temp [OF ok h(1) slot_bounds(3) [OF one_written(1)]] h(2) obtain h1 where
      h1: "clear_at api ?k ?h = Inr h1" "temp_inv frees valid h1 a n" "world h1 = ?w1"
      "packets_of h1 = (packets_of hw)[?k := datapacket_clear (packets_of hw ! ?k)]" by auto
    have "temp_inv frees valid (on_internals upd h1) a n" using h1(2) by simp
    from free_local_heap [OF ok this] h1(3,4) obtain hw' where
      "free_local api a (on_internals upd h1) = Inr hw'" "world hw' = on_mclmac (on_mac upd) ?w1"
      "packets_of hw' = (packets_of hw)[?k := datapacket_clear (packets_of hw ! ?k)]" by auto
    with run h1(1) False one_written(3) show ?thesis by (simp add: abs_world_eq)
  qed
qed auto

text \<open>Waiting does not depend on the packets.\<close>

lemma env_event_on_mclmac: "env_event e (on_mclmac f w) = on_mclmac f (env_event e w)"
  by (cases e) (simp_all add: on_mclmac_def)

lemma ztimer_sleep_on_mclmac:
  "ztimer_sleep d (on_mclmac f w) = rbind (ztimer_sleep d w) (\<lambda>w'. Inr (on_mclmac f w'))"
proof -
  have fold: "fold env_event es (on_mclmac f w) = on_mclmac f (fold env_event es w)" for es w
    by (induction es arbitrary: w) (simp_all add: env_event_on_mclmac)
  have upd: "(on_mclmac f w)\<lparr>script := s\<rparr> = on_mclmac f (w\<lparr>script := s\<rparr>)"
    "(on_mclmac f w)\<lparr>clock := c\<rparr> = on_mclmac f (w\<lparr>clock := c\<rparr>)" for s c w
    by (simp_all add: on_mclmac_def)
  show ?thesis
    by (simp add: ztimer_sleep_def wait_round_def upd fold split: list.split)
qed

lemma send_control_refines:
  assumes ok: "memarray_ok api frees valid" and inv: "heap_inv frees valid hw n"
    and mem: "512 \<le> card (frees (storage (pool hw)))"
    and list: "mclmac_send_control_packet (abs_world hw) = Inr w'"
  shows "\<exists>hw'. heap_send_control_packet api hw = Inr hw' \<and> abs_world hw' = w'"
proof -
  obtain r w1 where c: "c_rand (world hw) = (r, w1)" by (cases "c_rand (world hw)")
  then have same: "mclmac w1 = mclmac (world hw)" by (auto simp: c_rand_def)
  let ?pkt = "ctrlpkt (internals w1)" and ?ps = "packets_of hw"
  from list have w': "w' = on_mclmac (on_mac (with_packets ?ps))
      (on_mclmac (on_mac (\<lambda>i. i\<lparr>ctrlpkt := controlpacket_clear (ctrlpkt i)\<rparr>)) w1)"
    by (auto simp: mclmac_send_control_packet_def abs_world_eq c_rand_on_mclmac c rbind_eq_Inr)
      (simp add: on_mclmac_def on_mac_def with_packets_def)
  from temporary_array [OF ok inv, of 257 "control_header_writes ?pkt @ control_slots_writes ?pkt @
      control_padding_writes (of_nat r)"] mem obtain hw' where
    "heap_send_control_packet api hw = Inr hw'"
    "world hw' = on_mclmac (on_mac (\<lambda>i. i\<lparr>ctrlpkt := controlpacket_clear (ctrlpkt i)\<rparr>)) w1"
    "packets_of hw' = ?ps"
    by (fastforce simp: heap_send_control_packet_def c)
  with w' show ?thesis by (simp add: abs_world_eq)
qed

lemma send_cf_refines:
  assumes ok: "memarray_ok api frees valid" and inv: "heap_inv frees valid hw n"
    and mem: "512 \<le> card (frees (storage (pool hw)))"
    and list: "mclmac_send_cf_message (abs_world hw) = Inr w'"
  shows "\<exists>hw'. heap_send_cf_message api hw = Inr hw' \<and> abs_world hw' = w'"
proof -
  obtain r w2 where c: "c_rand (world hw) = (r, w2)" by (cases "c_rand (world hw)")
  let ?ps = "packets_of hw"
  let ?ws = "cf_field_writes (cf_messages (internals (world hw)) ! 0) @ cf_padding_writes (of_nat r)"
  from list obtain w3 where w3: "ztimer_sleep 1 w2 = Inr w3" "w' = on_mclmac (on_mac (with_packets ?ps)) w3"
    by (auto simp: mclmac_send_cf_message_def abs_world_eq c_rand_on_mclmac c rbind_eq_Inr
        ztimer_sleep_on_mclmac mclmac_set_radio_standby_def Let_def)
  from temporary_array [OF ok inv, of 256 ?ws] mem obtain hw' where
    "heap_send_cf_message api hw = Inr hw'" "world hw' = w3" "packets_of hw' = ?ps"
    by (fastforce simp: heap_send_cf_message_def c_rand_on_mclmac c Let_def ztimer_sleep_on_mclmac
        mclmac_set_radio_standby_def w3(1))
  with w3(2) show ?thesis by (simp add: abs_world_eq)
qed

section \<open>A node\<close>

text \<open>A node with an empty pool of 10240 blocks.\<close>

definition pooled_node :: "(nat list, pid \<times> (pid \<Rightarrow> msg_t list)) heap_world" where
  "pooled_node =
     \<lparr>pool = \<lparr>MEMORY = (\<lambda>_. \<lparr>nxt = None, block0 = 0\<rparr>), storage = [0..<MAX_NUMBER_BLOCKS]\<rparr>,
      heap_packets = replicate 40 \<lparr>mp_type = 0, mp_size = 0, mp_destination = (0, 0), mp_data = empty_array\<rparr>,
      world = hearing\<rparr>"

lemma pooled_node_inv: "heap_inv set distinct pooled_node 10240"
  by (simp add: heap_inv_def arrays_def pooled_node_def del: upt_rec_numeral)

section \<open>Property\<close>

text \<open>
  C30. The packet queues live in the block pool as if in lists. With 512 blocks free, every
  reading, writing, sending and receiving that succeeds on the model over lists, and every sending of
  a control or CF packet, succeeds on the pool, returns the same and leaves the same packets; the arrays stay disjoint; and the blocks
  free or in packets are as many as before, except that a packet that could not be
  written to the routing layer may cost the 256 blocks of its byte string.
\<close>

theorem packet_queues_in_pool:
  assumes "memarray_ok api frees valid" and "heap_inv frees valid hw n"
    and "512 \<le> card (frees (storage (pool hw)))" and "list_op os op (abs_world hw) = Inr (r, w')"
  shows "\<exists>hw'. pool_op os api op hw = Inr (r, hw') \<and> abs_world hw' = w' \<and>
    (heap_inv frees valid hw' n \<or> op = Write_queue \<and> r = 0 \<and> heap_inv frees valid hw' (n - 256))"
proof (cases op)
  case Read_queue
  with assms(4) read_refines [OF assms(1-3), of os r w'] read_queue_blocks [OF assms(1,2), of os r]
  show ?thesis by (fastforce simp: list_op_def pool_op_def)
next
  case Write_queue
  with assms(4) obtain hw' where hw': "heap_write_queue_element os api hw = Inr (r, hw')" "abs_world hw' = w'"
    using write_refines [OF assms(1-3), of os r w'] by (auto simp: list_op_def)
  from write_queue_blocks [OF assms(1,2) hw'(1)] hw' Write_queue show ?thesis
    by (auto simp: pool_op_def)
next
  case Send_data
  with assms(4) obtain hw' where "heap_send_data_packet api hw = Inr hw'" "abs_world hw' = w'" "r = 1"
    using send_refines [OF assms(1-3), of w'] by (auto simp: list_op_def rbind_eq_Inr)
  with send_blocks [OF assms(1,2)] Send_data show ?thesis by (auto simp: pool_op_def)
next
  case Receive_data
  with assms(4) obtain b where "mclmac_receive_data_packet (abs_world hw) = Inr (b, w')" "r = (if b then 1 else 0)"
    by (auto simp: list_op_def rbind_eq_Inr)
  with receive_refines [OF assms(1-3), of b w'] receive_blocks [OF assms(1,2), of 1] Receive_data
  show ?thesis by (fastforce simp: pool_op_def)
next
  case Send_control
  with assms(4) obtain hw' where "heap_send_control_packet api hw = Inr hw'" "abs_world hw' = w'" "r = 1"
    using send_control_refines [OF assms(1-3), of w'] by (auto simp: list_op_def rbind_eq_Inr)
  with send_control_blocks(1) [OF assms(1,2)] Send_control show ?thesis by (auto simp: pool_op_def)
next
  case Send_cf
  with assms(4) obtain hw' where "heap_send_cf_message api hw = Inr hw'" "abs_world hw' = w'" "r = 1"
    using send_cf_refines [OF assms(1-3), of w'] by (auto simp: list_op_def rbind_eq_Inr)
  with send_cf_blocks [OF assms(1,2)] Send_cf show ?thesis by (auto simp: pool_op_def)
qed

lemma packet_queues_in_pool_witness:
  "\<exists>hw'. pool_op inbox_rtos list_memarray Receive_data pooled_node = Inr (1, hw') \<and>
     number_packets_received (internals (abs_world hw')) = 1"
proof -
  let ?w = "abs_world pooled_node"
  have ps: "packets_of pooled_node = replicate 40 \<lparr>ptype = 0, psize = 0, destination_id = (0, 0), data = []\<rparr>"
    by (simp add: packets_of_def pooled_node_def abs_packet_def)
  have node: "world pooled_node = hearing" by (simp add: pooled_node_def)
  have "wf_internals (internals hearing)" using hearing_good by (simp add: good_def wf_node_def wf_mclmac_def)
  then have "wf_internals (internals ?w)"
    by (simp add: ps node wf_simps wf_datapacket_def with_packets_def list_all_iff)
  from receive_data_safe [OF this] obtain r w where
    rw: "mclmac_receive_data_packet ?w = Inr (r, w)" by (metis obj_sumE prod.collapse)
  with receive_data_counts [OF rw] hearing_state(7)
  have r: "r" "number_packets_received (internals w) = 1" by (simp_all add: node)
  with rw have op: "list_op inbox_rtos Receive_data ?w = Inr (1, w)" by (simp add: list_op_def)
  have "512 \<le> card (set (storage (pool pooled_node)))"
    by (simp add: pooled_node_def del: upt_rec_numeral)
  from packet_queues_in_pool [OF list_memarray_ok pooled_node_inv this op] r show ?thesis by auto
qed

end
