(* ===== verification/Hardware_Radio.thy ===== *)
theory Hardware_Radio
  imports Active_Progress
begin

text \<open>
  The branches of \<open>Packets_Handlers.c\<close> and \<open>MCLMAC.c\<close> for the nRF24L01+ radio, built for RIOT
  without \<open>NATIVE\<close>. The radio is reached through RIOT's \<open>netdev\<close> interface, which is not part of
  the repository: the parameter \<open>'k netdev\<close> has its functions \<open>set\<close> and \<open>recv\<close> over the state
  \<open>'k\<close> of the kernel and its drivers, and the constants of the driver. \<open>recv\<close> called with a null
  buffer is \<open>dev_pending\<close>, called with a buffer of the given length it is \<open>dev_recv\<close>, which also
  gives the bytes it wrote to the buffer. Nothing is assumed of them, so what is proved here holds
  of every radio.

  Every call of \<open>send\<close> is commented out in the source. \<open>mclmac_receive_cf_message\<close> has a branch
  for the radio that names a field and a variable that do not exist; it is not modelled.
\<close>

section \<open>The interface\<close>

datatype netopt_state_t =
    NETOPT_STATE_OFF | NETOPT_STATE_SLEEP | NETOPT_STATE_STANDBY | NETOPT_STATE_RX | NETOPT_STATE_TX

datatype netopt =
    NETOPT_CHANNEL u16
  | NETOPT_ADDRESS "u8 list"
  | NETOPT_STATE netopt_state_t

record 'k netdev =
  dev_set :: "'k \<Rightarrow> netopt \<Rightarrow> 'k"
  dev_pending :: "'k \<Rightarrow> int \<times> 'k"
  dev_recv :: "'k \<Rightarrow> int \<Rightarrow> int \<times> u8 list \<times> 'k"
  payload_width :: nat
  max_retransmissions :: int
  broadcast_addr :: "u8 list"

definition set_option :: "'k netdev \<Rightarrow> netopt \<Rightarrow> 'k world \<Rightarrow> 'k world" where
  "set_option dev opt w = w\<lparr>kernel := dev_set dev (kernel w) opt\<rparr>"

definition frame_length :: "'k netdev \<Rightarrow> 'k world \<Rightarrow> int \<times> 'k world" where
  "frame_length dev w = (case dev_pending dev (kernel w) of (len, k) \<Rightarrow> (len, w\<lparr>kernel := k\<rparr>))"

text \<open>Reading into the local \<open>buf\<close> of \<open>payload_width\<close> zeros.\<close>

definition read_frame :: "'k netdev \<Rightarrow> int \<Rightarrow> 'k world \<Rightarrow> (int \<times> u8 list \<times> 'k world) result" where
  "read_frame dev len w =
     (case dev_recv dev (kernel w) len of (ret, bs, k) \<Rightarrow>
       if length bs \<le> payload_width dev
       then Inr (ret, bs @ replicate (payload_width dev - length bs) 0, w\<lparr>kernel := k\<rparr>)
       else Inl Out_of_bounds)"

section \<open>Radio states\<close>

definition set_radio_sleep :: "'k netdev \<Rightarrow> 'k world \<Rightarrow> 'k world" where
  "set_radio_sleep dev = set_option dev (NETOPT_STATE NETOPT_STATE_SLEEP)"

definition set_radio_standby :: "'k netdev \<Rightarrow> 'k world \<Rightarrow> 'k world" where
  "set_radio_standby dev = set_option dev (NETOPT_STATE NETOPT_STATE_STANDBY)"

definition set_radio_rx :: "'k netdev \<Rightarrow> 'k world \<Rightarrow> 'k world" where
  "set_radio_rx dev = set_option dev (NETOPT_STATE NETOPT_STATE_RX)"

text \<open>The channel is cut to 16 bits.\<close>

definition change_cf_channel :: "'k netdev \<Rightarrow> 'k world \<Rightarrow> 'k world" where
  "change_cf_channel dev w =
     set_option dev (NETOPT_STATE NETOPT_STATE_STANDBY)
       (set_option dev (NETOPT_ADDRESS (broadcast_addr dev))
         (set_option dev (NETOPT_CHANNEL (ucast (cfChannel (internals w)))) w))"

definition start_cf_phase :: "'k netdev \<Rightarrow> 'k world \<Rightarrow> 'k world" where
  "start_cf_phase dev w =
     on_mclmac (\<lambda>m. mclmac_set_current_cf_slot m 0)
       (set_option dev (NETOPT_STATE NETOPT_STATE_RX) (change_cf_channel dev w))"

definition start_split_phase :: "'k netdev \<Rightarrow> PowerMode_t \<Rightarrow> 'k world \<Rightarrow> int \<times> 'k world" where
  "start_split_phase dev state w =
     (if state \<noteq> TRANSMIT \<and> state \<noteq> RECEIVE then (- 1, w)
      else
        (let (channel, net_state) =
               (if state = TRANSMIT then (ucast (transmitChannel (internals w)), NETOPT_STATE_TX)
                else (ucast (receiveChannel (internals w)), NETOPT_STATE_RX))
         in (1, on_mclmac (on_mac (\<lambda>i. i\<lparr>ctrlpkt := controlpacket_clear (ctrlpkt i)\<rparr>))
                  (set_option dev (NETOPT_STATE net_state) (set_option dev (NETOPT_CHANNEL channel) w)))))"

definition start_packet_detection :: "'k netdev \<Rightarrow> 'k world \<Rightarrow> 'k world" where
  "start_packet_detection dev w =
     set_option dev (NETOPT_STATE NETOPT_STATE_RX)
       (set_option dev (NETOPT_STATE NETOPT_STATE_SLEEP)
         (set_option dev (NETOPT_CHANNEL (ucast (cfChannel (internals w)))) w))"

text \<open>The loop over \<open>retries\<close> asks the radio again at once.\<close>

function cf_packet_detected :: "'k netdev \<Rightarrow> nat \<Rightarrow> 'k world \<Rightarrow> bool \<times> 'k world" where
  "cf_packet_detected dev retries w =
     (if retries < MAX_RETRIES
      then
        (case frame_length dev w of (sz, w') \<Rightarrow>
          if sz \<noteq> int (payload_width dev) + 5 then cf_packet_detected dev (retries + 1) w'
          else (True, w'))
      else (False, w))"
  by pat_completeness auto
termination by (relation "measure (\<lambda>(_, retries, _). MAX_RETRIES - retries)") auto

declare cf_packet_detected.simps [simp del]

text \<open>The packet is copied for the call of \<open>send\<close> that is commented out.\<close>

definition send_cf_message :: "'k netdev \<Rightarrow> 'k world \<Rightarrow> 'k world result" where
  "send_cf_message dev w =
     (let w1 = set_radio_standby dev w; pkt = cf_messages (internals w1) ! 0
      in case c_rand w1 of (n, w2) \<Rightarrow>
        rbind (cfpacket_get_packet_bytestring RIOT (\<lambda>_. 0) (of_nat n) pkt) (\<lambda>bs.
        rbind (read_list (READ_ARRAY RIOT) bs [0..<payload_width dev]) (\<lambda>packet.
          ztimer_sleep 1 (set_radio_standby dev w2))))"

section \<open>Receiving a control packet\<close>

text \<open>The locals of the callers: the output buffer, the bytes still missing, the position.\<close>

record recv_locals =
  out_buf :: "u8 list"
  remaining_bytes :: int
  pos :: int
  max_recv :: int

definition copy_chunk :: "nat \<Rightarrow> u8 list \<Rightarrow> int \<Rightarrow> u8 list \<Rightarrow> u8 list result" where
  "copy_chunk width out p buf =
     (if 0 \<le> p \<and> nat p + width \<le> length out
      then Inr (take (nat p) out @ take width buf @ drop (nat p + width) out)
      else Inl Out_of_bounds)"

text \<open>
  \<open>_recv_first_32_bytes\<close>. The locals hold what the pointers point at: \<open>pos\<close> is the parameter
  named \<open>pos\<close> in the function. The loop ends with the value to return.
\<close>

definition recv_first_round ::
    "'k netdev \<Rightarrow> u8 \<Rightarrow> u32 \<Rightarrow> bool \<times> recv_locals \<Rightarrow> 'k world \<Rightarrow>
     (bool \<times> (bool \<times> recv_locals) \<times> 'k world) result" where
  "recv_first_round dev ty timer s w =
     (let l = snd s;
          again = (\<lambda>w. if passed timer w = 1 then (False, (False, l), unset_timer timer w)
                       else (True, (True, l), w))
      in case frame_length dev w of (len, w1) \<Rightarrow>
        if len \<noteq> int (payload_width dev) then Inr (again w1)
        else
          rbind (read_frame dev len w1) (\<lambda>(ret, buf, w2).
            if ret < 0 then Inr (False, (False, l), w2)
            else if buf ! 0 \<noteq> ty then Inr (again w2)
            else
              rbind (copy_chunk (payload_width dev) (out_buf l) 0 buf) (\<lambda>out.
                Inr (False,
                     (True, l\<lparr>out_buf := out, pos := pos l + int (payload_width dev),
                              remaining_bytes := remaining_bytes l - int (payload_width dev)\<rparr>),
                     w2))))"

definition recv_first_32_bytes ::
    "'k netdev \<Rightarrow> u8 \<Rightarrow> u32 \<Rightarrow> recv_locals \<Rightarrow> 'k world \<Rightarrow> ((bool \<times> recv_locals) \<times> 'k world) result" where
  "recv_first_32_bytes dev ty timer l w =
     (if timer = TIMEOUT_SET_ERROR then Inr ((False, l), w)
      else run_loop (recv_first_round dev ty timer) (True, l) w)"

text \<open>\<open>_recv_remaining_packet\<close>\<close>

definition recv_remaining_round ::
    "'k netdev \<Rightarrow> bool \<times> recv_locals \<Rightarrow> 'k world \<Rightarrow> (bool \<times> (bool \<times> recv_locals) \<times> 'k world) result" where
  "recv_remaining_round dev s w =
     (let l = snd s
      in case frame_length dev w of (len, w1) \<Rightarrow>
        (let min_number_bytes = (if remaining_bytes l < len then remaining_bytes l else len)
         in if len < min_number_bytes
            then
              (if passed (slot_timer (frame (internals w1))) w1 = 1 then Inr (False, (False, l), w1)
               else if max_recv l = 0 then Inr (False, (False, l\<lparr>max_recv := max_recv l - 1\<rparr>), w1)
               else Inr (True, (True, l\<lparr>max_recv := max_recv l - 1\<rparr>), w1))
            else
              rbind (read_frame dev len w1) (\<lambda>(ret, buf, w2).
                if ret < 0 then Inr (False, (False, l), w2)
                else
                  rbind (copy_chunk (payload_width dev) (out_buf l) (pos l) buf) (\<lambda>out.
                    (let l' = l\<lparr>out_buf := out, pos := pos l + int (payload_width dev),
                               remaining_bytes := remaining_bytes l - int (payload_width dev),
                               max_recv := max_retransmissions dev\<rparr>
                     in Inr (remaining_bytes l' > 0, (True, l'), w2))))))"

definition recv_remaining_packet ::
    "'k netdev \<Rightarrow> recv_locals \<Rightarrow> 'k world \<Rightarrow> ((bool \<times> recv_locals) \<times> 'k world) result" where
  "recv_remaining_packet dev l w = run_loop (recv_remaining_round dev) (True, l) w"

text \<open>
  What \<open>mclmac_receive_ctrlpkt_sync\<close> and \<open>mclmac_receive_control_packet\<close> have in common: the
  timer over a twentieth of the slot, and the two calls. The first call passes \<open>&pos\<close> for the
  parameter \<open>remaining_bytes\<close> and \<open>&remaining_bytes\<close> for the parameter \<open>pos\<close>; \<open>swap_counters\<close>
  is that.
\<close>

definition swap_counters :: "recv_locals \<Rightarrow> recv_locals" where
  "swap_counters l = l\<lparr>pos := remaining_bytes l, remaining_bytes := pos l\<rparr>"

definition receive_packet ::
    "'k netdev \<Rightarrow> 'k world \<Rightarrow> (u8 list option \<times> 'k world) result" where
  "receive_packet dev w =
     (case set_timer (slot_duration (frame (internals w)) div 20) w of (timer, w1) \<Rightarrow>
       rbind (recv_first_32_bytes dev 1 timer
                (swap_counters \<lparr>out_buf = replicate PACKET_SIZE_MAC 0,
                   remaining_bytes = int PACKET_SIZE_MAC, pos = 0, max_recv = 0\<rparr>) w1) (\<lambda>((ret, l), w2).
         if \<not> ret then Inr (None, w2)
         else
           rbind (recv_remaining_packet dev
                    ((swap_counters l)\<lparr>max_recv := max_retransmissions dev\<rparr>) w2) (\<lambda>((ret', l'), w3).
             Inr (if ret' then Some (out_buf l') else None, w3))))"

definition receive_ctrlpkt_sync ::
    "'k netdev \<Rightarrow> 'k world \<Rightarrow> ControlPacket_t \<Rightarrow> (bool \<times> ControlPacket_t \<times> 'k world) result" where
  "receive_ctrlpkt_sync dev w pkt =
     rbind (receive_packet dev w) (\<lambda>(bytes, w1).
       case bytes of
         None \<Rightarrow> Inr (False, pkt, w1)
       | Some bs \<Rightarrow>
           if bs ! 0 \<noteq> 1 then Inr (False, pkt, w1)
           else
             rbind (write_all (WRITE_ARRAY RIOT) (new_array RIOT (\<lambda>_. 0) PACKET_SIZE_MAC)
                      (zip [0..<PACKET_SIZE_MAC] bs)) (\<lambda>bytes'.
             rbind (controlpacket_construct_packet_from_bytestring RIOT pkt bytes') (\<lambda>pkt'.
               Inr (True, pkt', w1))))"

definition receive_control_packet :: "'k netdev \<Rightarrow> 'k world \<Rightarrow> (bool \<times> 'k world) result" where
  "receive_control_packet dev w =
     rbind (receive_packet dev w) (\<lambda>(bytes, w1).
       case bytes of
         None \<Rightarrow> Inr (False, w1)
       | Some bs \<Rightarrow>
           rbind (write_all (WRITE_ARRAY RIOT) (new_array RIOT (\<lambda>_. 0) MAX_MESSAGE_SIZE)
                    (zip [0..<PACKET_SIZE_MAC] bs)) (\<lambda>bytes'.
           rbind (controlpacket_construct_packet_from_bytestring RIOT (ctrlpkt_recv (internals w1)) bytes') (\<lambda>pkt.
             Inr (True, on_mclmac (on_mac (ctrlpkt_recv_update (\<lambda>_. pkt))) w1))))"

section \<open>No control packet is ever received\<close>

lemma recv_first_counters:
  assumes "recv_first_32_bytes dev ty timer l w = Inr ((True, l'), w')"
  shows "pos l' = pos l + int (payload_width dev) \<and>
    remaining_bytes l' = remaining_bytes l - int (payload_width dev)"
proof -
  let ?n = "int (payload_width dev)"
  from assms have "run_loop (recv_first_round dev ty timer) (True, l) w = Inr ((True, l'), w')"
    by (simp add: recv_first_32_bytes_def split: if_splits)
  then have "fst (True, l') \<longrightarrow> pos (snd (True, l')) = pos l + ?n \<and>
      remaining_bytes (snd (True, l')) = remaining_bytes l - ?n"
    by (rule run_loop_rule [where I = "\<lambda>s v. snd s = l" and
          P = "\<lambda>s v. fst s \<longrightarrow> pos (snd s) = pos l + ?n \<and> remaining_bytes (snd s) = remaining_bytes l - ?n"])
      (auto simp: recv_first_round_def Let_def rbind_eq_Inr split: if_splits prod.splits)
  then show ?thesis by simp
qed

lemma recv_remaining_before_buffer:
  assumes "recv_remaining_packet dev l w = Inr ((b, l'), w')" and "pos l < 0"
  shows "\<not> b"
proof -
  from assms(1) have "\<not> fst (b, l')"
    unfolding recv_remaining_packet_def
    by (rule run_loop_rule [where I = "\<lambda>s v. pos (snd s) < 0" and P = "\<lambda>s v. \<not> fst s"])
      (use assms(2) in \<open>auto simp: recv_remaining_round_def Let_def rbind_eq_Inr copy_chunk_def
        split: if_splits prod.splits\<close>)
  then show ?thesis by simp
qed

lemma receive_packet_nothing:
  assumes "receive_packet dev w = Inr (bytes, w')" and "0 < payload_width dev"
  shows "bytes = None"
proof (rule ccontr)
  assume "bytes \<noteq> None"
  with assms(1) obtain l w2 l' timer w1 where
    first: "recv_first_32_bytes dev 1 timer (swap_counters \<lparr>out_buf = replicate PACKET_SIZE_MAC 0,
       remaining_bytes = int PACKET_SIZE_MAC, pos = 0, max_recv = 0\<rparr>) w1 = Inr ((True, l), w2)"
    and rest: "recv_remaining_packet dev ((swap_counters l)\<lparr>max_recv := max_retransmissions dev\<rparr>) w2
      = Inr ((True, l'), w')"
    by (auto simp: receive_packet_def rbind_eq_Inr split: prod.splits if_splits)
  from recv_first_counters [OF first] assms(2)
  have "pos ((swap_counters l)\<lparr>max_recv := max_retransmissions dev\<rparr>) < 0"
    by (simp add: swap_counters_def)
  from recv_remaining_before_buffer [OF rest this] show False by simp
qed

text \<open>
  C10. On the radio no control packet is ever received. Whatever the radio delivers and however
  long it takes, neither listening for the network nor listening for a sender ever succeeds, and
  the packet of the caller is not written: the counters passed to the first call are swapped, so
  the rest of a packet would go in front of the buffer.
\<close>

theorem radio_receives_nothing:
  assumes "0 < payload_width dev"
  shows "(receive_ctrlpkt_sync dev w pkt = Inr (b, pkt', w1) \<longrightarrow> \<not> b \<and> pkt' = pkt) \<and>
    (receive_control_packet dev w = Inr (b', w2) \<longrightarrow> \<not> b')"
  using receive_packet_nothing [OF _ assms]
  by (fastforce simp: receive_ctrlpkt_sync_def receive_control_packet_def rbind_eq_Inr split: option.splits)

section \<open>What an arriving packet does\<close>

text \<open>What interrupts and other threads make of the kernel and the radio during a round.\<close>

definition others :: "'k event list \<Rightarrow> 'k \<Rightarrow> 'k" where
  "others = fold (\<lambda>e k. case e of Other_threads f \<Rightarrow> f k | _ \<Rightarrow> k)"

lemma kernel_others: "kernel (fold env_event es w) = others es (kernel w)"
proof (induction es arbitrary: w)
  case (Cons e es)
  then show ?case by (cases e) (simp_all add: others_def)
qed (simp add: others_def)

text \<open>A frame \<open>f\<close> is pending and can be read; \<open>k'\<close> is the state of the radio afterwards.\<close>

definition frame_ready :: "'k netdev \<Rightarrow> 'k \<Rightarrow> u8 list \<Rightarrow> 'k \<Rightarrow> bool" where
  "frame_ready dev k f k' \<longleftrightarrow>
     (case dev_pending dev k of (len, k1) \<Rightarrow> len = int (payload_width dev) \<and>
        dev_recv dev k1 len = (len, f, k') \<and> length f = payload_width dev)"

text \<open>What a read returns, whether a frame is pending or not.\<close>

definition read_result :: "'k netdev \<Rightarrow> 'k \<Rightarrow> int" where
  "read_result dev k = (case dev_pending dev k of (len, k1) \<Rightarrow> fst (dev_recv dev k1 len))"

text \<open>
  The state after \<open>n\<close> rounds in which the node listens, no frame is pending and the timer has not
  passed.
\<close>

fun listens :: "'k netdev \<Rightarrow> u32 \<Rightarrow> nat \<Rightarrow> 'k world \<Rightarrow> 'k world option" where
  "listens dev timer 0 w = Some w"
| "listens dev timer (Suc n) w =
     (case wait_round w of
       Inl _ \<Rightarrow> None
     | Inr w1 \<Rightarrow>
         (case frame_length dev w1 of (len, w2) \<Rightarrow>
           if len \<noteq> int (payload_width dev) \<and> passed timer w2 \<noteq> 1 then listens dev timer n w2 else None))"

lemma frame_length_script: "frame_length dev w = (len, w') \<Longrightarrow> script w' = script w"
  by (auto simp: frame_length_def split: prod.splits)

lemma read_frame_script: "read_frame dev len w = Inr (ret, bs, w') \<Longrightarrow> script w' = script w"
  by (auto simp: read_frame_def split: prod.splits if_splits)

lemma recv_first_consumes: "consumes (recv_first_round dev ty timer)"
  by (auto simp: consumes_def recv_first_round_def Let_def rbind_eq_Inr
      split: prod.splits if_splits dest!: frame_length_script read_frame_script)

text \<open>The first call waits for a frame of the right type and copies it.\<close>

lemma first_frame_heard:
  assumes "listens dev timer n w = Some v" and "script v = first # rest"
    and "frame_ready dev (others first (kernel v)) f k" and "f ! 0 = ty"
    and "timer \<noteq> TIMEOUT_SET_ERROR" and "payload_width dev \<le> length (out_buf l)"
  shows "\<exists>l' w'. recv_first_32_bytes dev ty timer l w = Inr ((True, l'), w') \<and>
    script w' = rest \<and> kernel w' = k"
proof -
  have "\<exists>l' w'. run_loop (recv_first_round dev ty timer) (True, l) w = Inr ((True, l'), w') \<and>
      script w' = rest \<and> kernel w' = k"
    using assms(1)
  proof (induction n arbitrary: w)
    case 0
    obtain k1 where "dev_pending dev (others first (kernel w)) = (int (payload_width dev), k1)"
      "dev_recv dev k1 (int (payload_width dev)) = (int (payload_width dev), f, k)"
      "length f = payload_width dev"
      using assms(3) 0 by (auto simp: frame_ready_def)
    with 0 assms(2,4,6) show ?case
      by (simp add: run_loop_def wait_round_def recv_first_round_def frame_length_def read_frame_def
          kernel_others copy_chunk_def)
  next
    case (Suc n)
    then obtain w1 len w2 where step: "wait_round w = Inr w1" "frame_length dev w1 = (len, w2)"
      "len \<noteq> int (payload_width dev)" "passed timer w2 \<noteq> 1" "listens dev timer n w2 = Some v"
      by (auto split: sum.splits prod.splits if_splits)
    then have "recv_first_round dev ty timer (True, l) w1 = Inr (True, (True, l), w2)"
      by (simp add: recv_first_round_def Let_def)
    with Suc.IH [OF step(5)] step(1) show ?case
      by (simp add: run_loop_unfold [OF recv_first_consumes, of _ _ _ _ w])
  qed
  with assms(5) show ?thesis by (simp add: recv_first_32_bytes_def)
qed

text \<open>The second call reads at once, whether another frame has come or not.\<close>

lemma rest_in_front_of_buffer:
  assumes "script w = second # rest" and "0 \<le> read_result dev (others second (kernel w))" and "pos l < 0"
  shows "recv_remaining_packet dev l w = Inl Out_of_bounds"
proof -
  obtain len k1 where p: "dev_pending dev (others second (kernel w)) = (len, k1)"
    by (cases "dev_pending dev (others second (kernel w))")
  obtain ret bs k2 where r: "dev_recv dev k1 len = (ret, bs, k2)" by (cases "dev_recv dev k1 len")
  from assms(2) p r have "0 \<le> ret" by (simp add: read_result_def)
  with assms(1,3) p r show ?thesis
    by (simp add: recv_remaining_packet_def run_loop_def wait_round_def recv_remaining_round_def
        frame_length_def read_frame_def kernel_others copy_chunk_def Let_def)
qed

text \<open>
  C11. A control packet that arrives corrupts the memory. The node sets its timer and listens, for
  as many rounds as it takes and the timer allows, until the first frame of a control packet is
  pending. As soon as it has read this frame it reads again, in the very next round. Unless the
  driver reports an error then, what it reads is copied in front of the buffer: a second frame, or
  whatever the driver returns when there is none.
\<close>

theorem arriving_packet_overruns:
  assumes "0 < payload_width dev" and "payload_width dev \<le> PACKET_SIZE_MAC"
    and "set_timer (slot_duration (frame (internals w)) div 20) w = (timer, w1)" and "timer \<noteq> TIMEOUT_SET_ERROR"
    and "listens dev timer n w1 = Some v" and "script v = first # second # rest"
    and "frame_ready dev (others first (kernel v)) f k" and "f ! 0 = 1"
    and "0 \<le> read_result dev (others second k)"
  shows "receive_ctrlpkt_sync dev w pkt = Inl Out_of_bounds \<and>
    receive_control_packet dev w = Inl Out_of_bounds"
proof -
  let ?l = "swap_counters \<lparr>out_buf = replicate PACKET_SIZE_MAC 0,
       remaining_bytes = int PACKET_SIZE_MAC, pos = 0, max_recv = 0\<rparr>"
  have "payload_width dev \<le> length (out_buf ?l)" using assms(2) by (simp add: swap_counters_def)
  from first_frame_heard [OF assms(5-8,4) this] obtain l' w' where
    f: "recv_first_32_bytes dev 1 timer ?l w1 = Inr ((True, l'), w')" "script w' = second # rest"
      "kernel w' = k" by blast
  from recv_first_counters [OF f(1)] assms(1)
  have "pos ((swap_counters l')\<lparr>max_recv := max_retransmissions dev\<rparr>) < 0" by (simp add: swap_counters_def)
  from rest_in_front_of_buffer [OF f(2) _ this, of dev] assms(9) f(3)
  have "receive_packet dev w = Inl Out_of_bounds"
    by (simp add: receive_packet_def assms(3) f(1) del: PACKET_SIZE_MAC_def)
  then show ?thesis by (simp add: receive_ctrlpkt_sync_def receive_control_packet_def)
qed

text \<open>
  A radio whose state is the list of the frames it has received, and a node that listens to it. The
  first frame of a control packet comes after a round of waiting, the second a round later.
\<close>

definition queue_radio :: "u8 list list netdev" where
  "queue_radio =
     \<lparr>dev_set = (\<lambda>k _. k),
      dev_pending = (\<lambda>fs. case fs of [] \<Rightarrow> (0, fs) | f # _ \<Rightarrow> (int (length f), fs)),
      dev_recv = (\<lambda>fs len. case fs of [] \<Rightarrow> (0, [], []) | f # fs' \<Rightarrow> (len, f, fs')),
      payload_width = 32, max_retransmissions = 15, broadcast_addr = []\<rparr>"

definition first_frame :: "u8 list" where "first_frame = 1 # replicate 31 7"

definition second_frame :: "u8 list" where "second_frame = replicate 32 0"

definition hearing_node :: "u8 list list world" where
  "hearing_node =
     \<lparr>mclmac = on_frame (slot_duration_update (\<lambda>_. 80000)) (mclmac sample_world),
      timeouts = static_timeouts, ipc_queues = ipc_queues sample_world, kernel = [], clock = 0,
      rand_values = (\<lambda>n. n),
      script = [[], [Other_threads (\<lambda>fs. fs @ [first_frame])], [Other_threads (\<lambda>fs. fs @ [second_frame])]]\<rparr>"

lemma static_timer_set:
  assumes "timeout_set static_timeouts now 4000 = (i, t)"
  shows "i \<noteq> TIMEOUT_SET_ERROR" and "timeout_passed t i = 0"
proof -
  have "free_slot static_timeouts 0" by (simp add: static_timeouts_def free_slot_def)
  then have free: "some_free_slot static_timeouts" unfolding some_free_slot_def by (intro exI [of _ 0]) simp
  have wf: "wf_timeouts static_timeouts" by (simp add: wf_timeouts_def static_timeouts_def)
  from set_with_free_slot [OF wf free _ assms] show "i \<noteq> TIMEOUT_SET_ERROR" "timeout_passed t i = 0" by simp_all
qed

lemma arriving_packet_overruns_witness:
  "receive_control_packet queue_radio hearing_node = Inl Out_of_bounds"
proof -
  obtain i t where set: "timeout_set static_timeouts 0 4000 = (i, t)"
    by (cases "timeout_set static_timeouts 0 4000")
  note ok = static_timer_set [OF set]
  let ?w1 = "hearing_node\<lparr>timeouts := t\<rparr>"
  let ?v = "?w1\<lparr>script := tl (script hearing_node)\<rparr>"
  have timer: "set_timer (slot_duration (frame (internals hearing_node)) div 20) hearing_node = (i, ?w1)"
    using set by (simp add: set_timer_def hearing_node_def mac_access)
  have "listens queue_radio i 1 ?w1 = Some ?v"
    using ok(2) by (simp add: wait_round_def hearing_node_def frame_length_def queue_radio_def)
  from arriving_packet_overruns [OF _ _ timer ok(1) this, where f = first_frame and k = "[]"]
  show ?thesis
    by (simp add: hearing_node_def queue_radio_def frame_ready_def read_result_def others_def
        first_frame_def second_frame_def)
qed

text \<open>A radio that returns the same frame at every reading, and a node that listens to it.\<close>

definition sample_radio :: "'k netdev" where
  "sample_radio =
     \<lparr>dev_set = (\<lambda>k _. k), dev_pending = (\<lambda>k. (32, k)),
      dev_recv = (\<lambda>k len. (32, 1 # replicate 31 0, k)), payload_width = 32,
      max_retransmissions = 15, broadcast_addr = []\<rparr>"

definition listener :: "(pid \<times> (pid \<Rightarrow> msg_t list)) world" where
  "listener = on_mclmac (on_frame (slot_duration_update (\<lambda>_. 80000))) (sample_world\<lparr>script := [[], []]\<rparr>)"

lemma listener_timer:
  "fst (set_timer (slot_duration (frame (internals listener)) div 20) listener) \<noteq> TIMEOUT_SET_ERROR"
proof -
  have t: "timeouts listener = static_timeouts" by (simp add: listener_def sample_world_def)
  obtain i t' where set: "timeout_set static_timeouts (clock listener) 4000 = (i, t')"
    by (cases "timeout_set static_timeouts (clock listener) 4000")
  have "slot_duration (frame (internals listener)) = 80000" by (simp add: listener_def mac_access)
  with set static_timer_set(1) [OF set] show ?thesis by (simp add: set_timer_def t)
qed

text \<open>A radio that fails: nothing is received, and the node goes on.\<close>

definition broken_radio :: "'k netdev" where
  "broken_radio = sample_radio\<lparr>dev_recv := (\<lambda>k len. (- 1, [], k))\<rparr>"

lemma radio_receives_nothing_witness:
  "\<exists>w. receive_control_packet broken_radio listener = Inr (False, w) \<and>
     (\<forall>w'. receive_control_packet broken_radio listener \<noteq> Inr (True, w'))"
proof -
  have pos: "0 < payload_width broken_radio" by (simp add: broken_radio_def sample_radio_def)
  obtain timer w1 where t: "set_timer (slot_duration (frame (internals listener)) div 20) listener = (timer, w1)"
    by (cases "set_timer (slot_duration (frame (internals listener)) div 20) listener")
  have ok: "timer \<noteq> TIMEOUT_SET_ERROR" using listener_timer t by simp
  have "script w1 = [[], []]" using set_timer_frame [OF t] by (simp add: listener_def)
  then obtain l w2 where "recv_first_32_bytes broken_radio 1 timer (swap_counters
      \<lparr>out_buf = replicate PACKET_SIZE_MAC 0, remaining_bytes = int PACKET_SIZE_MAC, pos = 0,
       max_recv = 0\<rparr>) w1 = Inr ((False, l), w2)"
    using ok by (simp add: recv_first_32_bytes_def run_loop_def wait_round_def recv_first_round_def
      frame_length_def read_frame_def broken_radio_def sample_radio_def)
  then have run: "receive_control_packet broken_radio listener = Inr (False, w2)"
    by (simp add: receive_control_packet_def receive_packet_def t)
  have "receive_control_packet broken_radio listener \<noteq> Inr (True, w)" for w
    using radio_receives_nothing [OF pos, where b' = True and ?w2.0 = w] by blast
  with run show ?thesis by blast
qed

end
