(* ===== verification/Memory_Accounting.thy ===== *)
theory Memory_Accounting
  imports Pool_Refinement Hardware_Radio
begin

text \<open>
  Where the blocks of the pool go: what listening for a control packet costs on the radio, any
  sequence of operations (\<open>heap_run\<close>), and how many control packets a node can listen for.
\<close>

section \<open>Listening for a control packet on the radio\<close>

text \<open>
  On the radio the byte string is made before anything is received, and it is used only after a
  whole packet has arrived: when \<open>create_array\<close> fails nothing happens until then, and every early
  return leaves the byte string behind.
\<close>

definition heap_receive_ctrlpkt_sync ::
    "'k netdev \<Rightarrow> 's memarray \<Rightarrow> ('s, 'k) heap_world \<Rightarrow> ControlPacket_t \<Rightarrow>
     (bool \<times> ControlPacket_t \<times> ('s, 'k) heap_world) result" where
  "heap_receive_ctrlpkt_sync dev api hw pkt =
     rbind (create_array api (pool hw) empty_array PACKET_SIZE_MAC) (\<lambda>(r, a, m1).
     rbind (receive_packet dev (world hw)) (\<lambda>(bytes, w1).
       (let h = hw\<lparr>pool := m1, world := w1\<rparr>
        in case bytes of
             None \<Rightarrow> Inr (False, pkt, h)
           | Some bs \<Rightarrow>
               if bs ! 0 \<noteq> 1 then Inr (False, pkt, h)
               else if r = 0 then Inl Uninitialised_read
               else
                 rbind (heap_writes m1 a (zip [0..<PACKET_SIZE_MAC] bs)) (\<lambda>m2.
                 rbind (controlpacket_construct_packet_from_bytestring RIOT pkt (contents m2 a)) (\<lambda>pkt'.
                 rbind (free_local api a (h\<lparr>pool := m2\<rparr>)) (\<lambda>h'. Inr (True, pkt', h')))))))"

definition heap_receive_control_radio ::
    "'k netdev \<Rightarrow> 's memarray \<Rightarrow> ('s, 'k) heap_world \<Rightarrow> (bool \<times> ('s, 'k) heap_world) result" where
  "heap_receive_control_radio dev api hw =
     rbind (create_array api (pool hw) empty_array MAX_MESSAGE_SIZE) (\<lambda>(r, a, m1).
     rbind (receive_packet dev (world hw)) (\<lambda>(bytes, w1).
       (let h = hw\<lparr>pool := m1, world := w1\<rparr>
        in case bytes of
             None \<Rightarrow> Inr (False, h)
           | Some bs \<Rightarrow>
               if r = 0 then Inl Uninitialised_read
               else
                 rbind (heap_writes m1 a (zip [0..<PACKET_SIZE_MAC] bs)) (\<lambda>m2.
                 rbind (controlpacket_construct_packet_from_bytestring RIOT (ctrlpkt_recv (internals w1))
                     (contents m2 a)) (\<lambda>pkt.
                 rbind (free_local api a (h\<lparr>pool := m2\<rparr>)) (\<lambda>h'.
                   Inr (True, on_internals (ctrlpkt_recv_update (\<lambda>_. pkt)) h')))))))"

lemma create_array_heap:
  assumes ok: "memarray_ok api frees valid" and inv: "heap_inv frees valid hw n"
  shows "\<exists>r a m. create_array api (pool hw) empty_array 256 = Inr (r, a, m) \<and>
    (if 256 \<le> card (frees (storage (pool hw)))
     then 256 \<le> n \<and> temp_inv frees valid (hw\<lparr>pool := m\<rparr>) a n \<and> heap_inv frees valid (hw\<lparr>pool := m\<rparr>) (n - 256)
     else m = pool hw)"
proof -
  have "pool_inv frees valid (pool hw) (arrays hw)" using inv by (simp add: heap_inv_def)
  from create_array_pool [OF ok this, of empty_array 256] obtain r a m where
    c: "create_array api (pool hw) empty_array 256 = Inr (r, a, m)"
    "if 256 \<le> card (frees (storage (pool hw))) then r = 1 \<and> pool_inv frees valid m (a # arrays hw) \<and>
       asize a = 256 \<and> card (frees (storage m)) + 256 = card (frees (storage (pool hw)))
     else m = pool hw" by auto
  show ?thesis
  proof (cases "256 \<le> card (frees (storage (pool hw)))")
    case True
    with c(2) inv have "temp_inv frees valid (hw\<lparr>pool := m\<rparr>) a n"
      by (auto simp: temp_inv_def heap_inv_def)
    with c(1) True temp_inv_bound [OF this] temp_inv_forget [OF this] show ?thesis by auto
  qed (use c in auto)
qed

text \<open>Every listening is in vain, and costs 256 blocks while there are that many.\<close>

lemma listening_blocks:
  assumes ok: "memarray_ok api frees valid" and inv: "heap_inv frees valid hw n"
    and dev: "0 < payload_width dev"
  shows "heap_receive_ctrlpkt_sync dev api hw pkt = Inr (b, pkt', hw') \<Longrightarrow> \<not> b \<and>
      (if 256 \<le> card (frees (storage (pool hw))) then 256 \<le> n \<and> heap_inv frees valid hw' (n - 256)
       else heap_inv frees valid hw' n)"
    and "heap_receive_control_radio dev api hw = Inr (b, hw') \<Longrightarrow> \<not> b \<and>
      (if 256 \<le> card (frees (storage (pool hw))) then 256 \<le> n \<and> heap_inv frees valid hw' (n - 256)
       else heap_inv frees valid hw' n)"
proof -
  from create_array_heap [OF ok inv] obtain r a m where
    c: "create_array api (pool hw) empty_array 256 = Inr (r, a, m)" and
    lost: "if 256 \<le> card (frees (storage (pool hw)))
      then 256 \<le> n \<and> heap_inv frees valid (hw\<lparr>pool := m\<rparr>) (n - 256) else m = pool hw"
    by (auto split: if_splits)
  have silent: "bytes = None" if "receive_packet dev (world hw) = Inr (bytes, w)" for bytes w
    using receive_packet_nothing [OF that dev] .
  show "\<not> b \<and> (if 256 \<le> card (frees (storage (pool hw))) then 256 \<le> n \<and> heap_inv frees valid hw' (n - 256)
       else heap_inv frees valid hw' n)"
    if res: "heap_receive_ctrlpkt_sync dev api hw pkt = Inr (b, pkt', hw')"
  proof -
    from res c obtain bytes w where "receive_packet dev (world hw) = Inr (bytes, w)"
      by (cases "receive_packet dev (world hw)") (auto simp: heap_receive_ctrlpkt_sync_def)
    with silent have rp: "receive_packet dev (world hw) = Inr (None, w)" by blast
    from res have "\<not> b \<and> hw' = hw\<lparr>pool := m, world := w\<rparr>"
      by (simp add: heap_receive_ctrlpkt_sync_def Let_def c rp)
    with lost inv show ?thesis by (auto split: if_splits)
  qed
  show "\<not> b \<and> (if 256 \<le> card (frees (storage (pool hw))) then 256 \<le> n \<and> heap_inv frees valid hw' (n - 256)
       else heap_inv frees valid hw' n)"
    if res: "heap_receive_control_radio dev api hw = Inr (b, hw')"
  proof -
    from res c obtain bytes w where "receive_packet dev (world hw) = Inr (bytes, w)"
      by (cases "receive_packet dev (world hw)") (auto simp: heap_receive_control_radio_def)
    with silent have rp: "receive_packet dev (world hw) = Inr (None, w)" by blast
    from res have "\<not> b \<and> hw' = hw\<lparr>pool := m, world := w\<rparr>"
      by (simp add: heap_receive_control_radio_def Let_def c rp)
    with lost inv show ?thesis by (auto split: if_splits)
  qed
qed

section \<open>The pool in the long run\<close>

text \<open>
  Any sequence of operations on the packets, with the control packets listened for counted:
  the native stub when it delivers one, the radio when it listens while 256 blocks are free.
  \<open>elsewhere\<close> is everything else the node does: what does not allocate leaves the pool alone.
\<close>

inductive heap_run :: "'k rtos \<Rightarrow> 'k netdev \<Rightarrow> 's memarray \<Rightarrow> bool \<Rightarrow> ('s, 'k) heap_world \<Rightarrow>
    nat \<Rightarrow> ('s, 'k) heap_world \<Rightarrow> bool" for os dev api testing hw where
  begun: "heap_run os dev api testing hw 0 hw"
| read_queue: "heap_run os dev api testing hw c h \<Longrightarrow> heap_read_queue_element os api h = Inr (r, h') \<Longrightarrow>
    heap_run os dev api testing hw c h'"
| write_queue: "heap_run os dev api testing hw c h \<Longrightarrow> heap_write_queue_element os api h = Inr (r, h') \<Longrightarrow>
    heap_run os dev api testing hw c h'"
| sent: "heap_run os dev api testing hw c h \<Longrightarrow> heap_send_data_packet api h = Inr h' \<Longrightarrow>
    heap_run os dev api testing hw c h'"
| received_data: "heap_run os dev api testing hw c h \<Longrightarrow> heap_receive_data_packet api h = Inr (r, h') \<Longrightarrow>
    heap_run os dev api testing hw c h'"
| sent_control: "heap_run os dev api testing hw c h \<Longrightarrow> heap_send_control_packet api h = Inr h' \<Longrightarrow>
    heap_run os dev api testing hw c h'"
| sent_cf: "heap_run os dev api testing hw c h \<Longrightarrow> heap_send_cf_message api h = Inr h' \<Longrightarrow>
    heap_run os dev api testing hw c h'"
| heard: "heap_run os dev api testing hw c h \<Longrightarrow> heap_receive_control_packet api testing h = Inr (b, h') \<Longrightarrow>
    heap_run os dev api testing hw (if b then Suc c else c) h'"
| listened_sync: "heap_run os dev api testing hw c h \<Longrightarrow>
    heap_receive_ctrlpkt_sync dev api h pkt = Inr (b, pkt', h') \<Longrightarrow>
    heap_run os dev api testing hw (if 256 \<le> memarray_available api (storage (pool h)) then Suc c else c) h'"
| listened: "heap_run os dev api testing hw c h \<Longrightarrow> heap_receive_control_radio dev api h = Inr (b, h') \<Longrightarrow>
    heap_run os dev api testing hw (if 256 \<le> memarray_available api (storage (pool h)) then Suc c else c) h'"
| finished: "heap_run os dev api testing hw c h \<Longrightarrow> heap_finishp api h = Inr h' \<Longrightarrow>
    heap_run os dev api testing hw c h'"
| cleared: "heap_run os dev api testing hw c h \<Longrightarrow> heap_internals_clear api h = Inr h' \<Longrightarrow>
    heap_run os dev api testing hw c h'"
| destroyed: "heap_run os dev api testing hw c h \<Longrightarrow> heap_internals_destroy api h = Inr h' \<Longrightarrow>
    heap_run os dev api testing hw c h'"
| initialised: "heap_run os dev api testing hw c h \<Longrightarrow> heap_run os dev api testing hw c (heap_internals_init h)"
| elsewhere: "heap_run os dev api testing hw c h \<Longrightarrow> heap_run os dev api testing hw c (h\<lparr>world := w\<rparr>)"

lemma internals_init_blocks:
  assumes "heap_inv frees valid hw n"
  shows "heap_inv frees valid (heap_internals_init hw) (n - used (arrays hw))"
proof -
  have "valid (storage (pool hw))" using assms by (simp add: heap_inv_def pool_inv_def)
  then show ?thesis
    using assms by (auto simp: heap_inv_def heap_internals_init_def arrays_def)
qed

lemma clear_blocks:
  assumes "memarray_ok api frees valid" and "heap_inv frees valid hw n"
  shows "\<exists>hw'. heap_internals_clear api hw = Inr hw' \<and> heap_inv frees valid hw' n"
    and "\<exists>hw'. heap_internals_destroy api hw = Inr hw' \<and> heap_inv frees valid hw' n"
  using clear_slots_blocks [OF assms slots_in_range(2)]
  by (auto simp: heap_internals_clear_def heap_internals_destroy_def)

text \<open>
  \<open>within frees valid n c hw\<close>: of \<open>n\<close> blocks at least 256 for each of \<open>c\<close> control packets are lost.
\<close>

definition within :: "('s \<Rightarrow> nat set) \<Rightarrow> ('s \<Rightarrow> bool) \<Rightarrow> nat \<Rightarrow> nat \<Rightarrow> ('s, 'k) heap_world \<Rightarrow> bool" where
  "within frees valid n c hw \<longleftrightarrow> (\<exists>k. heap_inv frees valid hw k \<and> k + 256 * c \<le> n)"

lemma within_kept:
  assumes "within frees valid n c hw"
    and "\<And>k. heap_inv frees valid hw k \<Longrightarrow> \<exists>k' \<le> k. heap_inv frees valid hw' k'"
  shows "within frees valid n c hw'"
  using assms unfolding within_def by (meson add_le_mono1 order_trans)

lemma within_total:
  assumes "within frees valid n c hw" and "op = Inr hw'"
    and "\<And>k. heap_inv frees valid hw k \<Longrightarrow> \<exists>hw'. op = Inr hw' \<and> heap_inv frees valid hw' k"
  shows "within frees valid n c hw'"
  using assms(2,3) by (auto intro!: within_kept [OF assms(1)])

lemma within_spent:
  assumes "within frees valid n c hw"
    and "\<And>k. heap_inv frees valid hw k \<Longrightarrow> 256 \<le> k \<and> heap_inv frees valid hw' (k - 256)"
  shows "within frees valid n (Suc c) hw'"
proof -
  from assms(1) obtain k where k: "heap_inv frees valid hw k" "k + 256 * c \<le> n" by (auto simp: within_def)
  with assms(2) [OF k(1)] show ?thesis by (auto simp: within_def intro!: exI [of _ "k - 256"])
qed

lemma within_available:
  assumes "memarray_ok api frees valid" and "heap_inv frees valid h k"
  shows "memarray_available api (storage (pool h)) = card (frees (storage (pool h)))"
  using assms by (simp add: heap_inv_def pool_inv_def memarray_ok_def)

lemma within_listened:
  assumes ok: "memarray_ok api frees valid" and h: "within frees valid n c h"
    and "\<And>k. heap_inv frees valid h k \<Longrightarrow> if 256 \<le> card (frees (storage (pool h)))
      then 256 \<le> k \<and> heap_inv frees valid h' (k - 256) else heap_inv frees valid h' k"
  shows "within frees valid n (if 256 \<le> memarray_available api (storage (pool h)) then Suc c else c) h'"
proof -
  from h obtain k where "heap_inv frees valid h k" by (auto simp: within_def)
  note avail = within_available [OF ok this]
  show ?thesis
  proof (cases "256 \<le> card (frees (storage (pool h)))")
    case True
    with assms(3) avail show ?thesis by (simp add: within_spent [OF h])
  next
    case False
    with assms(3) avail show ?thesis by (auto intro!: within_kept [OF h])
  qed
qed

lemma within_heard:
  assumes ok: "memarray_ok api frees valid" and h: "within frees valid n c h"
    and "heap_receive_control_packet api testing h = Inr (b, h')"
  shows "within frees valid n (if b then Suc c else c) h'"
proof (cases b)
  case True
  with assms(3) have "heap_receive_control_packet api testing h = Inr (True, h')" by simp
  from within_spent [OF h receive_control_blocks [OF ok _ this]] True show ?thesis by simp
next
  case False
  with assms(3) have "h' = h"
    by (auto simp: heap_receive_control_packet_def rbind_eq_Inr split: if_splits prod.splits)
  with h False show ?thesis by simp
qed

lemma heap_run_blocks:
  assumes "heap_run os dev api testing hw c hw'" and ok: "memarray_ok api frees valid"
    and "heap_inv frees valid hw n" and dev: "0 < payload_width dev"
  shows "within frees valid n c hw'"
  using assms(1)
proof (induction rule: heap_run.induct)
  case begun
  with assms(3) show ?case by (auto simp: within_def)
next
  case (read_queue c h r h')
  show ?case by (rule within_kept [OF read_queue.IH]) (blast dest: read_queue_blocks [OF ok _ read_queue.hyps(2)])
next
  case (write_queue c h r h')
  show ?case
    by (rule within_kept [OF write_queue.IH])
      (meson write_queue_blocks [OF ok _ write_queue.hyps(2)] diff_le_self order_refl)
next
  case (sent c h h')
  show ?case by (rule within_kept [OF sent.IH]) (blast dest: send_blocks [OF ok _ sent.hyps(2)])
next
  case (received_data c h r h')
  show ?case by (rule within_kept [OF received_data.IH]) (blast dest: receive_blocks [OF ok _ received_data.hyps(2)])
next
  case (sent_control c h h')
  show ?case
    by (rule within_kept [OF sent_control.IH]) (blast dest: send_control_blocks(1) [OF ok _ sent_control.hyps(2)])
next
  case (sent_cf c h h')
  show ?case by (rule within_kept [OF sent_cf.IH]) (blast dest: send_cf_blocks [OF ok _ sent_cf.hyps(2)])
next
  case (heard c h b h')
  show ?case by (rule within_heard [OF ok heard.IH heard.hyps(2)])
next
  case (listened_sync c h pkt b pkt' h')
  from within_listened [OF ok listened_sync.IH] listening_blocks(1) [OF ok _ dev listened_sync.hyps(2)]
  show ?case by blast
next
  case (listened c h b h')
  from within_listened [OF ok listened.IH] listening_blocks(2) [OF ok _ dev listened.hyps(2)] show ?case by blast
next
  case (finished c h h')
  show ?case by (rule within_total [OF finished.IH finished.hyps(2)]) (blast dest: finishp_blocks [OF ok])
next
  case (cleared c h h')
  show ?case by (rule within_total [OF cleared.IH cleared.hyps(2) clear_blocks(1) [OF ok]])
next
  case (destroyed c h h')
  show ?case by (rule within_total [OF destroyed.IH destroyed.hyps(2) clear_blocks(2) [OF ok]])
next
  case (initialised c h)
  show ?case by (rule within_kept [OF initialised.IH]) (blast intro: internals_init_blocks diff_le_self)
next
  case (elsewhere c h w)
  show ?case
    by (rule within_kept [OF elsewhere.IH]) (use heap_inv_world(1) [of frees valid "\<lambda>_. w"] in auto)
qed
text \<open>Control packets can be received forty times.\<close>

lemma pooled_node_hears:
  "c \<le> 40 \<Longrightarrow> \<exists>h. heap_run os dev list_memarray False pooled_node c h \<and>
     heap_inv set distinct h (10240 - 256 * c) \<and> arrays h = replicate 40 empty_array"
proof (induction c)
  case 0
  show ?case
    using heap_run.begun pooled_node_inv
    by (intro exI [of _ pooled_node]) (simp add: arrays_def pooled_node_def)
next
  case (Suc c)
  then obtain h where h: "heap_run os dev list_memarray False pooled_node c h"
    "heap_inv set distinct h (10240 - 256 * c)" "arrays h = replicate 40 empty_array" by auto
  have "256 \<le> card (set (storage (pool h)))"
    using h(2,3) Suc.prems by (simp add: heap_inv_def)
  moreover obtain w where "mclmac_receive_control_packet False (world h) = Inr (True, w)"
    using receive_control_native [of False "world h"] by (auto simp: mclmac_receive_control_packet_def)
  ultimately obtain h' where h': "heap_receive_control_packet list_memarray False h = Inr (True, h')"
    "arrays h' = arrays h"
    using receive_control_available [OF list_memarray_ok h(2)] by blast
  from heap_run.heard [OF h(1) h'(1)] receive_control_blocks [OF list_memarray_ok h(2) h'(1)] h(3) h'(2)
  show ?case by (intro exI [of _ h']) simp
qed

section \<open>Property\<close>

text \<open>
  C31. A node can listen for at most forty control packets. In every run of a node on a pool of 10240
  blocks, whatever it sends, receives, reads, writes, finishes or restarts in between, the control
  packets delivered by the native stub and the listenings on the radio while there is
  memory are at most forty: each of them keeps 256 blocks for ever. After forty no data packet can
  be encoded and no control packet sent or received: the functions use an array that was never
  created.
\<close>

theorem at_most_forty_control_packets:
  assumes "memarray_ok api frees valid" and "heap_inv frees valid hw MAX_NUMBER_BLOCKS"
    and "0 < payload_width dev" and "heap_run os dev api testing hw c hw'"
  shows "c \<le> 40 \<and> (c = 40 \<longrightarrow>
    (\<forall>k < 4 * MAX_NUMBER_DATA_PACKETS.
      heap_packet_bytestring api (pool hw') (heap_packets hw' ! k) = Inl Uninitialised_read) \<and>
    heap_send_control_packet api hw' = Inl Uninitialised_read \<and>
    (\<not> (testing \<and> state_ctrl (mclmac (world hw')) = 7) \<longrightarrow>
      heap_receive_control_packet api testing hw' = Inl Uninitialised_read))"
proof -
  from heap_run_blocks [OF assms(4,1,2,3)] obtain n where
    n: "heap_inv frees valid hw' n" "n + 256 * c \<le> 10240" by (auto simp: within_def)
  have "heap_packet_bytestring api (pool hw') (heap_packets hw' ! k) = Inl Uninitialised_read"
    if "c = 40" "k < 40" for k
    using bytestring_heap [OF assms(1) n(1) that(2), of "\<lambda>_. 0"] n that by (simp add: heap_inv_def)
  moreover have "heap_send_control_packet api hw' = Inl Uninitialised_read" if "c = 40"
    using send_control_blocks(2) [OF assms(1) n(1)] n that by (simp add: heap_inv_def)
  moreover have "heap_receive_control_packet api testing hw' = Inl Uninitialised_read"
    if "c = 40" "\<not> (testing \<and> state_ctrl (mclmac (world hw')) = 7)"
    using receive_control_exhausted [OF assms(1) n(1) _ that(2)] n that by (simp add: heap_inv_def)
  ultimately show ?thesis using n by auto
qed

lemma at_most_forty_control_packets_witness:
  "\<exists>h. heap_run inbox_rtos sample_radio list_memarray False pooled_node 40 h \<and>
     heap_receive_control_packet list_memarray False h = Inl Uninitialised_read"
proof -
  obtain h where h: "heap_run inbox_rtos sample_radio list_memarray False pooled_node 40 h"
    using pooled_node_hears [of 40 inbox_rtos sample_radio] by auto
  have "0 < payload_width (sample_radio :: (pid \<times> (pid \<Rightarrow> msg_t list)) netdev)"
    by (simp add: sample_radio_def)
  from at_most_forty_control_packets [OF list_memarray_ok _ this h] pooled_node_inv h
  show ?thesis by auto
qed

end
