(* ===== verification/Linux_Heap.thy ===== *)
theory Linux_Heap
  imports Mac_State
begin

text \<open>
  The Linux build keeps its structures on the heap of the C library. This theory models \<open>malloc\<close> and
  \<open>free\<close>, the structures that contain pointers (\<open>DataPacket_t\<close>, \<open>MAC_Internals_t\<close>, \<open>MCLMAC_t\<close>), and the
  Linux branches of \<open>DataPacket.c\<close>, \<open>ControlPacket.c\<close> and \<open>CFPacket.c\<close> that allocate and release.

  A pointer is an address or \<open>None\<close>, which is \<open>NULL\<close>. An address that is not allocated must not be
  followed nor released: \<open>Dangling_pointer\<close>. Structures in arrays of structures are passed by
  value and returned.
\<close>

section \<open>Structures\<close>

record DataPacket_linux_t =
  lp_type :: u8
  lp_size :: u8
  lp_destination_id :: node_id
  lp_data :: "nat option"

record MAC_Internals_linux_t =
  li_radio :: "nat option"
  li_ctrlpkt :: "nat option"
  li_ctrlpkt_recv :: "nat option"
  li_frame :: "nat option"
  li_selectedSlot :: u8
  li_transmitChannel :: u32
  li_receiveChannel :: u32
  li_cfChannel :: u32
  li_transmitter_id :: node_id
  li_collisionDetected :: bool
  li_is_internal_collision :: bool
  li_collisionSlot :: u8
  li_collisionFrequency :: u32
  li_cf_message_received :: bool
  li_cf_messages :: "CFPacket_t list"
  li_destination_id :: node_id
  li_packets_to_send_message :: u8
  li_first_send_message :: u8
  li_last_send_message :: u8
  li_message_packets_to_send :: "DataPacket_linux_t list"
  li_packets_to_send_control :: u8
  li_first_send_control :: u8
  li_last_send_control :: u8
  li_control_packets_to_send :: "DataPacket_linux_t list"
  li_first_received :: u8
  li_last_received :: u8
  li_packets_received :: "DataPacket_linux_t list"
  li_number_packets_received :: u16

record MCLMAC_linux_t =
  ll_mac :: "nat option"
  ll_currentState :: state_t
  ll_nextState :: state_t
  ll_powerMode :: PowerMode_t
  ll_nextPowerMode :: PowerMode_t
  ll_is_first_node :: bool
  ll_node_id :: node_id
  ll_networkTime :: u64
  ll_nSlots :: u8
  ll_nChannels :: u8
  ll_hopCount :: u16
  ll_frequencies :: "u32 list"
  ll_occupied_frequencies_slots :: "u8 list list"
  ll_selected_slots_neighbors :: "u8 list"
  ll_wakeup_frame :: u32
  ll_initTime :: u32
  ll_mac_queue_id :: u32
  ll_stack :: "nat option"
  ll_routing_queue_id :: u32
  ll_transport_queue_id :: u32
  ll_app_queue_id :: u32
  ll_self_pid :: u64

text \<open>What a block of memory holds.\<close>

datatype heap_object =
    Bytes "u8 list"
  | Control_object ControlPacket_t
  | CF_object CFPacket_t
  | Data_object DataPacket_linux_t
  | Frame_object Frame_t
  | Internals_object MAC_Internals_linux_t
  | Layer_object MCLMAC_linux_t

section \<open>The heap\<close>

text \<open>
  \<open>calls\<close> counts the calls of \<open>malloc\<close>. The allocator decides for each call, knowing what is
  allocated, at which address to put the new block, or that there is no memory; \<open>alloc_junk\<close> is what
  the bytes of the block hold before they are written. \<open>fresh_addresses\<close> is what the C standard
  promises: a block never overlaps one that is allocated.
\<close>

record c_heap =
  objects :: "nat \<Rightarrow> heap_object option"
  calls :: nat

record allocator =
  alloc_address :: "nat \<Rightarrow> (nat \<Rightarrow> heap_object option) \<Rightarrow> nat option"
  alloc_junk :: "nat \<Rightarrow> nat \<Rightarrow> u8"

definition fresh_addresses :: "allocator \<Rightarrow> bool" where
  "fresh_addresses al \<longleftrightarrow> (\<forall>n m a. alloc_address al n m = Some a \<longrightarrow> m a = None)"

definition put :: "c_heap \<Rightarrow> nat \<Rightarrow> heap_object \<Rightarrow> c_heap" where
  "put h a x = h\<lparr>objects := (objects h)(a \<mapsto> x)\<rparr>"

definition c_malloc :: "allocator \<Rightarrow> heap_object \<Rightarrow> c_heap \<Rightarrow> nat option \<times> c_heap" where
  "c_malloc al x h =
     (case alloc_address al (calls h) (objects h) of
       None \<Rightarrow> (None, h\<lparr>calls := calls h + 1\<rparr>)
     | Some a \<Rightarrow> (Some a, (put h a x)\<lparr>calls := calls h + 1\<rparr>))"

definition malloc_bytes :: "allocator \<Rightarrow> nat \<Rightarrow> c_heap \<Rightarrow> nat option \<times> c_heap" where
  "malloc_bytes al n h = c_malloc al (Bytes (new_array LINUX (alloc_junk al (calls h)) n)) h"

definition c_free :: "nat option \<Rightarrow> c_heap \<Rightarrow> c_heap result" where
  "c_free p h =
     (case p of
       None \<Rightarrow> Inr h
     | Some a \<Rightarrow>
         if objects h a = None then Inl Dangling_pointer
         else Inr (h\<lparr>objects := (objects h)(a := None)\<rparr>))"

definition load :: "c_heap \<Rightarrow> nat option \<Rightarrow> heap_object result" where
  "load h p =
     (case p of
       None \<Rightarrow> Inl Null_dereference
     | Some a \<Rightarrow> (case objects h a of None \<Rightarrow> Inl Dangling_pointer | Some x \<Rightarrow> Inr x))"

definition store :: "c_heap \<Rightarrow> nat option \<Rightarrow> heap_object \<Rightarrow> c_heap result" where
  "store h p x =
     (case p of
       None \<Rightarrow> Inl Null_dereference
     | Some a \<Rightarrow>
         if objects h a = None then Inl Dangling_pointer
         else Inr (put h a x))"

text \<open>Reading a structure of a given type; another type there means that the block was used again.\<close>

definition load_bytes :: "c_heap \<Rightarrow> nat option \<Rightarrow> u8 list result" where
  "load_bytes h p = rbind (load h p) (\<lambda>x. case x of Bytes bs \<Rightarrow> Inr bs | _ \<Rightarrow> Inl Dangling_pointer)"

definition load_control :: "c_heap \<Rightarrow> nat option \<Rightarrow> ControlPacket_t result" where
  "load_control h p =
     rbind (load h p) (\<lambda>x. case x of Control_object pkt \<Rightarrow> Inr pkt | _ \<Rightarrow> Inl Dangling_pointer)"

definition load_data :: "c_heap \<Rightarrow> nat option \<Rightarrow> DataPacket_linux_t result" where
  "load_data h p =
     rbind (load h p) (\<lambda>x. case x of Data_object pkt \<Rightarrow> Inr pkt | _ \<Rightarrow> Inl Dangling_pointer)"

definition load_frame :: "c_heap \<Rightarrow> nat option \<Rightarrow> Frame_t result" where
  "load_frame h p =
     rbind (load h p) (\<lambda>x. case x of Frame_object f \<Rightarrow> Inr f | _ \<Rightarrow> Inl Dangling_pointer)"

definition load_internals :: "c_heap \<Rightarrow> nat option \<Rightarrow> MAC_Internals_linux_t result" where
  "load_internals h p =
     rbind (load h p) (\<lambda>x. case x of Internals_object i \<Rightarrow> Inr i | _ \<Rightarrow> Inl Dangling_pointer)"

definition load_layer :: "c_heap \<Rightarrow> nat option \<Rightarrow> MCLMAC_linux_t result" where
  "load_layer h p =
     rbind (load h p) (\<lambda>x. case x of Layer_object m \<Rightarrow> Inr m | _ \<Rightarrow> Inl Dangling_pointer)"

text \<open>\<open>p = malloc(...); memset(p, 0, ...)\<close>, where \<open>zero\<close> is the structure with all bytes zero.\<close>

definition malloc_zeroed :: "allocator \<Rightarrow> heap_object \<Rightarrow> c_heap \<Rightarrow> (nat option \<times> c_heap) result" where
  "malloc_zeroed al zero h =
     (case c_malloc al zero h of (p, h') \<Rightarrow> rbind (store h' p zero) (\<lambda>h''. Inr (p, h'')))"

section \<open>Arrays of bytes\<close>

text \<open>The array macros of the Linux build are plain indexing.\<close>

definition c_write :: "c_heap \<times> nat option \<Rightarrow> u8 \<Rightarrow> nat \<Rightarrow> (c_heap \<times> nat option) result" where
  "c_write b e i =
     rbind (load_bytes (fst b) (snd b)) (\<lambda>bs.
     rbind (WRITE_ARRAY LINUX bs e i) (\<lambda>bs'.
     rbind (store (fst b) (snd b) (Bytes bs')) (\<lambda>h'. Inr (h', snd b))))"

definition c_read :: "c_heap \<times> nat option \<Rightarrow> nat \<Rightarrow> u8 result" where
  "c_read b i = rbind (load_bytes (fst b) (snd b)) (\<lambda>bs. READ_ARRAY LINUX bs i)"

fun copy_bytes ::
    "c_heap \<Rightarrow> nat option \<Rightarrow> nat \<Rightarrow> nat option \<Rightarrow> nat \<Rightarrow> nat list \<Rightarrow> c_heap result" where
  "copy_bytes h src so dst wo [] = Inr h"
| "copy_bytes h src so dst wo (i # is) =
     rbind (c_read (h, src) (i + so)) (\<lambda>e.
     rbind (c_write (h, dst) e (i + wo)) (\<lambda>(h', _). copy_bytes h' src so dst wo is))"

definition write_bytes :: "c_heap \<Rightarrow> nat option \<Rightarrow> (nat \<times> u8) list \<Rightarrow> c_heap result" where
  "write_bytes h p ws = rbind (write_all c_write (h, p) ws) (\<lambda>(h', _). Inr h')"

section \<open>Packets\<close>

definition zero_datapacket_linux :: DataPacket_linux_t where
  "zero_datapacket_linux =
     \<lparr>lp_type = 0, lp_size = 0, lp_destination_id = (0, 0), lp_data = None\<rparr>"

definition controlpacket_init_linux :: "allocator \<Rightarrow> c_heap \<Rightarrow> (nat option \<times> c_heap) result" where
  "controlpacket_init_linux al h =
     (case c_malloc al (Control_object controlpacket_init) h of
       (None, h') \<Rightarrow> Inl Exited
     | (p, h') \<Rightarrow>
         rbind (store h' p (Control_object controlpacket_init)) (\<lambda>h''. Inr (p, h'')))"

text \<open>The destructors get the address of a pointer: they return what is stored there.\<close>

definition controlpacket_destroy_linux :: "nat option \<Rightarrow> c_heap \<Rightarrow> (nat option \<times> c_heap) result" where
  "controlpacket_destroy_linux p h =
     assert_that (p \<noteq> None) (rbind (c_free p h) (\<lambda>h'. Inr (None, h')))"

definition cfpacket_init_linux :: "allocator \<Rightarrow> c_heap \<Rightarrow> (nat option \<times> c_heap) result" where
  "cfpacket_init_linux al h = malloc_zeroed al (CF_object cfpacket_init) h"

definition cfpacket_destroy_linux :: "nat option \<Rightarrow> c_heap \<Rightarrow> (nat option \<times> c_heap) result" where
  "cfpacket_destroy_linux p h =
     assert_that (p \<noteq> None) (rbind (c_free p h) (\<lambda>h'. Inr (None, h')))"

definition datapacket_init_linux :: "allocator \<Rightarrow> c_heap \<Rightarrow> (nat option \<times> c_heap) result" where
  "datapacket_init_linux al h =
     rbind (malloc_zeroed al (Data_object zero_datapacket_linux) h) (\<lambda>(p, h').
     rbind (store h' p (Data_object (zero_datapacket_linux\<lparr>lp_type := - 1\<rparr>))) (\<lambda>h''. Inr (p, h'')))"

definition datapacket_destroy_linux :: "nat option \<Rightarrow> c_heap \<Rightarrow> (nat option \<times> c_heap) result" where
  "datapacket_destroy_linux p h =
     assert_that (p \<noteq> None)
     (rbind (load_data h p) (\<lambda>pkt.
      rbind (c_free (lp_data pkt) h) (\<lambda>h1.
      rbind (store h1 p (Data_object (pkt\<lparr>lp_data := None\<rparr>))) (\<lambda>h2.
      rbind (c_free p h2) (\<lambda>h3. Inr (None, h3))))))"

text \<open>\<open>datapacket_create\<close> does not release the array the packet had before.\<close>

definition datapacket_create_linux ::
    "allocator \<Rightarrow> c_heap \<Rightarrow> DataPacket_linux_t \<Rightarrow> u8 \<Rightarrow> node_id \<Rightarrow> nat option \<Rightarrow> u8 \<Rightarrow>
     (DataPacket_linux_t \<times> c_heap) result" where
  "datapacket_create_linux al h pkt ty dest src sz =
     assert_that (0 \<le> sint ty \<and> sint ty < 10)
     (assert_that (0 < sz)
     (assert_that (src \<noteq> None)
     (case malloc_bytes al (unat sz) h of (d, h1) \<Rightarrow>
        rbind (copy_bytes h1 src 0 d 0 [0..<unat sz]) (\<lambda>h2.
          Inr (pkt\<lparr>lp_destination_id := dest, lp_type := ty, lp_size := sz, lp_data := d\<rparr>, h2)))))"

definition datapacket_clear_linux ::
    "c_heap \<Rightarrow> DataPacket_linux_t \<Rightarrow> (DataPacket_linux_t \<times> c_heap) result" where
  "datapacket_clear_linux h pkt =
     rbind (c_free (lp_data pkt) h) (\<lambda>h'.
       Inr (pkt\<lparr>lp_destination_id := (0, 0), lp_size := 0, lp_type := - 1, lp_data := None\<rparr>, h'))"

text \<open>The fields of a packet without its array, for the writes both builds share.\<close>

definition packet_fields :: "DataPacket_linux_t \<Rightarrow> DataPacket_t" where
  "packet_fields pkt =
     \<lparr>ptype = lp_type pkt, psize = lp_size pkt, destination_id = lp_destination_id pkt, data = []\<rparr>"

definition datapacket_get_packet_bytestring_linux ::
    "allocator \<Rightarrow> c_heap \<Rightarrow> DataPacket_linux_t \<Rightarrow> (nat option \<times> c_heap) result" where
  "datapacket_get_packet_bytestring_linux al h pkt =
     (case malloc_bytes al PACKET_SIZE_MAC h of (a, h1) \<Rightarrow>
        rbind (write_bytes h1 a (data_field_writes (packet_fields pkt))) (\<lambda>h2.
        rbind (copy_bytes h2 (lp_data pkt) 0 a 18 [0..<unat (lp_size pkt)]) (\<lambda>h3.
        rbind (if unat (lp_size pkt) < PACKET_SIZE_MAC - 18
               then write_bytes h3 a (map (\<lambda>i. (i + 18, 0)) [unat (lp_size pkt)..<PACKET_SIZE_MAC - 18])
               else Inr h3) (\<lambda>h4. Inr (a, h4)))))"

definition datapacket_construct_from_bytestring_linux ::
    "allocator \<Rightarrow> c_heap \<Rightarrow> DataPacket_linux_t \<Rightarrow> nat option \<Rightarrow> (DataPacket_linux_t \<times> c_heap) result" where
  "datapacket_construct_from_bytestring_linux al h pkt bs =
     rbind (c_read (h, bs) 0) (\<lambda>ty.
     rbind (read_word c_read (h, bs) [(1, 56), (2, 48), (3, 40), (4, 32), (5, 24), (6, 16), (7, 8), (8, 0)]) (\<lambda>dest0.
     rbind (read_word c_read (h, bs) [(9, 56), (10, 48), (11, 40), (12, 32), (13, 24), (14, 16), (15, 8), (16, 0)]) (\<lambda>dest1.
     rbind (c_read (h, bs) 17) (\<lambda>sz.
     rbind (c_free (lp_data pkt) h) (\<lambda>h1.
     (case malloc_bytes al (unat sz) h1 of (d, h2) \<Rightarrow>
        rbind (copy_bytes h2 bs 18 d 0 [0..<unat sz]) (\<lambda>h3.
          Inr (pkt\<lparr>lp_type := ty, lp_destination_id := (dest0, dest1), lp_size := sz, lp_data := d\<rparr>, h3))))))))"

definition controlpacket_get_packet_bytestring_linux ::
    "allocator \<Rightarrow> c_heap \<Rightarrow> u32 \<Rightarrow> ControlPacket_t \<Rightarrow> (nat option \<times> c_heap) result" where
  "controlpacket_get_packet_bytestring_linux al h rnd pkt =
     (case malloc_bytes al PACKET_SIZE_MAC h of (a, h1) \<Rightarrow>
        rbind (write_bytes h1 a
            (control_header_writes pkt @ control_slots_writes pkt @ control_padding_writes rnd)) (\<lambda>h2.
          Inr (a, h2)))"

definition cfpacket_get_packet_bytestring_linux ::
    "allocator \<Rightarrow> c_heap \<Rightarrow> u32 \<Rightarrow> CFPacket_t \<Rightarrow> (nat option \<times> c_heap) result" where
  "cfpacket_get_packet_bytestring_linux al h rnd pkt =
     (case malloc_bytes al PACKET_SIZE_MAC h of (a, h1) \<Rightarrow>
        rbind (write_bytes h1 a (cf_field_writes pkt @ cf_padding_writes rnd)) (\<lambda>h2. Inr (a, h2)))"

section \<open>Bytes on the heap\<close>

lemma put_simps [simp]:
  "objects (put h a x) = (objects h)(a \<mapsto> x)"
  "calls (put h a x) = calls h"
  "put (put h a x) a y = put h a y"
  by (simp_all add: put_def)

lemma put_calls: "put (h\<lparr>calls := c\<rparr>) a x = (put h a x)\<lparr>calls := c\<rparr>"
  by (rule c_heap.equality) (simp_all add: put_def)

lemma put_same: "objects h a = Some x \<Longrightarrow> put h a x = h"
  by (simp add: put_def map_upd_triv)

interpretation heap_bytes: byte_array c_write c_read
  "\<lambda>b. case objects (fst b) (the (snd b)) of Some (Bytes bs) \<Rightarrow> bs | _ \<Rightarrow> []"
  "\<lambda>b. \<exists>a bs. snd b = Some a \<and> objects (fst b) a = Some (Bytes bs)"
  by unfold_locales
    (auto simp: c_write_def c_read_def load_bytes_def load_def store_def WRITE_ARRAY_def READ_ARRAY_def)

lemma load_bytes_at [simp]: "objects h a = Some (Bytes bs) \<Longrightarrow> load_bytes h (Some a) = Inr bs"
  by (simp add: load_bytes_def load_def)

lemma null_bytes [simp]:
  "c_read (h, None) i = Inl Null_dereference"
  "c_write (h, None) e i = Inl Null_dereference"
  by (simp_all add: c_read_def c_write_def load_bytes_def load_def)

lemma c_read_at: "objects h a = Some (Bytes bs) \<Longrightarrow> c_read (h, Some a) i = READ_ARRAY LINUX bs i"
  by (simp add: c_read_def)

lemma c_write_at:
  "objects h a = Some (Bytes bs) \<Longrightarrow> c_write (h, Some a) e i =
    rbind (WRITE_ARRAY LINUX bs e i) (\<lambda>bs'. Inr (put h a (Bytes bs'), Some a))"
  by (simp add: c_write_def store_def)

lemma write_bytes_at:
  "objects h a = Some (Bytes bs) \<Longrightarrow> write_bytes h (Some a) ws =
    rbind (write_all (WRITE_ARRAY LINUX) bs ws) (\<lambda>bs'. Inr (put h a (Bytes bs')))"
proof (induction ws arbitrary: h bs)
  case Nil
  then have "put h a (Bytes bs) = h" by (rule put_same)
  then show ?case by (simp only: write_bytes_def write_all.simps rbind_simps prod.case)
next
  case (Cons w ws)
  obtain i e where w: "w = (i, e)" by (cases w)
  show ?case
  proof (cases "WRITE_ARRAY LINUX bs e i")
    case (Inl err)
    then show ?thesis by (simp add: write_bytes_def w c_write_at [OF Cons.prems])
  next
    case (Inr bs')
    with Cons.IH [of "put h a (Bytes bs')" bs'] show ?thesis
      by (simp add: write_bytes_def w c_write_at [OF Cons.prems])
  qed
qed

lemma write_bytes_null: "write_bytes h None ws = (if ws = [] then Inr h else Inl Null_dereference)"
  by (cases ws) (auto simp: write_bytes_def)

lemma copy_bytes_at:
  "objects h d = Some (Bytes bs) \<Longrightarrow> objects h s = Some (Bytes src) \<Longrightarrow> s \<noteq> d \<Longrightarrow>
    copy_bytes h (Some s) so (Some d) wo is =
      rbind (copy_elements LINUX src so bs wo is) (\<lambda>bs'. Inr (put h d (Bytes bs')))"
proof (induction "is" arbitrary: h bs)
  case Nil
  then have "put h d (Bytes bs) = h" by (intro put_same)
  then show ?case by (simp only: copy_bytes.simps copy_elements.simps rbind_simps)
next
  case (Cons i "is")
  show ?case
  proof (cases "READ_ARRAY LINUX src (i + so)")
    case (Inl e)
    then show ?thesis by (simp add: c_read_at [OF Cons.prems(2)])
  next
    case (Inr e)
    note rd = this
    show ?thesis
    proof (cases "WRITE_ARRAY LINUX bs e (i + wo)")
      case (Inl err)
      with rd show ?thesis by (simp add: c_read_at [OF Cons.prems(2)] c_write_at [OF Cons.prems(1)])
    next
      case (Inr bs')
      with rd Cons.IH [of "put h d (Bytes bs')" bs'] Cons.prems show ?thesis
        by (simp add: c_read_at [OF Cons.prems(2)] c_write_at [OF Cons.prems(1)])
    qed
  qed
qed

lemma copy_bytes_null:
  "copy_bytes h None so d wo is = (if is = [] then Inr h else Inl Null_dereference)"
  by (cases "is") auto

lemma read_word_at:
  assumes "objects h a = Some (Bytes bs)"
  shows "read_word c_read (h, Some a) ls = read_word (READ_ARRAY LINUX) bs ls"
proof -
  have "read_list c_read (h, Some a) is = read_list (READ_ARRAY LINUX) bs is" for "is"
    by (induction "is") (simp_all add: c_read_at [OF assms])
  then show ?thesis by (simp add: read_word_def)
qed

lemma malloc_bytes_cases:
  assumes "fresh_addresses al" and "malloc_bytes al n h = (p, h')"
  obtains (no_memory) "p = None" "objects h' = objects h"
  | (allocated) a where "p = Some a" "objects h a = None"
      "objects h' = (objects h)(a \<mapsto> Bytes (new_array LINUX (alloc_junk al (calls h)) n))"
proof (cases "alloc_address al (calls h) (objects h)")
  case None
  with assms(2) show ?thesis by (intro no_memory) (auto simp: malloc_bytes_def c_malloc_def)
next
  case (Some a)
  with assms(1) have "objects h a = None" by (simp add: fresh_addresses_def)
  moreover have "p = Some a" "objects h' = (objects h)(a \<mapsto> Bytes (new_array LINUX (alloc_junk al (calls h)) n))"
    using Some assms(2) by (auto simp: malloc_bytes_def c_malloc_def)
  ultimately show ?thesis by (intro allocated)
qed

section \<open>Functions that follow no dangling pointer\<close>

text \<open>
  \<open>safe P r\<close>: the outcome \<open>r\<close> is not a dangling pointer, and when there is a result, it has the
  property \<open>P\<close>.
\<close>

definition safe :: "('a \<Rightarrow> bool) \<Rightarrow> 'a result \<Rightarrow> bool" where
  "safe P r \<longleftrightarrow> (case r of Inl e \<Rightarrow> e \<noteq> Dangling_pointer | Inr x \<Rightarrow> P x)"

lemma safe_simps [simp]:
  "safe P (Inl e) \<longleftrightarrow> e \<noteq> Dangling_pointer"
  "safe P (Inr x) \<longleftrightarrow> P x"
  by (simp_all add: safe_def)

lemma safe_rbind:
  assumes "safe P r" and "\<And>x. r = Inr x \<Longrightarrow> P x \<Longrightarrow> safe Q (f x)"
  shows "safe Q (rbind r f)"
  using assms by (cases r) auto

lemma safe_assert: "(b \<Longrightarrow> safe P r) \<Longrightarrow> safe P (assert_that b r)"
  by (cases b) auto

lemma safe_mono: "safe P r \<Longrightarrow> (\<And>x. P x \<Longrightarrow> Q x) \<Longrightarrow> safe Q r"
  by (cases r) auto

lemma safe_any: "r \<noteq> Inl Dangling_pointer \<Longrightarrow> safe (\<lambda>_. True) r"
  by (cases r) auto

lemma rbind_eq_Inl: "rbind r f = Inl e \<longleftrightarrow> r = Inl e \<or> (\<exists>x. r = Inr x \<and> f x = Inl e)"
  by (cases r) auto

lemma list_faults:
  "READ_ARRAY LINUX bs i = Inl e \<Longrightarrow> e = Out_of_bounds"
  "WRITE_ARRAY LINUX bs b i = Inl e \<Longrightarrow> e = Out_of_bounds"
  "write_all (WRITE_ARRAY LINUX) bs ws = Inl e \<Longrightarrow> e = Out_of_bounds"
  "copy_elements LINUX src so bs wo is = Inl e \<Longrightarrow> e = Out_of_bounds"
  "read_list (READ_ARRAY LINUX) bs is = Inl e \<Longrightarrow> e = Out_of_bounds"
proof -
  show rd: "READ_ARRAY LINUX bs i = Inl e \<Longrightarrow> e = Out_of_bounds" for bs i
    by (simp add: READ_ARRAY_def split: if_splits)
  show wr: "WRITE_ARRAY LINUX bs b i = Inl e \<Longrightarrow> e = Out_of_bounds" for bs b i
    by (simp add: WRITE_ARRAY_def split: if_splits)
  show "write_all (WRITE_ARRAY LINUX) bs ws = Inl e \<Longrightarrow> e = Out_of_bounds"
    by (induction ws arbitrary: bs) (auto simp: rbind_eq_Inl dest: wr)
  show "copy_elements LINUX src so bs wo is = Inl e \<Longrightarrow> e = Out_of_bounds"
    by (induction "is" arbitrary: bs) (auto simp: rbind_eq_Inl dest: rd wr)
  show "read_list (READ_ARRAY LINUX) bs is = Inl e \<Longrightarrow> e = Out_of_bounds"
    by (induction "is") (auto simp: rbind_eq_Inl dest: rd)
qed

lemma read_word_fault: "read_word (READ_ARRAY LINUX) bs ls = Inl e \<Longrightarrow> e = Out_of_bounds"
  by (auto simp: read_word_def rbind_eq_Inl dest: list_faults(5))

text \<open>A pointer that is null or points to bytes; a heap without the block of a pointer.\<close>

definition is_bytes :: "c_heap \<Rightarrow> nat option \<Rightarrow> bool" where
  "is_bytes h p \<longleftrightarrow> (case p of None \<Rightarrow> True | Some a \<Rightarrow> \<exists>bs. objects h a = Some (Bytes bs))"

lemma is_bytes_simps [simp]:
  "is_bytes h None"
  "is_bytes h (Some a) \<longleftrightarrow> (\<exists>bs. objects h a = Some (Bytes bs))"
  by (simp_all add: is_bytes_def)

definition without :: "nat option \<Rightarrow> (nat \<Rightarrow> heap_object option) \<Rightarrow> nat \<Rightarrow> heap_object option" where
  "without p m = (case p of None \<Rightarrow> m | Some a \<Rightarrow> m(a := None))"

lemma without_simps [simp]: "without None m = m" "without (Some a) m = m(a := None)"
  by (simp_all add: without_def)

lemma c_free_safe:
  "(case p of None \<Rightarrow> True | Some a \<Rightarrow> objects h a \<noteq> None) \<Longrightarrow>
    c_free p h = Inr (h\<lparr>objects := without p (objects h)\<rparr>)"
  by (cases p) (auto simp: c_free_def)

lemma c_free_bytes: "is_bytes h p \<Longrightarrow> c_free p h = Inr (h\<lparr>objects := without p (objects h)\<rparr>)"
  by (rule c_free_safe) (auto split: option.splits)

lemma c_free_bytes_at:
  "objects h a = Some (Bytes bs) \<Longrightarrow> c_free (Some a) h = Inr (h\<lparr>objects := (objects h)(a := None)\<rparr>)"
  by (simp add: c_free_def)

text \<open>The encoders make one new block.\<close>

definition made :: "c_heap \<Rightarrow> nat option \<times> c_heap \<Rightarrow> bool" where
  "made h r \<longleftrightarrow> (\<exists>a bs. fst r = Some a \<and> objects h a = None \<and> length bs = 256 \<and>
     objects (snd r) = (objects h)(a \<mapsto> Bytes bs))"

lemma madeI:
  "objects h a = None \<Longrightarrow> length bs = 256 \<Longrightarrow> objects h' = (objects h)(a \<mapsto> Bytes bs) \<Longrightarrow>
    made h (Some a, h')"
  by (auto simp: made_def)

lemma write_all_length:
  "write_all (WRITE_ARRAY p) bs ws = Inr bs' \<Longrightarrow> length bs' = length bs"
  by (induction ws arbitrary: bs) (auto simp: WRITE_ARRAY_def rbind_eq_Inr split: if_splits platform.splits)

lemma copy_elements_length:
  "copy_elements p src so bs wo is = Inr bs' \<Longrightarrow> length bs' = length bs"
  by (induction "is" arbitrary: bs)
    (auto simp: WRITE_ARRAY_def rbind_eq_Inr split: if_splits platform.splits)

lemma made_writes:
  assumes "made h (p, h1)" 
  shows "safe (\<lambda>h2. made h (p, h2)) (write_bytes h1 p ws)"
proof -
  from assms obtain a bs where a: "p = Some a" "objects h a = None" "length bs = 256"
    "objects h1 = (objects h)(a \<mapsto> Bytes bs)" by (auto simp: made_def)
  then have at: "objects h1 a = Some (Bytes bs)" by simp
  show ?thesis
  proof (cases "write_all (WRITE_ARRAY LINUX) bs ws")
    case (Inl e)
    with list_faults(3) [OF this] show ?thesis by (simp add: a(1) write_bytes_at [OF at])
  next
    case (Inr bs')
    with write_all_length [OF this] a show ?thesis
      by (auto simp: write_bytes_at [OF at] intro!: madeI)
  qed
qed

lemma malloc_writes:
  assumes "fresh_addresses al" and "malloc_bytes al 256 h = (p, h1)" and "ws \<noteq> []"
  shows "safe (\<lambda>h2. made h (p, h2)) (write_bytes h1 p ws)"
  using assms(1,2)
proof (cases rule: malloc_bytes_cases)
  case no_memory
  with assms(3) show ?thesis by (simp add: write_bytes_null)
next
  case (allocated a)
  then have "made h (p, h1)" unfolding made_def by (metis fst_conv length_new_array snd_conv)
  then show ?thesis by (rule made_writes)
qed

lemma made_copy:
  assumes "made h (p, h1)" and "is_bytes h src"
  shows "safe (\<lambda>h2. made h (p, h2)) (copy_bytes h1 src so p wo is)"
proof (cases src)
  case None
  with assms(1) show ?thesis by (simp add: copy_bytes_null)
next
  case (Some s)
  with assms(2) obtain sb where s: "objects h s = Some (Bytes sb)" by auto
  from assms(1) obtain a bs where a: "p = Some a" "objects h a = None" "length bs = 256"
    "objects h1 = (objects h)(a \<mapsto> Bytes bs)" by (auto simp: made_def)
  with s have at: "objects h1 a = Some (Bytes bs)" "objects h1 s = Some (Bytes sb)" "s \<noteq> a" by auto
  show ?thesis
  proof (cases "copy_elements LINUX sb so bs wo is")
    case (Inl e)
    with list_faults(4) [OF this] show ?thesis by (simp add: a(1) Some copy_bytes_at [OF at])
  next
    case (Inr bs')
    with copy_elements_length [OF this] a show ?thesis
      by (auto simp: Some copy_bytes_at [OF at] intro!: madeI)
  qed
qed

lemma bytestring_linux_safe:
  assumes "fresh_addresses al" and "is_bytes h (lp_data pkt)"
  shows "safe (made h) (datapacket_get_packet_bytestring_linux al h pkt)"
proof -
  obtain p h1 where m: "malloc_bytes al 256 h = (p, h1)" by (cases "malloc_bytes al 256 h")
  have "data_field_writes (packet_fields pkt) \<noteq> []" by (simp add: data_field_writes_def)
  note writes = malloc_writes [OF assms(1) m this]
  show ?thesis
    by (auto simp: datapacket_get_packet_bytestring_linux_def m
        intro!: safe_rbind [OF writes] safe_rbind [OF made_copy [OF _ assms(2)]] safe_rbind [OF made_writes]
        simp del: upt_rec_numeral)
qed

lemma control_bytestring_linux_safe:
  assumes "fresh_addresses al"
  shows "safe (made h) (controlpacket_get_packet_bytestring_linux al h rnd pkt)"
proof -
  obtain p h1 where m: "malloc_bytes al 256 h = (p, h1)" by (cases "malloc_bytes al 256 h")
  have "control_header_writes pkt @ control_slots_writes pkt @ control_padding_writes rnd \<noteq> []"
    by (simp add: control_header_writes_def)
  from safe_rbind [OF malloc_writes [OF assms m this], of "made h"] show ?thesis
    by (simp add: controlpacket_get_packet_bytestring_linux_def m)
qed

lemma cf_bytestring_linux_safe:
  assumes "fresh_addresses al"
  shows "safe (made h) (cfpacket_get_packet_bytestring_linux al h rnd pkt)"
proof -
  obtain p h1 where m: "malloc_bytes al 256 h = (p, h1)" by (cases "malloc_bytes al 256 h")
  have "cf_field_writes pkt @ cf_padding_writes rnd \<noteq> []" by (simp add: cf_field_writes_def)
  from safe_rbind [OF malloc_writes [OF assms m this], of "made h"] show ?thesis
    by (simp add: cfpacket_get_packet_bytestring_linux_def m)
qed

text \<open>Decoding and clearing replace the array of the packet.\<close>

definition replaced :: "c_heap \<Rightarrow> nat option \<Rightarrow> DataPacket_linux_t \<times> c_heap \<Rightarrow> bool" where
  "replaced h old r \<longleftrightarrow>
     (case lp_data (fst r) of
       None \<Rightarrow> objects (snd r) = without old (objects h)
     | Some d \<Rightarrow> without old (objects h) d = None \<and>
         (\<exists>bs. objects (snd r) = (without old (objects h))(d \<mapsto> Bytes bs)))"

lemma clear_linux_result:
  assumes "is_bytes h (lp_data pkt)"
  shows "\<exists>pkt' h'. datapacket_clear_linux h pkt = Inr (pkt', h') \<and> lp_data pkt' = None \<and>
    objects h' = without (lp_data pkt) (objects h)"
  by (simp add: datapacket_clear_linux_def c_free_bytes [OF assms])

lemma malloc_copy:
  assumes "fresh_addresses al" and "malloc_bytes al n h = (d, h1)" and "objects h b = Some (Bytes bs)"
    and "lp_data pkt = d"
  shows "safe (\<lambda>h2. replaced h None (pkt, h2)) (copy_bytes h1 (Some b) so d 0 is)"
  using assms(1,2)
proof (cases rule: malloc_bytes_cases)
  case no_memory
  then show ?thesis using assms(4)
    by (cases "is") (auto simp: replaced_def c_read_at [OF trans [OF fun_cong [OF no_memory(2)] assms(3)]]
      intro!: safe_rbind [OF safe_any] dest: list_faults(1))
next
  case (allocated a)
  let ?new = "new_array LINUX (alloc_junk al (calls h)) n"
  have at: "objects h1 a = Some (Bytes ?new)" "objects h1 b = Some (Bytes bs)" "b \<noteq> a"
    using allocated assms(3) by auto
  show ?thesis
  proof (cases "copy_elements LINUX bs so ?new 0 is")
    case (Inl e)
    with list_faults(4) [OF this] show ?thesis by (simp add: allocated(1) copy_bytes_at [OF at])
  next
    case (Inr bs')
    with allocated assms(4) show ?thesis
      by (auto simp: copy_bytes_at [OF at] replaced_def)
  qed
qed

lemma construct_linux_safe:
  assumes al: "fresh_addresses al" and p: "is_bytes h p" and old: "is_bytes h (lp_data pkt)"
    and "p \<noteq> lp_data pkt \<or> p = None"
  shows "safe (replaced h (lp_data pkt)) (datapacket_construct_from_bytestring_linux al h pkt p)"
proof (cases p)
  case None
  then show ?thesis by (simp add: datapacket_construct_from_bytestring_linux_def)
next
  case (Some b)
  with p obtain bs where b: "objects h b = Some (Bytes bs)" by auto
  let ?h1 = "h\<lparr>objects := without (lp_data pkt) (objects h)\<rparr>"
  have b1: "objects ?h1 b = Some (Bytes bs)" using b Some assms(4) by (cases "lp_data pkt") auto
  have rep: "replaced ?h1 None r \<Longrightarrow> replaced h (lp_data pkt) r" for r
    by (simp add: replaced_def split: option.splits)
  have rd: "safe (\<lambda>_. True) (READ_ARRAY LINUX bs i)" for i
    by (rule safe_any) (use list_faults(1) in fastforce)
  have rw: "safe (\<lambda>_. True) (read_word (READ_ARRAY LINUX) bs ls)" for ls
    by (rule safe_any) (use read_word_fault in fastforce)
  show ?thesis
    unfolding datapacket_construct_from_bytestring_linux_def Some c_read_at [OF b] read_word_at [OF b]
      c_free_bytes [OF old] rbind_simps
    by (intro safe_rbind [OF rd] safe_rbind [OF rw])
      (auto split: prod.split intro!: safe_rbind [OF malloc_copy [OF al _ b1]] intro: rep)
qed

text \<open>
  What the functions do on the heap is what the functions over lists do, in the block that \<open>malloc\<close>
  returns; a null pointer stands for the empty list.
\<close>

definition bytes_of :: "c_heap \<Rightarrow> nat option \<Rightarrow> u8 list" where
  "bytes_of h p = (case load_bytes h p of Inl _ \<Rightarrow> [] | Inr bs \<Rightarrow> bs)"

definition abs_linux :: "c_heap \<Rightarrow> DataPacket_linux_t \<Rightarrow> DataPacket_t" where
  "abs_linux h pkt = (packet_fields pkt)\<lparr>data := bytes_of h (lp_data pkt)\<rparr>"

lemma bytes_of_simps [simp]:
  "bytes_of h None = []"
  "objects h a = Some (Bytes bs) \<Longrightarrow> bytes_of h (Some a) = bs"
  by (simp_all add: bytes_of_def load_bytes_def load_def)

lemma construct_linux_refines:
  assumes "objects h b = Some (Bytes bs)" and "is_bytes h (lp_data pkt)" and "Some b \<noteq> lp_data pkt"
    and "alloc_address al (calls h) (without (lp_data pkt) (objects h)) = Some d"
    and "fresh_addresses al"
  shows "datapacket_construct_from_bytestring_linux al h pkt (Some b) =
    rbind (datapacket_construct_from_bytestring LINUX (alloc_junk al (calls h)) (abs_linux h pkt) bs) (\<lambda>p.
      Inr (pkt\<lparr>lp_type := ptype p, lp_destination_id := destination_id p, lp_size := psize p, lp_data := Some d\<rparr>,
        (put (h\<lparr>objects := without (lp_data pkt) (objects h)\<rparr>) d (Bytes (data p)))\<lparr>calls := calls h + 1\<rparr>))"
proof -
  let ?m = "without (lp_data pkt) (objects h)"
  have b: "?m b = Some (Bytes bs)" using assms(1,3) by (cases "lp_data pkt") auto
  have fresh: "?m d = None" using assms(4,5) by (simp add: fresh_addresses_def)
  have m: "malloc_bytes al n (h\<lparr>objects := ?m\<rparr>) =
      (Some d, (put (h\<lparr>objects := ?m\<rparr>) d (Bytes (new_array LINUX (alloc_junk al (calls h)) n)))
        \<lparr>calls := calls h + 1\<rparr>)" for n
    using assms(4) by (simp add: malloc_bytes_def c_malloc_def)
  show ?thesis
    unfolding datapacket_construct_from_bytestring_linux_def datapacket_construct_from_bytestring_def
      c_read_at [OF assms(1)] read_word_at [OF assms(1)] c_free_bytes [OF assms(2)] rbind_simps m prod.case
      rbind_assoc
    by (intro arg_cong [where f = "rbind _"] ext, subst copy_bytes_at [where src = bs])
      (use b fresh in \<open>auto simp: rbind_assoc put_calls abs_linux_def packet_fields_def\<close>)
qed

lemma bytestring_linux_refines:
  assumes "is_bytes h (lp_data pkt)" and "lp_data pkt = None \<Longrightarrow> lp_size pkt = 0"
    and "alloc_address al (calls h) (objects h) = Some a" and "fresh_addresses al"
  shows "datapacket_get_packet_bytestring_linux al h pkt =
    rbind (datapacket_get_packet_bytestring LINUX (alloc_junk al (calls h)) (abs_linux h pkt)) (\<lambda>bs.
      Inr (Some a, (put h a (Bytes bs))\<lparr>calls := calls h + 1\<rparr>))"
proof -
  have fresh: "objects h a = None" using assms(3,4) by (simp add: fresh_addresses_def)
  let ?new = "new_array LINUX (alloc_junk al (calls h)) 256"
  let ?h = "\<lambda>bs. (put h a (Bytes bs))\<lparr>calls := calls h + 1\<rparr>"
  have m: "malloc_bytes al 256 h = (Some a, ?h ?new)"
    using assms(3) by (simp add: malloc_bytes_def c_malloc_def)
  have w: "write_bytes (?h bs) (Some a) ws = rbind (write_all (WRITE_ARRAY LINUX) bs ws) (\<lambda>bs'. Inr (?h bs'))" for bs ws
    by (subst write_bytes_at) (simp_all add: put_calls)
  have fields: "data_field_writes (packet_fields pkt) = data_field_writes (abs_linux h pkt)"
    by (simp add: data_field_writes_def abs_linux_def)
  have c: "copy_bytes (?h bs) (lp_data pkt) 0 (Some a) 18 [0..<unat (lp_size pkt)] =
      rbind (copy_elements LINUX (data (abs_linux h pkt)) 0 bs 18 [0..<unat (lp_size pkt)]) (\<lambda>bs'. Inr (?h bs'))" for bs
  proof (cases "lp_data pkt")
    case None
    with assms(2) show ?thesis by simp
  next
    case (Some s)
    with assms(1) obtain src where src: "objects h s = Some (Bytes src)" by auto
    with Some fresh show ?thesis by (subst Some, subst copy_bytes_at) (auto simp: put_calls abs_linux_def)
  qed
  have sz: "psize (abs_linux h pkt) = lp_size pkt" by (simp add: abs_linux_def packet_fields_def)
  show ?thesis
    unfolding datapacket_get_packet_bytestring_linux_def datapacket_get_packet_bytestring_def
      PACKET_SIZE_MAC_def m prod.case w c fields rbind_assoc rbind_simps sz
    by (intro arg_cong [where f = "rbind _"] ext) (auto simp: rbind_assoc)
qed

end
