(* ===== verification/Ipc_Queues_Linux.thy ===== *)
theory Ipc_Queues_Linux
  imports Ipc_Queues
begin

text \<open>
  The queues between the layers in the Linux build of \<open>ipc-queues/ipc-queues.c\<close>: a queue is a POSIX
  message queue, whose name is made from the queue's number, and every message carries eight bytes
  for a process id in front.

  The \<open>mq_*\<close> functions of the C library are not part of the repository: they are the parameter
  \<open>'k posix\<close> over an abstract kernel state \<open>'k\<close>, and \<open>posix_queues\<close> states what their manual
  promises. A call that fails returns the value of \<open>errno\<close>; a call that waits for ever is
  \<open>Blocked\<close>. \<open>malloc\<close> is taken to succeed; the bytes it returns are \<open>junk\<close>, an argument.
\<close>

section \<open>State\<close>

datatype errno = EAGAIN | EINTR | EBADF | EMSGSIZE | EEXIST | Other_error

record mq_attr =
  mq_maxmsg :: nat
  mq_msgsize :: nat
  mq_curmsgs :: nat

text \<open>
  A queue descriptor is a number, \<open>None\<close> where the code has \<open>(mqd_t) -1\<close>. \<open>mq_open\<close> takes the
  attributes when it may create the queue and \<open>None\<close> when it only opens an existing one;
  \<open>mq_getattr\<close> yields \<open>None\<close> when it fails.
\<close>

record 'k posix =
  mq_open :: "'k \<Rightarrow> string \<Rightarrow> mq_attr option \<Rightarrow> (errno + nat) \<times> 'k"
  mq_close :: "'k \<Rightarrow> nat \<Rightarrow> 'k"
  mq_unlink :: "'k \<Rightarrow> string \<Rightarrow> 'k"
  mq_send :: "'k \<Rightarrow> nat \<Rightarrow> u8 list \<Rightarrow> nat \<Rightarrow> (errno option \<times> 'k) result"
  mq_receive :: "'k \<Rightarrow> nat \<Rightarrow> nat \<Rightarrow> ((errno + u8 list) \<times> 'k) result"
  mq_getattr :: "'k \<Rightarrow> nat \<Rightarrow> mq_attr option"

record Queue_linux_t =
  lqueue_id :: u32
  lqueue :: "nat option"
  lattr :: mq_attr
  lq_name :: "string option"
  lqueue_size :: nat
  lmessage_size :: nat
  lmsgs_allow :: u32

record queue_thread_linux_t =
  lqt_queue_id :: u32
  lqt_pid :: u64

record IPC_Queues_linux_t =
  lqueues :: "Queue_linux_t list"
  lqueues_ids :: "queue_thread_linux_t list"

definition no_attr :: mq_attr where
  "no_attr = \<lparr>mq_maxmsg = 0, mq_msgsize = 0, mq_curmsgs = 0\<rparr>"

definition no_queue_linux :: Queue_linux_t where
  "no_queue_linux = \<lparr>lqueue_id = 0, lqueue = None, lattr = no_attr, lq_name = None,
     lqueue_size = 0, lmessage_size = 0, lmsgs_allow = 0\<rparr>"

definition no_thread_linux :: queue_thread_linux_t where
  "no_thread_linux = \<lparr>lqt_queue_id = 0, lqt_pid = 0\<rparr>"

text \<open>\<open>sizeof(pthread_t)\<close>.\<close>

definition PID_BYTES :: nat where "PID_BYTES = 8"

lemma PID_BYTES_eq [simp]: "PID_BYTES = 8"
  by (simp add: PID_BYTES_def)

section \<open>Names\<close>

text \<open>\<open>sprintf(q_name, "/%d", queue_id)\<close>.\<close>

definition digit :: "nat \<Rightarrow> char" where
  "digit n = char_of (48 + n)"

fun decimal :: "nat \<Rightarrow> string" where
  "decimal n = (if n < 10 then [digit n] else decimal (n div 10) @ [digit (n mod 10)])"

declare decimal.simps [simp del]

definition queue_name :: "u32 \<Rightarrow> string" where
  "queue_name q_id = CHR ''/'' # decimal (unat q_id)"

text \<open>The four bytes allocated for the name also hold the terminating zero.\<close>

definition NAME_BYTES :: nat where "NAME_BYTES = 4"

section \<open>Operations\<close>

text \<open>The static variable \<open>Queues\<close> when the program starts: all bytes zero.\<close>

definition static_queues_linux :: IPC_Queues_linux_t where
  "static_queues_linux =
     \<lparr>lqueues = replicate MAX_QUEUES (no_queue_linux\<lparr>lqueue := Some 0\<rparr>),
      lqueues_ids = replicate MAX_QUEUES no_thread_linux\<rparr>"

definition init_queues_linux :: "IPC_Queues_linux_t \<Rightarrow> IPC_Queues_linux_t" where
  "init_queues_linux Q =
     Q\<lparr>lqueues := map (\<lambda>q. q\<lparr>lqueue_id := 0, lqueue_size := 0, lmessage_size := 0,
                            lmsgs_allow := 0, lqueue := None, lq_name := None\<rparr>) (lqueues Q),
       lqueues_ids := map (\<lambda>t. t\<lparr>lqt_queue_id := 0, lqt_pid := 0\<rparr>) (lqueues_ids Q)\<rparr>"

text \<open>
  \<open>end_queues\<close> goes through the queues in order; a descriptor that is not open is neither unlinked
  nor closed. \<open>mq_unlink\<close> of a null name is a null dereference.
\<close>

definition end_queue_linux ::
    "'k posix \<Rightarrow> Queue_linux_t \<Rightarrow> 'k \<Rightarrow> (Queue_linux_t \<times> 'k) result" where
  "end_queue_linux os q k =
     rbind (case lqueue q of
         None \<Rightarrow> Inr k
       | Some d \<Rightarrow>
           (case lq_name q of
             None \<Rightarrow> Inl Null_dereference
           | Some name \<Rightarrow> Inr (mq_close os (mq_unlink os k name) d))) (\<lambda>k'.
       Inr (q\<lparr>lqueue_id := 0, lqueue_size := 0, lmessage_size := 0, lmsgs_allow := 0,
              lqueue := None, lq_name := None\<rparr>, k'))"

fun end_each_queue ::
    "'k posix \<Rightarrow> Queue_linux_t list \<Rightarrow> 'k \<Rightarrow> (Queue_linux_t list \<times> 'k) result" where
  "end_each_queue os [] k = Inr ([], k)"
| "end_each_queue os (q # qs) k =
     rbind (end_queue_linux os q k) (\<lambda>(q', k').
     rbind (end_each_queue os qs k') (\<lambda>(qs', k''). Inr (q' # qs', k'')))"

definition end_queues_linux ::
    "'k posix \<Rightarrow> IPC_Queues_linux_t \<Rightarrow> 'k \<Rightarrow> (IPC_Queues_linux_t \<times> 'k) result" where
  "end_queues_linux os Q k =
     rbind (end_each_queue os (lqueues Q) k) (\<lambda>(qs, k').
       Inr (Q\<lparr>lqueues := qs,
              lqueues_ids := map (\<lambda>t. t\<lparr>lqt_queue_id := 0, lqt_pid := 0\<rparr>) (lqueues_ids Q)\<rparr>, k'))"

text \<open>\<open>create_queue\<close> returns the new identifier and what it stores in the caller's stack pointer.\<close>

definition create_queue_linux ::
    "IPC_Queues_linux_t \<Rightarrow> nat \<Rightarrow> nat \<Rightarrow> u32 \<Rightarrow> nat option \<Rightarrow>
     (u32 \<times> nat option \<times> IPC_Queues_linux_t) result" where
  "create_queue_linux Q max_queue_size msg_size allow stack =
     (if max_queue_size > QUEUE_SIZE then Inr (0, stack, Q)
      else if msg_size > MAX_MESSAGE_SIZE then Inr (0, stack, Q)
      else if unat allow > MAX_ELEMENTS_ON_QUEUE then Inr (0, stack, Q)
      else
        (case find_index (\<lambda>t. lqt_queue_id t = 0) (lqueues_ids Q) of
          None \<Rightarrow> Inr (0, None, Q)
        | Some i \<Rightarrow>
            (let q_id = of_nat i + 1; name = queue_name q_id
             in if length name < NAME_BYTES
                then Inr (q_id, None,
                  Q\<lparr>lqueues_ids := (lqueues_ids Q)[i := \<lparr>lqt_queue_id = 1, lqt_pid = 0\<rparr>],
                    lqueues := (lqueues Q)[i := (lqueues Q ! i)
                      \<lparr>lqueue_id := q_id, lqueue_size := max_queue_size, lmessage_size := msg_size,
                       lmsgs_allow := allow,
                       lattr := \<lparr>mq_maxmsg = unat allow, mq_msgsize = msg_size + PID_BYTES,
                                 mq_curmsgs = 0\<rparr>,
                       lq_name := Some name\<rparr>]\<rparr>)
                else Inl Out_of_bounds)))"

definition open_queue_linux ::
    "'k posix \<Rightarrow> IPC_Queues_linux_t \<Rightarrow> 'k \<Rightarrow> u32 \<Rightarrow> u64 \<Rightarrow> (u32 \<times> IPC_Queues_linux_t \<times> 'k) result" where
  "open_queue_linux os Q k qid pid =
     assert_that (qid \<noteq> 0)
       (if unat qid > MAX_QUEUES then Inr (0, Q, k)
        else
          (let i = unat qid - 1; q = lqueues Q ! i;
               Q1 = Q\<lparr>lqueues_ids := (lqueues_ids Q)[i := (lqueues_ids Q ! i)\<lparr>lqt_pid := pid\<rparr>]\<rparr>
           in (case lq_name q of
                None \<Rightarrow> Inl Assertion_failed
              | Some name \<Rightarrow>
                  (let (d, k') =
                     (case mq_open os k name (Some (lattr q)) of
                       (Inl EEXIST, k1) \<Rightarrow> mq_open os k1 name None
                     | r \<Rightarrow> r)
                   in Inr (1,
                     Q1\<lparr>lqueues := (lqueues Q)[i := q\<lparr>lqueue :=
                          (case d of Inl _ \<Rightarrow> None | Inr fd \<Rightarrow> Some fd)\<rparr>]\<rparr>, k')))))"

definition close_queue_linux ::
    "'k posix \<Rightarrow> IPC_Queues_linux_t \<Rightarrow> 'k \<Rightarrow> u32 \<Rightarrow> (IPC_Queues_linux_t \<times> 'k) result" where
  "close_queue_linux os Q k qid =
     assert_that (qid > 0)
       (assert_that (unat qid \<le> MAX_QUEUES)
         (let i = unat qid - 1; q = lqueues Q ! i;
              k1 = (case lq_name q of None \<Rightarrow> k | Some name \<Rightarrow> mq_unlink os k name);
              k2 = (case lqueue q of None \<Rightarrow> k1 | Some d \<Rightarrow> mq_close os k1 d)
          in Inr (Q\<lparr>lqueues := (lqueues Q)[i := no_queue_linux],
                    lqueues_ids := (lqueues_ids Q)[i := no_thread_linux]\<rparr>, k2)))"

text \<open>The process id as \<open>send_message\<close> writes it and as \<open>recv_message\<close> reads it.\<close>

definition pid_bytes :: "u64 \<Rightarrow> u8 list" where
  "pid_bytes pid =
     [masked_byte pid 0xff00000000000000 56, masked_byte pid 0x00ff000000000000 48,
      masked_byte pid 0x0000ff0000000000 40, masked_byte pid 0x000000ff00000000 32,
      masked_byte pid 0x00000000ff000000 24, masked_byte pid 0x0000000000ff0000 16,
      masked_byte pid 0x000000000000ff00 8, masked_byte pid 0x00000000000000ff 0]"

definition bytes_pid :: "u8 list \<Rightarrow> u64" where
  "bytes_pid b =
     assemble [(b ! 0, 56), (b ! 1, 48), (b ! 2, 40), (b ! 3, 32), (b ! 4, 24), (b ! 5, 16),
       (b ! 6, 8), (b ! 7, 0)]"

text \<open>
  The loop of \<open>send_message\<close>: \<open>EAGAIN\<close> and \<open>EINTR\<close> lead to another try, every other error sets
  \<open>ret\<close> to 0, as a success does.
\<close>

partial_function (option) mq_send_loop ::
    "'k posix \<Rightarrow> nat \<Rightarrow> u8 list \<Rightarrow> 'k \<Rightarrow> 'k result option" where
  "mq_send_loop os d out_msg k =
     (case mq_send os k d out_msg 1 of
       Inl e \<Rightarrow> Some (Inl e)
     | Inr (None, k') \<Rightarrow> Some (Inr k')
     | Inr (Some err, k') \<Rightarrow>
         (if err = EAGAIN \<or> err = EINTR then mq_send_loop os d out_msg k' else Some (Inr k')))"

definition send_message_linux ::
    "'k posix \<Rightarrow> IPC_Queues_linux_t \<Rightarrow> 'k \<Rightarrow> u32 \<Rightarrow> u8 list \<Rightarrow> nat \<Rightarrow> u64 \<Rightarrow>
     (u32 \<times> 'k) result option" where
  "send_message_linux os Q k qid msg sz pid =
     (if unat qid < 1 \<or> unat qid > MAX_QUEUES then Some (Inr (0, k))
      else if pid = 0 then Some (Inr (0, k))
      else
        (case find_index (\<lambda>t. lqt_pid t = pid \<and> lqt_queue_id t = 1) (lqueues_ids Q) of
          None \<Rightarrow> Some (Inr (0, k))
        | Some i \<Rightarrow>
            (let q = lqueues Q ! (unat qid - 1); recv_q = lqueues Q ! i
             in (case lqueue recv_q of
                  None \<Rightarrow> Some (Inl Assertion_failed)
                | Some d \<Rightarrow>
                    (if lqueue_id recv_q \<noteq> 0 \<and> lqueue_id q \<noteq> 0 \<and> lqueue q \<noteq> None \<and>
                        sz \<le> lmessage_size q
                     then
                       (case memcpy (replicate sz 0) msg sz of
                         Inl e \<Rightarrow> Some (Inl e)
                       | Inr body \<Rightarrow>
                           map_option (\<lambda>r. rbind r (\<lambda>k'. Inr (1, k')))
                             (mq_send_loop os d (pid_bytes pid @ body) k))
                     else Some (Inl Assertion_failed))))))"

text \<open>
  \<open>recv_message\<close> receives into a fresh buffer of \<open>size + 8\<close> bytes, of which a message overwrites
  the beginning. An interrupted call is repeated once, with \<open>size\<close> in place of \<open>size + 8\<close>; what
  the second call returns, and any error but \<open>EINTR\<close> and \<open>EBADF\<close>, is not looked at. It also returns
  the caller's buffer and process id after the call.
\<close>

definition recv_message_linux ::
    "'k posix \<Rightarrow> (nat \<Rightarrow> u8) \<Rightarrow> IPC_Queues_linux_t \<Rightarrow> 'k \<Rightarrow> u32 \<Rightarrow> u8 list \<Rightarrow> nat \<Rightarrow> u64 \<Rightarrow>
     (u32 \<times> u8 list \<times> u64 \<times> 'k) result" where
  "recv_message_linux os junk Q k qid msg sz pid =
     (if unat qid < 1 \<or> unat qid > MAX_QUEUES then Inr (0, msg, pid, k)
      else if sz = 0 then Inr (0, msg, pid, k)
      else
        (case lqueue (lqueues Q ! (unat qid - 1)) of
          None \<Rightarrow> Inl Assertion_failed
        | Some d \<Rightarrow>
            (let buf = map junk [0..<sz + PID_BYTES];
                 finish = (\<lambda>r k'.
                   (let b = (case r of Inl _ \<Rightarrow> buf | Inr m \<Rightarrow> m @ drop (length m) buf)
                    in rbind (memcpy msg (drop 8 b) sz) (\<lambda>msg'. Inr (1, msg', bytes_pid b, k'))))
             in rbind (mq_receive os k d (sz + PID_BYTES)) (\<lambda>(r, k').
                  (if r = Inl EINTR then rbind (mq_receive os k' d sz) (\<lambda>(r', k''). finish r' k'')
                   else if r = Inl EBADF then Inr (- 1, msg, pid, k')
                   else finish r k')))))"

text \<open>\<open>elements_on_queue\<close> keeps the attributes it asked for in the queue.\<close>

definition elements_on_queue_linux ::
    "'k posix \<Rightarrow> IPC_Queues_linux_t \<Rightarrow> 'k \<Rightarrow> u32 \<Rightarrow> (u32 \<times> IPC_Queues_linux_t) result" where
  "elements_on_queue_linux os Q k qid =
     assert_that (qid > 0)
       (assert_that (unat qid \<le> MAX_QUEUES)
         (let i = unat qid - 1; q = lqueues Q ! i;
              attr = (case Option.bind (lqueue q) (mq_getattr os k) of
                 None \<Rightarrow> lattr q | Some a \<Rightarrow> a)
          in Inr (of_nat (mq_curmsgs attr),
               Q\<lparr>lqueues := (lqueues Q)[i := q\<lparr>lattr := attr\<rparr>]\<rparr>)))"

section \<open>The table of queues\<close>

text \<open>
  A queue in use has the name made from its number; one that is not in use has no name and no
  open descriptor.
\<close>

definition queue_in_use_linux :: "IPC_Queues_linux_t \<Rightarrow> nat \<Rightarrow> bool" where
  "queue_in_use_linux Q i \<longleftrightarrow> lqt_queue_id (lqueues_ids Q ! i) \<noteq> 0"

definition wf_entry_linux :: "IPC_Queues_linux_t \<Rightarrow> nat \<Rightarrow> bool" where
  "wf_entry_linux Q i \<longleftrightarrow>
     (if queue_in_use_linux Q i
      then lqt_queue_id (lqueues_ids Q ! i) = 1 \<and> lqueue_id (lqueues Q ! i) = of_nat i + 1 \<and>
        lq_name (lqueues Q ! i) = Some (queue_name (of_nat i + 1)) \<and>
        lmessage_size (lqueues Q ! i) \<le> MAX_MESSAGE_SIZE
      else lqueue_id (lqueues Q ! i) = 0 \<and> lq_name (lqueues Q ! i) = None \<and>
        lqueue (lqueues Q ! i) = None)"

definition wf_queues_linux :: "IPC_Queues_linux_t \<Rightarrow> bool" where
  "wf_queues_linux Q \<longleftrightarrow>
     length (lqueues Q) = MAX_QUEUES \<and> length (lqueues_ids Q) = MAX_QUEUES \<and>
     (\<forall>i < MAX_QUEUES. wf_entry_linux Q i)"

text \<open>The names of the ten queues, all different and short enough for their four bytes.\<close>

lemma queue_names:
  "map (\<lambda>i. queue_name (of_nat i + 1)) [0..<10] =
    [''/1'', ''/2'', ''/3'', ''/4'', ''/5'', ''/6'', ''/7'', ''/8'', ''/9'', ''/10'']"
  by code_simp

lemma distinct_queue_names: "distinct (map (\<lambda>i. queue_name (of_nat i + 1)) [0..<10])"
  unfolding queue_names by simp

lemma queue_name_inj:
  "i < 10 \<Longrightarrow> j < 10 \<Longrightarrow> queue_name (of_nat i + 1) = queue_name (of_nat j + 1) \<Longrightarrow> i = j"
  using distinct_queue_names by (auto simp: distinct_map inj_on_def)

lemma length_queue_name: 
  assumes "i < 10"
  shows "length (queue_name (of_nat i + 1)) < NAME_BYTES"
proof -
  have "\<forall>n \<in> set (map (\<lambda>i. queue_name (of_nat i + 1)) [0..<10]). length n < NAME_BYTES"
    unfolding queue_names by (simp add: NAME_BYTES_def)
  with assms show ?thesis by simp
qed

lemma wf_queues_linux_update:
  assumes "wf_queues_linux Q" and "k < MAX_QUEUES"
    and "lqueues Q' = (lqueues Q)[k := q]" and "lqueues_ids Q' = (lqueues_ids Q)[k := t]"
    and "wf_entry_linux Q' k"
  shows "wf_queues_linux Q'"
proof -
  have "wf_entry_linux Q' i" if "i < MAX_QUEUES" for i
  proof (cases "i = k")
    case False
    with assms that show ?thesis
      by (auto simp: wf_queues_linux_def wf_entry_linux_def queue_in_use_linux_def)
  qed (simp add: assms(5))
  with assms show ?thesis by (simp add: wf_queues_linux_def)
qed

lemma wf_init_queues_linux:
  "length (lqueues Q) = 10 \<Longrightarrow> length (lqueues_ids Q) = 10 \<Longrightarrow> wf_queues_linux (init_queues_linux Q)"
  by (simp add: wf_queues_linux_def init_queues_linux_def wf_entry_linux_def queue_in_use_linux_def)

lemma wf_queue_name_linux:
  "wf_queues_linux Q \<Longrightarrow> i < 10 \<Longrightarrow> lq_name (lqueues Q ! i) =
    (if queue_in_use_linux Q i then Some (queue_name (of_nat i + 1)) else None)"
  by (simp add: wf_queues_linux_def wf_entry_linux_def split: if_splits)

lemma create_queue_linux_cases:
  assumes "wf_queues_linux Q" and "n \<le> QUEUE_SIZE" and "m \<le> MAX_MESSAGE_SIZE"
    and "unat allow \<le> MAX_ELEMENTS_ON_QUEUE"
  shows "if \<forall>i < MAX_QUEUES. queue_in_use_linux Q i
    then create_queue_linux Q n m allow stack = Inr (0, None, Q)
    else \<exists>i Q'. i < MAX_QUEUES \<and> \<not> queue_in_use_linux Q i \<and> (\<forall>j < i. queue_in_use_linux Q j) \<and>
      create_queue_linux Q n m allow stack = Inr (of_nat i + 1, None, Q') \<and>
      wf_queues_linux Q' \<and> queue_in_use_linux Q' i \<and>
      (\<forall>j. j \<noteq> i \<longrightarrow> lqueues Q' ! j = lqueues Q ! j \<and> lqueues_ids Q' ! j = lqueues_ids Q ! j)"
proof (cases "find_index (\<lambda>t. lqt_queue_id t = 0) (lqueues_ids Q)")
  case None
  then have "\<forall>i < MAX_QUEUES. queue_in_use_linux Q i"
    using assms(1) by (simp add: find_index_None wf_queues_linux_def queue_in_use_linux_def)
  with None assms(2-4) show ?thesis by (simp add: create_queue_linux_def)
next
  case (Some i)
  then have i: "i < length (lqueues_ids Q)" "\<not> queue_in_use_linux Q i" "\<forall>j < i. queue_in_use_linux Q j"
    by (auto simp: find_index_Some queue_in_use_linux_def)
  then have lt: "i < 10" using assms(1) by (simp add: wf_queues_linux_def)
  have name: "length (queue_name (of_nat i + 1)) < NAME_BYTES" by (rule length_queue_name [OF lt])
  define Q' where "Q' = Q\<lparr>lqueues_ids := (lqueues_ids Q)[i := \<lparr>lqt_queue_id = 1, lqt_pid = 0\<rparr>],
      lqueues := (lqueues Q)[i := (lqueues Q ! i)
       \<lparr>lqueue_id := of_nat i + 1, lqueue_size := n, lmessage_size := m, lmsgs_allow := allow,
        lattr := \<lparr>mq_maxmsg = unat allow, mq_msgsize = m + 8, mq_curmsgs = 0\<rparr>,
        lq_name := Some (queue_name (of_nat i + 1))\<rparr>]\<rparr>"
  have Q': "create_queue_linux Q n m allow stack = Inr (of_nat i + 1, None, Q')"
    using assms(2-4) Some name by (simp add: create_queue_linux_def Let_def Q'_def)
  have entry: "wf_entry_linux Q' i" "queue_in_use_linux Q' i"
    using assms lt by (simp_all add: wf_entry_linux_def queue_in_use_linux_def wf_queues_linux_def Q'_def)
  have "wf_queues_linux Q'"
    by (rule wf_queues_linux_update [OF assms(1) _ _ _ entry(1)]) (simp_all add: lt Q'_def)
  moreover have "\<forall>j. j \<noteq> i \<longrightarrow> lqueues Q' ! j = lqueues Q ! j \<and> lqueues_ids Q' ! j = lqueues_ids Q ! j"
    by (simp add: Q'_def)
  ultimately show ?thesis using i lt Q' entry(2) by auto
qed

lemma create_queue_linux_wf:
  assumes "wf_queues_linux Q"
  shows "\<exists>i s Q'. create_queue_linux Q n m allow stack = Inr (i, s, Q') \<and> wf_queues_linux Q'"
proof (cases "n \<le> QUEUE_SIZE \<and> m \<le> MAX_MESSAGE_SIZE \<and> unat allow \<le> MAX_ELEMENTS_ON_QUEUE")
  case True
  with create_queue_linux_cases [OF assms, of n m allow stack] assms show ?thesis
    by (auto split: if_splits)
next
  case False
  with assms show ?thesis by (auto simp: create_queue_linux_def)
qed

lemma open_queue_linux_wf:
  assumes "wf_queues_linux Q" and "open_queue_linux os Q k qid pid = Inr (r, Q', k')"
  shows "wf_queues_linux Q'"
proof (cases "unat qid > MAX_QUEUES")
  case True
  with assms show ?thesis by (auto simp: open_queue_linux_def assert_that_eq_Inr)
next
  case False
  let ?i = "unat qid - 1"
  have nz: "qid \<noteq> 0" using assms(2) by (auto simp: open_queue_linux_def assert_that_eq_Inr)
  with False have lt: "?i < MAX_QUEUES" by (simp add: unat_eq_0 [symmetric])
  from assms(2) False nz obtain name d where q: "lq_name (lqueues Q ! ?i) = Some name"
    "lqueues Q' = (lqueues Q)[?i := (lqueues Q ! ?i)\<lparr>lqueue := d\<rparr>]"
    "lqueues_ids Q' = (lqueues_ids Q)[?i := (lqueues_ids Q ! ?i)\<lparr>lqt_pid := pid\<rparr>]"
    by (auto simp: open_queue_linux_def Let_def split: option.splits prod.splits)
  have "wf_entry_linux Q ?i" using assms(1) lt by (simp add: wf_queues_linux_def)
  then have "wf_entry_linux Q' ?i"
    using q lt assms(1)
    by (auto simp: wf_entry_linux_def queue_in_use_linux_def wf_queues_linux_def split: if_splits)
  from wf_queues_linux_update [OF assms(1) lt q(2,3) this] show ?thesis .
qed

lemma close_queue_linux_wf:
  assumes "wf_queues_linux Q" and "close_queue_linux os Q k qid = Inr (Q', k')"
  shows "wf_queues_linux Q'"
proof -
  let ?i = "unat qid - 1"
  from assms(2) have lt: "?i < MAX_QUEUES"
    and q: "lqueues Q' = (lqueues Q)[?i := no_queue_linux]"
      "lqueues_ids Q' = (lqueues_ids Q)[?i := no_thread_linux]"
    by (auto simp: close_queue_linux_def assert_that_eq_Inr Let_def)
  have "wf_entry_linux Q' ?i"
    using q lt assms(1) by (simp add: wf_entry_linux_def queue_in_use_linux_def wf_queues_linux_def
        no_queue_linux_def no_thread_linux_def)
  from wf_queues_linux_update [OF assms(1) lt q this] show ?thesis .
qed

lemma elements_on_queue_linux_wf:
  assumes "wf_queues_linux Q" and "elements_on_queue_linux os Q k qid = Inr (n, Q')"
  shows "wf_queues_linux Q'"
proof -
  let ?i = "unat qid - 1"
  from assms(2) obtain a where lt: "?i < MAX_QUEUES"
    and q: "lqueues Q' = (lqueues Q)[?i := (lqueues Q ! ?i)\<lparr>lattr := a\<rparr>]"
      "lqueues_ids Q' = lqueues_ids Q"
    by (auto simp: elements_on_queue_linux_def assert_that_eq_Inr Let_def)
  from q(2) have ids: "lqueues_ids Q' = (lqueues_ids Q)[?i := lqueues_ids Q ! ?i]" by simp
  have "wf_entry_linux Q ?i" using assms(1) lt by (simp add: wf_queues_linux_def)
  then have "wf_entry_linux Q' ?i"
    using q lt assms(1)
    by (auto simp: wf_entry_linux_def queue_in_use_linux_def wf_queues_linux_def split: if_splits)
  from wf_queues_linux_update [OF assms(1) lt q(1) ids this] show ?thesis .
qed

lemma end_each_queue_ok:
  assumes "\<forall>q \<in> set qs. lq_name q = None \<longrightarrow> lqueue q = None"
  shows "\<exists>qs' k'. end_each_queue os qs k = Inr (qs', k') \<and> length qs' = length qs \<and>
    (\<forall>q \<in> set qs'. lqueue_id q = 0 \<and> lq_name q = None \<and> lqueue q = None)"
  using assms
proof (induction qs arbitrary: k)
  case (Cons q qs)
  then obtain k1 where "end_queue_linux os q k = Inr (q\<lparr>lqueue_id := 0, lqueue_size := 0,
      lmessage_size := 0, lmsgs_allow := 0, lqueue := None, lq_name := None\<rparr>, k1)"
    by (cases "lqueue q"; cases "lq_name q") (simp_all add: end_queue_linux_def)
  with Cons.IH [of k1] Cons.prems show ?case by auto
qed simp

lemma end_queues_linux_wf:
  assumes "wf_queues_linux Q"
  shows "\<exists>Q' k'. end_queues_linux os Q k = Inr (Q', k') \<and> wf_queues_linux Q'"
proof -
  have entry: "lqueue (lqueues Q ! i) = None" if "i < 10" "lq_name (lqueues Q ! i) = None" for i
    using assms that by (cases "queue_in_use_linux Q i") (simp_all add: wf_queues_linux_def wf_entry_linux_def)
  have "\<forall>q \<in> set (lqueues Q). lq_name q = None \<longrightarrow> lqueue q = None"
    using assms entry by (auto simp: wf_queues_linux_def in_set_conv_nth)
  from end_each_queue_ok [OF this, of os k] obtain qs k' where
    "end_each_queue os (lqueues Q) k = Inr (qs, k')" "length qs = length (lqueues Q)"
    "\<forall>q \<in> set qs. lqueue_id q = 0 \<and> lq_name q = None \<and> lqueue q = None" by blast
  with assms show ?thesis
    by (auto simp: end_queues_linux_def wf_queues_linux_def wf_entry_linux_def queue_in_use_linux_def)
qed

section \<open>The life of the queues\<close>

text \<open>
  What the layers can do with the queues after \<open>init_queues\<close>, in any order, while the kernel
  moves on as it likes (\<open>others\<close>: also the sends and receives, which leave the table alone).
\<close>

inductive linux_queues :: "'k posix \<Rightarrow> IPC_Queues_linux_t \<Rightarrow> 'k \<Rightarrow> bool" for os where
  initialised: "linux_queues os (init_queues_linux static_queues_linux) k"
| created: "linux_queues os Q k \<Longrightarrow> create_queue_linux Q n m allow stack = Inr (i, s, Q') \<Longrightarrow>
    linux_queues os Q' k"
| opened: "linux_queues os Q k \<Longrightarrow> open_queue_linux os Q k qid pid = Inr (r, Q', k') \<Longrightarrow>
    linux_queues os Q' k'"
| closed: "linux_queues os Q k \<Longrightarrow> close_queue_linux os Q k qid = Inr (Q', k') \<Longrightarrow>
    linux_queues os Q' k'"
| counted: "linux_queues os Q k \<Longrightarrow> elements_on_queue_linux os Q k qid = Inr (c, Q') \<Longrightarrow>
    linux_queues os Q' k"
| ended: "linux_queues os Q k \<Longrightarrow> end_queues_linux os Q k = Inr (Q', k') \<Longrightarrow> linux_queues os Q' k'"
| others: "linux_queues os Q k \<Longrightarrow> linux_queues os Q k'"

lemma linux_queues_wf: "linux_queues os Q k \<Longrightarrow> wf_queues_linux Q"
proof (induction rule: linux_queues.induct)
  case (initialised k)
  show ?case by (rule wf_init_queues_linux) (simp_all add: static_queues_linux_def)
next
  case (created Q k n m allow stack i s Q')
  with create_queue_linux_wf [OF created.IH, of n m allow stack] show ?case by auto
next
  case (ended Q k Q' k')
  with end_queues_linux_wf [OF ended.IH, of os k] show ?case by auto
qed (auto intro: open_queue_linux_wf close_queue_linux_wf elements_on_queue_linux_wf)

text \<open>
  C21. In the Linux build the names of the message queues never clash and always fit. Whatever the
  layers created, opened, counted, closed or ended before: no two queues have the same name, so no
  two of them share the messages of one kernel queue; creating a queue writes its name within the
  four bytes allocated for it; and ending all queues unlinks no queue without a name.
\<close>

theorem linux_queue_names:
  assumes "linux_queues os Q k"
  shows "(\<forall>i < MAX_QUEUES. \<forall>j < MAX_QUEUES. i \<noteq> j \<longrightarrow> lq_name (lqueues Q ! i) \<noteq> None \<longrightarrow>
        lq_name (lqueues Q ! i) \<noteq> lq_name (lqueues Q ! j)) \<and>
    (\<exists>i s Q'. create_queue_linux Q n m allow stack = Inr (i, s, Q')) \<and>
    (\<exists>Q' k'. end_queues_linux os Q k = Inr (Q', k'))"
proof -
  note wf = linux_queues_wf [OF assms]
  have names: "lq_name (lqueues Q ! i) \<noteq> lq_name (lqueues Q ! j)"
    if "i < MAX_QUEUES" "j < MAX_QUEUES" "i \<noteq> j" "lq_name (lqueues Q ! i) \<noteq> None" for i j
    using that queue_name_inj [of i j] by (auto simp: wf_queue_name_linux [OF wf] split: if_splits)
  from create_queue_linux_wf [OF wf, of n m allow stack] end_queues_linux_wf [OF wf, of os k]
  show ?thesis using names by blast
qed

end
