(* ===== verification/Ipc_Linux_Delivery.thy ===== *)
theory Ipc_Linux_Delivery
  imports Ipc_Queues_Linux
begin

text \<open>
  Sending and receiving through the Linux queues, over what POSIX promises of \<open>mq_send\<close> and
  \<open>mq_receive\<close>: retries after signals, lost and garbled messages, and the order of the messages
  between two threads by an interpretation of the locale \<open>metered\<close>.
\<close>

section \<open>What POSIX promises\<close>

text \<open>
  A view of the kernel: the messages waiting in the queue of a descriptor, the limits of an open
  queue (how many messages, how many bytes), and how many signals are still to interrupt a send
  or a receive of this program.
\<close>

record 'k mq_view =
  queued :: "'k \<Rightarrow> nat \<Rightarrow> u8 list list"
  limits :: "'k \<Rightarrow> nat \<Rightarrow> (nat \<times> nat) option"
  send_signals :: "'k \<Rightarrow> nat"
  recv_signals :: "'k \<Rightarrow> nat"

definition send_done :: "'k mq_view \<Rightarrow> nat \<Rightarrow> u8 list \<Rightarrow> 'k \<Rightarrow> 'k \<Rightarrow> bool" where
  "send_done v d m k k' \<longleftrightarrow> queued v k' = (queued v k)(d := queued v k d @ [m]) \<and>
     limits v k' = limits v k \<and> send_signals v k' \<le> send_signals v k \<and>
     recv_signals v k' = recv_signals v k"

definition send_interrupted :: "'k mq_view \<Rightarrow> 'k \<Rightarrow> 'k \<Rightarrow> bool" where
  "send_interrupted v k k' \<longleftrightarrow> queued v k' = queued v k \<and> limits v k' = limits v k \<and>
     send_signals v k' < send_signals v k \<and> recv_signals v k' = recv_signals v k"

definition recv_done :: "'k mq_view \<Rightarrow> nat \<Rightarrow> u8 list list \<Rightarrow> 'k \<Rightarrow> 'k \<Rightarrow> bool" where
  "recv_done v d ms k k' \<longleftrightarrow> queued v k' = (queued v k)(d := ms) \<and>
     limits v k' = limits v k \<and> recv_signals v k' \<le> recv_signals v k"

definition recv_interrupted :: "'k mq_view \<Rightarrow> 'k \<Rightarrow> 'k \<Rightarrow> bool" where
  "recv_interrupted v k k' \<longleftrightarrow> queued v k' = queued v k \<and> limits v k' = limits v k \<and>
     recv_signals v k' < recv_signals v k"

text \<open>
  The manual pages \<open>mq_send(3)\<close> and \<open>mq_receive(3)\<close> for messages of one priority: a message that is
  too long, or a buffer that is too short for the queue, is refused with \<open>EMSGSIZE\<close>; otherwise
  the message is appended while there is room, and the oldest message is removed when there is
  one, unless a signal interrupts the call, which then changes no queue.
\<close>

definition posix_queues :: "'k posix \<Rightarrow> 'k mq_view \<Rightarrow> bool" where
  "posix_queues os v \<longleftrightarrow>
     (\<forall>k d m mx lim. limits v k d = Some (mx, lim) \<longrightarrow> lim < length m \<longrightarrow>
        mq_send os k d m 1 = Inr (Some EMSGSIZE, k)) \<and>
     (\<forall>k d m mx lim. limits v k d = Some (mx, lim) \<longrightarrow> length m \<le> lim \<longrightarrow>
        length (queued v k d) < mx \<longrightarrow>
        (\<exists>k'. mq_send os k d m 1 = Inr (None, k') \<and> send_done v d m k k' \<or>
              mq_send os k d m 1 = Inr (Some EINTR, k') \<and> send_interrupted v k k')) \<and>
     (\<forall>k d n mx lim. limits v k d = Some (mx, lim) \<longrightarrow> n < lim \<longrightarrow>
        mq_receive os k d n = Inr (Inl EMSGSIZE, k)) \<and>
     (\<forall>k d n mx lim m ms. limits v k d = Some (mx, lim) \<longrightarrow> lim \<le> n \<longrightarrow> queued v k d = m # ms \<longrightarrow>
        (\<exists>k'. mq_receive os k d n = Inr (Inr m, k') \<and> recv_done v d ms k k' \<or>
              mq_receive os k d n = Inr (Inl EINTR, k') \<and> recv_interrupted v k k'))"

lemma posix_queuesD:
  assumes "posix_queues os v" and "limits v k d = Some (mx, lim)"
  shows "lim < length m \<Longrightarrow> mq_send os k d m 1 = Inr (Some EMSGSIZE, k)"
    and "length m \<le> lim \<Longrightarrow> length (queued v k d) < mx \<Longrightarrow>
      \<exists>k'. mq_send os k d m 1 = Inr (None, k') \<and> send_done v d m k k' \<or>
        mq_send os k d m 1 = Inr (Some EINTR, k') \<and> send_interrupted v k k'"
    and "n < lim \<Longrightarrow> mq_receive os k d n = Inr (Inl EMSGSIZE, k)"
    and "lim \<le> n \<Longrightarrow> queued v k d = x # ms \<Longrightarrow>
      \<exists>k'. mq_receive os k d n = Inr (Inr x, k') \<and> recv_done v d ms k k' \<or>
        mq_receive os k d n = Inr (Inl EINTR, k') \<and> recv_interrupted v k k'"
  using assms by (simp_all add: posix_queues_def)

section \<open>Sending\<close>

text \<open>The loop tries again after every signal and queues the message once.\<close>

lemma mq_send_loop_delivers:
  assumes "posix_queues os v" and "limits v k d = Some (mx, lim)" and "length m \<le> lim"
    and "length (queued v k d) < mx"
  shows "\<exists>k'. mq_send_loop os d m k = Some (Inr k') \<and> send_done v d m k k'"
  using assms(2-)
proof (induction "send_signals v k" arbitrary: k rule: less_induct)
  case less
  from posix_queuesD(2) [OF assms(1) less.prems] obtain k1 where
    "mq_send os k d m 1 = Inr (None, k1) \<and> send_done v d m k k1 \<or>
     mq_send os k d m 1 = Inr (Some EINTR, k1) \<and> send_interrupted v k k1" by blast
  then show ?case
  proof
    assume "mq_send os k d m 1 = Inr (None, k1) \<and> send_done v d m k k1"
    then show ?thesis by (simp add: mq_send_loop.simps)
  next
    assume intr: "mq_send os k d m 1 = Inr (Some EINTR, k1) \<and> send_interrupted v k k1"
    then have "\<exists>k'. mq_send_loop os d m k1 = Some (Inr k') \<and> send_done v d m k1 k'"
      using less.prems by (intro less.hyps) (auto simp: send_interrupted_def)
    then obtain k' where "mq_send_loop os d m k1 = Some (Inr k')" "send_done v d m k1 k'" by blast
    with intr show ?thesis
      by (auto simp: mq_send_loop.simps [of os d m k] send_done_def send_interrupted_def)
  qed
qed

lemma mq_send_loop_too_long:
  assumes "posix_queues os v" and "limits v k d = Some (mx, lim)" and "lim < length m"
  shows "mq_send_loop os d m k = Some (Inr k)"
  using posix_queuesD(1) [OF assms] by (simp add: mq_send_loop.simps)

text \<open>The two queues of a send: that of the caller, and that of the receiving thread.\<close>

definition can_send :: "IPC_Queues_linux_t \<Rightarrow> u32 \<Rightarrow> nat \<Rightarrow> u64 \<Rightarrow> nat \<Rightarrow> bool" where
  "can_send Q qid sz pid d \<longleftrightarrow> 1 \<le> unat qid \<and> unat qid \<le> MAX_QUEUES \<and> pid \<noteq> 0 \<and>
     lqueue_id (lqueues Q ! (unat qid - 1)) \<noteq> 0 \<and> lqueue (lqueues Q ! (unat qid - 1)) \<noteq> None \<and>
     sz \<le> lmessage_size (lqueues Q ! (unat qid - 1)) \<and>
     (case find_index (\<lambda>t. lqt_pid t = pid \<and> lqt_queue_id t = 1) (lqueues_ids Q) of
       None \<Rightarrow> False
     | Some i \<Rightarrow> lqueue_id (lqueues Q ! i) \<noteq> 0 \<and> lqueue (lqueues Q ! i) = Some d)"

lemma length_pid_bytes [simp]: "length (pid_bytes pid) = 8"
  by (simp add: pid_bytes_def)

lemma bytes_pid_bytes [simp]: "bytes_pid (pid_bytes pid @ bs) = pid"
  by (simp add: bytes_pid_def pid_bytes_def byte_simps assemble_u64)

lemma send_message_linux_loop:
  assumes "can_send Q qid sz pid d" and "sz \<le> length msg"
  shows "send_message_linux os Q k qid msg sz pid =
    map_option (\<lambda>r. rbind r (\<lambda>k'. Inr (1, k'))) (mq_send_loop os d (pid_bytes pid @ take sz msg) k)"
proof -
  obtain i where i: "find_index (\<lambda>t. lqt_pid t = pid \<and> lqt_queue_id t = 1) (lqueues_ids Q) = Some i"
    "lqueue_id (lqueues Q ! i) \<noteq> 0" "lqueue (lqueues Q ! i) = Some d"
    using assms(1) by (auto simp: can_send_def split: option.splits)
  with assms show ?thesis
    by (auto simp: send_message_linux_def can_send_def memcpy_def Let_def not_less)
qed

text \<open>
  C19. A send through the Linux queues always ends. However many signals interrupt it, a send to an
  open queue with room returns 1 and leaves exactly one copy of the message, behind the eight bytes
  of the process id, as the last of the receiver's queue; no other queue changes. The size
  is compared with the size of the sender's queue only: when the queue of the receiver takes shorter
  messages, the send returns 1, the value for success, too, and nothing was queued.
\<close>

theorem linux_send_spec:
  assumes "posix_queues os v" and "can_send Q qid sz pid d" and "sz \<le> length msg"
    and "limits v k d = Some (mx, lim)" and "length (queued v k d) < mx"
  shows "\<exists>k'. send_message_linux os Q k qid msg sz pid = Some (Inr (1, k')) \<and>
    (if sz + PID_BYTES \<le> lim
     then queued v k' = (queued v k)(d := queued v k d @ [pid_bytes pid @ take sz msg])
     else k' = k)"
proof (cases "sz + PID_BYTES \<le> lim")
  case True
  then have "length (pid_bytes pid @ take sz msg) \<le> lim" using assms(3) by simp
  from mq_send_loop_delivers [OF assms(1,4) this assms(5)] True show ?thesis
    by (auto simp: send_message_linux_loop [OF assms(2,3)] send_done_def)
next
  case False
  then have "lim < length (pid_bytes pid @ take sz msg)" using assms(3) by simp
  from mq_send_loop_too_long [OF assms(1,4) this] False show ?thesis
    by (simp add: send_message_linux_loop [OF assms(2,3)])
qed

section \<open>Receiving\<close>

definition can_recv :: "IPC_Queues_linux_t \<Rightarrow> u32 \<Rightarrow> nat \<Rightarrow> bool" where
  "can_recv Q qid d \<longleftrightarrow> 1 \<le> unat qid \<and> unat qid \<le> MAX_QUEUES \<and>
     lqueue (lqueues Q ! (unat qid - 1)) = Some d"

lemma recv_message_linux_ok:
  assumes "can_recv Q qid d" and "0 < sz" and "mq_receive os k d (sz + 8) = Inr (Inr m, k')"
    and "length m = sz + 8" and "sz \<le> length msg"
  shows "recv_message_linux os junk Q k qid msg sz pid =
    Inr (1, drop 8 m @ drop sz msg, bytes_pid m, k')"
  using assms by (simp add: recv_message_linux_def can_recv_def memcpy_def Let_def not_less)

text \<open>
  C20. A receive that a signal interrupts returns garbage. The second attempt passes \<open>size\<close> in
  place of \<open>size + 8\<close>, which POSIX refuses for a queue made for messages of \<open>size\<close> bytes; the
  refusal is not looked at. The call returns 1, as if it had received: the caller gets the bytes
  that were in the fresh buffer, for the message and for the process id, and the message that was
  waiting is still in the queue.
\<close>

theorem linux_interrupted_receive:
  assumes "posix_queues os v" and "can_recv Q qid d" and "0 < sz" and "length msg = sz"
    and "limits v k d = Some (mx, sz + 8)"
    and "mq_receive os k d (sz + 8) = Inr (Inl EINTR, k')" and "recv_interrupted v k k'"
  shows "recv_message_linux os junk Q k qid msg sz pid =
      Inr (1, map junk [8..<sz + 8], bytes_pid (map junk [0..<8]), k') \<and>
    queued v k' = queued v k"
proof -
  have "limits v k' d = Some (mx, sz + 8)" using assms(5,7) by (simp add: recv_interrupted_def)
  from posix_queuesD(3) [OF assms(1) this, of sz] have "mq_receive os k' d sz = Inr (Inl EMSGSIZE, k')"
    by simp
  moreover have "bytes_pid (map junk [0..<sz + 8]) = bytes_pid (map junk [0..<8])"
    by (simp add: bytes_pid_def)
  ultimately show ?thesis
    using assms by (simp add: recv_message_linux_def can_recv_def memcpy_def Let_def not_less
        recv_interrupted_def drop_map del: upt_Suc)
qed

section \<open>Messages between two threads\<close>

text \<open>
  A link from one thread to another in the Linux build: the number of the sender's queue, the process
  id of the receiver and the number of its queue. A send that does not return is \<open>Blocked\<close>.
  The receiver gets its own process id, not that of the sender: \<open>send_message\<close> writes its
  argument \<open>pid\<close>, the destination, in front of the message.
\<close>

record link_linux =
  lsender_queue :: u32
  lreceiver :: u64
  lreceiver_queue :: u32

definition returned :: "'a result option \<Rightarrow> 'a result" where
  "returned r = (case r of None \<Rightarrow> Inl Blocked | Some x \<Rightarrow> x)"

definition link_send_linux ::
    "'k posix \<Rightarrow> link_linux \<Rightarrow> u8 list \<Rightarrow> IPC_Queues_linux_t \<times> 'k \<Rightarrow>
     (IPC_Queues_linux_t \<times> 'k) result" where
  "link_send_linux os l msg = (\<lambda>(Q, k).
     rbind (returned (send_message_linux os Q k (lsender_queue l) msg MAX_MESSAGE_SIZE (lreceiver l)))
       (\<lambda>(ret, k'). assert_that (ret = 1) (Inr (Q, k'))))"

definition link_recv_linux ::
    "'k posix \<Rightarrow> (nat \<Rightarrow> u8) \<Rightarrow> link_linux \<Rightarrow> IPC_Queues_linux_t \<times> 'k \<Rightarrow>
     (u8 list \<times> IPC_Queues_linux_t \<times> 'k) result" where
  "link_recv_linux os junk l = (\<lambda>(Q, k).
     rbind (recv_message_linux os junk Q k (lreceiver_queue l) (replicate MAX_MESSAGE_SIZE 0)
              MAX_MESSAGE_SIZE 0)
       (\<lambda>(ret, msg, pid, k'). assert_that (ret = 1 \<and> pid = lreceiver l) (Inr (msg, Q, k'))))"

definition link_descr :: "link_linux \<Rightarrow> IPC_Queues_linux_t \<Rightarrow> nat" where
  "link_descr l Q = the (lqueue (lqueues Q ! (unat (lreceiver_queue l) - 1)))"

text \<open>Both queues are open for full messages, and no signal will interrupt a receive.\<close>

definition link_inv_linux ::
    "'k posix \<Rightarrow> 'k mq_view \<Rightarrow> link_linux \<Rightarrow> nat \<Rightarrow> IPC_Queues_linux_t \<times> 'k \<Rightarrow> bool" where
  "link_inv_linux os v l cap = (\<lambda>(Q, k).
     posix_queues os v \<and>
     can_send Q (lsender_queue l) MAX_MESSAGE_SIZE (lreceiver l) (link_descr l Q) \<and>
     can_recv Q (lreceiver_queue l) (link_descr l Q) \<and>
     limits v k (link_descr l Q) = Some (cap, MAX_MESSAGE_SIZE + PID_BYTES) \<and> recv_signals v k = 0 \<and>
     (\<forall>m \<in> set (queued v k (link_descr l Q)). \<exists>body.
        m = pid_bytes (lreceiver l) @ body \<and> length body = MAX_MESSAGE_SIZE))"

definition link_items_linux ::
    "'k mq_view \<Rightarrow> link_linux \<Rightarrow> IPC_Queues_linux_t \<times> 'k \<Rightarrow> u8 list list" where
  "link_items_linux v l = (\<lambda>(Q, k). map (drop PID_BYTES) (queued v k (link_descr l Q)))"

lemma link_send_linux_ok:
  assumes "link_inv_linux os v l cap (Q, k)" and "length msg = 256"
    and "length (queued v k (link_descr l Q)) < cap"
  shows "\<exists>k'. link_send_linux os l msg (Q, k) = Inr (Q, k') \<and>
    send_done v (link_descr l Q) (pid_bytes (lreceiver l) @ msg) k k'"
proof -
  note inv = assms(1) [unfolded link_inv_linux_def prod.case]
  have os: "posix_queues os v" and send: "can_send Q (lsender_queue l) 256 (lreceiver l) (link_descr l Q)"
    and lim: "limits v k (link_descr l Q) = Some (cap, 264)" using inv by simp_all
  have "length (pid_bytes (lreceiver l) @ msg) \<le> 264" using assms(2) by simp
  from mq_send_loop_delivers [OF os lim this assms(3)] obtain k' where
    "mq_send_loop os (link_descr l Q) (pid_bytes (lreceiver l) @ msg) k = Some (Inr k')"
    "send_done v (link_descr l Q) (pid_bytes (lreceiver l) @ msg) k k'" by blast
  with send_message_linux_loop [OF send, of msg os k] assms(2) show ?thesis
    by (simp add: link_send_linux_def returned_def)
qed

lemma link_recv_linux_ok:
  assumes "link_inv_linux os v l cap (Q, k)"
    and "queued v k (link_descr l Q) = (pid_bytes (lreceiver l) @ body) # ms"
  shows "\<exists>k'. link_recv_linux os junk l (Q, k) = Inr (body, Q, k') \<and>
    recv_done v (link_descr l Q) ms k k'"
proof -
  note inv = assms(1) [unfolded link_inv_linux_def prod.case]
  have os: "posix_queues os v" and recv: "can_recv Q (lreceiver_queue l) (link_descr l Q)"
    and lim: "limits v k (link_descr l Q) = Some (cap, 264)" using inv by simp_all
  have body: "length body = 256" using inv assms(2) by auto
  have quiet: "\<not> recv_interrupted v k k'" for k' using inv by (simp add: recv_interrupted_def)
  from posix_queuesD(4) [OF os lim, of 264] assms(2) quiet obtain k' where
    "mq_receive os k (link_descr l Q) 264 = Inr (Inr (pid_bytes (lreceiver l) @ body), k')"
    "recv_done v (link_descr l Q) ms k k'" by auto
  with recv_message_linux_ok [OF recv, of 256 os k "pid_bytes (lreceiver l) @ body" k'
      "replicate 256 0" junk 0] body
  show ?thesis by (simp add: link_recv_linux_def)
qed

text \<open>The Linux link keeps the contract of a queue, and an insertion uses up nothing.\<close>

interpretation linux: metered "link_send_linux os l" "link_recv_linux os junk l" "link_items_linux v l"
  "\<lambda>_. 0" cap "\<lambda>msg. length msg = MAX_MESSAGE_SIZE" "link_inv_linux os v l cap" 0
  for os junk v l cap
proof unfold_locales
  fix s :: "IPC_Queues_linux_t \<times> 'a" and x :: "u8 list"
  obtain Q k where s: "s = (Q, k)" by (cases s)
  assume inv: "link_inv_linux os v l cap s" and len: "length x = MAX_MESSAGE_SIZE"
    and cap: "length (link_items_linux v l s) < cap"
  have "length (queued v k (link_descr l Q)) < cap" using cap by (simp add: link_items_linux_def s)
  from link_send_linux_ok [OF inv [unfolded s] _ this, of x] len obtain k' where
    send: "link_send_linux os l x (Q, k) = Inr (Q, k')"
    and k': "send_done v (link_descr l Q) (pid_bytes (lreceiver l) @ x) k k'" by auto
  have "link_inv_linux os v l cap (Q, k')"
    using inv k' len by (auto simp: link_inv_linux_def s send_done_def)
  moreover have "link_items_linux v l (Q, k') = link_items_linux v l s @ [x]"
    using k' by (simp add: link_items_linux_def s send_done_def)
  ultimately show "\<exists>s'. link_send_linux os l x s = Inr s' \<and> link_inv_linux os v l cap s' \<and>
      link_items_linux v l s' = link_items_linux v l s @ [x] \<and> (0::nat) = 0 + 0"
    using send s by auto
next
  fix s :: "IPC_Queues_linux_t \<times> 'a" and x :: "u8 list" and xs
  obtain Q k where s: "s = (Q, k)" by (cases s)
  assume inv: "link_inv_linux os v l cap s" and items: "link_items_linux v l s = x # xs"
  then obtain m ms where ms: "queued v k (link_descr l Q) = m # ms" "x = drop 8 m" "xs = map (drop 8) ms"
    by (auto simp: link_items_linux_def s)
  with inv have m: "m = pid_bytes (lreceiver l) @ x" by (auto simp: link_inv_linux_def s)
  from link_recv_linux_ok [OF inv [unfolded s] ms(1) [unfolded m]] obtain k' where
    recv: "link_recv_linux os junk l (Q, k) = Inr (x, Q, k')"
    and k': "recv_done v (link_descr l Q) ms k k'" by blast
  have "link_inv_linux os v l cap (Q, k')"
    using inv k' ms by (auto simp: link_inv_linux_def s recv_done_def)
  moreover have "link_items_linux v l (Q, k') = xs"
    using k' ms by (simp add: link_items_linux_def recv_done_def)
  ultimately show "\<exists>s'. link_recv_linux os junk l s = Inr (x, s') \<and> link_inv_linux os v l cap s' \<and>
      link_items_linux v l s' = xs \<and> (0::nat) = 0"
    using recv s by auto
qed

text \<open>
  C18. Messages arrive complete and in order in the Linux build too. For any interleaving of sends
  and receives that never receives from an empty queue nor overfills it, and any number of signals
  that interrupt sends but none that interrupts a receive: every call succeeds, the receiver gets
  the bytes of the messages in the order they were sent, and what was not received is still
  queued. There is no bound on the number of messages, unlike in the RIOT build. With every
  message the receiver gets its own process id instead of the sender's.
\<close>

theorem linux_messages_in_order:
  assumes "link_inv_linux os v l cap s"
    and "\<forall>msg \<in> set (inserted ops). length msg = MAX_MESSAGE_SIZE"
    and "feasible cap (length (link_items_linux v l s)) ops"
    and "length (link_items_linux v l s) \<le> cap"
  shows "\<exists>received s'.
    run_queue (link_send_linux os l) (link_recv_linux os junk l) ops s = Inr (received, s') \<and>
    link_inv_linux os v l cap s' \<and>
    received @ link_items_linux v l s' = link_items_linux v l s @ inserted ops"
  using linux.run_metered [OF assms(1,2) _ assms(3,4)] by fastforce

section \<open>A kernel\<close>

text \<open>
  A kernel that is nothing but its message queues, numbered in the order they were created; the
  next signals interrupt the next sends and receives.
\<close>

record mq_kernel =
  mk_queued :: "nat \<Rightarrow> u8 list list"
  mk_limits :: "nat \<Rightarrow> (nat \<times> nat) option"
  mk_names :: "string \<Rightarrow> nat option"
  mk_next :: nat
  mk_send_signals :: nat
  mk_recv_signals :: nat

definition mk_open :: "mq_kernel \<Rightarrow> string \<Rightarrow> mq_attr option \<Rightarrow> (errno + nat) \<times> mq_kernel" where
  "mk_open k name attr =
     (case mk_names k name of
       Some d \<Rightarrow> (Inr d, k)
     | None \<Rightarrow>
         (case attr of
           None \<Rightarrow> (Inl Other_error, k)
         | Some a \<Rightarrow>
             (let d = mk_next k
              in (Inr d, k\<lparr>mk_names := (mk_names k)(name := Some d), mk_next := Suc d,
                    mk_limits := (mk_limits k)(d := Some (mq_maxmsg a, mq_msgsize a)),
                    mk_queued := (mk_queued k)(d := [])\<rparr>))))"

definition mk_send ::
    "mq_kernel \<Rightarrow> nat \<Rightarrow> u8 list \<Rightarrow> nat \<Rightarrow> (errno option \<times> mq_kernel) result" where
  "mk_send k d m priority =
     (case mk_limits k d of
       None \<Rightarrow> Inr (Some EBADF, k)
     | Some (mx, lim) \<Rightarrow>
         (if lim < length m then Inr (Some EMSGSIZE, k)
          else if 0 < mk_send_signals k
          then Inr (Some EINTR, k\<lparr>mk_send_signals := mk_send_signals k - 1\<rparr>)
          else if length (mk_queued k d) < mx
          then Inr (None, k\<lparr>mk_queued := (mk_queued k)(d := mk_queued k d @ [m])\<rparr>)
          else Inl Blocked))"

definition mk_receive :: "mq_kernel \<Rightarrow> nat \<Rightarrow> nat \<Rightarrow> ((errno + u8 list) \<times> mq_kernel) result" where
  "mk_receive k d n =
     (case mk_limits k d of
       None \<Rightarrow> Inr (Inl EBADF, k)
     | Some (mx, lim) \<Rightarrow>
         (if n < lim then Inr (Inl EMSGSIZE, k)
          else if 0 < mk_recv_signals k
          then Inr (Inl EINTR, k\<lparr>mk_recv_signals := mk_recv_signals k - 1\<rparr>)
          else (case mk_queued k d of
              [] \<Rightarrow> Inl Blocked
            | m # ms \<Rightarrow> Inr (Inr m, k\<lparr>mk_queued := (mk_queued k)(d := ms)\<rparr>))))"

definition mk_posix :: "mq_kernel posix" where
  "mk_posix =
     \<lparr>mq_open = mk_open,
      mq_close = (\<lambda>k d. k\<lparr>mk_limits := (mk_limits k)(d := None)\<rparr>),
      mq_unlink = (\<lambda>k name. k\<lparr>mk_names := (mk_names k)(name := None)\<rparr>),
      mq_send = mk_send, mq_receive = mk_receive,
      mq_getattr = (\<lambda>k d. map_option (\<lambda>(mx, lim).
        \<lparr>mq_maxmsg = mx, mq_msgsize = lim, mq_curmsgs = length (mk_queued k d)\<rparr>) (mk_limits k d))\<rparr>"

definition mk_view :: "mq_kernel mq_view" where
  "mk_view = \<lparr>queued = mk_queued, limits = mk_limits, send_signals = mk_send_signals,
     recv_signals = mk_recv_signals\<rparr>"

lemma mk_posix_queues: "posix_queues mk_posix mk_view"
  by (auto simp: posix_queues_def mk_posix_def mk_view_def mk_send_def mk_receive_def send_done_def
      send_interrupted_def recv_done_def recv_interrupted_def)

definition mk_start :: "nat \<Rightarrow> nat \<Rightarrow> mq_kernel" where
  "mk_start ss rs = \<lparr>mk_queued = (\<lambda>_. []), mk_limits = (\<lambda>_. None), mk_names = (\<lambda>_. None), mk_next = 3,
     mk_send_signals = ss, mk_recv_signals = rs\<rparr>"

text \<open>
  Two queues, for messages of 256 and of \<open>n\<close> bytes, as \<open>create_queue\<close> and \<open>open_queue\<close> leave them for
  threads 17 and 18, and the kernel after that.
\<close>

definition two_linux_queues :: "nat \<Rightarrow> IPC_Queues_linux_t" where
  "two_linux_queues n =
     \<lparr>lqueues =
        \<lparr>lqueue_id = 1, lqueue = Some 3, lattr = \<lparr>mq_maxmsg = 10, mq_msgsize = 264, mq_curmsgs = 0\<rparr>,
         lq_name = Some ''/1'', lqueue_size = 16, lmessage_size = 256, lmsgs_allow = 10\<rparr> #
        \<lparr>lqueue_id = 2, lqueue = Some 4, lattr = \<lparr>mq_maxmsg = 10, mq_msgsize = n + 8, mq_curmsgs = 0\<rparr>,
         lq_name = Some ''/2'', lqueue_size = 16, lmessage_size = n, lmsgs_allow = 10\<rparr> #
        replicate 8 no_queue_linux,
      lqueues_ids = \<lparr>lqt_queue_id = 1, lqt_pid = 17\<rparr> # \<lparr>lqt_queue_id = 1, lqt_pid = 18\<rparr> #
        replicate 8 no_thread_linux\<rparr>"

definition two_queues_kernel :: "nat \<Rightarrow> mq_kernel \<Rightarrow> mq_kernel" where
  "two_queues_kernel n k =
     k\<lparr>mk_names := (mk_names k)(''/1'' := Some 3, ''/2'' := Some 4), mk_next := 5,
       mk_limits := (mk_limits k)(3 := Some (10, 264), 4 := Some (10, n + 8)),
       mk_queued := (mk_queued k)(3 := [], 4 := [])\<rparr>"

lemma queue_name_1_2: "queue_name 1 = ''/1''" "queue_name 2 = ''/2''"
  by code_simp+

lemma init_static_linux:
  "init_queues_linux static_queues_linux =
    \<lparr>lqueues = replicate 10 no_queue_linux, lqueues_ids = replicate 10 no_thread_linux\<rparr>"
  by (simp add: init_queues_linux_def static_queues_linux_def no_queue_linux_def no_thread_linux_def)

lemma replicate_8: "replicate 8 x = [x, x, x, x, x, x, x, x]"
  by (simp add: numeral_eq_Suc)

lemma two_linux_queues_made:
  assumes "n \<le> 256"
  shows "rbind (create_queue_linux (init_queues_linux static_queues_linux) 16 256 10 None) (\<lambda>(i, _, Q).
     rbind (create_queue_linux Q 16 n 10 None) (\<lambda>(j, _, Q).
     rbind (open_queue_linux mk_posix Q (mk_start ss rs) i 17) (\<lambda>(_, Q, k).
     rbind (open_queue_linux mk_posix Q k j 18) (\<lambda>(_, Q, k). Inr (Q, k))))) =
    Inr (two_linux_queues n, two_queues_kernel n (mk_start ss rs))"
  using assms
  by (simp add: init_static_linux replicate_10 create_queue_linux_def open_queue_linux_def Let_def
      no_queue_linux_def no_thread_linux_def queue_name_1_2 NAME_BYTES_def mk_posix_def mk_open_def
      mk_start_def two_linux_queues_def two_queues_kernel_def replicate_8)

definition link_17_18 :: link_linux where
  "link_17_18 = \<lparr>lsender_queue = 1, lreceiver = 18, lreceiver_queue = 2\<rparr>"

lemma two_linux_queues_use:
  "can_send (two_linux_queues n) 1 256 18 4" "can_recv (two_linux_queues n) 2 4"
  "link_descr link_17_18 (two_linux_queues n) = 4"
  "limits mk_view (two_queues_kernel n k) 4 = Some (10, n + 8)"
  "queued mk_view (two_queues_kernel n k) 4 = []"
  by (simp_all add: can_send_def can_recv_def link_descr_def link_17_18_def two_linux_queues_def
      two_queues_kernel_def mk_view_def)

lemma link_17_18_inv:
  "link_inv_linux mk_posix mk_view link_17_18 10 (two_linux_queues 256, two_queues_kernel 256 (mk_start ss 0))"
  using two_linux_queues_use [of 256]
  by (simp add: link_inv_linux_def mk_posix_queues link_17_18_def)
    (simp add: mk_view_def two_queues_kernel_def mk_start_def)

lemma linux_queue_names_witness:
  "\<exists>i s Q'. create_queue_linux (init_queues_linux static_queues_linux) 16 256 10 None = Inr (i, s, Q')"
  using linux_queue_names [OF linux_queues.initialised [of mk_posix "mk_start 0 0"], of 16 256 10 None]
  by blast

lemma linux_send_spec_witness:
  "\<exists>k'. send_message_linux mk_posix (two_linux_queues 256) (two_queues_kernel 256 (mk_start 5 0))
      1 (replicate 256 7) 256 18 = Some (Inr (1, k')) \<and>
    mk_queued k' 4 = [pid_bytes 18 @ replicate 256 7]"
  using linux_send_spec [where msg = "replicate 256 7", OF mk_posix_queues
      two_linux_queues_use(1) [of 256] _ two_linux_queues_use(4) [of 256 "mk_start 5 0"]]
    two_linux_queues_use(5) [of 256 "mk_start 5 0"]
  by (auto simp: mk_view_def)

text \<open>One message is waiting and one signal will interrupt the receive.\<close>

definition waiting_kernel :: mq_kernel where
  "waiting_kernel = (two_queues_kernel 256 (mk_start 0 1))
     \<lparr>mk_queued := (\<lambda>_. [])(4 := [pid_bytes 18 @ replicate 256 7])\<rparr>"

lemma linux_interrupted_receive_witness:
  "recv_message_linux mk_posix (\<lambda>_. 0xcd) (two_linux_queues 256) waiting_kernel 2
      (replicate 256 0) 256 0 =
    Inr (1, map (\<lambda>_. 0xcd) [8..<256 + 8], bytes_pid (map (\<lambda>_. 0xcd) [0..<8]),
      waiting_kernel\<lparr>mk_recv_signals := 0\<rparr>)"
  by (rule conjunct1 [OF linux_interrupted_receive [where v = mk_view and mx = 10,
      OF mk_posix_queues two_linux_queues_use(2)]])
    (simp_all add: recv_interrupted_def mk_view_def waiting_kernel_def two_queues_kernel_def
      mk_start_def mk_posix_def mk_receive_def del: upt_Suc upt_rec_numeral)

lemma linux_messages_in_order_witness:
  "\<exists>s'. run_queue (link_send_linux mk_posix link_17_18) (link_recv_linux mk_posix (\<lambda>_. 0) link_17_18)
      [Some (replicate 256 1), Some (replicate 256 2), None, None]
      (two_linux_queues 256, two_queues_kernel 256 (mk_start 3 0)) =
    Inr ([replicate 256 1, replicate 256 2], s')"
proof -
  let ?ops = "[Some (replicate 256 (1 :: u8)), Some (replicate 256 2), None, None]"
  let ?s = "(two_linux_queues 256, two_queues_kernel 256 (mk_start 3 0))"
  have empty: "link_items_linux mk_view link_17_18 ?s = []"
    by (simp add: link_items_linux_def two_linux_queues_use)
  obtain ys s' where run: "run_queue (link_send_linux mk_posix link_17_18)
      (link_recv_linux mk_posix (\<lambda>_. 0) link_17_18) ?ops ?s = Inr (ys, s')"
    "ys @ link_items_linux mk_view link_17_18 s' = [replicate 256 1, replicate 256 2]"
    using linux_messages_in_order [OF link_17_18_inv [of 3], of ?ops "\<lambda>_. 0"] empty by auto
  have "length ys = 2" using run_queue_length [OF run(1)] by simp
  with run(2) have "ys = [replicate 256 1, replicate 256 2]"
    by (cases ys) (auto simp: append_eq_Cons_conv)
  with run(1) show ?thesis by blast
qed

end
