(* ===== verification/Timeouts_Linux.thy ===== *)
theory Timeouts_Linux
  imports Timeouts Complex_Main
begin

text \<open>
  The one-shot timers of \<open>utils/timeouts.c\<close> in their Linux build: the twenty software timeouts over
  one POSIX timer, with times as \<open>struct timespec\<close> and delays as \<open>double\<close> numbers of seconds.

  A \<open>double\<close> is a rational number, and an operation gives the exact result rounded by \<open>rnd\<close>, a
  parameter of the model; \<open>rounding\<close> says what is used of it, which every rounding mode of IEEE 754
  fulfils. No operation here overflows; infinities and NaN are no delays. The conversion to
  \<open>long\<close> cuts the fraction off, as it does for delays below \<open>2 ^ 63\<close> seconds.

  The system calls are arguments: \<open>now\<close> is what \<open>clock_gettime\<close> returned, \<open>None\<close> when it failed;
  \<open>ok\<close> says whether \<open>timer_settime\<close> succeeded. Of the timer the model keeps the value it was last set
  to; zero means that it is disarmed. The signal runs between operations of the API.
\<close>

section \<open>Doubles\<close>

definition rounding :: "(rat \<Rightarrow> rat) \<Rightarrow> bool" where
  "rounding rnd \<longleftrightarrow>
     (\<forall>q r. q \<le> r \<longrightarrow> rnd q \<le> rnd r) \<and>
     (\<forall>n. \<bar>n\<bar> \<le> 2 ^ 53 \<longrightarrow> rnd (of_int n) = of_int n) \<and>
     (\<forall>q. 1 / 10 ^ 12 \<le> \<bar>q\<bar> \<and> \<bar>q\<bar> \<le> 2 \<longrightarrow> \<bar>rnd q - q\<bar> \<le> \<bar>q\<bar> / 2 ^ 52)"

definition to_long :: "rat \<Rightarrow> int" where
  "to_long q = (if 0 \<le> q then \<lfloor>q\<rfloor> else \<lceil>q\<rceil>)"

section \<open>Time\<close>

record timespec =
  tv_sec :: int
  tv_nsec :: int

definition zero_time :: timespec where
  "zero_time = \<lparr>tv_sec = 0, tv_nsec = 0\<rparr>"

definition timespec_diff_linux :: "(rat \<Rightarrow> rat) \<Rightarrow> timespec \<Rightarrow> timespec \<Rightarrow> rat" where
  "timespec_diff_linux rnd after before =
     rnd (rnd (of_int (tv_sec after - tv_sec before)) +
          rnd (rnd (of_int (tv_nsec after - tv_nsec before)) / 10 ^ 9))"

text \<open>The whole seconds and the rest in nanoseconds, cut to their range against rounding errors.\<close>

definition split_seconds :: "(rat \<Rightarrow> rat) \<Rightarrow> rat \<Rightarrow> int \<times> int" where
  "split_seconds rnd seconds =
     (let s = to_long seconds;
          ns = to_long (rnd (1 / 2 + rnd (10 ^ 9 * rnd (seconds - rnd (of_int s)))))
      in (s, if ns < 0 then 0 else if ns > 999999999 then 999999999 else ns))"

definition timespec_add_linux :: "(rat \<Rightarrow> rat) \<Rightarrow> timespec \<Rightarrow> rat \<Rightarrow> timespec" where
  "timespec_add_linux rnd to seconds =
     (if 0 < seconds
      then
        (case split_seconds rnd seconds of (s, ns) \<Rightarrow>
          (let to' = to\<lparr>tv_sec := tv_sec to + s, tv_nsec := tv_nsec to + ns\<rparr>
           in if tv_nsec to' \<ge> 1000000000
              then to'\<lparr>tv_nsec := tv_nsec to' - 1000000000, tv_sec := tv_sec to' + 1\<rparr>
              else to'))
      else to)"

definition timespec_set_linux :: "(rat \<Rightarrow> rat) \<Rightarrow> rat \<Rightarrow> timespec" where
  "timespec_set_linux rnd seconds =
     (if 0 < seconds
      then (case split_seconds rnd seconds of (s, ns) \<Rightarrow> \<lparr>tv_sec = s, tv_nsec = ns\<rparr>)
      else zero_time)"

section \<open>State and operations\<close>

text \<open>A state is an \<open>int\<close> of which three bits are used, kept in a byte as in the RIOT build.\<close>

record timeout_linux_t =
  timer_value :: timespec
  timeout_state_linux :: "u8 list"
  timeout_time_linux :: "timespec list"

definition TIMEOUT_SET_ERROR_linux :: int where
  "TIMEOUT_SET_ERROR_linux = int TIMEOUTS + 1"

definition timeout_passed_linux :: "timeout_linux_t \<Rightarrow> int \<Rightarrow> nat" where
  "timeout_passed_linux t timeout =
     (if timeout < int TIMEOUTS
      then
        (let state = (if 0 \<le> timeout then timeout_state_linux t ! nat timeout else 0)
         in if state AND TIMEOUT_USED = 0 then 2
            else if state AND TIMEOUT_ARMED = 0 then 2
            else if state AND TIMEOUT_PASSED \<noteq> 0 then 1 else 0)
      else 2)"

definition timeout_unset_linux :: "timeout_linux_t \<Rightarrow> int \<Rightarrow> nat \<times> timeout_linux_t" where
  "timeout_unset_linux t timeout =
     (if timeout < int TIMEOUTS
      then
        (let state = (if 0 \<le> timeout then timeout_state_linux t ! nat timeout else 0);
             t' = (if 0 \<le> timeout
               then t\<lparr>timeout_state_linux := (timeout_state_linux t)[nat timeout := state AND TIMEOUT_PASSED]\<rparr>
               else t)
         in (if state AND TIMEOUT_USED = 0 then 2
             else if state AND TIMEOUT_ARMED = 0 then 2
             else if state AND TIMEOUT_PASSED \<noteq> 0 then 1 else 0, t'))
      else (2, t))"

fun next_timeout_linux ::
    "(rat \<Rightarrow> rat) \<Rightarrow> u8 list \<Rightarrow> timespec list \<Rightarrow> timespec \<Rightarrow> nat list \<Rightarrow> rat \<Rightarrow> rat" where
  "next_timeout_linux rnd st tm now [] next = next"
| "next_timeout_linux rnd st tm now (i # is) next =
     next_timeout_linux rnd st tm now is
       (if pending (st ! i)
        then
          (let secs = timespec_diff_linux rnd (tm ! i) now
           in if 0 \<le> secs \<and> secs < next then secs else next)
        else next)"

definition timeout_set_linux ::
    "(rat \<Rightarrow> rat) \<Rightarrow> timespec option \<Rightarrow> bool \<Rightarrow> timeout_linux_t \<Rightarrow> rat \<Rightarrow> int \<times> timeout_linux_t" where
  "timeout_set_linux rnd clock ok t seconds =
     (if seconds \<le> 0 then (TIMEOUT_SET_ERROR_linux, t)
      else
        (case clock of
          None \<Rightarrow> (TIMEOUT_SET_ERROR_linux, t)
        | Some now \<Rightarrow>
            (let when = timespec_add_linux rnd now seconds
             in case claim_timeout (timeout_state_linux t) [0..<TIMEOUTS] of
                 (None, st) \<Rightarrow> (TIMEOUT_SET_ERROR_linux, t\<lparr>timeout_state_linux := st\<rparr>)
               | (Some i, st) \<Rightarrow>
                   (let st1 = st[i := st ! i AND TIMEOUT_USED];
                        tm1 = (timeout_time_linux t)[i := when];
                        st2 = st1[i := st1 ! i OR TIMEOUT_ARMED];
                        next = next_timeout_linux rnd st2 tm1 now [0..<TIMEOUTS] seconds;
                        due = timespec_set_linux rnd next
                    in if ok
                       then (int i, t\<lparr>timer_value := due, timeout_state_linux := st2,
                          timeout_time_linux := tm1\<rparr>)
                       else (TIMEOUT_SET_ERROR_linux, t\<lparr>timeout_state_linux := st2[i := 0],
                          timeout_time_linux := tm1\<rparr>)))))"

fun handle_timeouts_linux ::
    "(rat \<Rightarrow> rat) \<Rightarrow> u8 list \<Rightarrow> timespec list \<Rightarrow> timespec \<Rightarrow> nat list \<Rightarrow> rat \<Rightarrow> u8 list \<times> rat" where
  "handle_timeouts_linux rnd st tm now [] next = (st, next)"
| "handle_timeouts_linux rnd st tm now (i # is) next =
     (if pending (st ! i)
      then
        (let seconds = timespec_diff_linux rnd (tm ! i) now
         in if seconds \<le> 0
            then handle_timeouts_linux rnd (st[i := st ! i OR TIMEOUT_PASSED]) tm now is next
            else if next \<le> 0 \<or> seconds < next
            then handle_timeouts_linux rnd st tm now is seconds
            else handle_timeouts_linux rnd st tm now is next)
      else handle_timeouts_linux rnd st tm now is next)"

text \<open>\<open>from_timer\<close>: the signal was sent by a timer. A failing \<open>timer_settime\<close> goes unnoticed.\<close>

definition timeout_signal_handler_linux ::
    "(rat \<Rightarrow> rat) \<Rightarrow> bool \<Rightarrow> timespec option \<Rightarrow> bool \<Rightarrow> timeout_linux_t \<Rightarrow> timeout_linux_t" where
  "timeout_signal_handler_linux rnd from_timer clock ok t =
     (if \<not> from_timer then t
      else
        (case clock of
          None \<Rightarrow> t
        | Some now \<Rightarrow>
            (case handle_timeouts_linux rnd (timeout_state_linux t) (timeout_time_linux t) now
                [0..<TIMEOUTS] (- 1) of
              (st, next) \<Rightarrow>
                (let due = timespec_set_linux rnd next; t' = t\<lparr>timeout_state_linux := st\<rparr>
                 in if ok then t'\<lparr>timer_value := due\<rparr> else t'))))"

text \<open>The expiry: the timer is disarmed, the signal is sent, and the system calls succeed.\<close>

definition timeout_fire_linux :: "(rat \<Rightarrow> rat) \<Rightarrow> timeout_linux_t \<Rightarrow> timespec \<Rightarrow> timeout_linux_t" where
  "timeout_fire_linux rnd t now =
     timeout_signal_handler_linux rnd True (Some now) True (t\<lparr>timer_value := zero_time\<rparr>)"

text \<open>The arguments are the error numbers of the system calls, 0 for success.\<close>

definition timeout_init_linux :: "nat \<Rightarrow> nat \<Rightarrow> nat \<Rightarrow> nat \<times> timeout_linux_t" where
  "timeout_init_linux sigaction_errno create_errno settime_errno =
     (if sigaction_errno \<noteq> 0 then sigaction_errno
      else if create_errno \<noteq> 0 then create_errno
      else settime_errno,
      \<lparr>timer_value = zero_time, timeout_state_linux = replicate TIMEOUTS 0,
       timeout_time_linux = replicate TIMEOUTS zero_time\<rparr>)"

definition timeout_done_linux ::
    "nat \<Rightarrow> nat \<Rightarrow> nat \<Rightarrow> timeout_linux_t \<Rightarrow> nat \<times> timeout_linux_t" where
  "timeout_done_linux sigaction_errno settime_errno delete_errno t =
     (if sigaction_errno \<noteq> 0 then sigaction_errno
      else if settime_errno \<noteq> 0 then settime_errno
      else delete_errno,
      if settime_errno = 0 \<or> delete_errno = 0 then t\<lparr>timer_value := zero_time\<rparr> else t)"

section \<open>What rounding does to a difference and to a delay\<close>

definition normal :: "timespec \<Rightarrow> bool" where
  "normal ts \<longleftrightarrow> 0 \<le> tv_nsec ts \<and> tv_nsec ts < 10 ^ 9"

text \<open>Nanoseconds.\<close>

definition nsecs :: "timespec \<Rightarrow> int" where
  "nsecs ts = tv_sec ts * 10 ^ 9 + tv_nsec ts"

lemma rounding_mono: "rounding rnd \<Longrightarrow> q \<le> r \<Longrightarrow> rnd q \<le> rnd r"
  unfolding rounding_def by blast

lemma rounding_int: "rounding rnd \<Longrightarrow> \<bar>n\<bar> \<le> 2 ^ 53 \<Longrightarrow> rnd (of_int n) = of_int n"
  unfolding rounding_def by blast

lemma rounding_small [simp]:
  assumes "rounding rnd"
  shows "rnd 0 = 0" "rnd 1 = 1" "rnd (- 1) = - 1"
  using rounding_int [OF assms, of 0] rounding_int [OF assms, of 1] rounding_int [OF assms, of "- 1"]
  by simp_all

lemma rounding_error:
  assumes "rounding rnd" and "1 / 10 ^ 12 \<le> \<bar>q\<bar>" and "\<bar>q\<bar> \<le> 2"
  shows "\<bar>rnd q - q\<bar> \<le> 1 / 10 ^ 14"
proof -
  have "\<bar>rnd q - q\<bar> \<le> \<bar>q\<bar> / 2 ^ 52" using assms unfolding rounding_def by blast
  also have "\<dots> \<le> 2 / 2 ^ 52" using assms(3) by (rule divide_right_mono) simp
  also have "(2 :: rat) / 2 ^ 52 \<le> 1 / 10 ^ 14" by simp
  finally show ?thesis .
qed

text \<open>Rounding a number of at least a nanosecond or so keeps it there.\<close>

lemma rounding_lower:
  assumes "rounding rnd" and "b \<le> q" and "1 / 10 ^ 12 \<le> b" and "b \<le> 2"
  shows "b - 1 / 10 ^ 14 \<le> rnd q"
proof -
  have "0 \<le> b" using assms(3) by (rule order_trans [rotated]) simp
  then have "\<bar>rnd b - b\<bar> \<le> 1 / 10 ^ 14" using assms by (intro rounding_error) simp_all
  moreover have "rnd b \<le> rnd q" by (rule rounding_mono [OF assms(1,2)])
  ultimately show ?thesis by linarith
qed

text \<open>Rounding moves a bound by at most \<open>1 / 10 ^ 14\<close>.\<close>

lemma rounding_near:
  assumes "rounding rnd" and "1 / 10 ^ 12 \<le> \<bar>b\<bar>" and "\<bar>b\<bar> \<le> 2"
  shows "b \<le> q \<Longrightarrow> b - 1 / 10 ^ 14 \<le> rnd q" and "q \<le> b \<Longrightarrow> rnd q \<le> b + 1 / 10 ^ 14"
proof -
  have err: "\<bar>rnd b - b\<bar> \<le> 1 / 10 ^ 14" by (rule rounding_error [OF assms])
  show "b - 1 / 10 ^ 14 \<le> rnd q" if "b \<le> q"
    using rounding_mono [OF assms(1) that] err by linarith
  show "rnd q \<le> b + 1 / 10 ^ 14" if "q \<le> b"
    using rounding_mono [OF assms(1) that] err by linarith
qed

lemma carry_cases:
  assumes "d = x * 1000000000 + y" and "\<bar>y\<bar> \<le> (999999999 :: int)"
  shows "d = 0 \<Longrightarrow> x = 0 \<and> y = 0" and "0 < d \<Longrightarrow> x = 0 \<and> 1 \<le> y \<or> 1 \<le> x"
    and "d < 0 \<Longrightarrow> x = 0 \<and> y \<le> - 1 \<or> x \<le> - 1"
proof -
  consider "x \<le> - 1" | "x = 0" | "1 \<le> x" by linarith
  then have "(d = 0 \<longrightarrow> x = 0 \<and> y = 0) \<and> (0 < d \<longrightarrow> x = 0 \<and> 1 \<le> y \<or> 1 \<le> x) \<and>
    (d < 0 \<longrightarrow> x = 0 \<and> y \<le> - 1 \<or> x \<le> - 1)"
  proof cases
    case 1
    with assms have "d < 0" by linarith
    with 1 show ?thesis by simp
  next
    case 2
    with assms show ?thesis by simp
  next
    case 3
    with assms have "0 < d" by linarith
    with 3 show ?thesis by simp
  qed
  then show "d = 0 \<Longrightarrow> x = 0 \<and> y = 0" and "0 < d \<Longrightarrow> x = 0 \<and> 1 \<le> y \<or> 1 \<le> x"
    and "d < 0 \<Longrightarrow> x = 0 \<and> y \<le> - 1 \<or> x \<le> - 1" by simp_all
qed

text \<open>
  The difference in nanoseconds is rounded only in the quotient and in the sum; each of its two parts
  stays on its side of zero.
\<close>

lemma diff_linux_parts:
  assumes "rounding rnd" and "normal a" "normal b"
  shows "timespec_diff_linux rnd a b =
    rnd (rnd (of_int (tv_sec a - tv_sec b)) + rnd (of_int (tv_nsec a - tv_nsec b) / 10 ^ 9))"
    and "\<bar>tv_nsec a - tv_nsec b\<bar> \<le> 999999999"
proof -
  show dn: "\<bar>tv_nsec a - tv_nsec b\<bar> \<le> 999999999" using assms(2,3) by (auto simp: normal_def)
  have "rnd (of_int (tv_nsec a - tv_nsec b)) = of_int (tv_nsec a - tv_nsec b)"
    by (rule rounding_int [OF assms(1)]) (use dn in simp)
  then show "timespec_diff_linux rnd a b =
    rnd (rnd (of_int (tv_sec a - tv_sec b)) + rnd (of_int (tv_nsec a - tv_nsec b) / 10 ^ 9))"
    by (simp add: timespec_diff_linux_def)
qed

lemma later_sum:
  assumes rnd: "rounding rnd" and "x = 0 \<and> 1 \<le> y \<or> 1 \<le> x" and y: "\<bar>y\<bar> \<le> 999999999"
  shows "1 / 10 ^ 9 - 1 / 10 ^ 14 \<le> rnd (of_int x) + rnd (of_int y / 10 ^ 9)"
  using assms(2)
proof
  assume xy: "x = 0 \<and> 1 \<le> y"
  then have "(1 :: rat) / 10 ^ 9 \<le> of_int y / 10 ^ 9" by (intro divide_right_mono) simp_all
  with rounding_near(1) [OF rnd, of "1 / 10 ^ 9"] xy show ?thesis by (simp add: rounding_small [OF rnd])
next
  assume x: "1 \<le> x"
  have "rnd (of_int 1) \<le> rnd (of_int x)"
    by (rule rounding_mono [OF rnd]) (use x in \<open>simp only: of_int_le_iff\<close>)
  then have "1 \<le> rnd (of_int x)" by (simp add: rounding_small [OF rnd])
  moreover have "- 999999999 \<le> y" using y by simp
  then have "(of_int (- 999999999) :: rat) \<le> of_int y" by (simp only: of_int_le_iff)
  then have "(- 999999999 :: rat) / 10 ^ 9 \<le> of_int y / 10 ^ 9" by (intro divide_right_mono) simp_all
  from rounding_near(1) [OF rnd _ _ this]
  have "(- 999999999 :: rat) / 10 ^ 9 - 1 / 10 ^ 14 \<le> rnd (of_int y / 10 ^ 9)" by simp
  ultimately show ?thesis by simp
qed

lemma earlier_sum:
  assumes rnd: "rounding rnd" and "x = 0 \<and> y \<le> - 1 \<or> x \<le> - 1" and y: "\<bar>y\<bar> \<le> 999999999"
  shows "rnd (of_int x) + rnd (of_int y / 10 ^ 9) \<le> - 1 / 10 ^ 9 + 1 / 10 ^ 14"
  using assms(2)
proof
  assume xy: "x = 0 \<and> y \<le> - 1"
  then have "(of_int y :: rat) \<le> of_int (- 1)" by (simp only: of_int_le_iff)
  then have "of_int y / 10 ^ 9 \<le> (- 1 :: rat) / 10 ^ 9" by (intro divide_right_mono) simp_all
  with rounding_near(2) [OF rnd, of "- 1 / 10 ^ 9"] xy show ?thesis by (simp add: rounding_small [OF rnd])
next
  assume x: "x \<le> - 1"
  have "rnd (of_int x) \<le> rnd (of_int (- 1))"
    by (rule rounding_mono [OF rnd]) (use x in \<open>simp only: of_int_le_iff\<close>)
  then have "rnd (of_int x) \<le> - 1" by (simp add: rounding_small [OF rnd])
  moreover have "y \<le> 999999999" using y by simp
  then have "(of_int y :: rat) \<le> of_int 999999999" by (simp only: of_int_le_iff)
  then have "of_int y / 10 ^ 9 \<le> (999999999 :: rat) / 10 ^ 9" by (intro divide_right_mono) simp_all
  from rounding_near(2) [OF rnd _ _ this]
  have "rnd (of_int y / 10 ^ 9) \<le> (999999999 :: rat) / 10 ^ 9 + 1 / 10 ^ 14" by simp
  ultimately show ?thesis by simp
qed

text \<open>The computed difference has the sign of the exact one, and is never near zero but zero.\<close>

lemma diff_sign:
  assumes rnd: "rounding rnd" and norm: "normal a" "normal b"
  shows "nsecs a = nsecs b \<Longrightarrow> timespec_diff_linux rnd a b = 0"
    and "nsecs b < nsecs a \<Longrightarrow> 9 / 10 ^ 10 \<le> timespec_diff_linux rnd a b"
    and "nsecs a < nsecs b \<Longrightarrow> timespec_diff_linux rnd a b < 0"
proof -
  let ?ds = "tv_sec a - tv_sec b" and ?dn = "tv_nsec a - tv_nsec b"
  note parts = diff_linux_parts [OF assms]
  have "nsecs a - nsecs b = ?ds * 1000000000 + ?dn" by (simp add: nsecs_def algebra_simps)
  note carry = carry_cases [OF this parts(2)]
  show "timespec_diff_linux rnd a b = 0" if "nsecs a = nsecs b"
  proof -
    from that carry(1) have "?ds = 0" "?dn = 0" by simp_all
    then show ?thesis by (simp add: timespec_diff_linux_def rounding_small [OF rnd])
  qed
  show "9 / 10 ^ 10 \<le> timespec_diff_linux rnd a b" if "nsecs b < nsecs a"
    using rounding_near(1) [OF rnd _ _ later_sum [OF rnd carry(2) parts(2)]] that
    unfolding parts(1) by simp
  show "timespec_diff_linux rnd a b < 0" if "nsecs a < nsecs b"
    using rounding_near(2) [OF rnd _ _ earlier_sum [OF rnd carry(3) parts(2)]] that
    unfolding parts(1) by simp
qed

text \<open>A delay of about a nanosecond or more does not become zero.\<close>

lemma split_seconds_range:
  assumes "0 < seconds"
  shows "0 \<le> fst (split_seconds rnd seconds)"
    and "0 \<le> snd (split_seconds rnd seconds)" and "snd (split_seconds rnd seconds) < 10 ^ 9"
  using assms by (auto simp: split_seconds_def to_long_def Let_def)

lemma split_seconds_positive:
  assumes rnd: "rounding rnd" and sec: "9 / 10 ^ 10 \<le> seconds"
  shows "0 < fst (split_seconds rnd seconds) \<or> 0 < snd (split_seconds rnd seconds)"
proof (cases "to_long seconds = 0")
  case True
  have "(9 :: rat) / 10 ^ 10 - 1 / 10 ^ 14 \<le> rnd seconds"
    using rounding_near(1) [OF rnd _ _ sec] by simp
  then have "10 ^ 9 * ((9 :: rat) / 10 ^ 10 - 1 / 10 ^ 14) \<le> 10 ^ 9 * rnd seconds"
    by (rule mult_left_mono) simp
  then have "(8 :: rat) / 10 \<le> 10 ^ 9 * rnd seconds" by simp
  with rounding_near(1) [OF rnd, of "8 / 10" "10 ^ 9 * rnd seconds"]
  have "1 / 2 \<le> rnd (10 ^ 9 * rnd seconds)" by simp
  then have "rnd 1 \<le> rnd (1 / 2 + rnd (10 ^ 9 * rnd seconds))"
    by (intro rounding_mono [OF rnd]) simp
  then have "1 \<le> to_long (rnd (1 / 2 + rnd (10 ^ 9 * rnd seconds)))"
    by (simp add: rounding_small [OF rnd] to_long_def le_floor_iff)
  then show ?thesis using True by (simp add: split_seconds_def Let_def rounding_small [OF rnd])
next
  case False
  have "0 < seconds" using sec by (rule less_le_trans [rotated]) simp
  with False have "0 < to_long seconds"
    by (auto simp: to_long_def) linarith
  then show ?thesis by (simp add: split_seconds_def Let_def)
qed

lemma timespec_set_zero:
  assumes "rounding rnd"
  shows "s \<le> 0 \<Longrightarrow> timespec_set_linux rnd s = zero_time"
    and "9 / 10 ^ 10 \<le> s \<Longrightarrow> timespec_set_linux rnd s \<noteq> zero_time"
proof -
  show "timespec_set_linux rnd s \<noteq> zero_time" if "9 / 10 ^ 10 \<le> s"
  proof -
    have "0 < s" using that by (rule less_le_trans [rotated]) simp
    then show ?thesis using split_seconds_positive [OF assms that]
      by (auto simp: timespec_set_linux_def zero_time_def split: prod.splits)
  qed
qed (simp add: timespec_set_linux_def)

lemma timespec_set_normal: "normal (timespec_set_linux rnd s)"
proof (cases "0 < s")
  case True
  with split_seconds_range [OF True, of rnd] show ?thesis
    by (auto simp: timespec_set_linux_def normal_def split: prod.splits)
qed (simp add: timespec_set_linux_def normal_def zero_time_def)

lemma timespec_add_normal: "normal to \<Longrightarrow> normal (timespec_add_linux rnd to s)"
  using split_seconds_range [of s rnd]
  by (cases "0 < s") (auto simp: timespec_add_linux_def normal_def Let_def split: prod.splits)

lemma timespec_add_later:
  assumes "rounding rnd" and "9 / 10 ^ 10 \<le> s"
  shows "nsecs to < nsecs (timespec_add_linux rnd to s)"
proof -
  have pos: "0 < s" using assms(2) by (rule less_le_trans [rotated]) simp
  obtain sec ns where sp: "split_seconds rnd s = (sec, ns)" by fastforce
  from split_seconds_range [OF pos, of rnd] split_seconds_positive [OF assms] sp
  have "0 < sec * 10 ^ 9 + ns" by auto
  with pos sp show ?thesis
    by (simp add: timespec_add_linux_def nsecs_def Let_def algebra_simps)
qed

section \<open>The loops\<close>

lemma claim_timeout_cases:
  assumes "\<forall>i < n. st ! i \<in> {0, 3, 4, 7}"
  obtains (full) "claim_timeout st [0..<n] = (None, st)"
  | (free) k where "k < n" "st ! k \<in> {0, 4}" "claim_timeout st [0..<n] = (Some k, st[k := st ! k OR TIMEOUT_USED])"
proof (cases "\<exists>i < n. st ! i \<in> {0, 4}")
  case True
  then obtain k where k: "k < n" "st ! k \<in> {0, 4}" "\<forall>i < k. \<not> (i < n \<and> st ! i \<in> {0, 4})"
    using exists_least_iff [of "\<lambda>i. i < n \<and> st ! i \<in> {0, 4}"] by blast
  moreover have "\<forall>i < k. st ! i \<in> {3, 7}"
  proof (intro allI impI)
    fix i assume "i < k"
    with k(1) have "i < n" by simp
    with assms k(3) \<open>i < k\<close> have "st ! i \<in> {0, 3, 4, 7}" "st ! i \<notin> {0, 4}" by blast+
    then show "st ! i \<in> {3, 7}" by simp
  qed
  ultimately show ?thesis using free claim_timeout_Some [of k st n] by blast
next
  case False
  then have "\<forall>i \<in> set [0..<n]. st ! i AND TIMEOUT_USED \<noteq> 0"
    using assms by fastforce
  with claim_timeout_None [of "[0..<n]" st] assms show ?thesis using full by auto
qed

lemma next_timeout_linux_min:
  assumes "0 < d"
  shows "0 \<le> next_timeout_linux rnd st tm now ks d"
    and "next_timeout_linux rnd st tm now ks d = d \<or>
      (\<exists>i \<in> set ks. pending (st ! i) \<and> next_timeout_linux rnd st tm now ks d = timespec_diff_linux rnd (tm ! i) now)"
    and "i \<in> set ks \<Longrightarrow> pending (st ! i) \<Longrightarrow> 0 \<le> timespec_diff_linux rnd (tm ! i) now \<Longrightarrow>
      next_timeout_linux rnd st tm now ks d \<le> timespec_diff_linux rnd (tm ! i) now"
proof -
  let ?n = "next_timeout_linux rnd st tm now"
  let ?D = "\<lambda>i. timespec_diff_linux rnd (tm ! i) now"
  have "0 \<le> ?n ks d \<and> ?n ks d \<le> d \<and> (?n ks d = d \<or> (\<exists>i \<in> set ks. pending (st ! i) \<and> ?n ks d = ?D i)) \<and>
      (\<forall>i \<in> set ks. pending (st ! i) \<and> 0 \<le> ?D i \<longrightarrow> ?n ks d \<le> ?D i)" if "0 \<le> d" for d
    using that
  proof (induction ks arbitrary: d)
    case (Cons i ks)
    let ?d = "if pending (st ! i) then (let secs = ?D i in if 0 \<le> secs \<and> secs < d then secs else d) else d"
    have d: "0 \<le> ?d" "?d \<le> d" "pending (st ! i) \<and> 0 \<le> ?D i \<longrightarrow> ?d \<le> ?D i"
      "?d = d \<or> pending (st ! i) \<and> ?d = ?D i"
      using Cons.prems by (auto simp: Let_def)
    note IH = Cons.IH [OF d(1)]
    have n: "?n (i # ks) d = ?n ks ?d" by simp
    from IH d show ?case unfolding n by (auto intro: order_trans)
  qed simp
  from this [of d] assms show "0 \<le> ?n ks d"
    and "?n ks d = d \<or> (\<exists>i \<in> set ks. pending (st ! i) \<and> ?n ks d = ?D i)"
    and "i \<in> set ks \<Longrightarrow> pending (st ! i) \<Longrightarrow> 0 \<le> ?D i \<Longrightarrow> ?n ks d \<le> ?D i" by auto
qed

lemma handle_timeouts_linux_state:
  "distinct is \<Longrightarrow> \<forall>i \<in> set is. i < length st \<Longrightarrow>
    length (fst (handle_timeouts_linux rnd st tm now is d)) = length st \<and>
    (\<forall>j. fst (handle_timeouts_linux rnd st tm now is d) ! j =
      (if j \<in> set is \<and> pending (st ! j) \<and> timespec_diff_linux rnd (tm ! j) now \<le> 0
       then st ! j OR TIMEOUT_PASSED else st ! j))"
proof (induction "is" arbitrary: st d)
  case (Cons i "is")
  let ?st = "st[i := st ! i OR TIMEOUT_PASSED]"
  have "\<forall>j \<in> set is. j < length ?st" "\<forall>j \<in> set is. ?st ! j = st ! j"
    using Cons.prems by (auto simp: nth_list_update)
  then show ?case
    using Cons.prems Cons.IH [of ?st d] Cons.IH [of st d]
      Cons.IH [of st "timespec_diff_linux rnd (tm ! i) now"]
    by (auto simp: Let_def nth_list_update)
qed simp

text \<open>The delay the handler ends with: that of a timeout in the future, if there is any.\<close>

lemma handle_timeouts_linux_next:
  assumes "distinct is"
  shows "(d \<le> 0 \<and> (\<forall>i \<in> set is. pending (st ! i) \<longrightarrow> timespec_diff_linux rnd (tm ! i) now \<le> 0) \<longrightarrow>
      snd (handle_timeouts_linux rnd st tm now is d) = d) \<and>
    (0 < d \<or> (\<exists>i \<in> set is. pending (st ! i) \<and> 0 < timespec_diff_linux rnd (tm ! i) now) \<longrightarrow>
      (0 < d \<and> snd (handle_timeouts_linux rnd st tm now is d) = d) \<or>
       (\<exists>i \<in> set is. pending (st ! i) \<and> 0 < timespec_diff_linux rnd (tm ! i) now \<and>
         snd (handle_timeouts_linux rnd st tm now is d) = timespec_diff_linux rnd (tm ! i) now))"
  using assms
proof (induction "is" arbitrary: st d)
  case (Cons i "is")
  let ?D = "\<lambda>i. timespec_diff_linux rnd (tm ! i) now" and ?st = "st[i := st ! i OR TIMEOUT_PASSED]"
  have same: "\<forall>j \<in> set is. ?st ! j = st ! j"
    using Cons.prems by (metis distinct.simps(2) nth_list_update_neq)
  then have "(\<exists>j \<in> set is. pending (?st ! j) \<and> Q j) = (\<exists>j \<in> set is. pending (st ! j) \<and> Q j)"
    "(\<forall>j \<in> set is. pending (?st ! j) \<longrightarrow> Q j) = (\<forall>j \<in> set is. pending (st ! j) \<longrightarrow> Q j)" for Q
    by simp_all
  note same = this [unfolded TIMEOUT_PASSED_def]
  consider (idle) "\<not> pending (st ! i)" | (due) "pending (st ! i)" "?D i \<le> 0"
    | (sooner) "pending (st ! i)" "0 < ?D i" "d \<le> 0 \<or> ?D i < d"
    | (later) "pending (st ! i)" "0 < ?D i" "0 < d" "d \<le> ?D i" by fastforce
  then show ?case
  proof cases
    case idle
    with Cons.IH [of d st] Cons.prems show ?thesis by simp
  next
    case due
    with Cons.IH [of d ?st] Cons.prems show ?thesis by (simp add: Let_def same)
  next
    case sooner
    with Cons.IH [of "?D i" st] Cons.prems show ?thesis by (auto simp: Let_def)
  next
    case later
    with Cons.IH [of d st] Cons.prems show ?thesis by (auto simp: Let_def)
  qed
qed simp

section \<open>Invariant\<close>

definition wf_timeouts_linux :: "timeout_linux_t \<Rightarrow> bool" where
  "wf_timeouts_linux t \<longleftrightarrow>
     length (timeout_state_linux t) = TIMEOUTS \<and> length (timeout_time_linux t) = TIMEOUTS \<and>
     (\<forall>i < TIMEOUTS. timeout_state_linux t ! i \<in> {0, 3, 4, 7}) \<and>
     (\<forall>i < TIMEOUTS. normal (timeout_time_linux t ! i))"

lemma wf_linuxD:
  assumes "wf_timeouts_linux t"
  shows "length (timeout_state_linux t) = 20" "length (timeout_time_linux t) = 20"
    and "i < 20 \<Longrightarrow> timeout_state_linux t ! i \<in> {0, 3, 4, 7}"
    and "i < 20 \<Longrightarrow> normal (timeout_time_linux t ! i)"
  using assms by (simp_all add: wf_timeouts_linux_def)

text \<open>A slot whose timeout runs.\<close>

definition running :: "timeout_linux_t \<Rightarrow> nat \<Rightarrow> bool" where
  "running t i \<longleftrightarrow> i < TIMEOUTS \<and> pending (timeout_state_linux t ! i)"

lemma passed_linux_slot:
  assumes "wf_timeouts_linux t"
  shows "timeout_passed_linux t tid =
    (if 0 \<le> tid \<and> tid < 20
     then (if timeout_state_linux t ! nat tid = 3 then 0 else if timeout_state_linux t ! nat tid = 7 then 1 else 2)
     else 2)"
proof (cases "0 \<le> tid \<and> tid < 20")
  case True
  then have "nat tid < 20" by linarith
  from wf_linuxD(3) [OF assms this] True show ?thesis by (auto simp: timeout_passed_linux_def)
qed (auto simp: timeout_passed_linux_def)

lemma running_linux:
  assumes "wf_timeouts_linux t"
  shows "timeout_passed_linux t tid = 0 \<longleftrightarrow> 0 \<le> tid \<and> running t (nat tid)"
  using wf_linuxD(3) [OF assms, of "nat tid"]
  by (auto simp: passed_linux_slot [OF assms] running_def split: if_splits)

lemma timeout_set_linux_result:
  assumes wf: "wf_timeouts_linux t"
  obtains (error) "timeout_set_linux rnd clock ok t seconds = (TIMEOUT_SET_ERROR_linux, t)"
  | (set) k now where "clock = Some now" "ok" "0 < seconds" "k < 20" "timeout_state_linux t ! k \<in> {0, 4}"
      "timeout_set_linux rnd clock ok t seconds = (int k, t
        \<lparr>timer_value := timespec_set_linux rnd (next_timeout_linux rnd ((timeout_state_linux t)[k := 3])
           ((timeout_time_linux t)[k := timespec_add_linux rnd now seconds]) now [0..<20] seconds),
         timeout_state_linux := (timeout_state_linux t)[k := 3],
         timeout_time_linux := (timeout_time_linux t)[k := timespec_add_linux rnd now seconds]\<rparr>)"
  | (failed) k now where "clock = Some now" "k < 20" "timeout_state_linux t ! k \<in> {0, 4}"
      "timeout_set_linux rnd clock ok t seconds = (TIMEOUT_SET_ERROR_linux, t
        \<lparr>timeout_state_linux := (timeout_state_linux t)[k := 0],
         timeout_time_linux := (timeout_time_linux t)[k := timespec_add_linux rnd now seconds]\<rparr>)"
proof (cases "0 < seconds")
  case False
  with error show ?thesis by (simp add: timeout_set_linux_def)
next
  case pos: True
  show ?thesis
  proof (cases clock)
    case None
    with error pos show ?thesis by (simp add: timeout_set_linux_def)
  next
    case (Some now)
    have "\<forall>i < 20. timeout_state_linux t ! i \<in> {0, 3, 4, 7}" using wf_linuxD(3) [OF wf] by blast
    then show ?thesis
    proof (cases rule: claim_timeout_cases)
      case full
      with error pos Some show ?thesis by (simp add: timeout_set_linux_def del: upt_rec_numeral)
    next
      case (free k)
      have len: "k < length (timeout_state_linux t)" using free(1) wf_linuxD(1) [OF wf] by simp
      have st: "(timeout_state_linux t)[k := (timeout_state_linux t ! k OR 1) AND 1 OR 2] = (timeout_state_linux t)[k := 3]"
        using free(2) by auto
      show ?thesis
        using set [of now k] failed [of now k] pos Some free len st
        by (cases ok) (simp_all add: timeout_set_linux_def Let_def del: upt_rec_numeral)
    qed
  qed
qed

lemma wf_init_linux: "wf_timeouts_linux (snd (timeout_init_linux a b c))"
  by (simp add: wf_timeouts_linux_def timeout_init_linux_def normal_def zero_time_def)

lemma wf_unset_linux:
  assumes "wf_timeouts_linux t"
  shows "wf_timeouts_linux (snd (timeout_unset_linux t tid))"
proof -
  have "state AND 4 \<in> {0, 3, 4, 7}" if "state \<in> {0, 3, 4, 7}" for state :: u8 using that by auto
  with assms show ?thesis
    by (auto simp: wf_timeouts_linux_def timeout_unset_linux_def Let_def nth_list_update)
qed

lemma wf_set_linux:
  assumes wf: "wf_timeouts_linux t" and "\<forall>now. clock = Some now \<longrightarrow> normal now"
  shows "wf_timeouts_linux (snd (timeout_set_linux rnd clock ok t seconds))"
  using wf
proof (cases rule: timeout_set_linux_result [of t rnd clock ok seconds])
  case (set k now)
  with wf assms(2) show ?thesis
    by (auto simp: wf_timeouts_linux_def nth_list_update timespec_add_normal)
next
  case (failed k now)
  with wf assms(2) show ?thesis
    by (auto simp: wf_timeouts_linux_def nth_list_update timespec_add_normal)
qed (use wf in simp)

lemma nsecs_inject:
  assumes "normal a" and "normal b"
  shows "nsecs a = nsecs b \<longleftrightarrow> a = b"
proof
  have "nsecs a - nsecs b = (tv_sec a - tv_sec b) * 1000000000 + (tv_nsec a - tv_nsec b)"
    by (simp add: nsecs_def algebra_simps)
  moreover have "\<bar>tv_nsec a - tv_nsec b\<bar> \<le> 999999999" using assms by (auto simp: normal_def)
  ultimately show "a = b" if "nsecs a = nsecs b"
    using carry_cases(1) [of "nsecs a - nsecs b" "tv_sec a - tv_sec b" "tv_nsec a - tv_nsec b"] that by simp
qed simp

lemma diff_cases:
  assumes "rounding rnd" and "normal a" and "normal b"
  shows "timespec_diff_linux rnd a b \<le> 0 \<longleftrightarrow> nsecs a \<le> nsecs b"
    and "timespec_diff_linux rnd a b = 0 \<longleftrightarrow> a = b"
    and "0 \<le> timespec_diff_linux rnd a b \<Longrightarrow> a \<noteq> b \<Longrightarrow> 9 / 10 ^ 10 \<le> timespec_diff_linux rnd a b"
proof -
  let ?D = "timespec_diff_linux rnd a b"
  have pos: "(0 :: rat) < 9 / 10 ^ 10" by simp
  consider "nsecs a < nsecs b" | "nsecs a = nsecs b" | "nsecs b < nsecs a" by linarith
  then have "(?D \<le> 0 \<longleftrightarrow> nsecs a \<le> nsecs b) \<and> (?D = 0 \<longleftrightarrow> a = b) \<and> (0 \<le> ?D \<and> a \<noteq> b \<longrightarrow> 9 / 10 ^ 10 \<le> ?D)"
  proof cases
    case 1
    with diff_sign(3) [OF assms 1] show ?thesis by auto
  next
    case 2
    with diff_sign(1) [OF assms 2] nsecs_inject [OF assms(2,3)] show ?thesis by simp
  next
    case 3
    from diff_sign(2) [OF assms 3] pos have "0 < ?D" by (rule less_le_trans [rotated])
    with diff_sign(2) [OF assms 3] 3 show ?thesis by auto
  qed
  then show "?D \<le> 0 \<longleftrightarrow> nsecs a \<le> nsecs b" "?D = 0 \<longleftrightarrow> a = b"
    "0 \<le> ?D \<Longrightarrow> a \<noteq> b \<Longrightarrow> 9 / 10 ^ 10 \<le> ?D" by simp_all
qed

text \<open>
  The expiry marks every running timeout whose deadline has come, and programs the timer exactly when
  another one is still running.
\<close>

lemma handled_states:
  assumes rnd: "rounding rnd" and wf: "wf_timeouts_linux t" and now: "normal now"
    and h: "handle_timeouts_linux rnd (timeout_state_linux t) (timeout_time_linux t) now [0..<20] (- 1) = (st', d)"
  shows "length st' = 20"
    and "st' ! i =
      (if running t i \<and> nsecs (timeout_time_linux t ! i) \<le> nsecs now then 7 else timeout_state_linux t ! i)"
proof -
  let ?st = "timeout_state_linux t" and ?tm = "timeout_time_linux t"
  have "\<forall>i \<in> set [0..<20]. i < length ?st" using wf_linuxD(1) [OF wf] by simp
  from handle_timeouts_linux_state [OF distinct_upt this, of rnd ?tm now "- 1"] h
  have s: "length st' = length ?st" "st' ! i =
    (if i \<in> set [0..<20] \<and> pending (?st ! i) \<and> timespec_diff_linux rnd (?tm ! i) now \<le> 0
     then ?st ! i OR TIMEOUT_PASSED else ?st ! i)" for i
    by (simp_all del: upt_rec_numeral set_upt)
  then show "length st' = 20" using wf_linuxD(1) [OF wf] by simp
  show "st' ! i = (if running t i \<and> nsecs (?tm ! i) \<le> nsecs now then 7 else ?st ! i)"
  proof (cases "i < 20 \<and> pending (?st ! i)")
    case True
    then have "?st ! i = 3" using wf_linuxD(3) [OF wf, of i] by auto
    with s(2) [of i] True diff_cases(1) [OF rnd wf_linuxD(4) [OF wf, of i] now] show ?thesis
      by (simp add: running_def)
  next
    case False
    with s(2) [of i] show ?thesis by (auto simp: running_def)
  qed
qed

lemma handled_next:
  assumes rnd: "rounding rnd" and wf: "wf_timeouts_linux t" and now: "normal now"
    and h: "handle_timeouts_linux rnd (timeout_state_linux t) (timeout_time_linux t) now [0..<20] (- 1) = (st', d)"
  shows "timespec_set_linux rnd d \<noteq> zero_time \<longleftrightarrow>
    (\<exists>i. running t i \<and> nsecs now < nsecs (timeout_time_linux t ! i))"
proof -
  let ?st = "timeout_state_linux t" and ?tm = "timeout_time_linux t"
  let ?D = "\<lambda>i. timespec_diff_linux rnd (?tm ! i) now"
  have D: "?D i \<le> 0 \<longleftrightarrow> nsecs (?tm ! i) \<le> nsecs now" "?D i \<noteq> 0 \<Longrightarrow> 0 \<le> ?D i \<Longrightarrow> 9 / 10 ^ 10 \<le> ?D i"
    if "i < 20" for i
    using diff_cases [OF rnd wf_linuxD(4) [OF wf that] now] by auto
  note nxt = handle_timeouts_linux_next [OF distinct_upt [of 0 20], of "- 1" ?st rnd ?tm now, unfolded h snd_conv]
  show ?thesis
  proof (cases "\<exists>i < 20. pending (?st ! i) \<and> 0 < ?D i")
    case True
    then obtain i where "i < 20" "pending (?st ! i)" "0 < ?D i" by blast
    then have "\<exists>i \<in> set [0..<20]. pending (?st ! i) \<and> 0 < ?D i"
      by (intro bexI [of _ i]) (simp_all del: upt_rec_numeral)
    with nxt obtain j where j: "j < 20" "pending (?st ! j)" "0 < ?D j" "d = ?D j"
      by (metis atLeastLessThan_iff not_less set_upt zero_le_one neg_le_0_iff_le)
    then have "9 / 10 ^ 10 \<le> d" using D(2) [of j] by simp
    with timespec_set_zero(2) [OF rnd] have "timespec_set_linux rnd d \<noteq> zero_time" by blast
    moreover have "nsecs now < nsecs (?tm ! j)" using D(1) [of j] j by auto
    ultimately show ?thesis using j(1,2) by (auto simp: running_def)
  next
    case False
    then have "d = - 1" using nxt by (auto simp: not_less)
    with timespec_set_zero(1) [OF rnd, of d] have "timespec_set_linux rnd d = zero_time" by simp
    moreover have "\<not> (running t i \<and> nsecs now < nsecs (?tm ! i))" for i
      using False D(1) [of i] by (auto simp: running_def)
    ultimately show ?thesis by simp
  qed
qed

lemma fire_linux:
  assumes rnd: "rounding rnd" and wf: "wf_timeouts_linux t" and now: "normal now"
  shows "wf_timeouts_linux (timeout_fire_linux rnd t now)"
    and "timeout_state_linux (timeout_fire_linux rnd t now) ! i =
      (if running t i \<and> nsecs (timeout_time_linux t ! i) \<le> nsecs now then 7 else timeout_state_linux t ! i)"
    and "timeout_time_linux (timeout_fire_linux rnd t now) = timeout_time_linux t"
    and "timer_value (timeout_fire_linux rnd t now) \<noteq> zero_time \<longleftrightarrow>
      (\<exists>i. running t i \<and> nsecs now < nsecs (timeout_time_linux t ! i))"
proof -
  let ?st = "timeout_state_linux t" and ?tm = "timeout_time_linux t"
  obtain st' d where h: "handle_timeouts_linux rnd ?st ?tm now [0..<20] (- 1) = (st', d)" by fastforce
  have fire: "timeout_fire_linux rnd t now =
      t\<lparr>timer_value := timespec_set_linux rnd d, timeout_state_linux := st'\<rparr>"
    using h by (simp add: timeout_fire_linux_def timeout_signal_handler_linux_def Let_def del: upt_rec_numeral)
  note st' = handled_states [OF assms h]
  show "wf_timeouts_linux (timeout_fire_linux rnd t now)"
    using wf st' by (auto simp: fire wf_timeouts_linux_def)
  show "timeout_state_linux (timeout_fire_linux rnd t now) ! i =
      (if running t i \<and> nsecs (?tm ! i) \<le> nsecs now then 7 else ?st ! i)"
    and "timeout_time_linux (timeout_fire_linux rnd t now) = ?tm" by (simp_all add: fire st'(2))
  show "timer_value (timeout_fire_linux rnd t now) \<noteq> zero_time \<longleftrightarrow>
      (\<exists>i. running t i \<and> nsecs now < nsecs (?tm ! i))"
    using handled_next [OF assms h] by (simp add: fire)
qed

lemma unset_linux_fields:
  "timer_value (snd (timeout_unset_linux t tid)) = timer_value t"
  "timeout_time_linux (snd (timeout_unset_linux t tid)) = timeout_time_linux t"
  by (simp_all add: timeout_unset_linux_def Let_def)

lemma unset_linux_running:
  assumes "wf_timeouts_linux t" and "running (snd (timeout_unset_linux t tid)) i"
  shows "running t i"
proof (cases "0 \<le> tid \<and> tid < 20 \<and> i = nat tid")
  case True
  then have "i < 20" by linarith
  from wf_linuxD(3) [OF assms(1) this] wf_linuxD(1) [OF assms(1)] assms(2) True \<open>i < 20\<close> show ?thesis
    by (auto simp: running_def timeout_unset_linux_def Let_def)
next
  case False
  with assms(2) show ?thesis
    by (auto simp: running_def timeout_unset_linux_def Let_def nth_list_update split: if_splits)
qed

text \<open>When setting a timeout leaves the timer disarmed.\<close>

lemma set_linux_timer:
  assumes rnd: "rounding rnd" and wf: "wf_timeouts_linux t" and now: "normal now"
    and sec: "1 / 10 ^ 9 \<le> seconds" and k: "k < 20" "timeout_state_linux t ! k \<in> {0, 4}"
  shows "timespec_set_linux rnd (next_timeout_linux rnd ((timeout_state_linux t)[k := 3])
      ((timeout_time_linux t)[k := timespec_add_linux rnd now seconds]) now [0..<20] seconds) = zero_time \<longleftrightarrow>
    (\<exists>i. running t i \<and> timeout_time_linux t ! i = now)"
proof -
  let ?st = "(timeout_state_linux t)[k := 3]"
  let ?when = "timespec_add_linux rnd now seconds"
  let ?tm = "(timeout_time_linux t)[k := ?when]"
  let ?D = "\<lambda>i. timespec_diff_linux rnd (?tm ! i) now"
  let ?n = "next_timeout_linux rnd ?st ?tm now [0..<20] seconds"
  have "(9 :: rat) / 10 ^ 10 \<le> 1 / 10 ^ 9" by simp
  then have low: "9 / 10 ^ 10 \<le> seconds" using sec by (rule order_trans)
  have "(0 :: rat) < 9 / 10 ^ 10" by simp
  then have pos: "0 < seconds" using low by (rule less_le_trans)
  note min = next_timeout_linux_min [OF pos, where rnd = rnd and st = ?st and tm = ?tm and now = now and ks = "[0..<20]"]
  have norm: "normal (?tm ! i)" if "i < 20" for i
    using wf_linuxD(2) [OF wf] wf_linuxD(4) [OF wf that] that timespec_add_normal [OF now, of rnd seconds]
    by (cases "i = k") simp_all
  note D = diff_cases [OF rnd norm now]
  have own: "?tm ! k \<noteq> now"
    using timespec_add_later [OF rnd low, of now] wf_linuxD(2) [OF wf] k(1) by auto
  have slot: "pending (?st ! i) \<longleftrightarrow> i = k \<or> running t i" "i \<noteq> k \<Longrightarrow> ?tm ! i = timeout_time_linux t ! i"
    if "i < 20" for i
    using that wf_linuxD(1) [OF wf] k(1) by (cases "i = k"; simp add: running_def)+
  have notk: "\<not> running t k" using k by (auto simp: running_def)
  show ?thesis
  proof
    assume "\<exists>i. running t i \<and> timeout_time_linux t ! i = now"
    then obtain i where i: "running t i" "timeout_time_linux t ! i = now" "i < 20" by (auto simp: running_def)
    with notk have "i \<noteq> k" by auto
    with i slot [OF i(3)] have "pending (?st ! i)" "?D i = 0" using D(2) [OF i(3)]
      by (simp_all add: running_def)
    with min(3) [where i = i] i(3) have "?n \<le> 0" by simp
    with timespec_set_zero(1) [OF rnd] show "timespec_set_linux rnd ?n = zero_time" by blast
  next
    assume zero: "timespec_set_linux rnd ?n = zero_time"
    show "\<exists>i. running t i \<and> timeout_time_linux t ! i = now"
    proof (rule ccontr)
      assume none: "\<not> (\<exists>i. running t i \<and> timeout_time_linux t ! i = now)"
      have "9 / 10 ^ 10 \<le> ?n"
      proof (cases "?n = seconds")
        case True
        with low show ?thesis by simp
      next
        case False
        with min(2) obtain i where i: "i < 20" "pending (?st ! i)" "?n = ?D i" by auto
        have "?tm ! i \<noteq> now"
        proof (cases "i = k")
          case False
          with slot [OF i(1)] i(2) none show ?thesis by auto
        qed (use own in simp)
        with D(3) [OF i(1)] i(3) min(1) show ?thesis by simp
      qed
      with timespec_set_zero(2) [OF rnd] zero show False by blast
    qed
  qed
qed

section \<open>Runs\<close>

text \<open>
  Calls with a clock that shows a proper time and with delays of at least a nanosecond; \<open>timer_settime\<close>
  may fail in \<open>timeout_set\<close>. The timer expires only when it is armed. No timeout is set at the very
  instant at which another one that runs is due.
\<close>

inductive linux_reach :: "(rat \<Rightarrow> rat) \<Rightarrow> timeout_linux_t \<Rightarrow> bool" for rnd where
  init: "linux_reach rnd (snd (timeout_init_linux a b c))"
| set: "linux_reach rnd t \<Longrightarrow> normal now \<Longrightarrow> 1 / 10 ^ 9 \<le> seconds \<Longrightarrow>
    \<not> (\<exists>i. running t i \<and> timeout_time_linux t ! i = now) \<Longrightarrow>
    linux_reach rnd (snd (timeout_set_linux rnd (Some now) ok t seconds))"
| clock_failed: "linux_reach rnd t \<Longrightarrow> linux_reach rnd (snd (timeout_set_linux rnd None ok t seconds))"
| unset: "linux_reach rnd t \<Longrightarrow> linux_reach rnd (snd (timeout_unset_linux t tid))"
| expired: "linux_reach rnd t \<Longrightarrow> timer_value t \<noteq> zero_time \<Longrightarrow> normal now \<Longrightarrow>
    linux_reach rnd (timeout_fire_linux rnd t now)"

lemma linux_reach_inv:
  assumes "linux_reach rnd t" and rnd: "rounding rnd"
  shows "wf_timeouts_linux t \<and> ((\<exists>i. running t i) \<longrightarrow> timer_value t \<noteq> zero_time)"
  using assms(1)
proof (induction rule: linux_reach.induct)
  case (init a b c)
  have "\<not> running (snd (timeout_init_linux a b c)) i" for i
    by (simp add: running_def timeout_init_linux_def del: replicate_Suc)
  then show ?case by (simp add: wf_init_linux)
next
  case (set t now seconds ok)
  then have wf: "wf_timeouts_linux t" by simp
  from wf have "wf_timeouts_linux (snd (timeout_set_linux rnd (Some now) ok t seconds))"
    by (rule wf_set_linux) (use set.hyps in simp)
  moreover from wf have "(\<exists>i. running (snd (timeout_set_linux rnd (Some now) ok t seconds)) i) \<longrightarrow>
      timer_value (snd (timeout_set_linux rnd (Some now) ok t seconds)) \<noteq> zero_time"
  proof (cases rule: timeout_set_linux_result [of t rnd "Some now" ok seconds])
    case error
    with set.IH show ?thesis by simp
  next
    case (set k n)
    with set_linux_timer [OF rnd wf set.hyps(2,3)] set.hyps(4) show ?thesis by simp
  next
    case (failed k n)
    have "k < length (timeout_state_linux t)" using failed(2) wf_linuxD(1) [OF wf] by simp
    then have "running t i" if "running (t\<lparr>timeout_state_linux := (timeout_state_linux t)[k := 0],
        timeout_time_linux := tm\<rparr>) i" for i tm
      using that by (cases "i = k") (auto simp: running_def nth_list_update split: if_splits)
    with set.IH failed show ?thesis by auto
  qed
  ultimately show ?case ..
next
  case (clock_failed t ok seconds)
  then show ?case by (simp add: timeout_set_linux_def)
next
  case (unset t tid)
  with unset_linux_running [of t tid] show ?case by (auto simp: wf_unset_linux unset_linux_fields)
next
  case (expired t now)
  then have wf: "wf_timeouts_linux t" by simp
  note fire = fire_linux [OF rnd wf expired.hyps(3)]
  have "running t i \<and> nsecs now < nsecs (timeout_time_linux t ! i)" if "running (timeout_fire_linux rnd t now) i" for i
    using that fire(2) [of i] by (auto simp: running_def split: if_splits)
  with fire(1,4) show ?case by blast
qed

section \<open>Properties\<close>

text \<open>
  C24. In the Linux build no timeout is forgotten either, unless one is set at the very instant at
  which another is due. In every run without that, whatever the rounding of the floating point
  delays, a timeout that runs keeps the timer armed; and when the timer expires, the
  timeout has passed if its deadline has come, and else it goes on running with the timer armed again.
\<close>

theorem linux_no_timeout_forgotten:
  assumes "rounding rnd" and "linux_reach rnd t" and "timeout_passed_linux t tid = 0" and "normal now"
  shows "timer_value t \<noteq> zero_time \<and>
    (if nsecs (timeout_time_linux t ! nat tid) \<le> nsecs now
     then timeout_passed_linux (timeout_fire_linux rnd t now) tid = 1
     else timeout_passed_linux (timeout_fire_linux rnd t now) tid = 0 \<and>
       timer_value (timeout_fire_linux rnd t now) \<noteq> zero_time)"
proof -
  from linux_reach_inv [OF assms(2,1)] have wf: "wf_timeouts_linux t"
    and armed: "(\<exists>i. running t i) \<longrightarrow> timer_value t \<noteq> zero_time" by simp_all
  from assms(3) have tid: "0 \<le> tid" "running t (nat tid)" by (simp_all add: running_linux [OF wf])
  then have lt: "tid < 20" by (auto simp: running_def)
  have st: "timeout_state_linux t ! nat tid = 3"
    using tid wf_linuxD(3) [OF wf, of "nat tid"] by (auto simp: running_def)
  note fire = fire_linux [OF assms(1) wf assms(4)]
  show ?thesis
  proof (cases "nsecs (timeout_time_linux t ! nat tid) \<le> nsecs now")
    case True
    with tid lt fire(2) [of "nat tid"] armed show ?thesis by (auto simp: passed_linux_slot [OF fire(1)])
  next
    case False
    with tid(2) have "running t (nat tid) \<and> nsecs now < nsecs (timeout_time_linux t ! nat tid)" by simp
    then have "timer_value (timeout_fire_linux rnd t now) \<noteq> zero_time" unfolding fire(4) by blast
    with False tid lt fire(2) [of "nat tid"] armed st show ?thesis
      by (auto simp: passed_linux_slot [OF fire(1)])
  qed
qed

text \<open>
  C25. A timeout that is set at the very instant at which another one that runs is due disarms the
  timer. The delay till the next timeout is then zero, and \<open>timer_settime\<close> with a zero delay stops
  the timer: both timeouts run, and none of them will ever pass. In every other case the timer is
  armed.
\<close>

theorem linux_set_disarms:
  assumes "rounding rnd" and "wf_timeouts_linux t" and "normal now" and "1 / 10 ^ 9 \<le> seconds"
    and "timeout_set_linux rnd (Some now) True t seconds = (tid, t')" and "tid \<noteq> TIMEOUT_SET_ERROR_linux"
  shows "timeout_passed_linux t' tid = 0 \<and>
    (timer_value t' = zero_time \<longleftrightarrow>
      (\<exists>i. timeout_passed_linux t i = 0 \<and> timeout_time_linux t ! nat i = now)) \<and>
    (\<forall>i. timeout_passed_linux t i = 0 \<longrightarrow> timeout_passed_linux t' i = 0)"
  using assms(2)
proof (cases rule: timeout_set_linux_result [of t rnd "Some now" True seconds])
  case (set k n)
  note wf = assms(2)
  have wf': "wf_timeouts_linux t'"
    using wf_set_linux [OF wf, of "Some now" rnd True seconds] assms(3,5) by simp
  have eq: "tid = int k" "timeout_state_linux t' = (timeout_state_linux t)[k := 3]"
    "timer_value t' = timespec_set_linux rnd (next_timeout_linux rnd ((timeout_state_linux t)[k := 3])
      ((timeout_time_linux t)[k := timespec_add_linux rnd now seconds]) now [0..<20] seconds)"
    using set assms(5) by auto
  have "timer_value t' = zero_time \<longleftrightarrow> (\<exists>i. running t i \<and> timeout_time_linux t ! i = now)"
    unfolding eq(3) by (rule set_linux_timer [OF assms(1-4) set(4,5)])
  moreover have "(\<exists>i. running t i \<and> timeout_time_linux t ! i = now) \<longleftrightarrow>
      (\<exists>i. timeout_passed_linux t i = 0 \<and> timeout_time_linux t ! nat i = now)"
    by (metis nat_int of_nat_0_le_iff running_linux [OF wf])
  moreover have "timeout_passed_linux t' i = 0" if "timeout_passed_linux t i = 0" for i
  proof -
    from that have i: "0 \<le> i" "running t (nat i)" by (simp_all add: running_linux [OF wf])
    with set(5) have "nat i \<noteq> k" by (auto simp: running_def)
    with i have "running t' (nat i)" by (simp add: running_def eq(2))
    with i show ?thesis by (simp add: running_linux [OF wf'])
  qed
  moreover have "timeout_passed_linux t' tid = 0"
    using set(4) wf_linuxD(1) [OF wf] by (simp add: passed_linux_slot [OF wf'] eq(1,2))
  ultimately show ?thesis by blast
qed (use assms(5,6) in simp_all)

text \<open>Rounding down to a multiple of \<open>1 / 2 ^ 100\<close>.\<close>

definition chopped :: "rat \<Rightarrow> rat" where
  "chopped q = of_int \<lfloor>q * 2 ^ 100\<rfloor> / 2 ^ 100"

lemma chopped_rounding: "rounding chopped"
proof -
  let ?B = "2 ^ 100 :: rat"
  have pos: "0 < ?B" by simp
  have "chopped q \<le> chopped r" if "q \<le> r" for q r
  proof -
    have "q * ?B \<le> r * ?B" using that pos by (simp only: mult_le_cancel_right_pos)
    then have "\<lfloor>q * ?B\<rfloor> \<le> \<lfloor>r * ?B\<rfloor>" by (rule floor_mono)
    then show ?thesis unfolding chopped_def using pos
      by (intro divide_right_mono) (simp_all only: of_int_le_iff less_imp_le)
  qed
  moreover have "chopped (of_int n) = of_int n" for n
  proof -
    have "of_int n * ?B = of_int (n * 2 ^ 100)" by simp
    then have "\<lfloor>of_int n * ?B\<rfloor> = n * 2 ^ 100" by (simp only: floor_of_int)
    then show ?thesis by (simp add: chopped_def)
  qed
  moreover have "\<bar>chopped q - q\<bar> \<le> \<bar>q\<bar> / 2 ^ 52" if "1 / 10 ^ 12 \<le> \<bar>q\<bar>" for q
  proof -
    have "chopped q \<le> q" "q - 1 / ?B \<le> chopped q"
    proof -
      have "of_int \<lfloor>q * ?B\<rfloor> \<le> q * ?B" by (rule of_int_floor_le)
      then show "chopped q \<le> q" unfolding chopped_def using pos by (simp only: pos_divide_le_eq)
      have "q * ?B - 1 \<le> of_int \<lfloor>q * ?B\<rfloor>" by linarith
      then have "(q * ?B - 1) / ?B \<le> chopped q" unfolding chopped_def
        by (rule divide_right_mono) simp
      then show "q - 1 / ?B \<le> chopped q" by (simp add: diff_divide_distrib)
    qed
    then have "\<bar>chopped q - q\<bar> \<le> 1 / ?B" by linarith
    also have "\<dots> \<le> (1 / 10 ^ 12) / 2 ^ 52" by simp
    also have "\<dots> \<le> \<bar>q\<bar> / 2 ^ 52" using that by (rule divide_right_mono) simp
    finally show ?thesis .
  qed
  ultimately show ?thesis unfolding rounding_def by blast
qed

text \<open>One timeout runs and is due after five seconds.\<close>

definition one_running :: timeout_linux_t where
  "one_running =
     \<lparr>timer_value = \<lparr>tv_sec = 1, tv_nsec = 0\<rparr>, timeout_state_linux = (replicate TIMEOUTS 0)[0 := 3],
      timeout_time_linux = (replicate TIMEOUTS zero_time)[0 := \<lparr>tv_sec = 5, tv_nsec = 0\<rparr>]\<rparr>"

lemma linux_set_disarms_witness:
  "timer_value (snd (timeout_set_linux chopped (Some \<lparr>tv_sec = 5, tv_nsec = 0\<rparr>) True one_running 1)) = zero_time"
proof -
  let ?now = "\<lparr>tv_sec = 5, tv_nsec = 0\<rparr>"
  have wf: "wf_timeouts_linux one_running"
    by (simp add: wf_timeouts_linux_def one_running_def normal_def zero_time_def nth_list_update)
  obtain tid t' where set: "timeout_set_linux chopped (Some ?now) True one_running 1 = (tid, t')" by fastforce
  have "fst (timeout_set_linux chopped (Some ?now) True one_running 1) = 1"
    by (simp add: timeout_set_linux_def one_running_def Let_def numeral_nat del: next_timeout_linux.simps)
  with set have "tid \<noteq> TIMEOUT_SET_ERROR_linux" by (simp add: TIMEOUT_SET_ERROR_linux_def)
  moreover have "timeout_passed_linux one_running 0 = 0" "timeout_time_linux one_running ! nat 0 = ?now"
    by (simp_all add: timeout_passed_linux_def one_running_def)
  moreover have "normal ?now" by (simp add: normal_def)
  ultimately show ?thesis
    using linux_set_disarms [OF chopped_rounding wf _ _ set] set by auto
qed

lemma linux_no_timeout_forgotten_witness:
  "\<exists>t. linux_reach chopped t \<and> timer_value t \<noteq> zero_time \<and>
     timeout_passed_linux (timeout_fire_linux chopped t \<lparr>tv_sec = 5, tv_nsec = 0\<rparr>) 0 = 0"
proof -
  let ?now = "\<lparr>tv_sec = 5, tv_nsec = 0\<rparr>" and ?init = "snd (timeout_init_linux 0 0 0)"
  let ?t = "snd (timeout_set_linux chopped (Some ?now) True ?init 1)"
  have idle: "\<not> running ?init i" for i
    by (auto simp: running_def timeout_init_linux_def simp del: replicate_Suc)
  have normal: "normal ?now" by (simp add: normal_def)
  have reach: "linux_reach chopped ?t"
    by (rule linux_reach.set [OF linux_reach.init normal]) (use idle in simp_all)
  have fields: "timeout_state_linux ?t ! 0 = 3"
    "timeout_time_linux ?t ! 0 = timespec_add_linux chopped ?now 1"
    by (simp_all add: timeout_set_linux_def timeout_init_linux_def Let_def numeral_nat del: next_timeout_linux.simps)
  have "(9 :: rat) / 10 ^ 10 \<le> 1" by simp
  from timespec_add_later [OF chopped_rounding this, of ?now]
  have later: "\<not> nsecs (timeout_time_linux ?t ! nat 0) \<le> nsecs ?now" using fields(2) by simp
  have "timeout_passed_linux ?t 0 = 0" by (simp add: timeout_passed_linux_def fields(1))
  from linux_no_timeout_forgotten [OF chopped_rounding reach this normal] later reach show ?thesis
    by (intro exI [of _ ?t]) simp
qed

end
