(* ===== verification/Linux_Layer.thy ===== *)
theory Linux_Layer
  imports Linux_Heap Ipc_Linux_Delivery Timeouts_Linux
begin

text \<open>
  The MAC layer in its Linux build, without \<open>NATIVE\<close> and \<open>TESTING\<close>: the life cycle of
  \<open>MAC_Internals.c\<close> and \<open>MCLMAC.c\<close> and the functions of \<open>MCLMAC.c\<close> and \<open>Packets_Handlers.c\<close> that
  allocate, over the heap of theory \<open>Linux_Heap\<close>, the POSIX queues and the Linux timers.

  A structure is read at the beginning of a function and stored at its end: no other pointer of the
  function points to it.
\<close>

section \<open>Life cycle\<close>

definition zero_internals_linux :: MAC_Internals_linux_t where
  "zero_internals_linux =
     \<lparr>li_radio = None, li_ctrlpkt = None, li_ctrlpkt_recv = None, li_frame = None,
      li_selectedSlot = 0, li_transmitChannel = 0, li_receiveChannel = 0, li_cfChannel = 0,
      li_transmitter_id = (0, 0), li_collisionDetected = False, li_is_internal_collision = False,
      li_collisionSlot = 0, li_collisionFrequency = 0, li_cf_message_received = False,
      li_cf_messages = replicate MAX_NUMBER_CF_PACKETS cfpacket_init, li_destination_id = (0, 0),
      li_packets_to_send_message = 0, li_first_send_message = 0, li_last_send_message = 0,
      li_message_packets_to_send = replicate MAX_NUMBER_DATA_PACKETS zero_datapacket_linux,
      li_packets_to_send_control = 0, li_first_send_control = 0, li_last_send_control = 0,
      li_control_packets_to_send = replicate MAX_NUMBER_DATA_PACKETS zero_datapacket_linux,
      li_first_received = 0, li_last_received = 0,
      li_packets_received = replicate (2 * MAX_NUMBER_DATA_PACKETS) zero_datapacket_linux,
      li_number_packets_received = 0\<rparr>"

definition MAC_internals_init_linux ::
    "allocator \<Rightarrow> nat option \<Rightarrow> c_heap \<Rightarrow> (nat option \<times> c_heap) result" where
  "MAC_internals_init_linux al radio h =
     rbind (malloc_zeroed al (Internals_object zero_internals_linux) h) (\<lambda>(mac, h1).
       (let i = zero_internals_linux\<lparr>li_radio := radio, li_ctrlpkt := None\<rparr>
        in case c_malloc al (Frame_object zero_frame) h1 of
             (None, h2) \<Rightarrow>
               rbind (store h2 mac (Internals_object (i\<lparr>li_frame := None\<rparr>))) (\<lambda>h3. Inr (mac, h3))
           | (f, h2) \<Rightarrow>
               rbind (store h2 f (Frame_object zero_frame)) (\<lambda>h3.
               rbind (controlpacket_init_linux al h3) (\<lambda>(c, h4).
               rbind (controlpacket_init_linux al h4) (\<lambda>(r, h5).
               rbind (store h5 mac (Internals_object (i\<lparr>li_frame := f, li_cfChannel := CF_FREQUENCY,
                   li_ctrlpkt := c, li_ctrlpkt_recv := r,
                   li_message_packets_to_send := replicate MAX_NUMBER_DATA_PACKETS zero_datapacket_linux,
                   li_control_packets_to_send := replicate MAX_NUMBER_DATA_PACKETS zero_datapacket_linux,
                   li_packets_received := replicate MAX_NUMBER_DATA_PACKETS zero_datapacket_linux @
                     drop MAX_NUMBER_DATA_PACKETS (li_packets_received i),
                   li_cf_messages := replicate MAX_NUMBER_CF_PACKETS cfpacket_init\<rparr>))) (\<lambda>h6.
                 Inr (mac, h6)))))))"

text \<open>The loops that clear the packets at the given indices of all three arrays.\<close>

fun clear_each_linux ::
    "nat list \<Rightarrow> c_heap \<Rightarrow> MAC_Internals_linux_t \<Rightarrow> (MAC_Internals_linux_t \<times> c_heap) result" where
  "clear_each_linux [] h i = Inr (i, h)"
| "clear_each_linux (k # ks) h i =
     rbind (datapacket_clear_linux h (li_message_packets_to_send i ! k)) (\<lambda>(p, h1).
     rbind (datapacket_clear_linux h1 (li_control_packets_to_send i ! k)) (\<lambda>(q, h2).
     rbind (datapacket_clear_linux h2 (li_packets_received i ! k)) (\<lambda>(r, h3).
       clear_each_linux ks h3
         (i\<lparr>li_message_packets_to_send := (li_message_packets_to_send i)[k := p],
            li_control_packets_to_send := (li_control_packets_to_send i)[k := q],
            li_packets_received := (li_packets_received i)[k := r]\<rparr>))))"

definition clear_packets_linux ::
    "c_heap \<Rightarrow> MAC_Internals_linux_t \<Rightarrow> (MAC_Internals_linux_t \<times> c_heap) result" where
  "clear_packets_linux h i =
     rbind (clear_each_linux [0..<MAX_NUMBER_DATA_PACKETS] h i) (\<lambda>(i', h').
       Inr (i'\<lparr>li_cf_messages := map cfpacket_clear (li_cf_messages i')\<rparr>, h'))"

definition MAC_internals_destroy_linux :: "c_heap \<Rightarrow> nat option \<Rightarrow> (nat option \<times> c_heap) result" where
  "MAC_internals_destroy_linux h ip =
     rbind (load_internals h ip) (\<lambda>i.
     rbind (clear_packets_linux h i) (\<lambda>(i', h1).
     assert_that (ip \<noteq> None)
     (rbind (if li_ctrlpkt i' \<noteq> None then controlpacket_destroy_linux (li_ctrlpkt i') h1
             else Inr (None, h1)) (\<lambda>(_, h2).
      rbind (if li_ctrlpkt_recv i' \<noteq> None then controlpacket_destroy_linux (li_ctrlpkt_recv i') h2
             else Inr (None, h2)) (\<lambda>(_, h3).
      rbind (if li_frame i' \<noteq> None then c_free (li_frame i') h3 else Inr h3) (\<lambda>h4.
      rbind (c_free ip h4) (\<lambda>h5. Inr (None, h5))))))))"

definition MAC_internals_clear_linux :: "c_heap \<Rightarrow> nat option \<Rightarrow> c_heap result" where
  "MAC_internals_clear_linux h ip =
     assert_that (ip \<noteq> None)
     (rbind (load_internals h ip) (\<lambda>i.
      rbind (load_frame h (li_frame i)) (\<lambda>f.
      rbind (store h (li_frame i) (Frame_object (f\<lparr>current_slot := 0, current_frame := 0,
          current_cf_slot := 0, cf_slots_number := 0, slots_number := 0\<rparr>))) (\<lambda>h1.
      rbind (clear_packets_linux h1 (i\<lparr>li_selectedSlot := 0, li_transmitChannel := 0,
          li_receiveChannel := 0, li_cfChannel := 0, li_collisionDetected := False,
          li_collisionSlot := 0, li_collisionFrequency := 0, li_cf_message_received := False\<rparr>)) (\<lambda>(i', h2).
        store h2 ip (Internals_object i'))))))"

definition zero_layer_linux :: MCLMAC_linux_t where
  "zero_layer_linux =
     \<lparr>ll_mac = None, ll_currentState = START, ll_nextState = START, ll_powerMode = STARTP,
      ll_nextPowerMode = STARTP, ll_is_first_node = False, ll_node_id = (0, 0), ll_networkTime = 0,
      ll_nSlots = 0, ll_nChannels = 0, ll_hopCount = 0,
      ll_frequencies = replicate MAX_NUMBER_FREQS 0, ll_occupied_frequencies_slots = zero_bitmap,
      ll_selected_slots_neighbors = replicate SLOT_BYTES 0, ll_wakeup_frame = 0, ll_initTime = 0,
      ll_mac_queue_id = 0, ll_stack = None, ll_routing_queue_id = 0, ll_transport_queue_id = 0,
      ll_app_queue_id = 0, ll_self_pid = 0\<rparr>"

definition MCLMAC_init_linux ::
    "allocator \<Rightarrow> nat option \<Rightarrow> IPC_Queues_linux_t \<Rightarrow> c_heap \<Rightarrow>
     (nat option \<times> IPC_Queues_linux_t \<times> c_heap) result" where
  "MCLMAC_init_linux al radio Q h =
     (case c_malloc al (Layer_object zero_layer_linux) h of
       (None, h1) \<Rightarrow> Inr (None, Q, h1)
     | (p, h1) \<Rightarrow>
         rbind (store h1 p (Layer_object zero_layer_linux)) (\<lambda>h2.
         rbind (MAC_internals_init_linux al radio h2) (\<lambda>(mac, h3).
           (let m = zero_layer_linux\<lparr>ll_mac := mac, ll_node_id := UUID,
                  ll_nChannels := of_nat MAX_NUMBER_FREQS, ll_nSlots := of_nat MAX_NUMBER_SLOTS,
                  ll_hopCount := 0, ll_networkTime := 0, ll_mac_queue_id := 0,
                  ll_routing_queue_id := 0, ll_transport_queue_id := 0, ll_app_queue_id := 0,
                  ll_currentState := START, ll_nextState := NONE,
                  ll_powerMode := STARTP, ll_nextPowerMode := NONEP,
                  ll_occupied_frequencies_slots := zero_bitmap, ll_frequencies := FREQUENCIES\<rparr>
            in rbind (create_queue_linux Q QUEUE_SIZE MAX_MESSAGE_SIZE (of_nat MAX_ELEMENTS_ON_QUEUE)
                        (ll_stack m)) (\<lambda>(qid, stk, Q').
               rbind (store h3 p (Layer_object (m\<lparr>ll_stack := stk, ll_mac_queue_id := qid\<rparr>))) (\<lambda>h4.
                 Inr (p, Q', h4)))))))"

text \<open>What the layer works on: the heap, the queues, the kernel, the timers and \<open>rand()\<close>.\<close>

record 'k linux_node =
  ln_heap :: c_heap
  ln_queues :: IPC_Queues_linux_t
  ln_kernel :: 'k
  ln_timers :: timeout_linux_t
  ln_rand :: "nat \<Rightarrow> nat"

definition close_own_queue ::
    "'k posix \<Rightarrow> u32 \<Rightarrow> IPC_Queues_linux_t \<Rightarrow> 'k \<Rightarrow> (IPC_Queues_linux_t \<times> 'k) result" where
  "close_own_queue os qid Q k = (if qid \<noteq> 0 then close_queue_linux os Q k qid else Inr (Q, k))"

definition MCLMAC_destroy_linux ::
    "'k posix \<Rightarrow> nat option \<Rightarrow> 'k linux_node \<Rightarrow> (nat option \<times> 'k linux_node) result" where
  "MCLMAC_destroy_linux os p n =
     assert_that (p \<noteq> None)
     (rbind (load_layer (ln_heap n) p) (\<lambda>m.
      rbind (MAC_internals_destroy_linux (ln_heap n) (ll_mac m)) (\<lambda>(mac, h1).
      rbind (close_own_queue os (ll_mac_queue_id m) (ln_queues n) (ln_kernel n)) (\<lambda>(Q, k).
      rbind (store h1 p (Layer_object (m\<lparr>ll_mac := mac\<rparr>))) (\<lambda>h2.
      rbind (c_free p h2) (\<lambda>h3.
        Inr (None, n\<lparr>ln_heap := h3, ln_queues := Q, ln_kernel := k\<rparr>)))))))"

definition MCLMAC_clear_linux ::
    "'k posix \<Rightarrow> nat option \<Rightarrow> 'k linux_node \<Rightarrow> 'k linux_node result" where
  "MCLMAC_clear_linux os p n =
     assert_that (p \<noteq> None)
     (rbind (load_layer (ln_heap n) p) (\<lambda>m.
      rbind (MAC_internals_clear_linux (ln_heap n) (ll_mac m)) (\<lambda>h1.
      rbind (close_own_queue os (ll_mac_queue_id m) (ln_queues n) (ln_kernel n)) (\<lambda>(Q, k).
      rbind (store h1 p (Layer_object (m\<lparr>ll_currentState := START, ll_powerMode := STARTP,
          ll_networkTime := 0, ll_hopCount := 0, ll_stack := None, ll_mac_queue_id := 0\<rparr>))) (\<lambda>h2.
        Inr (n\<lparr>ln_heap := h2, ln_queues := Q, ln_kernel := k\<rparr>))))))"

section \<open>Messages between the layers\<close>

text \<open>The pointers every function starts from, \<open>mclmac\<close> and \<open>mclmac->mac\<close>.\<close>

definition with_layer ::
    "nat option \<Rightarrow> 'k linux_node \<Rightarrow> (MCLMAC_linux_t \<Rightarrow> 'b result) \<Rightarrow> 'b result" where
  "with_layer p n f = assert_that (p \<noteq> None) (rbind (load_layer (ln_heap n) p) f)"

definition with_mac ::
    "nat option \<Rightarrow> 'k linux_node \<Rightarrow> (MCLMAC_linux_t \<Rightarrow> MAC_Internals_linux_t \<Rightarrow> 'b result) \<Rightarrow> 'b result" where
  "with_mac p n f = with_layer p n (\<lambda>m. rbind (load_internals (ln_heap n) (ll_mac m)) (f m))"

definition rand_linux :: "'k linux_node \<Rightarrow> nat \<times> 'k linux_node" where
  "rand_linux n = (ln_rand n 0, n\<lparr>ln_rand := (\<lambda>k. ln_rand n (Suc k))\<rparr>)"

text \<open>\<open>datapacket_construct_from_bytestring(&packets[k], ...)\<close>, and the same with its counters.\<close>

definition construct_slot_linux ::
    "allocator \<Rightarrow> c_heap \<Rightarrow> DataPacket_linux_t list \<Rightarrow> nat \<Rightarrow> nat option \<Rightarrow>
     (DataPacket_linux_t list \<times> c_heap) result" where
  "construct_slot_linux al h pkts k bs =
     (if k < length pkts
      then rbind (datapacket_construct_from_bytestring_linux al h (pkts ! k) bs) (\<lambda>(pkt, h').
             Inr (pkts[k := pkt], h'))
      else Inl Out_of_bounds)"

definition store_queued_linux ::
    "allocator \<Rightarrow> nat \<Rightarrow> nat option \<Rightarrow> MAC_Internals_linux_t \<Rightarrow> c_heap \<Rightarrow>
     (nat \<times> MAC_Internals_linux_t \<times> c_heap) result" where
  "store_queued_linux al ty bs i h =
     (if ty \<ge> 7 \<and> ty < 10
      then
        rbind (construct_slot_linux al h (li_message_packets_to_send i)
            (unat (li_last_send_message i)) bs) (\<lambda>(pkts, h').
          Inr (1, i\<lparr>li_message_packets_to_send := pkts,
            li_last_send_message := li_last_send_message i + 1,
            li_packets_to_send_message := li_packets_to_send_message i + 1\<rparr>, h'))
      else if ty \<ge> 2 \<and> ty < 7
      then
        rbind (construct_slot_linux al h (li_control_packets_to_send i)
            (unat (li_last_send_control i)) bs) (\<lambda>(pkts, h').
          Inr (1, i\<lparr>li_control_packets_to_send := pkts,
            li_last_send_control := li_last_send_control i + 1,
            li_packets_to_send_control := li_packets_to_send_control i + 1\<rparr>, h'))
      else Inr (0, i, h))"

text \<open>
  The body of \<open>mclmac_read_queue_element\<close>: \<open>msg\<close> is the message that was received; it is copied,
  stored by its type, and both arrays are released.
\<close>

definition store_message_linux ::
    "allocator \<Rightarrow> MCLMAC_linux_t \<Rightarrow> MAC_Internals_linux_t \<Rightarrow> nat option \<Rightarrow> c_heap \<Rightarrow> (nat \<times> c_heap) result" where
  "store_message_linux al m i msg h =
     (case malloc_bytes al MAX_MESSAGE_SIZE h of (bs, h1) \<Rightarrow>
        rbind (copy_bytes h1 msg 0 bs 0 [0..<MAX_MESSAGE_SIZE]) (\<lambda>h2.
        rbind (c_read (h2, msg) 0) (\<lambda>ty.
        rbind (store_queued_linux al (unat ty) bs i h2) (\<lambda>(r, i', h3).
        rbind (c_free msg h3) (\<lambda>h4.
        rbind (c_free bs h4) (\<lambda>h5.
        rbind (store h5 (ll_mac m) (Internals_object i')) (\<lambda>h6. Inr (r, h6))))))))"

text \<open>The buffer inside \<open>recv_message\<close> is released before it returns.\<close>

definition read_message_linux ::
    "'k posix \<Rightarrow> allocator \<Rightarrow> MCLMAC_linux_t \<Rightarrow> MAC_Internals_linux_t \<Rightarrow> IPC_Queues_linux_t \<Rightarrow>
     'k linux_node \<Rightarrow> (nat \<times> 'k linux_node) result" where
  "read_message_linux os al m i Q n =
     (case malloc_bytes al MAX_MESSAGE_SIZE (ln_heap n) of (msg, h1) \<Rightarrow>
        rbind (load_bytes h1 msg) (\<lambda>old.
        rbind (recv_message_linux os (alloc_junk al (calls h1)) Q (ln_kernel n)
            (ll_mac_queue_id m) old MAX_MESSAGE_SIZE 0) (\<lambda>(ret, bytes, pid, k).
        rbind (store h1 msg (Bytes bytes)) (\<lambda>h2.
        rbind (store_message_linux al m i msg h2) (\<lambda>(r, h3).
          Inr (r, n\<lparr>ln_heap := h3, ln_queues := Q, ln_kernel := k\<rparr>))))))"

text \<open>The second call of \<open>elements_on_queue\<close> finds what the first one found.\<close>

definition mclmac_read_queue_element_linux ::
    "'k posix \<Rightarrow> allocator \<Rightarrow> nat option \<Rightarrow> 'k linux_node \<Rightarrow> (nat \<times> 'k linux_node) result" where
  "mclmac_read_queue_element_linux os al p n = with_mac p n (\<lambda>m i.
     assert_that (unat (li_packets_to_send_message i) \<le> MAX_NUMBER_DATA_PACKETS)
     (assert_that (unat (li_packets_to_send_control i) \<le> MAX_NUMBER_DATA_PACKETS)
     (if unat (li_packets_to_send_message i) + unat (li_packets_to_send_control i)
           = 2 * MAX_NUMBER_DATA_PACKETS
      then Inr (0, n)
      else
        rbind (elements_on_queue_linux os (ln_queues n) (ln_kernel n) (ll_mac_queue_id m)) (\<lambda>(c, Q).
          if c = 0 then Inr (0, n\<lparr>ln_queues := Q\<rparr>) else read_message_linux os al m i Q n))))"

text \<open>When \<open>send_message\<close> fails the byte string stays allocated.\<close>

definition write_message_linux ::
    "'k posix \<Rightarrow> allocator \<Rightarrow> MCLMAC_linux_t \<Rightarrow> MAC_Internals_linux_t \<Rightarrow> IPC_Queues_linux_t \<Rightarrow>
     'k linux_node \<Rightarrow> (nat \<times> 'k linux_node) result" where
  "write_message_linux os al m i Q n =
     (let first = unat (li_first_received i); pkts = li_packets_received i
      in if first < length pkts
         then
           rbind (datapacket_get_packet_bytestring_linux al (ln_heap n) (pkts ! first)) (\<lambda>(bs, h1).
           rbind (load_bytes h1 bs) (\<lambda>bytes.
           rbind (returned (send_message_linux os Q (ln_kernel n) (ll_routing_queue_id m) bytes
               PACKET_SIZE_MAC (ll_self_pid m))) (\<lambda>(ret, k).
             if ret = 0 then Inr (0, n\<lparr>ln_heap := h1, ln_queues := Q, ln_kernel := k\<rparr>)
             else
               rbind (datapacket_clear_linux h1 (pkts ! first)) (\<lambda>(pkt, h2).
               rbind (c_free bs h2) (\<lambda>h3.
               rbind (store h3 (ll_mac m) (Internals_object
                   (i\<lparr>li_packets_received := pkts[first := pkt],
                      li_first_received := of_nat ((first + 1) mod MAX_NUMBER_DATA_PACKETS),
                      li_number_packets_received := li_number_packets_received i - 1\<rparr>))) (\<lambda>h4.
                 Inr (1, n\<lparr>ln_heap := h4, ln_queues := Q, ln_kernel := k\<rparr>)))))))
         else Inl Out_of_bounds)"

definition mclmac_write_queue_element_linux ::
    "'k posix \<Rightarrow> allocator \<Rightarrow> nat option \<Rightarrow> 'k linux_node \<Rightarrow> (nat \<times> 'k linux_node) result" where
  "mclmac_write_queue_element_linux os al p n = with_mac p n (\<lambda>m i.
     if li_number_packets_received i = 0 then Inr (0, n)
     else if li_first_received i = li_last_received i \<and> li_number_packets_received i = 0
     then Inr (0, n)
     else
       rbind (elements_on_queue_linux os (ln_queues n) (ln_kernel n) (ll_routing_queue_id m)) (\<lambda>(c, Q).
         if unat c = MAX_ELEMENTS_ON_QUEUE then Inr (0, n\<lparr>ln_queues := Q\<rparr>)
         else if ll_routing_queue_id m = 0 then Inr (0, n\<lparr>ln_queues := Q\<rparr>)
         else write_message_linux os al m i Q n))"

section \<open>Packets over the radio\<close>

text \<open>There is no radio: a byte string is made and released, a received one has no value.\<close>

definition send_slot_linux ::
    "allocator \<Rightarrow> c_heap \<Rightarrow> DataPacket_linux_t list \<Rightarrow> nat \<Rightarrow> (DataPacket_linux_t list \<times> c_heap) result" where
  "send_slot_linux al h pkts first =
     (if first < length pkts
      then
        rbind (datapacket_get_packet_bytestring_linux al h (pkts ! first)) (\<lambda>(bs, h1).
        rbind (datapacket_clear_linux h1 (pkts ! first)) (\<lambda>(pkt, h2).
        rbind (c_free bs h2) (\<lambda>h3. Inr (pkts[first := pkt], h3))))
      else Inl Out_of_bounds)"

definition mclmac_send_data_packet_linux ::
    "allocator \<Rightarrow> nat option \<Rightarrow> 'k linux_node \<Rightarrow> 'k linux_node result" where
  "mclmac_send_data_packet_linux al p n = with_mac p n (\<lambda>m i.
     if li_packets_to_send_message i = 0 \<and> li_packets_to_send_control i = 0 then Inr n
     else if unat (li_first_send_message i) > MAX_NUMBER_DATA_PACKETS then Inr n
     else if unat (li_first_send_control i) > MAX_NUMBER_DATA_PACKETS then Inr n
     else if li_packets_to_send_control i > 0
     then
       (let first = unat (li_first_send_control i)
        in rbind (send_slot_linux al (ln_heap n) (li_control_packets_to_send i) first) (\<lambda>(pkts, h1).
           rbind (store h1 (ll_mac m) (Internals_object (i\<lparr>li_control_packets_to_send := pkts,
               li_first_send_control := of_nat ((first + 1) mod MAX_NUMBER_DATA_PACKETS),
               li_packets_to_send_control := li_packets_to_send_control i - 1\<rparr>))) (\<lambda>h2.
             Inr (n\<lparr>ln_heap := h2\<rparr>))))
     else if li_packets_to_send_message i > 0
     then
       (let first = unat (li_first_send_message i)
        in rbind (send_slot_linux al (ln_heap n) (li_message_packets_to_send i) first) (\<lambda>(pkts, h1).
           rbind (store h1 (ll_mac m) (Internals_object (i\<lparr>li_message_packets_to_send := pkts,
               li_first_send_message := of_nat ((first + 1) mod MAX_NUMBER_DATA_PACKETS),
               li_packets_to_send_message := li_packets_to_send_message i - 1\<rparr>))) (\<lambda>h2.
             Inr (n\<lparr>ln_heap := h2\<rparr>))))
     else Inr n)"

definition mclmac_receive_data_packet_linux ::
    "allocator \<Rightarrow> nat option \<Rightarrow> 'k linux_node \<Rightarrow> (bool \<times> 'k linux_node) result" where
  "mclmac_receive_data_packet_linux al p n = with_mac p n (\<lambda>m i.
     (case malloc_bytes al PACKET_SIZE_MAC (ln_heap n) of (bs, h1) \<Rightarrow>
        (let pos = unat (li_last_received i)
         in rbind (construct_slot_linux al h1 (li_packets_received i) pos bs) (\<lambda>(pkts, h2).
            rbind (c_free bs h2) (\<lambda>h3.
            rbind (store h3 (ll_mac m) (Internals_object (i\<lparr>li_packets_received := pkts,
                li_last_received := of_nat ((pos + 1) mod (2 * MAX_NUMBER_DATA_PACKETS)),
                li_number_packets_received := li_number_packets_received i + 1\<rparr>))) (\<lambda>h4.
              Inr (True, n\<lparr>ln_heap := h4\<rparr>)))))))"

definition mclmac_create_control_packet_linux ::
    "nat option \<Rightarrow> 'k linux_node \<Rightarrow> 'k linux_node result" where
  "mclmac_create_control_packet_linux p n = with_mac p n (\<lambda>m i.
     assert_that (li_ctrlpkt i \<noteq> None)
     (rbind (load_control (ln_heap n) (li_ctrlpkt i)) (\<lambda>pkt.
      rbind (load_frame (ln_heap n) (li_frame i)) (\<lambda>f.
      rbind (store (ln_heap n) (li_ctrlpkt i) (Control_object
          (controlpacket_create (controlpacket_clear pkt) (ll_node_id m) (current_frame f)
            (current_slot f) (li_collisionSlot i) (li_collisionFrequency i) (ll_hopCount m)
            (ll_networkTime m) (ll_initTime m) (ll_occupied_frequencies_slots m)))) (\<lambda>h.
        Inr (n\<lparr>ln_heap := h\<rparr>))))))"

definition mclmac_send_control_packet_linux ::
    "allocator \<Rightarrow> nat option \<Rightarrow> 'k linux_node \<Rightarrow> 'k linux_node result" where
  "mclmac_send_control_packet_linux al p n = with_layer p n (\<lambda>m.
     assert_that (ll_mac m \<noteq> None)
     (rbind (load_internals (ln_heap n) (ll_mac m)) (\<lambda>i.
      assert_that (li_ctrlpkt i \<noteq> None)
      (rbind (load_control (ln_heap n) (li_ctrlpkt i)) (\<lambda>pkt.
       (case rand_linux n of (r, n1) \<Rightarrow>
         rbind (controlpacket_get_packet_bytestring_linux al (ln_heap n) (of_nat r) pkt) (\<lambda>(bs, h1).
         rbind (store h1 (li_ctrlpkt i) (Control_object (controlpacket_clear pkt))) (\<lambda>h2.
         rbind (c_free bs h2) (\<lambda>h3. Inr (n1\<lparr>ln_heap := h3\<rparr>))))))))))"

definition mclmac_send_cf_message_linux ::
    "allocator \<Rightarrow> nat option \<Rightarrow> 'k linux_node \<Rightarrow> 'k linux_node result" where
  "mclmac_send_cf_message_linux al p n = with_layer p n (\<lambda>m.
     assert_that (ll_mac m \<noteq> None)
     (rbind (load_internals (ln_heap n) (ll_mac m)) (\<lambda>i.
      (case rand_linux n of (r, n1) \<Rightarrow>
        rbind (cfpacket_get_packet_bytestring_linux al (ln_heap n) (of_nat r) (li_cf_messages i ! 0)) (\<lambda>(bs, h1).
        rbind (c_free bs h1) (\<lambda>h2. Inr (n1\<lparr>ln_heap := h2\<rparr>)))))))"

text \<open>The control packet is decoded from a byte string that nothing was written to.\<close>

definition mclmac_receive_control_packet_linux ::
    "allocator \<Rightarrow> nat option \<Rightarrow> 'k linux_node \<Rightarrow> (bool \<times> 'k linux_node) result" where
  "mclmac_receive_control_packet_linux al p n = with_mac p n (\<lambda>m i.
     (case malloc_bytes al MAX_MESSAGE_SIZE (ln_heap n) of (bs, h1) \<Rightarrow>
        assert_that (li_ctrlpkt_recv i \<noteq> None)
        (rbind (load_bytes h1 bs) (\<lambda>bytes.
         rbind (load_control h1 (li_ctrlpkt_recv i)) (\<lambda>pkt.
         rbind (controlpacket_construct_packet_from_bytestring LINUX pkt bytes) (\<lambda>pkt'.
         rbind (store h1 (li_ctrlpkt_recv i) (Control_object pkt')) (\<lambda>h2.
         rbind (c_free bs h2) (\<lambda>h3. Inr (True, n\<lparr>ln_heap := h3\<rparr>)))))))))"

text \<open>
  In the Linux build the two receiving loops do nothing but report success, so the buffer keeps
  the zeros it was initialised with. Neither the byte string nor the timer is released when the
  function returns early.
\<close>

definition recv_first_32_bytes_linux :: "int \<Rightarrow> bool" where
  "recv_first_32_bytes_linux timer = (timer \<noteq> TIMEOUT_SET_ERROR_linux)"

definition recv_remaining_packet_linux :: bool where
  "recv_remaining_packet_linux = True"

definition mclmac_receive_ctrlpkt_sync_linux ::
    "(rat \<Rightarrow> rat) \<Rightarrow> timespec option \<Rightarrow> bool \<Rightarrow> allocator \<Rightarrow> nat option \<Rightarrow> ControlPacket_t \<Rightarrow>
     'k linux_node \<Rightarrow> (bool \<times> ControlPacket_t \<times> 'k linux_node) result" where
  "mclmac_receive_ctrlpkt_sync_linux rnd clock ok al p pkt n = with_mac p n (\<lambda>m i.
     (case malloc_bytes al PACKET_SIZE_MAC (ln_heap n) of (bs, h1) \<Rightarrow>
        (let bytes_pkt = replicate PACKET_SIZE_MAC 0
         in rbind (load_frame (ln_heap n) (li_frame i)) (\<lambda>f.
            (let secs = rnd (rnd (1 / 20) * of_nat (unat (slot_duration f)))
             in case timeout_set_linux rnd clock ok (ln_timers n) secs of (timer, t) \<Rightarrow>
               (let n1 = n\<lparr>ln_heap := h1, ln_timers := t\<rparr>
                in if \<not> recv_first_32_bytes_linux timer then Inr (False, pkt, n1)
                   else if \<not> recv_remaining_packet_linux then Inr (False, pkt, n1)
                   else if bytes_pkt ! 0 \<noteq> (1 :: u8) then Inr (False, pkt, n1)
                   else
                     rbind (write_bytes h1 bs (zip [0..<PACKET_SIZE_MAC] bytes_pkt)) (\<lambda>h2.
                     rbind (load_bytes h2 bs) (\<lambda>bytes.
                     rbind (controlpacket_construct_packet_from_bytestring LINUX pkt bytes) (\<lambda>pkt'.
                     rbind (c_free bs h2) (\<lambda>h3.
                       Inr (True, pkt', n1\<lparr>ln_heap := h3\<rparr>)))))))))))"

end
