(* ===== verification/Linux_Blocks.thy ===== *)
theory Linux_Blocks
  imports Linux_Layer
begin

text \<open>
  Who owns the blocks of the heap in the Linux build: the pointers of the MAC layer, the rest of the
  program, or nobody any more; and what making, writing and releasing one block does to that.
\<close>

section \<open>Pointers and their blocks\<close>

fun pointers :: "nat option list \<Rightarrow> nat list" where
  "pointers [] = []"
| "pointers (None # ps) = pointers ps"
| "pointers (Some a # ps) = a # pointers ps"

lemma pointers_append [simp]: "pointers (ps @ qs) = pointers ps @ pointers qs"
  by (induction ps rule: pointers.induct) auto

lemma set_pointers: "set (pointers ps) = {a. Some a \<in> set ps}"
  by (induction ps rule: pointers.induct) auto

lemma pointers_Cons: "pointers (p # ps) = pointers [p] @ pointers ps"
  by (cases p) simp_all

lemma pointers_replace:
  assumes "k < length ps"
  shows "pointers ps = pointers (take k ps) @ pointers [ps ! k] @ pointers (drop (Suc k) ps)"
    and "pointers (ps[k := q]) = pointers (take k ps) @ pointers [q] @ pointers (drop (Suc k) ps)"
proof -
  have "pointers ps = pointers (take k ps @ [ps ! k] @ drop (Suc k) ps)"
    using id_take_nth_drop [OF assms] by simp
  also have "\<dots> = pointers (take k ps) @ pointers [ps ! k] @ pointers (drop (Suc k) ps)"
    by (simp only: pointers_append)
  finally show "pointers ps = pointers (take k ps) @ pointers [ps ! k] @ pointers (drop (Suc k) ps)" .
  show "pointers (ps[k := q]) = pointers (take k ps) @ pointers [q] @ pointers (drop (Suc k) ps)"
    unfolding upd_conv_take_nth_drop [OF assms] pointers_append pointers_Cons [of q "drop (Suc k) ps"] ..
qed

datatype kind = Bytes_kind | Control_kind | CF_kind | Data_kind | Frame_kind | Internals_kind | Layer_kind

fun kind_of :: "heap_object \<Rightarrow> kind" where
  "kind_of (Bytes _) = Bytes_kind"
| "kind_of (Control_object _) = Control_kind"
| "kind_of (CF_object _) = CF_kind"
| "kind_of (Data_object _) = Data_kind"
| "kind_of (Frame_object _) = Frame_kind"
| "kind_of (Internals_object _) = Internals_kind"
| "kind_of (Layer_object _) = Layer_kind"

lemma kind_of_cases:
  "kind_of x = Bytes_kind \<longleftrightarrow> (\<exists>bs. x = Bytes bs)"
  "kind_of x = Control_kind \<longleftrightarrow> (\<exists>pkt. x = Control_object pkt)"
  "kind_of x = Frame_kind \<longleftrightarrow> (\<exists>f. x = Frame_object f)"
  "kind_of x = Internals_kind \<longleftrightarrow> (\<exists>i. x = Internals_object i)"
  "kind_of x = Layer_kind \<longleftrightarrow> (\<exists>m. x = Layer_object m)"
  by (cases x; simp)+

definition fits :: "(nat \<Rightarrow> heap_object option) \<Rightarrow> nat option \<Rightarrow> kind \<Rightarrow> bool" where
  "fits M q k \<longleftrightarrow> (case q of None \<Rightarrow> True | Some a \<Rightarrow> \<exists>x. M a = Some x \<and> kind_of x = k)"

lemma fits_simps [simp]:
  "fits M None k" "fits M (Some a) k \<longleftrightarrow> (\<exists>x. M a = Some x \<and> kind_of x = k)"
  by (simp_all add: fits_def)

text \<open>
  \<open>layout B X ps ks M\<close>: the heap \<open>M\<close> consists of the blocks of the pointers \<open>ps\<close>, which have the kinds
  \<open>ks\<close> and are all different, of the blocks \<open>B\<close> of the rest of the program, which are as they were,
  and of the blocks \<open>X\<close>.
\<close>

definition layout ::
    "(nat \<Rightarrow> heap_object option) \<Rightarrow> nat set \<Rightarrow> nat option list \<Rightarrow> kind list \<Rightarrow>
     (nat \<Rightarrow> heap_object option) \<Rightarrow> bool" where
  "layout B X ps ks M \<longleftrightarrow>
     distinct (pointers ps) \<and> finite X \<and> dom M = set (pointers ps) \<union> dom B \<union> X \<and>
     set (pointers ps) \<inter> (dom B \<union> X) = {} \<and> dom B \<inter> X = {} \<and>
     (\<forall>x \<in> dom B. M x = B x) \<and> list_all2 (fits M) ps ks"

lemma layoutD:
  assumes "layout B X ps ks M"
  shows "distinct (pointers ps)" "finite X" "dom M = set (pointers ps) \<union> dom B \<union> X"
    "set (pointers ps) \<inter> (dom B \<union> X) = {}" "dom B \<inter> X = {}" "\<And>x. x \<in> dom B \<Longrightarrow> M x = B x"
    "list_all2 (fits M) ps ks"
  using assms by (auto simp: layout_def)

lemma layout_length: "layout B X ps ks M \<Longrightarrow> length ps = length ks"
  by (auto simp: layout_def dest: list_all2_lengthD)

lemma layout_at:
  assumes "layout B X ps ks M" and "k < length ps" and "ps ! k = Some a"
  shows "\<exists>x. M a = Some x \<and> kind_of x = ks ! k" and "a \<in> set (pointers ps)" "a \<notin> X" "a \<notin> dom B"
proof -
  have "fits M (ps ! k) (ks ! k)" using assms by (auto simp: layout_def list_all2_conv_all_nth)
  with assms(3) show "\<exists>x. M a = Some x \<and> kind_of x = ks ! k" by simp
  show "a \<in> set (pointers ps)" using assms(2,3) by (metis mem_Collect_eq nth_mem set_pointers)
  with assms(1) show "a \<notin> X" "a \<notin> dom B" by (auto simp: layout_def)
qed

lemma pointers_nth_distinct:
  assumes "distinct (pointers ps)" and "j < length ps" "k < length ps" "j \<noteq> k"
    and "ps ! j = Some a" "ps ! k = Some b"
  shows "a \<noteq> b"
proof -
  have "Some a \<in> set (take k ps) \<or> Some a \<in> set (drop (Suc k) ps)"
  proof (cases "j < k")
    case True
    with assms(2,3,5) show ?thesis by (metis in_set_conv_nth length_take min_less_iff_conj nth_take)
  next
    case False
    with assms(2,4,5) have "drop (Suc k) ps ! (j - Suc k) = Some a" "j - Suc k < length (drop (Suc k) ps)" by auto
    then show ?thesis by (metis nth_mem)
  qed
  with assms(1) pointers_replace(1) [OF assms(3)] assms(6) show ?thesis by (auto simp: set_pointers)
qed

text \<open>A pointer gets another block, or none; the old one is released.\<close>

lemma layout_replace:
  assumes lay: "layout B X ps ks M" and k: "k < length ps" and old: "ps ! k = old"
    and new: "case q of None \<Rightarrow> M' = without old M
      | Some a \<Rightarrow> without old M a = None \<and> (\<exists>x. kind_of x = ks ! k \<and> M' = (without old M)(a \<mapsto> x))"
  shows "layout B X (ps[k := q]) ks M'"
proof -
  note L = layoutD [OF lay]
  let ?rest = "pointers (take k ps) @ pointers (drop (Suc k) ps)"
  have ps: "pointers ps = pointers (take k ps) @ pointers [old] @ pointers (drop (Suc k) ps)"
    using pointers_replace(1) [OF k] old by simp
  have ps': "pointers (ps[k := q]) = pointers (take k ps) @ pointers [q] @ pointers (drop (Suc k) ps)"
    by (rule pointers_replace(2) [OF k])
  have dom_without: "dom (without old M) = set ?rest \<union> dom B \<union> X"
    using L(1,3,4) unfolding ps by (cases old) auto
  have keep: "M' x = M x" if "x \<in> set ?rest \<union> dom B \<union> X" for x
  proof -
    have "without old M x = M x" using that L(1,4) unfolding ps by (cases old) auto
    moreover have "without old M x \<noteq> None" using that dom_without by blast
    ultimately show ?thesis using new by (cases q) auto
  qed
  have dom': "dom M' = set (pointers (ps[k := q])) \<union> dom B \<union> X"
  proof (cases q)
    case (Some a)
    with new obtain x where "M' = (without old M)(a \<mapsto> x)" by auto
    then have "dom M' = insert a (dom (without old M))" by simp
    with Some show ?thesis unfolding ps' dom_without by auto
  qed (use new dom_without ps' in simp)
  have fresh: "a \<notin> set ?rest \<union> dom B \<union> X" if "q = Some a" for a
    using new that dom_without by auto
  have fit: "fits M' (ps[k := q] ! j) (ks ! j)" if "j < length ps" for j
  proof (cases "j = k")
    case True
    with new k show ?thesis by (cases q) auto
  next
    case False
    have f: "fits M (ps ! j) (ks ! j)" using L(7) that by (simp add: list_all2_conv_all_nth)
    show ?thesis
    proof (cases "ps ! j")
      case (Some a)
      have "a \<in> set ?rest"
      proof -
        have "a \<in> set (pointers (ps[k := None]))" using Some that False
          by (metis length_list_update mem_Collect_eq nth_list_update_neq nth_mem set_pointers)
        then show ?thesis unfolding pointers_replace(2) [OF k] by simp
      qed
      with keep f Some False show ?thesis by auto
    qed (use False in simp)
  qed
  show ?thesis
    unfolding layout_def
  proof (intro conjI)
    show "distinct (pointers (ps[k := q]))"
      using L(1) fresh unfolding ps ps' by (cases q) auto
    show "set (pointers (ps[k := q])) \<inter> (dom B \<union> X) = {}"
      using L(4) fresh unfolding ps ps' by (cases q) auto
    show "\<forall>x \<in> dom B. M' x = B x" using keep L(6) by auto
    show "list_all2 (fits M') (ps[k := q]) ks"
      using fit layout_length [OF lay] by (simp add: list_all2_conv_all_nth)
  qed (use L dom' in auto)
qed

lemma layout_put:
  assumes "layout B X ps ks M" and "k < length ps" and "ps ! k = Some a" and "kind_of x = ks ! k"
  shows "layout B X ps ks (M(a \<mapsto> x))"
proof -
  have "layout B X (ps[k := Some a]) ks (M(a \<mapsto> x))"
    by (rule layout_replace [OF assms(1,2) refl]) (use assms in auto)
  then show ?thesis using assms(3) by (metis list_update_id)
qed

text \<open>A block that belongs to nobody: made, written, released.\<close>

lemma layout_made:
  assumes "layout B X ps ks M" and "M a = None"
  shows "layout B (insert a X) ps ks (M(a \<mapsto> x))" and "a \<notin> X"
proof -
  note L = layoutD [OF assms(1)]
  have a: "a \<notin> set (pointers ps)" "a \<notin> dom B" "a \<notin> X" using assms(2) L(3) by (auto simp: domIff)
  then show "a \<notin> X" by simp
  have "fits (M(a \<mapsto> x)) q k = fits M q k" if "q \<in> set ps" for q k
    using a(1) that by (auto simp: fits_def set_pointers split: option.splits)
  then have "list_all2 (fits (M(a \<mapsto> x))) ps ks" using L(7) by (simp add: list_all2_conv_all_nth)
  with L a show "layout B (insert a X) ps ks (M(a \<mapsto> x))" by (auto simp: layout_def)
qed

lemma layout_temp:
  assumes "layout B X ps ks M" and "a \<in> X"
  shows "layout B X ps ks (M(a \<mapsto> x))" and "layout B (X - {a}) ps ks (M(a := None))"
proof -
  note L = layoutD [OF assms(1)]
  have a: "a \<notin> set (pointers ps)" "a \<notin> dom B" "a \<in> dom M" using assms(2) L(3,4,5) by auto
  have "fits (M(a := y)) q k = fits M q k" if "q \<in> set ps" for y q k
    using a(1) that by (auto simp: fits_def set_pointers split: option.splits)
  then have "list_all2 (fits (M(a := y))) ps ks" for y
    using L(7) by (simp add: list_all2_conv_all_nth)
  moreover have "dom (M(a \<mapsto> x)) = dom M" "dom (M(a := None)) = dom M - {a}" using a(3) by auto
  ultimately show "layout B X ps ks (M(a \<mapsto> x))" "layout B (X - {a}) ps ks (M(a := None))"
    using L a(1,2) unfolding layout_def by (auto simp del: dom_fun_upd)
qed

section \<open>The pointers of the layer\<close>

definition all_packets :: "MAC_Internals_linux_t \<Rightarrow> DataPacket_linux_t list" where
  "all_packets i =
     li_message_packets_to_send i @ li_control_packets_to_send i @ li_packets_received i"

definition refs :: "nat option \<Rightarrow> MCLMAC_linux_t \<Rightarrow> MAC_Internals_linux_t \<Rightarrow> nat option list" where
  "refs p m i = [p, ll_mac m, li_ctrlpkt i, li_ctrlpkt_recv i, li_frame i] @ map lp_data (all_packets i)"

definition kinds :: "kind list" where
  "kinds = [Layer_kind, Internals_kind, Control_kind, Control_kind, Frame_kind] @ replicate 40 Bytes_kind"

definition sized :: "MAC_Internals_linux_t \<Rightarrow> bool" where
  "sized i \<longleftrightarrow> length (li_message_packets_to_send i) = MAX_NUMBER_DATA_PACKETS \<and>
     length (li_control_packets_to_send i) = MAX_NUMBER_DATA_PACKETS \<and>
     length (li_packets_received i) = 2 * MAX_NUMBER_DATA_PACKETS"

text \<open>
  \<open>parts\<close>: between the reading and the storing of the internals, \<open>i\<close> being their current value;
  \<open>node\<close>: before and after.
\<close>

definition parts ::
    "(nat \<Rightarrow> heap_object option) \<Rightarrow> nat set \<Rightarrow> nat option \<Rightarrow> MCLMAC_linux_t \<Rightarrow> MAC_Internals_linux_t \<Rightarrow>
     c_heap \<Rightarrow> bool" where
  "parts B X p m i h \<longleftrightarrow>
     load_layer h p = Inr m \<and> ll_mac m \<noteq> None \<and> sized i \<and> layout B X (refs p m i) kinds (objects h)"

definition node ::
    "(nat \<Rightarrow> heap_object option) \<Rightarrow> nat set \<Rightarrow> nat option \<Rightarrow> MCLMAC_linux_t \<Rightarrow> MAC_Internals_linux_t \<Rightarrow>
     c_heap \<Rightarrow> bool" where
  "node B X p m i h \<longleftrightarrow> parts B X p m i h \<and> load_internals h (ll_mac m) = Inr i"

lemma load_layer_iff: "load_layer h p = Inr m \<longleftrightarrow> (\<exists>a. p = Some a \<and> objects h a = Some (Layer_object m))"
  by (auto simp: load_layer_def load_def rbind_eq_Inr split: option.splits heap_object.splits)

lemma load_internals_iff:
  "load_internals h p = Inr i \<longleftrightarrow> (\<exists>a. p = Some a \<and> objects h a = Some (Internals_object i))"
  by (auto simp: load_internals_def load_def rbind_eq_Inr split: option.splits heap_object.splits)

lemma refs_nth:
  "refs p m i ! 0 = p" "refs p m i ! 1 = ll_mac m" "refs p m i ! 2 = li_ctrlpkt i"
  "refs p m i ! 3 = li_ctrlpkt_recv i" "refs p m i ! 4 = li_frame i"
  "k < length (all_packets i) \<Longrightarrow> refs p m i ! (5 + k) = lp_data (all_packets i ! k)"
  by (simp_all add: refs_def numeral_eq_Suc nth_append)

lemma kinds_nth:
  "kinds ! 0 = Layer_kind" "kinds ! 1 = Internals_kind" "kinds ! 2 = Control_kind" "kinds ! 3 = Control_kind"
  "kinds ! 4 = Frame_kind" "k < 40 \<Longrightarrow> kinds ! (5 + k) = Bytes_kind"
  by (simp_all add: kinds_def nth_append)

lemma sized_packets: "sized i \<Longrightarrow> length (all_packets i) = 40"
  by (simp add: sized_def all_packets_def)

lemma refs_length: "sized i \<Longrightarrow> length (refs p m i) = 45"
  by (simp add: refs_def sized_packets)

lemma partsD:
  assumes "parts B X p m i h"
  shows "layout B X (refs p m i) kinds (objects h)" "sized i" "length (refs p m i) = 45"
    "\<exists>a. p = Some a \<and> objects h a = Some (Layer_object m)" "\<exists>a. ll_mac m = Some a"
  using assms refs_length by (auto simp: parts_def load_layer_iff)

lemma refs_not_Nil [simp]: "refs p m i \<noteq> []"
  by (simp add: refs_def)

text \<open>A change to blocks of another kind leaves the layer as it is.\<close>

lemma partsI:
  assumes "parts B X p m i h" and "layout B X' (refs p m i') kinds (objects h')" and "sized i'"
    and "\<And>a. p = Some a \<Longrightarrow> objects h' a = objects h a"
  shows "parts B X' p m i' h'"
  using assms by (auto simp: parts_def load_layer_iff)

lemma parts_made:
  assumes "parts B X p m i h" and "made h (q, h1)"
  shows "\<exists>a bs. q = Some a \<and> a \<notin> X \<and> objects h1 a = Some (Bytes bs) \<and> parts B (insert a X) p m i h1"
proof -
  from assms(2) obtain a bs where a: "q = Some a" "objects h a = None" "objects h1 = (objects h)(a \<mapsto> Bytes bs)"
    by (auto simp: made_def)
  note D = partsD [OF assms(1)]
  have "parts B (insert a X) p m i h1"
    by (rule partsI [OF assms(1)]) (use D(2,4) a layout_made(1) [OF D(1) a(2)] in auto)
  with a layout_made(2) [OF D(1) a(2)] show ?thesis by auto
qed

lemma parts_temp:
  assumes "parts B X p m i h" and "a \<in> X" and "objects h' = (objects h)(a \<mapsto> x)"
  shows "parts B X p m i h'"
proof -
  note D = partsD [OF assms(1)]
  have "b \<noteq> a" if "p = Some b" for b
    using layout_at(3) [OF D(1), of 0 b] D(3) refs_nth(1) that assms(2) by auto
  then show ?thesis
    by (intro partsI [OF assms(1)]) (use D(2) assms layout_temp(1) [OF D(1) assms(2)] in auto)
qed

lemma parts_free:
  assumes "parts B (insert a X) p m i h" and "a \<notin> X"
  shows "\<exists>h'. c_free (Some a) h = Inr h' \<and> parts B X p m i h' \<and>
    objects h' = (objects h)(a := None)"
proof -
  note D = partsD [OF assms(1)]
  have "a \<in> dom (objects h)" using layoutD(3) [OF D(1)] by simp
  then have free: "c_free (Some a) h = Inr (h\<lparr>objects := (objects h)(a := None)\<rparr>)" by (auto simp: c_free_def)
  have "insert a X - {a} = X" using assms(2) by auto
  with layout_temp(2) [OF D(1), of a] have lay: "layout B X (refs p m i) kinds ((objects h)(a := None))" by simp
  have "b \<noteq> a" if "p = Some b" for b
    using layout_at(3) [OF D(1), of 0 b] D(3) refs_nth(1) that by auto
  then have "parts B X p m i (h\<lparr>objects := (objects h)(a := None)\<rparr>)"
    by (intro partsI [OF assms(1)]) (use D(2) lay in auto)
  with free show ?thesis by simp
qed

text \<open>The array of a packet is replaced.\<close>

lemma parts_replace:
  assumes h: "parts B X p m i h" and k: "k < 40"
    and rep: "replaced h (lp_data (all_packets i ! k)) (pkt, h')"
  shows "layout B X ((refs p m i)[5 + k := lp_data pkt]) kinds (objects h')" and "load_layer h' p = Inr m"
proof -
  note D = partsD [OF h]
  let ?old = "lp_data (all_packets i ! k)"
  have k5: "5 + k < length (refs p m i)" using D(3) k by simp
  have nth: "refs p m i ! (5 + k) = ?old" using refs_nth(6) sized_packets [OF D(2)] k by simp
  show "layout B X ((refs p m i)[5 + k := lp_data pkt]) kinds (objects h')"
    by (rule layout_replace [OF D(1) k5 nth])
      (use rep k kinds_nth(6) in \<open>auto simp: replaced_def kind_of_cases split: option.splits\<close>)
  from D(4) obtain b where b: "p = Some b" "objects h b = Some (Layer_object m)" by blast
  have "?old \<noteq> Some b"
    using pointers_nth_distinct [OF layoutD(1) [OF D(1)] _ k5, of 0 b] D(3) b(1) nth refs_nth(1) by auto
  then have "without ?old (objects h) b = objects h b" by (cases ?old) auto
  with rep b have "objects h' b = objects h b" by (auto simp: replaced_def split: option.splits)
  with b show "load_layer h' p = Inr m" by (simp add: load_layer_iff)
qed

text \<open>Storing the internals, a control packet or the frame.\<close>

lemma parts_store:
  assumes h: "parts B X p m i h" and k: "0 < k" "k < 5" and q: "refs p m i ! k = Some a"
    and x: "kind_of x = kinds ! k"
  shows "store h (Some a) x = Inr (put h a x)" and "parts B X p m i (put h a x)"
proof -
  note D = partsD [OF h]
  from layout_at(1) [OF D(1) _ q] D(3) k show "store h (Some a) x = Inr (put h a x)"
    by (auto simp: store_def)
  have "b \<noteq> a" if "p = Some b" for b
    using pointers_nth_distinct [OF layoutD(1) [OF D(1)], of 0 k b a] D(3) k q that refs_nth(1) by auto
  then show "parts B X p m i (put h a x)"
    by (intro partsI [OF h]) (use D(2,3) k q x layout_put [OF D(1), of k a x] in auto)
qed

lemma store_internals:
  assumes "parts B X p m i h"
  shows "\<exists>h'. store h (ll_mac m) (Internals_object i) = Inr h' \<and> node B X p m i h'"
proof -
  from partsD(5) [OF assms] obtain a where a: "ll_mac m = Some a" by blast
  with refs_nth(2) [of p m i] kinds_nth(2) parts_store [OF assms, of 1 a "Internals_object i"] show ?thesis
    by (simp add: node_def load_internals_iff)
qed

end
