(* ===== verification/Linux_Memory.thy ===== *)
theory Linux_Memory
  imports Linux_Blocks
begin

text \<open>
  Every function of the Linux build that allocates keeps the blocks of the layer apart from each other
  and from the rest of the heap, and follows or releases no dangling pointer. Two of them may leave a
  block behind that nobody points to any more.
\<close>

section \<open>Functions of the layer\<close>

definition alive :: "(nat \<Rightarrow> heap_object option) \<Rightarrow> nat set \<Rightarrow> nat option \<Rightarrow> 'k linux_node \<Rightarrow> bool" where
  "alive B X p n \<longleftrightarrow> (\<exists>m i. node B X p m i (ln_heap n))"

lemma safe_with_mac:
  assumes "alive B X p n"
    and "\<And>m i. parts B X p m i (ln_heap n) \<Longrightarrow> load_internals (ln_heap n) (ll_mac m) = Inr i \<Longrightarrow> safe P (f m i)"
  shows "safe P (with_mac p n f)"
proof -
  from assms(1) obtain m i where h: "parts B X p m i (ln_heap n)"
    and i: "load_internals (ln_heap n) (ll_mac m) = Inr i" by (auto simp: alive_def node_def)
  have "load_layer (ln_heap n) p = Inr m" "p \<noteq> None" using h by (auto simp: parts_def load_layer_iff)
  with i assms(2) [OF h i] show ?thesis by (simp add: with_mac_def with_layer_def)
qed

text \<open>Storing the internals ends a function.\<close>

lemma safe_store_internals:
  assumes "parts B X p m i h" and "\<And>h'. node B X p m i h' \<Longrightarrow> safe Q (f h')"
  shows "safe Q (rbind (store h (ll_mac m) (Internals_object i)) f)"
  using store_internals [OF assms(1)] assms(2) by auto

text \<open>A temporary array.\<close>

lemma safe_made:
  assumes "safe (made h) r" and "parts B X p m i h"
    and "\<And>a bs h1. a \<notin> X \<Longrightarrow> objects h1 a = Some (Bytes bs) \<Longrightarrow> made h (Some a, h1) \<Longrightarrow>
      parts B (insert a X) p m i h1 \<Longrightarrow> safe Q (f (Some a, h1))"
  shows "safe Q (rbind r f)"
proof (rule safe_rbind [OF assms(1)])
  fix x assume made: "made h x"
  obtain q h1 where x: "x = (q, h1)" by (cases x)
  with made parts_made [OF assms(2), of q h1] obtain a bs where "q = Some a" "a \<notin> X"
    "objects h1 a = Some (Bytes bs)" "parts B (insert a X) p m i h1" by auto
  with assms(3) made x show "safe Q (f x)" by auto
qed

lemma safe_free_temp:
  assumes "parts B (insert a X) p m i h" and "a \<notin> X"
    and "\<And>h'. parts B X p m i h' \<Longrightarrow> objects h' = (objects h)(a := None) \<Longrightarrow> safe Q (f h')"
  shows "safe Q (rbind (c_free (Some a) h) f)"
  using parts_free [OF assms(1,2)] assms(3) by auto

lemma parts_objects:
  "parts B X p m i h \<Longrightarrow> objects h' = objects h \<Longrightarrow> parts B X p m i h'"
  by (auto simp: parts_def load_layer_iff)

lemma malloc_parts:
  assumes "fresh_addresses al" and "malloc_bytes al n h = (q, h1)" and "parts B X p m i h"
  obtains (no_memory) "q = None" "parts B X p m i h1" "objects h1 = objects h"
  | (allocated) a where "q = Some a" "a \<notin> X" "parts B (insert a X) p m i h1"
      "objects h1 a = Some (Bytes (new_array LINUX (alloc_junk al (calls h)) n))"
      "\<And>b. b \<noteq> a \<Longrightarrow> objects h1 b = objects h b"
  using assms(1,2)
proof (cases rule: malloc_bytes_cases)
  case no_memory
  with that(1) parts_objects [OF assms(3)] show ?thesis by auto
next
  case (allocated a)
  note D = partsD [OF assms(3)]
  have "parts B (insert a X) p m i h1"
    by (rule partsI [OF assms(3)]) (use D(2,4) allocated layout_made(1) [OF D(1) allocated(2)] in auto)
  with allocated layout_made(2) [OF D(1) allocated(2)] that(2) show ?thesis by auto
qed

subsection \<open>Arrays of packets\<close>

text \<open>\<open>slots\<close>: an array of packets between two lists of packets has been changed in place.\<close>

definition slots ::
    "(nat \<Rightarrow> heap_object option) \<Rightarrow> nat set \<Rightarrow> nat option \<Rightarrow> MCLMAC_linux_t \<Rightarrow> MAC_Internals_linux_t \<Rightarrow>
     DataPacket_linux_t list \<Rightarrow> DataPacket_linux_t list \<Rightarrow> nat \<Rightarrow> DataPacket_linux_t list \<times> c_heap \<Rightarrow> bool" where
  "slots B X p m i ls rs n r \<longleftrightarrow> length (fst r) = n \<and> load_layer (snd r) p = Inr m \<and>
     layout B X ([p, ll_mac m, li_ctrlpkt i, li_ctrlpkt_recv i, li_frame i] @ map lp_data (ls @ fst r @ rs))
       kinds (objects (snd r))"

text \<open>What becomes of it when the array is stored in the internals.\<close>

lemma slots_parts:
  assumes "slots B X p m i ls rs n (pkts, h)" and "ll_mac m \<noteq> None"
    and "all_packets i' = ls @ pkts @ rs" "sized i'" "li_ctrlpkt i' = li_ctrlpkt i"
      "li_ctrlpkt_recv i' = li_ctrlpkt_recv i" "li_frame i' = li_frame i"
  shows "parts B X p m i' h"
  using assms by (simp add: slots_def parts_def refs_def)

lemma slots_free:
  assumes "slots B (insert a X) p m i ls rs n (pkts, h)" and "a \<notin> X"
  shows "\<exists>h'. c_free (Some a) h = Inr h' \<and> slots B X p m i ls rs n (pkts, h')"
proof -
  let ?ps = "[p, ll_mac m, li_ctrlpkt i, li_ctrlpkt_recv i, li_frame i] @ map lp_data (ls @ pkts @ rs)"
  have lay: "layout B (insert a X) ?ps kinds (objects h)" and layer: "load_layer h p = Inr m"
    using assms(1) by (simp_all add: slots_def)
  have "insert a X - {a} = X" using assms(2) by auto
  with layout_temp(2) [OF lay, of a] have lay': "layout B X ?ps kinds ((objects h)(a := None))" by simp
  have "a \<in> dom (objects h)" using layoutD(3) [OF lay] by simp
  moreover have "b \<noteq> a" if "p = Some b" for b using layout_at(3) [OF lay, of 0 b] that by auto
  ultimately show ?thesis using lay' layer assms(1) by (auto simp: c_free_def slots_def load_layer_iff)
qed

lemma slots_replaced:
  assumes h: "parts B X p m i h" and split: "all_packets i = ls @ pkts @ rs" and k: "k < length pkts"
    and rep: "replaced h (lp_data (pkts ! k)) (pkt, h')"
  shows "slots B X p m i ls rs (length pkts) (pkts[k := pkt], h')"
proof -
  let ?k = "length ls + k"
  have pos: "all_packets i ! ?k = pkts ! k" using k by (simp add: split nth_append)
  have "?k < length (all_packets i)" using k by (simp add: split)
  then have "?k < 40" using sized_packets [OF partsD(2) [OF h]] by simp
  note rep = parts_replace [OF h this rep [folded pos]]
  have upd: "(refs p m i)[5 + ?k := lp_data pkt] =
      [p, ll_mac m, li_ctrlpkt i, li_ctrlpkt_recv i, li_frame i] @ map lp_data (ls @ pkts[k := pkt] @ rs)"
    using k by (simp add: refs_def split list_update_append map_update numeral_eq_Suc)
  show ?thesis using rep upd by (simp add: slots_def)
qed

lemma packet_is_bytes:
  assumes "parts B X p m i h" and "pkt \<in> set (all_packets i)"
  shows "is_bytes h (lp_data pkt)"
    and "lp_data pkt = Some a \<Longrightarrow> a \<notin> X"
proof -
  note D = partsD [OF assms(1)]
  from assms(2) obtain k where k: "k < 40" "all_packets i ! k = pkt"
    by (metis D(2) in_set_conv_nth sized_packets)
  then have nth: "refs p m i ! (5 + k) = lp_data pkt" using refs_nth(6) sized_packets [OF D(2)] by simp
  have "5 + k < length (refs p m i)" using D(3) k by simp
  note at = layout_at [OF D(1) this, unfolded nth kinds_nth(6) [OF k(1)]]
  show "is_bytes h (lp_data pkt)" using at(1) by (cases "lp_data pkt") (auto simp: kind_of_cases)
  show "lp_data pkt = Some a \<Longrightarrow> a \<notin> X" by (rule at(3))
qed

lemma construct_slot_safe:
  assumes al: "fresh_addresses al" and h: "parts B X p m i h"
    and q: "is_bytes h q" "\<And>a. q = Some a \<Longrightarrow> a \<in> X" and split: "all_packets i = ls @ pkts @ rs"
  shows "safe (slots B X p m i ls rs (length pkts)) (construct_slot_linux al h pkts k q)"
proof (cases "k < length pkts")
  case True
  then have pkt: "pkts ! k \<in> set (all_packets i)" by (simp add: split)
  have "q \<noteq> lp_data (pkts ! k) \<or> q = None" using packet_is_bytes(2) [OF h pkt] q(2) by (cases q) auto
  with construct_linux_safe [OF al q(1) packet_is_bytes(1) [OF h pkt]] True
  have "safe (replaced h (lp_data (pkts ! k))) (datapacket_construct_from_bytestring_linux al h (pkts ! k) q)"
    by simp
  then show ?thesis
    by (auto simp: construct_slot_linux_def True intro!: safe_rbind slots_replaced [OF h split True])
qed (simp add: construct_slot_linux_def)

lemma clear_slot:
  assumes h: "parts B X p m i h" and split: "all_packets i = ls @ pkts @ rs" and k: "k < length pkts"
  shows "\<exists>pkt h'. datapacket_clear_linux h (pkts ! k) = Inr (pkt, h') \<and> lp_data pkt = None \<and>
    slots B X p m i ls rs (length pkts) (pkts[k := pkt], h')"
proof -
  from k have pkt: "pkts ! k \<in> set (all_packets i)" by (simp add: split)
  from clear_linux_result [OF packet_is_bytes(1) [OF h pkt]] obtain pkt' h' where
    c: "datapacket_clear_linux h (pkts ! k) = Inr (pkt', h')" "lp_data pkt' = None"
    "objects h' = without (lp_data (pkts ! k)) (objects h)" by blast
  then have "replaced h (lp_data (pkts ! k)) (pkt', h')" by (simp add: replaced_def)
  with c slots_replaced [OF h split k] show ?thesis by blast
qed

lemma send_slot_safe:
  assumes al: "fresh_addresses al" and h: "parts B X p m i h"
    and split: "all_packets i = ls @ pkts @ rs"
  shows "safe (slots B X p m i ls rs (length pkts)) (send_slot_linux al h pkts k)"
proof (cases "k < length pkts")
  case True
  then have pkt: "pkts ! k \<in> set (all_packets i)" by (simp add: split)
  show ?thesis
    unfolding send_slot_linux_def if_P [OF True]
  proof (rule safe_made [OF bytestring_linux_safe [OF al packet_is_bytes(1) [OF h pkt]] h], clarify)
    fix a bs h1 assume a: "a \<notin> X" and h1: "parts B (insert a X) p m i h1"
    from clear_slot [OF h1 split True] obtain pkt h2 where
      c: "datapacket_clear_linux h1 (pkts ! k) = Inr (pkt, h2)"
      "slots B (insert a X) p m i ls rs (length pkts) (pkts[k := pkt], h2)" by blast
    show "safe (slots B X p m i ls rs (length pkts))
      (rbind (datapacket_clear_linux h1 (pkts ! k)) (\<lambda>(pkt, h2).
       rbind (c_free (Some a) h2) (\<lambda>h3. Inr (pkts[k := pkt], h3))))"
      using slots_free [OF c(2) a] c(1) by auto
  qed
qed (simp add: send_slot_linux_def)

subsection \<open>The calls of the kernel\<close>

text \<open>A call that does not return is \<open>Blocked\<close>.\<close>

definition kernel_calls :: "'k posix \<Rightarrow> bool" where
  "kernel_calls os \<longleftrightarrow>
     (\<forall>k d m e. mq_send os k d m 1 = Inl e \<longrightarrow> e = Blocked) \<and>
     (\<forall>k d n e. mq_receive os k d n = Inl e \<longrightarrow> e = Blocked)"

lemma mq_send_loop_fault:
  "mq_send_loop os d m k = Some r \<Longrightarrow> kernel_calls os \<longrightarrow> r \<noteq> Inl Dangling_pointer"
proof (rule mq_send_loop.raw_induct [where P = "\<lambda>os d m k r. kernel_calls os \<longrightarrow> r \<noteq> Inl Dangling_pointer"])
  fix loop os d m k r
  assume IH: "\<And>os d m k r. loop os d m k = Some r \<Longrightarrow> kernel_calls os \<longrightarrow> r \<noteq> Inl Dangling_pointer"
    and body: "(case mq_send os k d m 1 of Inl e \<Rightarrow> Some (Inl e) | Inr (None, k') \<Rightarrow> Some (Inr k')
      | Inr (Some err, k') \<Rightarrow> if err = EAGAIN \<or> err = EINTR then loop os d m k' else Some (Inr k')) = Some r"
  show "kernel_calls os \<longrightarrow> r \<noteq> Inl Dangling_pointer"
  proof (cases "mq_send os k d m 1")
    case (Inl e)
    with body show ?thesis by (auto simp: kernel_calls_def)
  next
    case (Inr x)
    with body IH [of os d m] show ?thesis
      by (cases x) (auto split: option.splits if_splits)
  qed
qed

lemma send_message_linux_safe:
  assumes "kernel_calls os"
  shows "safe (\<lambda>_. True) (returned (send_message_linux os Q k qid msg sz pid))"
proof -
  have loop: "safe (\<lambda>_. True) (returned (map_option (\<lambda>r. rbind r (\<lambda>k'. Inr (1 :: u32, k'))) (mq_send_loop os d m k)))" for d m
  proof (cases "mq_send_loop os d m k")
    case (Some r)
    with mq_send_loop_fault [OF Some] assms have "safe (\<lambda>_. True) r" by (intro safe_any) simp
    with Some show ?thesis by (cases r) (simp_all add: returned_def)
  qed (simp add: returned_def)
  have mem: "memcpy x y n = Inl e \<Longrightarrow> e \<noteq> Dangling_pointer" for x y n e
    by (auto simp: memcpy_def split: if_splits)
  show ?thesis
    by (auto simp: send_message_linux_def Let_def returned_def [of "Some _"] loop split: option.splits sum.splits
      dest: mem)
qed

lemma recv_message_linux_safe:
  assumes "kernel_calls os"
  shows "safe (\<lambda>_. True) (recv_message_linux os junk Q k qid msg sz pid)"
proof -
  have rcv: "safe (\<lambda>_. True) (mq_receive os k d n)" for k d n
    using assms by (cases "mq_receive os k d n") (fastforce simp: kernel_calls_def)+
  have mem: "safe (\<lambda>_. True) (memcpy x y n)" for x y n by (simp add: memcpy_def)
  show ?thesis
    by (auto simp: recv_message_linux_def Let_def intro!: safe_rbind [OF rcv] safe_rbind [OF mem] split: option.splits)
qed

lemma elements_on_queue_linux_safe: "safe (\<lambda>_. True) (elements_on_queue_linux os Q k qid)"
  by (auto simp: elements_on_queue_linux_def Let_def intro!: safe_assert)

lemma close_own_queue_safe: "safe (\<lambda>_. True) (close_own_queue os qid Q k)"
  by (auto simp: close_own_queue_def close_queue_linux_def Let_def intro!: safe_assert)

subsection \<open>Functions with packets\<close>

lemmas packet_lists = all_packets_def sized_def

lemma parts_mac: "parts B X p m i h \<Longrightarrow> ll_mac m \<noteq> None"
  by (simp add: parts_def)

lemma sized_lengths:
  assumes "parts B X p m i h"
  shows "length (li_message_packets_to_send i) = 10" "length (li_control_packets_to_send i) = 10"
    "length (li_packets_received i) = 20"
  using partsD(2) [OF assms] by (simp_all add: sized_def)

lemma store_queued_safe:
  assumes al: "fresh_addresses al" and h: "parts B X p m i h"
    and q: "is_bytes h q" "\<And>a. q = Some a \<Longrightarrow> a \<in> X"
  shows "safe (\<lambda>(r, i', h'). parts B X p m i' h') (store_queued_linux al ty q i h)"
proof -
  note msg = construct_slot_safe [OF al h q, of "[]" "li_message_packets_to_send i"
      "li_control_packets_to_send i @ li_packets_received i"]
  note ctrl = construct_slot_safe [OF al h q, of "li_message_packets_to_send i"
      "li_control_packets_to_send i" "li_packets_received i"]
  note fin = slots_parts [OF _ parts_mac [OF h]]
  consider "ty \<ge> 7 \<and> ty < 10" | "ty \<ge> 2 \<and> ty < 7" | "\<not> (ty \<ge> 7 \<and> ty < 10)" "\<not> (ty \<ge> 2 \<and> ty < 7)" by blast
  then show ?thesis
  proof cases
    case 1
    then show ?thesis
      by (auto simp: store_queued_linux_def packet_lists intro!: safe_rbind [OF msg])
        (rule fin; auto simp: packet_lists sized_lengths [OF h] slots_def)
  next
    case 2
    then show ?thesis
      by (auto simp: store_queued_linux_def packet_lists intro!: safe_rbind [OF ctrl])
        (rule fin; auto simp: packet_lists sized_lengths [OF h] slots_def)
  next
    case 3
    with h show ?thesis by (auto simp: store_queued_linux_def)
  qed
qed

subsection \<open>Every function keeps the layout\<close>

lemma alive_heap: "ln_heap n' = ln_heap n \<Longrightarrow> alive B X p n \<Longrightarrow> alive B X p n'"
  by (simp add: alive_def)

lemma alive_node: "node B X p m i (ln_heap n) \<Longrightarrow> alive B X p n"
  by (auto simp: alive_def)

lemma copy_bytes_null_dst:
  assumes "objects h s = Some (Bytes sb)" and "is \<noteq> []"
  shows "safe P (copy_bytes h (Some s) so None wo is)"
proof -
  from assms(2) obtain k ks where "is = k # ks" by (cases "is") auto
  then show ?thesis using list_faults(1) [of sb "k + so"]
    by (cases "READ_ARRAY LINUX sb (k + so)") (auto simp: c_read_at [OF assms(1)])
qed

lemma copy_bytes_temp:
  assumes "parts B X p m i h" and "a \<in> X" and "b \<noteq> a"
    and "objects h b = Some (Bytes sb)" "objects h a = Some (Bytes bs)"
  shows "safe (\<lambda>h'. parts B X p m i h' \<and> (\<exists>bs. objects h' a = Some (Bytes bs)) \<and> objects h' b = Some (Bytes sb))
    (copy_bytes h (Some b) so (Some a) wo is)"
proof (cases "copy_elements LINUX sb so bs wo is")
  case (Inl e)
  with list_faults(4) [OF this] show ?thesis by (simp add: copy_bytes_at [OF assms(5,4,3)])
next
  case (Inr bs')
  have "parts B X p m i (put h a (Bytes bs'))" by (rule parts_temp [OF assms(1,2)]) simp
  with Inr assms(3,4) show ?thesis by (simp add: copy_bytes_at [OF assms(5,4,3)])
qed

lemma read_byte_safe: "objects h a = Some (Bytes bs) \<Longrightarrow> safe (\<lambda>_. True) (c_read (h, Some a) k)"
  by (rule safe_any) (use list_faults(1) in \<open>fastforce simp: c_read_at\<close>)

lemma store_message_linux_safe:
  assumes al: "fresh_addresses al" and h: "parts B (insert a X) p m i h" and a: "a \<notin> X"
    and msg: "objects h a = Some (Bytes mb)"
  shows "safe (\<lambda>(r, h'). \<exists>i'. node B X p m i' h') (store_message_linux al m i (Some a) h)"
proof -
  obtain bs h1 where m1: "malloc_bytes al 256 h = (bs, h1)"
    by (cases "malloc_bytes al 256 h")
  from al m1 h show ?thesis
  proof (cases rule: malloc_parts)
    case no_memory
    then have "objects h1 a = Some (Bytes mb)" using msg by simp
    from copy_bytes_null_dst [OF this, of "[0..<256]" "\<lambda>_. False" 0 0]
    have "safe (\<lambda>_. False) (copy_bytes h1 (Some a) 0 None 0 [0..<256])" by simp
    from safe_rbind [OF this] show ?thesis
      by (simp add: store_message_linux_def m1 no_memory(1) del: upt_rec_numeral)
  next
    case (allocated b)
    note h1 = allocated(3)
    have b: "b \<noteq> a" "b \<notin> X" using allocated(2) by auto
    have msg1: "objects h1 a = Some (Bytes mb)" using allocated(5) [of a] b(1) msg by simp
    show ?thesis
      unfolding store_message_linux_def MAX_MESSAGE_SIZE_def m1 allocated(1) prod.case
    proof (rule safe_rbind [OF copy_bytes_temp [OF h1 _ b(1) [symmetric] msg1 allocated(4)]], simp, clarify)
      fix h2 bs2 assume h2: "parts B (insert b (insert a X)) p m i h2"
        and at: "objects h2 b = Some (Bytes bs2)" "objects h2 a = Some (Bytes mb)"
      note stored = store_queued_safe [OF al h2, of "Some b"]
      show "safe (\<lambda>(r, h'). \<exists>i'. node B X p m i' h')
        (rbind (c_read (h2, Some a) 0) (\<lambda>ty.
         rbind (store_queued_linux al (unat ty) (Some b) i h2) (\<lambda>(r, i', h3).
         rbind (c_free (Some a) h3) (\<lambda>h4. rbind (c_free (Some b) h4) (\<lambda>h5.
         rbind (store h5 (ll_mac m) (Internals_object i')) (\<lambda>h6. Inr (r, h6)))))))"
      proof (rule safe_rbind [OF read_byte_safe [OF at(2)]], rule safe_rbind [OF stored], goal_cases)
        case (3 ty x)
        then obtain r i' h3 where x: "x = (r, i', h3)" and h3: "parts B (insert a (insert b X)) p m i' h3"
          by (cases x) (auto simp: insert_commute)
        show ?case unfolding x prod.case
          by (rule safe_free_temp [OF h3], use a b in simp, rule safe_free_temp, assumption, use b in simp,
            rule safe_store_internals, assumption) auto
      qed (use at in auto)
    qed
  qed
qed

lemma read_message_linux_safe:
  assumes al: "fresh_addresses al" and os: "kernel_calls os" and h: "parts B X p m i (ln_heap n)"
  shows "safe (\<lambda>(r, n'). alive B X p n') (read_message_linux os al m i Q n)"
proof -
  obtain msg h1 where m1: "malloc_bytes al 256 (ln_heap n) = (msg, h1)"
    by (cases "malloc_bytes al 256 (ln_heap n)")
  from al m1 h show ?thesis
  proof (cases rule: malloc_parts)
    case no_memory
    then show ?thesis by (simp add: read_message_linux_def m1 load_bytes_def load_def)
  next
    case (allocated a)
    have st: "store h1 (Some a) (Bytes bytes) = Inr (put h1 a (Bytes bytes))" for bytes
      using allocated(4) by (simp add: store_def)
    have h2: "parts B (insert a X) p m i (put h1 a (Bytes bytes))" for bytes
      by (rule parts_temp [OF allocated(3)]) simp_all
    note stored = store_message_linux_safe [OF al h2 allocated(2)]
    show ?thesis
      by (auto simp: read_message_linux_def m1 allocated(1) load_bytes_at [OF allocated(4)] st alive_def
        intro!: safe_rbind [OF recv_message_linux_safe [OF os]] safe_rbind [OF stored] split: prod.splits) blast
  qed
qed

lemma read_queue_linux_safe:
  assumes al: "fresh_addresses al" and os: "kernel_calls os" and n: "alive B X p n"
  shows "safe (\<lambda>(r, n'). alive B X p n') (mclmac_read_queue_element_linux os al p n)"
  unfolding mclmac_read_queue_element_linux_def
  by (rule safe_with_mac [OF n], intro safe_assert)
    (auto intro!: safe_rbind [OF elements_on_queue_linux_safe] read_message_linux_safe [OF al os]
      alive_heap [OF _ n] n)

text \<open>A function may leave one array behind.\<close>

definition alive_or_lost :: "(nat \<Rightarrow> heap_object option) \<Rightarrow> nat set \<Rightarrow> nat option \<Rightarrow> 'k linux_node \<Rightarrow> bool" where
  "alive_or_lost B X p n \<longleftrightarrow> alive B X p n \<or> (\<exists>a. a \<notin> X \<and> alive B (insert a X) p n)"

lemma alive_lostI: "alive B X p n \<Longrightarrow> alive_or_lost B X p n"
  by (simp add: alive_or_lost_def)

lemma write_message_linux_safe:
  assumes al: "fresh_addresses al" and os: "kernel_calls os" and h: "parts B X p m i (ln_heap n)"
    and i: "load_internals (ln_heap n) (ll_mac m) = Inr i"
  shows "safe (\<lambda>(r, n'). alive_or_lost B X p n') (write_message_linux os al m i Q n)"
proof (cases "unat (li_first_received i) < length (li_packets_received i)")
  case True
  let ?k = "unat (li_first_received i)"
  have split: "all_packets i = (li_message_packets_to_send i @ li_control_packets_to_send i) @
      li_packets_received i @ []" by (simp add: all_packets_def)
  then have pkt: "li_packets_received i ! ?k \<in> set (all_packets i)" using True by simp
  note made = bytestring_linux_safe [OF al packet_is_bytes(1) [OF h pkt]]
  show ?thesis
    unfolding write_message_linux_def Let_def if_P [OF True]
  proof (rule safe_made [OF made h], clarify, simp only: load_bytes_at rbind_simps,
      rule safe_rbind [OF send_message_linux_safe [OF os]], clarify, goal_cases)
    case (1 a bs h1 ret k)
    then have a: "a \<notin> X" and h1: "parts B (insert a X) p m i h1" and made: "made (ln_heap n) (Some a, h1)"
      by simp_all
    from clear_slot [OF h1 split True] obtain pkt h2 where
      c: "datapacket_clear_linux h1 (li_packets_received i ! ?k) = Inr (pkt, h2)"
      "slots B (insert a X) p m i (li_message_packets_to_send i @ li_control_packets_to_send i) []
        (length (li_packets_received i)) ((li_packets_received i)[?k := pkt], h2)" by blast
    from slots_free [OF c(2) a] obtain h3 where free: "c_free (Some a) h2 = Inr h3" and
      s: "slots B X p m i (li_message_packets_to_send i @ li_control_packets_to_send i) []
        (length (li_packets_received i)) ((li_packets_received i)[?k := pkt], h3)" by blast
    let ?i = "i\<lparr>li_packets_received := (li_packets_received i)[?k := pkt],
      li_first_received := of_nat ((?k + 1) mod MAX_NUMBER_DATA_PACKETS),
      li_number_packets_received := li_number_packets_received i - 1\<rparr>"
    have h3: "parts B X p m ?i h3"
      by (rule slots_parts [OF s parts_mac [OF h]]) (simp_all add: packet_lists sized_lengths [OF h])
    obtain b where b: "ll_mac m = Some b" "objects (ln_heap n) b = Some (Internals_object i)"
      using i by (auto simp: load_internals_iff)
    with made have "load_internals h1 (ll_mac m) = Inr i" by (auto simp: made_def load_internals_iff)
    with h1 have "alive B (insert a X) p (n\<lparr>ln_heap := h1, ln_queues := Q, ln_kernel := k\<rparr>)"
      by (auto simp: alive_def node_def)
    with a have lost: "alive_or_lost B X p (n\<lparr>ln_heap := h1, ln_queues := Q, ln_kernel := k\<rparr>)"
      by (auto simp: alive_or_lost_def)
    have stored: "safe (\<lambda>(r, n'). alive_or_lost B X p n')
      (rbind (store h3 (ll_mac m) (Internals_object ?i)) (\<lambda>h4.
        Inr (1 :: nat, n\<lparr>ln_heap := h4, ln_queues := Q, ln_kernel := k\<rparr>)))"
      by (rule safe_store_internals [OF h3]) (auto simp: alive_or_lost_def alive_def)
    with lost show ?case by (simp add: c(1) free)
  qed
qed (simp add: write_message_linux_def)

lemma write_queue_linux_safe:
  assumes al: "fresh_addresses al" and os: "kernel_calls os" and n: "alive B X p n"
  shows "safe (\<lambda>(r, n'). alive_or_lost B X p n') (mclmac_write_queue_element_linux os al p n)"
  unfolding mclmac_write_queue_element_linux_def
  by (rule safe_with_mac [OF n])
    (auto intro!: safe_rbind [OF elements_on_queue_linux_safe] write_message_linux_safe [OF al os]
      alive_lostI alive_heap [OF _ n] n)

lemma send_slots_safe:
  assumes al: "fresh_addresses al" and h: "parts B X p m i (ln_heap n)"
  shows "safe (alive B X p)
      (rbind (send_slot_linux al (ln_heap n) (li_control_packets_to_send i) k) (\<lambda>(pkts, h1).
       rbind (store h1 (ll_mac m) (Internals_object (i\<lparr>li_control_packets_to_send := pkts,
         li_first_send_control := x, li_packets_to_send_control := y\<rparr>))) (\<lambda>h2. Inr (n\<lparr>ln_heap := h2\<rparr>))))"
    and "safe (alive B X p)
      (rbind (send_slot_linux al (ln_heap n) (li_message_packets_to_send i) k) (\<lambda>(pkts, h1).
       rbind (store h1 (ll_mac m) (Internals_object (i\<lparr>li_message_packets_to_send := pkts,
         li_first_send_message := x, li_packets_to_send_message := y\<rparr>))) (\<lambda>h2. Inr (n\<lparr>ln_heap := h2\<rparr>))))"
proof -
  note ctrl = send_slot_safe [OF al h, of "li_message_packets_to_send i"
      "li_control_packets_to_send i" "li_packets_received i"]
  note msg = send_slot_safe [OF al h, of "[]" "li_message_packets_to_send i"
      "li_control_packets_to_send i @ li_packets_received i"]
  note stored = safe_store_internals slots_parts [OF _ parts_mac [OF h]]
  show "safe (alive B X p)
      (rbind (send_slot_linux al (ln_heap n) (li_control_packets_to_send i) k) (\<lambda>(pkts, h1).
       rbind (store h1 (ll_mac m) (Internals_object (i\<lparr>li_control_packets_to_send := pkts,
         li_first_send_control := x, li_packets_to_send_control := y\<rparr>))) (\<lambda>h2. Inr (n\<lparr>ln_heap := h2\<rparr>))))"
    by (auto simp: all_packets_def intro!: safe_rbind [OF ctrl] stored)
      (auto simp: packet_lists sized_lengths [OF h] slots_def alive_def)
  show "safe (alive B X p)
      (rbind (send_slot_linux al (ln_heap n) (li_message_packets_to_send i) k) (\<lambda>(pkts, h1).
       rbind (store h1 (ll_mac m) (Internals_object (i\<lparr>li_message_packets_to_send := pkts,
         li_first_send_message := x, li_packets_to_send_message := y\<rparr>))) (\<lambda>h2. Inr (n\<lparr>ln_heap := h2\<rparr>))))"
    by (auto simp: all_packets_def intro!: safe_rbind [OF msg] stored)
      (auto simp: packet_lists sized_lengths [OF h] slots_def alive_def)
qed

lemma send_data_linux_safe:
  assumes al: "fresh_addresses al" and n: "alive B X p n"
  shows "safe (alive B X p) (mclmac_send_data_packet_linux al p n)"
  unfolding mclmac_send_data_packet_linux_def
  by (rule safe_with_mac [OF n]) (simp add: Let_def n send_slots_safe [OF al])

lemma receive_data_linux_safe:
  assumes al: "fresh_addresses al" and n: "alive B X p n"
  shows "safe (\<lambda>(r, n'). alive B X p n') (mclmac_receive_data_packet_linux al p n)"
  unfolding mclmac_receive_data_packet_linux_def
proof (rule safe_with_mac [OF n])
  fix m i assume h: "parts B X p m i (ln_heap n)"
  obtain bs h1 where m1: "malloc_bytes al 256 (ln_heap n) = (bs, h1)"
    by (cases "malloc_bytes al 256 (ln_heap n)")
  let ?k = "unat (li_last_received i)" and ?pkts = "li_packets_received i"
  let ?ls = "li_message_packets_to_send i @ li_control_packets_to_send i"
  have split: "all_packets i = ?ls @ ?pkts @ []" by (simp add: all_packets_def)
  have stored: "safe (\<lambda>(r, n'). alive B X p n')
      (rbind (store h3 (ll_mac m) (Internals_object (i\<lparr>li_packets_received := pkts,
         li_last_received := x, li_number_packets_received := y\<rparr>))) (\<lambda>h4. Inr (True, n\<lparr>ln_heap := h4\<rparr>)))"
    if "slots B X p m i ?ls [] (length ?pkts) (pkts, h3)" for pkts h3 x y
    by (rule safe_store_internals, rule slots_parts [OF that parts_mac [OF h]])
      (use that in \<open>auto simp: packet_lists sized_lengths [OF h] slots_def alive_def\<close>)
  from al m1 h show "safe (\<lambda>(r, n'). alive B X p n') (case malloc_bytes al PACKET_SIZE_MAC (ln_heap n) of (bs, h1) \<Rightarrow>
        (let pos = unat (li_last_received i)
         in rbind (construct_slot_linux al h1 (li_packets_received i) pos bs) (\<lambda>(pkts, h2).
            rbind (c_free bs h2) (\<lambda>h3.
            rbind (store h3 (ll_mac m) (Internals_object (i\<lparr>li_packets_received := pkts,
                li_last_received := of_nat ((pos + 1) mod (2 * MAX_NUMBER_DATA_PACKETS)),
                li_number_packets_received := li_number_packets_received i + 1\<rparr>))) (\<lambda>h4.
              Inr (True, n\<lparr>ln_heap := h4\<rparr>))))))"
  proof (cases rule: malloc_parts)
    case no_memory
    then show ?thesis
      by (simp add: m1 Let_def construct_slot_linux_def datapacket_construct_from_bytestring_linux_def)
  next
    case (allocated a)
    have built: "safe (slots B (insert a X) p m i ?ls [] (length ?pkts)) (construct_slot_linux al h1 ?pkts ?k (Some a))"
      by (rule construct_slot_safe [OF al allocated(3) _ _ split]) (use allocated(4) in auto)
    show ?thesis
      unfolding PACKET_SIZE_MAC_def m1 allocated(1) Let_def prod.case
    proof (rule safe_rbind [OF built], clarify)
      fix pkts h2 assume "slots B (insert a X) p m i ?ls [] (length ?pkts) (pkts, h2)"
      from slots_free [OF this allocated(2)] stored
      show "safe (\<lambda>(r, n'). alive B X p n') (rbind (c_free (Some a) h2) (\<lambda>h3.
            rbind (store h3 (ll_mac m) (Internals_object (i\<lparr>li_packets_received := pkts,
                li_last_received := of_nat ((?k + 1) mod (2 * MAX_NUMBER_DATA_PACKETS)),
                li_number_packets_received := li_number_packets_received i + 1\<rparr>))) (\<lambda>h4.
              Inr (True, n\<lparr>ln_heap := h4\<rparr>))))"
        by auto
    qed
  qed
qed

text \<open>Functions that leave the internals alone.\<close>

lemma aliveI:
  "node B X p m i h \<Longrightarrow> alive B X p (n\<lparr>ln_heap := h\<rparr>)"
  "node B X p m i h \<Longrightarrow> alive B X p (n\<lparr>ln_heap := h, ln_timers := t\<rparr>)"
  "node B X p m i h \<Longrightarrow> alive B X p (n\<lparr>ln_heap := h, ln_queues := Q, ln_kernel := k\<rparr>)"
  by (auto simp: alive_def)

lemma node_parts:
  assumes "node B X p m i h" and "parts B X' p m i h'"
    and "\<And>b. ll_mac m = Some b \<Longrightarrow> objects h' b = objects h b"
  shows "node B X' p m i h'"
  using assms by (auto simp: node_def load_internals_iff)

lemma mac_address:
  assumes "parts B X p m i h" and "ll_mac m = Some b"
  shows "b \<notin> X" and "objects h b \<noteq> None"
proof -
  note D = partsD [OF assms(1)]
  from layout_at(1,3) [OF D(1), of 1 b] D(3) assms(2) refs_nth(2) [of p m i]
  show "b \<notin> X" "objects h b \<noteq> None" by auto
qed

lemma node_made:
  assumes "node B X p m i h" and "made h (q, h1)"
  shows "\<exists>a. q = Some a \<and> a \<notin> X \<and> node B (insert a X) p m i h1"
proof -
  have h: "parts B X p m i h" using assms(1) by (simp add: node_def)
  from parts_made [OF h assms(2)] obtain a where a: "q = Some a" "a \<notin> X" "parts B (insert a X) p m i h1" by blast
  have "objects h1 b = objects h b" if "ll_mac m = Some b" for b
    using assms(2) a(1) mac_address(2) [OF h that] by (auto simp: made_def)
  with node_parts [OF assms(1) a(3)] a show ?thesis by blast
qed

lemma node_free:
  assumes "node B (insert a X) p m i h" and "a \<notin> X"
  shows "\<exists>h'. c_free (Some a) h = Inr h' \<and> node B X p m i h'"
proof -
  have h: "parts B (insert a X) p m i h" using assms(1) by (simp add: node_def)
  from parts_free [OF h assms(2)] obtain h' where f: "c_free (Some a) h = Inr h'" "parts B X p m i h'"
    "objects h' = (objects h)(a := None)" by blast
  have "objects h' b = objects h b" if "ll_mac m = Some b" for b
    using f(3) mac_address(1) [OF h that] by auto
  with node_parts [OF assms(1) f(2)] f(1) show ?thesis by blast
qed

lemma node_malloc:
  assumes "fresh_addresses al" and "malloc_bytes al k h = (q, h1)" and "node B X p m i h"
  obtains (no_memory) "q = None" "node B X p m i h1"
  | (allocated) a where "q = Some a" "a \<notin> X" "node B (insert a X) p m i h1"
      "objects h1 a = Some (Bytes (new_array LINUX (alloc_junk al (calls h)) k))"
proof -
  have h: "parts B X p m i h" using assms(3) by (simp add: node_def)
  from assms(1,2) h show ?thesis
  proof (cases rule: malloc_parts)
    case no_memory
    with node_parts [OF assms(3) no_memory(2)] that(1) show ?thesis by simp
  next
    case (allocated a)
    have "objects h1 b = objects h b" if "ll_mac m = Some b" for b
      using allocated(5) [of b] mac_address(1) [OF allocated(3) that] by auto
    with node_parts [OF assms(3) allocated(3)] allocated that(2) show ?thesis by blast
  qed
qed

lemma node_store:
  assumes "node B X p m i h" and k: "1 < k" "k < 5" and q: "refs p m i ! k = Some a" and "kind_of x = kinds ! k"
  shows "store h (Some a) x = Inr (put h a x)" and "node B X p m i (put h a x)"
proof -
  have h: "parts B X p m i h" using assms(1) by (simp add: node_def)
  note s = parts_store [OF h _ k(2) q assms(5)]
  show "store h (Some a) x = Inr (put h a x)" using s(1) k by simp
  note D = partsD [OF h]
  have "b \<noteq> a" if "ll_mac m = Some b" for b
    using pointers_nth_distinct [OF layoutD(1) [OF D(1)], of 1 k b a] D(3) k q that refs_nth(2) [of p m i] by auto
  then show "node B X p m i (put h a x)" using s(2) k by (intro node_parts [OF assms(1)]) auto
qed

lemma node_loads:
  assumes "node B X p m i h"
  shows "li_ctrlpkt i = Some c \<Longrightarrow> \<exists>pkt. load_control h (Some c) = Inr pkt"
    and "li_ctrlpkt_recv i = Some c \<Longrightarrow> \<exists>pkt. load_control h (Some c) = Inr pkt"
    and "li_frame i = Some c \<Longrightarrow> \<exists>f. load_frame h (Some c) = Inr f"
proof -
  have "parts B X p m i h" using assms by (simp add: node_def)
  note D = partsD [OF this]
  note at = layout_at(1) [OF D(1)]
  show "li_ctrlpkt i = Some c \<Longrightarrow> \<exists>pkt. load_control h (Some c) = Inr pkt"
    using at [of 2 c] D(3) refs_nth(3) [of p m i] kinds_nth(3)
    by (auto simp: load_control_def load_def kind_of_cases)
  show "li_ctrlpkt_recv i = Some c \<Longrightarrow> \<exists>pkt. load_control h (Some c) = Inr pkt"
    using at [of 3 c] D(3) refs_nth(4) [of p m i] kinds_nth(4)
    by (auto simp: load_control_def load_def kind_of_cases)
  show "li_frame i = Some c \<Longrightarrow> \<exists>f. load_frame h (Some c) = Inr f"
    using at [of 4 c] D(3) refs_nth(5) [of p m i] kinds_nth(5)
    by (auto simp: load_frame_def load_def kind_of_cases)
qed

lemma load_frame_safe: "node B X p m i h \<Longrightarrow> safe (\<lambda>_. True) (load_frame h (li_frame i))"
  using node_loads(3) by (cases "li_frame i") (fastforce simp: load_frame_def load_def)+

lemma safe_with_node:
  assumes "alive B X p n" and "\<And>m i. node B X p m i (ln_heap n) \<Longrightarrow> safe P (f m i)"
  shows "safe P (with_mac p n f)"
  by (rule safe_with_mac [OF assms(1)], rule assms(2)) (simp add: node_def)

lemma safe_with_layer:
  assumes "alive B X p n" and "\<And>m i. node B X p m i (ln_heap n) \<Longrightarrow> safe P (f m)"
  shows "safe P (with_layer p n f)"
proof -
  from assms(1) obtain m i where h: "node B X p m i (ln_heap n)" by (auto simp: alive_def)
  then have "load_layer (ln_heap n) p = Inr m" "p \<noteq> None" by (auto simp: node_def parts_def load_layer_iff)
  with assms(2) [OF h] show ?thesis by (simp add: with_layer_def)
qed

lemma create_control_linux_safe:
  assumes n: "alive B X p n"
  shows "safe (alive B X p) (mclmac_create_control_packet_linux p n)"
  unfolding mclmac_create_control_packet_linux_def
proof (rule safe_with_node [OF n], rule safe_assert, goal_cases)
  case (1 m i)
  then obtain c where h: "node B X p m i (ln_heap n)" and c: "li_ctrlpkt i = Some c" by blast
  from node_loads(1) [OF h c] obtain pkt where pkt: "load_control (ln_heap n) (Some c) = Inr pkt" by blast
  note s = node_store [OF h, of 2 c "Control_object pkt" for pkt]
  then have s: "store (ln_heap n) (Some c) (Control_object pkt) = Inr (put (ln_heap n) c (Control_object pkt))"
    "node B X p m i (put (ln_heap n) c (Control_object pkt))" for pkt
    using c refs_nth(3) [of p m i] kinds_nth(3) by simp_all
  show ?case
    unfolding c pkt rbind_simps s(1)
    by (rule safe_rbind [OF load_frame_safe [OF h]]) (auto intro: aliveI [OF s(2)])
qed

lemma send_control_linux_safe:
  assumes al: "fresh_addresses al" and n: "alive B X p n"
  shows "safe (alive B X p) (mclmac_send_control_packet_linux al p n)"
  unfolding mclmac_send_control_packet_linux_def
proof (rule safe_with_layer [OF n], rule safe_assert, goal_cases)
  case (1 m i)
  then have h: "node B X p m i (ln_heap n)" and i: "load_internals (ln_heap n) (ll_mac m) = Inr i"
    by (simp_all add: node_def)
  obtain r n1 where r: "rand_linux n = (r, n1)" by (cases "rand_linux n")
  show ?case
    unfolding i r rbind_simps prod.case
  proof (rule safe_assert, goal_cases)
    case 1
    then obtain c where c: "li_ctrlpkt i = Some c" by blast
    from node_loads(1) [OF h c] obtain pkt where pkt: "load_control (ln_heap n) (Some c) = Inr pkt" by blast
    let ?x = "Control_object (controlpacket_clear pkt)"
    show ?case
      unfolding c pkt rbind_simps
    proof (rule safe_rbind [OF control_bytestring_linux_safe [OF al]], clarify, goal_cases)
      case (1 q h1)
      then have "made (ln_heap n) (q, h1)" by simp
      from node_made [OF h this] obtain a where a: "q = Some a" "a \<notin> X" "node B (insert a X) p m i h1" by blast
      from node_store [OF a(3), of 2 c ?x] c refs_nth(3) [of p m i] kinds_nth(3)
      have s: "store h1 (Some c) ?x = Inr (put h1 c ?x)" "node B (insert a X) p m i (put h1 c ?x)" by simp_all
      from node_free [OF s(2) a(2)] s(1) show ?case by (auto simp: a(1) intro: aliveI)
    qed
  qed
qed

lemma send_cf_linux_safe:
  assumes al: "fresh_addresses al" and n: "alive B X p n"
  shows "safe (alive B X p) (mclmac_send_cf_message_linux al p n)"
  unfolding mclmac_send_cf_message_linux_def
proof (rule safe_with_layer [OF n], rule safe_assert, goal_cases)
  case (1 m i)
  then have h: "node B X p m i (ln_heap n)" and i: "load_internals (ln_heap n) (ll_mac m) = Inr i"
    by (simp_all add: node_def)
  obtain r n1 where r: "rand_linux n = (r, n1)" by (cases "rand_linux n")
  show ?case
    unfolding i r rbind_simps prod.case
  proof (rule safe_rbind [OF cf_bytestring_linux_safe [OF al]], clarify, goal_cases)
    case (1 q h1)
    then have "made (ln_heap n) (q, h1)" by simp
    from node_made [OF h this] obtain a where a: "q = Some a" "a \<notin> X" "node B (insert a X) p m i h1" by blast
    from node_free [OF a(3,2)] show ?case by (auto simp: a(1) intro: aliveI)
  qed
qed

lemma control_construct_safe:
  "safe (\<lambda>_. True) (controlpacket_construct_packet_from_bytestring LINUX pkt bs)"
proof -
  have rd: "safe (\<lambda>_. True) (READ_ARRAY LINUX bs k)" for k
    by (rule safe_any) (use list_faults(1) in fastforce)
  have rw: "safe (\<lambda>_. True) (read_word (READ_ARRAY LINUX) bs ls)" for ls
    by (rule safe_any) (use read_word_fault in fastforce)
  have rows: "safe (\<lambda>_. True) (read_rows LINUX bs base k is)" for base k "is"
  proof (induction "is")
    case (Cons j js)
    have "safe (\<lambda>_. True) (read_list (READ_ARRAY LINUX) bs ks)" for ks
      by (rule safe_any) (use list_faults(5) in fastforce)
    then show ?case by (auto intro!: safe_rbind [where P = "\<lambda>_. True"] safe_rbind [OF Cons])
  qed simp
  show ?thesis
    unfolding controlpacket_construct_packet_from_bytestring_def
    by (auto intro!: safe_rbind [OF rd] safe_rbind [OF rw] safe_rbind [OF rows] simp del: upt_rec_numeral)
qed

lemma receive_control_linux_safe:
  assumes al: "fresh_addresses al" and n: "alive B X p n"
  shows "safe (\<lambda>(b, n'). b \<and> alive B X p n') (mclmac_receive_control_packet_linux al p n)"
  unfolding mclmac_receive_control_packet_linux_def
proof (rule safe_with_node [OF n], goal_cases)
  case (1 m i)
  obtain q h1 where m1: "malloc_bytes al MAX_MESSAGE_SIZE (ln_heap n) = (q, h1)"
    by (cases "malloc_bytes al MAX_MESSAGE_SIZE (ln_heap n)")
  from al m1 1 show ?case
  proof (cases rule: node_malloc)
    case no_memory
    then show ?thesis unfolding m1 by (auto intro!: safe_assert simp: load_bytes_def load_def)
  next
    case (allocated a)
    show ?thesis
      unfolding m1 prod.case allocated(1) load_bytes_at [OF allocated(4)] rbind_simps
    proof (rule safe_assert, goal_cases)
      case 1
      then obtain c where c: "li_ctrlpkt_recv i = Some c" by blast
      from node_loads(2) [OF allocated(3) c] obtain pkt where pkt: "load_control h1 (Some c) = Inr pkt" by blast
      show ?case
        unfolding c pkt rbind_simps
      proof (rule safe_rbind [OF control_construct_safe], goal_cases)
        case (1 pkt')
        from node_store [OF allocated(3), of 3 c "Control_object pkt'"] c refs_nth(4) [of p m i] kinds_nth(4)
        have s: "store h1 (Some c) (Control_object pkt') = Inr (put h1 c (Control_object pkt'))"
          "node B (insert a X) p m i (put h1 c (Control_object pkt'))" by simp_all
        from node_free [OF s(2) allocated(2)] s(1) show ?case by (auto intro: aliveI)
      qed
    qed
  qed
qed

text \<open>Listening is in vain.\<close>

lemma receive_ctrlpkt_sync_linux_safe:
  assumes al: "fresh_addresses al" and n: "alive B X p n"
  shows "safe (\<lambda>(b, pkt', n'). \<not> b \<and> pkt' = pkt \<and> alive_or_lost B X p n')
    (mclmac_receive_ctrlpkt_sync_linux rnd clock ok al p pkt n)"
  unfolding mclmac_receive_ctrlpkt_sync_linux_def
proof (rule safe_with_node [OF n], goal_cases)
  case (1 m i)
  obtain q h1 where m1: "malloc_bytes al PACKET_SIZE_MAC (ln_heap n) = (q, h1)"
    by (cases "malloc_bytes al PACKET_SIZE_MAC (ln_heap n)")
  from al m1 1 have lost: "alive_or_lost B X p (n\<lparr>ln_heap := h1, ln_timers := t\<rparr>)" for t
    by (cases rule: node_malloc) (auto simp: alive_or_lost_def intro: aliveI)
  show ?case
    unfolding m1 prod.case Let_def
    by (rule safe_rbind [OF load_frame_safe [OF 1]]) (simp add: lost split: prod.split)
qed

end
