(* ===== verification/Linux_Life.thy ===== *)
theory Linux_Life
  imports Linux_Memory
begin

text \<open>
  The life of the MAC layer in the Linux build, from \<open>MCLMAC_init\<close> over any sequence of calls to
  \<open>MCLMAC_destroy\<close>: what is safe, what is lost, and what happens when there is no memory.
\<close>

section \<open>Clearing\<close>

text \<open>The loops over the packets clear the pointers at the indices they run over.\<close>

definition forget :: "nat list \<Rightarrow> nat option list \<Rightarrow> nat option list" where
  "forget ks ps = fold (\<lambda>k ps. ps[k := None]) ks ps"

lemma forget_simps [simp]:
  "forget [] ps = ps" "forget (k # ks) ps = forget ks (ps[k := None])"
  by (simp_all add: forget_def)

lemma forget_first: "n \<le> length ps \<Longrightarrow> forget [0..<n] ps = replicate n None @ drop n ps"
proof (induction n)
  case (Suc n)
  then have "forget [0..<n] ps = replicate n None @ drop n ps" by simp
  then have "forget [0..<Suc n] ps = (replicate n None @ drop n ps)[n := None]"
    by (simp add: forget_def)
  also have "\<dots> = replicate (Suc n) None @ drop (Suc n) ps"
    using Suc.prems by (simp add: list_update_append Cons_nth_drop_Suc [symmetric] replicate_append_same
      flip: append.assoc)
  finally show ?case .
qed simp

definition cleared :: "nat list \<Rightarrow> MAC_Internals_linux_t \<Rightarrow> MAC_Internals_linux_t \<Rightarrow> bool" where
  "cleared ks i i' \<longleftrightarrow>
     li_ctrlpkt i' = li_ctrlpkt i \<and> li_ctrlpkt_recv i' = li_ctrlpkt_recv i \<and> li_frame i' = li_frame i \<and>
     map lp_data (li_message_packets_to_send i') = forget ks (map lp_data (li_message_packets_to_send i)) \<and>
     map lp_data (li_control_packets_to_send i') = forget ks (map lp_data (li_control_packets_to_send i)) \<and>
     map lp_data (li_packets_received i') = forget ks (map lp_data (li_packets_received i))"

lemma clear_at_index:
  assumes h: "parts B X p m i h" and k: "k < 10"
  shows "\<exists>i' h'. clear_each_linux (k # ks) h i = clear_each_linux ks h' i' \<and> parts B X p m i' h' \<and>
    cleared [k] i i'"
proof -
  note len = sized_lengths [OF h] and mac = parts_mac [OF h]
  from clear_slot [OF h, of "[]" "li_message_packets_to_send i" _ k] k len(1)
  obtain x h1 where x: "datapacket_clear_linux h (li_message_packets_to_send i ! k) = Inr (x, h1)"
    "lp_data x = None" "slots B X p m i [] (li_control_packets_to_send i @ li_packets_received i)
      (length (li_message_packets_to_send i)) ((li_message_packets_to_send i)[k := x], h1)"
    by (auto simp: all_packets_def)
  define i1 where "i1 = i\<lparr>li_message_packets_to_send := (li_message_packets_to_send i)[k := x]\<rparr>"
  have h1: "parts B X p m i1 h1"
    by (rule slots_parts [OF x(3) mac]) (simp_all add: i1_def packet_lists len)
  from clear_slot [OF h1, of "li_message_packets_to_send i1" "li_control_packets_to_send i" "li_packets_received i" k]
  obtain y h2 where y: "datapacket_clear_linux h1 (li_control_packets_to_send i ! k) = Inr (y, h2)"
    "lp_data y = None" "slots B X p m i1 (li_message_packets_to_send i1) (li_packets_received i)
      (length (li_control_packets_to_send i)) ((li_control_packets_to_send i)[k := y], h2)"
    using k len(2) by (auto simp: all_packets_def i1_def)
  define i2 where "i2 = i1\<lparr>li_control_packets_to_send := (li_control_packets_to_send i)[k := y]\<rparr>"
  have h2: "parts B X p m i2 h2"
    by (rule slots_parts [OF y(3) mac]) (simp_all add: i1_def i2_def packet_lists len)
  from clear_slot [OF h2, of "li_message_packets_to_send i2 @ li_control_packets_to_send i2" "li_packets_received i" "[]" k]
  obtain z h3 where z: "datapacket_clear_linux h2 (li_packets_received i ! k) = Inr (z, h3)"
    "lp_data z = None" "slots B X p m i2 (li_message_packets_to_send i2 @ li_control_packets_to_send i2) []
      (length (li_packets_received i)) ((li_packets_received i)[k := z], h3)"
    using k len(3) by (auto simp: all_packets_def i1_def i2_def)
  define i3 where "i3 = i2\<lparr>li_packets_received := (li_packets_received i)[k := z]\<rparr>"
  have h3: "parts B X p m i3 h3"
    by (rule slots_parts [OF z(3) mac]) (simp_all add: i1_def i2_def i3_def packet_lists len)
  have "clear_each_linux (k # ks) h i = clear_each_linux ks h3 i3"
    by (simp add: x(1) y(1) z(1) i1_def i2_def i3_def)
  moreover have "cleared [k] i i3" by (simp add: cleared_def i1_def i2_def i3_def map_update x(2) y(2) z(2))
  ultimately show ?thesis using h3 by blast
qed

lemma clear_each_linux_result:
  "parts B X p m i h \<Longrightarrow> \<forall>k \<in> set ks. k < 10 \<Longrightarrow>
    \<exists>i' h'. clear_each_linux ks h i = Inr (i', h') \<and> parts B X p m i' h' \<and> cleared ks i i'"
proof (induction ks arbitrary: i h)
  case (Cons k ks)
  then obtain i1 h1 where 1: "clear_each_linux (k # ks) h i = clear_each_linux ks h1 i1"
    "parts B X p m i1 h1" "cleared [k] i i1" using clear_at_index [of B X p m i h k ks] by auto
  with Cons.IH [OF 1(2)] Cons.prems(2) obtain i' h' where 2: "clear_each_linux ks h1 i1 = Inr (i', h')"
    "parts B X p m i' h'" "cleared ks i1 i'" by auto
  have "cleared (k # ks) i i'" using 1(3) 2(3) by (simp add: cleared_def)
  with 1(1) 2 show ?case by (simp del: clear_each_linux.simps)
qed (simp add: cleared_def)

lemma clear_packets_linux_result:
  assumes "parts B X p m i h"
  shows "\<exists>i' h'. clear_packets_linux h i = Inr (i', h') \<and> parts B X p m i' h' \<and> cleared [0..<10] i i'"
proof -
  from clear_each_linux_result [OF assms, of "[0..<10]"] obtain i' h' where
    c: "clear_each_linux [0..<10] h i = Inr (i', h')" "parts B X p m i' h'" "cleared [0..<10] i i'"
    by (auto simp del: upt_rec_numeral)
  let ?i = "i'\<lparr>li_cf_messages := map cfpacket_clear (li_cf_messages i')\<rparr>"
  have "parts B X p m ?i h'"
    using c(2) by (simp add: parts_def refs_def all_packets_def sized_def)
  moreover have "cleared [0..<10] i ?i" using c(3) by (simp add: cleared_def del: upt_rec_numeral)
  ultimately show ?thesis
    by (simp add: clear_packets_linux_def c(1) del: upt_rec_numeral)
qed

lemma store_layer:
  assumes "node B X p m i h" and "ll_mac m' = ll_mac m"
  shows "\<exists>h'. store h p (Layer_object m') = Inr h' \<and> node B X p m' i h'"
proof -
  have h: "parts B X p m i h" using assms(1) by (simp add: node_def)
  note D = partsD [OF h]
  from D(4) obtain a where a: "p = Some a" "objects h a = Some (Layer_object m)" by blast
  have refs: "refs q m' i = refs q m i" for q using assms(2) by (simp add: refs_def)
  have "layout B X (refs p m i) kinds ((objects h)(a \<mapsto> Layer_object m'))"
    by (rule layout_put [OF D(1), of 0]) (simp_all add: a(1) refs_nth kinds_nth)
  then have "parts B X p m' i (put h a (Layer_object m'))"
    using a(1) D(2,5) assms(2) by (simp add: parts_def load_layer_iff refs)
  moreover have "b \<noteq> a" if "ll_mac m = Some b" for b
    using pointers_nth_distinct [OF layoutD(1) [OF D(1)], of 0 1 a b] D(3) a(1) that refs_nth(1,2) [of p m i] by auto
  ultimately show ?thesis
    using assms a by (auto simp: node_def load_internals_iff store_def)
qed

lemma internals_clear_safe:
  assumes h: "node B X p m i h"
  shows "safe (\<lambda>h'. \<exists>i'. node B X p m i' h') (MAC_internals_clear_linux h (ll_mac m))"
proof (cases "li_frame i")
  case None
  with h show ?thesis
    by (auto simp: MAC_internals_clear_linux_def node_def load_frame_def load_def intro!: safe_assert)
next
  case (Some c)
  let ?i = "i\<lparr>li_selectedSlot := 0, li_transmitChannel := 0, li_receiveChannel := 0, li_cfChannel := 0,
      li_collisionDetected := False, li_collisionSlot := 0, li_collisionFrequency := 0,
      li_cf_message_received := False\<rparr>"
  from node_loads(3) [OF h Some] obtain f where f: "load_frame h (Some c) = Inr f" by blast
  from node_store [OF h, of 4 c "Frame_object x" for x] Some refs_nth(5) [of p m i] kinds_nth(5)
  have s: "store h (Some c) (Frame_object x) = Inr (put h c (Frame_object x))"
    "node B X p m i (put h c (Frame_object x))" for x by simp_all
  have "parts B X p m ?i (put h c (Frame_object x))" for x
    using s(2) [of x] by (simp add: node_def parts_def refs_def all_packets_def sized_def)
  note clear = clear_packets_linux_result [OF this]
  have i: "load_internals h (ll_mac m) = Inr i" using h by (simp add: node_def)
  show ?thesis
    unfolding MAC_internals_clear_linux_def i Some rbind_simps f s(1)
  proof (rule safe_assert, goal_cases)
    case 1
    show ?case
      using clear [of "f\<lparr>current_slot := 0, current_frame := 0, current_cf_slot := 0, cf_slots_number := 0, slots_number := 0\<rparr>"]
        store_internals [of B X p m] by fastforce
  qed
qed

lemma clear_linux_safe:
  assumes n: "alive B X p n"
  shows "safe (alive B X p) (MCLMAC_clear_linux os p n)"
proof -
  from n obtain m i where h: "node B X p m i (ln_heap n)" by (auto simp: alive_def)
  then have m: "load_layer (ln_heap n) p = Inr m" by (simp add: node_def parts_def)
  show ?thesis
    unfolding MCLMAC_clear_linux_def m rbind_simps
  proof (intro safe_assert safe_rbind [OF internals_clear_safe [OF h]], clarify,
      rule safe_rbind [OF close_own_queue_safe], clarify, goal_cases)
    case (1 h1 i' y Q k)
    then have h1: "node B X (Some y) m i' h1" by simp
    let ?m = "m\<lparr>ll_currentState := START, ll_powerMode := STARTP, ll_networkTime := 0, ll_hopCount := 0,
        ll_stack := None, ll_mac_queue_id := 0\<rparr>"
    from store_layer [OF h1, of ?m] obtain h2 where
      "store h1 (Some y) (Layer_object ?m) = Inr h2" "node B X (Some y) ?m i' h2" by auto
    then show ?case by (auto intro: aliveI)
  qed
qed


section \<open>From the first call to the last\<close>

text \<open>Pointers that get a block, that are stored through and that are released.\<close>

lemma layout_malloc:
  assumes "layout B X ps ks (objects h)" and "k < length ps" "ps ! k = None" and "kind_of x = ks ! k"
    and "fresh_addresses al" and "c_malloc al x h = (q, h')"
  shows "layout B X (ps[k := q]) ks (objects h')"
proof (cases "alloc_address al (calls h) (objects h)")
  case None
  have "ps[k := None] = ps" using assms(3) by (metis list_update_id)
  with None assms show ?thesis by (auto simp: c_malloc_def)
next
  case (Some a)
  with assms(5) have "objects h a = None" by (simp add: fresh_addresses_def)
  moreover have "q = Some a" "objects h' = (objects h)(a \<mapsto> x)"
    using Some assms(6) by (auto simp: c_malloc_def)
  ultimately show ?thesis
    using assms(4) by (intro layout_replace [OF assms(1-3)]) auto
qed

lemma layout_store:
  assumes "layout B X ps ks (objects h)" and "k < length ps" "ps ! k = Some a" and "kind_of x = ks ! k"
  shows "store h (Some a) x = Inr (put h a x)" and "layout B X ps ks (objects (put h a x))"
  using layout_at(1) [OF assms(1-3)] layout_put [OF assms] by (auto simp: store_def)

lemma layout_free:
  assumes "layout B X ps ks (objects h)" and "k < length ps" and "ps ! k = q"
  shows "\<exists>h'. c_free q h = Inr h' \<and> layout B X (ps[k := None]) ks (objects h')"
proof -
  have "case q of None \<Rightarrow> True | Some a \<Rightarrow> objects h a \<noteq> None"
    using layout_at(1) [OF assms(1,2)] assms(3) by (auto split: option.splits)
  note free = c_free_safe [OF this]
  have "layout B X (ps[k := None]) ks (objects (h\<lparr>objects := without q (objects h)\<rparr>))"
    by (rule layout_replace [OF assms]) simp
  with free show ?thesis by blast
qed

lemma layout_empty: "layout B {} (replicate 45 None) kinds B"
proof -
  have "pointers (replicate n None) = []" for n by (induction n) simp_all
  then show ?thesis by (simp add: layout_def list_all2_conv_all_nth kinds_def)
qed

lemma control_init_layout:
  assumes "layout B X ps ks (objects h)" and "k < length ps" "ps ! k = None" and "ks ! k = Control_kind"
    and "fresh_addresses al"
  shows "safe (\<lambda>(q, h'). layout B X (ps[k := q]) ks (objects h')) (controlpacket_init_linux al h)"
proof -
  obtain q h1 where m: "c_malloc al (Control_object controlpacket_init) h = (q, h1)"
    by (cases "c_malloc al (Control_object controlpacket_init) h")
  note lay = layout_malloc [OF assms(1-3) _ assms(5) m]
  show ?thesis
  proof (cases q)
    case (Some a)
    with layout_store [of B X "ps[k := q]" ks h1 k a "Control_object controlpacket_init"] lay assms(2,4)
    show ?thesis by (simp add: controlpacket_init_linux_def m)
  qed (simp add: controlpacket_init_linux_def m)
qed

text \<open>The pointers of a layer without packets.\<close>

definition fresh_refs ::
    "nat option \<Rightarrow> nat option \<Rightarrow> nat option \<Rightarrow> nat option \<Rightarrow> nat option \<Rightarrow> nat option list" where
  "fresh_refs p mi c r f = [p, mi, c, r, f] @ replicate 40 None"

lemma fresh_refs_simps [simp]:
  "length (fresh_refs p mi c r f) = 45"
  "fresh_refs p mi c r f ! 0 = p" "fresh_refs p mi c r f ! Suc 0 = mi" "fresh_refs p mi c r f ! 2 = c"
  "fresh_refs p mi c r f ! 3 = r" "fresh_refs p mi c r f ! 4 = f"
  "(fresh_refs p mi c r f)[0 := q] = fresh_refs q mi c r f"
  "(fresh_refs p mi c r f)[Suc 0 := q] = fresh_refs p q c r f"
  "(fresh_refs p mi c r f)[2 := q] = fresh_refs p mi q r f"
  "(fresh_refs p mi c r f)[3 := q] = fresh_refs p mi c q f"
  "(fresh_refs p mi c r f)[4 := q] = fresh_refs p mi c r q"
  by (simp_all add: fresh_refs_def numeral_eq_Suc)

lemma fresh_refs_empty: "layout B {} (fresh_refs None None None None None) kinds B"
  using layout_empty by (simp add: fresh_refs_def numeral_eq_Suc)


lemma fresh_refs_refs:
  assumes "layout B {} (fresh_refs p (ll_mac m) (li_ctrlpkt i) (li_ctrlpkt_recv i) (li_frame i)) kinds (objects h)"
    and "map lp_data (all_packets i) = replicate 40 None" and "sized i"
    and "load_layer h p = Inr m" and "load_internals h (ll_mac m) = Inr i"
  shows "node B {} p m i h"
  using assms by (auto simp: node_def parts_def refs_def fresh_refs_def load_internals_iff)

definition fresh_internals :: "(nat \<Rightarrow> heap_object option) \<Rightarrow> nat option \<Rightarrow> nat option \<times> c_heap \<Rightarrow> bool" where
  "fresh_internals B p r \<longleftrightarrow> (\<exists>i. load_internals (snd r) (fst r) = Inr i \<and> sized i \<and>
     map lp_data (all_packets i) = replicate 40 None \<and>
     layout B {} (fresh_refs p (fst r) (li_ctrlpkt i) (li_ctrlpkt_recv i) (li_frame i)) kinds (objects (snd r)))"

lemma store_fresh_internals:
  assumes lay: "layout B {} (fresh_refs p (Some b) (li_ctrlpkt i) (li_ctrlpkt_recv i) (li_frame i)) kinds (objects h)"
    and "li_message_packets_to_send i = replicate 10 zero_datapacket_linux"
      "li_control_packets_to_send i = replicate 10 zero_datapacket_linux"
      "li_packets_received i = replicate 20 zero_datapacket_linux"
  shows "safe (fresh_internals B p)
    (rbind (store h (Some b) (Internals_object i)) (\<lambda>h'. Inr (Some b, h')))"
proof -
  have "sized i \<and> map lp_data (all_packets i) = replicate 40 None"
    using assms(2-4) by (simp add: sized_def all_packets_def zero_datapacket_linux_def flip: replicate_add)
  with layout_store [OF lay, of "Suc 0" b "Internals_object i"] kinds_nth(2) show ?thesis
    by (auto simp: fresh_internals_def load_internals_iff)
qed

lemma internals_init_safe:
  assumes al: "fresh_addresses al" and lay: "layout B {} (fresh_refs p None None None None) kinds (objects h)"
  shows "safe (fresh_internals B p) (MAC_internals_init_linux al radio h)"
proof -
  let ?zero = zero_internals_linux
  obtain mi h1 where m1: "c_malloc al (Internals_object ?zero) h = (mi, h1)"
    by (cases "c_malloc al (Internals_object ?zero) h")
  from layout_malloc [OF lay _ _ _ al m1, of "Suc 0"] kinds_nth(2)
  have lay1: "layout B {} (fresh_refs p mi None None None) kinds (objects h1)" by simp
  show ?thesis
  proof (cases mi)
    case (Some b)
    have st: "store h' (Some b) (Internals_object i) = Inr (put h' b (Internals_object i))"
      "layout B {} (fresh_refs p mi c r f) kinds (objects (put h' b (Internals_object i)))"
      if "layout B {} (fresh_refs p mi c r f) kinds (objects h')" for h' i c r f
      using layout_store [OF that, of "Suc 0" b "Internals_object i"] Some kinds_nth(2) by simp_all
    let ?h1 = "put h1 b (Internals_object ?zero)"
    have zeroed: "malloc_zeroed al (Internals_object ?zero) h = Inr (mi, ?h1)"
      by (simp add: malloc_zeroed_def m1 Some st(1) [OF lay1])
    obtain f h2 where m2: "c_malloc al (Frame_object zero_frame) ?h1 = (f, h2)"
      by (cases "c_malloc al (Frame_object zero_frame) ?h1")
    from layout_malloc [OF st(2) [OF lay1] _ _ _ al m2, of 4] kinds_nth(5)
    have lay2: "layout B {} (fresh_refs p mi None None f) kinds (objects h2)" by simp
    have twenty: "replicate 10 zero_datapacket_linux @ replicate 10 zero_datapacket_linux =
      replicate 20 zero_datapacket_linux" by (simp flip: replicate_add)
    show ?thesis
    proof (cases f)
      case None
      show ?thesis
        unfolding MAC_internals_init_linux_def zeroed rbind_simps prod.case Let_def m2 None option.case \<open>mi = Some b\<close>
        by (rule store_fresh_internals) (use lay2 None \<open>mi = Some b\<close> in \<open>simp_all add: zero_internals_linux_def\<close>)
    next
      case (Some fa)
      from layout_store [OF lay2, of 4 fa "Frame_object zero_frame"] Some kinds_nth(5)
      have s3: "store h2 f (Frame_object zero_frame) = Inr (put h2 fa (Frame_object zero_frame))"
        and lay3: "layout B {} (fresh_refs p mi None None f) kinds (objects (put h2 fa (Frame_object zero_frame)))"
        by simp_all
      show ?thesis
        unfolding MAC_internals_init_linux_def zeroed rbind_simps prod.case Let_def m2 Some option.case
          s3 [unfolded Some]
      proof (rule safe_rbind [OF control_init_layout [OF lay3 _ _ _ al, of 2]], goal_cases)
        case (4 x)
        then obtain c h4 where x: "x = (c, h4)" and lay4: "layout B {} (fresh_refs p mi c None f) kinds (objects h4)"
          by (cases x) auto
        show ?case
          unfolding x prod.case
        proof (rule safe_rbind [OF control_init_layout [OF lay4 _ _ _ al, of 3]], goal_cases)
          case (4 y)
          then obtain r h5 where y: "y = (r, h5)" and lay5: "layout B {} (fresh_refs p mi c r f) kinds (objects h5)"
            by (cases y) auto
          show ?case
            unfolding y prod.case \<open>mi = Some b\<close>
            by (rule store_fresh_internals)
              (use lay5 Some \<open>mi = Some b\<close> in \<open>simp_all add: zero_internals_linux_def twenty\<close>)
        qed (simp_all add: kinds_nth)
      qed (simp_all add: kinds_nth)
    qed
  next
    case None
    then show ?thesis by (simp add: MAC_internals_init_linux_def malloc_zeroed_def m1 store_def)
  qed
qed


definition started :: "(nat \<Rightarrow> heap_object option) \<Rightarrow> nat option \<Rightarrow> c_heap \<Rightarrow> bool" where
  "started B p h \<longleftrightarrow> (p = None \<and> objects h = B) \<or> (\<exists>m i. node B {} p m i h)"

lemma create_queue_linux_safe: "safe (\<lambda>_. True) (create_queue_linux Q n k a stk)"
  by (simp add: create_queue_linux_def Let_def split: option.split)

lemma init_linux_safe:
  assumes al: "fresh_addresses al"
  shows "safe (\<lambda>(p, Q', h'). started (objects h) p h') (MCLMAC_init_linux al radio Q h)"
proof -
  obtain p h1 where m1: "c_malloc al (Layer_object zero_layer_linux) h = (p, h1)"
    by (cases "c_malloc al (Layer_object zero_layer_linux) h")
  from layout_malloc [OF fresh_refs_empty _ _ _ al m1, of 0] kinds_nth(1)
  have lay1: "layout (objects h) {} (fresh_refs p None None None None) kinds (objects h1)" by simp
  show ?thesis
  proof (cases p)
    case None
    then have "objects h1 = objects h" using m1 by (auto simp: c_malloc_def split: option.splits)
    with None show ?thesis by (simp add: MCLMAC_init_linux_def m1 started_def)
  next
    case (Some a)
    note st = layout_store [of "objects h" "{}" _ kinds _ 0 a "Layer_object m" for m, simplified kinds_nth kind_of.simps]
    have st: "store h' (Some a) (Layer_object m) = Inr (put h' a (Layer_object m))"
      "layout (objects h) {} (fresh_refs p mi c r f) kinds (objects (put h' a (Layer_object m)))"
      if "layout (objects h) {} (fresh_refs p mi c r f) kinds (objects h')" for h' mi c r f m
      using layout_store [OF that, of 0 a "Layer_object m"] Some kinds_nth(1) by simp_all
    note internals = internals_init_safe [OF al st(2) [OF lay1]]
    show ?thesis
      unfolding MCLMAC_init_linux_def m1 Some prod.case option.case st(1) [OF lay1] rbind_simps Let_def
    proof (rule safe_rbind [OF internals], clarify, rule safe_rbind [OF create_queue_linux_safe], clarify, goal_cases)
      case (1 mi h3 qid stk Q')
      then obtain i where lay: "layout (objects h) {} (fresh_refs p mi (li_ctrlpkt i) (li_ctrlpkt_recv i) (li_frame i)) kinds (objects h3)"
        and i: "load_internals h3 mi = Inr i" "sized i" "map lp_data (all_packets i) = replicate 40 None"
        by (auto simp: fresh_internals_def)
      obtain b where b: "mi = Some b" "objects h3 b = Some (Internals_object i)"
        using i(1) by (auto simp: load_internals_iff)
      have "b \<noteq> a"
        using pointers_nth_distinct [OF layoutD(1) [OF lay], of 0 1 a b] b(1) Some by simp
      then have "load_internals (put h3 a (Layer_object m)) mi = Inr i" for m
        using b by (simp add: load_internals_iff)
      then have N: "node (objects h) {} (Some a) m i (put h3 a (Layer_object m))" if "ll_mac m = mi" for m
        using st(2) [OF lay] i that Some by (intro fresh_refs_refs) (auto simp: load_layer_iff)
      show ?case
        unfolding st(1) [OF lay] rbind_simps prod.case safe_simps started_def
        by (intro disjI2 exI) (rule N, simp)
    qed
  qed
qed

text \<open>Destruction leaves the arrays of the packets that the loop over them does not reach.\<close>

definition leftover :: "MAC_Internals_linux_t \<Rightarrow> nat set" where
  "leftover i = set (pointers (drop 10 (map lp_data (li_packets_received i))))"

definition final_refs :: "nat option list \<Rightarrow> MAC_Internals_linux_t \<Rightarrow> nat option list" where
  "final_refs qs i = qs @ replicate 30 None @ drop 10 (map lp_data (li_packets_received i))"

lemma final_free:
  assumes "layout B X (final_refs qs i) kinds (objects h)" and "k < length qs"
  shows "\<exists>h'. c_free (qs ! k) h = Inr h' \<and> layout B X (final_refs (qs[k := None]) i) kinds (objects h')"
  using layout_free [OF assms(1), of k "qs ! k"] assms(2)
  by (simp add: final_refs_def nth_append list_update_append)

lemma cleared_refs:
  assumes "sized i" and "cleared [0..<10] i i'"
  shows "refs p m i' = final_refs [p, ll_mac m, li_ctrlpkt i', li_ctrlpkt_recv i', li_frame i'] i"
proof -
  have "forget [0..<10] ps = replicate 10 None @ drop 10 ps" if "length ps \<ge> 10" for ps
    using forget_first that by blast
  with assms have "map lp_data (all_packets i') =
      (replicate 10 None @ replicate 10 None @ replicate 10 None) @ drop 10 (map lp_data (li_packets_received i))"
    by (simp add: cleared_def all_packets_def sized_def del: upt_rec_numeral)
  also have "replicate 10 None @ replicate 10 None @ replicate 10 None = replicate 30 (None :: nat option)"
    by (simp flip: replicate_add)
  finally show ?thesis by (simp add: refs_def final_refs_def)
qed

lemma internals_destroy_safe:
  assumes h: "node B X p m i h"
  shows "\<exists>h'. MAC_internals_destroy_linux h (ll_mac m) = Inr (None, h') \<and>
    layout B X (final_refs [p, None, None, None, None] i) kinds (objects h')"
proof -
  have parts: "parts B X p m i h" and i: "load_internals h (ll_mac m) = Inr i" using h by (simp_all add: node_def)
  from clear_packets_linux_result [OF parts] obtain i' h1 where
    c: "clear_packets_linux h i = Inr (i', h1)" "parts B X p m i' h1" "cleared [0..<10] i i'" by blast
  note D = partsD [OF c(2)]
  from D(1) cleared_refs [OF partsD(2) [OF parts] c(3)]
  have lay1: "layout B X (final_refs [p, ll_mac m, li_ctrlpkt i', li_ctrlpkt_recv i', li_frame i'] i) kinds (objects h1)"
    by simp
  note free = final_free [where qs = "[_, _, _, _, _]"]
  from free [OF lay1, of 2] obtain h2 where h2: "c_free (li_ctrlpkt i') h1 = Inr h2"
    "layout B X (final_refs [p, ll_mac m, None, li_ctrlpkt_recv i', li_frame i'] i) kinds (objects h2)"
    by (auto simp: numeral_eq_Suc)
  from free [OF h2(2), of 3] obtain h3 where h3: "c_free (li_ctrlpkt_recv i') h2 = Inr h3"
    "layout B X (final_refs [p, ll_mac m, None, None, li_frame i'] i) kinds (objects h3)"
    by (auto simp: numeral_eq_Suc)
  from free [OF h3(2), of 4] obtain h4 where h4: "c_free (li_frame i') h3 = Inr h4"
    "layout B X (final_refs [p, ll_mac m, None, None, None] i) kinds (objects h4)"
    by (auto simp: numeral_eq_Suc)
  from free [OF h4(2), of 1] obtain h5 where h5: "c_free (ll_mac m) h4 = Inr h5"
    "layout B X (final_refs [p, None, None, None, None] i) kinds (objects h5)"
    by auto
  have ctrl: "(if q \<noteq> None then controlpacket_destroy_linux q h else Inr (None, h)) = rbind (c_free q h) (\<lambda>h'. Inr (None, h'))"
    and frame: "(if q \<noteq> None then c_free q h else Inr h) = c_free q h" for q h
    by (auto simp: controlpacket_destroy_linux_def c_free_def)
  have "ll_mac m \<noteq> None" using D(5) by auto
  then have "MAC_internals_destroy_linux h (ll_mac m) = Inr (None, h5)"
    unfolding MAC_internals_destroy_linux_def i c(1) rbind_simps prod.case ctrl frame h2(1) h3(1) h4(1) h5(1)
    by simp
  with h5(2) show ?thesis by blast
qed


lemma finite_leftover: "sized i \<Longrightarrow> finite (leftover i) \<and> card (leftover i) \<le> 10"
proof -
  assume "sized i"
  have "length (pointers ps) \<le> length ps" for ps by (induction ps rule: pointers.induct) auto
  from this [of "drop 10 (map lp_data (li_packets_received i))"] \<open>sized i\<close> show ?thesis
    by (auto simp: leftover_def sized_def intro: order_trans [OF card_length])
qed

text \<open>What the heap is when the layer is gone.\<close>

definition destroyed :: "(nat \<Rightarrow> heap_object option) \<Rightarrow> nat set \<Rightarrow> (nat \<Rightarrow> heap_object option) \<Rightarrow> bool" where
  "destroyed B X M \<longleftrightarrow> (\<forall>a \<in> dom B. M a = B a) \<and>
     (\<exists>R. finite R \<and> card R \<le> 10 \<and> dom M = dom B \<union> X \<union> R)"

lemma destroy_linux_safe:
  assumes n: "alive B X p n"
  shows "safe (\<lambda>(q, n'). q = None \<and> destroyed B X (objects (ln_heap n'))) (MCLMAC_destroy_linux os p n)"
proof -
  from n obtain m i where h: "node B X p m i (ln_heap n)" by (auto simp: alive_def)
  then have m: "load_layer (ln_heap n) p = Inr m" and sz: "sized i" by (simp_all add: node_def parts_def)
  from m obtain a where a: "p = Some a" by (auto simp: load_layer_iff)
  from internals_destroy_safe [OF h] obtain h1 where d: "MAC_internals_destroy_linux (ln_heap n) (ll_mac m) = Inr (None, h1)"
    and lay: "layout B X (final_refs [p, None, None, None, None] i) kinds (objects h1)" by blast
  let ?x = "Layer_object (m\<lparr>ll_mac := None\<rparr>)"
  have at: "0 < length (final_refs [p, None, None, None, None] i)" "final_refs [p, None, None, None, None] i ! 0 = Some a"
    by (simp_all add: final_refs_def a)
  note st = layout_store [OF lay at, of ?x]
  have s: "store h1 (Some a) ?x = Inr (put h1 a ?x)" using st(1) kinds_nth(1) by simp
  have lay2: "layout B X (final_refs [p, None, None, None, None] i) kinds (objects (put h1 a ?x))"
    using st(2) kinds_nth(1) by simp
  from final_free [OF lay2, of 0] a obtain h3 where f: "c_free (Some a) (put h1 a ?x) = Inr h3"
    "layout B X (final_refs [None, None, None, None, None] i) kinds (objects h3)" by auto
  have "pointers (replicate k None) = []" for k by (induction k) simp_all
  then have "set (pointers (final_refs [None, None, None, None, None] i)) = leftover i"
    by (simp add: final_refs_def leftover_def)
  with layoutD [OF f(2)] finite_leftover [OF sz] have "destroyed B X (objects h3)"
    unfolding destroyed_def by (intro conjI ballI exI [of _ "leftover i"]) auto
  then show ?thesis
    unfolding MCLMAC_destroy_linux_def m rbind_simps d prod.case
    by (intro safe_assert safe_rbind [OF close_own_queue_safe]) (auto simp: a s f(1))
qed

section \<open>A run of the program\<close>

text \<open>
  The functions of this theory in any order, and between them any assignment to the other fields of the
  two structures, which is what the functions without allocation do, and any work of the other
  layers on the queues, in the kernel and with the timers.
\<close>

datatype 'k linux_call =
    Create_control
  | Send_control
  | Send_cf
  | Receive_control
  | Receive_ctrlpkt_sync "rat \<Rightarrow> rat" "timespec option" bool ControlPacket_t
  | Send_data
  | Receive_data
  | Read_queue
  | Write_queue
  | Clear_layer
  | Assign_layer MCLMAC_linux_t
  | Assign_internals MAC_Internals_linux_t
  | Elsewhere IPC_Queues_linux_t 'k timeout_linux_t

definition assign_layer_linux :: "nat option \<Rightarrow> MCLMAC_linux_t \<Rightarrow> 'k linux_node \<Rightarrow> 'k linux_node result" where
  "assign_layer_linux p l n = with_layer p n (\<lambda>m.
     rbind (store (ln_heap n) p (Layer_object (l\<lparr>ll_mac := ll_mac m\<rparr>))) (\<lambda>h. Inr (n\<lparr>ln_heap := h\<rparr>)))"

definition assign_internals_linux ::
    "nat option \<Rightarrow> MAC_Internals_linux_t \<Rightarrow> 'k linux_node \<Rightarrow> 'k linux_node result" where
  "assign_internals_linux p j n = with_mac p n (\<lambda>m i.
     rbind (store (ln_heap n) (ll_mac m) (Internals_object (j\<lparr>li_ctrlpkt := li_ctrlpkt i,
         li_ctrlpkt_recv := li_ctrlpkt_recv i, li_frame := li_frame i,
         li_message_packets_to_send := li_message_packets_to_send i,
         li_control_packets_to_send := li_control_packets_to_send i,
         li_packets_received := li_packets_received i\<rparr>))) (\<lambda>h. Inr (n\<lparr>ln_heap := h\<rparr>)))"

fun call_linux ::
    "'k posix \<Rightarrow> allocator \<Rightarrow> nat option \<Rightarrow> 'k linux_call \<Rightarrow> 'k linux_node \<Rightarrow> 'k linux_node result" where
  "call_linux os al p Create_control n = mclmac_create_control_packet_linux p n"
| "call_linux os al p Send_control n = mclmac_send_control_packet_linux al p n"
| "call_linux os al p Send_cf n = mclmac_send_cf_message_linux al p n"
| "call_linux os al p Receive_control n =
     rbind (mclmac_receive_control_packet_linux al p n) (\<lambda>(_, n'). Inr n')"
| "call_linux os al p (Receive_ctrlpkt_sync rnd clock ok pkt) n =
     rbind (mclmac_receive_ctrlpkt_sync_linux rnd clock ok al p pkt n) (\<lambda>(_, _, n'). Inr n')"
| "call_linux os al p Send_data n = mclmac_send_data_packet_linux al p n"
| "call_linux os al p Receive_data n =
     rbind (mclmac_receive_data_packet_linux al p n) (\<lambda>(_, n'). Inr n')"
| "call_linux os al p Read_queue n =
     rbind (mclmac_read_queue_element_linux os al p n) (\<lambda>(_, n'). Inr n')"
| "call_linux os al p Write_queue n =
     rbind (mclmac_write_queue_element_linux os al p n) (\<lambda>(_, n'). Inr n')"
| "call_linux os al p Clear_layer n = MCLMAC_clear_linux os p n"
| "call_linux os al p (Assign_layer l) n = assign_layer_linux p l n"
| "call_linux os al p (Assign_internals j) n = assign_internals_linux p j n"
| "call_linux os al p (Elsewhere Q k t) n = Inr (n\<lparr>ln_queues := Q, ln_kernel := k, ln_timers := t\<rparr>)"

fun linux_run ::
    "'k posix \<Rightarrow> allocator \<Rightarrow> nat option \<Rightarrow> 'k linux_call list \<Rightarrow> 'k linux_node \<Rightarrow> 'k linux_node result" where
  "linux_run os al p [] n = Inr n"
| "linux_run os al p (c # cs) n = rbind (call_linux os al p c n) (linux_run os al p cs)"

definition linux_program ::
    "'k posix \<Rightarrow> allocator \<Rightarrow> nat option \<Rightarrow> 'k linux_call list \<Rightarrow> 'k linux_node \<Rightarrow>
     (nat option \<times> 'k linux_node) result" where
  "linux_program os al radio cs n =
     rbind (MCLMAC_init_linux al radio (ln_queues n) (ln_heap n)) (\<lambda>(p, Q, h).
     rbind (linux_run os al p cs (n\<lparr>ln_heap := h, ln_queues := Q\<rparr>)) (MCLMAC_destroy_linux os p))"

text \<open>The calls that may lose a block.\<close>

fun loses :: "'k linux_call \<Rightarrow> bool" where
  "loses (Receive_ctrlpkt_sync _ _ _ _) = True"
| "loses Write_queue = True"
| "loses _ = False"

lemma assign_linux_safe:
  assumes n: "alive B X p n"
  shows "safe (alive B X p) (assign_layer_linux p l n)" "safe (alive B X p) (assign_internals_linux p j n)"
proof -
  show "safe (alive B X p) (assign_layer_linux p l n)"
    unfolding assign_layer_linux_def
  proof (rule safe_with_layer [OF n], goal_cases)
    case (1 m i)
    from store_layer [OF this, of "l\<lparr>ll_mac := ll_mac m\<rparr>"] obtain h where
      "store (ln_heap n) p (Layer_object (l\<lparr>ll_mac := ll_mac m\<rparr>)) = Inr h" "node B X p (l\<lparr>ll_mac := ll_mac m\<rparr>) i h"
      by auto
    then show ?case by (auto intro: aliveI)
  qed
  show "safe (alive B X p) (assign_internals_linux p j n)"
    unfolding assign_internals_linux_def
  proof (rule safe_with_mac [OF n], rule safe_store_internals [where B = B and X = X and p = p], goal_cases)
    case (1 m i)
    then show ?case by (simp add: parts_def refs_def all_packets_def sized_def)
  qed (auto intro: aliveI)
qed

lemma call_linux_safe:
  assumes al: "fresh_addresses al" and os: "kernel_calls os" and n: "alive B X p n"
  shows "safe (if loses c then alive_or_lost B X p else alive B X p) (call_linux os al p c n)"
proof -
  note safe = create_control_linux_safe [OF n] send_control_linux_safe [OF al n] send_cf_linux_safe [OF al n]
    receive_control_linux_safe [OF al n] receive_ctrlpkt_sync_linux_safe [OF al n] send_data_linux_safe [OF al n]
    receive_data_linux_safe [OF al n] read_queue_linux_safe [OF al os n] write_queue_linux_safe [OF al os n]
    clear_linux_safe [OF n] assign_linux_safe [OF n]
  show ?thesis
    by (cases c) (auto intro!: safe_rbind [OF safe(4)] safe_rbind [OF safe(5)] safe_rbind [OF safe(7)]
      safe_rbind [OF safe(8)] safe_rbind [OF safe(9)] safe alive_heap [OF _ n])
qed

definition lost_at_most :: "(nat \<Rightarrow> heap_object option) \<Rightarrow> nat \<Rightarrow> nat option \<Rightarrow> 'k linux_node \<Rightarrow> bool" where
  "lost_at_most B k p n \<longleftrightarrow> (\<exists>X. finite X \<and> card X \<le> k \<and> alive B X p n)"

lemma linux_run_safe:
  fixes n :: "'k linux_node"
  assumes al: "fresh_addresses al" and os: "kernel_calls os"
  shows "lost_at_most B k p n \<Longrightarrow>
    safe (lost_at_most B (k + length (filter loses cs)) p) (linux_run os al p cs n)"
proof (induction cs arbitrary: k n)
  case (Cons c cs)
  from Cons.prems obtain X where X: "finite X" "card X \<le> k" "alive B X p n" by (auto simp: lost_at_most_def)
  have step: "lost_at_most B (if loses c then k + 1 else k) p n'"
    if "(if loses c then alive_or_lost B X p else alive B X p) n'" for n' :: "'k linux_node"
  proof (cases "alive B X p n'")
    case True
    with X show ?thesis by (auto simp: lost_at_most_def intro!: exI [of _ X])
  next
    case False
    with that obtain a where "loses c" "a \<notin> X" "alive B (insert a X) p n'"
      by (auto simp: alive_or_lost_def split: if_splits)
    with X show ?thesis by (auto simp: lost_at_most_def intro!: exI [of _ "insert a X"])
  qed
  show ?case
    unfolding linux_run.simps
  proof (rule safe_rbind [OF call_linux_safe [OF al os X(3), of c]])
    fix n' :: "'k linux_node" assume "(if loses c then alive_or_lost B X p else alive B X p) n'"
    from Cons.IH [OF step [OF this]] show "safe (lost_at_most B (k + length (filter loses (c # cs))) p) (linux_run os al p cs n')"
      by (cases "loses c") simp_all
  qed
qed simp

text \<open>Without memory for the layer nothing works.\<close>

lemma null_layer_destroy: "MCLMAC_destroy_linux os None n = Inl Assertion_failed"
  by (simp add: MCLMAC_destroy_linux_def)

lemma null_layer_call: "safe (\<lambda>_. True) (call_linux os al None c n)"
  by (cases c) (simp_all add: mclmac_create_control_packet_linux_def mclmac_send_control_packet_linux_def
    mclmac_send_cf_message_linux_def mclmac_receive_control_packet_linux_def
    mclmac_receive_ctrlpkt_sync_linux_def mclmac_send_data_packet_linux_def
    mclmac_receive_data_packet_linux_def mclmac_read_queue_element_linux_def
    mclmac_write_queue_element_linux_def MCLMAC_clear_linux_def assign_layer_linux_def
    assign_internals_linux_def with_mac_def with_layer_def)

lemma null_layer_run: "safe (\<lambda>_. True) (linux_run os al None cs n)"
  by (induction cs arbitrary: n) (auto intro!: safe_rbind [OF null_layer_call])

lemma program_safe:
  fixes n :: "'k linux_node"
  assumes al: "fresh_addresses al" and os: "kernel_calls os"
  shows "safe (\<lambda>(p, n'). p = None \<and> (\<exists>X. finite X \<and> card X \<le> length (filter loses cs) \<and>
      destroyed (objects (ln_heap n)) X (objects (ln_heap n')))) (linux_program os al radio cs n)"
  unfolding linux_program_def
proof (rule safe_rbind [OF init_linux_safe [OF al]], clarify)
  fix p Q h assume start: "started (objects (ln_heap n)) p h"
  let ?n = "n\<lparr>ln_heap := h, ln_queues := Q\<rparr>"
  show "safe (\<lambda>(p, n'). p = None \<and> (\<exists>X. finite X \<and> card X \<le> length (filter loses cs) \<and>
      destroyed (objects (ln_heap n)) X (objects (ln_heap n'))))
    (rbind (linux_run os al p cs ?n) (MCLMAC_destroy_linux os p))"
  proof (cases p)
    case None
    show ?thesis
      unfolding None by (rule safe_rbind [OF null_layer_run]) (simp add: null_layer_destroy)
  next
    case (Some a)
    with start have "alive (objects (ln_heap n)) {} p ?n" by (auto simp: started_def alive_def)
    then have "lost_at_most (objects (ln_heap n)) 0 p ?n"
      unfolding lost_at_most_def by (intro exI [of _ "{}"]) simp
    from linux_run_safe [OF al os this, of cs] show ?thesis
    proof (rule safe_rbind)
      fix n1 :: "'k linux_node" assume "lost_at_most (objects (ln_heap n)) (0 + length (filter loses cs)) p n1"
      then obtain X where "finite X" "card X \<le> length (filter loses cs)" "alive (objects (ln_heap n)) X p n1"
        by (auto simp: lost_at_most_def)
      then show "safe (\<lambda>(p, n'). p = None \<and> (\<exists>X. finite X \<and> card X \<le> length (filter loses cs) \<and>
          destroyed (objects (ln_heap n)) X (objects (ln_heap n')))) (MCLMAC_destroy_linux os p n1)"
        by (intro safe_mono [OF destroy_linux_safe]) auto
    qed
  qed
qed

section \<open>Properties\<close>

text \<open>An allocator that takes the lowest free address, and a node before the layer is initialised.\<close>

definition lowest_free :: allocator where
  "lowest_free = \<lparr>alloc_address = (\<lambda>n m. find (\<lambda>a. m a = None) [0..<n + 1]), alloc_junk = (\<lambda>_ _. 0)\<rparr>"

lemma lowest_free_fresh: "fresh_addresses lowest_free"
  by (auto simp: fresh_addresses_def lowest_free_def find_Some_iff split: if_splits)

text \<open>There is memory as long as there are not more blocks than calls of \<open>malloc\<close> so far.\<close>

definition has_room :: "allocator \<Rightarrow> bool" where
  "has_room al \<longleftrightarrow> (\<forall>k m. finite (dom m) \<and> card (dom m) \<le> k \<longrightarrow> alloc_address al k m \<noteq> None)"

lemma lowest_free_room: "has_room lowest_free"
proof -
  have "find (\<lambda>a. m a = None) [0..<Suc k] \<noteq> None" if m: "finite (dom m)" "card (dom m) \<le> k" for k and m :: "nat \<Rightarrow> heap_object option"
  proof
    assume "find (\<lambda>a. m a = None) [0..<Suc k] = None"
    then have "{..<Suc k} \<subseteq> dom m" by (auto simp: find_None_iff simp del: upt_Suc)
    from card_mono [OF m(1) this] m(2) show False by simp
  qed
  then show ?thesis by (simp add: has_room_def lowest_free_def del: upt_Suc)
qed

lemma mk_posix_calls: "kernel_calls mk_posix"
  by (auto simp: kernel_calls_def mk_posix_def mk_send_def mk_receive_def split: option.splits if_splits list.splits)

definition start_node :: "mq_kernel linux_node" where
  "start_node =
     \<lparr>ln_heap = \<lparr>objects = (\<lambda>_. None), calls = 0\<rparr>,
      ln_queues = init_queues_linux static_queues_linux, ln_kernel = mk_start 0 0,
      ln_timers = snd (timeout_init_linux 0 0 0), ln_rand = (\<lambda>_. 0)\<rparr>"

text \<open>
  C32. From \<open>MCLMAC_init\<close> over any sequence of calls to \<open>MCLMAC_destroy\<close> no function of the layer
  follows or releases a pointer to a block that is not allocated, whichever calls of \<open>malloc\<close> fail. When
  all of them return, the pointer to the layer is null again, the blocks of the rest of the program are
  as they were, and the layer has left behind at most ten blocks, the arrays of the ten packets
  that are never cleared, and one for each call of the two functions that may lose their byte string.
\<close>

theorem linux_memory_safe:
  assumes "fresh_addresses al" and "kernel_calls os"
  shows "case linux_program os al radio cs n of
      Inl e \<Rightarrow> e \<noteq> Dangling_pointer
    | Inr (p, n') \<Rightarrow>
        (let M = objects (ln_heap n); M' = objects (ln_heap n')
         in p = None \<and> (\<forall>a. M a \<noteq> None \<longrightarrow> M' a = M a) \<and> finite (dom M' - dom M) \<and>
            card (dom M' - dom M) \<le> 10 + length (filter loses cs))"
proof (cases "linux_program os al radio cs n")
  case (Inl e)
  with program_safe [OF assms, of cs n radio] show ?thesis by simp
next
  case (Inr r)
  then obtain p n' where r: "linux_program os al radio cs n = Inr (p, n')" by (cases r) simp
  let ?M = "objects (ln_heap n)" and ?M' = "objects (ln_heap n')"
  from program_safe [OF assms, of cs n radio] r obtain X where p: "p = None"
    and X: "finite X" "card X \<le> length (filter loses cs)" and d: "destroyed ?M X ?M'" by auto
  from d obtain R where R: "finite R" "card R \<le> 10" "dom ?M' = dom ?M \<union> X \<union> R" by (auto simp: destroyed_def)
  then have sub: "dom ?M' - dom ?M \<subseteq> X \<union> R" by auto
  then have "card (dom ?M' - dom ?M) \<le> card (X \<union> R)" using X(1) R(1) by (intro card_mono) auto
  moreover have "card (X \<union> R) \<le> card X + card R" by (rule card_Un_le)
  moreover have "?M' a = ?M a" if "?M a \<noteq> None" for a using d that by (auto simp: destroyed_def)
  ultimately show ?thesis
    using X(1,2) R(1,2) sub p r by (auto simp: Let_def intro: finite_subset)
qed



lemma destroy_linux_returns:
  assumes "alive B X p n" and "load_layer (ln_heap n) p = Inr m"
    and "close_own_queue os (ll_mac_queue_id m) (ln_queues n) (ln_kernel n) = Inr (Q, k)"
  shows "\<exists>n'. MCLMAC_destroy_linux os p n = Inr (None, n')"
proof -
  from assms(1) obtain m' i where h: "node B X p m' i (ln_heap n)" by (auto simp: alive_def)
  then have [simp]: "m' = m" using assms(2) by (simp add: node_def parts_def)
  from assms(2) obtain a where a: "p = Some a" by (auto simp: load_layer_iff)
  from internals_destroy_safe [OF h] obtain h1 where d: "MAC_internals_destroy_linux (ln_heap n) (ll_mac m) = Inr (None, h1)"
    and lay: "layout B X (final_refs [p, None, None, None, None] i) kinds (objects h1)" by auto
  then have "objects h1 a \<noteq> None"
    using layout_at(1) [OF lay, of 0 a] by (auto simp: final_refs_def a)
  then show ?thesis
    using assms(2,3) d a by (simp add: MCLMAC_destroy_linux_def store_def c_free_def)
qed

lemma init_start_node:
  "\<exists>Q h m i f. MCLMAC_init_linux lowest_free None (ln_queues start_node) (ln_heap start_node) = Inr (Some 0, Q, h) \<and>
    load_layer h (Some 0) = Inr m \<and> ll_mac_queue_id m = 1 \<and> load_internals h (ll_mac m) = Inr i \<and>
    load_frame h (li_frame i) = Inr f \<and> calls h = 5 \<and> dom (objects h) = {0, 1, 2, 3, 4}"
  by (simp add: start_node_def c_malloc_def lowest_free_def store_def put_def MCLMAC_init_linux_def
      MAC_internals_init_linux_def malloc_zeroed_def controlpacket_init_linux_def Let_def
      init_static_linux replicate_10 create_queue_linux_def no_queue_linux_def no_thread_linux_def
      queue_name_1_2 NAME_BYTES_def load_layer_def load_internals_def load_frame_def load_def)
    auto


text \<open>Listening returns nothing and keeps its byte string.\<close>

lemma listening:
  assumes h: "node B X p m i (ln_heap n)" and f: "load_frame (ln_heap n) (li_frame i) = Inr f"
    and al: "fresh_addresses al"
  shows "\<exists>t. mclmac_receive_ctrlpkt_sync_linux rnd clock ok al p pkt n =
    Inr (False, pkt, n\<lparr>ln_heap := snd (malloc_bytes al 256 (ln_heap n)), ln_timers := t\<rparr>)"
proof -
  have load: "p \<noteq> None" "load_layer (ln_heap n) p = Inr m" "load_internals (ln_heap n) (ll_mac m) = Inr i"
    using h by (auto simp: node_def parts_def load_layer_iff)
  show ?thesis
    by (auto simp: mclmac_receive_ctrlpkt_sync_linux_def with_mac_def with_layer_def load f Let_def split: prod.split)
qed

lemma load_frame_malloc:
  assumes "load_frame h q = Inr f" and "fresh_addresses al"
  shows "load_frame (snd (malloc_bytes al n h)) q = Inr f"
proof -
  obtain r h' where m: "malloc_bytes al n h = (r, h')" by (cases "malloc_bytes al n h")
  from assms(2) m show ?thesis
    by (cases rule: malloc_bytes_cases)
      (use assms(1) in \<open>auto simp: m load_frame_def load_def rbind_eq_Inr split: option.splits if_splits\<close>)
qed

lemma listen_each:
  assumes al: "fresh_addresses al" "has_room al"
  shows "node B X p m i (ln_heap n) \<Longrightarrow> load_frame (ln_heap n) (li_frame i) = Inr f \<Longrightarrow>
    finite (dom (objects (ln_heap n))) \<Longrightarrow> card (dom (objects (ln_heap n))) \<le> calls (ln_heap n) \<Longrightarrow>
    \<exists>n' Y. linux_run os al p (replicate k (Receive_ctrlpkt_sync rnd clock ok pkt)) n = Inr n' \<and>
      node B (X \<union> Y) p m i (ln_heap n') \<and> load_frame (ln_heap n') (li_frame i) = Inr f \<and>
      finite Y \<and> X \<inter> Y = {} \<and> card Y = k"
proof (induction k arbitrary: n X)
  case (Suc k)
  from listening [OF Suc.prems(1,2) al(1)] obtain t where
    l: "mclmac_receive_ctrlpkt_sync_linux rnd clock ok al p pkt n =
      Inr (False, pkt, n\<lparr>ln_heap := snd (malloc_bytes al 256 (ln_heap n)), ln_timers := t\<rparr>)" by blast
  let ?n = "n\<lparr>ln_heap := snd (malloc_bytes al 256 (ln_heap n)), ln_timers := t\<rparr>"
  obtain q h1 where m1: "malloc_bytes al 256 (ln_heap n) = (q, h1)" by (cases "malloc_bytes al 256 (ln_heap n)")
  have "alloc_address al (calls (ln_heap n)) (objects (ln_heap n)) \<noteq> None"
    using al(2) Suc.prems(3,4) by (simp add: has_room_def)
  then obtain b where b: "alloc_address al (calls (ln_heap n)) (objects (ln_heap n)) = Some b" by blast
  have "q \<noteq> None" and c: "calls h1 = calls (ln_heap n) + 1"
    using m1 by (auto simp: malloc_bytes_def c_malloc_def b)
  with node_malloc [OF al(1) m1 Suc.prems(1)] obtain a where a: "a \<notin> X" "node B (insert a X) p m i h1" by metis
  have fin: "finite (dom (objects h1)) \<and> card (dom (objects h1)) \<le> calls h1"
    using al(1) m1 by (cases rule: malloc_bytes_cases) (use Suc.prems(3,4) c in \<open>auto simp: card_insert_if\<close>)
  have fr: "load_frame h1 (li_frame i) = Inr f"
    using load_frame_malloc [OF Suc.prems(2) al(1), of 256] m1 by simp
  from Suc.IH [of "insert a X" ?n] a(2) fin fr m1 obtain n' Y where
    r: "linux_run os al p (replicate k (Receive_ctrlpkt_sync rnd clock ok pkt)) ?n = Inr n'"
      "node B (insert a X \<union> Y) p m i (ln_heap n')" "load_frame (ln_heap n') (li_frame i) = Inr f"
      "finite Y" "insert a X \<inter> Y = {}" "card Y = k" by auto
  then have "card (insert a Y) = Suc k" by auto
  with r a(1) show ?case
    by (intro exI [of _ n'] exI [of _ "insert a Y"]) (auto simp: l)
next
  case 0
  then show ?case by (intro exI [of _ n] exI [of _ "{}"]) simp
qed

text \<open>
  C34. A node in the Linux build that waits for control packets never gets one, and every time it
  waits the heap grows by the byte string of a packet: after \<open>k\<close> rounds by \<open>k\<close> blocks.
\<close>

theorem linux_listening_loses_memory:
  assumes "fresh_addresses al" and "has_room al"
    and "node B X p m i (ln_heap n)" and "load_frame (ln_heap n) (li_frame i) = Inr f"
    and "finite (dom (objects (ln_heap n)))" and "card (dom (objects (ln_heap n))) \<le> calls (ln_heap n)"
  shows "\<exists>n'. linux_run os al p (replicate k (Receive_ctrlpkt_sync rnd clock ok pkt)) n = Inr n' \<and>
    card (dom (objects (ln_heap n'))) = card (dom (objects (ln_heap n))) + k \<and>
    (\<exists>n''. mclmac_receive_ctrlpkt_sync_linux rnd clock ok al p pkt n' = Inr (False, pkt, n''))"
proof -
  from listen_each [OF assms, of os k rnd clock ok pkt] obtain n' Y where
    r: "linux_run os al p (replicate k (Receive_ctrlpkt_sync rnd clock ok pkt)) n = Inr n'"
      "node B (X \<union> Y) p m i (ln_heap n')" "load_frame (ln_heap n') (li_frame i) = Inr f"
      "finite Y" "X \<inter> Y = {}" "card Y = k" by blast
  have L: "layout B X (refs p m i) kinds (objects (ln_heap n))"
    "layout B (X \<union> Y) (refs p m i) kinds (objects (ln_heap n'))"
    using assms(3) r(2) by (simp_all add: node_def parts_def)
  note D = layoutD [OF L(1)] and D' = layoutD [OF L(2)]
  have "dom (objects (ln_heap n')) = dom (objects (ln_heap n)) \<union> Y" using D(3) D'(3) by auto
  moreover have "dom (objects (ln_heap n)) \<inter> Y = {}" using D(3) D'(4,5) r(5) by auto
  ultimately have "card (dom (objects (ln_heap n'))) = card (dom (objects (ln_heap n))) + k"
    using assms(5) r(4,6) by (simp add: card_Un_disjoint)
  with r(1) listening [OF r(2,3) assms(1)] show ?thesis by blast
qed



lemma start_node_ready:
  obtains Q h m i f where
    "MCLMAC_init_linux lowest_free None (ln_queues start_node) (ln_heap start_node) = Inr (Some 0, Q, h)"
    "node (objects (ln_heap start_node)) {} (Some 0) m i h" "load_frame h (li_frame i) = Inr f"
    "ll_mac_queue_id m = 1" "calls h = 5" "dom (objects h) = {0, 1, 2, 3, 4}"
proof -
  from init_start_node obtain Q h m i f where
    init: "MCLMAC_init_linux lowest_free None (ln_queues start_node) (ln_heap start_node) = Inr (Some 0, Q, h)"
    and l: "load_layer h (Some 0) = Inr m" "load_internals h (ll_mac m) = Inr i"
    and rest: "load_frame h (li_frame i) = Inr f" "ll_mac_queue_id m = 1" "calls h = 5" "dom (objects h) = {0, 1, 2, 3, 4}"
    by (elim exE conjE) (rule that)
  from init_linux_safe [OF lowest_free_fresh, of "ln_heap start_node" None "ln_queues start_node"] init
  obtain m' i' where N: "node (objects (ln_heap start_node)) {} (Some 0) m' i' h" by (auto simp: started_def)
  have m: "m' = m" using N l(1) by (simp add: node_def parts_def)
  have "i' = i" using N l(2) by (simp add: node_def m)
  with N m have "node (objects (ln_heap start_node)) {} (Some 0) m i h" by (simp only:)
  from that [OF init this rest] show thesis .
qed

lemma linux_listening_loses_memory_witness:
  "\<exists>Q h n'. MCLMAC_init_linux lowest_free None (ln_queues start_node) (ln_heap start_node) = Inr (Some 0, Q, h) \<and>
    linux_run mk_posix lowest_free (Some 0) (replicate 7 (Receive_ctrlpkt_sync (\<lambda>x. x) None True controlpacket_init))
      (start_node\<lparr>ln_heap := h, ln_queues := Q\<rparr>) = Inr n' \<and>
    card (dom (objects (ln_heap n'))) = 12"
proof -
  obtain Q h m i f where
    init: "MCLMAC_init_linux lowest_free None (ln_queues start_node) (ln_heap start_node) = Inr (Some 0, Q, h)"
    and n: "node (objects (ln_heap start_node)) {} (Some 0) m i h" "load_frame h (li_frame i) = Inr f"
    and c: "calls h = 5" "dom (objects h) = {0, 1, 2, 3, 4}" by (rule start_node_ready)
  let ?n = "start_node\<lparr>ln_heap := h, ln_queues := Q\<rparr>"
  have "ln_heap ?n = h" by simp
  from linux_listening_loses_memory [OF lowest_free_fresh lowest_free_room, of _ _ _ m i ?n f mk_posix 7 "\<lambda>x. x" None True controlpacket_init,
      unfolded this, OF n] c
  obtain n' where "linux_run mk_posix lowest_free (Some 0)
      (replicate 7 (Receive_ctrlpkt_sync (\<lambda>x. x) None True controlpacket_init)) ?n = Inr n'"
    "card (dom (objects (ln_heap n'))) = 12" by fastforce
  with init show ?thesis by blast
qed

lemma linux_memory_safe_witness:
  "\<exists>n'. linux_program mk_posix lowest_free None [Receive_ctrlpkt_sync (\<lambda>x. x) None True controlpacket_init]
      start_node = Inr (None, n') \<and>
    card (dom (objects (ln_heap n'))) \<le> 11"
proof -
  let ?cs = "[Receive_ctrlpkt_sync (\<lambda>x. x) None True controlpacket_init] :: mq_kernel linux_call list"
  obtain Q h m i f where
    init: "MCLMAC_init_linux lowest_free None (ln_queues start_node) (ln_heap start_node) = Inr (Some 0, Q, h)"
    and n: "node (objects (ln_heap start_node)) {} (Some 0) m i h" "load_frame h (li_frame i) = Inr f"
    and q: "ll_mac_queue_id m = 1" by (rule start_node_ready)
  let ?n = "start_node\<lparr>ln_heap := h, ln_queues := Q\<rparr>"
  have "ln_heap ?n = h" by simp
  from listening [where n = ?n, unfolded this, OF n lowest_free_fresh, of "\<lambda>x. x" None True controlpacket_init] obtain t where
    r: "linux_run mk_posix lowest_free (Some 0) ?cs ?n =
      Inr (?n\<lparr>ln_heap := snd (malloc_bytes lowest_free 256 h), ln_timers := t\<rparr>)"
    by fastforce
  obtain b h1 where m1: "malloc_bytes lowest_free 256 h = (b, h1)"
    by (cases "malloc_bytes lowest_free 256 h")
  from node_malloc [OF lowest_free_fresh m1 n(1)] obtain X where
    h1: "node (objects (ln_heap start_node)) X (Some 0) m i h1" by metis
  let ?n1 = "?n\<lparr>ln_heap := h1, ln_timers := t\<rparr>"
  have load: "load_layer (ln_heap ?n1) (Some 0) = Inr m" using h1 by (simp add: node_def parts_def)
  obtain Q' k where close: "close_own_queue mk_posix (ll_mac_queue_id m) (ln_queues ?n1) (ln_kernel ?n1) = Inr (Q', k)"
    by (simp add: close_own_queue_def close_queue_linux_def q Let_def)
  from destroy_linux_returns [OF aliveI(2) [OF h1] load close]
  obtain n' where "MCLMAC_destroy_linux mk_posix (Some 0) ?n1 = Inr (None, n')" by blast
  with init r m1 have p: "linux_program mk_posix lowest_free None ?cs start_node = Inr (None, n')"
    by (simp add: linux_program_def del: linux_run.simps)
  with linux_memory_safe [OF lowest_free_fresh mk_posix_calls, where radio = None and cs = ?cs and n = start_node]
  have "card (dom (objects (ln_heap n'))) \<le> 11" by (simp add: start_node_def Let_def)
  with p show ?thesis by blast
qed

text \<open>The allocator \<open>al\<close>, whose call number \<open>k\<close> fails.\<close>

definition fail_call :: "nat \<Rightarrow> allocator \<Rightarrow> allocator" where
  "fail_call k al = al\<lparr>alloc_address := (\<lambda>n m. if n = k then None else alloc_address al n m)\<rparr>"

lemma room_address:
  assumes "has_room al" "fresh_addresses al" and "finite (dom m)" "card (dom m) \<le> k"
  obtains a where "alloc_address al k m = Some a" "m a = None"
    "\<And>x. finite (dom (m(a \<mapsto> x)))" "\<And>x. card (dom (m(a \<mapsto> x))) \<le> Suc k"
proof -
  from assms(1,3,4) obtain a where a: "alloc_address al k m = Some a" by (auto simp: has_room_def)
  with assms(2) have "m a = None" by (simp add: fresh_addresses_def)
  with a that assms(3,4) show thesis by (auto simp: card_insert_if)
qed

lemma five_addresses:
  assumes al: "has_room al" "fresh_addresses al" and m: "finite (dom m)" "card (dom m) \<le> k"
  obtains a b c d e where
    "alloc_address al k m = Some a" "alloc_address al (Suc k) (m(a \<mapsto> v)) = Some b"
    "alloc_address al (Suc (Suc k)) (m(a \<mapsto> v, b \<mapsto> w)) = Some c"
    "alloc_address al (Suc (Suc (Suc k))) (m(a \<mapsto> v, b \<mapsto> w, c \<mapsto> x)) = Some d"
    "alloc_address al (Suc (Suc (Suc (Suc k)))) (m(a \<mapsto> v, b \<mapsto> w, c \<mapsto> x, d \<mapsto> y)) = Some e"
    "distinct [a, b, c, d, e]"
proof -
  note room = room_address [OF al]
  obtain a where a: "alloc_address al k m = Some a" "m a = None" "finite (dom (m(a \<mapsto> v)))" "card (dom (m(a \<mapsto> v))) \<le> Suc k"
    using room [OF m] by metis
  obtain b where b: "alloc_address al (Suc k) (m(a \<mapsto> v)) = Some b" "(m(a \<mapsto> v)) b = None"
    "finite (dom (m(a \<mapsto> v, b \<mapsto> w)))" "card (dom (m(a \<mapsto> v, b \<mapsto> w))) \<le> Suc (Suc k)"
    using room [OF a(3,4)] by metis
  obtain c where c: "alloc_address al (Suc (Suc k)) (m(a \<mapsto> v, b \<mapsto> w)) = Some c" "(m(a \<mapsto> v, b \<mapsto> w)) c = None"
    "finite (dom (m(a \<mapsto> v, b \<mapsto> w, c \<mapsto> x)))" "card (dom (m(a \<mapsto> v, b \<mapsto> w, c \<mapsto> x))) \<le> Suc (Suc (Suc k))"
    using room [OF b(3,4)] by metis
  obtain d where d: "alloc_address al (Suc (Suc (Suc k))) (m(a \<mapsto> v, b \<mapsto> w, c \<mapsto> x)) = Some d" "(m(a \<mapsto> v, b \<mapsto> w, c \<mapsto> x)) d = None"
    "finite (dom (m(a \<mapsto> v, b \<mapsto> w, c \<mapsto> x, d \<mapsto> y)))" "card (dom (m(a \<mapsto> v, b \<mapsto> w, c \<mapsto> x, d \<mapsto> y))) \<le> Suc (Suc (Suc (Suc k)))"
    using room [OF c(3,4)] by metis
  obtain e where e: "alloc_address al (Suc (Suc (Suc (Suc k)))) (m(a \<mapsto> v, b \<mapsto> w, c \<mapsto> x, d \<mapsto> y)) = Some e"
    "(m(a \<mapsto> v, b \<mapsto> w, c \<mapsto> x, d \<mapsto> y)) e = None"
    using room [OF d(3,4)] by metis
  have "distinct [a, b, c, d, e]"
    using b(2) c(2) d(2) e(2) by (auto split: if_splits)
  with that a(1) b(1) c(1) d(1) e(1) show thesis by metis
qed

lemma init_failing:
  fixes radio :: "nat option"
  assumes al: "fresh_addresses al" "has_room al" and m: "finite (dom (objects h))" "card (dom (objects h)) \<le> calls h"
    and Q: "create_queue_linux Q QUEUE_SIZE MAX_MESSAGE_SIZE (of_nat MAX_ELEMENTS_ON_QUEUE) None = Inr (qid, s, Q')"
  defines "failing j \<equiv> MCLMAC_init_linux (fail_call (calls h + j) al) radio Q h"
  shows "failing 0 = Inr (None, Q, h\<lparr>calls := calls h + 1\<rparr>)"
    and "failing 1 = Inl Null_dereference"
    and "\<exists>p h'. failing 2 = Inr (Some p, Q', h') \<and>
       (\<forall>n. ln_heap n = h' \<longrightarrow>
         mclmac_send_control_packet_linux al (Some p) n = Inl Assertion_failed \<and>
         mclmac_create_control_packet_linux (Some p) n = Inl Assertion_failed \<and>
         MCLMAC_clear_linux os (Some p) n = Inl Null_dereference)"
    and "failing 3 = Inl Exited" "failing 4 = Inl Exited"
    and "j \<ge> 5 \<Longrightarrow> \<exists>p h' m i. failing j = Inr (Some p, Q', h') \<and> load_layer h' (Some p) = Inr m \<and>
       load_internals h' (ll_mac m) = Inr i \<and> li_ctrlpkt i \<noteq> None \<and> li_ctrlpkt_recv i \<noteq> None \<and> li_frame i \<noteq> None"
proof -
  obtain a b c d e where
    A: "alloc_address al (calls h) (objects h) = Some a"
    "alloc_address al (Suc (calls h)) ((objects h)(a \<mapsto> Layer_object zero_layer_linux)) = Some b"
    "alloc_address al (Suc (Suc (calls h))) ((objects h)(a \<mapsto> Layer_object zero_layer_linux, b \<mapsto> Internals_object zero_internals_linux)) = Some c"
    "alloc_address al (Suc (Suc (Suc (calls h)))) ((objects h)(a \<mapsto> Layer_object zero_layer_linux, b \<mapsto> Internals_object zero_internals_linux, c \<mapsto> Frame_object zero_frame)) = Some d"
    "alloc_address al (Suc (Suc (Suc (Suc (calls h))))) ((objects h)(a \<mapsto> Layer_object zero_layer_linux, b \<mapsto> Internals_object zero_internals_linux, c \<mapsto> Frame_object zero_frame, d \<mapsto> Control_object controlpacket_init)) = Some e"
    "distinct [a, b, c, d, e]"
    by (rule five_addresses [OF al(2,1) m])
  note defs = failing_def fail_call_def c_malloc_def store_def put_def MCLMAC_init_linux_def
    MAC_internals_init_linux_def malloc_zeroed_def controlpacket_init_linux_def Let_def
    load_layer_def load_internals_def load_def
  have stk: "ll_stack zero_layer_linux = None" by (simp add: zero_layer_linux_def)
  show "failing 0 = Inr (None, Q, h\<lparr>calls := calls h + 1\<rparr>)" by (simp add: defs)
  show "failing 1 = Inl Null_dereference" using A(1) by (simp add: defs)
  show "failing 3 = Inl Exited" using A by (simp add: defs numeral_eq_Suc)
  show "failing 4 = Inl Exited" using A by (simp add: defs numeral_eq_Suc)
  have ba: "b \<noteq> a" using A(6) by auto
  have Q': "create_queue_linux Q 16 256 10 None = Inr (qid, s, Q')" using Q by simp
  note run = mclmac_send_control_packet_linux_def mclmac_create_control_packet_linux_def
    MCLMAC_clear_linux_def MAC_internals_clear_linux_def with_mac_def with_layer_def load_frame_def
  show "\<exists>p h'. failing 2 = Inr (Some p, Q', h') \<and>
       (\<forall>n. ln_heap n = h' \<longrightarrow>
         mclmac_send_control_packet_linux al (Some p) n = Inl Assertion_failed \<and>
         mclmac_create_control_packet_linux (Some p) n = Inl Assertion_failed \<and>
         MCLMAC_clear_linux os (Some p) n = Inl Null_dereference)"
    using A(1,2) ba by (simp add: defs numeral_2_eq_2 stk Q' run)
  assume "j \<ge> 5"
  then have j: "j > 4" by simp
  show "\<exists>p h' m i. failing j = Inr (Some p, Q', h') \<and> load_layer h' (Some p) = Inr m \<and>
       load_internals h' (ll_mac m) = Inr i \<and> li_ctrlpkt i \<noteq> None \<and> li_ctrlpkt_recv i \<noteq> None \<and> li_frame i \<noteq> None"
    using A(1-5) A(6) ba j by (simp add: defs stk Q')
qed

text \<open>
  C33. When one of the five calls of \<open>malloc\<close> in \<open>MCLMAC_init\<close> fails: without the layer its pointer
  is null and nothing has changed; without the internals a null pointer is written through; without
  the frame the layer is created all the same, but has no control packets either, so that creating or
  sending one fails an assertion and \<open>MCLMAC_clear\<close> follows a null pointer; without a control packet
  the process exits. When none of them fails, the layer has its frame and both control packets.
\<close>

theorem linux_init_out_of_memory:
  fixes radio :: "nat option"
  assumes "fresh_addresses al" and "has_room al"
    and "finite (dom (objects h))" and "card (dom (objects h)) \<le> calls h"
    and "create_queue_linux Q QUEUE_SIZE MAX_MESSAGE_SIZE (of_nat MAX_ELEMENTS_ON_QUEUE) None = Inr (qid, s, Q')"
  shows "let failing = (\<lambda>j. MCLMAC_init_linux (fail_call (calls h + j) al) radio Q h)
    in failing 0 = Inr (None, Q, h\<lparr>calls := calls h + 1\<rparr>) \<and>
       failing 1 = Inl Null_dereference \<and>
       (\<exists>p h'. failing 2 = Inr (Some p, Q', h') \<and>
         (\<forall>n. ln_heap n = h' \<longrightarrow>
           mclmac_send_control_packet_linux al (Some p) n = Inl Assertion_failed \<and>
           mclmac_create_control_packet_linux (Some p) n = Inl Assertion_failed \<and>
           MCLMAC_clear_linux os (Some p) n = Inl Null_dereference)) \<and>
       failing 3 = Inl Exited \<and> failing 4 = Inl Exited \<and>
       (\<forall>j \<ge> 5. \<exists>p h' m i. failing j = Inr (Some p, Q', h') \<and> load_layer h' (Some p) = Inr m \<and>
         load_internals h' (ll_mac m) = Inr i \<and>
         li_ctrlpkt i \<noteq> None \<and> li_ctrlpkt_recv i \<noteq> None \<and> li_frame i \<noteq> None)"
  unfolding Let_def
  by (intro conjI allI impI; rule init_failing [OF assms])

lemma linux_init_out_of_memory_witness:
  "\<exists>Q qid s Q'. create_queue_linux Q QUEUE_SIZE MAX_MESSAGE_SIZE (of_nat MAX_ELEMENTS_ON_QUEUE) None = Inr (qid, s, Q') \<and>
    MCLMAC_init_linux (fail_call 1 lowest_free) None Q \<lparr>objects = (\<lambda>_. None), calls = 0\<rparr> = Inl Null_dereference"
proof -
  let ?h = "\<lparr>objects = (\<lambda>_. None), calls = 0\<rparr>"
  obtain qid s Q' where Q: "create_queue_linux (init_queues_linux static_queues_linux) QUEUE_SIZE MAX_MESSAGE_SIZE
      (of_nat MAX_ELEMENTS_ON_QUEUE) None = Inr (qid, s, Q')"
    by (simp add: init_static_linux replicate_10 create_queue_linux_def no_queue_linux_def
        no_thread_linux_def queue_name_1_2 NAME_BYTES_def)
  have "finite (dom (objects ?h))" "card (dom (objects ?h)) \<le> calls ?h" by simp_all
  from linux_init_out_of_memory [OF lowest_free_fresh lowest_free_room this Q, of None] Q
  show ?thesis by (auto simp: Let_def)
qed

end
