(* ===== verification/Linux_Sending.thy ===== *)
theory Linux_Sending
  imports Linux_Life Mac_Queues
begin

text \<open>
  The packets to send in the Linux build: what the functions over the heap do to the packets of the
  routing layer is what the functions over lists do. The locale \<open>exhaustible\<close> is interpreted on
  \<open>mclmac_read_queue_element_linux\<close>, from where the message is received, and on
  \<open>mclmac_send_data_packet_linux\<close>, under an allocator that has room.
\<close>

section \<open>Heaps with room\<close>

definition roomy :: "c_heap \<Rightarrow> bool" where
  "roomy h \<longleftrightarrow> finite (dom (objects h)) \<and> card (dom (objects h)) \<le> calls h"

lemma roomyI:
  assumes "roomy h" and "dom (objects h') \<subseteq> insert a (dom (objects h))" and "calls h < calls h'"
  shows "roomy h'"
proof -
  from assms(1) have fin: "finite (dom (objects h))" and le: "card (dom (objects h)) \<le> calls h"
    by (simp_all add: roomy_def)
  with assms(2) have "finite (dom (objects h'))" by (auto intro: finite_subset)
  moreover have "card (dom (objects h')) \<le> card (insert a (dom (objects h)))"
    using fin assms(2) by (intro card_mono) auto
  then have "card (dom (objects h')) \<le> Suc (card (dom (objects h)))"
    using card_insert_le_m1 fin by (auto simp: card_insert_if split: if_splits)
  ultimately show ?thesis using le assms(3) by (simp add: roomy_def)
qed

text \<open>An address is found, also after the block of \<open>q\<close> has been released.\<close>

lemma roomy_address:
  assumes "fresh_addresses al" "has_room al" and "roomy h"
  obtains a where "alloc_address al (calls h) (without q (objects h)) = Some a" "without q (objects h) a = None"
proof -
  from assms(3) have fin: "finite (dom (objects h))" and le: "card (dom (objects h)) \<le> calls h"
    by (simp_all add: roomy_def)
  have sub: "dom (without q (objects h)) \<subseteq> dom (objects h)" by (cases q) auto
  with fin have "finite (dom (without q (objects h)))" by (rule finite_subset [rotated])
  moreover have "card (dom (without q (objects h))) \<le> calls h"
    using card_mono [OF fin sub] le by simp
  ultimately have "alloc_address al (calls h) (without q (objects h)) \<noteq> None"
    using assms(2) by (simp add: has_room_def)
  with assms(1) that show thesis by (auto simp: fresh_addresses_def)
qed

lemma roomy_malloc:
  assumes "fresh_addresses al" "has_room al" and "roomy h"
  obtains a bs where "malloc_bytes al k h = (Some a, (put h a (Bytes bs))\<lparr>calls := Suc (calls h)\<rparr>)"
    "objects h a = None" "length bs = k"
proof -
  from roomy_address [OF assms, of None] obtain a where
    a: "alloc_address al (calls h) (objects h) = Some a" "objects h a = None" by auto
  then have "malloc_bytes al k h =
      (Some a, (put h a (Bytes (new_array LINUX (alloc_junk al (calls h)) k)))\<lparr>calls := Suc (calls h)\<rparr>)"
    by (simp add: malloc_bytes_def c_malloc_def)
  with a(2) that show thesis by (metis length_new_array)
qed

section \<open>Sending a packet\<close>

text \<open>The byte string comes and goes; the array of the packet is released.\<close>

lemma send_slot_result:
  assumes al: "fresh_addresses al" "has_room al" and h: "roomy h"
    and k: "k < length pkts" and bytes: "is_bytes h (lp_data (pkts ! k))"
    and pkt: "sendable (abs_linux h (pkts ! k))"
  shows "\<exists>pkt' h'. send_slot_linux al h pkts k = Inr (pkts[k := pkt'], h') \<and>
    objects h' = without (lp_data (pkts ! k)) (objects h) \<and> calls h' = calls h + 1"
proof -
  let ?pkt = "pkts ! k" and ?old = "lp_data (pkts ! k)"
  from roomy_address [OF al h, of None] obtain a where
    a: "alloc_address al (calls h) (objects h) = Some a" "objects h a = None" by auto
  have "lp_size ?pkt = 0" if "?old = None"
    using pkt that by (simp add: sendable_def wf_datapacket_def abs_linux_def packet_fields_def unat_eq_0)
  from bytestring_linux_refines [OF bytes this a(1) al(1)] data_bytes_encode [OF pkt]
  have enc: "datapacket_get_packet_bytestring_linux al h ?pkt =
      Inr (Some a, (put h a (Bytes (data_bytes (abs_linux h ?pkt))))\<lparr>calls := Suc (calls h)\<rparr>)" by simp
  let ?h1 = "(put h a (Bytes (data_bytes (abs_linux h ?pkt))))\<lparr>calls := Suc (calls h)\<rparr>"
  have ne: "?old \<noteq> Some a" using a(2) bytes by auto
  have "is_bytes ?h1 ?old" using bytes ne by (cases ?old) auto
  note clear = c_free_bytes [OF this]
  have "without ?old (objects ?h1) a \<noteq> None" using ne by (cases ?old) auto
  moreover have "(without ?old (objects ?h1))(a := None) = without ?old (objects h)"
    using a(2) ne by (cases ?old) (auto simp: fun_eq_iff)
  ultimately show ?thesis
    using k by (auto simp: send_slot_linux_def enc datapacket_clear_linux_def clear c_free_def [of "Some a"])
qed

section \<open>Storing a message\<close>

lemma copy_whole:
  assumes "length src = n" and "length dst = n"
  shows "copy_elements LINUX src 0 dst 0 [0..<n] = Inr src"
  using copy_elements_prefix [of n 0 src 0 dst LINUX] assms by simp

lemma construct_slot_result:
  assumes al: "fresh_addresses al" "has_room al" and h: "roomy h" and k: "k < length pkts"
    and old: "is_bytes h (lp_data (pkts ! k))" "lp_data (pkts ! k) \<noteq> Some b"
    and b: "objects h b = Some (Bytes (data_bytes x))" and x: "sendable x"
  shows "\<exists>pkt d h'. construct_slot_linux al h pkts k (Some b) = Inr (pkts[k := pkt], h') \<and>
    lp_data pkt = Some d \<and> packet_fields pkt = x\<lparr>data := []\<rparr> \<and>
    without (lp_data (pkts ! k)) (objects h) d = None \<and>
    objects h' = (without (lp_data (pkts ! k)) (objects h))(d \<mapsto> Bytes (data x)) \<and> calls h' = calls h + 1"
proof -
  let ?old = "lp_data (pkts ! k)"
  from roomy_address [OF al h, of ?old] obtain d where
    d: "alloc_address al (calls h) (without ?old (objects h)) = Some d" "without ?old (objects h) d = None" .
  have "Some b \<noteq> ?old" using old(2) by auto
  note c = construct_linux_refines [OF b old(1) this d(1) al(1)]
  let ?pkt = "(pkts ! k)\<lparr>lp_type := ptype x, lp_destination_id := destination_id x, lp_size := psize x, lp_data := Some d\<rparr>"
  have "packet_fields ?pkt = x\<lparr>data := []\<rparr>" by (simp add: packet_fields_def)
  with c data_bytes_decode [OF x] d(2) k show ?thesis
    by (intro exI [of _ ?pkt] exI [of _ d]) (simp add: construct_slot_linux_def)
qed


section \<open>What the other packets notice\<close>

text \<open>Every byte array but those in \<open>X\<close> and the one of \<open>old\<close> is as it was.\<close>

definition keeps_bytes :: "nat set \<Rightarrow> nat option \<Rightarrow> c_heap \<Rightarrow> c_heap \<Rightarrow> bool" where
  "keeps_bytes X old h h' \<longleftrightarrow> (\<forall>c bs. objects h c = Some (Bytes bs) \<longrightarrow> c \<notin> X \<longrightarrow> Some c \<noteq> old \<longrightarrow>
     objects h' c = Some (Bytes bs))"

lemma slot_block:
  assumes h: "parts B X p m i h" and split: "all_packets i = ls @ pkts @ rs" and j: "j < length pkts"
    and c: "lp_data (pkts ! j) = Some c"
  shows "\<exists>bs. objects h c = Some (Bytes bs)" and "c \<notin> X"
    and "k < length pkts \<Longrightarrow> k \<noteq> j \<Longrightarrow> lp_data (pkts ! k) \<noteq> Some c"
proof -
  have pkt: "pkts ! j \<in> set (all_packets i)" using j by (simp add: split)
  from packet_is_bytes [OF h pkt] c show "\<exists>bs. objects h c = Some (Bytes bs)" "c \<notin> X" by auto
  note D = partsD [OF h]
  have nth: "refs p m i ! (5 + (length ls + k)) = lp_data (pkts ! k)" "5 + (length ls + k) < length (refs p m i)"
    if "k < length pkts" for k
    using that refs_nth(6) [of "length ls + k" i p m] sized_packets [OF D(2)] D(3)
    by (simp_all add: split nth_append)
  show "lp_data (pkts ! k) \<noteq> Some c" if "k < length pkts" "k \<noteq> j"
  proof
    assume "lp_data (pkts ! k) = Some c"
    with pointers_nth_distinct [OF layoutD(1) [OF D(1)] nth(2) [OF j] nth(2) [OF that(1)], of c c]
      nth(1) [OF j] nth(1) [OF that(1)] c that(2) show False by simp
  qed
qed

lemma view_update:
  assumes h: "parts B X p m i h" and split: "all_packets i = ls @ pkts @ rs" and k: "k < length pkts"
    and keeps: "keeps_bytes X (lp_data (pkts ! k)) h h'"
  shows "map (abs_linux h') (pkts[k := pkt]) = (map (abs_linux h) pkts)[k := abs_linux h' pkt]"
proof (rule nth_equalityI)
  fix j assume "j < length (map (abs_linux h') (pkts[k := pkt]))"
  then have j: "j < length pkts" by simp
  show "map (abs_linux h') (pkts[k := pkt]) ! j = (map (abs_linux h) pkts)[k := abs_linux h' pkt] ! j"
  proof (cases "j = k")
    case False
    have "bytes_of h' (lp_data (pkts ! j)) = bytes_of h (lp_data (pkts ! j))"
    proof (cases "lp_data (pkts ! j)")
      case (Some c)
      note blk = slot_block [OF h split j Some]
      from blk(1) obtain bs where bs: "objects h c = Some (Bytes bs)" by blast
      have "lp_data (pkts ! k) \<noteq> Some c" using blk(3) [OF k] False by simp
      with keeps bs blk(2) have "objects h' c = Some (Bytes bs)" by (auto simp: keeps_bytes_def)
      with bs Some show ?thesis by simp
    qed simp
    with j False show ?thesis by (simp add: abs_linux_def)
  qed (use k in simp)
qed simp


lemma stored_internals:
  assumes h: "parts B X p m i' h1" and i: "load_internals h (ll_mac m) = Inr i"
    and keeps: "keeps_bytes Y old h h1" and "roomy h" "calls h < calls h1" "dom (objects h1) \<subseteq> insert d (dom (objects h))"
  shows "\<exists>h2. store h1 (ll_mac m) (Internals_object i') = Inr h2 \<and> node B X p m i' h2 \<and>
    keeps_bytes Y old h h2 \<and> roomy h2 \<and> (\<forall>c bs. objects h1 c = Some (Bytes bs) \<longrightarrow> objects h2 c = Some (Bytes bs))"
proof -
  from i obtain b where b: "ll_mac m = Some b" "objects h b = Some (Internals_object i)"
    by (auto simp: load_internals_iff)
  from store_internals [OF h] obtain h2 where st: "store h1 (ll_mac m) (Internals_object i') = Inr h2" "node B X p m i' h2" by blast
  then have h2: "h2 = put h1 b (Internals_object i')" "objects h1 b \<noteq> None"
    by (auto simp: b(1) store_def split: if_splits)
  note D = partsD [OF h]
  from layout_at(1) [OF D(1), of 1 b] D(3) b(1) refs_nth(2) [of p m i'] kinds_nth(2)
  have kb: "\<exists>j. objects h1 b = Some (Internals_object j)" by (auto simp: kind_of_cases)
  have "keeps_bytes Y old h h2" using keeps b(2) by (auto simp: keeps_bytes_def h2(1))
  moreover have "dom (objects h2) \<subseteq> insert d (dom (objects h))"
    using assms(6) h2(2) by (auto simp: h2(1))
  then have "roomy h2" using roomyI [OF assms(4)] assms(5) by (auto simp: h2(1))
  moreover have "\<forall>c bs. objects h1 c = Some (Bytes bs) \<longrightarrow> objects h2 c = Some (Bytes bs)"
    using kb by (auto simp: h2(1))
  ultimately show ?thesis using st by blast
qed

lemma node_loaded:
  assumes "node B X p m i (ln_heap n)"
  shows "with_mac p n f = f m i" and "load_internals (ln_heap n) (ll_mac m) = Inr i" "parts B X p m i (ln_heap n)"
proof -
  show h: "load_internals (ln_heap n) (ll_mac m) = Inr i" "parts B X p m i (ln_heap n)"
    using assms by (simp_all add: node_def)
  then have "p \<noteq> None" "load_layer (ln_heap n) p = Inr m" by (auto simp: parts_def load_layer_iff)
  then show "with_mac p n f = f m i" using h by (simp add: with_mac_def with_layer_def)
qed

lemma send_control_result:
  assumes al: "fresh_addresses al" "has_room al" and n: "node B X p m i (ln_heap n)" and room: "roomy (ln_heap n)"
    and cnt: "0 < li_packets_to_send_control i" and fsm: "unat (li_first_send_message i) \<le> 10"
    and k: "unat (li_first_send_control i) < 10"
    and pkt: "sendable (abs_linux (ln_heap n) (li_control_packets_to_send i ! unat (li_first_send_control i)))"
  shows "\<exists>pkt n'. mclmac_send_data_packet_linux al p n = Inr n' \<and>
    node B X p m (i\<lparr>li_control_packets_to_send := (li_control_packets_to_send i)[unat (li_first_send_control i) := pkt],
      li_first_send_control := of_nat ((unat (li_first_send_control i) + 1) mod 10),
      li_packets_to_send_control := li_packets_to_send_control i - 1\<rparr>) (ln_heap n') \<and>
    keeps_bytes X (lp_data (li_control_packets_to_send i ! unat (li_first_send_control i))) (ln_heap n) (ln_heap n') \<and>
    roomy (ln_heap n')"
proof -
  let ?k = "unat (li_first_send_control i)" and ?pkts = "li_control_packets_to_send i" and ?h = "ln_heap n"
  note L = node_loaded [OF n]
  note len = sized_lengths [OF L(3)]
  have split: "all_packets i = li_message_packets_to_send i @ ?pkts @ li_packets_received i"
    by (simp add: all_packets_def)
  have "?pkts ! ?k \<in> set (all_packets i)" using k len(2) by (simp add: split)
  note bytes = packet_is_bytes(1) [OF L(3) this]
  from send_slot_result [OF al room, of ?k ?pkts] k len(2) bytes pkt obtain pkt' h1 where
    s: "send_slot_linux al ?h ?pkts ?k = Inr (?pkts[?k := pkt'], h1)"
    "objects h1 = without (lp_data (?pkts ! ?k)) (objects ?h)" "calls h1 = calls ?h + 1" by auto
  let ?i = "i\<lparr>li_control_packets_to_send := ?pkts[?k := pkt'],
      li_first_send_control := of_nat ((?k + 1) mod 10), li_packets_to_send_control := li_packets_to_send_control i - 1\<rparr>"
  from send_slot_safe [OF al(1) L(3) split, of ?k] s(1)
  have "slots B X p m i (li_message_packets_to_send i) (li_packets_received i) (length ?pkts) (?pkts[?k := pkt'], h1)"
    by simp
  then have "parts B X p m ?i h1"
    by (rule slots_parts [OF _ parts_mac [OF L(3)]]) (simp_all add: packet_lists len)
  moreover have "keeps_bytes X (lp_data (?pkts ! ?k)) ?h h1"
    by (cases "lp_data (?pkts ! ?k)") (auto simp: keeps_bytes_def s(2))
  moreover have "dom (objects h1) \<subseteq> insert 0 (dom (objects ?h))"
    by (cases "lp_data (?pkts ! ?k)") (auto simp: s(2))
  ultimately obtain h2 where "store h1 (ll_mac m) (Internals_object ?i) = Inr h2" "node B X p m ?i h2"
    "keeps_bytes X (lp_data (?pkts ! ?k)) ?h h2" "roomy h2"
    using stored_internals [OF _ L(2) _ room] s(3) by force
  then show ?thesis
    using s(1) cnt fsm k
    by (intro exI [of _ pkt'] exI [of _ "n\<lparr>ln_heap := h2\<rparr>"])
      (auto simp: mclmac_send_data_packet_linux_def L(1) Let_def)
qed


lemma without_at: "without q M c = (if q = Some c then None else M c)"
  by (cases q) auto

definition put_control_linux :: "allocator \<Rightarrow> nat option \<Rightarrow> DataPacket_t \<Rightarrow> 'k linux_node \<Rightarrow> 'k linux_node result" where
  "put_control_linux al p x n = with_mac p n (\<lambda>m i.
     (case malloc_bytes al MAX_MESSAGE_SIZE (ln_heap n) of (msg, h1) \<Rightarrow>
        rbind (store h1 msg (Bytes (data_bytes x))) (\<lambda>h2.
        rbind (store_message_linux al m i msg h2) (\<lambda>(r, h3). Inr (n\<lparr>ln_heap := h3\<rparr>)))))"

text \<open>The copy of the message; after it the two arrays are released.\<close>

lemma copy_message:
  assumes al: "fresh_addresses al" "has_room al" and h: "parts B X p m i h" and a: "a \<in> X"
    and msg: "objects h a = Some (Bytes (data_bytes x))" and x: "sendable x" and room: "roomy h"
  shows "\<exists>b h1 h2. malloc_bytes al 256 h = (Some b, h1) \<and> copy_bytes h1 (Some a) 0 (Some b) 0 [0..<256] = Inr h2 \<and>
    c_read (h2, Some a) 0 = Inr (ptype x) \<and> parts B (insert b X) p m i h2 \<and> b \<notin> X \<and> objects h b = None \<and>
    objects h2 = (objects h)(b \<mapsto> Bytes (data_bytes x)) \<and> calls h2 = Suc (calls h)"
proof -
  from roomy_malloc [OF al room] obtain b bs where
    m1: "malloc_bytes al 256 h = (Some b, (put h b (Bytes bs))\<lparr>calls := Suc (calls h)\<rparr>)"
    and b: "objects h b = None" "length bs = 256" by metis
  let ?h1 = "(put h b (Bytes bs))\<lparr>calls := Suc (calls h)\<rparr>"
  let ?h2 = "put ?h1 b (Bytes (data_bytes x))"
  have ab: "a \<noteq> b" using msg b(1) by auto
  have h1: "parts B (insert b X) p m i ?h1" and bX: "b \<notin> X"
    using malloc_parts [OF al(1) m1 h] by auto
  have h2: "parts B (insert b X) p m i ?h2" by (rule parts_temp [OF h1, of b]) simp_all
  have copy: "copy_bytes ?h1 (Some a) 0 (Some b) 0 [0..<256] = Inr ?h2"
    using msg ab b(2) length_data_bytes [OF x]
    by (subst copy_bytes_at [of _ b bs a "data_bytes x"]) (simp_all add: copy_whole del: upt_rec_numeral)
  have msg2: "objects ?h2 a = Some (Bytes (data_bytes x))" using msg ab by simp
  have ty: "c_read (?h2, Some a) 0 = Inr (ptype x)"
    unfolding c_read_at [OF msg2]
    using length_data_bytes [OF x] data_bytes_type [of x] by (simp add: READ_ARRAY_def)
  show ?thesis
    by (intro exI [of _ b] exI [of _ ?h1] exI [of _ ?h2] conjI m1 copy ty h2 bX b(1)) simp_all
qed

lemma release_two:
  assumes s: "slots B (insert b (insert a X)) p m i ls rs n (pkts, h)" and "a \<notin> X" "b \<notin> insert a X"
  shows "\<exists>h1 h2. c_free (Some a) h = Inr h1 \<and> c_free (Some b) h1 = Inr h2 \<and>
    slots B X p m i ls rs n (pkts, h2) \<and> objects h2 = (objects h)(a := None, b := None) \<and> calls h2 = calls h"
proof -
  have "a \<notin> insert b X" "b \<notin> X" using assms(2,3) by auto
  moreover have "slots B (insert a (insert b X)) p m i ls rs n (pkts, h)"
    using s by (simp only: insert_commute [of b a])
  ultimately obtain h1 where h1: "c_free (Some a) h = Inr h1" "slots B (insert b X) p m i ls rs n (pkts, h1)"
    using slots_free by blast
  from slots_free [OF h1(2) \<open>b \<notin> X\<close>] obtain h2 where
    h2: "c_free (Some b) h1 = Inr h2" "slots B X p m i ls rs n (pkts, h2)" by blast
  moreover have "objects h2 = (objects h)(a := None, b := None)" "calls h2 = calls h"
    using h1(1) h2(1) by (auto simp: c_free_def split: if_splits)
  ultimately show ?thesis using h1(1) by blast
qed

lemma store_message_result:
  assumes al: "fresh_addresses al" "has_room al" and h: "parts B (insert a X) p m i h" and a: "a \<notin> X"
    and i: "load_internals h (ll_mac m) = Inr i" and msg: "objects h a = Some (Bytes (data_bytes x))"
    and x: "sendable x" "2 \<le> unat (ptype x)" "unat (ptype x) < 7"
    and k: "unat (li_last_send_control i) < 10" and room: "roomy h"
  shows "\<exists>pkt h'. store_message_linux al m i (Some a) h = Inr (1, h') \<and>
    node B X p m (i\<lparr>li_control_packets_to_send := (li_control_packets_to_send i)[unat (li_last_send_control i) := pkt],
      li_last_send_control := li_last_send_control i + 1,
      li_packets_to_send_control := li_packets_to_send_control i + 1\<rparr>) h' \<and>
    abs_linux h' pkt = x \<and>
    keeps_bytes (insert a X) (lp_data (li_control_packets_to_send i ! unat (li_last_send_control i))) h h' \<and> roomy h'"
proof -
  let ?k = "unat (li_last_send_control i)" and ?pkts = "li_control_packets_to_send i"
  let ?old = "lp_data (?pkts ! ?k)"
  note len = sized_lengths [OF h]
  have split: "all_packets i = li_message_packets_to_send i @ ?pkts @ li_packets_received i"
    by (simp add: all_packets_def)
  have in_all: "?pkts ! ?k \<in> set (all_packets i)" using k len(2) by (simp add: split)
  note bytes = packet_is_bytes [OF h in_all]
  from copy_message [OF al h insertI1 msg x(1) room] obtain b h1 h2 where
    cp: "malloc_bytes al 256 h = (Some b, h1)" "copy_bytes h1 (Some a) 0 (Some b) 0 [0..<256] = Inr h2"
      "c_read (h2, Some a) 0 = Inr (ptype x)" and
    h2: "parts B (insert b (insert a X)) p m i h2" and bX: "b \<notin> insert a X" and b: "objects h b = None" and
    o2: "objects h2 = (objects h)(b \<mapsto> Bytes (data_bytes x))" "calls h2 = Suc (calls h)"
    by (elim exE conjE) (rule that)
  have old: "?old \<noteq> Some a" "?old \<noteq> Some b" using bytes b by auto
  have bytes2: "is_bytes h2 ?old" using bytes(1) old by (cases ?old) (auto simp: o2)
  have room2: "roomy h2" by (rule roomyI [OF room, of _ b]) (auto simp: o2)
  have b2: "objects h2 b = Some (Bytes (data_bytes x))" and kl: "?k < length ?pkts" using k len(2) by (simp_all add: o2)
  from construct_slot_result [OF al room2 kl bytes2 old(2) b2 x(1)] obtain pkt d h3 where
    c: "construct_slot_linux al h2 ?pkts ?k (Some b) = Inr (?pkts[?k := pkt], h3)"
    "lp_data pkt = Some d" "packet_fields pkt = x\<lparr>data := []\<rparr>" "without ?old (objects h2) d = None"
    "objects h3 = (without ?old (objects h2))(d \<mapsto> Bytes (data x))" "calls h3 = calls h2 + 1"
    by (elim exE conjE) (rule that)
  have d: "d \<noteq> a" "d \<noteq> b" using c(4) msg old by (auto simp: without_at o2 split: if_splits)
  let ?i = "i\<lparr>li_control_packets_to_send := ?pkts[?k := pkt],
      li_last_send_control := li_last_send_control i + 1,
      li_packets_to_send_control := li_packets_to_send_control i + 1\<rparr>"
  have "safe (slots B (insert b (insert a X)) p m i (li_message_packets_to_send i) (li_packets_received i) (length ?pkts))
      (construct_slot_linux al h2 ?pkts ?k (Some b))"
    by (rule construct_slot_safe [OF al(1) h2 _ _ split]) (auto simp: o2)
  then have "slots B (insert b (insert a X)) p m i (li_message_packets_to_send i) (li_packets_received i) (length ?pkts)
      (?pkts[?k := pkt], h3)" unfolding c(1) by simp
  from release_two [OF this a bX, unfolded c(5,6) o2(2)] obtain h4 h5 where
    h4: "c_free (Some a) h3 = Inr h4" and h5: "c_free (Some b) h4 = Inr h5" and
    s5: "slots B X p m i (li_message_packets_to_send i) (li_packets_received i) (length ?pkts) (?pkts[?k := pkt], h5)" and
    o5: "objects h5 = ((without ?old (objects h2))(d \<mapsto> Bytes (data x)))(a := None, b := None)"
      "calls h5 = Suc (calls h) + 1"
    by (elim exE conjE) (rule that)
  have "parts B X p m ?i h5"
    by (rule slots_parts [OF s5 parts_mac [OF h]]) (simp_all add: packet_lists len)
  moreover have "keeps_bytes (insert a X) ?old h h5"
    unfolding keeps_bytes_def o5 using b c(4) d by (auto simp: without_at o2)
  moreover have "dom (objects h5) \<subseteq> insert d (dom (objects h))"
    unfolding o5 by (auto simp: without_at o2 split: if_splits)
  ultimately obtain h6 where h6: "store h5 (ll_mac m) (Internals_object ?i) = Inr h6" "node B X p m ?i h6"
    "keeps_bytes (insert a X) ?old h h6" "roomy h6"
    "\<And>c bs. objects h5 c = Some (Bytes bs) \<Longrightarrow> objects h6 c = Some (Bytes bs)"
    using stored_internals [OF _ i _ room] o5(2) by force
  have "objects h6 d = Some (Bytes (data x))" by (rule h6(5)) (use d in \<open>simp add: o5(1)\<close>)
  with c(2,3) have "abs_linux h6 pkt = x" by (simp add: abs_linux_def)
  moreover have "store_queued_linux al (unat (ptype x)) (Some b) i h2 = Inr (1, ?i, h3)"
    using x(2,3) by (simp add: store_queued_linux_def c(1))
  then have "store_message_linux al m i (Some a) h = Inr (1, h6)"
    unfolding store_message_linux_def MAX_MESSAGE_SIZE_def cp(1) prod.case cp(2,3) rbind_simps
    by (simp add: h4 h5 h6(1))
  ultimately show ?thesis using h6(2-4) by blast
qed

text \<open>Up to the point where the message is in its block.\<close>

lemma put_control_start:
  assumes al: "fresh_addresses al" "has_room al" and n: "node B X p m i (ln_heap n)" and room: "roomy (ln_heap n)"
  obtains a h where
    "put_control_linux al p x n = rbind (store_message_linux al m i (Some a) h) (\<lambda>(r, h'). Inr (n\<lparr>ln_heap := h'\<rparr>))"
    "parts B (insert a X) p m i h" "a \<notin> X" "objects (ln_heap n) a = None"
    "objects h = (objects (ln_heap n))(a \<mapsto> Bytes (data_bytes x))" "load_internals h (ll_mac m) = Inr i" "roomy h"
proof -
  let ?h = "ln_heap n"
  from roomy_malloc [OF al room] obtain a bs where
    m1: "malloc_bytes al 256 ?h = (Some a, (put ?h a (Bytes bs))\<lparr>calls := Suc (calls ?h)\<rparr>)"
    and a: "objects ?h a = None" by metis
  let ?h1 = "(put ?h a (Bytes bs))\<lparr>calls := Suc (calls ?h)\<rparr>"
  let ?h2 = "put ?h1 a (Bytes (data_bytes x))"
  note L = node_loaded [OF n]
  have h1: "parts B (insert a X) p m i ?h1" and aX: "a \<notin> X"
    using malloc_parts [OF al(1) m1 L(3)] by auto
  have h2: "parts B (insert a X) p m i ?h2" by (rule parts_temp [OF h1, of a]) simp_all
  from L(2) obtain b where b: "ll_mac m = Some b" "objects ?h b = Some (Internals_object i)"
    by (auto simp: load_internals_iff)
  then have "b \<noteq> a" using a by auto
  with b have i2: "load_internals ?h2 (ll_mac m) = Inr i" by (simp add: load_internals_iff)
  have room2: "roomy ?h2" by (rule roomyI [OF room, of _ a]) auto
  have "store ?h1 (Some a) (Bytes (data_bytes x)) = Inr ?h2" by (simp add: store_def)
  then have "put_control_linux al p x n =
      rbind (store_message_linux al m i (Some a) ?h2) (\<lambda>(r, h'). Inr (n\<lparr>ln_heap := h'\<rparr>))"
    unfolding put_control_linux_def L(1) MAX_MESSAGE_SIZE_def m1 prod.case by simp
  from that [OF this h2 aX a _ i2 room2] show thesis by simp
qed

lemma put_control_result:
  assumes al: "fresh_addresses al" "has_room al" and n: "node B X p m i (ln_heap n)" and room: "roomy (ln_heap n)"
    and x: "sendable x" "2 \<le> unat (ptype x)" "unat (ptype x) < 7"
    and k: "unat (li_last_send_control i) < 10"
  shows "\<exists>pkt n'. put_control_linux al p x n = Inr n' \<and>
    node B X p m (i\<lparr>li_control_packets_to_send := (li_control_packets_to_send i)[unat (li_last_send_control i) := pkt],
      li_last_send_control := li_last_send_control i + 1,
      li_packets_to_send_control := li_packets_to_send_control i + 1\<rparr>) (ln_heap n') \<and>
    abs_linux (ln_heap n') pkt = x \<and>
    keeps_bytes X (lp_data (li_control_packets_to_send i ! unat (li_last_send_control i))) (ln_heap n) (ln_heap n') \<and>
    roomy (ln_heap n')"
proof -
  let ?h = "ln_heap n" and ?old = "lp_data (li_control_packets_to_send i ! unat (li_last_send_control i))"
  from put_control_start [OF al n room, of x] obtain a h2 where
    start: "put_control_linux al p x n = rbind (store_message_linux al m i (Some a) h2) (\<lambda>(r, h'). Inr (n\<lparr>ln_heap := h'\<rparr>))"
    and h2: "parts B (insert a X) p m i h2" and aX: "a \<notin> X" and a: "objects ?h a = None" and
    o2: "objects h2 = (objects ?h)(a \<mapsto> Bytes (data_bytes x))" and i2: "load_internals h2 (ll_mac m) = Inr i" and
    room2: "roomy h2" .
  have "objects h2 a = Some (Bytes (data_bytes x))" by (simp add: o2)
  from store_message_result [OF al h2 aX i2 this x k room2] obtain pkt h' where
    s: "store_message_linux al m i (Some a) h2 = Inr (1, h')"
      "node B X p m (i\<lparr>li_control_packets_to_send := (li_control_packets_to_send i)[unat (li_last_send_control i) := pkt],
        li_last_send_control := li_last_send_control i + 1,
        li_packets_to_send_control := li_packets_to_send_control i + 1\<rparr>) h'"
      "abs_linux h' pkt = x" "keeps_bytes (insert a X) ?old h2 h'" "roomy h'" by (elim exE conjE) (rule that)
  have "put_control_linux al p x n = Inr (n\<lparr>ln_heap := h'\<rparr>)" unfolding start by (simp add: s(1))
  moreover have "keeps_bytes X ?old ?h h'"
  proof (unfold keeps_bytes_def, intro allI impI)
    fix c bs'
    assume c: "objects ?h c = Some (Bytes bs')" "c \<notin> X" "Some c \<noteq> ?old"
    with a have "c \<noteq> a" by auto
    with c have "objects h2 c = Some (Bytes bs')" "c \<notin> insert a X" by (simp_all add: o2)
    with s(4) c(3) show "objects h' c = Some (Bytes bs')" unfolding keeps_bytes_def by blast
  qed
  ultimately show ?thesis using s(2,3,5) by (intro exI [of _ pkt] exI [of _ "n\<lparr>ln_heap := h'\<rparr>"]) simp
qed

text \<open>Behind the last entry of the array nothing is stored.\<close>

lemma put_control_behind:
  assumes al: "fresh_addresses al" "has_room al" and n: "node B X p m i (ln_heap n)" and room: "roomy (ln_heap n)"
    and x: "sendable x" "2 \<le> unat (ptype x)" "unat (ptype x) < 7"
    and k: "10 \<le> unat (li_last_send_control i)"
  shows "put_control_linux al p x n = Inl Out_of_bounds"
proof -
  from put_control_start [OF al n room, of x] obtain a h2 where
    start: "put_control_linux al p x n = rbind (store_message_linux al m i (Some a) h2) (\<lambda>(r, h'). Inr (n\<lparr>ln_heap := h'\<rparr>))"
    and h2: "parts B (insert a X) p m i h2" and
    o2: "objects h2 = (objects (ln_heap n))(a \<mapsto> Bytes (data_bytes x))" and room2: "roomy h2" .
  have "objects h2 a = Some (Bytes (data_bytes x))" by (simp add: o2)
  from copy_message [OF al h2 insertI1 this x(1) room2] obtain b h3 h4 where
    cp: "malloc_bytes al 256 h2 = (Some b, h3)" "copy_bytes h3 (Some a) 0 (Some b) 0 [0..<256] = Inr h4"
      "c_read (h4, Some a) 0 = Inr (ptype x)" by (elim exE conjE) (rule that)
  have "store_queued_linux al (unat (ptype x)) (Some b) i h4 = Inl Out_of_bounds"
    using x(2,3) k sized_lengths(2) [OF node_loaded(3) [OF n]]
    by (simp add: store_queued_linux_def construct_slot_linux_def)
  then show ?thesis
    unfolding start store_message_linux_def MAX_MESSAGE_SIZE_def cp(1) prod.case cp(2,3) rbind_simps by simp
qed

text \<open>\<open>put_control_linux\<close> is what the code does with a message that the queue delivers.\<close>

lemma read_message_puts:
  assumes al: "fresh_addresses al" "has_room al" and n: "node B X p m i (ln_heap n)" and room: "roomy (ln_heap n)"
    and recv: "\<And>junk old. length old = MAX_MESSAGE_SIZE \<Longrightarrow>
      recv_message_linux os junk Q (ln_kernel n) (ll_mac_queue_id m) old MAX_MESSAGE_SIZE 0 = Inr (ret, data_bytes x, pid, k)"
  shows "rbind (read_message_linux os al m i Q n) (\<lambda>(_, n'). Inr n') =
    rbind (put_control_linux al p x n) (\<lambda>n'. Inr (n'\<lparr>ln_queues := Q, ln_kernel := k\<rparr>))"
proof -
  from roomy_malloc [OF al room] obtain a bs where
    m1: "malloc_bytes al MAX_MESSAGE_SIZE (ln_heap n) =
      (Some a, (put (ln_heap n) a (Bytes bs))\<lparr>calls := Suc (calls (ln_heap n))\<rparr>)"
    and bs: "length bs = MAX_MESSAGE_SIZE" by metis
  let ?h1 = "(put (ln_heap n) a (Bytes bs))\<lparr>calls := Suc (calls (ln_heap n))\<rparr>"
  let ?h2 = "put ?h1 a (Bytes (data_bytes x))"
  have "load_bytes ?h1 (Some a) = Inr bs" "store ?h1 (Some a) (Bytes (data_bytes x)) = Inr ?h2"
    by (simp_all add: load_bytes_def load_def store_def)
  then show ?thesis
    unfolding read_message_linux_def put_control_linux_def node_loaded(1) [OF n] m1 prod.case
    by (cases "store_message_linux al m i (Some a) ?h2") (auto simp: recv [OF bs, unfolded MAX_MESSAGE_SIZE_def] split: prod.splits)
qed

section \<open>The queue\<close>

text \<open>The packets waiting to be sent, and how many more can be stored.\<close>

definition control_items_linux :: "nat option \<Rightarrow> 'k linux_node \<Rightarrow> DataPacket_t list" where
  "control_items_linux p n =
     (case with_mac p n (\<lambda>m i. Inr (ring_items (unat (li_last_send_control i)) (unat (li_packets_to_send_control i))
         (map (abs_linux (ln_heap n)) (li_control_packets_to_send i)))) of
       Inl _ \<Rightarrow> [] | Inr xs \<Rightarrow> xs)"

definition control_room_linux :: "nat option \<Rightarrow> 'k linux_node \<Rightarrow> nat" where
  "control_room_linux p n =
     (case with_mac p n (\<lambda>m i. Inr (MAX_NUMBER_DATA_PACKETS - unat (li_last_send_control i))) of
       Inl _ \<Rightarrow> 0 | Inr k \<Rightarrow> k)"

text \<open>The packet that the next \<open>mclmac_send_data_packet\<close> takes.\<close>

definition send_next_linux :: "allocator \<Rightarrow> nat option \<Rightarrow> 'k linux_node \<Rightarrow> (DataPacket_t \<times> 'k linux_node) result" where
  "send_next_linux al p n = with_mac p n (\<lambda>m i.
     rbind (mclmac_send_data_packet_linux al p n) (\<lambda>n'.
       Inr (abs_linux (ln_heap n)
         (if li_packets_to_send_control i > 0
          then li_control_packets_to_send i ! unat (li_first_send_control i)
          else li_message_packets_to_send i ! unat (li_first_send_message i)), n')))"

definition routing_packet :: "DataPacket_t \<Rightarrow> bool" where
  "routing_packet x \<longleftrightarrow> sendable x \<and> 2 \<le> unat (ptype x) \<and> unat (ptype x) < 7"

definition control_ring_linux :: "MAC_Internals_linux_t \<Rightarrow> c_heap \<Rightarrow> bool" where
  "control_ring_linux i h \<longleftrightarrow>
     unat (li_first_send_message i) \<le> MAX_NUMBER_DATA_PACKETS \<and>
     ring_ok MAX_NUMBER_DATA_PACKETS (unat (li_first_send_control i)) (unat (li_last_send_control i))
       (unat (li_packets_to_send_control i)) (map (abs_linux h) (li_control_packets_to_send i)) \<and>
     (\<forall>x \<in> set (ring_items (unat (li_last_send_control i)) (unat (li_packets_to_send_control i))
         (map (abs_linux h) (li_control_packets_to_send i))). sendable x)"

definition control_inv_linux :: "allocator \<Rightarrow> nat option \<Rightarrow> 'k linux_node \<Rightarrow> bool" where
  "control_inv_linux al p n \<longleftrightarrow> fresh_addresses al \<and> has_room al \<and> roomy (ln_heap n) \<and>
     (\<exists>B X m i. node B X p m i (ln_heap n) \<and> control_ring_linux i (ln_heap n))"

lemma control_linux_at:
  assumes "node B X p m i (ln_heap n)"
  shows "control_items_linux p n = ring_items (unat (li_last_send_control i)) (unat (li_packets_to_send_control i))
      (map (abs_linux (ln_heap n)) (li_control_packets_to_send i))"
    and "control_room_linux p n = 10 - unat (li_last_send_control i)"
  by (simp_all add: control_items_linux_def control_room_linux_def node_loaded(1) [OF assms])

lemma control_view:
  assumes "node B X p m i h" and "k < 10"
    and "keeps_bytes X (lp_data (li_control_packets_to_send i ! k)) h h'"
  shows "map (abs_linux h') ((li_control_packets_to_send i)[k := pkt]) =
    (map (abs_linux h) (li_control_packets_to_send i))[k := abs_linux h' pkt]"
proof -
  have h: "parts B X p m i h" using assms(1) by (simp add: node_def)
  show ?thesis
    by (rule view_update [OF h, of "li_message_packets_to_send i" _ "li_packets_received i"])
      (use assms(2,3) sized_lengths [OF h] in \<open>simp_all add: all_packets_def\<close>)
qed

lemma put_control_linux_ok:
  assumes inv: "control_inv_linux al p n" and x: "routing_packet x" and room: "0 < control_room_linux p n"
  shows "\<exists>n'. put_control_linux al p x n = Inr n' \<and> control_inv_linux al p n' \<and>
    control_items_linux p n' = control_items_linux p n @ [x] \<and>
    control_room_linux p n = Suc (control_room_linux p n')"
proof -
  from inv obtain B X m i where al: "fresh_addresses al" "has_room al" and r: "roomy (ln_heap n)"
    and n: "node B X p m i (ln_heap n)" and c: "control_ring_linux i (ln_heap n)"
    by (auto simp: control_inv_linux_def)
  note at = control_linux_at [OF n]
  have lt: "unat (li_last_send_control i) < 10" using room at(2) by simp
  from x have x': "sendable x" "2 \<le> unat (ptype x)" "unat (ptype x) < 7" by (simp_all add: routing_packet_def)
  from put_control_result [OF al n r x' lt] obtain pkt n' where
    put: "put_control_linux al p x n = Inr n'" and
    n': "node B X p m (i\<lparr>li_control_packets_to_send := (li_control_packets_to_send i)[unat (li_last_send_control i) := pkt],
      li_last_send_control := li_last_send_control i + 1,
      li_packets_to_send_control := li_packets_to_send_control i + 1\<rparr>) (ln_heap n')"
    and v: "abs_linux (ln_heap n') pkt = x" and r': "roomy (ln_heap n')" and
    kept: "keeps_bytes X (lp_data (li_control_packets_to_send i ! unat (li_last_send_control i))) (ln_heap n) (ln_heap n')"
    by (elim exE conjE) (rule that)
  note view = control_view [OF n lt kept, of pkt, unfolded v]
  have ring: "ring_ok 10 (unat (li_first_send_control i)) (unat (li_last_send_control i))
      (unat (li_packets_to_send_control i)) (map (abs_linux (ln_heap n)) (li_control_packets_to_send i))"
    using c by (simp add: control_ring_linux_def)
  have cnt: "unat (li_packets_to_send_control i + 1) = Suc (unat (li_packets_to_send_control i))"
    and lst: "unat (li_last_send_control i + 1) = Suc (unat (li_last_send_control i))"
    using ring lt by (auto simp: ring_ok_def intro!: unat_inc)
  note ring' = ring_put [OF ring lt, of x]
  have "control_inv_linux al p n'"
    unfolding control_inv_linux_def
    by (intro conjI al r' exI, rule n') (use c ring' x'(1) in \<open>simp add: control_ring_linux_def view cnt lst\<close>)
  moreover have "control_items_linux p n' = control_items_linux p n @ [x]"
    using ring'(2) by (simp add: at(1) control_linux_at(1) [OF n'] view cnt lst)
  moreover have "control_room_linux p n = Suc (control_room_linux p n')"
    using lt by (simp add: at(2) control_linux_at(2) [OF n'] lst)
  ultimately show ?thesis using put by blast
qed

lemma send_next_linux_ok:
  assumes inv: "control_inv_linux al p n" and items: "control_items_linux p n = x # xs"
  shows "\<exists>n'. send_next_linux al p n = Inr (x, n') \<and> control_inv_linux al p n' \<and>
    control_items_linux p n' = xs \<and> control_room_linux p n' = control_room_linux p n"
proof -
  from inv obtain B X m i where al: "fresh_addresses al" "has_room al" and r: "roomy (ln_heap n)"
    and n: "node B X p m i (ln_heap n)" and c: "control_ring_linux i (ln_heap n)"
    by (auto simp: control_inv_linux_def)
  note at = control_linux_at [OF n] and len = sized_lengths [OF node_loaded(3) [OF n]]
  let ?view = "map (abs_linux (ln_heap n)) (li_control_packets_to_send i)"
  have ring: "ring_ok 10 (unat (li_first_send_control i)) (unat (li_last_send_control i))
      (unat (li_packets_to_send_control i)) ?view"
    and ok: "\<forall>y \<in> set (x # xs). sendable y" and fsm: "unat (li_first_send_message i) \<le> 10"
    using c items by (simp_all add: control_ring_linux_def at(1))
  have pos: "0 < unat (li_packets_to_send_control i)"
    using items by (cases "unat (li_packets_to_send_control i)") (simp_all add: at(1) ring_items_def)
  then have nz: "li_packets_to_send_control i \<noteq> 0" "0 < li_packets_to_send_control i" by (auto simp: word_gt_0)
  note get = ring_get [OF ring pos] and first = ring_first [OF ring pos]
  have hd: "abs_linux (ln_heap n) (li_control_packets_to_send i ! unat (li_first_send_control i)) = x"
    and tl: "ring_items (unat (li_last_send_control i)) (unat (li_packets_to_send_control i) - 1) ?view = xs"
    using items first(2,3) len by (simp_all add: at(1))
  from send_control_result [OF al n r nz(2) fsm first(2)] hd ok obtain pkt n' where
    send: "mclmac_send_data_packet_linux al p n = Inr n'" and
    n': "node B X p m (i\<lparr>li_control_packets_to_send := (li_control_packets_to_send i)[unat (li_first_send_control i) := pkt],
      li_first_send_control := of_nat ((unat (li_first_send_control i) + 1) mod 10),
      li_packets_to_send_control := li_packets_to_send_control i - 1\<rparr>) (ln_heap n')" and
    kept: "keeps_bytes X (lp_data (li_control_packets_to_send i ! unat (li_first_send_control i))) (ln_heap n) (ln_heap n')"
    and r': "roomy (ln_heap n')" by auto
  note view = control_view [OF n first(2) kept, of pkt]
  have cnt: "unat (li_packets_to_send_control i - 1) = unat (li_packets_to_send_control i) - 1"
    by (rule unat_minus_one [OF nz(1)])
  have "control_inv_linux al p n'"
    unfolding control_inv_linux_def
    by (intro conjI al r' exI, rule n')
      (use fsm get tl ok in \<open>simp add: control_ring_linux_def view cnt unat_mod_10\<close>)
  moreover have "control_items_linux p n' = xs"
    using get(2) tl by (simp add: control_linux_at(1) [OF n'] view cnt)
  moreover have "control_room_linux p n' = control_room_linux p n"
    by (simp add: at(2) control_linux_at(2) [OF n'])
  moreover have "send_next_linux al p n = Inr (x, n')"
    using nz(2) hd by (simp add: send_next_linux_def node_loaded(1) [OF n] send)
  ultimately show ?thesis by blast
qed

lemma put_control_linux_exhausted:
  assumes "control_inv_linux al p n" and "routing_packet x" and "control_room_linux p n = 0"
  shows "put_control_linux al p x n = Inl Out_of_bounds"
proof -
  from assms(1) obtain B X m i where al: "fresh_addresses al" "has_room al" and r: "roomy (ln_heap n)"
    and n: "node B X p m i (ln_heap n)" by (auto simp: control_inv_linux_def)
  have "10 \<le> unat (li_last_send_control i)" using assms(3) control_linux_at(2) [OF n] by simp
  from put_control_behind [OF al n r _ _ _ this] assms(2) show ?thesis by (simp add: routing_packet_def)
qed

interpretation linux_control_queue: exhaustible "put_control_linux al p" "send_next_linux al p"
  "control_items_linux p" "control_room_linux p" MAX_NUMBER_DATA_PACKETS routing_packet "control_inv_linux al p"
  for al p
  by unfold_locales (simp_all add: put_control_linux_ok send_next_linux_ok put_control_linux_exhausted)

text \<open>
  C28. The packets of the routing layer in the Linux build, where every packet has its own block of
  memory and every call of \<open>malloc\<close> finds a block. Take any interleaving of messages stored and
  packets sent, with at most ten packets waiting and one waiting at every call. If it stores at most
  as many packets as the array has entries not used since its counters were zero, ten then, the packets are
  sent in the order they were stored, none is lost, and none changes while it waits. If it stores
  more, it ends with a write behind the end of the array.
\<close>

theorem linux_packets_sent_in_order:
  assumes "control_inv_linux al p n" and "\<forall>x \<in> set (inserted ops). routing_packet x"
    and "feasible MAX_NUMBER_DATA_PACKETS (length (control_items_linux p n)) ops"
    and "length (control_items_linux p n) \<le> MAX_NUMBER_DATA_PACKETS"
  shows "if length (inserted ops) \<le> control_room_linux p n
    then \<exists>sent n'. run_queue (put_control_linux al p) (send_next_linux al p) ops n = Inr (sent, n') \<and>
      control_inv_linux al p n' \<and> sent @ control_items_linux p n' = control_items_linux p n @ inserted ops
    else run_queue (put_control_linux al p) (send_next_linux al p) ops n = Inl Out_of_bounds"
  by (rule linux_control_queue.run_outcome [OF assms])

lemma init_start_node_rings:
  "\<exists>Q h m i. MCLMAC_init_linux lowest_free (None :: nat option) (ln_queues start_node) (ln_heap start_node) = Inr (Some 0, Q, h) \<and>
    load_layer h (Some 0) = Inr m \<and> load_internals h (ll_mac m) = Inr i \<and>
    li_first_send_message i = 0 \<and> li_first_send_control i = 0 \<and> li_last_send_control i = 0 \<and>
    li_packets_to_send_control i = 0"
  by (simp add: start_node_def c_malloc_def lowest_free_def store_def put_def MCLMAC_init_linux_def
      MAC_internals_init_linux_def malloc_zeroed_def controlpacket_init_linux_def Let_def
      init_static_linux replicate_10 create_queue_linux_def no_queue_linux_def no_thread_linux_def
      queue_name_1_2 NAME_BYTES_def load_layer_def load_internals_def load_frame_def load_def
      zero_internals_linux_def)

lemma start_node_queue:
  obtains Q h where
    "MCLMAC_init_linux lowest_free (None :: nat option) (ln_queues start_node) (ln_heap start_node) = Inr (Some 0, Q, h)"
    "\<forall>n :: 'k linux_node. ln_heap n = h \<longrightarrow> control_inv_linux lowest_free (Some 0) n \<and>
      control_items_linux (Some 0) n = [] \<and> control_room_linux (Some 0) n = 10"
proof -
  obtain Q h m i f where
    init: "MCLMAC_init_linux lowest_free (None :: nat option) (ln_queues start_node) (ln_heap start_node) = Inr (Some 0, Q, h)"
    and n: "node (objects (ln_heap start_node)) {} (Some 0) m i h"
    and c: "calls h = 5" "dom (objects h) = {0, 1, 2, 3, 4}" by (rule start_node_ready)
  have l: "load_layer h (Some 0) = Inr m" "load_internals h (ll_mac m) = Inr i"
    using n by (simp_all add: node_def parts_def)
  with init_start_node_rings init have z: "li_first_send_message i = 0" "li_first_send_control i = 0"
    "li_last_send_control i = 0" "li_packets_to_send_control i = 0" by auto
  have len: "length (li_control_packets_to_send i) = 10" using sized_lengths n by (auto simp: node_def)
  have ring: "control_ring_linux i h" by (simp add: control_ring_linux_def z ring_ok_def ring_items_def len)
  have room: "roomy h" by (simp add: roomy_def c)
  have "control_inv_linux lowest_free (Some 0) k \<and> control_items_linux (Some 0) k = [] \<and>
      control_room_linux (Some 0) k = 10" if k: "ln_heap k = h" for k :: "'k linux_node"
  proof (intro conjI)
    have nk: "node (objects (ln_heap start_node)) {} (Some 0) m i (ln_heap k)" using n k by simp
    show "control_inv_linux lowest_free (Some 0) k"
      unfolding control_inv_linux_def using lowest_free_fresh lowest_free_room room ring nk k by blast
    show "control_items_linux (Some 0) k = []" "control_room_linux (Some 0) k = 10"
      by (simp_all add: control_linux_at [OF nk] z ring_items_def)
  qed
  with that init show thesis by blast
qed

lemma sample_routing: "routing_packet sample_packet"
  using sample_sendable by (simp add: routing_packet_def sample_packet_def)

lemma linux_packets_sent_in_order_witness:
  "\<exists>Q h n'. MCLMAC_init_linux lowest_free (None :: nat option) (ln_queues start_node) (ln_heap start_node) = Inr (Some 0, Q, h) \<and>
    run_queue (put_control_linux lowest_free (Some 0)) (send_next_linux lowest_free (Some 0))
      [Some sample_packet, Some sample_packet, None] (start_node\<lparr>ln_heap := h\<rparr>) = Inr ([sample_packet], n')"
proof -
  obtain Q h where
    init: "MCLMAC_init_linux lowest_free (None :: nat option) (ln_queues start_node) (ln_heap start_node) = Inr (Some 0, Q, h)" and
    r: "\<forall>n :: mq_kernel linux_node. ln_heap n = h \<longrightarrow> control_inv_linux lowest_free (Some 0) n \<and>
      control_items_linux (Some 0) n = [] \<and> control_room_linux (Some 0) n = 10"
    by (rule start_node_queue)
  let ?n = "start_node\<lparr>ln_heap := h\<rparr>" and ?ops = "[Some sample_packet, Some sample_packet, None]"
  have n: "control_inv_linux lowest_free (Some 0) ?n" "control_items_linux (Some 0) ?n = []"
    "control_room_linux (Some 0) ?n = 10" using r [rule_format, of ?n] by simp_all
  have "\<forall>x \<in> set (inserted ?ops). routing_packet x"
    "feasible MAX_NUMBER_DATA_PACKETS (length (control_items_linux (Some 0) ?n)) ?ops"
    "length (control_items_linux (Some 0) ?n) \<le> MAX_NUMBER_DATA_PACKETS"
    using sample_routing n(2,3) by simp_all
  from linux_packets_sent_in_order [OF n(1) this] n(3) obtain sent n' where
    q: "run_queue (put_control_linux lowest_free (Some 0)) (send_next_linux lowest_free (Some 0)) ?ops ?n = Inr (sent, n')"
    "sent @ control_items_linux (Some 0) n' = [sample_packet, sample_packet]" using n(2) by auto
  from run_queue_length [OF q(1)] have "length sent = Suc 0" by simp
  with q(2) have "sent = [sample_packet]" by (auto simp: length_Suc_conv)
  with q(1) init show ?thesis by blast
qed

end
