(* ===== verification/Spec2Isabelle.thy ===== *)
theory Spec2Isabelle
  imports Timer_Accounting Slot_Sharing Memory_Accounting Linux_Sending
begin

text \<open>
  \<^bold>\<open>A verification library for WMN-IoT\<close>, the MAC layer of a wireless mesh network on RIOT.

  \<^bold>\<open>The program.\<close> A node runs a state machine (\<open>MAC/MAC_StateMachine.c\<close>): START, INITIALIZATION
  (is there a network?), SYNCHRONIZATION (join it), TIMESLOT_AND_CHANNEL_SELECTION and
  MEDIUM_ACCESS. In MEDIUM_ACCESS it runs a second machine, the power mode machine
  (\<open>MAC/MAC_PowerMode_StateMachine.c\<close>), once per slot: PASSIVE (sleep for a slot, exchange packets
  with the upper layers), ACTIVE (the contention-free phase, in which the nodes announce whom they
  want to talk to), TRANSMIT or RECEIVE. Both use the packet handlers (\<open>MAC/Packets_Handlers.c\<close>),
  the packet formats (\<open>MAC/ControlPacket.c\<close>, \<open>CFPacket.c\<close>, \<open>DataPacket.c\<close>), the state of the layer
  (\<open>MAC/MCLMAC.c\<close>, \<open>MAC_Internals.c\<close>), the software timers (\<open>utils/timeouts.c\<close>), the message
  queues between the layers (\<open>ipc-queues/ipc-queues.c\<close>) and, for byte strings, the linked arrays of
  \<open>utils/memory.c\<close>.

  \<^bold>\<open>What is modelled.\<close> The RIOT build, and of the packet formats, the timers, the message
  queues and the memory of the MAC layer the Linux build as well. The data packets of the MAC layer
  are modelled three times: with their payload in a list, as the state machines use them, in the
  block pool of RIOT, and on the heap of the C library in Linux. Every
  function is a definition with the name it has in C (with \<open>heap_\<close> in front over the pool, \<open>_linux\<close>
  behind in the Linux build); a \<open>switch\<close> over the states is one definition
  per state (\<open>execute_passive\<close>, \<open>execute_synchronization\<close>, ...) and a dispatch with the name of the
  function; a loop body is a definition of its own (\<open>passive_round\<close>, \<open>sync_round\<close>, ...). Integers
  keep their width. A C function that can fail an assertion, leave an array or read memory without
  a value returns \<open>Inl\<close> of the fault, else \<open>Inr\<close> of its result. The theories:

  \<^item> \<open>Prelude\<close>, \<open>Config\<close>: machine words, faults, sequencing; the constants of the build.
  \<^item> \<open>Byte_Array\<close>, \<open>Memory\<close>: the array macros. The locale \<open>byte_array\<close> is their interface; it is
    interpreted on flat arrays and on the linked blocks of \<open>memory.c\<close>, for which the refinement
    \<open>linked_array_refines_flat\<close> lets everything proved of flat arrays hold. RIOT's block allocator
    \<open>memarray\<close> is a parameter.
  \<^item> \<open>Control_Packet\<close>, \<open>CF_Packet\<close>, \<open>Data_Packet\<close>, \<open>Codec_Totality\<close>: encoders and decoders, their
    round trips and the bounds beyond which these fail.
  \<^item> \<open>Timeouts\<close>: twenty software timeouts over one one-shot timer; the state is reachable by the
    operations and the interrupt in any order (\<open>timeouts_reach\<close>). The locale \<open>timer_service\<close> is what the
    MAC layer relies on.
  \<^item> \<open>Timeouts_Linux\<close>: the same over a POSIX timer, with delays in floating point: a \<open>double\<close> is a
    rational, and each operation is the exact one rounded by the parameter \<open>rnd\<close> with the laws
    \<open>rounding\<close>; \<open>linux_reach\<close> are its runs.
  \<^item> \<open>Channels\<close>, \<open>Ipc_Queues\<close>, \<open>Mac_Queues\<close>: the locale \<open>fifo\<close> states what one insertion and one
    removal do and follows any interleaving of them; \<open>exhaustible\<close> extends it by what happens when the
    capacity for insertions is used up. They are interpreted on the message queues and on the packet
    queues of the MAC layer, so that the theorems on the order of messages and packets say what becomes
    of every run: complete and in order, or the write behind the array. The kernel's message passing is the parameter \<open>'k rtos\<close>
    with the law \<open>messages_in_order\<close>.
  \<^item> \<open>Ipc_Queues_Linux\<close>, \<open>Ipc_Linux_Delivery\<close>: the same queues over POSIX message queues, whose calls
    are the parameter \<open>'k posix\<close> with the laws \<open>posix_queues\<close>: the names in every reachable
    state, what interrupting signals and refused messages do to a send and a receive. \<open>fifo\<close> is an
    instance of the locale \<open>metered\<close>, in which an insertion may spend several entries of a budget, here
    the signals that may interrupt it.
  \<^item> \<open>Mac_State\<close>: the records \<open>Frame_t\<close>, \<open>MAC_Internals_t\<close>, \<open>MCLMAC_t\<close>, their life cycle and access
    functions.
  \<^item> \<open>World\<close>: what a function of the MAC layer can reach, and the environment. A waiting loop
    consumes one entry of the \<open>script\<close> per round: the time that passes, the timer interrupts, what
    other threads do to the kernel. The length of the script is the fuel of every loop, and it is
    enough (\<open>run_loop_unfold\<close>): a loop that is still waiting when the script ends is the fault
    \<open>Still_running\<close>. A property of every script is one of every behaviour of the environment; a
    property that a loop ends says what the script must contain.
  \<^item> \<open>Packet_Handlers\<close>, \<open>Hardware_Radio\<close>: the handlers of the native build, whose stubs stand for
    the radio (the parameter \<open>testing\<close> is the build flag \<open>TESTING\<close>), and the branches for the
    nRF24L01+ over a parameter \<open>'k netdev\<close>.
  \<^item> \<open>Power_Mode\<close>, \<open>Frames\<close>, \<open>Power_Mode_Props\<close>, \<open>Power_Mode_Outcomes\<close>, \<open>Power_Mode_Progress\<close>,
    \<open>Active_Progress\<close>: the power mode machine; what its states leave alone, what they decide, and
    when they end. \<open>run_loop_ends\<close> is the rule for the total correctness of a waiting loop; \<open>lapses s n\<close>
    says of the environment that time passes in steps of any length below \<open>2 ^ 30\<close> microseconds, each
    followed by the timer interrupt, \<open>n\<close> of which last \<open>s\<close> microseconds at least; \<open>ticking\<close> is what
    stays true of a timer that runs meanwhile.
  \<^item> \<open>Mac_Machine\<close>, \<open>Mac_Machine_Props\<close>, \<open>Slot_Selection\<close>, \<open>Access_Progress\<close>, \<open>Machine_Runs\<close>: the
    MAC machine; its protocol (\<open>node_step\<close>, \<open>node_reach\<close>), the choice of a slot, a run through
    MEDIUM_ACCESS, concrete runs.
  \<^item> \<open>Node_Invariant\<close>, \<open>Data_Reception\<close>: the invariant of a node's data along all steps, the faults
    it excludes, and the one it does not.
  \<^item> \<open>Slot_Sharing\<close>: selection, control packet and adoption by a joining node put together.
  \<^item> \<open>Packet_Memory\<close>, \<open>Mac_Memory\<close>: the functions of \<open>DataPacket.c\<close> and of the MAC layer that allocate,
    over the pool of \<open>memory.c\<close> (\<open>heap_packet_create\<close>, \<open>heap_read_queue_element\<close>, ...). \<open>pool_inv\<close>: the
    arrays in use share no block; \<open>heap_inv\<close>: how many blocks are free or in packets.
  \<^item> \<open>Pool_Refinement\<close>, \<open>Memory_Accounting\<close>: the operations over the pool against those over lists;
    any sequence of them (\<open>heap_run\<close>), and the blocks that are lost.
  \<^item> \<open>Linux_Heap\<close>, \<open>Linux_Layer\<close>: the Linux build without \<open>NATIVE\<close> and \<open>TESTING\<close>: the heap, whose
    \<open>malloc\<close> is the parameter \<open>allocator\<close> with the law \<open>fresh_addresses\<close> and may fail at any call; the
    structures with their pointers; the life cycle of the packets, of \<open>MAC_Internals_t\<close> and of
    \<open>MCLMAC_t\<close>; every function of the layer that allocates.
  \<^item> \<open>Linux_Blocks\<close>, \<open>Linux_Memory\<close>, \<open>Linux_Life\<close>: \<open>layout\<close> states who owns the blocks of the heap;
    \<open>safe\<close> propagates through a function that it follows no dangling pointer; \<open>linux_program\<close> is
    the life of a layer under any sequence of calls (\<open>linux_run\<close>).
  \<^item> \<open>Linux_Sending\<close>: the contract \<open>fifo\<close> for the packets to send over that heap. \<open>roomy\<close>: no more blocks
    than calls of \<open>malloc\<close>, so that the next one finds an address; \<open>abs_linux\<close>: the packet a structure
    and its block stand for; \<open>keeps_bytes\<close>: what the other packets notice.
  \<^item> \<open>Timer_Accounting\<close>: which state holds which of the twenty timers, and the one that is lost.

  \<^bold>\<open>What the theorems show.\<close> Of the protocol: every step of a node is a step of the protocol
  (\<open>node_follows_protocol\<close>); MEDIUM_ACCESS ends through FINISHP only (\<open>medium_access_outcome\<close>); every
  power mode names an admissible successor (\<open>powermode_step\<close>); a node transmits in its own slot only
  (\<open>active_outcome\<close>) and accepts data from senders in sync only (\<open>receive_outcome\<close>); PASSIVE advances
  the slot by one (\<open>passive_advances_one_slot\<close>). Of progress: the
  contention-free phase ends, with the right decision, however the time passes
  (\<open>silent_active_ends\<close>); a collision is reported in the node's own slot and ends the access to the
  medium, whichever slot that is (\<open>collision_ends_access\<close>).
  Of the data: everything stays well formed (\<open>node_data_invariant\<close>), so no power mode but PASSIVE can
  fail (\<open>powermode_safe\<close>). Of the components: round trips, in-order delivery, expiry of timeouts,
  refinement of arrays and of the packet queues to the block pool (\<open>packet_queues_in_pool\<close>), which
  carries the theorems about lists over to the pool while 512 blocks are free. On Linux no function
  of the layer follows or releases a dangling pointer, whatever calls of \<open>malloc\<close> fail, and it is
  known what is left behind (\<open>linux_memory_safe\<close>); with memory at hand the packets leave in order
  (\<open>linux_packets_sent_in_order\<close>). Where the code does
  not do what it means to, the theorem says what it does:
  the wrong slot number for slots 8 to 15 (\<open>select_slot_spec\<close>), the slot that is not announced, so
  that a joining node takes it again (\<open>joining_node_shares_slot\<close>), the slot timer that is released too
  early (\<open>transmit_timeout_then_stuck\<close>) or, at the end of MEDIUM_ACCESS, never
  (\<open>medium_access_loses_timer\<close>), so that a node gets access at most twenty times
  (\<open>at_most_twenty_accesses\<close>), the byte strings that are never released, so that a node hears at most
  forty control packets (\<open>at_most_forty_control_packets\<close>), the garbage an interrupted Linux receive
  returns (\<open>linux_interrupted_receive\<close>), the Linux timer that is stopped when a timeout is set while
  another is due (\<open>linux_set_disarms\<close>), the byte strings and the layer without a frame of the Linux build
  (\<open>linux_listening_loses_memory\<close>, \<open>linux_init_out_of_memory\<close>), the missing routing queue
  (\<open>data_reception_stops_node\<close>), the
  swapped arguments that keep the radio from receiving (\<open>radio_receives_nothing\<close>), the indices that
  do not wrap around (\<open>message_storage_overrun\<close>).

  \<^bold>\<open>Bounds.\<close> The sizes are those of \<open>config_mac.h\<close> and \<open>config_ipc.h\<close>: 8 frequencies, 16 slots, 10
  packets per queue, 10 queues of 10 messages of 256 bytes, 20 timeouts, 10240 blocks. No property
  is stated for a smaller instance. ACTIVE needs ten lapses of the length of a contention-free slot:
  one for each of the eight slots, and one for each announcement, of which the first node makes two.
  An access to the medium that ends in a collision needs thirteen lapses of the length of a slot for
  each slot until the node's own (one for PASSIVE, ten for ACTIVE, two for the loop around them), at
  most all of the frame, and one each for STARTP and TRANSMIT.

  \<^bold>\<open>Not modelled.\<close> The Linux variants of the waiting loops of the state machines, which pass seconds
  instead of microseconds, and of the access functions, which go through pointers and only add the
  assertion that \<open>mac\<close> is not null; \<open>usleep\<close>; the buffer that \<open>recv_message\<close> allocates and releases on
  Linux, which is taken to be there; the
  branch of \<open>mclmac_receive_cf_message\<close> for the radio, which names a variable and a field that do not
  exist; sending over the radio, of which every call is commented out; \<open>main.c\<close>, the tests and the
  debug macros. The state machines run on packets in lists, in which allocation always succeeds: that
  the pool does the same is proved operation by operation, not for the machines as a whole.
\<close>

end
